(* ===== verification/Prelude.thy ===== *)
theory Prelude
  imports Main
begin

text \<open>
  What every component of the model shares: the collections the proofs draw on, Go's fixed
  width integers read as mathematical integers with the wrap-around written out, Go's
  \<open>time.Time\<close> and \<open>time.Duration\<close>, error results, and the generic list and map facts.

  A Go \<open>error\<close> return is a value of a sum type: \<open>Inl e\<close> where the code returns the error
  \<open>e\<close>, \<open>Inr x\<close> where it returns \<open>(x, nil)\<close>.
\<close>

named_theorems go_simps \<open>rewriting rules for the models of Go's standard library\<close>
named_theorems keeps \<open>operations that leave a field or an invariant of a state alone\<close>

subsection \<open>Error results\<close>

type_synonym ('e, 'a) result = "'e + 'a"

definition is_ok :: "('e, 'a) result \<Rightarrow> bool" where
  "is_ok r = (case r of Inl _ \<Rightarrow> False | Inr _ \<Rightarrow> True)"

lemma is_ok_simps [simp]: "is_ok (Inr x)" "\<not> is_ok (Inl e)"
  by (simp_all add: is_ok_def)

lemma is_ok_iff: "is_ok r \<longleftrightarrow> (\<exists>x. r = Inr x)"
  by (cases r) simp_all

definition bind_result :: "('e, 'a) result \<Rightarrow> ('a \<Rightarrow> ('e, 'b) result) \<Rightarrow> ('e, 'b) result" where
  "bind_result r f = (case r of Inl e \<Rightarrow> Inl e | Inr x \<Rightarrow> f x)"

lemma bind_result_simps [simp]:
  "bind_result (Inl e) f = Inl e" "bind_result (Inr x) f = f x"
  by (simp_all add: bind_result_def)

lemma bind_result_Inr_iff:
  "bind_result r f = Inr y \<longleftrightarrow> (\<exists>x. r = Inr x \<and> f x = Inr y)"
  by (cases r) simp_all

subsection \<open>64-bit signed integers\<close>

text \<open>
  Go's \<open>int64\<close> (and \<open>int\<close> on the 64-bit platforms the connector is built for). Values are
  integers between \<open>min_int64\<close> and \<open>max_int64\<close>; an operation whose exact result leaves
  the range is passed through \<open>wrap64\<close>, which is two's complement wrap-around.
\<close>

definition max_int64 :: int where "max_int64 = 9223372036854775807"
definition min_int64 :: int where "min_int64 = -9223372036854775808"

definition is_int64 :: "int \<Rightarrow> bool" where
  "is_int64 x \<longleftrightarrow> min_int64 \<le> x \<and> x \<le> max_int64"

definition wrap64 :: "int \<Rightarrow> int" where
  "wrap64 x = (x + 9223372036854775808) mod 18446744073709551616 - 9223372036854775808"

lemma wrap64_range: "is_int64 (wrap64 x)"
proof -
  have "0 \<le> (x + 9223372036854775808) mod 18446744073709551616"
    by simp
  moreover have "(x + 9223372036854775808) mod 18446744073709551616 < 18446744073709551616"
    by simp
  ultimately show ?thesis
    unfolding is_int64_def wrap64_def min_int64_def max_int64_def by linarith
qed

lemma wrap64_id [simp]: "is_int64 x \<Longrightarrow> wrap64 x = x"
  by (simp add: is_int64_def wrap64_def min_int64_def max_int64_def)

text \<open>Go's \<open>/\<close> truncates towards zero and \<open>%\<close> takes the sign of the dividend.\<close>

definition go_div :: "int \<Rightarrow> int \<Rightarrow> int" where
  "go_div a b = sgn a * sgn b * (\<bar>a\<bar> div \<bar>b\<bar>)"

definition go_mod :: "int \<Rightarrow> int \<Rightarrow> int" where
  "go_mod a b = a - go_div a b * b"

lemma go_div_nonneg: "0 \<le> a \<Longrightarrow> 0 < b \<Longrightarrow> go_div a b = a div b"
  by (cases "a = 0") (simp_all add: go_div_def)

lemma go_mod_nonneg: "0 \<le> a \<Longrightarrow> 0 < b \<Longrightarrow> go_mod a b = a mod b"
  by (simp add: go_mod_def go_div_nonneg minus_div_mult_eq_mod)

subsection \<open>Time\<close>

text \<open>
  A \<open>time.Time\<close> is its instant, in nanoseconds since the Unix epoch; a \<open>time.Duration\<close> is
  an \<open>int64\<close> count of nanoseconds. Comparison (\<open>Before\<close>, \<open>After\<close>, \<open>Equal\<close>) and
  \<open>Add\<close> act on the instant (Go's own range for instants is 292 billion years, which no input
  of the connector leaves). \<open>Sub\<close> saturates at the ends of the \<open>Duration\<close> range. The
  zero time is January 1 of year 1, UTC.
\<close>

type_synonym gotime = int
type_synonym duration = int

definition zero_time :: gotime where "zero_time = -62135596800000000000"

definition is_zero_time :: "gotime \<Rightarrow> bool" where "is_zero_time t \<longleftrightarrow> t = zero_time"

definition microsecond :: duration where "microsecond = 1000"
definition millisecond :: duration where "millisecond = 1000000"
definition second :: duration where "second = 1000000000"
definition hour :: duration where "hour = 3600000000000"

definition time_sub :: "gotime \<Rightarrow> gotime \<Rightarrow> duration" where
  "time_sub t u = max min_int64 (min max_int64 (t - u))"

lemma time_sub_pos: "0 < time_sub t u \<longleftrightarrow> u < t"
  by (auto simp: time_sub_def min_int64_def max_int64_def)

text \<open>\<open>UnixMilli\<close> rounds towards minus infinity on the instant: seconds and the non-negative
  nanosecond part are kept apart, and the latter is divided.\<close>

definition unix_milli :: "gotime \<Rightarrow> int" where "unix_milli t = t div millisecond"
definition from_unix_milli :: "int \<Rightarrow> gotime" where "from_unix_milli ms = ms * millisecond"

lemma unix_milli_roundtrip [simp]: "unix_milli (from_unix_milli ms) = ms"
  by (simp add: unix_milli_def from_unix_milli_def millisecond_def)

lemma unix_milli_mono: "t \<le> u \<Longrightarrow> unix_milli t \<le> unix_milli u"
  by (simp add: unix_milli_def millisecond_def zdiv_mono1)

subsection \<open>Lists\<close>

lemma list_all_filter: "list_all P (filter P xs)"
  by (induction xs) simp_all

lemma length_filter_partition:
  "length (filter P xs) + length (filter (\<lambda>x. \<not> P x) xs) = length xs"
  by (induction xs) simp_all

lemma map_of_Some_mem: "map_of xs k = Some v \<Longrightarrow> (k, v) \<in> set xs"
  by (rule map_of_SomeD)

lemma filter_ex_nonempty: "x \<in> set xs \<Longrightarrow> P x \<Longrightarrow> filter P xs \<noteq> []"
  by (induction xs) auto

text \<open>Take the first element that satisfies a predicate, as a Go loop with an early return.\<close>

lemma find_Some_mem: "find P xs = Some x \<Longrightarrow> x \<in> set xs \<and> P x"
  by (auto simp: find_Some_iff)

lemma find_None_all: "find P xs = None \<longleftrightarrow> (\<forall>x\<in>set xs. \<not> P x)"
  by (auto simp: find_None_iff)

end
