(* ===== verification/Go_Time.thy ===== *)
theory Go_Time
  imports Go_Strings
begin

text \<open>
  The part of Go's package \<^verbatim>\<open>time\<close> that the connector formats and parses with: the civil
  calendar in UTC, \<open>time.Date\<close>, the layouts \<open>RFC3339\<close>, \<open>2006-01\<close>, \<open>2006-01-02\<close> and
  \<open>20060102150405\<close>. Years are those from 1 to 9999, which the layouts print in four digits.
\<close>

subsection \<open>The civil calendar\<close>

text \<open>Days are counted from January 1, 1970; a year starts in March in the arithmetic.\<close>

definition days_of_civil :: "int \<Rightarrow> int \<Rightarrow> int \<Rightarrow> int" where
  "days_of_civil y m d =
     (let y' = (if m \<le> 2 then y - 1 else y);
          era = y' div 400; yoe = y' - era * 400;
          mp = (m + 9) mod 12;
          doy = (153 * mp + 2) div 5 + d - 1;
          doe = yoe * 365 + yoe div 4 - yoe div 100 + doy
      in era * 146097 + doe - 719468)"

definition civil_of_days :: "int \<Rightarrow> int \<times> int \<times> int" where
  "civil_of_days z0 =
     (let z = z0 + 719468; era = z div 146097; doe = z - era * 146097;
          yoe = (doe - doe div 1460 + doe div 36524 - doe div 146096) div 365;
          doy = doe - (365 * yoe + yoe div 4 - yoe div 100);
          mp = (5 * doy + 2) div 153;
          d = doy - (153 * mp + 2) div 5 + 1;
          m = (if mp < 10 then mp + 3 else mp - 9);
          y = yoe + era * 400 + (if m \<le> 2 then 1 else 0)
      in (y, m, d))"

definition day_length :: duration where "day_length = 86400000000000"

text \<open>\<open>time.Date\<close> in UTC; a month beyond December carries into the year.\<close>

definition go_date :: "int \<Rightarrow> int \<Rightarrow> int \<Rightarrow> gotime" where
  "go_date y m d = days_of_civil (y + (m - 1) div 12) ((m - 1) mod 12 + 1) 1 * day_length + (d - 1) * day_length"

definition time_year :: "gotime \<Rightarrow> int" where "time_year t = fst (civil_of_days (t div day_length))"
definition time_month :: "gotime \<Rightarrow> int" where "time_month t = fst (snd (civil_of_days (t div day_length)))"
definition time_day :: "gotime \<Rightarrow> int" where "time_day t = snd (snd (civil_of_days (t div day_length)))"

text \<open>Hours, minutes, seconds and nanoseconds of the day.\<close>

definition clock_of :: "gotime \<Rightarrow> int \<times> int \<times> int \<times> int" where
  "clock_of t = (let n = t mod day_length; s = n div second
     in (s div 3600, (s mod 3600) div 60, s mod 60, n mod second))"

subsection \<open>Layouts\<close>

text \<open>\<open>pad2\<close> and \<open>pad4\<close> print a non-negative number with leading zeros.\<close>

definition pad_to :: "nat \<Rightarrow> int \<Rightarrow> string" where
  "pad_to w n = (let s = itoa n in replicate (w - length s) (CHR ''0'') @ s)"

definition format_date :: "gotime \<Rightarrow> string" where
  "format_date t = pad_to 4 (time_year t) @ ''-'' @ pad_to 2 (time_month t) @ ''-'' @ pad_to 2 (time_day t)"

definition format_month :: "gotime \<Rightarrow> string" where
  "format_month t = pad_to 4 (time_year t) @ ''-'' @ pad_to 2 (time_month t)"

definition format_rfc3339 :: "gotime \<Rightarrow> string" where
  "format_rfc3339 t = (case clock_of t of (h, mi, s, _) \<Rightarrow>
     format_date t @ ''T'' @ pad_to 2 h @ '':'' @ pad_to 2 mi @ '':'' @ pad_to 2 s @ ''Z'')"

definition format_compact :: "gotime \<Rightarrow> string" where
  "format_compact t = (case clock_of t of (h, mi, s, _) \<Rightarrow>
     pad_to 4 (time_year t) @ pad_to 2 (time_month t) @ pad_to 2 (time_day t) @ pad_to 2 h @ pad_to 2 mi @ pad_to 2 s)"

subsection \<open>Parsing RFC 3339\<close>

definition fixed_digits :: "nat \<Rightarrow> string \<Rightarrow> (int \<times> string) option" where
  "fixed_digits w s =
     (if w \<le> length s \<and> list_all is_digit (take w s)
      then Some (int (digits_value (take w s)), drop w s) else None)"

definition expect_char :: "char \<Rightarrow> string \<Rightarrow> string option" where
  "expect_char c s = (case s of [] \<Rightarrow> None | d # r \<Rightarrow> if d = c then Some r else None)"

text \<open>Two-digit fields joined by one separator each.\<close>

fun parse_fields :: "(nat \<times> string) list \<Rightarrow> string \<Rightarrow> (int list \<times> string) option" where
  "parse_fields [] s = Some ([], s)"
| "parse_fields ((w, sep) # fs) s =
     (case fixed_digits w s of
        None \<Rightarrow> None
      | Some (v, r) \<Rightarrow>
          (if \<not> has_prefix r sep then None
           else (case parse_fields fs (trim_prefix r sep) of
                   None \<Rightarrow> None | Some (vs, r') \<Rightarrow> Some (v # vs, r'))))"

definition days_in_month :: "int \<Rightarrow> int \<Rightarrow> int" where
  "days_in_month y m =
     (if m = 2 then (if y mod 4 = 0 \<and> (y mod 100 \<noteq> 0 \<or> y mod 400 = 0) then 29 else 28)
      else if m = 4 \<or> m = 6 \<or> m = 9 \<or> m = 11 then 30 else 31)"

text \<open>An optional fraction of a second; digits beyond the ninth are cut off.\<close>

definition parse_fraction :: "string \<Rightarrow> (int \<times> string) option" where
  "parse_fraction s =
     (case s of
        [] \<Rightarrow> Some (0, [])
      | c # r \<Rightarrow>
          (if c = CHR ''.'' \<or> c = CHR '',''
           then (let ds = takeWhile is_digit r
                 in if ds = [] then None
                    else Some (int (digits_value (take 9 (ds @ replicate 9 (CHR ''0'')))), dropWhile is_digit r))
           else Some (0, s)))"

definition parse_zone :: "string \<Rightarrow> int option" where
  "parse_zone s =
     (if s = ''Z'' then Some 0
      else (case s of
              [] \<Rightarrow> None
            | c # r \<Rightarrow>
                (if c = CHR ''+'' \<or> c = CHR ''-''
                 then (case parse_fields [(2, '':''), (2, [])] r of
                         Some ([h, m], []) \<Rightarrow>
                           (if h \<le> 24 \<and> m < 60
                            then Some ((if c = CHR ''-'' then -1 else 1) * (h * 3600 + m * 60)) else None)
                       | _ \<Rightarrow> None)
                 else None)))"

definition parse_rfc3339 :: "string \<Rightarrow> gotime option" where
  "parse_rfc3339 s =
     (case parse_fields [(4, ''-''), (2, ''-''), (2, ''T''), (2, '':''), (2, '':''), (2, [])] s of
        Some ([y, mo, d, h, mi, sec], r) \<Rightarrow>
          (case parse_fraction r of
             None \<Rightarrow> None
           | Some (ns, z) \<Rightarrow>
               (case parse_zone z of
                  None \<Rightarrow> None
                | Some off \<Rightarrow>
                    (if 1 \<le> mo \<and> mo \<le> 12 \<and> 1 \<le> d \<and> d \<le> days_in_month y mo \<and> h < 24 \<and> mi < 60 \<and> sec < 60
                     then Some (days_of_civil y mo d * day_length + (h * 3600 + mi * 60 + sec - off) * second + ns)
                     else None)))
      | _ \<Rightarrow> None)"

subsection \<open>Months\<close>

definition month_start :: "gotime \<Rightarrow> gotime" where
  "month_start t = go_date (time_year t) (time_month t) 1"

definition next_month_start :: "gotime \<Rightarrow> gotime" where
  "next_month_start t = go_date (time_year t) (time_month t + 1) 1"


text \<open>The next month starts later.\<close>

definition year_days :: "int \<Rightarrow> int" where
  "year_days y = y div 400 * 146097 + (y - y div 400 * 400) * 365 + (y - y div 400 * 400) div 4
     - (y - y div 400 * 400) div 100"

lemma days_of_civil_year:
  "days_of_civil y m d = year_days (if m \<le> 2 then y - 1 else y) + (153 * ((m + 9) mod 12) + 2) div 5 + d - 719469"
  by (simp add: days_of_civil_def year_days_def Let_def)

lemma year_days_step: "year_days (y - 1) + 337 < year_days y"
proof -
  define e where "e = y div 400"
  define r where "r = y - e * 400"
  have r: "0 \<le> r" "r < 400" and y: "y = e * 400 + r" by (simp_all add: e_def r_def minus_div_mult_eq_mod)
  show ?thesis
  proof (cases "r = 0")
    case True
    have p: "(y - 1) div 400 = e - 1" using True y by linarith
    then have "(y - 1) - (y - 1) div 400 * 400 = 399" using True y by simp
    with p show ?thesis unfolding year_days_def e_def [symmetric] using True by (simp add: r_def [symmetric])
  next
    case False
    have p: "(y - 1) div 400 = e" using y r False by simp
    have q: "y - 1 - e * 400 = r - 1" using y by simp
    define a b c d where "a = r div 100" and "b = (r - 1) div 100" and "c = (r - 1) div 4" and "d = r div 4"
    have "a \<le> b + 1" "c \<le> d" unfolding a_def b_def c_def d_def by linarith+
    then show ?thesis
      unfolding year_days_def e_def [symmetric] r_def [symmetric] p q a_def [symmetric] b_def [symmetric]
        c_def [symmetric] d_def [symmetric]
      by simp
  qed
qed

lemma next_month_later: "month_start t < next_month_start t"
proof -
  define y where "y = time_year t"
  define m where "m = time_month t"
  define i where "i = (m - 1) mod 12"
  define q where "q = (m - 1) div 12"
  have m: "m = 12 * q + i + 1" and i: "0 \<le> i" "i < 12"
    using mult_div_mod_eq [of 12 "m - 1"] by (simp_all add: i_def q_def)
  have "days_of_civil (y + q) (i + 1) 1 <
    (if i = 11 then days_of_civil (y + q + 1) 1 1 else days_of_civil (y + q) (i + 2) 1)"
  proof -
    have "i = 0 \<or> i = 1 \<or> i = 2 \<or> i = 3 \<or> i = 4 \<or> i = 5 \<or> i = 6 \<or> i = 7 \<or> i = 8 \<or> i = 9 \<or> i = 10 \<or> i = 11"
      using i by presburger
    then consider "i = 0" | "i = 1" | "i = 2" | "i = 3" | "i = 4" | "i = 5" | "i = 6" | "i = 7" | "i = 8" | "i = 9"
      | "i = 10" | "i = 11" by blast
    then show ?thesis using year_days_step [of "y + q"] by cases (simp_all add: days_of_civil_year)
  qed
  moreover have "m div 12 = (if i = 11 then q + 1 else q)" "m mod 12 = (if i = 11 then 0 else i + 1)"
  proof -
    have "m = (i + 1) + 12 * q" using m by simp
    then have "m div 12 = (i + 1) div 12 + q" "m mod 12 = (i + 1) mod 12"
      using div_mult_self2 [of 12 "i + 1" q] mod_mult_self2 [of "i + 1" 12 q] by simp_all
    then show "m div 12 = (if i = 11 then q + 1 else q)" "m mod 12 = (if i = 11 then 0 else i + 1)"
      using i by auto
  qed
  ultimately have "go_date y m 1 < go_date y (m + 1) 1"
    by (auto simp: go_date_def i_def [symmetric] q_def [symmetric] day_length_def add.assoc)
  then show ?thesis by (simp add: month_start_def next_month_start_def y_def m_def)
qed

end
