(* ===== verification/Run_Store.thy ===== *)
theory Run_Store
  imports Go_Time
begin

text \<open>
  What a run of \<^verbatim>\<open>fabric/runner\<close> keeps outside its process: the files, the environment and the
  clock (\<open>world\<close>), the state file of \<^verbatim>\<open>state.go\<close>, the run lock of \<^verbatim>\<open>lock.go\<close> and the secret stores
  of \<^verbatim>\<open>secretstore.go\<close>. A JSON document is represented by the value it decodes to. Every file
  operation may fail, as \<open>w_fault\<close> says, removals included, and the error paths are the code's. The
  circumstances of one call are those of its world; between the calls of a sequence they change.
\<close>

subsection \<open>The world\<close>

record run_state =
  rs_watermarks :: "string \<rightharpoonup> gotime"
  rs_subscription_request_id :: string
  rs_month_to_date_calls :: "string \<rightharpoonup> int"
  rs_last_run :: gotime

datatype file_content = Text string | StateDoc run_state | SecretDoc "string \<rightharpoonup> string"

datatype io_step =
  IoRead | IoMkdir | IoCreateTemp | IoChmod | IoWrite | IoClose | IoRename | IoRemove | IoLockCreate | IoLockWrite

record world =
  w_files :: "string \<rightharpoonup> file_content"
  w_env :: "string \<Rightarrow> string"
  w_now :: gotime
  w_pid :: int
  w_tmp :: string
  w_temp_dir :: string
  w_fault :: "io_step \<Rightarrow> bool"

definition put_file :: "string \<Rightarrow> file_content \<Rightarrow> world \<Rightarrow> world" where
  "put_file p c w = w\<lparr>w_files := (w_files w)(p \<mapsto> c)\<rparr>"

text \<open>\<open>os.Remove\<close>, whose error the callers drop.\<close>

definition remove_file :: "string \<Rightarrow> world \<Rightarrow> world" where
  "remove_file p w = (if w_fault w IoRemove then w else w\<lparr>w_files := (w_files w)(p := None)\<rparr>)"

definition rename_file :: "string \<Rightarrow> string \<Rightarrow> world \<Rightarrow> world" where
  "rename_file p q w = w\<lparr>w_files := ((w_files w)(p := None))(q := w_files w p)\<rparr>"

definition read_text :: "string \<Rightarrow> world \<Rightarrow> string option" where
  "read_text p w =
     (if w_fault w IoRead then None
      else (case w_files w p of Some (Text s) \<Rightarrow> Some s | _ \<Rightarrow> None))"

text \<open>The name \<open>os.CreateTemp\<close> picks is one that no file has.\<close>

definition tmp_fresh :: "world \<Rightarrow> bool" where
  "tmp_fresh w \<longleftrightarrow> w_files w (w_tmp w) = None"

datatype runner_error =
  ReadingFile string | ParsingFile string | CreatingDirectory string | CreatingTemp | TempPermissions
  | WritingTemp | ClosingTemp | RenamingTemp
  | LockExists string | CreatingLock string | WritingLock string | RemovingFile string
  | SecretNotFound string | VaultToken | VaultRequest string | VaultStatus string int | VaultDecode string
  | UnknownSecretStoreKind string | AzureCredential
  | OneLakeNotConfigured | WritingSubscriptionState | IngestrFailed string string string
  | ConfigInvalid

subsection \<open>state.go\<close>

definition new_state :: run_state where
  "new_state = \<lparr>rs_watermarks = Map.empty, rs_subscription_request_id = [],
     rs_month_to_date_calls = Map.empty, rs_last_run = zero_time\<rparr>"

definition load_state :: "string \<Rightarrow> world \<Rightarrow> (runner_error, run_state) result" where
  "load_state path w =
     (if w_files w path = None then Inr new_state
      else if w_fault w IoRead then Inl (ReadingFile path)
      else (case w_files w path of
              Some (StateDoc st) \<Rightarrow> Inr st
            | _ \<Rightarrow> Inl (ParsingFile path)))"

definition save_state :: "run_state \<Rightarrow> string \<Rightarrow> world \<Rightarrow> (runner_error, unit) result \<times> world" where
  "save_state st path w =
     (if w_fault w IoMkdir then (Inl (CreatingDirectory path), w)
      else if w_fault w IoCreateTemp then (Inl CreatingTemp, w)
      else
        (let tmp = w_tmp w; w1 = put_file tmp (Text []) w
         in if w_fault w IoWrite then (Inl WritingTemp, remove_file tmp w1)
            else
              (let w2 = put_file tmp (StateDoc st) w1
               in if w_fault w IoClose then (Inl ClosingTemp, remove_file tmp w2)
                  else if w_fault w IoRename then (Inl RenamingTemp, remove_file tmp w2)
                  else (Inr (), rename_file tmp path w2))))"

definition month_bucket :: "gotime \<Rightarrow> string" where
  "month_bucket t = format_month t"

definition add_calls :: "run_state \<Rightarrow> gotime \<Rightarrow> int \<Rightarrow> run_state" where
  "add_calls st now n =
     (let m = rs_month_to_date_calls st; b = month_bucket now
      in st\<lparr>rs_month_to_date_calls :=
              m(b \<mapsto> wrap64 ((case m b of None \<Rightarrow> 0 | Some v \<Rightarrow> v) + n))\<rparr>)"

definition calls_this_month :: "run_state \<Rightarrow> gotime \<Rightarrow> int" where
  "calls_this_month st now =
     (case rs_month_to_date_calls st (month_bucket now) of None \<Rightarrow> 0 | Some v \<Rightarrow> v)"

lemma calls_after_add:
  "calls_this_month (add_calls st now n) t =
     (if month_bucket t = month_bucket now then wrap64 (calls_this_month st t + n) else calls_this_month st t)"
  by (auto simp: calls_this_month_def add_calls_def Let_def)

lemma add_calls_frame [simp]:
  "rs_watermarks (add_calls st now n) = rs_watermarks st"
  "rs_subscription_request_id (add_calls st now n) = rs_subscription_request_id st"
  by (simp_all add: add_calls_def Let_def)

lemma file_ops_frame [simp]:
  "w_fault (put_file p c w) = w_fault w" "w_fault (remove_file p w) = w_fault w"
  "w_fault (rename_file p q w) = w_fault w"
  "w_tmp (put_file p c w) = w_tmp w" "w_tmp (remove_file p w) = w_tmp w" "w_tmp (rename_file p q w) = w_tmp w"
  "w_env (put_file p c w) = w_env w" "w_env (remove_file p w) = w_env w"
  "w_env (rename_file p q w) = w_env w"
  "w_now (put_file p c w) = w_now w" "w_now (remove_file p w) = w_now w"
  "w_now (rename_file p q w) = w_now w"
  by (simp_all add: put_file_def remove_file_def rename_file_def)

lemma put_remove: "w_files w p = None \<Longrightarrow> \<not> w_fault w IoRemove \<Longrightarrow> remove_file p (put_file p c w) = w"
  by (simp add: put_file_def remove_file_def fun_upd_idem)

lemma other_files [simp]:
  "q \<noteq> p \<Longrightarrow> w_files (put_file p c w) q = w_files w q" "q \<noteq> p \<Longrightarrow> w_files (remove_file p w) q = w_files w q"
  "w_files (put_file p c w) p = Some c"
  by (simp_all add: put_file_def remove_file_def)

lemma put_put [simp]: "put_file p c (put_file p d w) = put_file p c w"
  by (simp add: put_file_def)

lemma put_rename:
  "w_files w p = None \<Longrightarrow> p \<noteq> q \<Longrightarrow> rename_file p q (put_file p c w) = put_file q c w"
  by (simp add: put_file_def rename_file_def fun_upd_idem)

text \<open>A save is all or nothing: it puts the document in place, or it leaves every file as it was, but for a
  temporary file that cannot be removed.\<close>

lemma save_state_ok:
  "tmp_fresh w \<Longrightarrow> w_tmp w \<noteq> path \<Longrightarrow> save_state st path w = (Inr (), w') \<Longrightarrow> w' = put_file path (StateDoc st) w"
  by (auto simp: save_state_def tmp_fresh_def put_rename Let_def split: if_splits)

lemma save_state_error:
  "save_state st path w = (Inl e, w') \<Longrightarrow> q \<noteq> w_tmp w \<Longrightarrow> w_files w' q = w_files w q"
  by (auto simp: save_state_def Let_def split: if_splits)

lemma save_state_undone:
  "tmp_fresh w \<Longrightarrow> \<not> w_fault w IoRemove \<Longrightarrow> save_state st path w = (Inl e, w') \<Longrightarrow> w' = w"
  by (auto simp: save_state_def tmp_fresh_def put_remove Let_def split: if_splits)

lemma save_state_load:
  "save_state st path w = (Inr (), w') \<Longrightarrow> \<not> w_fault w IoRead \<Longrightarrow> load_state path w' = Inr st"
  by (auto simp: save_state_def load_state_def put_file_def rename_file_def Let_def split: if_splits)

lemma save_state_env [simp]: "save_state st path w = (r, w') \<Longrightarrow> w_env w' = w_env w \<and> w_now w' = w_now w"
  by (auto simp: save_state_def Let_def split: if_splits)

subsection \<open>lock.go\<close>

definition acquire_lock :: "string \<Rightarrow> world \<Rightarrow> (runner_error, string) result \<times> world" where
  "acquire_lock path w =
     (if w_files w path \<noteq> None then (Inl (LockExists path), w)
      else if w_fault w IoLockCreate then (Inl (CreatingLock path), w)
      else if w_fault w IoLockWrite then (Inl (WritingLock path), put_file path (Text []) w)
      else (Inr path,
            put_file path (Text (''pid='' @ itoa (w_pid w) @ '' started='' @ format_rfc3339 (w_now w) @ [CHR 0x0A])) w))"

definition release_lock :: "string \<Rightarrow> world \<Rightarrow> (runner_error, unit) result \<times> world" where
  "release_lock path w =
     (if w_files w path = None \<or> w_fault w IoRemove then (Inl (RemovingFile path), w) else (Inr (), remove_file path w))"

lemma acquire_lock_held:
  "acquire_lock path w = (Inr l, w') \<Longrightarrow> acquire_lock path w' = (Inl (LockExists path), w')"
  by (auto simp: acquire_lock_def put_file_def split: if_splits)

lemma release_lock_frees:
  "acquire_lock path w = (Inr l, w1) \<Longrightarrow> \<not> w_fault w IoRemove \<Longrightarrow> release_lock l w1 = (Inr (), w)"
  by (auto simp: acquire_lock_def release_lock_def put_remove split: if_splits)

subsection \<open>secretstore.go\<close>

definition file_secrets :: "string \<Rightarrow> world \<Rightarrow> (runner_error, string \<rightharpoonup> string) result" where
  "file_secrets path w =
     (case w_files w path of
        None \<Rightarrow> Inr Map.empty
      | Some c \<Rightarrow>
          (if w_fault w IoRead then Inl (ReadingFile path)
           else (case c of
                   SecretDoc m \<Rightarrow> Inr m
                 | Text s \<Rightarrow> if s = [] then Inr Map.empty else Inl (ParsingFile path)
                 | StateDoc _ \<Rightarrow> Inl (ParsingFile path))))"

definition file_get_secret :: "string \<Rightarrow> string \<Rightarrow> world \<Rightarrow> (runner_error, string) result" where
  "file_get_secret path name w =
     bind_result (file_secrets path w)
       (\<lambda>m. case m name of None \<Rightarrow> Inl (SecretNotFound name) | Some v \<Rightarrow> Inr v)"

definition file_set_secret :: "string \<Rightarrow> string \<Rightarrow> string \<Rightarrow> world \<Rightarrow> (runner_error, unit) result \<times> world" where
  "file_set_secret path name value w =
     (case file_secrets path w of
        Inl e \<Rightarrow> (Inl e, w)
      | Inr m \<Rightarrow>
          (if w_fault w IoMkdir then (Inl (CreatingDirectory path), w)
           else if w_fault w IoCreateTemp then (Inl CreatingTemp, w)
           else
             (let tmp = w_tmp w; w1 = put_file tmp (Text []) w
              in if w_fault w IoChmod then (Inl TempPermissions, remove_file tmp w1)
                 else if w_fault w IoWrite then (Inl WritingTemp, remove_file tmp w1)
                 else
                   (let w2 = put_file tmp (SecretDoc (m(name \<mapsto> value))) w1
                    in if w_fault w IoClose then (Inl ClosingTemp, remove_file tmp w2)
                       else if w_fault w IoRename then (Inl RenamingTemp, remove_file tmp w2)
                       else (Inr (), rename_file tmp path w2)))))"

text \<open>Azure Key Vault is a service: its answers are a parameter. A request carries the
  secret's name and, to set it, the value.\<close>

datatype vault_reply = VaultNoToken | VaultUnreachable | VaultReply int "string option"

record vault_api =
  va_credential :: bool
  va_call :: "string \<Rightarrow> string option \<Rightarrow> world \<Rightarrow> vault_reply \<times> world"

definition vault_url :: "string \<Rightarrow> string \<Rightarrow> string" where
  "vault_url base name = base @ ''/secrets/'' @ name @ ''?api-version=7.4''"

definition vault_get_secret :: "vault_api \<Rightarrow> string \<Rightarrow> string \<Rightarrow> world \<Rightarrow> (runner_error, string) result \<times> world" where
  "vault_get_secret va base name w =
     (case va_call va (vault_url base name) None w of
        (VaultNoToken, w') \<Rightarrow> (Inl VaultToken, w')
      | (VaultUnreachable, w') \<Rightarrow> (Inl (VaultRequest name), w')
      | (VaultReply status body, w') \<Rightarrow>
          (if status \<noteq> 200 then (Inl (VaultStatus name status), w')
           else (case body of None \<Rightarrow> (Inl (VaultDecode name), w') | Some v \<Rightarrow> (Inr v, w'))))"

definition vault_set_secret ::
  "vault_api \<Rightarrow> string \<Rightarrow> string \<Rightarrow> string \<Rightarrow> world \<Rightarrow> (runner_error, unit) result \<times> world" where
  "vault_set_secret va base name value w =
     (case va_call va (vault_url base name) (Some value) w of
        (VaultNoToken, w') \<Rightarrow> (Inl VaultToken, w')
      | (VaultUnreachable, w') \<Rightarrow> (Inl (VaultRequest name), w')
      | (VaultReply status body, w') \<Rightarrow>
          (if status \<noteq> 200 then (Inl (VaultStatus name status), w') else (Inr (), w')))"

datatype secret_store_ref = FileStore string | KeyVaultStore string

definition new_secret_store :: "vault_api \<Rightarrow> string \<Rightarrow> string \<Rightarrow> string \<Rightarrow> (runner_error, secret_store_ref) result" where
  "new_secret_store va kind file_path vault =
     (if kind = ''file'' then Inr (FileStore file_path)
      else if kind = ''keyvault'' then
        (if \<not> va_credential va then Inl AzureCredential
         else Inr (KeyVaultStore (if has_suffix vault ''/'' then butlast vault else vault)))
      else Inl (UnknownSecretStoreKind kind))"

definition get_secret :: "vault_api \<Rightarrow> secret_store_ref \<Rightarrow> string \<Rightarrow> world \<Rightarrow> (runner_error, string) result \<times> world" where
  "get_secret va ref name w =
     (case ref of
        FileStore path \<Rightarrow> (file_get_secret path name w, w)
      | KeyVaultStore base \<Rightarrow> vault_get_secret va base name w)"

definition set_secret ::
  "vault_api \<Rightarrow> secret_store_ref \<Rightarrow> string \<Rightarrow> string \<Rightarrow> world \<Rightarrow> (runner_error, unit) result \<times> world" where
  "set_secret va ref name value w =
     (case ref of
        FileStore path \<Rightarrow> file_set_secret path name value w
      | KeyVaultStore base \<Rightarrow> vault_set_secret va base name value w)"

subsection \<open>The contract of a secret store\<close>

text \<open>What the runner relies on: a \<open>SetSecret\<close> that succeeds changes what the store holds under that name and
  nothing else, and one that fails changes nothing. Between two calls the circumstances change (\<open>turn\<close>),
  but not what is held.\<close>

locale secret_store =
  fixes held :: "'s \<Rightarrow> string \<rightharpoonup> string"
    and store :: "string \<Rightarrow> string \<Rightarrow> 's \<Rightarrow> ('e, unit) result \<times> 's"
    and turn :: "'c \<Rightarrow> 's \<Rightarrow> 's"
    and fit :: "'c \<Rightarrow> bool"
  assumes stored: "fit c \<Longrightarrow> store n v (turn c s) = (Inr (), s') \<Longrightarrow> held s' = (held s)(n \<mapsto> v)"
    and failed: "fit c \<Longrightarrow> store n v (turn c s) = (Inl e, s') \<Longrightarrow> held s' = held s"
begin

fun rotations :: "string \<Rightarrow> (string \<times> 'c) list \<Rightarrow> 's \<Rightarrow> ('e, unit) result list \<times> 's" where
  "rotations n [] s = ([], s)"
| "rotations n ((v, c) # calls) s =
     (case store n v (turn c s) of (r, s1) \<Rightarrow> (case rotations n calls s1 of (rs, s2) \<Rightarrow> (r # rs, s2)))"

end

text \<open>The value that the last successful call stored.\<close>

fun last_stored :: "string option \<Rightarrow> (string \<times> 'c) list \<Rightarrow> ('e, unit) result list \<Rightarrow> string option" where
  "last_stored v0 ((v, c) # calls) (r # rs) = last_stored (if r = Inr () then Some v else v0) calls rs"
| "last_stored v0 _ _ = v0"

context secret_store
begin

text \<open>Whatever fails in between, the store holds what was last stored.\<close>

lemma rotations_hold:
  assumes "\<forall>(v, c)\<in>set calls. fit c" "rotations n calls s = (rs, s')"
  shows "length rs = length calls \<and> held s' = (held s)(n := last_stored (held s n) calls rs)"
  using assms
proof (induction calls arbitrary: s rs)
  case (Cons call calls)
  obtain v c where call: "call = (v, c)" by (cases call)
  obtain r s1 where r: "store n v (turn c s) = (r, s1)" by (cases "store n v (turn c s)")
  obtain rs1 where rs: "rotations n calls s1 = (rs1, s')" "rs = r # rs1"
    using Cons.prems(2) r call by (auto split: prod.splits)
  have IH: "length rs1 = length calls \<and> held s' = (held s1)(n := last_stored (held s1 n) calls rs1)"
    using Cons.IH [OF _ rs(1)] Cons.prems(1) by (auto simp: fun_eq_iff)
  have fit: "fit c" using Cons.prems(1) call by simp
  show ?case
  proof (cases r)
    case (Inl e)
    then have "held s1 = held s" using failed [OF fit] r by blast
    then show ?thesis using IH Inl rs(2) call by simp
  next
    case (Inr u)
    then have "held s1 = (held s)(n \<mapsto> v)" using stored [OF fit] r by simp
    then show ?thesis using IH Inr rs(2) call by simp
  qed
qed simp

end

text \<open>The file store: what it holds, and the circumstances of a call, which are the steps that fail in it and
  the name that \<open>os.CreateTemp\<close> picks for it.\<close>

definition held_secrets :: "string \<Rightarrow> world \<Rightarrow> string \<rightharpoonup> string" where
  "held_secrets path w = (case w_files w path of Some (SecretDoc m) \<Rightarrow> m | _ \<Rightarrow> Map.empty)"

definition in_circumstances :: "(io_step \<Rightarrow> bool) \<times> string \<Rightarrow> world \<Rightarrow> world" where
  "in_circumstances c w = w\<lparr>w_fault := fst c, w_tmp := snd c\<rparr>"

lemma in_circumstances_simps [simp]:
  "w_files (in_circumstances c w) = w_files w" "w_fault (in_circumstances c w) = fst c" "w_tmp (in_circumstances c w) = snd c"
  by (simp_all add: in_circumstances_def)

lemma file_get_held:
  "\<not> w_fault w IoRead \<Longrightarrow> w_files w path = Some (SecretDoc m) \<Longrightarrow>
     file_get_secret path n w = (case held_secrets path w n of None \<Rightarrow> Inl (SecretNotFound n) | Some v \<Rightarrow> Inr v)"
  by (simp add: file_get_secret_def file_secrets_def held_secrets_def)

lemma file_secrets_held: "file_secrets path w = Inr m \<Longrightarrow> m = held_secrets path w"
  by (auto simp: file_secrets_def held_secrets_def split: option.splits file_content.splits if_splits)

lemma file_set_secret_ok:
  assumes "file_set_secret path n v w = (Inr (), w')" "w_tmp w \<noteq> path"
  shows "w_files w' = (w_files w)(w_tmp w := None, path \<mapsto> SecretDoc ((held_secrets path w)(n \<mapsto> v)))"
  using assms
  by (auto simp: file_set_secret_def rename_file_def put_file_def Let_def fun_eq_iff
      split: sum.splits if_splits dest: file_secrets_held)

lemma file_set_secret_error:
  "file_set_secret path n v w = (Inl e, w') \<Longrightarrow> q \<noteq> w_tmp w \<Longrightarrow> w_files w' q = w_files w q"
  by (auto simp: file_set_secret_def Let_def split: sum.splits if_splits)

text \<open>The steps of a \<open>SetSecret\<close>; it succeeds when none of them fails.\<close>

definition set_secret_steps :: "io_step list" where
  "set_secret_steps = [IoRead, IoMkdir, IoCreateTemp, IoChmod, IoWrite, IoClose, IoRename]"

lemma file_set_secret_result:
  "w_files w path = Some (SecretDoc m) \<Longrightarrow>
     fst (file_set_secret path n v w) = Inr () \<longleftrightarrow> list_all (\<lambda>i. \<not> w_fault w i) set_secret_steps"
  by (auto simp: file_set_secret_def file_secrets_def set_secret_steps_def Let_def)

interpretation file_store: secret_store "held_secrets path" "file_set_secret path" in_circumstances "\<lambda>c. snd c \<noteq> path" for path
proof unfold_locales
  fix c :: "(io_step \<Rightarrow> bool) \<times> string" and n v :: string and s s' :: world and e
  assume fit: "snd c \<noteq> path"
  { assume "file_set_secret path n v (in_circumstances c s) = (Inr (), s')"
    from file_set_secret_ok [OF this] fit show "held_secrets path s' = (held_secrets path s)(n \<mapsto> v)"
      by (simp add: held_secrets_def) }
  { assume "file_set_secret path n v (in_circumstances c s) = (Inl e, s')"
    from file_set_secret_error [OF this, of path] fit show "held_secrets path s' = held_secrets path s"
      by (simp add: held_secrets_def) }
qed

subsection \<open>Properties\<close>

text \<open>\<open>Save\<close> replaces the state file as a whole or not at all. Whatever step fails, every file is
  as it was (a temporary file stays only when it cannot be removed); when it succeeds the new document
  is the only difference, and the next \<open>LoadState\<close> reads it back.\<close>

lemma save_state_atomic:
  assumes "tmp_fresh w" "w_tmp w \<noteq> path" "save_state st path w = (r, w')"
  shows "case r of
      Inl e \<Rightarrow> (\<forall>q. q \<noteq> w_tmp w \<longrightarrow> w_files w' q = w_files w q) \<and> (\<not> w_fault w IoRemove \<longrightarrow> w' = w)
    | Inr u \<Rightarrow> w_files w' = (w_files w)(path \<mapsto> StateDoc st) \<and>
        (\<not> w_fault w IoRead \<longrightarrow> load_state path w' = Inr st)"
  using assms save_state_ok [of w path st w'] save_state_error [of st path w _ w'] save_state_undone [of w st path _ w'] save_state_load [of st path w w']
  by (cases r) (auto simp: put_file_def)

definition sample_world :: "(io_step \<Rightarrow> bool) \<Rightarrow> world" where
  "sample_world fault = \<lparr>w_files = Map.empty, w_env = (\<lambda>k. []), w_now = 0, w_pid = 7, w_tmp = ''t'', w_temp_dir = ''d'',
     w_fault = fault\<rparr>"

theorem save_state_atomic_witness:
  "snd (save_state new_state ''s'' (sample_world (\<lambda>i. i = IoRename))) = sample_world (\<lambda>i. i = IoRename) \<and>
   load_state ''s'' (snd (save_state new_state ''s'' (sample_world (\<lambda>i. False)))) = Inr new_state"
proof -
  have a: "tmp_fresh (sample_world f)" "w_tmp (sample_world f) \<noteq> ''s''" for f
    by (simp_all add: tmp_fresh_def sample_world_def)
  have "save_state new_state ''s'' (sample_world (\<lambda>i. i = IoRename)) =
      (Inl RenamingTemp, snd (save_state new_state ''s'' (sample_world (\<lambda>i. i = IoRename))))"
    by (simp add: save_state_def sample_world_def Let_def)
  moreover have "save_state new_state ''s'' (sample_world (\<lambda>i. False)) =
      (Inr (), snd (save_state new_state ''s'' (sample_world (\<lambda>i. False))))"
    by (simp add: save_state_def sample_world_def Let_def)
  ultimately show ?thesis
    using save_state_atomic [OF a] by (fastforce simp: sample_world_def)
qed

text \<open>The run lock is exclusive: once it is taken, taking it again fails and changes nothing, until
  it is released; releasing it, if the file can be removed, leaves the world as it was before.\<close>

theorem lock_exclusive:
  assumes "acquire_lock path w = (Inr l, w1)"
  shows "acquire_lock path w1 = (Inl (LockExists path), w1) \<and>
    (\<not> w_fault w IoRemove \<longrightarrow> release_lock l w1 = (Inr (), w)) \<and> w_files w path = None"
  using acquire_lock_held [OF assms] release_lock_frees [OF assms] assms
  by (auto simp: acquire_lock_def split: if_splits)

theorem lock_exclusive_witness:
  "fst (acquire_lock ''l'' (snd (acquire_lock ''l'' (sample_world (\<lambda>i. False))))) = Inl (LockExists ''l'')"
proof -
  have "acquire_lock ''l'' (sample_world (\<lambda>i. False)) =
      (Inr ''l'', snd (acquire_lock ''l'' (sample_world (\<lambda>i. False))))"
    by (simp add: acquire_lock_def sample_world_def)
  from lock_exclusive [OF this] show ?thesis by simp
qed

text \<open>A sequence of \<open>SetSecret\<close> calls, each in its own circumstances, with what they report.\<close>

fun set_secrets ::
  "string \<Rightarrow> string \<Rightarrow> (string \<times> (io_step \<Rightarrow> bool) \<times> string) list \<Rightarrow> world \<Rightarrow> (runner_error, unit) result list \<times> world" where
  "set_secrets path n [] w = ([], w)"
| "set_secrets path n ((v, c) # calls) w =
     (case file_set_secret path n v (in_circumstances c w) of
        (r, w1) \<Rightarrow> (case set_secrets path n calls w1 of (rs, w2) \<Rightarrow> (r # rs, w2)))"

lemma set_secrets_rotations: "set_secrets path n calls w = file_store.rotations path n calls w"
  by (induction calls arbitrary: w) (auto split: prod.splits)

lemma set_secrets_files:
  assumes "w_files w path = Some (SecretDoc m)" "\<forall>(v, c)\<in>set calls. snd c \<noteq> path" "set_secrets path n calls w = (rs, w')"
  shows "map (\<lambda>r. r = Inr ()) rs = map (\<lambda>(v, c). list_all (\<lambda>i. \<not> fst c i) set_secret_steps) calls \<and>
    (\<exists>m'. w_files w' path = Some (SecretDoc m')) \<and>
    (\<forall>q. q \<noteq> path \<and> q \<notin> (\<lambda>(v, c). snd c) ` set calls \<longrightarrow> w_files w' q = w_files w q)"
  using assms
proof (induction calls arbitrary: w m rs)
  case (Cons call calls)
  obtain v c where call: "call = (v, c)" by (cases call)
  let ?w = "in_circumstances c w"
  obtain r w1 where r: "file_set_secret path n v ?w = (r, w1)" by (cases "file_set_secret path n v ?w")
  obtain rs1 where rs: "set_secrets path n calls w1 = (rs1, w')" "rs = r # rs1"
    using Cons.prems(3) r call by (auto split: prod.splits)
  have c: "snd c \<noteq> path" using Cons.prems(2) call by simp
  have "r = Inr () \<longleftrightarrow> list_all (\<lambda>i. \<not> fst c i) set_secret_steps"
    using file_set_secret_result [of ?w path m n v] Cons.prems(1) r by simp
  moreover have "(\<exists>m1. w_files w1 path = Some (SecretDoc m1)) \<and> (\<forall>q. q \<noteq> path \<and> q \<noteq> snd c \<longrightarrow> w_files w1 q = w_files w q)"
  proof (cases r)
    case (Inl e)
    then show ?thesis using file_set_secret_error [of path n v ?w e w1] r c Cons.prems(1) by fastforce
  next
    case (Inr u)
    then show ?thesis using file_set_secret_ok [of path n v ?w w1] r c by simp
  qed
  ultimately show ?case using Cons.IH [OF _ _ rs(1)] Cons.prems(2) rs(2) call by auto
qed simp

text \<open>C31: A refresh token rotated through the file store is never lost. In any sequence of \<open>SetSecret\<close> calls, each
  in its own circumstances (any step of any call may fail, and each has its own temporary file), a call
  reports success exactly when no step of it fails, and afterwards a read of the store gives the token
  of the last call that reported success, or the first one if none did; every other secret, and every
  other file but the temporary ones, is what it was.\<close>

theorem file_store_rotation:
  assumes "w_files w path = Some (SecretDoc m)" "\<forall>(v, c)\<in>set calls. snd c \<noteq> path"
    and "set_secrets path n calls w = (rs, w')"
  shows "map (\<lambda>r. r = Inr ()) rs = map (\<lambda>(v, c). list_all (\<lambda>i. \<not> fst c i) set_secret_steps) calls \<and>
    (\<forall>c k. \<not> fst c IoRead \<longrightarrow> file_get_secret path k (in_circumstances c w') =
       (case (m(n := last_stored (m n) calls rs)) k of None \<Rightarrow> Inl (SecretNotFound k) | Some v \<Rightarrow> Inr v)) \<and>
    (\<forall>q. q \<noteq> path \<and> q \<notin> (\<lambda>(v, c). snd c) ` set calls \<longrightarrow> w_files w' q = w_files w q)"
proof -
  have "held_secrets path w' = (held_secrets path w)(n := last_stored (held_secrets path w n) calls rs)"
    using file_store.rotations_hold [of calls path n w rs w'] assms(2,3) by (simp add: set_secrets_rotations split_beta)
  moreover have "held_secrets path w = m" using assms(1) by (simp add: held_secrets_def)
  ultimately have h: "held_secrets path w' = m(n := last_stored (m n) calls rs)" by simp
  have f: "map (\<lambda>r. r = Inr ()) rs = map (\<lambda>(v, c). list_all (\<lambda>i. \<not> fst c i) set_secret_steps) calls"
    "\<exists>m'. w_files w' path = Some (SecretDoc m')"
    "\<forall>q. q \<noteq> path \<and> q \<notin> (\<lambda>(v, c). snd c) ` set calls \<longrightarrow> w_files w' q = w_files w q"
    using set_secrets_files [OF assms] by blast+
  have "file_get_secret path k (in_circumstances c w') =
      (case (m(n := last_stored (m n) calls rs)) k of None \<Rightarrow> Inl (SecretNotFound k) | Some v \<Rightarrow> Inr v)"
    if "\<not> fst c IoRead" for c k
  proof -
    have "held_secrets path (in_circumstances c w') = m(n := last_stored (m n) calls rs)"
      unfolding h [symmetric] by (simp add: held_secrets_def)
    then show ?thesis using file_get_held [of "in_circumstances c w'" path _ k] f(2) that by auto
  qed
  then show ?thesis using f(1,3) by blast
qed

text \<open>The second of three calls cannot close its file, the third cannot rename it: the token of the first stays.\<close>

theorem file_store_rotation_witness:
  "case set_secrets ''s'' ''k'' [(''b'', \<lambda>i. False, ''t1''), (''c'', \<lambda>i. i = IoClose, ''t2''), (''d'', \<lambda>i. i = IoRename, ''t3'')]
       ((sample_world (\<lambda>i. False))\<lparr>w_files := [''s'' \<mapsto> SecretDoc [''k'' \<mapsto> ''a'', ''o'' \<mapsto> ''z'']]\<rparr>) of
     (rs, w') \<Rightarrow> file_get_secret ''s'' ''k'' (in_circumstances (\<lambda>i. False, ''t4'') w') = Inr ''b'' \<and>
       file_get_secret ''s'' ''o'' (in_circumstances (\<lambda>i. False, ''t4'') w') = Inr ''z''"
proof -
  let ?w = "(sample_world (\<lambda>i. False))\<lparr>w_files := [''s'' \<mapsto> SecretDoc [''k'' \<mapsto> ''a'', ''o'' \<mapsto> ''z'']]\<rparr>"
  let ?calls = "[(''b'', \<lambda>i. False, ''t1''), (''c'', \<lambda>i. i = IoClose, ''t2''), (''d'', \<lambda>i. i = IoRename, ''t3'')]"
  obtain rs w' where r: "set_secrets ''s'' ''k'' ?calls ?w = (rs, w')" by fastforce
  have rs: "rs = fst (set_secrets ''s'' ''k'' ?calls ?w)" using r by simp
  have "rs = [Inr (), Inl ClosingTemp, Inl RenamingTemp]"
    unfolding rs by (simp add: sample_world_def file_set_secret_def file_secrets_def rename_file_def put_file_def
        remove_file_def in_circumstances_def Let_def)
  moreover have "w_files ?w ''s'' = Some (SecretDoc [''k'' \<mapsto> ''a'', ''o'' \<mapsto> ''z''])" "\<forall>(v, c)\<in>set ?calls. snd c \<noteq> ''s''" by simp_all
  ultimately show ?thesis
    using file_store_rotation [of ?w "''s''" _ ?calls "''k''" rs w'] r by simp
qed

end
