(* ===== verification/Bullhorn_Session.thy ===== *)
theory Bullhorn_Session
  imports Run_Store
begin

text \<open>
  \<^verbatim>\<open>pkg/source/bullhorn/auth.go\<close>: the data centre, the OAuth and REST session of the Bullhorn
  source, the request loop that answers to 401, 412 and 429, and the files of the rotated token
  and of the subscription cursor. Bullhorn's servers are parameters.
\<close>

subsection \<open>State\<close>

record credentials =
  cr_client_id :: string
  cr_client_secret :: string
  cr_refresh_token :: string
  cr_username :: string
  cr_password :: string
  cr_data_center :: string
  cr_token_output :: string

record bullhorn =
  bh_creds :: credentials
  bh_rest_token :: string
  bh_rest_url :: string
  bh_access_token :: string
  bh_oauth_refresh :: string
  bh_call_count :: int
  bh_world :: world

text \<open>An answer: none, or a status with the decoded body (\<open>None\<close> when it does not decode).\<close>

datatype 'b http = NoAnswer | Answer int "'b option"

definition is_success :: "int \<Rightarrow> bool" where
  "is_success status \<longleftrightarrow> 200 \<le> status \<and> status < 300"

datatype bullhorn_error =
  RequestFailed | StatusError int | UndecodableResponse | MissingUrls | BadDataCenterHost string
  | MissingAccessToken | MissingRefreshToken | MissingSession | MissingCode int
  | TempFileFailed | PermissionsFailed | WriteFailed | CloseFailed | RenameFailed
  | Cancelled | SessionExpired | ReauthFailed bullhorn_error | NoSessionToken
  | StateUnreadable | StateUnparsable
  | DataCenterMismatch string string
  | AllowlistMissing | WildcardForbidden | UnsupportedTable string | TableParameters
  | EntitiesRequired | BuildFailed | UnsupportedStyle

text \<open>The servers: loginInfo, the token endpoint (a form), the authorization page and the REST
  login. Each may change the world.\<close>

record login_servers =
  ls_login_info :: "string \<Rightarrow> world \<Rightarrow> (string \<times> string) http \<times> world"
  ls_token :: "string \<Rightarrow> (string \<times> string) list \<Rightarrow> world \<Rightarrow> (string \<times> string) http \<times> world"
  ls_authorize :: "string \<Rightarrow> (string \<times> string) list \<Rightarrow> world \<Rightarrow> (string \<times> string) http \<times> world"
  ls_rest_login :: "string \<Rightarrow> string \<Rightarrow> world \<Rightarrow> (string \<times> string) http \<times> world"

subsection \<open>The data centre\<close>

text \<open>\<open>url.Parse\<close> and \<open>Hostname\<close>: the authority after \<^verbatim>\<open>://\<close>, without the user and the port.\<close>

definition after_scheme :: "string \<Rightarrow> string" where
  "after_scheme raw =
     (let r = dropWhile (\<lambda>c. c \<noteq> CHR '':'') raw in if has_prefix r ''://'' then drop 3 r else [])"

definition url_hostname :: "string \<Rightarrow> string" where
  "url_hostname raw =
     (let authority = takeWhile (\<lambda>c. c \<notin> set ''/?#'') (after_scheme raw);
          host_port = (if CHR ''@'' \<in> set authority then rev (takeWhile (\<lambda>c. c \<noteq> CHR ''@'') (rev authority)) else authority)
      in takeWhile (\<lambda>c. c \<noteq> CHR '':'') host_port)"

definition data_center_name_from_host :: "string \<Rightarrow> (bullhorn_error, string) sum" where
  "data_center_name_from_host raw =
     (let host = url_hostname raw;
          name = trim_prefix (trim_prefix (takeWhile (\<lambda>c. c \<noteq> CHR ''.'') host) ''auth-'') ''rest-''
      in if name = [] then Inl (BadDataCenterHost host) else Inr name)"

definition trim_slashes :: "string \<Rightarrow> string" where
  "trim_slashes s = trim_right_by (\<lambda>c. c = CHR ''/'') s"

record data_center =
  dc_name :: string
  dc_oauth_url :: string
  dc_rest_url :: string

definition discover_data_center ::
  "login_servers \<Rightarrow> string \<Rightarrow> world \<Rightarrow> (bullhorn_error, data_center) sum \<times> world" where
  "discover_data_center ls username w =
     (case ls_login_info ls username w of
        (NoAnswer, w') \<Rightarrow> (Inl RequestFailed, w')
      | (Answer status body, w') \<Rightarrow>
          (if \<not> is_success status then (Inl (StatusError status), w')
           else (case body of
                   None \<Rightarrow> (Inl UndecodableResponse, w')
                 | Some (oauth, rest) \<Rightarrow>
                     (if oauth = [] \<or> rest = [] then (Inl MissingUrls, w')
                      else (case data_center_name_from_host oauth of
                              Inl e \<Rightarrow> (Inl e, w')
                            | Inr name \<Rightarrow>
                                (Inr \<lparr>dc_name = name, dc_oauth_url = trim_slashes oauth,
                                   dc_rest_url = trim_slashes rest\<rparr>, w'))))))"

subsection \<open>Tokens\<close>

definition post_oauth_token ::
  "login_servers \<Rightarrow> string \<Rightarrow> (string \<times> string) list \<Rightarrow> world \<Rightarrow> (bullhorn_error, string \<times> string) sum \<times> world" where
  "post_oauth_token ls oauth_url form w =
     (case ls_token ls (oauth_url @ ''/oauth/token'') form w of
        (NoAnswer, w') \<Rightarrow> (Inl RequestFailed, w')
      | (Answer status body, w') \<Rightarrow>
          (if \<not> is_success status then (Inl (StatusError status), w')
           else (case body of
                   None \<Rightarrow> (Inl RequestFailed, w')
                 | Some (access, refresh) \<Rightarrow>
                     (if access = [] then (Inl MissingAccessToken, w')
                      else if refresh = [] then (Inl MissingRefreshToken, w')
                      else (Inr (access, refresh), w')))))"

definition refresh_form :: "credentials \<Rightarrow> (string \<times> string) list" where
  "refresh_form c = [(''grant_type'', ''refresh_token''), (''refresh_token'', cr_refresh_token c),
     (''client_id'', cr_client_id c), (''client_secret'', cr_client_secret c)]"

definition code_form :: "credentials \<Rightarrow> string \<Rightarrow> (string \<times> string) list" where
  "code_form c auth_code = [(''grant_type'', ''authorization_code''), (''code'', auth_code),
     (''client_id'', cr_client_id c), (''client_secret'', cr_client_secret c)]"

text \<open>\<open>extractCodeParam\<close>: the text after \<^verbatim>\<open>code=\<close> up to a delimiter. The percent-decoding
  of \<open>url.QueryUnescape\<close> is applied by \<open>unescape\<close>, which keeps the text where it fails.\<close>

fun after_code :: "string \<Rightarrow> string option" where
  "after_code [] = None"
| "after_code (c # s) = (if has_prefix (c # s) ''code='' then Some (drop 5 (c # s)) else after_code s)"

definition extract_code_param :: "(string \<Rightarrow> string) \<Rightarrow> string \<Rightarrow> string" where
  "extract_code_param unescape s =
     (case after_code s of
        None \<Rightarrow> []
      | Some rest \<Rightarrow>
          unescape (takeWhile (\<lambda>c. c \<noteq> CHR ''&'' \<and> c \<noteq> CHR 0x22 \<and> c \<noteq> CHR 0x27 \<and> c \<noteq> CHR '' '' \<and> c \<noteq> CHR 0x0A) rest))"

text \<open>The answer of the authorization page is its Location header and its body.\<close>

definition request_authorization_code ::
  "login_servers \<Rightarrow> (string \<Rightarrow> string) \<Rightarrow> string \<Rightarrow> credentials \<Rightarrow> world \<Rightarrow> (bullhorn_error, string) sum \<times> world" where
  "request_authorization_code ls unescape oauth_url c w =
     (case ls_authorize ls (oauth_url @ ''/oauth/authorize'')
             [(''client_id'', cr_client_id c), (''response_type'', ''code''), (''action'', ''Login''),
              (''username'', cr_username c), (''password'', cr_password c), (''state'', ''bullhorn-ingestr'')] w of
        (NoAnswer, w') \<Rightarrow> (Inl RequestFailed, w')
      | (Answer status None, w') \<Rightarrow> (Inl RequestFailed, w')
      | (Answer status (Some (location, body)), w') \<Rightarrow>
          (let from_location = extract_code_param unescape location; from_body = extract_code_param unescape body
           in if location \<noteq> [] \<and> from_location \<noteq> [] then (Inr from_location, w')
              else if from_body \<noteq> [] then (Inr from_body, w')
              else (Inl (MissingCode status), w')))"

definition persist_token :: "string \<Rightarrow> string \<Rightarrow> world \<Rightarrow> bullhorn_error option \<times> world" where
  "persist_token path token w =
     (if w_fault w IoCreateTemp then (Some TempFileFailed, w)
      else
        (let tmp = w_tmp w; w1 = put_file tmp (Text []) w
         in if w_fault w IoChmod then (Some PermissionsFailed, remove_file tmp w1)
            else if w_fault w IoWrite then (Some WriteFailed, remove_file tmp w1)
            else
              (let w2 = put_file tmp (Text token) w1
               in if w_fault w IoClose then (Some CloseFailed, remove_file tmp w2)
                  else if w_fault w IoRename then (Some RenameFailed, remove_file tmp w2)
                  else (None, rename_file tmp path w2))))"

text \<open>The two ways to an access token, which both persist the refresh token before they keep it.\<close>

definition keep_tokens :: "string \<Rightarrow> string \<Rightarrow> bullhorn \<Rightarrow> bullhorn" where
  "keep_tokens access refresh s =
     s\<lparr>bh_creds := (bh_creds s)\<lparr>cr_refresh_token := refresh\<rparr>, bh_access_token := access, bh_oauth_refresh := refresh\<rparr>"

definition persist_and_keep :: "string \<times> string \<Rightarrow> bullhorn \<Rightarrow> (bullhorn_error, string) sum \<times> bullhorn" where
  "persist_and_keep tokens s =
     (case persist_token (cr_token_output (bh_creds s)) (snd tokens) (bh_world s) of
        (Some e, w) \<Rightarrow> (Inl e, s\<lparr>bh_world := w\<rparr>)
      | (None, w) \<Rightarrow> (Inr (fst tokens), keep_tokens (fst tokens) (snd tokens) (s\<lparr>bh_world := w\<rparr>)))"

definition obtain_access_token ::
  "login_servers \<Rightarrow> (string \<Rightarrow> string) \<Rightarrow> data_center \<Rightarrow> bullhorn \<Rightarrow> (bullhorn_error, string) sum \<times> bullhorn" where
  "obtain_access_token ls unescape dc s =
     (if cr_refresh_token (bh_creds s) \<noteq> [] then
        (case post_oauth_token ls (dc_oauth_url dc) (refresh_form (bh_creds s)) (bh_world s) of
           (Inl e, w) \<Rightarrow> (Inl e, s\<lparr>bh_world := w\<rparr>)
         | (Inr tokens, w) \<Rightarrow> persist_and_keep tokens (s\<lparr>bh_world := w\<rparr>))
      else
        (case request_authorization_code ls unescape (dc_oauth_url dc) (bh_creds s) (bh_world s) of
           (Inl e, w) \<Rightarrow> (Inl e, s\<lparr>bh_world := w\<rparr>)
         | (Inr auth_code, w) \<Rightarrow>
             (case post_oauth_token ls (dc_oauth_url dc) (code_form (bh_creds s) auth_code) w of
                (Inl e, w') \<Rightarrow> (Inl e, s\<lparr>bh_world := w'\<rparr>)
              | (Inr tokens, w') \<Rightarrow> persist_and_keep tokens (s\<lparr>bh_world := w'\<rparr>))))"

definition rest_login ::
  "login_servers \<Rightarrow> string \<Rightarrow> string \<Rightarrow> world \<Rightarrow> (bullhorn_error, string \<times> string) sum \<times> world" where
  "rest_login ls base access_token w =
     (case ls_rest_login ls (base @ ''/rest-services/login'') access_token w of
        (NoAnswer, w') \<Rightarrow> (Inl RequestFailed, w')
      | (Answer status body, w') \<Rightarrow>
          (if \<not> is_success status then (Inl (StatusError status), w')
           else (case body of
                   None \<Rightarrow> (Inl RequestFailed, w')
                 | Some (token, url) \<Rightarrow>
                     (if token = [] \<or> url = [] then (Inl MissingSession, w')
                      else (Inr (token, trim_slashes url), w')))))"

definition authenticate ::
  "login_servers \<Rightarrow> (string \<Rightarrow> string) \<Rightarrow> data_center \<Rightarrow> bullhorn \<Rightarrow> bullhorn_error option \<times> bullhorn" where
  "authenticate ls unescape dc s =
     (case obtain_access_token ls unescape dc s of
        (Inl e, s1) \<Rightarrow> (Some e, s1)
      | (Inr access, s1) \<Rightarrow>
          (case rest_login ls (dc_rest_url dc) access (bh_world s1) of
             (Inl e, w) \<Rightarrow> (Some e, s1\<lparr>bh_world := w\<rparr>)
           | (Inr (token, url), w) \<Rightarrow> (None, s1\<lparr>bh_world := w, bh_rest_token := token, bh_rest_url := url\<rparr>)))"

definition reauthenticate ::
  "login_servers \<Rightarrow> (string \<Rightarrow> string) \<Rightarrow> bullhorn \<Rightarrow> bullhorn_error option \<times> bullhorn" where
  "reauthenticate ls unescape s =
     (case discover_data_center ls (cr_username (bh_creds s)) (bh_world s) of
        (Inl e, w) \<Rightarrow> (Some e, s\<lparr>bh_world := w\<rparr>)
      | (Inr dc, w) \<Rightarrow> authenticate ls unescape dc (s\<lparr>bh_world := w\<rparr>))"

text \<open>\<open>Connect\<close>, from the parsed credentials.\<close>

definition connect ::
  "login_servers \<Rightarrow> (string \<Rightarrow> string) \<Rightarrow> credentials \<Rightarrow> world \<Rightarrow> bullhorn_error option \<times> bullhorn" where
  "connect ls unescape creds w =
     (let s0 = \<lparr>bh_creds = creds, bh_rest_token = [], bh_rest_url = [], bh_access_token = [],
                bh_oauth_refresh = [], bh_call_count = 0, bh_world = w\<rparr>
      in case discover_data_center ls (cr_username creds) w of
           (Inl e, w') \<Rightarrow> (Some e, s0\<lparr>bh_world := w'\<rparr>)
         | (Inr dc, w') \<Rightarrow>
             (if \<not> equal_fold (dc_name dc) (cr_data_center creds)
              then (Some (DataCenterMismatch (cr_data_center creds) (dc_name dc)), s0\<lparr>bh_world := w'\<rparr>)
              else authenticate ls unescape dc (s0\<lparr>bh_world := w'\<rparr>)))"

subsection \<open>doRequest\<close>

text \<open>The loop goes on for as long as Bullhorn answers 429, so it is given fuel. \<open>send\<close> is the
  request, \<open>reauth\<close> the re-authentication, and \<open>wait\<close> the one-second wait, true when the
  context is cancelled in it.\<close>

fun do_request ::
  "nat \<Rightarrow> (bullhorn \<Rightarrow> 'b http \<times> bullhorn) \<Rightarrow> (bullhorn \<Rightarrow> bullhorn_error option \<times> bullhorn)
     \<Rightarrow> (bullhorn \<Rightarrow> bool \<times> bullhorn) \<Rightarrow> bool \<Rightarrow> bullhorn
     \<Rightarrow> ((bullhorn_error, 'b option) sum \<times> bullhorn) option" where
  "do_request 0 send reauth wait retried s = None"
| "do_request (Suc fuel) send reauth wait retried s =
     (case send s of
        (NoAnswer, s1) \<Rightarrow> Some (Inl RequestFailed, s1)
      | (Answer status body, s1) \<Rightarrow>
          (if status = 429 then
             (case wait s1 of
                (True, s2) \<Rightarrow> Some (Inl Cancelled, s2)
              | (False, s2) \<Rightarrow> do_request fuel send reauth wait retried s2)
           else if status = 401 then
             (if retried then Some (Inl SessionExpired, s1)
              else (case reauth s1 of
                      (Some e, s2) \<Rightarrow> Some (Inl (ReauthFailed e), s2)
                    | (None, s2) \<Rightarrow> do_request fuel send reauth wait True s2))
           else if status = 412 then Some (Inl NoSessionToken, s1)
           else if \<not> is_success status then Some (Inl (StatusError status), s1)
           else Some (Inr body, s1\<lparr>bh_call_count := wrap64 (bh_call_count s1 + 1)\<rparr>)))"

subsection \<open>The subscription cursor\<close>

definition subscription_document :: "int \<Rightarrow> string" where
  "subscription_document n = [CHR 0x7B, CHR 0x22] @ ''lastRequestId'' @ [CHR 0x22, CHR '':''] @ itoa n @ [CHR 0x7D]"

text \<open>The decoder is given on the documents the source itself writes; other JSON texts of the
  same content are not written by the program and count as unparsable.\<close>

definition parse_subscription_document :: "string \<Rightarrow> int option" where
  "parse_subscription_document s =
     (let p = [CHR 0x7B, CHR 0x22] @ ''lastRequestId'' @ [CHR 0x22, CHR '':'']; t = trim_space s
      in if has_prefix t p \<and> has_suffix t [CHR 0x7D] then atoi (butlast (drop (length p) t)) else None)"

definition load_subscription_state :: "string \<Rightarrow> world \<Rightarrow> (bullhorn_error, int) sum" where
  "load_subscription_state path w =
     (case w_files w path of
        None \<Rightarrow> Inr 0
      | Some c \<Rightarrow>
          (if w_fault w IoRead then Inl StateUnreadable
           else (case c of
                   Text s \<Rightarrow> (case parse_subscription_document s of None \<Rightarrow> Inl StateUnparsable | Some n \<Rightarrow> Inr n)
                 | _ \<Rightarrow> Inl StateUnparsable)))"

definition save_subscription_state :: "string \<Rightarrow> int \<Rightarrow> world \<Rightarrow> bullhorn_error option \<times> world" where
  "save_subscription_state path request_id w =
     (if w_fault w IoCreateTemp then (Some TempFileFailed, w)
      else
        (let tmp = w_tmp w; w1 = put_file tmp (Text []) w
         in if w_fault w IoWrite then (Some WriteFailed, remove_file tmp w1)
            else
              (let w2 = put_file tmp (Text (subscription_document request_id)) w1
               in if w_fault w IoClose then (Some CloseFailed, remove_file tmp w2)
                  else if w_fault w IoRename then (Some RenameFailed, remove_file tmp w2)
                  else (None, rename_file tmp path w2))))"

subsection \<open>Lemmas\<close>

lemma persist_token_ok:
  "persist_token path token w = (None, w') \<Longrightarrow> w_files w' path = Some (Text token)"
  by (auto simp: persist_token_def rename_file_def put_file_def Let_def split: if_splits)

lemma persist_token_error:
  "persist_token path token w = (Some e, w') \<Longrightarrow> q \<noteq> w_tmp w \<Longrightarrow> w_files w' q = w_files w q"
  by (auto simp: persist_token_def Let_def split: if_splits)

lemma post_oauth_token_ok:
  "post_oauth_token ls url form w = (Inr (access, refresh), w') \<Longrightarrow>
     \<exists>status. is_success status \<and> ls_token ls (url @ ''/oauth/token'') form w = (Answer status (Some (access, refresh)), w')"
  by (auto simp: post_oauth_token_def split: prod.splits http.splits option.splits if_splits)

lemma persist_and_keep_ok:
  "persist_and_keep (access, refresh) s = (Inr access', s') \<Longrightarrow>
     access' = access \<and> bh_access_token s' = access \<and> bh_oauth_refresh s' = refresh \<and>
     bh_creds s' = (bh_creds s)\<lparr>cr_refresh_token := refresh\<rparr> \<and>
     w_files (bh_world s') (cr_token_output (bh_creds s)) = Some (Text refresh)"
  by (auto simp: persist_and_keep_def keep_tokens_def split: prod.splits option.splits dest: persist_token_ok)

text \<open>What the token endpoint is asked: to refresh the token at hand, or for the code of a login.\<close>

definition token_request ::
  "login_servers \<Rightarrow> (string \<Rightarrow> string) \<Rightarrow> data_center \<Rightarrow> bullhorn \<Rightarrow> (string \<times> string) list \<Rightarrow> world \<Rightarrow> bool" where
  "token_request ls unescape dc s form w \<longleftrightarrow>
     (if cr_refresh_token (bh_creds s) \<noteq> [] then form = refresh_form (bh_creds s) \<and> w = bh_world s
      else (\<exists>auth_code. form = code_form (bh_creds s) auth_code \<and>
        request_authorization_code ls unescape (dc_oauth_url dc) (bh_creds s) (bh_world s) = (Inr auth_code, w)))"

lemma obtain_access_token_ok:
  assumes "obtain_access_token ls unescape dc s = (Inr access, s')"
  shows "\<exists>form w w1 status refresh. token_request ls unescape dc s form w \<and> is_success status \<and>
    ls_token ls (dc_oauth_url dc @ ''/oauth/token'') form w = (Answer status (Some (access, refresh)), w1) \<and>
    persist_and_keep (access, refresh) (s\<lparr>bh_world := w1\<rparr>) = (Inr access, s')"
proof -
  obtain form w access0 refresh w1 where t: "token_request ls unescape dc s form w"
    "post_oauth_token ls (dc_oauth_url dc) form w = (Inr (access0, refresh), w1)"
    "persist_and_keep (access0, refresh) (s\<lparr>bh_world := w1\<rparr>) = (Inr access, s')"
    using assms by (fastforce simp: obtain_access_token_def token_request_def split: if_splits prod.splits sum.splits)
  then have "access0 = access" using persist_and_keep_ok by blast
  then show ?thesis using t post_oauth_token_ok by blast
qed

lemma obtain_access_token_error:
  assumes "obtain_access_token ls unescape dc s = (Inl e, s')"
  shows "s'\<lparr>bh_world := bh_world s\<rparr> = s"
  using assms
  by (auto simp: obtain_access_token_def persist_and_keep_def
      split: if_splits prod.splits sum.splits option.splits)

lemma do_request_more_fuel:
  "do_request fuel send reauth wait retried s = Some r \<Longrightarrow> do_request (Suc fuel) send reauth wait retried s = Some r"
proof (induction fuel arbitrary: retried s)
  case (Suc fuel)
  obtain a s1 where 1: "send s = (a, s1)" by (cases "send s")
  obtain c s2 where 2: "wait s1 = (c, s2)" by (cases "wait s1")
  obtain e s3 where 3: "reauth s1 = (e, s3)" by (cases "reauth s1")
  show ?case
    using Suc.prems Suc.IH [of retried s2] Suc.IH [of True s3]
    unfolding do_request.simps(2) [of "Suc fuel"] do_request.simps(2) [of fuel send reauth wait retried s]
    by (cases retried; cases a; cases c; cases e) (simp_all add: 1 2 3 split: if_splits del: do_request.simps)
qed simp

text \<open>How the loop's steps change a measure: sending and re-authenticating do not raise it, a
  wait that is not cancelled lowers it. Then the loop returns.\<close>

lemma do_request_returns:
  assumes "\<And>s. m (snd (send s)) \<le> (m s :: nat)" "\<And>s. m (snd (reauth s)) \<le> m s"
    and "\<And>s s'. wait s = (False, s') \<Longrightarrow> m s' < m s"
    and "m s + (if retried then 0 else 1) < fuel"
  shows "do_request fuel send reauth wait retried s \<noteq> None"
  using assms(4)
proof (induction fuel arbitrary: retried s)
  case (Suc fuel)
  obtain r s1 where 1: "send s = (r, s1)" by (cases "send s")
  then have m1: "m s1 \<le> m s" using assms(1) [of s] by simp
  obtain c s2 where 2: "wait s1 = (c, s2)" by (cases "wait s1")
  obtain e s3 where 3: "reauth s1 = (e, s3)" by (cases "reauth s1")
  have m3: "m s3 \<le> m s" using assms(2) [of s1] 3 m1 by simp
  have m2: "\<not> c \<Longrightarrow> m s2 < m s" using assms(3) [of s1 s2] 2 m1 by simp
  show ?case
    using Suc.IH [of s2 retried] Suc.IH [of s3 True] Suc.prems m2 m3 1 2 3
    by (auto split: http.splits if_splits option.splits bool.splits)
qed simp

text \<open>A successful request is counted once, a failed one not at all; at most one
  re-authentication takes place.\<close>

lemma do_request_counts:
  assumes "\<And>s. bh_call_count (snd (send s)) = bh_call_count s"
    and "\<And>s. bh_call_count (snd (reauth s)) = bh_call_count s"
    and "\<And>s. bh_call_count (snd (wait s)) = bh_call_count s"
    and "do_request fuel send reauth wait retried s = Some (r, s')"
  shows "bh_call_count s' = (if is_ok r then wrap64 (bh_call_count s + 1) else bh_call_count s)"
  using assms(4)
proof (induction fuel arbitrary: retried s)
  case (Suc fuel)
  obtain a s1 where 1: "send s = (a, s1)" by (cases "send s")
  obtain c s2 where 2: "wait s1 = (c, s2)" by (cases "wait s1")
  obtain e s3 where 3: "reauth s1 = (e, s3)" by (cases "reauth s1")
  have "bh_call_count s1 = bh_call_count s" "bh_call_count s2 = bh_call_count s" "bh_call_count s3 = bh_call_count s"
    using assms(1) [of s] assms(2) [of s1] assms(3) [of s1] 1 2 3 by simp_all
  then show ?case
    using Suc.IH [of retried s2] Suc.IH [of True s3] Suc.prems 1 2 3
    by (auto split: http.splits if_splits option.splits bool.splits)
qed simp

lemma do_request_reauths:
  assumes "\<And>s. n (snd (send s)) = (n s :: nat)" "\<And>s. n (snd (reauth s)) = Suc (n s)"
    and "\<And>s. n (snd (wait s)) = n s" "\<And>s v. n (s\<lparr>bh_call_count := v\<rparr>) = n s"
    and "do_request fuel send reauth wait retried s = Some (r, s')"
  shows "n s' \<le> n s + (if retried then 0 else 1)"
  using assms(5)
proof (induction fuel arbitrary: retried s)
  case (Suc fuel)
  obtain a s1 where 1: "send s = (a, s1)" by (cases "send s")
  obtain c s2 where 2: "wait s1 = (c, s2)" by (cases "wait s1")
  obtain e s3 where 3: "reauth s1 = (e, s3)" by (cases "reauth s1")
  have "n s1 = n s" "n s2 = n s" "n s3 = Suc (n s)"
    using assms(1) [of s] assms(2) [of s1] assms(3) [of s1] 1 2 3 by simp_all
  then show ?case
    using Suc.IH [of retried s2] Suc.IH [of True s3] Suc.prems 1 2 3
    by (fastforce simp: assms(4) split: http.splits if_splits option.splits bool.splits)
qed simp

lemma subscription_document_parse:
  assumes "is_int64 n"
  shows "parse_subscription_document (subscription_document n) = Some n"
proof -
  let ?p = "[CHR 0x7B, CHR 0x22] @ ''lastRequestId'' @ [CHR 0x22, CHR '':'']"
  have d: "subscription_document n = ?p @ itoa n @ [CHR 0x7D]" by (simp add: subscription_document_def)
  have "trim_space (subscription_document n) = subscription_document n"
    by (rule trim_space_id) (simp add: subscription_document_def is_space_def)
  moreover have "butlast (drop (length ?p) (?p @ itoa n @ [CHR 0x7D])) = itoa n"
    by (simp only: append_eq_conv_conj [THEN iffD1] drop_append) simp
  ultimately show ?thesis
    using assms unfolding parse_subscription_document_def Let_def d
    by (simp add: has_suffix_def)
qed

lemma save_load_subscription_state:
  assumes "save_subscription_state path n w = (None, w')" "is_int64 n" "\<not> w_fault w IoRead"
  shows "load_subscription_state path w' = Inr n"
  using assms subscription_document_parse [OF assms(2)]
  by (auto simp: save_subscription_state_def load_subscription_state_def rename_file_def put_file_def Let_def
      split: if_splits)

subsection \<open>Properties\<close>

lemma do_request_more:
  "do_request fuel send reauth wait retried s = Some r \<Longrightarrow> fuel \<le> fuel' \<Longrightarrow>
     do_request fuel' send reauth wait retried s = Some r"
  by (induction "fuel' - fuel" arbitrary: fuel) (metis diff_diff_cancel diff_zero, metis Suc_diff_Suc Suc_leI diff_Suc_1' do_request_more_fuel zero_less_Suc zero_less_diff)

text \<open>C29: The request loop returns whenever the waits between 429 answers are bounded (a deadline of the
  context, say: \<open>m\<close> counts what is left of it): with the stated fuel, and with any more, it yields
  the same result. It counts one call when it succeeds and none when it fails, however many 429 and
  401 answers came before.\<close>

theorem request_loop_returns:
  assumes "\<And>s. m (snd (send s)) \<le> (m s :: nat)" "\<And>s. m (snd (reauth s)) \<le> m s"
    and "\<And>s s'. wait s = (False, s') \<Longrightarrow> m s' < m s"
    and "\<And>s. bh_call_count (snd (send s)) = bh_call_count s"
    and "\<And>s. bh_call_count (snd (reauth s)) = bh_call_count s"
    and "\<And>s. bh_call_count (snd (wait s)) = bh_call_count s"
  shows "\<exists>r s'. (\<forall>fuel. m s + 2 \<le> fuel \<longrightarrow> do_request fuel send reauth wait False s = Some (r, s')) \<and>
    bh_call_count s' = (if is_ok r then wrap64 (bh_call_count s + 1) else bh_call_count s)"
proof -
  obtain r s' where d: "do_request (m s + 2) send reauth wait False s = Some (r, s')"
    using do_request_returns [of m send reauth wait s False "m s + 2", OF assms(1-3)] by fastforce
  then show ?thesis
    using do_request_more [OF d] do_request_counts [of send reauth wait, OF assms(4-6) d] by blast
qed

definition sample_session :: bullhorn where
  "sample_session = \<lparr>bh_creds = \<lparr>cr_client_id = ''c'', cr_client_secret = ''s'', cr_refresh_token = ''r'',
     cr_username = ''u'', cr_password = [], cr_data_center = ''d'', cr_token_output = ''out''\<rparr>,
     bh_rest_token = [], bh_rest_url = [], bh_access_token = [], bh_oauth_refresh = [], bh_call_count = 0,
     bh_world = sample_world (\<lambda>i. False)\<rparr>"

text \<open>A server that throttles until the clock shows 3, and waits that advance it up to 9.\<close>

definition sample_send :: "bullhorn \<Rightarrow> string http \<times> bullhorn" where
  "sample_send s = (if w_now (bh_world s) < 3 then Answer 429 None else Answer 200 (Some ''ok''), s)"

definition sample_wait :: "bullhorn \<Rightarrow> bool \<times> bullhorn" where
  "sample_wait s = (if 9 \<le> w_now (bh_world s) then (True, s)
     else (False, s\<lparr>bh_world := (bh_world s)\<lparr>w_now := w_now (bh_world s) + 1\<rparr>\<rparr>))"

theorem request_loop_returns_witness:
  "\<exists>r s'. do_request 11 sample_send (\<lambda>s. (None, s)) sample_wait False sample_session = Some (r, s') \<and>
     bh_call_count s' = (if is_ok r then wrap64 1 else 0)"
proof -
  define m where "m = (\<lambda>s :: bullhorn. nat (9 - w_now (bh_world s)))"
  have 1: "m (snd (sample_send s)) \<le> m s" for s by (simp add: sample_send_def)
  have 2: "m (snd ((\<lambda>s. (None, s)) s :: bullhorn_error option \<times> bullhorn)) \<le> m s" for s by simp
  have 3: "sample_wait s = (False, s') \<Longrightarrow> m s' < m s" for s s'
    by (auto simp: sample_wait_def m_def split: if_splits)
  have 4: "bh_call_count (snd (sample_send s)) = bh_call_count s" for s by (simp add: sample_send_def)
  have 5: "bh_call_count (snd ((\<lambda>s. (None, s)) s :: bullhorn_error option \<times> bullhorn)) = bh_call_count s" for s by simp
  have 6: "bh_call_count (snd (sample_wait s)) = bh_call_count s" for s by (simp add: sample_wait_def)
  have "m sample_session = 9" "bh_call_count sample_session = 0"
    by (simp_all add: m_def sample_session_def sample_world_def)
  then show ?thesis
    using request_loop_returns [of m sample_send "\<lambda>s. (None, s)" sample_wait sample_session, OF 1 2 3 4 5 6] by auto
qed

text \<open>However Bullhorn answers, one request re-authenticates at most once: with any counter \<open>n\<close> that
  only a re-authentication advances, it has advanced by at most one when the loop returns, and by none
  when the request had been retried before.\<close>

theorem one_reauthentication:
  assumes "\<And>s. n (snd (send s)) = (n s :: nat)" "\<And>s. n (snd (reauth s)) = Suc (n s)"
    and "\<And>s. n (snd (wait s)) = n s" "\<And>s v. n (s\<lparr>bh_call_count := v\<rparr>) = n s"
    and "do_request fuel send reauth wait retried s = Some (r, s')"
  shows "n s' \<le> n s + (if retried then 0 else 1)"
  by (rule do_request_reauths [of n, OF assms])

theorem one_reauthentication_witness:
  "length (bh_rest_token (snd (the (do_request 5 (\<lambda>s. (Answer 401 (None :: string option), s))
      (\<lambda>s. (None, s\<lparr>bh_rest_token := ''x'' @ bh_rest_token s\<rparr>)) (\<lambda>s. (True, s)) False sample_session)))) \<le> 1"
proof -
  let ?d = "do_request 5 (\<lambda>s. (Answer 401 (None :: string option), s))
      (\<lambda>s. (None, s\<lparr>bh_rest_token := ''x'' @ bh_rest_token s\<rparr>)) (\<lambda>s. (True, s)) False sample_session"
  have "?d \<noteq> None" by (simp add: eval_nat_numeral)
  then obtain r s' where d: "?d = Some (r, s')" by auto
  have "length (bh_rest_token s') \<le> length (bh_rest_token sample_session) + (if False then 0 else 1)"
    by (rule one_reauthentication [where n = "\<lambda>s. length (bh_rest_token s)", OF _ _ _ _ d]) simp_all
  then show ?thesis unfolding d by (simp add: sample_session_def)
qed

text \<open>C32: Tokens are persisted before they are used: an access token is one that the token endpoint has just
  answered with, and then the refresh token of the same answer is what the token file holds and what is
  kept in memory, for the next refresh; when the source gets no access token, its credentials, session
  and call count are as before.\<close>

theorem tokens_persisted_first:
  assumes "obtain_access_token ls unescape dc s = (r, s')"
  shows "case r of
      Inl e \<Rightarrow> s'\<lparr>bh_world := bh_world s\<rparr> = s
    | Inr access \<Rightarrow> \<exists>form w w1 status refresh. token_request ls unescape dc s form w \<and> is_success status \<and>
        ls_token ls (dc_oauth_url dc @ ''/oauth/token'') form w = (Answer status (Some (access, refresh)), w1) \<and>
        w_files (bh_world s') (cr_token_output (bh_creds s)) = Some (Text refresh) \<and>
        bh_access_token s' = access \<and> bh_oauth_refresh s' = refresh \<and>
        bh_creds s' = (bh_creds s)\<lparr>cr_refresh_token := refresh\<rparr>"
proof (cases r)
  case (Inl e)
  then show ?thesis using assms obtain_access_token_error by simp
next
  case (Inr access)
  with assms have "obtain_access_token ls unescape dc s = (Inr access, s')" by simp
  from obtain_access_token_ok [OF this] show ?thesis using Inr by (fastforce dest: persist_and_keep_ok)
qed

definition sample_servers :: login_servers where
  "sample_servers = \<lparr>ls_login_info = (\<lambda>u w. (NoAnswer, w)), ls_token = (\<lambda>u f w. (Answer 200 (Some (''acc'', ''ref'')), w)),
     ls_authorize = (\<lambda>u f w. (NoAnswer, w)), ls_rest_login = (\<lambda>u t w. (NoAnswer, w))\<rparr>"

theorem tokens_persisted_first_witness:
  "w_files (bh_world (snd (obtain_access_token sample_servers id
      \<lparr>dc_name = [], dc_oauth_url = [], dc_rest_url = []\<rparr> sample_session))) ''out'' = Some (Text ''ref'')"
proof -
  let ?r = "obtain_access_token sample_servers id \<lparr>dc_name = [], dc_oauth_url = [], dc_rest_url = []\<rparr> sample_session"
  have "fst ?r = Inr ''acc''" by code_simp
  then have "?r = (Inr ''acc'', snd ?r)" by (metis prod.collapse)
  from tokens_persisted_first [OF this] obtain form w w1 status refresh where
    "ls_token sample_servers ([] @ ''/oauth/token'') form w = (Answer status (Some (''acc'', refresh)), w1)"
    "w_files (bh_world (snd ?r)) (cr_token_output (bh_creds sample_session)) = Some (Text refresh)"
    by auto
  then show ?thesis by (simp add: sample_servers_def sample_session_def)
qed

end
