(* ===== verification/Table_Spec.thy ===== *)
theory Table_Spec
  imports Go_Strings
begin

text \<open>
  \<^verbatim>\<open>pkg/tablespec/tablespec.go\<close>: table strings that carry query parameters. \<open>url.ParseQuery\<close>
  and \<open>url.QueryUnescape\<close> are modelled on ASCII text; a \<open>url.Values\<close> is the list of its
  key-value pairs in the order of the text. \<open>mapstructure\<close> is a library: the rule by which it
  matches a key with a field is a parameter of \<open>decode\<close>.
\<close>

subsection \<open>net/url\<close>

definition hex_value :: "char \<Rightarrow> nat option" where
  "hex_value c =
     (let n = of_char c :: nat
      in if 48 \<le> n \<and> n \<le> 57 then Some (n - 48) else if 97 \<le> n \<and> n \<le> 102 then Some (n - 87)
         else if 65 \<le> n \<and> n \<le> 70 then Some (n - 55) else None)"

fun query_unescape :: "string \<Rightarrow> string option" where
  "query_unescape [] = Some []"
| "query_unescape (c # s) =
     (if c = CHR ''%'' then
        (case s of
           a # b # r \<Rightarrow>
             (case (hex_value a, hex_value b) of
                (Some x, Some y) \<Rightarrow> map_option (Cons (char_of (16 * x + y))) (query_unescape r)
              | _ \<Rightarrow> None)
         | _ \<Rightarrow> None)
      else map_option (Cons (if c = CHR ''+'' then CHR '' '' else c)) (query_unescape s))"

text \<open>\<open>strings.Cut\<close> at a character.\<close>

definition cut :: "char \<Rightarrow> string \<Rightarrow> string \<times> string" where
  "cut d s = (takeWhile (\<lambda>c. c \<noteq> d) s, tl (dropWhile (\<lambda>c. c \<noteq> d) s))"

type_synonym url_values = "(string \<times> string) list"

fun parse_pairs :: "string list \<Rightarrow> url_values option" where
  "parse_pairs [] = Some []"
| "parse_pairs (tok # toks) =
     (if tok = [] then parse_pairs toks
      else if CHR '';'' \<in> set tok then None
      else (case cut (CHR ''='') tok of (k, v) \<Rightarrow>
              (case (query_unescape k, query_unescape v) of
                 (Some k', Some v') \<Rightarrow> map_option (Cons (k', v')) (parse_pairs toks)
               | _ \<Rightarrow> None)))"

definition parse_query :: "string \<Rightarrow> url_values option" where
  "parse_query s = parse_pairs (split_on (CHR ''&'') s)"

definition url_get :: "url_values \<Rightarrow> string \<Rightarrow> string" where
  "url_get q k = (case map_of q k of None \<Rightarrow> [] | Some v \<Rightarrow> v)"

definition url_all :: "url_values \<Rightarrow> string \<Rightarrow> string list" where
  "url_all q k = map snd (filter (\<lambda>p. fst p = k) q)"

subsection \<open>Split\<close>

definition key_start_char :: "char \<Rightarrow> bool" where
  "key_start_char c \<longleftrightarrow> is_letter c \<or> c = CHR ''_''"

definition key_char :: "char \<Rightarrow> bool" where
  "key_char c \<longleftrightarrow> is_letter c \<or> is_digit c \<or> c = CHR ''_'' \<or> c = CHR ''.''"

text \<open>The regular expression \<^verbatim>\<open>^[A-Za-z_][A-Za-z0-9_.]*(=.*)?$\<close>; a dot matches any character but a
  line feed.\<close>

definition param_key_token :: "string \<Rightarrow> bool" where
  "param_key_token tok =
     (case tok of
        [] \<Rightarrow> False
      | c # s \<Rightarrow> key_start_char c \<and>
          (case dropWhile key_char s of
             [] \<Rightarrow> True | d # r \<Rightarrow> d = CHR ''='' \<and> CHR 0x0A \<notin> set r))"

definition looks_like_params :: "string \<Rightarrow> bool" where
  "looks_like_params s \<longleftrightarrow> contains s ''='' \<and>
     list_all (\<lambda>tok. tok = [] \<or> param_key_token tok) (split_on (CHR ''&'') s)"

text \<open>The text before and after the last occurrence of a character.\<close>

definition cut_last :: "char \<Rightarrow> string \<Rightarrow> (string \<times> string) option" where
  "cut_last d s =
     (if d \<in> set s
      then Some (rev (tl (dropWhile (\<lambda>c. c \<noteq> d) (rev s))), rev (takeWhile (\<lambda>c. c \<noteq> d) (rev s)))
      else None)"

datatype spec_error = InvalidParameters | UnknownParameters "string list" | BadBoolean string | BadValue string

definition split_spec :: "string \<Rightarrow> string \<times> (url_values option) \<times> bool" where
  "split_spec raw =
     (case cut_last (CHR ''?'') raw of
        None \<Rightarrow> (raw, Some [], False)
      | Some (path, query) \<Rightarrow>
          (if \<not> looks_like_params query then (raw, Some [], False)
           else (path, parse_query query, True)))"

text \<open>\<open>ValidateKeys\<close> reports the keys that are not known, sorted.\<close>

definition insert_sorted :: "string \<Rightarrow> string list \<Rightarrow> string list" where
  "insert_sorted x xs = takeWhile (\<lambda>y. ord.lexordp (\<lambda>a b. (of_char a :: nat) < of_char b) y x) xs @ x #
     dropWhile (\<lambda>y. ord.lexordp (\<lambda>a b. (of_char a :: nat) < of_char b) y x) xs"

definition sort_strings :: "string list \<Rightarrow> string list" where
  "sort_strings xs = foldr insert_sorted xs []"

definition validate_keys :: "url_values \<Rightarrow> string list \<Rightarrow> spec_error option" where
  "validate_keys params known =
     (let unknown = filter (\<lambda>k. k \<notin> set known) (remdups (map fst params))
      in if unknown = [] then None else Some (UnknownParameters (sort_strings unknown)))"

lemma set_insert_sorted [simp]: "set (insert_sorted x xs) = insert x (set xs)"
proof -
  have "set xs = set (takeWhile P xs @ dropWhile P xs)" for P :: "string \<Rightarrow> bool" by simp
  then show ?thesis unfolding insert_sorted_def by (metis Un_insert_right list.simps(15) set_append)
qed

lemma set_sort_strings [simp]: "set (sort_strings xs) = set xs"
  by (induction xs) (simp_all add: sort_strings_def)

lemma validate_keys_ok: "validate_keys params known = None \<longleftrightarrow> fst ` set params \<subseteq> set known"
  by (auto simp: validate_keys_def Let_def filter_empty_conv)

subsection \<open>Values\<close>

text \<open>The hooks: a text for a Boolean field, and a text for a field that is a list.\<close>

definition parse_bool :: "string \<Rightarrow> bool option" where
  "parse_bool s =
     (if s \<in> set [''1'', ''t'', ''T'', ''TRUE'', ''true'', ''True''] then Some True
      else if s \<in> set [''0'', ''f'', ''F'', ''FALSE'', ''false'', ''False''] then Some False else None)"

definition string_to_bool :: "string \<Rightarrow> (spec_error, bool) sum" where
  "string_to_bool data =
     (let s = trim_space data
      in if s = [] then Inr True
         else (case parse_bool s of None \<Rightarrow> Inl (BadBoolean s) | Some b \<Rightarrow> Inr b))"

definition string_to_slice :: "char \<Rightarrow> string \<Rightarrow> string list" where
  "string_to_slice sep data = filter (\<lambda>p. p \<noteq> []) (map trim_space (split_on sep data))"

text \<open>A parameter's value for a field of text and for a field of texts. A repeated key is a list,
  which a text field does not take; a dotted key is a nested map, which neither takes.\<close>

definition string_field :: "url_values \<Rightarrow> string \<Rightarrow> (spec_error, string) sum" where
  "string_field q k =
     (case url_all q k of [] \<Rightarrow> Inr [] | [v] \<Rightarrow> Inr v | _ \<Rightarrow> Inl (BadValue k))"

definition list_field :: "char \<Rightarrow> url_values \<Rightarrow> string \<Rightarrow> (spec_error, string list) sum" where
  "list_field sep q k =
     (case url_all q k of [] \<Rightarrow> Inr [] | [v] \<Rightarrow> Inr (string_to_slice sep v) | vs \<Rightarrow> Inr vs)"

text \<open>The key a field takes its value from: its own name, or else the first key the library
  matches with it.\<close>

definition field_key :: "(string \<Rightarrow> string \<Rightarrow> bool) \<Rightarrow> url_values \<Rightarrow> string \<Rightarrow> string" where
  "field_key match q field =
     (if field \<in> set (map fst q) then field
      else (case find (\<lambda>k. match k field) (map fst q) of None \<Rightarrow> field | Some k \<Rightarrow> k))"

definition unused_keys :: "(string \<Rightarrow> string \<Rightarrow> bool) \<Rightarrow> url_values \<Rightarrow> string list \<Rightarrow> string list" where
  "unused_keys match q fields =
     filter (\<lambda>k. k \<notin> set (map (field_key match q) fields)) (remdups (map fst q))"

subsection \<open>Lemmas\<close>

lemma cut_last_append: "d \<notin> set t \<Longrightarrow> cut_last d (s @ d # t) = Some (s, t)"
  by (simp add: cut_last_def takeWhile_append dropWhile_append)

lemma cut_last_split: "cut_last d s = Some (a, b) \<Longrightarrow> s = a @ d # b \<and> d \<notin> set b"
proof -
  assume c: "cut_last d s = Some (a, b)"
  then have d: "d \<in> set s" by (simp add: cut_last_def split: if_splits)
  then obtain u v where uv: "s = u @ d # v" "d \<notin> set v" using split_list_last by metis
  then have "cut_last d s = Some (u, v)" by (simp add: cut_last_append)
  then show ?thesis using c uv by simp
qed

lemma cut_plain: "d \<notin> set k \<Longrightarrow> cut d (k @ d # v) = (k, v)"
  by (induction k) (auto simp: cut_def)

text \<open>Text without the characters that mean something in a query.\<close>

definition query_plain :: "string \<Rightarrow> bool" where
  "query_plain s \<longleftrightarrow> list_all (\<lambda>c. c \<notin> set ''%+&=;?#'' \<and> c \<noteq> CHR 0x0A) s"

lemma query_plain_append [simp]: "query_plain (s @ t) \<longleftrightarrow> query_plain s \<and> query_plain t"
  by (simp add: query_plain_def)

lemma query_plain_Cons [simp]:
  "query_plain (c # t) \<longleftrightarrow> c \<notin> set ''%+&=;?#'' \<and> c \<noteq> CHR 0x0A \<and> query_plain t"
  by (auto simp: query_plain_def)

lemma query_plain_Nil [simp]: "query_plain []"
  by (simp add: query_plain_def)

lemma query_plain_not_in:
  "query_plain s \<Longrightarrow> CHR ''&'' \<notin> set s \<and> CHR ''='' \<notin> set s \<and> CHR '';'' \<notin> set s \<and> CHR ''?'' \<notin> set s \<and>
     CHR 0x0A \<notin> set s"
  by (auto simp: query_plain_def list_all_iff)

lemma query_unescape_plain: "query_plain s \<Longrightarrow> query_unescape s = Some s"
  by (induction s) simp_all

lemma query_plain_join: "\<forall>p \<in> set ps. query_plain p \<Longrightarrow> query_plain sep \<Longrightarrow> query_plain (join sep ps)"
proof (induction ps)
  case (Cons p ps)
  then show ?case by (cases "ps = []") (simp_all add: join_Cons)
qed simp

definition pair_text :: "string \<times> string \<Rightarrow> string" where
  "pair_text p = fst p @ ''='' @ snd p"

lemma parse_pairs_plain:
  "\<forall>(k, v) \<in> set q. query_plain k \<and> query_plain v \<Longrightarrow> parse_pairs (map pair_text q) = Some q"
proof (induction q)
  case (Cons p q)
  obtain k v where p: "p = (k, v)" by fastforce
  with Cons.prems have kv: "query_plain k" "query_plain v" by auto
  then have "cut (CHR ''='') (k @ ''='' @ v) = (k, v)" using cut_plain [of "CHR ''=''" k v] query_plain_not_in by auto
  moreover have "CHR '';'' \<notin> set (k @ ''='' @ v)" using kv query_plain_not_in by auto
  ultimately show ?case using Cons kv by (simp add: p pair_text_def query_unescape_plain)
qed simp

lemma parse_query_plain:
  assumes "q \<noteq> []" "\<forall>(k, v) \<in> set q. query_plain k \<and> query_plain v"
  shows "parse_query (join ''&'' (map pair_text q)) = Some q"
proof -
  have "\<forall>p \<in> set (map pair_text q). CHR ''&'' \<notin> set p"
    using assms(2) query_plain_not_in by (fastforce simp: pair_text_def)
  then show ?thesis
    using assms parse_pairs_plain by (simp add: parse_query_def split_on_join)
qed

lemma string_to_slice_join:
  assumes "xs \<noteq> []" "\<forall>x \<in> set xs. x \<noteq> [] \<and> sep \<notin> set x \<and> trim_space x = x"
  shows "string_to_slice sep (join [sep] xs) = xs"
  using assms split_on_join [of xs sep]
  by (simp add: string_to_slice_def map_idI filter_id_conv)

text \<open>A table with one parameter block.\<close>

definition plain_key :: "string \<Rightarrow> bool" where
  "plain_key k \<longleftrightarrow> k \<noteq> [] \<and> key_start_char (hd k) \<and> list_all key_char (tl k)"

lemma key_char_plain: "key_char c \<Longrightarrow> c \<notin> set ''%+&=;?#'' \<and> c \<noteq> CHR 0x0A"
  by (auto simp: key_char_def is_letter_def is_lower_def is_upper_def is_digit_def)

lemma key_start_key_char: "key_start_char c \<Longrightarrow> key_char c"
  by (auto simp: key_char_def key_start_char_def)

lemma plain_key_query_plain: "plain_key k \<Longrightarrow> query_plain k"
  unfolding plain_key_def query_plain_def list_all_iff
  by (cases k) (use key_char_plain key_start_key_char in auto)

lemma param_key_token_pair:
  assumes "plain_key k" "query_plain v"
  shows "param_key_token (pair_text (k, v))"
proof -
  obtain c s where k: "k = c # s" "key_start_char c" "list_all key_char s"
    using assms(1) by (cases k) (auto simp: plain_key_def)
  have "dropWhile key_char (s @ ''='' @ v) = CHR ''='' # v"
    using k(3) by (induction s) (simp_all add: key_char_def is_letter_def is_lower_def is_upper_def is_digit_def)
  then show ?thesis using k query_plain_not_in [OF assms(2)] by (simp add: param_key_token_def pair_text_def)
qed

lemma split_spec_query:
  assumes "q \<noteq> []" "\<forall>(k, v) \<in> set q. plain_key k \<and> query_plain v"
  shows "split_spec (path @ ''?'' @ join ''&'' (map pair_text q)) = (path, Some q, True)"
proof -
  let ?t = "join ''&'' (map pair_text q)"
  have pl: "\<forall>(k, v) \<in> set q. query_plain k \<and> query_plain v" using assms(2) plain_key_query_plain by fastforce
  have parts: "split_on (CHR ''&'') ?t = map pair_text q"
    by (rule split_on_join) (use assms(1) pl query_plain_not_in in \<open>fastforce simp: pair_text_def\<close>)+
  have "CHR ''?'' \<notin> set x" if "x \<in> set (map pair_text q)" for x
    using that pl query_plain_not_in by (fastforce simp: pair_text_def)
  then have nq: "CHR ''?'' \<notin> set ?t"
  proof (induction "map pair_text q" arbitrary: q)
    case (Cons a x)
    then obtain p r where q: "q = p # r" "a = pair_text p" "x = map pair_text r" by (cases q) auto
    then show ?case using Cons(1) [of r] Cons(3) by (cases "r = []") (auto simp: join_Cons)
  qed simp
  have "CHR ''='' \<in> set ?t"
  proof -
    obtain k v r where q: "q = (k, v) # r" using assms(1) by (cases q) auto
    then show ?thesis by (cases "r = []") (simp_all add: join_Cons pair_text_def)
  qed
  then have "contains ?t ''=''" using contains_iff split_list by (metis append_Cons append_Nil)
  moreover have "list_all (\<lambda>tok. tok = [] \<or> param_key_token tok) (map pair_text q)"
    using assms(2) param_key_token_pair by (fastforce simp: list_all_iff)
  ultimately have "looks_like_params ?t" by (simp add: looks_like_params_def parts)
  moreover have "cut_last (CHR ''?'') (path @ ''?'' @ ?t) = Some (path, ?t)" using nq cut_last_append by simp
  ultimately show ?thesis using parse_query_plain [OF assms(1) pl] by (simp add: split_spec_def)
qed


subsection \<open>Properties\<close>

text \<open>A table name with a block of parameters is taken apart without loss: the name before the last
  question mark may hold anything, and the keys and values come back in the order they were written,
  repeated keys included.\<close>

theorem table_spec_round_trip:
  assumes "q \<noteq> []" "\<forall>(k, v) \<in> set q. plain_key k \<and> query_plain v"
  shows "split_spec (path @ ''?'' @ join ''&'' (map pair_text q)) = (path, Some q, True)"
  using assms by (rule split_spec_query)

theorem table_spec_round_trip_witness:
  "split_spec ''Candidate?fields=id,name&where=a'' = (''Candidate'', Some [(''fields'', ''id,name''), (''where'', ''a'')], True)"
proof -
  let ?q = "[(''fields'', ''id,name''), (''where'', ''a'')]"
  have "?q \<noteq> []" "\<forall>(k, v) \<in> set ?q. plain_key k \<and> query_plain v" by code_simp+
  moreover have "''Candidate'' @ ''?'' @ join ''&'' (map pair_text ?q) = ''Candidate?fields=id,name&where=a''" by code_simp
  ultimately show ?thesis using table_spec_round_trip [of ?q "''Candidate''"] by simp
qed

end
