(* ===== verification/Bullhorn_Source.thy ===== *)
theory Bullhorn_Source
  imports Bullhorn_Session Table_Spec Complex_Main "HOL-Library.AList"
begin

text \<open>
  \<^verbatim>\<open>pkg/source/bullhorn/bullhorn.go\<close>: the source's URI and tables, the range clauses, the
  paginated read with its field allowlist and its byte-bounded batches, the metadata and the
  subscription tables, and \<open>RowBytes\<close> of \<^verbatim>\<open>pkg/arrowconv\<close>. The Arrow conversion is a
  parameter \<open>build\<close>; a decoded JSON object is the association list of its keys.
\<close>

subsection \<open>Rows\<close>

datatype jvalue =
  VNull | VBool bool | VNumber string | VString string | VInt int | VFloat rat | VTime gotime
  | VList "jvalue list" | VObject "(string \<times> jvalue) list"

type_synonym row = "(string \<times> jvalue) list"

fun value_len :: "jvalue \<Rightarrow> int" and values_len :: "jvalue list \<Rightarrow> int"
  and row_bytes :: "(string \<times> jvalue) list \<Rightarrow> int" where
  "value_len VNull = 0"
| "value_len (VString s) = int (length s)"
| "value_len (VBool b) = 1"
| "value_len (VList xs) = values_len xs"
| "value_len (VObject m) = row_bytes m"
| "value_len (VNumber n) = 8"
| "value_len (VInt n) = 8"
| "value_len (VFloat x) = 8"
| "value_len (VTime t) = 8"
| "values_len [] = 0"
| "values_len (x # xs) = value_len x + values_len xs"
| "row_bytes [] = 0"
| "row_bytes ((k, v) # m) = int (length k) + value_len v + row_bytes m"

definition apply_allowlist :: "row \<Rightarrow> string list \<Rightarrow> row" where
  "apply_allowlist raw flds =
     foldl (\<lambda>row f. case map_of raw f of None \<Rightarrow> row | Some v \<Rightarrow> AList.update f v row) [] flds"

definition to_int64 :: "jvalue \<Rightarrow> int option" where
  "to_int64 v =
     (case v of
        VInt n \<Rightarrow> Some n
      | VFloat x \<Rightarrow> Some (if 0 \<le> x then \<lfloor>x\<rfloor> else \<lceil>x\<rceil>)
      | VNumber n \<Rightarrow> atoi n
      | VString s \<Rightarrow> atoi s
      | _ \<Rightarrow> None)"

definition convert_timestamp_field :: "row \<Rightarrow> string \<Rightarrow> row" where
  "convert_timestamp_field row f =
     (case map_of row f of
        None \<Rightarrow> row
      | Some v \<Rightarrow>
          (if v = VNull then row
           else (case to_int64 v of None \<Rightarrow> row | Some ms \<Rightarrow> AList.update f (VTime (from_unix_milli ms)) row)))"

definition convert_timestamp_fields :: "row \<Rightarrow> string list \<Rightarrow> row" where
  "convert_timestamp_fields row ts_fields = foldl convert_timestamp_field row ts_fields"

definition timestamp_field_names :: "string list" where
  "timestamp_field_names = [''dateAdded'', ''dateLastModified'', ''dateLastVisit'', ''startDate'', ''endDate'',
     ''dateBegin'', ''dateEnd'']"

subsection \<open>Range clauses\<close>

definition build_lucene_range :: "string \<Rightarrow> gotime option \<Rightarrow> gotime option \<Rightarrow> string" where
  "build_lucene_range field start_at end_at =
     (if start_at = None \<and> end_at = None then []
      else field @ '':['' @ (case start_at of None \<Rightarrow> ''*'' | Some t \<Rightarrow> itoa (unix_milli t)) @ '' TO '' @
             (case end_at of None \<Rightarrow> ''*'' | Some t \<Rightarrow> itoa (unix_milli t)) @ '']'')"

definition build_jpql_range :: "string \<Rightarrow> gotime option \<Rightarrow> gotime option \<Rightarrow> string" where
  "build_jpql_range field start_at end_at =
     join '' AND ''
       ((case start_at of None \<Rightarrow> [] | Some t \<Rightarrow> [field @ '' >= '' @ itoa (unix_milli t)]) @
        (case end_at of None \<Rightarrow> [] | Some t \<Rightarrow> [field @ '' < '' @ itoa (unix_milli t)]))"

subsection \<open>Tables\<close>

datatype endpoint_style = StyleSearch | StyleQuery | StyleMeta | StyleSubscription

record entity_table =
  et_table :: string
  et_entity :: string
  et_style :: endpoint_style
  et_primary_keys :: "string list"
  et_incremental_key :: string
  et_strategy :: string

definition entity_row :: "string \<Rightarrow> string \<Rightarrow> endpoint_style \<Rightarrow> entity_table" where
  "entity_row table entity style = \<lparr>et_table = table, et_entity = entity, et_style = style,
     et_primary_keys = [''id''], et_incremental_key = ''dateLastModified'', et_strategy = ''merge''\<rparr>"

definition builtin_entities :: "(string \<times> entity_table) list" where
  "builtin_entities =
     [(''candidate'', entity_row ''candidate'' ''Candidate'' StyleSearch),
      (''client_corporation'', entity_row ''client_corporation'' ''ClientCorporation'' StyleSearch),
      (''client_contact'', entity_row ''client_contact'' ''ClientContact'' StyleSearch),
      (''job_order'', entity_row ''job_order'' ''JobOrder'' StyleSearch),
      (''placement'', entity_row ''placement'' ''Placement'' StyleSearch),
      (''job_submission'', entity_row ''job_submission'' ''JobSubmission'' StyleQuery),
      (''corporate_user'', entity_row ''corporate_user'' ''CorporateUser'' StyleQuery),
      (''entity_metadata'', \<lparr>et_table = ''entity_metadata'', et_entity = [], et_style = StyleMeta,
         et_primary_keys = [''entity'', ''field_name''], et_incremental_key = [], et_strategy = ''replace''\<rparr>),
      (''deleted_records'', \<lparr>et_table = ''deleted_records'', et_entity = [], et_style = StyleSubscription,
         et_primary_keys = [''entity'', ''entity_id'', ''event_id''], et_incremental_key = ''event_timestamp'',
         et_strategy = ''merge''\<rparr>)]"

record table_params =
  tp_fields :: "string list"
  tp_entity :: string
  tp_entities :: "string list"
  tp_timestamp_fields :: "string list"
  tp_subscription_id :: string
  tp_state_path :: string

definition empty_params :: table_params where
  "empty_params = \<lparr>tp_fields = [], tp_entity = [], tp_entities = [], tp_timestamp_fields = [],
     tp_subscription_id = [], tp_state_path = []\<rparr>"

definition param_names :: "string list" where
  "param_names = [''fields'', ''entity'', ''entities'', ''timestamp_fields'', ''subscription_id'', ''state_path'']"

definition decode_params :: "(string \<Rightarrow> string \<Rightarrow> bool) \<Rightarrow> url_values \<Rightarrow> (spec_error, table_params) sum" where
  "decode_params match q =
     (let lf = (\<lambda>f. list_field (CHR '','') q (field_key match q f));
          sf = (\<lambda>f. string_field q (field_key match q f))
      in case (lf ''fields'', sf ''entity'', lf ''entities'', lf ''timestamp_fields'', sf ''subscription_id'',
               sf ''state_path'') of
           (Inr a, Inr b, Inr c, Inr d, Inr e, Inr f) \<Rightarrow>
             (if unused_keys match q param_names \<noteq> []
              then Inl (UnknownParameters (sort_strings (unused_keys match q param_names)))
              else Inr \<lparr>tp_fields = a, tp_entity = b, tp_entities = c, tp_timestamp_fields = d,
                         tp_subscription_id = e, tp_state_path = f\<rparr>)
         | _ \<Rightarrow> Inl InvalidParameters)"

definition parse_table :: "(string \<Rightarrow> string \<Rightarrow> bool) \<Rightarrow> string \<Rightarrow> string \<times> (spec_error, table_params) sum" where
  "parse_table match raw =
     (case split_spec raw of
        (path, None, _) \<Rightarrow> (path, Inl InvalidParameters)
      | (path, Some q, has) \<Rightarrow> (path, if has then decode_params match q else Inr empty_params))"

definition validate_allowlist :: "string list \<Rightarrow> bullhorn_error option" where
  "validate_allowlist flds =
     (if flds = [] then Some AllowlistMissing
      else if ''*'' \<in> set flds then Some WildcardForbidden else None)"

record source_table =
  sb_name :: string
  sb_entity :: entity_table
  sb_params :: table_params
  sb_ts_fields :: "string list"

definition get_table :: "(string \<Rightarrow> string \<Rightarrow> bool) \<Rightarrow> string \<Rightarrow> (bullhorn_error, source_table) sum" where
  "get_table match name =
     (case parse_table match name of
        (_, Inl _) \<Rightarrow> Inl TableParameters
      | (base, Inr params) \<Rightarrow>
          (case (case map_of builtin_entities base of
                   Some cfg \<Rightarrow> Inr cfg
                 | None \<Rightarrow> (if tp_entity params = [] then Inl (UnsupportedTable base)
                           else Inr (entity_row base (tp_entity params) StyleQuery))) of
             Inl e \<Rightarrow> Inl e
           | Inr cfg \<Rightarrow>
               (case (if et_style cfg = StyleSearch \<or> et_style cfg = StyleQuery
                      then validate_allowlist (tp_fields params) else None) of
                  Some e \<Rightarrow> Inl e
                | None \<Rightarrow> Inr \<lparr>sb_name = base, sb_entity = cfg, sb_params = params,
                           sb_ts_fields = timestamp_field_names @ tp_timestamp_fields params\<rparr>)))"

subsection \<open>Requests\<close>

datatype http_method = GET | POST | PUT

record http_request =
  hq_method :: http_method
  hq_endpoint :: string
  hq_params :: "(string \<times> string) list"
  hq_body :: "(string \<times> string) option"

definition search_query_length_limit :: nat where "search_query_length_limit = 7500"

definition page_params :: "string list \<Rightarrow> nat \<Rightarrow> nat \<Rightarrow> (string \<times> string) list" where
  "page_params flds count start =
     [(''fields'', join '','' flds), (''count'', itoa (int count)), (''start'', itoa (int start))]"

definition page_request :: "string \<Rightarrow> string \<Rightarrow> string \<Rightarrow> string list \<Rightarrow> nat \<Rightarrow> nat \<Rightarrow> http_request" where
  "page_request endpoint name query flds count start =
     (if search_query_length_limit < length query
      then \<lparr>hq_method = POST, hq_endpoint = endpoint, hq_params = page_params flds count start,
             hq_body = Some (name, query)\<rparr>
      else \<lparr>hq_method = GET, hq_endpoint = endpoint, hq_params = page_params flds count start @ [(name, query)],
             hq_body = None\<rparr>)"

text \<open>What a running source is given: the API for pages, metadata and events; the
  re-authentication; the wait; the context (cancelled before a fetch, or while a batch is
  handed over); the Arrow conversion; and fuel for the request loop.\<close>

record meta_field =
  mf_name :: string
  mf_label :: string
  mf_type :: string
  mf_data_type :: string

record subscription_event =
  ev_id :: string
  ev_timestamp :: int
  ev_entity_name :: string
  ev_entity_id :: jvalue
  ev_entity_event_type :: string

record 'b runtime =
  rt_page :: "http_request \<Rightarrow> bullhorn \<Rightarrow> row list http \<times> bullhorn"
  rt_meta :: "http_request \<Rightarrow> bullhorn \<Rightarrow> meta_field list http \<times> bullhorn"
  rt_events :: "http_request \<Rightarrow> bullhorn \<Rightarrow> (int \<times> subscription_event list) http \<times> bullhorn"
  rt_put :: "http_request \<Rightarrow> bullhorn \<Rightarrow> unit http \<times> bullhorn"
  rt_reauth :: "bullhorn \<Rightarrow> bullhorn_error option \<times> bullhorn"
  rt_wait :: "bullhorn \<Rightarrow> bool \<times> bullhorn"
  rt_cancelled :: "bullhorn \<Rightarrow> bool"
  rt_blocked :: "nat \<Rightarrow> bool"
  rt_build :: "row list \<Rightarrow> 'b option"
  rt_fuel :: nat

definition fetch_page ::
  "'b runtime \<Rightarrow> string \<Rightarrow> string \<Rightarrow> string \<Rightarrow> string list \<Rightarrow> nat \<Rightarrow> nat \<Rightarrow> bullhorn
     \<Rightarrow> ((bullhorn_error, row list) sum \<times> bullhorn) option" where
  "fetch_page rt endpoint name query flds count start s =
     (case do_request (rt_fuel rt) (rt_page rt (page_request endpoint name query flds count start))
             (rt_reauth rt) (rt_wait rt) False s of
        None \<Rightarrow> None
      | Some (Inl e, s') \<Rightarrow> Some (Inl e, s')
      | Some (Inr None, s') \<Rightarrow> Some (Inl UndecodableResponse, s')
      | Some (Inr (Some rows), s') \<Rightarrow> Some (Inr rows, s'))"

definition fetch_search_page where
  "fetch_search_page rt entity query flds count start s =
     fetch_page rt (''/search/'' @ entity) ''query'' query flds count start s"

definition fetch_query_page where
  "fetch_query_page rt entity where_clause flds count start s =
     fetch_page rt (''/query/'' @ entity) ''where'' where_clause flds count start s"

subsection \<open>Batches\<close>

text \<open>The inner loop of \<open>paginateAndSend\<close>: the rows of a page in order, in batches.\<close>

fun batch_loop :: "int \<Rightarrow> row list \<Rightarrow> int \<Rightarrow> row list \<Rightarrow> row list list" where
  "batch_loop max_bytes items acc [] = (if items = [] then [] else [items])"
| "batch_loop max_bytes items acc (r # rs) =
     (if 0 < max_bytes then
        (if items \<noteq> [] \<and> max_bytes < acc + row_bytes r
         then items # batch_loop max_bytes [r] (row_bytes r) rs
         else batch_loop max_bytes (items @ [r]) (acc + row_bytes r) rs)
      else batch_loop max_bytes (items @ [r]) acc rs)"

text \<open>\<open>flush\<close>, batch after batch: a conversion may fail, and a send may see the context end.\<close>

fun send_batches :: "'b runtime \<Rightarrow> row list list \<Rightarrow> 'b list \<Rightarrow> 'b list \<times> bullhorn_error option" where
  "send_batches rt [] sent = (sent, None)"
| "send_batches rt (b # bs) sent =
     (case rt_build rt b of
        None \<Rightarrow> (sent, Some BuildFailed)
      | Some x \<Rightarrow> (if rt_blocked rt (length sent) then (sent, Some Cancelled) else send_batches rt bs (sent @ [x])))"

definition shape_row :: "string list \<Rightarrow> string list \<Rightarrow> row \<Rightarrow> row" where
  "shape_row flds ts_fields raw = convert_timestamp_fields (apply_allowlist raw flds) ts_fields"

fun paginate_and_send ::
  "nat \<Rightarrow> 'b runtime \<Rightarrow> string list \<Rightarrow> string list \<Rightarrow> int \<Rightarrow> nat
     \<Rightarrow> (nat \<Rightarrow> bullhorn \<Rightarrow> ((bullhorn_error, row list) sum \<times> bullhorn) option)
     \<Rightarrow> nat \<Rightarrow> 'b list \<Rightarrow> bullhorn \<Rightarrow> ('b list \<times> bullhorn_error option \<times> bullhorn) option" where
  "paginate_and_send 0 rt flds ts_fields max_bytes page_size fetch start sent s = None"
| "paginate_and_send (Suc fuel) rt flds ts_fields max_bytes page_size fetch start sent s =
     (if rt_cancelled rt s then Some (sent, Some Cancelled, s)
      else (case fetch start s of
              None \<Rightarrow> None
            | Some (Inl e, s1) \<Rightarrow> Some (sent, Some e, s1)
            | Some (Inr raw, s1) \<Rightarrow>
                (if raw = [] then Some (sent, None, s1)
                 else (case send_batches rt (batch_loop max_bytes [] 0 (map (shape_row flds ts_fields) raw)) sent of
                         (sent', Some e) \<Rightarrow> Some (sent', Some e, s1)
                       | (sent', None) \<Rightarrow>
                           (if length raw < page_size then Some (sent', None, s1)
                            else paginate_and_send fuel rt flds ts_fields max_bytes page_size fetch
                                   (start + page_size) sent' s1)))))"

definition default_max_page_size :: nat where "default_max_page_size = 500"

record read_options =
  ro_interval_start :: "gotime option"
  ro_interval_end :: "gotime option"
  ro_max_batch_bytes :: int

definition search_query :: "entity_table \<Rightarrow> read_options \<Rightarrow> string" where
  "search_query cfg opts =
     (let r = build_lucene_range (et_incremental_key cfg) (ro_interval_start opts) (ro_interval_end opts)
      in if et_incremental_key cfg \<noteq> [] \<and> r \<noteq> [] then r else ''*:*'')"

definition query_where :: "entity_table \<Rightarrow> read_options \<Rightarrow> string" where
  "query_where cfg opts =
     (let r = build_jpql_range (et_incremental_key cfg) (ro_interval_start opts) (ro_interval_end opts)
      in if et_incremental_key cfg \<noteq> [] \<and> r \<noteq> [] then r else ''id IS NOT NULL'')"

definition read_search where
  "read_search fuel rt cfg flds ts_fields opts s =
     paginate_and_send fuel rt flds ts_fields (ro_max_batch_bytes opts) default_max_page_size
       (\<lambda>start. fetch_search_page rt (et_entity cfg) (search_query cfg opts) flds default_max_page_size start) 0 [] s"

definition read_query where
  "read_query fuel rt cfg flds ts_fields opts s =
     paginate_and_send fuel rt flds ts_fields (ro_max_batch_bytes opts) default_max_page_size
       (\<lambda>start. fetch_query_page rt (et_entity cfg) (query_where cfg opts) flds default_max_page_size start) 0 [] s"

subsection \<open>Metadata and events\<close>

definition meta_row :: "string \<Rightarrow> meta_field \<Rightarrow> row" where
  "meta_row entity f = [(''entity'', VString entity), (''field_name'', VString (mf_name f)),
     (''label'', VString (mf_label f)), (''type'', VString (mf_type f)), (''data_type'', VString (mf_data_type f))]"

definition get_request :: "string \<Rightarrow> (string \<times> string) list \<Rightarrow> http_request" where
  "get_request endpoint params = \<lparr>hq_method = GET, hq_endpoint = endpoint, hq_params = params, hq_body = None\<rparr>"

fun meta_items ::
  "'b runtime \<Rightarrow> string list \<Rightarrow> row list \<Rightarrow> bullhorn \<Rightarrow> ((bullhorn_error, row list) sum \<times> bullhorn) option" where
  "meta_items rt [] items s = Some (Inr items, s)"
| "meta_items rt (e # es) items s =
     (if rt_cancelled rt s then Some (Inl Cancelled, s)
      else (case do_request (rt_fuel rt) (rt_meta rt (get_request (''/meta/'' @ e) [(''fields'', ''*'')]))
                   (rt_reauth rt) (rt_wait rt) False s of
              None \<Rightarrow> None
            | Some (Inl err, s1) \<Rightarrow> Some (Inl err, s1)
            | Some (Inr None, s1) \<Rightarrow> Some (Inl UndecodableResponse, s1)
            | Some (Inr (Some fs), s1) \<Rightarrow> meta_items rt es (items @ map (meta_row e) fs) s1))"

definition read_meta ::
  "'b runtime \<Rightarrow> string list \<Rightarrow> bullhorn \<Rightarrow> ('b list \<times> bullhorn_error option \<times> bullhorn) option" where
  "read_meta rt entities s =
     (if entities = [] then Some ([], Some EntitiesRequired, s)
      else (case meta_items rt entities [] s of
              None \<Rightarrow> None
            | Some (Inl e, s1) \<Rightarrow> Some ([], Some e, s1)
            | Some (Inr items, s1) \<Rightarrow>
                (if items = [] then Some ([], None, s1)
                 else (case send_batches rt [items] [] of (sent, e) \<Rightarrow> Some (sent, e, s1)))))"

definition event_row :: "subscription_event \<Rightarrow> row" where
  "event_row ev = [(''entity'', VString (ev_entity_name ev)), (''entity_id'', ev_entity_id ev),
     (''event_id'', VString (ev_id ev)), (''event_type'', VString ''hard_delete''),
     (''event_timestamp'', VTime (from_unix_milli (ev_timestamp ev)))]"

definition ensure_subscription ::
  "'b runtime \<Rightarrow> string \<Rightarrow> string list \<Rightarrow> bullhorn \<Rightarrow> (bullhorn_error option \<times> bullhorn) option" where
  "ensure_subscription rt sid entities s =
     (case do_request (rt_fuel rt)
             (rt_put rt \<lparr>hq_method = PUT, hq_endpoint = ''/event/subscription/'' @ sid,
                hq_params = [(''type'', ''entity''), (''names'', join '','' entities),
                             (''eventTypes'', ''INSERTED,UPDATED,DELETED'')], hq_body = None\<rparr>)
             (rt_reauth rt) (rt_wait rt) False s of
        None \<Rightarrow> None
      | Some (Inl e, s1) \<Rightarrow> Some (Some e, s1)
      | Some (Inr _, s1) \<Rightarrow> Some (None, s1))"

definition events_request :: "string \<Rightarrow> int \<Rightarrow> http_request" where
  "events_request sid last_id =
     get_request (''/event/subscription/'' @ sid)
       ([(''maxEvents'', ''100'')] @ (if 0 < last_id then [(''requestId'', itoa last_id)] else []))"

definition read_subscription ::
  "'b runtime \<Rightarrow> table_params \<Rightarrow> bullhorn \<Rightarrow> ('b list \<times> bullhorn_error option \<times> bullhorn) option" where
  "read_subscription rt params s =
     (if tp_entities params = [] then Some ([], Some EntitiesRequired, s)
      else
        (let sid = (if tp_subscription_id params = [] then ''ingestr'' else tp_subscription_id params);
             path = (if tp_state_path params = [] then cr_token_output (bh_creds s) @ ''.subscription_state.json''
                     else tp_state_path params)
         in case ensure_subscription rt sid (tp_entities params) s of
              None \<Rightarrow> None
            | Some (Some e, s1) \<Rightarrow> Some ([], Some e, s1)
            | Some (None, s1) \<Rightarrow>
                (case load_subscription_state path (bh_world s1) of
                   Inl e \<Rightarrow> Some ([], Some e, s1)
                 | Inr last_id \<Rightarrow>
                     (case do_request (rt_fuel rt) (rt_events rt (events_request sid last_id))
                             (rt_reauth rt) (rt_wait rt) False s1 of
                        None \<Rightarrow> None
                      | Some (Inl e, s2) \<Rightarrow> Some ([], Some e, s2)
                      | Some (Inr None, s2) \<Rightarrow> Some ([], Some UndecodableResponse, s2)
                      | Some (Inr (Some (request_id, events)), s2) \<Rightarrow>
                          (let items = map event_row (filter (\<lambda>ev. ev_entity_event_type ev = ''DELETED'') events)
                           in case (if items = [] then ([], None) else send_batches rt [items] []) of
                                (sent, Some e) \<Rightarrow> Some (sent, Some e, s2)
                              | (sent, None) \<Rightarrow>
                                  (if 0 < request_id
                                   then (case save_subscription_state path request_id (bh_world s2) of
                                           (e, w) \<Rightarrow> Some (sent, e, s2\<lparr>bh_world := w\<rparr>))
                                   else Some (sent, None, s2)))))))"

text \<open>The goroutine of \<open>read\<close>; an error is sent last.\<close>

definition read_table ::
  "nat \<Rightarrow> 'b runtime \<Rightarrow> source_table \<Rightarrow> read_options \<Rightarrow> bullhorn
     \<Rightarrow> ('b list \<times> bullhorn_error option \<times> bullhorn) option" where
  "read_table fuel rt t opts s =
     (let cfg = sb_entity t; params = sb_params t
      in case et_style cfg of
           StyleSearch \<Rightarrow> read_search fuel rt cfg (tp_fields params) (sb_ts_fields t) opts s
         | StyleQuery \<Rightarrow> read_query fuel rt cfg (tp_fields params) (sb_ts_fields t) opts s
         | StyleMeta \<Rightarrow> read_meta rt (tp_entities params) s
         | StyleSubscription \<Rightarrow> read_subscription rt params s)"

subsection \<open>Close and the URI\<close>

definition close_source :: "bullhorn \<Rightarrow> bullhorn" where
  "close_source s =
     (let path = w_env (bh_world s) ''AFC_CALL_COUNT_FILE''
      in if path \<noteq> [] \<and> \<not> w_fault (bh_world s) IoWrite
         then s\<lparr>bh_world := put_file path (Text (itoa (bh_call_count s))) (bh_world s)\<rparr> else s)"

datatype uri_error =
  InvalidUri | BadScheme | ClientIdRequired | ClientSecretRequired | CredentialsRequired | DataCenterRequired
  | RateLimitRequired | BadRateLimit string | TokenOutputRequired

text \<open>The query of a URI; \<open>URL.Query\<close> drops the pairs that do not parse.\<close>

definition uri_query :: "string \<Rightarrow> url_values" where
  "uri_query uri =
     concat (map (\<lambda>tok. case parse_pairs [tok] of Some q \<Rightarrow> q | None \<Rightarrow> [])
       (split_on (CHR ''&'') (snd (cut (CHR ''?'') (takeWhile (\<lambda>c. c \<noteq> CHR ''#'') uri)))))"

text \<open>A decimal number, with an optional sign and fraction; the other notations of
  \<open>strconv.ParseFloat\<close> are not modelled.\<close>

definition parse_decimal :: "string \<Rightarrow> rat option" where
  "parse_decimal s =
     (let neg = (s \<noteq> [] \<and> hd s = CHR ''-'');
          t = (if s \<noteq> [] \<and> (hd s = CHR ''-'' \<or> hd s = CHR ''+'') then tl s else s);
          (a, b) = cut (CHR ''.'') t
      in if (a \<noteq> [] \<or> b \<noteq> []) \<and> list_all is_digit a \<and> list_all is_digit b
         then Some ((if neg then -1 else 1) * (of_nat (digits_value (a @ b)) / 10 ^ length b)) else None)"

text \<open>\<open>url.Parse\<close> refuses a control character before the fragment; that it refuses an authority with a bad port or
  a bad escape as well is not modelled.\<close>

definition has_control :: "string \<Rightarrow> bool" where
  "has_control uri \<longleftrightarrow>
     list_ex (\<lambda>c. (of_char c :: nat) < 0x20 \<or> (of_char c :: nat) = 0x7F) (takeWhile (\<lambda>c. c \<noteq> CHR ''#'') uri)"

definition parse_uri :: "string \<Rightarrow> (uri_error, credentials \<times> rat) sum" where
  "parse_uri uri =
     (if has_control uri then Inl InvalidUri
      else if to_lower (takeWhile (\<lambda>c. c \<noteq> CHR '':'') uri) \<noteq> ''bullhorn'' then Inl BadScheme
      else
        (let q = uri_query uri; g = url_get q;
             user = g ''username''; pass = g ''password''; refresh = g ''refresh_token''
         in if g ''client_id'' = [] then Inl ClientIdRequired
            else if g ''client_secret'' = [] then Inl ClientSecretRequired
            else if refresh = [] \<and> (user = [] \<or> pass = []) then Inl CredentialsRequired
            else if g ''data_center'' = [] then Inl DataCenterRequired
            else if g ''rate_limit'' = [] then Inl RateLimitRequired
            else (case parse_decimal (g ''rate_limit'') of
                    None \<Rightarrow> Inl (BadRateLimit (g ''rate_limit''))
                  | Some rate \<Rightarrow>
                      (if rate \<le> 0 then Inl (BadRateLimit (g ''rate_limit''))
                       else if g ''token_output'' = [] then Inl TokenOutputRequired
                       else Inr (\<lparr>cr_client_id = g ''client_id'', cr_client_secret = g ''client_secret'',
                                 cr_refresh_token = refresh, cr_username = user, cr_password = pass,
                                 cr_data_center = g ''data_center'', cr_token_output = g ''token_output''\<rparr>, rate)))))"

subsection \<open>Rows keep to the allowlist\<close>

lemma apply_allowlist_lookup:
  "map_of (apply_allowlist raw flds) k = (if k \<in> set flds then map_of raw k else None)"
proof -
  have "map_of (foldl (\<lambda>row f. case map_of raw f of None \<Rightarrow> row | Some v \<Rightarrow> AList.update f v row) row0 flds) k =
    (if k \<in> set flds \<and> map_of raw k \<noteq> None then map_of raw k else map_of row0 k)" for row0
    by (induction flds arbitrary: row0) (auto simp: AList.update_conv' split: option.splits)
  then show ?thesis by (auto simp: apply_allowlist_def)
qed

definition convert_value :: "jvalue \<Rightarrow> jvalue" where
  "convert_value v = (case to_int64 v of None \<Rightarrow> v | Some ms \<Rightarrow> VTime (from_unix_milli ms))"

lemma convert_value_idem [simp]: "convert_value (convert_value v) = convert_value v"
  by (auto simp: convert_value_def to_int64_def split: option.splits jvalue.splits)

lemma convert_field_lookup:
  "map_of (convert_timestamp_field row f) k = (if k = f then map_option convert_value (map_of row k) else map_of row k)"
  by (auto simp: convert_timestamp_field_def convert_value_def AList.update_conv' to_int64_def
      split: option.splits)

lemma convert_fields_lookup:
  "map_of (convert_timestamp_fields row ts) k =
     (if k \<in> set ts then map_option convert_value (map_of row k) else map_of row k)"
  unfolding convert_timestamp_fields_def
  by (induction ts arbitrary: row) (auto simp: convert_field_lookup option.map_comp comp_def)

lemma shape_row_lookup:
  "map_of (shape_row flds ts raw) k =
     (if k \<in> set flds then map_option (if k \<in> set ts then convert_value else id) (map_of raw k) else None)"
  by (simp add: shape_row_def convert_fields_lookup apply_allowlist_lookup option.map_id)

subsection \<open>Batches keep the rows and their order\<close>

lemma value_len_nonneg: "0 \<le> value_len v" and "0 \<le> values_len vs" and "0 \<le> row_bytes r"
  by (induction v and vs and r rule: value_len_values_len_row_bytes.induct) simp_all

lemma batch_loop_concat: "concat (batch_loop max_bytes items acc rows) = items @ rows"
  by (induction max_bytes items acc rows rule: batch_loop.induct) simp_all

lemma batch_loop_nonempty: "b \<in> set (batch_loop max_bytes items acc rows) \<Longrightarrow> b \<noteq> []"
  by (induction max_bytes items acc rows rule: batch_loop.induct) (auto split: if_splits)

lemma batch_loop_bound:
  assumes "0 < max_bytes" "acc = sum_list (map row_bytes items)" "length items \<le> 1 \<or> acc \<le> max_bytes"
    and "b \<in> set (batch_loop max_bytes items acc rows)"
  shows "length b = 1 \<or> sum_list (map row_bytes b) \<le> max_bytes"
  using assms
proof (induction max_bytes items acc rows rule: batch_loop.induct)
  case (1 max_bytes items acc)
  then show ?case by (cases items) (auto split: if_splits)
next
  case (2 max_bytes items acc r rs)
  show ?case
  proof (cases "items \<noteq> [] \<and> max_bytes < acc + row_bytes r")
    case True
    then have "b = items \<or> b \<in> set (batch_loop max_bytes [r] (row_bytes r) rs)"
      using "2.prems"(1,4) by simp
    then show ?thesis
    proof
      assume "b = items"
      moreover have "length items = 1 \<or> acc \<le> max_bytes" using "2.prems"(3) True by (cases items) auto
      ultimately show ?thesis using "2.prems"(2) by simp
    next
      assume "b \<in> set (batch_loop max_bytes [r] (row_bytes r) rs)"
      then show ?thesis using "2.IH"(1) [OF "2.prems"(1) True "2.prems"(1)] by simp
    qed
  next
    case False
    then have b: "b \<in> set (batch_loop max_bytes (items @ [r]) (acc + row_bytes r) rs)"
      using "2.prems"(1,4) by (simp split: if_splits)
    have "length (items @ [r]) \<le> 1 \<or> acc + row_bytes r \<le> max_bytes" using False by auto
    then show ?thesis using "2.IH"(2) [OF "2.prems"(1) False "2.prems"(1) _ _ b] "2.prems"(2) by simp
  qed
qed

lemma send_batches_all:
  assumes "\<And>b. rt_build rt b = Some (g b)" "\<And>n. \<not> rt_blocked rt n"
  shows "send_batches rt bs sent = (sent @ map g bs, None)"
  using assms by (induction bs arbitrary: sent) simp_all

text \<open>A server that holds the rows fixed is read completely, in order, each row once.\<close>

lemma paginate_complete:
  assumes build: "\<And>b. rt_build rt b = Some (g b)" and free: "\<And>n. \<not> rt_blocked rt n" "\<And>s. \<not> rt_cancelled rt s"
    and fetch: "\<And>start s. \<exists>s'. fetch start s = Some (Inr (take page_size (drop start rows)), s')"
    and "0 < page_size" "start \<le> length rows" "(length rows - start) div page_size < fuel"
  shows "\<exists>bs s'. paginate_and_send fuel rt flds ts max_bytes page_size fetch start sent s = Some (sent @ map g bs, None, s') \<and>
    concat bs = map (shape_row flds ts) (drop start rows) \<and>
    (0 < max_bytes \<longrightarrow> (\<forall>b \<in> set bs. length b = 1 \<or> sum_list (map row_bytes b) \<le> max_bytes))"
  using assms(6,7)
proof (induction fuel arbitrary: start sent s)
  case (Suc fuel)
  obtain s1 where f: "fetch start s = Some (Inr (take page_size (drop start rows)), s1)" using fetch by blast
  let ?page = "take page_size (drop start rows)"
  let ?bs = "batch_loop max_bytes [] 0 (map (shape_row flds ts) ?page)"
  have bound: "0 < max_bytes \<longrightarrow> (\<forall>b \<in> set ?bs. length b = 1 \<or> sum_list (map row_bytes b) \<le> max_bytes)"
    using batch_loop_bound [of max_bytes 0 "[]"] by auto
  consider (empty) "?page = []" | (short) "?page \<noteq> []" "length ?page < page_size" | (full) "length ?page = page_size"
    by (metis length_take min.cobounded2 linorder_not_less order_le_less)
  then show ?case
  proof cases
    case empty
    then have "drop start rows = []" using \<open>0 < page_size\<close> by auto
    then show ?thesis using f empty free(2) by (intro exI [of _ "[]"]) auto
  next
    case short
    then have "?page = drop start rows" by simp
    then show ?thesis
      using f short free(2) bound
      by (intro exI [of _ ?bs]) (auto simp: send_batches_all [of rt g, OF build free(1)] batch_loop_concat)
  next
    case full
    then have le: "start + page_size \<le> length rows" using Suc.prems(1) by (simp add: min_def split: if_splits)
    then have "(length rows - start) div page_size = Suc ((length rows - (start + page_size)) div page_size)"
      using \<open>0 < page_size\<close> le_div_geq [of page_size "length rows - start"] by simp
    then have fl: "(length rows - (start + page_size)) div page_size < fuel" using Suc.prems(2) by linarith
    obtain bs s' where IH: "paginate_and_send fuel rt flds ts max_bytes page_size fetch (start + page_size)
          (sent @ map g ?bs) s1 = Some ((sent @ map g ?bs) @ map g bs, None, s')"
      "concat bs = map (shape_row flds ts) (drop (start + page_size) rows)"
      "0 < max_bytes \<longrightarrow> (\<forall>b \<in> set bs. length b = 1 \<or> sum_list (map row_bytes b) \<le> max_bytes)"
      using Suc.IH [OF le fl] by blast
    have "?page \<noteq> []" using full \<open>0 < page_size\<close> by auto
    then have "paginate_and_send (Suc fuel) rt flds ts max_bytes page_size fetch start sent s =
        Some (sent @ map g (?bs @ bs), None, s')"
      using f full free(2) IH(1) by (simp add: send_batches_all [of rt g, OF build free(1)] del: length_take)
    moreover have "concat (?bs @ bs) = map (shape_row flds ts) (drop start rows)"
    proof -
      have "?page @ drop (start + page_size) rows = drop start rows"
        using append_take_drop_id [of page_size "drop start rows"] by (simp add: add.commute)
      then show ?thesis using IH(2) by (metis append_Nil batch_loop_concat concat_append map_append)
    qed
    ultimately show ?thesis using IH(3) bound by (intro exI [of _ "?bs @ bs"] exI [of _ s']) auto
  qed
qed simp

subsection \<open>Tables and requests\<close>

lemma get_table_allowlist:
  assumes "get_table match name = Inr t" "et_style (sb_entity t) = StyleSearch \<or> et_style (sb_entity t) = StyleQuery"
  shows "tp_fields (sb_params t) \<noteq> [] \<and> ''*'' \<notin> set (tp_fields (sb_params t))"
  using assms
  by (auto simp: get_table_def validate_allowlist_def split: prod.splits sum.splits option.splits if_splits)

lemma page_request_length:
  "hq_method (page_request endpoint name query flds count start) = GET \<longleftrightarrow> length query \<le> 7500"
  by (auto simp: page_request_def search_query_length_limit_def)

subsection \<open>The subscription cursor\<close>

lemma do_request_frame:
  assumes "\<And>s. f (snd (send s)) = f s" "\<And>s. f (snd (reauth s)) = f s" "\<And>s. f (snd (wait s)) = f s"
    and "\<And>s v. f (s\<lparr>bh_call_count := v\<rparr>) = f s"
    and "do_request fuel send reauth wait retried s = Some (r, s')"
  shows "f s' = f s"
  using assms(5)
proof (induction fuel arbitrary: retried s)
  case (Suc fuel)
  obtain a s1 where 1: "send s = (a, s1)" by (cases "send s")
  obtain c s2 where 2: "wait s1 = (c, s2)" by (cases "wait s1")
  obtain e s3 where 3: "reauth s1 = (e, s3)" by (cases "reauth s1")
  have "f s1 = f s" "f s2 = f s" "f s3 = f s"
    using assms(1) [of s] assms(2) [of s1] assms(3) [of s1] 1 2 3 by simp_all
  then show ?case
    using Suc.IH [of retried s2] Suc.IH [of True s3] Suc.prems 1 2 3
    by (auto simp: assms(4) split: http.splits if_splits option.splits bool.splits)
qed simp

definition keeps_world :: "'b runtime \<Rightarrow> bool" where
  "keeps_world rt \<longleftrightarrow> (\<forall>q s. bh_world (snd (rt_put rt q s)) = bh_world s) \<and>
     (\<forall>q s. bh_world (snd (rt_events rt q s)) = bh_world s) \<and>
     (\<forall>s. bh_world (snd (rt_reauth rt s)) = bh_world s) \<and> (\<forall>s. bh_world (snd (rt_wait rt s)) = bh_world s)"

lemma ensure_subscription_world:
  "keeps_world rt \<Longrightarrow> ensure_subscription rt sid es s = Some (e, s') \<Longrightarrow> bh_world s' = bh_world s"
proof -
  assume k: "keeps_world rt" and e: "ensure_subscription rt sid es s = Some (e, s')"
  define send where "send = rt_put rt \<lparr>hq_method = PUT, hq_endpoint = ''/event/subscription/'' @ sid,
                hq_params = [(''type'', ''entity''), (''names'', join '','' es),
                             (''eventTypes'', ''INSERTED,UPDATED,DELETED'')], hq_body = None\<rparr>"
  obtain r where d: "do_request (rt_fuel rt) send (rt_reauth rt) (rt_wait rt) False s = Some (r, s')"
    using e unfolding ensure_subscription_def send_def [symmetric] by (auto split: option.splits sum.splits)
  show "bh_world s' = bh_world s"
    by (rule do_request_frame [of bh_world, OF _ _ _ _ d]) (use k in \<open>simp_all add: keeps_world_def send_def\<close>)
qed

lemma save_subscription_error:
  "tmp_fresh w \<Longrightarrow> \<not> w_fault w IoRemove \<Longrightarrow> save_subscription_state path n w = (Some e, w') \<Longrightarrow> w' = w"
  by (auto simp: save_subscription_state_def tmp_fresh_def put_remove Let_def split: if_splits)

lemma read_subscription_error_keeps:
  assumes "read_subscription rt params s = Some (sent, Some e, s')" "keeps_world rt" "tmp_fresh (bh_world s)"
    "\<not> w_fault (bh_world s) IoRemove"
  shows "bh_world s' = bh_world s"
proof -
  have ev: "do_request (rt_fuel rt) (rt_events rt q) (rt_reauth rt) (rt_wait rt) False s1 = Some (r, s2) \<Longrightarrow>
      bh_world s2 = bh_world s1" for q s1 r s2
    using assms(2) do_request_frame [of bh_world "rt_events rt q" "rt_reauth rt" "rt_wait rt" "rt_fuel rt" False s1 r s2]
    by (simp add: keeps_world_def)
  show ?thesis
  proof (cases "tp_entities params = []")
    case True
    then show ?thesis using assms(1) by (simp add: read_subscription_def)
  next
    case False
    define sid where "sid = (if tp_subscription_id params = [] then ''ingestr'' else tp_subscription_id params)"
    define path where "path = (if tp_state_path params = [] then cr_token_output (bh_creds s) @ ''.subscription_state.json''
      else tp_state_path params)"
    note rs = assms(1) [unfolded read_subscription_def Let_def, folded sid_def path_def]
    obtain oe s1 where 1: "ensure_subscription rt sid (tp_entities params) s = Some (oe, s1)"
      using rs False by (cases "ensure_subscription rt sid (tp_entities params) s") auto
    have w1: "bh_world s1 = bh_world s" using ensure_subscription_world [OF assms(2) 1] .
    show ?thesis
    proof (cases "oe = None \<and> is_ok (load_subscription_state path (bh_world s1))")
      case False
      then show ?thesis
        using rs \<open>tp_entities params \<noteq> []\<close> 1 w1 by (cases oe; cases "load_subscription_state path (bh_world s1)") auto
    next
      case True
      then obtain last_id where l: "oe = None" "load_subscription_state path (bh_world s1) = Inr last_id"
        by (cases "load_subscription_state path (bh_world s1)") auto
      obtain r s2 where 2: "do_request (rt_fuel rt) (rt_events rt (events_request sid last_id)) (rt_reauth rt) (rt_wait rt)
          False s1 = Some (r, s2)"
        using rs \<open>tp_entities params \<noteq> []\<close> 1 l
        by (cases "do_request (rt_fuel rt) (rt_events rt (events_request sid last_id)) (rt_reauth rt) (rt_wait rt) False s1") auto
      have w2: "bh_world s2 = bh_world s" using ev [OF 2] w1 by simp
      show ?thesis
      proof (cases "\<exists>rid evs. r = Inr (Some (rid, evs))")
        case False
        then show ?thesis using rs \<open>tp_entities params \<noteq> []\<close> 1 l 2 w2
          by (cases r) (auto split: option.splits)
      next
        case True
        then obtain rid evs where r: "r = Inr (Some (rid, evs))" by blast
        obtain out oe2 where o: "(if map event_row (filter (\<lambda>ev. ev_entity_event_type ev = ''DELETED'') evs) = [] then ([], None)
            else send_batches rt [map event_row (filter (\<lambda>ev. ev_entity_event_type ev = ''DELETED'') evs)] []) = (out, oe2)"
          by fastforce
        obtain se w where sv: "save_subscription_state path rid (bh_world s2) = (se, w)" by fastforce
        show ?thesis
        proof (cases oe2)
          case (Some a)
          then show ?thesis using rs \<open>tp_entities params \<noteq> []\<close> 1 l 2 w2 r o by (simp split: if_splits)
        next
          case None
          then have "(if 0 < rid then Some (out, se, s2\<lparr>bh_world := w\<rparr>) else Some (out, None, s2)) = Some (sent, Some e, s')"
            using rs \<open>tp_entities params \<noteq> []\<close> 1 l 2 r o sv by (simp split: if_splits)
          then show ?thesis
            using save_subscription_error [of "bh_world s2" path rid e w] sv w2 assms(3,4) by (auto split: if_splits)
        qed
      qed
    qed
  qed
qed

subsection \<open>Properties\<close>

text \<open>C3: A paginated read is complete: from a server that answers each offset with its page of a fixed
  list of rows, the source sends every row exactly once and in order, restricted to the allowlist and
  with its timestamps converted, whatever the page size and the byte limit; and with a limit, no batch
  of more than one row exceeds it. The fuel is one more than the number of full pages.\<close>

theorem paginated_read_complete:
  assumes "\<And>b. rt_build rt b = Some (g b)" "\<And>n. \<not> rt_blocked rt n" "\<And>s. \<not> rt_cancelled rt s"
    and "\<And>start s. \<exists>s'. fetch start s = Some (Inr (take page_size (drop start rows)), s')"
    and "0 < page_size" "length rows div page_size < fuel"
  shows "\<exists>bs s'. paginate_and_send fuel rt flds ts max_bytes page_size fetch 0 [] s = Some (map g bs, None, s') \<and>
    concat bs = map (shape_row flds ts) rows \<and>
    (0 < max_bytes \<longrightarrow> (\<forall>b \<in> set bs. length b = 1 \<or> sum_list (map row_bytes b) \<le> max_bytes))"
  using paginate_complete [of rt g fetch page_size rows 0 fuel flds ts max_bytes "[]" s] assms by simp

definition sample_runtime :: "row list runtime" where
  "sample_runtime = \<lparr>rt_page = (\<lambda>q s. (NoAnswer, s)), rt_meta = (\<lambda>q s. (NoAnswer, s)),
     rt_events = (\<lambda>q s. (Answer 200 (Some (9, [])), s)), rt_put = (\<lambda>q s. (Answer 200 (Some ()), s)),
     rt_reauth = (\<lambda>s. (None, s)), rt_wait = (\<lambda>s. (True, s)), rt_cancelled = (\<lambda>s. False),
     rt_blocked = (\<lambda>n. False), rt_build = Some, rt_fuel = 5\<rparr>"

definition sample_rows :: "row list" where
  "sample_rows = [[(''id'', VNumber ''1''), (''ssn'', VString ''x'')], [(''id'', VNumber ''2'')], [(''id'', VNumber ''3'')]]"

theorem paginated_read_complete_witness:
  "\<exists>bs s'. paginate_and_send 2 sample_runtime [''id''] [] 12 2
      (\<lambda>start s. Some (Inr (take 2 (drop start sample_rows)), s)) 0 [] sample_session = Some (bs, None, s') \<and>
    concat bs = [[(''id'', VNumber ''1'')], [(''id'', VNumber ''2'')], [(''id'', VNumber ''3'')]]"
proof -
  have l: "length sample_rows div 2 < 2" by (simp add: sample_rows_def)
  have c: "map (shape_row [''id''] []) sample_rows = [[(''id'', VNumber ''1'')], [(''id'', VNumber ''2'')], [(''id'', VNumber ''3'')]]"
    by code_simp
  have 1: "rt_build sample_runtime b = Some ((\<lambda>b. b) b)" "\<not> rt_blocked sample_runtime n"
    "\<not> rt_cancelled sample_runtime s" for b n s by (simp_all add: sample_runtime_def)
  have 2: "\<exists>s'. (\<lambda>start s. Some (Inr (take 2 (drop start sample_rows)), s)) start s =
      (Some (Inr (take 2 (drop start sample_rows)), s') :: ((bullhorn_error, row list) sum \<times> bullhorn) option)" for start s
    by simp
  obtain bs s' where "paginate_and_send 2 sample_runtime [''id''] [] 12 2
      (\<lambda>start s. Some (Inr (take 2 (drop start sample_rows)), s)) 0 [] sample_session = Some (map (\<lambda>b. b) bs, None, s')"
    "concat bs = map (shape_row [''id''] []) sample_rows"
    using paginated_read_complete [where rt = sample_runtime and g = "\<lambda>b. b" and page_size = 2 and rows = sample_rows
        and fuel = 2 and flds = "[''id'']" and ts = "[]" and max_bytes = 12 and s = sample_session
        and fetch = "\<lambda>start s. Some (Inr (take 2 (drop start sample_rows)), s)", OF 1 2 _ l] by auto
  then show ?thesis unfolding c map_ident by blast
qed

text \<open>A row that the source sends holds only allowlisted fields: each has the value Bullhorn sent, or
  for a timestamp field its conversion, and a field that is not in the list is dropped even when the
  server returns it. Converting twice is converting once.\<close>

theorem rows_keep_to_allowlist:
  "map_of (shape_row flds ts raw) k =
     (if k \<in> set flds then map_option (if k \<in> set ts then convert_value else id) (map_of raw k) else None) \<and>
   convert_value (convert_value v) = convert_value v"
  by (simp add: shape_row_lookup)

text \<open>No entity is read without an explicit list of fields: a table of the search or the query
  endpoint is refused unless its \<open>fields\<close> parameter names fields and none of them is the wildcard.\<close>

theorem explicit_fields_only:
  assumes "get_table match name = Inr t" "et_style (sb_entity t) \<in> {StyleSearch, StyleQuery}"
  shows "tp_fields (sb_params t) \<noteq> [] \<and> ''*'' \<notin> set (tp_fields (sb_params t))"
  using assms get_table_allowlist by auto

theorem explicit_fields_only_witness:
  "case get_table (\<lambda>k f. k = f) ''candidate?fields=id'' of Inl e \<Rightarrow> False | Inr t \<Rightarrow> ''*'' \<notin> set (tp_fields (sb_params t))"
proof -
  have ok: "case get_table (\<lambda>k f. k = f) ''candidate?fields=id'' of Inl e \<Rightarrow> False | Inr t \<Rightarrow> et_style (sb_entity t) = StyleSearch"
    by code_simp
  then obtain t where t: "get_table (\<lambda>k f. k = f) ''candidate?fields=id'' = Inr t" "et_style (sb_entity t) = StyleSearch"
    by (auto split: sum.splits)
  then show ?thesis using explicit_fields_only [OF t(1)] by simp
qed

text \<open>The subscription cursor follows the events: when a read of the deleted records fails, be it in
  the request, the conversion, the hand-over of the batch or the save, every file is as it was (the
  temporary file being removable), so the same events are read again.\<close>

theorem cursor_kept_on_error:
  assumes "read_subscription rt params s = Some (sent, Some e, s')" "keeps_world rt" "tmp_fresh (bh_world s)"
    "\<not> w_fault (bh_world s) IoRemove"
  shows "bh_world s' = bh_world s"
  by (rule read_subscription_error_keeps [OF assms])

theorem cursor_kept_on_error_witness:
  "bh_world (snd (snd (the (read_subscription (sample_runtime\<lparr>rt_events := (\<lambda>q s. (Answer 412 None, s))\<rparr>)
     (empty_params\<lparr>tp_entities := [''Candidate'']\<rparr>) sample_session)))) = bh_world sample_session"
proof -
  let ?rt = "sample_runtime\<lparr>rt_events := (\<lambda>q s. (Answer 412 None, s))\<rparr>"
  let ?r = "read_subscription ?rt (empty_params\<lparr>tp_entities := [''Candidate'']\<rparr>) sample_session"
  have "?r = Some ([], Some NoSessionToken, snd (snd (the ?r)))"
    by (simp add: read_subscription_def ensure_subscription_def sample_runtime_def sample_session_def empty_params_def
        load_subscription_state_def sample_world_def eval_nat_numeral is_success_def Let_def)
  moreover have "keeps_world ?rt" by (simp add: keeps_world_def sample_runtime_def)
  moreover have "tmp_fresh (bh_world sample_session)" "\<not> w_fault (bh_world sample_session) IoRemove"
    by (simp_all add: tmp_fresh_def sample_session_def sample_world_def)
  ultimately show ?thesis by (rule cursor_kept_on_error)
qed

end
