(* ===== verification/Schema.thy ===== *)
theory Schema
  imports Go_Strings
begin

text \<open>
  \<^verbatim>\<open>pkg/schema/schema.go\<close>: the logical column types, columns and table schemas that every
  source, destination and strategy exchanges. A pointer to a \<open>TableSchema\<close> that may be nil
  is a \<open>table_schema option\<close>.
\<close>

datatype data_type =
    TypeUnknown | TypeBoolean | TypeInt8 | TypeInt16 | TypeInt32 | TypeInt64
  | TypeFloat32 | TypeFloat64 | TypeDecimal | TypeString | TypeBinary | TypeDate | TypeTime
  | TypeTimestamp | TypeTimestampTZ | TypeInterval | TypeJSON | TypeUUID | TypeArray

text \<open>\<open>DataType\<close> is an \<open>int\<close> in the code; \<open>type_index\<close> is the value \<open>iota\<close> gives each
  constant, and its order is the order of the model's type.\<close>

fun type_index :: "data_type \<Rightarrow> nat" where
  "type_index TypeUnknown = 0"
| "type_index TypeBoolean = 1"
| "type_index TypeInt8 = 2"
| "type_index TypeInt16 = 3"
| "type_index TypeInt32 = 4"
| "type_index TypeInt64 = 5"
| "type_index TypeFloat32 = 6"
| "type_index TypeFloat64 = 7"
| "type_index TypeDecimal = 8"
| "type_index TypeString = 9"
| "type_index TypeBinary = 10"
| "type_index TypeDate = 11"
| "type_index TypeTime = 12"
| "type_index TypeTimestamp = 13"
| "type_index TypeTimestampTZ = 14"
| "type_index TypeInterval = 15"
| "type_index TypeJSON = 16"
| "type_index TypeUUID = 17"
| "type_index TypeArray = 18"

lemma type_index_inject: "type_index a = type_index b \<longleftrightarrow> a = b"
  by (cases a; cases b) simp_all

instantiation data_type :: linorder
begin

definition less_eq_data_type :: "data_type \<Rightarrow> data_type \<Rightarrow> bool" where
  "less_eq_data_type a b \<longleftrightarrow> type_index a \<le> type_index b"

definition less_data_type :: "data_type \<Rightarrow> data_type \<Rightarrow> bool" where
  "less_data_type a b \<longleftrightarrow> type_index a < type_index b"

instance
  by standard (auto simp: less_eq_data_type_def less_data_type_def type_index_inject)

end

text \<open>\<open>DataType.String\<close>.\<close>

fun type_string :: "data_type \<Rightarrow> string" where
  "type_string TypeBoolean = ''boolean''"
| "type_string TypeInt8 = ''int8''"
| "type_string TypeInt16 = ''int16''"
| "type_string TypeInt32 = ''int32''"
| "type_string TypeInt64 = ''int64''"
| "type_string TypeFloat32 = ''float32''"
| "type_string TypeFloat64 = ''float64''"
| "type_string TypeDecimal = ''decimal''"
| "type_string TypeString = ''string''"
| "type_string TypeBinary = ''binary''"
| "type_string TypeDate = ''date''"
| "type_string TypeTime = ''time''"
| "type_string TypeTimestamp = ''timestamp_ntz''"
| "type_string TypeTimestampTZ = ''timestamp''"
| "type_string TypeInterval = ''interval''"
| "type_string TypeJSON = ''json''"
| "type_string TypeUUID = ''uuid''"
| "type_string TypeArray = ''array''"
| "type_string TypeUnknown = ''unknown''"

lemma type_string_inject: "type_string a = type_string b \<longleftrightarrow> a = b"
  by (cases a; cases b) simp_all

record column =
  c_name :: string
  c_type :: data_type
  c_nullable :: bool
  c_precision :: int
  c_scale :: int
  c_max_length :: int
  c_primary_key :: bool
  c_array_type :: data_type
  c_unsigned :: bool

text \<open>The zero value \<open>schema.Column{}\<close>.\<close>

definition zero_column :: column where
  "zero_column = \<lparr>c_name = [], c_type = TypeUnknown, c_nullable = False, c_precision = 0,
     c_scale = 0, c_max_length = 0, c_primary_key = False, c_array_type = TypeUnknown,
     c_unsigned = False\<rparr>"

record table_schema =
  ts_name :: string
  ts_schema :: string
  ts_columns :: "column list"
  ts_primary_keys :: "string list"
  ts_incremental_key :: string
  ts_partition_by :: string

text \<open>\<open>ColumnNames\<close> and \<open>SameColumnShape\<close>.\<close>

definition column_names :: "table_schema \<Rightarrow> string list" where
  "column_names ts = map c_name (ts_columns ts)"

definition same_shape :: "column \<Rightarrow> column \<Rightarrow> bool" where
  "same_shape a b \<longleftrightarrow>
     equal_fold (c_name a) (c_name b) \<and> c_type a = c_type b \<and> c_array_type a = c_array_type b \<and>
     c_precision a = c_precision b \<and> c_scale a = c_scale b \<and> c_max_length a = c_max_length b"

definition same_column_shape :: "table_schema option \<Rightarrow> table_schema option \<Rightarrow> bool" where
  "same_column_shape ts other =
     (case (ts, other) of
        (Some s, Some t) \<Rightarrow>
          length (ts_columns s) = length (ts_columns t) \<and>
          list_all (\<lambda>(a, b). same_shape a b) (zip (ts_columns s) (ts_columns t))
      | (None, None) \<Rightarrow> True
      | _ \<Rightarrow> False)"

lemma same_shape_refl: "same_shape a a"
  by (simp add: same_shape_def)

lemma same_shape_sym: "same_shape a b \<Longrightarrow> same_shape b a"
  by (simp add: same_shape_def equal_fold_sym)

lemma same_shape_trans: "same_shape a b \<Longrightarrow> same_shape b c \<Longrightarrow> same_shape a c"
  by (auto simp: same_shape_def intro: equal_fold_trans)

lemma same_column_shape_iff:
  "same_column_shape (Some s) (Some t) \<longleftrightarrow> list_all2 same_shape (ts_columns s) (ts_columns t)"
  by (auto simp: same_column_shape_def list_all2_iff list_all_iff)

lemma same_column_shape_refl: "same_column_shape s s"
proof (cases s)
  case (Some a)
  have "list_all2 same_shape (ts_columns a) (ts_columns a)"
    by (simp add: list_all2_conv_all_nth same_shape_refl)
  then show ?thesis using Some same_column_shape_iff by simp
qed (simp add: same_column_shape_def)

lemma same_column_shape_sym: "same_column_shape s t \<Longrightarrow> same_column_shape t s"
proof (cases s; cases t)
  fix a b
  assume h: "same_column_shape s t" and s: "s = Some a" and t: "t = Some b"
  have "list_all2 same_shape (ts_columns a) (ts_columns b)"
    using h s t same_column_shape_iff by simp
  then have "list_all2 same_shape (ts_columns b) (ts_columns a)"
    by (simp add: list_all2_conv_all_nth same_shape_sym)
  then show ?thesis using s t same_column_shape_iff by simp
qed (auto simp: same_column_shape_def)

lemma same_column_shape_trans:
  assumes "same_column_shape s t" "same_column_shape t u"
  shows "same_column_shape s u"
proof (cases "s = None \<or> t = None \<or> u = None")
  case True
  then show ?thesis using assms
    by (cases s; cases t; cases u) (auto simp: same_column_shape_def)
next
  case False
  then obtain a b c where abc: "s = Some a" "t = Some b" "u = Some c" by auto
  have "list_all2 same_shape (ts_columns a) (ts_columns c)"
    using assms abc same_shape_trans
    by (simp only: same_column_shape_iff) (rule list_all2_trans)
  then show ?thesis using abc same_column_shape_iff by simp
qed

end
