(* ===== verification/Cdc_Lsn.thy ===== *)
theory Cdc_Lsn
  imports Go_Strings "HOL-Library.Word" "HOL-Library.List_Lexorder" "HOL-Library.Char_ord"
begin

text \<open>
  PostgreSQL log sequence numbers and the text the change-data-capture source stores them as:
  \<open>FormatLSN\<close> and \<open>FormatChangeLSN\<close> of \<^verbatim>\<open>pkg/source/postgres_cdc/table.go\<close>, and
  \<open>parseStoredPostgresLSN\<close> of \<^verbatim>\<open>reader.go\<close>. A \<open>pglogrepl.LSN\<close> is a 64-bit unsigned
  integer. The stored text is compared as text, by the destinations' merges and by the scratch
  database of the TOAST state, so the lemmas relate its byte order to the order of the numbers.
\<close>

type_synonym lsn = "64 word"

subsection \<open>Fixed-width hexadecimal\<close>

definition hex_char :: "nat \<Rightarrow> char" where
  "hex_char d = (if d < 10 then char_of (48 + d) else char_of (55 + d))"

text \<open>\<open>%0nX\<close> of a value below \<open>16 ^ n\<close>: exactly \<open>n\<close> upper-case digits.\<close>

fun hex_fixed :: "nat \<Rightarrow> nat \<Rightarrow> string" where
  "hex_fixed 0 v = []"
| "hex_fixed (Suc n) v = hex_fixed n (v div 16) @ [hex_char (v mod 16)]"

lemma length_hex_fixed [simp]: "length (hex_fixed n v) = n"
  by (induction n arbitrary: v) simp_all

lemma of_hex_char: "d < 16 \<Longrightarrow> (of_char (hex_char d) :: nat) = (if d < 10 then 48 + d else 55 + d)"
  by (simp add: hex_char_def)

lemma hex_char_less: "a < 16 \<Longrightarrow> b < 16 \<Longrightarrow> hex_char a < hex_char b \<longleftrightarrow> a < b"
  by (auto simp: less_char_def of_hex_char)

lemma hex_char_inject: "a < 16 \<Longrightarrow> b < 16 \<Longrightarrow> hex_char a = hex_char b \<longleftrightarrow> a = b"
  by (metis hex_char_less less_irrefl linorder_neqE_nat)

text \<open>Texts of one length are compared at their first difference.\<close>

lemma less_append_same_length:
  fixes xs :: "'a::order list"
  assumes "length xs = length ys"
  shows "xs @ us < ys @ vs \<longleftrightarrow> xs < ys \<or> xs = ys \<and> us < vs"
  using assms by (induction xs ys rule: list_induct2) auto

lemma div_mod_order:
  fixes a b m :: nat
  assumes "0 < m"
  shows "a div m < b div m \<or> a div m = b div m \<and> a mod m < b mod m \<longleftrightarrow> a < b"
proof -
  have ab: "a = a div m * m + a mod m" "b = b div m * m + b mod m" by simp_all
  have step: "x * m + r < y * m + r'" if "x < y" "r < m" for x y r r'
  proof -
    have "x * m + r < Suc x * m" using that by simp
    also have "\<dots> \<le> y * m" using that by (simp only: mult_le_mono1 Suc_le_eq)
    finally show ?thesis by simp
  qed
  show ?thesis
    using step [of "a div m" "b div m" "a mod m" "b mod m"]
      step [of "b div m" "a div m" "b mod m" "a mod m"] ab assms
    by (metis add_less_cancel_left less_asym linorder_neqE_nat mod_less_divisor)
qed

lemma hex_fixed_less:
  "a < 16 ^ n \<Longrightarrow> b < 16 ^ n \<Longrightarrow> hex_fixed n a < hex_fixed n b \<longleftrightarrow> a < b"
proof (induction n arbitrary: a b)
  case (Suc n)
  have d: "a div 16 < 16 ^ n" "b div 16 < 16 ^ n"
    using Suc.prems by (simp_all add: less_mult_imp_div_less mult.commute)
  have lt: "hex_fixed n (a div 16) < hex_fixed n (b div 16) \<longleftrightarrow> a div 16 < b div 16"
    by (rule Suc.IH [OF d])
  have gt: "hex_fixed n (b div 16) < hex_fixed n (a div 16) \<longleftrightarrow> b div 16 < a div 16"
    by (rule Suc.IH [OF d(2) d(1)])
  have eq: "hex_fixed n (a div 16) = hex_fixed n (b div 16) \<longleftrightarrow> a div 16 = b div 16"
    using lt gt by (metis less_irrefl linorder_neqE_nat)
  have "hex_fixed (Suc n) a < hex_fixed (Suc n) b \<longleftrightarrow>
      a div 16 < b div 16 \<or> a div 16 = b div 16 \<and> a mod 16 < b mod 16"
    by (simp add: less_append_same_length lt eq hex_char_less)
  also have "\<dots> \<longleftrightarrow> a < b"
    by (rule div_mod_order) simp
  finally show ?case .
qed simp

lemma hex_fixed_inject:
  "a < 16 ^ n \<Longrightarrow> b < 16 ^ n \<Longrightarrow> hex_fixed n a = hex_fixed n b \<longleftrightarrow> a = b"
  by (metis hex_fixed_less less_irrefl linorder_neqE_nat)

subsection \<open>\<open>FormatLSN\<close> and \<open>FormatChangeLSN\<close>\<close>

text \<open>\<open>uint32(lsn>>32)\<close> and \<open>uint32(lsn)\<close>.\<close>

definition lsn_high :: "lsn \<Rightarrow> nat" where
  "lsn_high l = unat (drop_bit 32 l) mod 2 ^ 32"

definition lsn_low :: "lsn \<Rightarrow> nat" where
  "lsn_low l = unat l mod 2 ^ 32"

definition format_lsn :: "lsn \<Rightarrow> string" where
  "format_lsn l = hex_fixed 8 (lsn_high l) @ ''/'' @ hex_fixed 8 (lsn_low l)"

definition format_change_lsn :: "lsn \<Rightarrow> 64 word \<Rightarrow> string" where
  "format_change_lsn l sequence =
     (if sequence = 0 then format_lsn l
      else format_lsn l @ ''/'' @ hex_fixed 16 (unat sequence))"

lemma unat_lt_2_64: "unat (l :: 64 word) < 2 ^ 64"
  using unsigned_less [of l] by simp

lemma lsn_high_div: "lsn_high l = unat l div 2 ^ 32"
proof -
  have "unat l div 2 ^ 32 < 2 ^ 32"
    using unat_lt_2_64 [of l] by (simp add: less_mult_imp_div_less)
  moreover have "unat (drop_bit 32 l) = unat l div 2 ^ 32"
    by (simp only: unat_drop_bit_eq) (simp only: drop_bit_eq_div)
  ultimately show ?thesis by (simp only: lsn_high_def mod_less)
qed

lemma lsn_parts_bound: "lsn_high l < 16 ^ 8" "lsn_low l < 16 ^ 8"
  by (simp_all add: lsn_high_def lsn_low_def)

lemmas lsn_part_less =
  hex_fixed_less [OF lsn_parts_bound(1) lsn_parts_bound(1)]
  hex_fixed_less [OF lsn_parts_bound(2) lsn_parts_bound(2)]
  hex_fixed_inject [OF lsn_parts_bound(1) lsn_parts_bound(1)]

lemma length_format_lsn [simp]: "length (format_lsn l) = 17"
  by (simp add: format_lsn_def)

lemma format_lsn_less: "format_lsn a < format_lsn b \<longleftrightarrow> a < b"
proof -
  have "format_lsn a < format_lsn b \<longleftrightarrow>
      lsn_high a < lsn_high b \<or> lsn_high a = lsn_high b \<and> lsn_low a < lsn_low b"
    by (simp add: format_lsn_def less_append_same_length lsn_part_less)
  also have "\<dots> \<longleftrightarrow> unat a < unat b"
    unfolding lsn_high_div lsn_low_def by (rule div_mod_order) simp
  finally show ?thesis by (simp add: word_less_nat_alt)
qed

lemma format_lsn_inject: "format_lsn a = format_lsn b \<longleftrightarrow> a = b"
  by (metis format_lsn_less less_irrefl linorder_neqE)

lemma format_lsn_le: "format_lsn a \<le> format_lsn b \<longleftrightarrow> a \<le> b"
  by (metis format_lsn_less linorder_not_less)

text \<open>The position a change is ordered by: its transaction, then its place in it.\<close>

definition change_position_less :: "lsn \<Rightarrow> 64 word \<Rightarrow> lsn \<Rightarrow> 64 word \<Rightarrow> bool" where
  "change_position_less l s l' s' \<longleftrightarrow> l < l' \<or> l = l' \<and> s < s'"

lemma change_lsn_order_text:
  "format_change_lsn l s < format_change_lsn l' s' \<longleftrightarrow> change_position_less l s l' s'"
proof -
  have bound: "unat x < 16 ^ 16" for x :: "64 word"
    using unat_lt_2_64 [of x] by simp
  have seq: "hex_fixed 16 (unat x) < hex_fixed 16 (unat y) \<longleftrightarrow> unat x < unat y" for x y :: "64 word"
    by (rule hex_fixed_less [OF bound bound])
  define suffix where
    "suffix x = (if x = 0 then [] else ''/'' @ hex_fixed 16 (unat x))" for x :: "64 word"
  have form: "format_change_lsn k x = format_lsn k @ suffix x" for k x
    by (simp add: format_change_lsn_def suffix_def)
  have "suffix s < suffix s' \<longleftrightarrow> s < s'"
    by (auto simp: suffix_def seq word_less_nat_alt unat_gt_0)
  then show ?thesis
    by (simp add: form less_append_same_length format_lsn_less format_lsn_inject
        change_position_less_def)
qed

subsection \<open>Reading a stored position back\<close>

definition is_hex_digit :: "char \<Rightarrow> bool" where
  "is_hex_digit c \<longleftrightarrow> is_digit c \<or>
     (let n = (of_char c :: nat) in 97 \<le> n \<and> n \<le> 102 \<or> 65 \<le> n \<and> n \<le> 70)"

definition is_hex_lsn :: "string \<Rightarrow> bool" where
  "is_hex_lsn v \<longleftrightarrow> list_all is_hex_digit v"

text \<open>The cutset \<open>" \t\r\n\x00'\""\<close> of \<open>strings.Trim\<close>.\<close>

definition stored_cutset :: "char \<Rightarrow> bool" where
  "stored_cutset c \<longleftrightarrow> (of_char c :: nat) \<in> {32, 9, 13, 10, 0, 39, 34}"

text \<open>\<open>parseStoredPostgresLSN\<close>, over \<open>pglogrepl.ParseLSN\<close> (a library): the sequence part of a
  change position is cut off, and 16 bare digits get their slash back.\<close>

definition parse_stored_postgres_lsn ::
  "(string \<Rightarrow> ('e, lsn) result) \<Rightarrow> string \<Rightarrow> ('e, lsn) result" where
  "parse_stored_postgres_lsn parse_lsn raw =
     (let t = trim_right_by stored_cutset (trim_left_by stored_cutset raw);
          parts = split_on (CHR ''/'') t;
          t1 = (if length parts = 3 \<and> length (parts ! 2) = 16 \<and> is_hex_lsn (parts ! 2)
                then join ''/'' (take 2 parts) else t);
          t2 = (if length t1 = 16 \<and> CHR ''/'' \<notin> set t1 \<and> is_hex_lsn t1
                then take 8 t1 @ ''/'' @ drop 8 t1 else t1)
      in parse_lsn t2)"

lemma is_hex_digit_hex_char: "d < 16 \<Longrightarrow> is_hex_digit (hex_char d)"
  by (auto simp: is_hex_digit_def is_digit_def of_hex_char Let_def)

lemma is_hex_fixed: "is_hex_lsn (hex_fixed n v)"
  by (induction n arbitrary: v) (simp_all add: is_hex_lsn_def is_hex_digit_hex_char)

lemma hex_digit_plain:
  assumes "is_hex_digit c"
  shows "c \<noteq> CHR ''/''" "\<not> stored_cutset c"
proof -
  have "(of_char (CHR ''/'') :: nat) = 47" by simp
  then show "c \<noteq> CHR ''/''" using assms by (auto simp: is_hex_digit_def is_digit_def Let_def)
  show "\<not> stored_cutset c"
    using assms by (auto simp: is_hex_digit_def is_digit_def stored_cutset_def Let_def)
qed

lemma slash_not_in_hex: "CHR ''/'' \<notin> set (hex_fixed n v)"
  using is_hex_fixed [of n v] hex_digit_plain(1) by (force simp: is_hex_lsn_def list_all_iff)

lemma stored_text_plain: "c \<in> set (format_change_lsn l s) \<Longrightarrow> \<not> stored_cutset c"
proof -
  have slash: "\<not> stored_cutset (CHR ''/'')" by (simp add: stored_cutset_def)
  have hex: "c \<in> set (hex_fixed n v) \<Longrightarrow> \<not> stored_cutset c" for n v
    using is_hex_fixed [of n v] hex_digit_plain(2) by (auto simp: is_hex_lsn_def list_all_iff)
  show "c \<in> set (format_change_lsn l s) \<Longrightarrow> \<not> stored_cutset c"
    using slash hex by (auto simp: format_change_lsn_def format_lsn_def split: if_splits)
qed

lemma trim_id: "\<forall>c\<in>set t. \<not> stored_cutset c \<Longrightarrow>
  trim_right_by stored_cutset (trim_left_by stored_cutset t) = t"
proof -
  assume plain: "\<forall>c\<in>set t. \<not> stored_cutset c"
  have "trim_left_by stored_cutset t = t"
    using plain by (cases t) (simp_all add: trim_left_by_def)
  moreover have "trim_right_by stored_cutset t = t"
    using plain by (intro trim_right_by_id) auto
  ultimately show ?thesis by simp
qed

text \<open>A stored position reads back as the commit position it was written from, with or
  without the sequence part, whenever the library's parser reads what \<open>FormatLSN\<close> prints: the
  resume position recovered from a destination is the one the merge recorded.\<close>

theorem stored_lsn_round_trip:
  assumes parse: "\<forall>x. parse_lsn (format_lsn x) = Inr x"
  shows "parse_stored_postgres_lsn parse_lsn (format_change_lsn l s) = Inr l"
proof -
  have split: "split_on (CHR ''/'') (format_lsn l) =
      [hex_fixed 8 (lsn_high l), hex_fixed 8 (lsn_low l)]"
    by (simp add: format_lsn_def split_on_append split_on_no_sep slash_not_in_hex)
  have split3: "split_on (CHR ''/'') (format_lsn l @ ''/'' @ h) =
      [hex_fixed 8 (lsn_high l), hex_fixed 8 (lsn_low l)] @ split_on (CHR ''/'') h" for h
    by (simp add: format_lsn_def split_on_append slash_not_in_hex)
  have keep: "(if length (format_lsn l) = 16 \<and> P then u else format_lsn l) = format_lsn l" for P u
    by simp
  have rejoin: "join ''/'' [hex_fixed 8 (lsn_high l), hex_fixed 8 (lsn_low l)] = format_lsn l"
    by (simp add: format_lsn_def)
  have trim: "trim_right_by stored_cutset (trim_left_by stored_cutset (format_change_lsn l s)) =
      format_change_lsn l s"
    using stored_text_plain by (intro trim_id) blast
  show ?thesis
  proof (cases "s = 0")
    case True
    then have "format_change_lsn l s = format_lsn l" by (simp add: format_change_lsn_def)
    then show ?thesis using trim split parse
      by (simp add: parse_stored_postgres_lsn_def Let_def)
  next
    case False
    then have f: "format_change_lsn l s = format_lsn l @ ''/'' @ hex_fixed 16 (unat s)"
      by (simp add: format_change_lsn_def)
    have "split_on (CHR ''/'') (format_change_lsn l s) =
        [hex_fixed 8 (lsn_high l), hex_fixed 8 (lsn_low l), hex_fixed 16 (unat s)]"
      by (simp add: f split3 [simplified] split_on_no_sep slash_not_in_hex)
    then show ?thesis using trim rejoin parse
      by (simp add: parse_stored_postgres_lsn_def Let_def is_hex_fixed numeral_2_eq_2)
  qed
qed

text \<open>A reader of fixed-width positions, to evaluate the round trip on.\<close>

definition lsn_hex_value :: "char \<Rightarrow> nat" where
  "lsn_hex_value c = (let n = of_char c in if n < 58 then n - 48 else n - 55)"

definition read_hex :: "string \<Rightarrow> nat" where
  "read_hex t = foldl (\<lambda>v c. v * 16 + lsn_hex_value c) 0 t"

definition read_lsn :: "string \<Rightarrow> (unit, lsn) result" where
  "read_lsn t = (case split_on (CHR ''/'') t of
       [h, l] \<Rightarrow> Inr (word_of_nat (read_hex h * 2 ^ 32 + read_hex l))
     | _ \<Rightarrow> Inl ())"

lemma read_hex_fixed: "v < 16 ^ n \<Longrightarrow> read_hex (hex_fixed n v) = v"
proof (induction n arbitrary: v)
  case (Suc n)
  have "lsn_hex_value (hex_char (v mod 16)) = v mod 16"
    by (auto simp: lsn_hex_value_def of_hex_char Let_def)
  moreover have "read_hex (hex_fixed n (v div 16)) = v div 16"
    using Suc by (simp add: less_mult_imp_div_less mult.commute)
  ultimately show ?case by (simp add: read_hex_def)
qed (simp add: read_hex_def)

lemma read_format_lsn: "read_lsn (format_lsn x) = Inr x"
proof -
  have "lsn_high x * 2 ^ 32 + lsn_low x = unat x"
    unfolding lsn_high_div lsn_low_def by simp
  then have "word_of_nat (lsn_high x * 2 ^ 32 + lsn_low x) = x" by simp
  then show ?thesis
    unfolding read_lsn_def
    by (simp add: format_lsn_def split_on_append split_on_no_sep slash_not_in_hex
        read_hex_fixed [OF lsn_parts_bound(1)] read_hex_fixed [OF lsn_parts_bound(2)])
qed

theorem stored_lsn_round_trip_witness:
  "parse_stored_postgres_lsn read_lsn (format_change_lsn 0x1FA40 4) = Inr 0x1FA40"
  by (rule stored_lsn_round_trip) (simp add: read_format_lsn)

end
