(* ===== verification/Cdc_Toast.thy ===== *)
theory Cdc_Toast
  imports Cdc_Lsn "HOL-Library.AList"
begin

text \<open>
  The cells of decoded rows and the TOAST state of \<^verbatim>\<open>pkg/source/postgres_cdc/toast_state.go\<close>: the
  last known values of every row that went by, kept in memory up to a byte limit and then moved
  to a scratch SQLite database.

  A cell is what the change stream carries for a column: a NULL, the marker of a value
  PostgreSQL left out of an UPDATE (\<open>tupleUnchanged\<close>, whose flag says that the column is missing
  from the relation), or a Go value. The code looks at a value only through \<open>%T\<close> and \<open>%v\<close> of
  \<^verbatim>\<open>fmt\<close> and otherwise passes it on, so a value is given by these two texts.

  The scratch database is a map under its primary key. Every call on it can fail; the parameter
  \<open>fails\<close> says whether the n-th one does, the state counts them. The byte estimate of a row
  (\<open>estimateChangeBytes\<close>, which reads slice capacities by reflection) is the parameter \<open>est\<close>.
\<close>

subsection \<open>Cells and composite keys\<close>

datatype cell = CNull | CMarker (relation_missing: bool) | CVal (cell_type: string) (cell_text: string)

definition is_tuple_unchanged :: "cell \<Rightarrow> bool" where
  "is_tuple_unchanged v = (case v of CMarker _ \<Rightarrow> True | _ \<Rightarrow> False)"

definition is_relation_missing_marker :: "cell \<Rightarrow> bool" where
  "is_relation_missing_marker v = (case v of CMarker m \<Rightarrow> m | _ \<Rightarrow> False)"

lemma is_tuple_unchanged_simps [simp]:
  "is_tuple_unchanged (CMarker m)" "\<not> is_tuple_unchanged CNull" "\<not> is_tuple_unchanged (CVal t s)"
  by (simp_all add: is_tuple_unchanged_def)

text \<open>\<open>encodeKeyParts\<close>: every part is preceded by its length in bytes.\<close>

fun encode_key_parts :: "string list \<Rightarrow> string" where
  "encode_key_parts [] = []"
| "encode_key_parts (p # ps) = itoa (int (length p)) @ '':'' @ p @ encode_key_parts ps"

lemma itoa_nat: "itoa (int n) = nat_digits n"
  by (simp add: itoa_def)

lemma nat_digits_inject: "nat_digits m = nat_digits n \<Longrightarrow> m = n"
  using nat_digits_props by metis

lemma colon_not_digit: "CHR '':'' \<notin> set (nat_digits n)"
proof
  assume "CHR '':'' \<in> set (nat_digits n)"
  moreover have "list_all is_digit (nat_digits n)" using nat_digits_props by blast
  ultimately have "is_digit (CHR '':'')" by (auto simp: list_all_iff)
  then show False by (simp add: is_digit_def)
qed

lemma split_at_first: "x \<notin> set a \<Longrightarrow> x \<notin> set b \<Longrightarrow> a @ x # u = b @ x # v \<longleftrightarrow> a = b \<and> u = v"
proof (induction a arbitrary: b)
  case Nil then show ?case by (cases b) auto
next
  case (Cons c a) then show ?case by (cases b) auto
qed

lemma encode_inject_lemma: "encode_key_parts ps = encode_key_parts qs \<Longrightarrow> ps = qs"
proof (induction ps arbitrary: qs)
  case Nil
  then show ?case by (cases qs) simp_all
next
  case (Cons p ps)
  then obtain q qs' where qs: "qs = q # qs'" by (cases qs) simp_all
  have "nat_digits (length p) @ CHR '':'' # (p @ encode_key_parts ps) =
      nat_digits (length q) @ CHR '':'' # (q @ encode_key_parts qs')"
    using Cons.prems by (simp add: qs itoa_nat)
  then have "nat_digits (length p) = nat_digits (length q) \<and>
      p @ encode_key_parts ps = q @ encode_key_parts qs'"
    by (simp add: split_at_first colon_not_digit)
  then have "p = q" "encode_key_parts ps = encode_key_parts qs'"
    using nat_digits_inject by fastforce+
  then show ?case using Cons.IH qs by simp
qed

text \<open>Two composite keys have the same encoding only if they have the same parts, whatever
  bytes the parts contain: TOAST values of different rows are never kept under one key.\<close>

theorem encode_key_parts_inject: "encode_key_parts ps = encode_key_parts qs \<longleftrightarrow> ps = qs"
  using encode_inject_lemma by blast

definition toast_map_key :: "string \<Rightarrow> string \<Rightarrow> string" where
  "toast_map_key table key = encode_key_parts [table, key]"

lemma toast_map_key_inject: "toast_map_key t k = toast_map_key t' k' \<longleftrightarrow> t = t' \<and> k = k'"
proof -
  have "toast_map_key t k = toast_map_key t' k' \<Longrightarrow> [t, k] = [t', k']"
    unfolding toast_map_key_def by (rule encode_inject_lemma)
  then show ?thesis by auto
qed

subsection \<open>The state\<close>

record toast_row =
  tr_table :: string
  tr_key :: string
  tr_values :: "cell list"
  tr_lsn :: lsn
  tr_bytes :: int

text \<open>\<open>toast_db\<close> is the scratch table once the state has been spilled (\<open>s.tx != nil\<close>): values and
  position text under table name and row key. \<open>toast_calls\<close> counts the calls made on it.\<close>

record toast_state =
  toast_memory :: "(string \<times> toast_row) list"
  toast_bytes :: int
  toast_limit :: int
  toast_pruned :: lsn
  toast_db :: "((string \<times> string) \<times> cell list \<times> string) list option"
  toast_calls :: nat

definition default_transaction_memory_bytes :: int where
  "default_transaction_memory_bytes = 8388608"

definition new_toast_state :: toast_state where
  "new_toast_state = \<lparr>toast_memory = [], toast_bytes = 0,
     toast_limit = default_transaction_memory_bytes, toast_pruned = 0, toast_db = None,
     toast_calls = 0\<rparr>"

datatype toast_error = ScratchFailed

type_synonym scratch_faults = "nat \<Rightarrow> bool"

text \<open>\<open>n\<close> calls on the scratch database, each of which may fail.\<close>

definition scratch_calls ::
  "scratch_faults \<Rightarrow> nat \<Rightarrow> toast_state \<Rightarrow> (toast_error, toast_state) result" where
  "scratch_calls fails n s =
     (if list_ex (\<lambda>i. fails (toast_calls s + i)) [0..<n] then Inl ScratchFailed
      else Inr (s\<lparr>toast_calls := toast_calls s + n\<rparr>))"

definition memory_row_bytes :: "(string \<times> toast_row) list \<Rightarrow> string \<Rightarrow> int" where
  "memory_row_bytes m k = (case map_of m k of None \<Rightarrow> 0 | Some r \<Rightarrow> tr_bytes r)"

definition toast_get :: "scratch_faults \<Rightarrow> toast_state \<Rightarrow> string \<Rightarrow> string \<Rightarrow>
  (toast_error, cell list \<times> toast_state) result" where
  "toast_get fails s table key =
     (case toast_db s of
        None \<Rightarrow> Inr (case map_of (toast_memory s) (toast_map_key table key) of
                       None \<Rightarrow> [] | Some r \<Rightarrow> tr_values r, s)
      | Some db \<Rightarrow> bind_result (scratch_calls fails 1 s) (\<lambda>s'.
          Inr (case map_of db (table, key) of None \<Rightarrow> [] | Some (v, _) \<Rightarrow> v, s')))"

text \<open>The \<open>INSERT ... ON CONFLICT DO UPDATE\<close> of \<open>put\<close> once the state is spilled.\<close>

definition db_put :: "scratch_faults \<Rightarrow> toast_state \<Rightarrow> string \<Rightarrow> string \<Rightarrow> cell list \<Rightarrow> lsn \<Rightarrow>
  (toast_error, toast_state) result" where
  "db_put fails s table key vals l =
     bind_result (scratch_calls fails 1 s) (\<lambda>s'.
       Inr (s'\<lparr>toast_db := map_option (AList.update (table, key) (vals, format_lsn l)) (toast_db s)\<rparr>))"

fun db_put_rows :: "scratch_faults \<Rightarrow> toast_state \<Rightarrow> toast_row list \<Rightarrow>
  (toast_error, toast_state) result" where
  "db_put_rows fails s [] = Inr s"
| "db_put_rows fails s (r # rs) =
     bind_result (db_put fails s (tr_table r) (tr_key r) (tr_values r) (tr_lsn r)) (\<lambda>s'.
       db_put_rows fails s' rs)"

text \<open>\<open>spill\<close>: creating, closing and opening the file, four pragmas, the table, its index and the
  transaction are ten calls; then every row in memory is put.\<close>

definition toast_spill :: "scratch_faults \<Rightarrow> toast_state \<Rightarrow> (toast_error, toast_state) result" where
  "toast_spill fails s =
     bind_result (scratch_calls fails 10 s) (\<lambda>s1.
     bind_result (db_put_rows fails (s1\<lparr>toast_db := Some []\<rparr>) (map snd (toast_memory s))) (\<lambda>s2.
       Inr (s2\<lparr>toast_memory := [], toast_bytes := 0\<rparr>)))"

definition toast_put :: "(cell list \<Rightarrow> int) \<Rightarrow> scratch_faults \<Rightarrow> toast_state \<Rightarrow> string \<Rightarrow> string \<Rightarrow>
  cell list \<Rightarrow> lsn \<Rightarrow> (toast_error, toast_state) result" where
  "toast_put est fails s table key vals l =
     (case toast_db s of
        None \<Rightarrow>
          (let mk = toast_map_key table key;
               size = int (length mk + length table + length key + 128) + est vals;
               s1 = s\<lparr>toast_bytes := toast_bytes s + size - memory_row_bytes (toast_memory s) mk,
                      toast_memory := AList.update mk \<lparr>tr_table = table, tr_key = key,
                        tr_values = vals, tr_lsn = l, tr_bytes = size\<rparr> (toast_memory s)\<rparr>
           in if toast_bytes s1 \<le> toast_limit s1 then Inr s1 else toast_spill fails s1)
      | Some _ \<Rightarrow> db_put fails s table key vals l)"

definition toast_delete :: "scratch_faults \<Rightarrow> toast_state \<Rightarrow> string \<Rightarrow> string \<Rightarrow>
  (toast_error, toast_state) result" where
  "toast_delete fails s table key =
     (case toast_db s of
        None \<Rightarrow>
          (let mk = toast_map_key table key
           in Inr (s\<lparr>toast_bytes := toast_bytes s - memory_row_bytes (toast_memory s) mk,
                     toast_memory := AList.delete mk (toast_memory s)\<rparr>))
      | Some db \<Rightarrow> bind_result (scratch_calls fails 1 s) (\<lambda>s'.
          Inr (s'\<lparr>toast_db := Some (AList.delete (table, key) db)\<rparr>)))"

text \<open>The two loops over \<open>s.memory\<close> that drop the rows a condition picks.\<close>

definition drop_rows :: "(toast_row \<Rightarrow> bool) \<Rightarrow> toast_state \<Rightarrow> toast_state" where
  "drop_rows P s =
     s\<lparr>toast_bytes := toast_bytes s - sum_list (map (tr_bytes \<circ> snd) (filter (P \<circ> snd) (toast_memory s))),
       toast_memory := filter (Not \<circ> P \<circ> snd) (toast_memory s)\<rparr>"

definition toast_truncate :: "scratch_faults \<Rightarrow> toast_state \<Rightarrow> string \<Rightarrow>
  (toast_error, toast_state) result" where
  "toast_truncate fails s table =
     (case toast_db s of
        None \<Rightarrow> Inr (drop_rows (\<lambda>r. tr_table r = table) s)
      | Some db \<Rightarrow> bind_result (scratch_calls fails 1 s) (\<lambda>s'.
          Inr (s'\<lparr>toast_db := Some (filter (\<lambda>(k, _). fst k \<noteq> table) db)\<rparr>)))"

definition toast_prune :: "scratch_faults \<Rightarrow> toast_state \<Rightarrow> lsn \<Rightarrow>
  (toast_error, toast_state) result" where
  "toast_prune fails s durable =
     (if durable \<le> toast_pruned s then Inr s
      else bind_result
        (case toast_db s of
           None \<Rightarrow> Inr (drop_rows (\<lambda>r. tr_lsn r \<le> durable) s)
         | Some db \<Rightarrow> bind_result (scratch_calls fails 1 s) (\<lambda>s'.
             Inr (s'\<lparr>toast_db := Some (filter (\<lambda>(_, _, t). \<not> t \<le> format_lsn durable) db)\<rparr>)))
        (\<lambda>s'. Inr (s'\<lparr>toast_pruned := durable\<rparr>)))"

subsection \<open>The invariant and the abstract state\<close>

text \<open>
  Abstractly the state is a map from table and row key to the values and the position they were
  seen at. In memory every row sits under the key its table and row key encode to, and the byte
  count is the sum over the rows, within the limit; after the spill nothing is left in memory.
\<close>

type_synonym toast_map = "(string \<times> string) \<rightharpoonup> (cell list \<times> lsn)"

definition memory_ok :: "(string \<times> toast_row) list \<Rightarrow> bool" where
  "memory_ok m \<longleftrightarrow> distinct (map fst m) \<and>
     (\<forall>(mk, r) \<in> set m. mk = toast_map_key (tr_table r) (tr_key r) \<and> 0 \<le> tr_bytes r)"

definition memory_bytes :: "(string \<times> toast_row) list \<Rightarrow> int" where
  "memory_bytes m = sum_list (map (tr_bytes \<circ> snd) m)"

definition toast_counted :: "toast_state \<Rightarrow> bool" where
  "toast_counted s \<longleftrightarrow> toast_bytes s = memory_bytes (toast_memory s) \<and>
     (toast_db s \<noteq> None \<longrightarrow> toast_memory s = []) \<and>
     (toast_db s = None \<longrightarrow> toast_bytes s \<le> toast_limit s)"

definition memory_map :: "(string \<times> toast_row) list \<Rightarrow> toast_map" where
  "memory_map m = (\<lambda>(t, k). map_option (\<lambda>r. (tr_values r, tr_lsn r)) (map_of m (toast_map_key t k)))"

definition db_rows :: "toast_map \<Rightarrow> (string \<times> string) \<rightharpoonup> (cell list \<times> string)" where
  "db_rows A = (\<lambda>tk. map_option (\<lambda>(v, l). (v, format_lsn l)) (A tk))"

definition toast_rel :: "toast_state \<Rightarrow> toast_map \<Rightarrow> bool" where
  "toast_rel s A \<longleftrightarrow> toast_counted s \<and> memory_ok (toast_memory s) \<and>
     (case toast_db s of
        None \<Rightarrow> memory_map (toast_memory s) = A
      | Some db \<Rightarrow> distinct (map fst db) \<and> map_of db = db_rows A)"

lemma toast_rel_cases:
  assumes "toast_rel s A"
  obtains (memory) "toast_db s = None" "memory_ok (toast_memory s)"
      "memory_map (toast_memory s) = A" "toast_bytes s = memory_bytes (toast_memory s)"
      "toast_bytes s \<le> toast_limit s"
    | (spilled) db where "toast_db s = Some db" "distinct (map fst db)" "map_of db = db_rows A"
      "toast_memory s = []" "toast_bytes s = 0"
  using assms unfolding toast_rel_def toast_counted_def
  by (cases "toast_db s") (auto simp: memory_bytes_def)

lemma toast_rel_memoryI:
  "toast_db s = None \<Longrightarrow> memory_ok (toast_memory s) \<Longrightarrow> memory_map (toast_memory s) = A \<Longrightarrow>
   toast_bytes s = memory_bytes (toast_memory s) \<Longrightarrow> toast_bytes s \<le> toast_limit s \<Longrightarrow> toast_rel s A"
  by (simp add: toast_rel_def toast_counted_def)

lemma toast_rel_spilledI:
  "toast_db s = Some db \<Longrightarrow> distinct (map fst db) \<Longrightarrow> map_of db = db_rows A \<Longrightarrow>
   toast_memory s = [] \<Longrightarrow> toast_bytes s = 0 \<Longrightarrow> toast_rel s A"
  by (simp add: toast_rel_def toast_counted_def memory_ok_def memory_bytes_def)

lemma new_toast_rel: "toast_rel new_toast_state Map.empty"
  by (rule toast_rel_memoryI)
    (simp_all add: new_toast_state_def memory_ok_def memory_map_def memory_bytes_def
      default_transaction_memory_bytes_def fun_eq_iff)

subsection \<open>Rows in memory\<close>

lemma memory_bytes_Cons [simp]: "memory_bytes (x # m) = tr_bytes (snd x) + memory_bytes m"
  by (simp add: memory_bytes_def)

lemma memory_bytes_Nil [simp]: "memory_bytes [] = 0"
  by (simp add: memory_bytes_def)

lemma memory_row_bytes_absent: "k \<notin> fst ` set m \<Longrightarrow> memory_row_bytes m k = 0"
  by (simp add: memory_row_bytes_def map_of_eq_None_iff [THEN iffD2])

lemma memory_bytes_update:
  "distinct (map fst m) \<Longrightarrow>
   memory_bytes (AList.update k r m) = memory_bytes m - memory_row_bytes m k + tr_bytes r"
  by (induction m) (auto simp: memory_row_bytes_absent memory_row_bytes_def)

lemma memory_bytes_delete:
  "distinct (map fst m) \<Longrightarrow> memory_bytes (AList.delete k m) = memory_bytes m - memory_row_bytes m k"
proof (induction m)
  case (Cons x m)
  have "AList.delete k m = m" if "k \<notin> fst ` set m"
    using that by (simp add: delete_idem)
  then show ?case using Cons memory_row_bytes_absent [of k m] by (auto simp: memory_row_bytes_def)
qed (simp add: memory_row_bytes_def)

lemma memory_bytes_filter:
  "memory_bytes (filter (Not \<circ> P \<circ> snd) m) =
   memory_bytes m - sum_list (map (tr_bytes \<circ> snd) (filter (P \<circ> snd) m))"
  by (induction m) simp_all

lemma sum_rows_nonneg: "memory_ok m \<Longrightarrow> 0 \<le> sum_list (map (tr_bytes \<circ> snd) (filter P m))"
  by (rule sum_list_nonneg) (auto simp: memory_ok_def)

lemma memory_row_bytes_nonneg: "memory_ok m \<Longrightarrow> 0 \<le> memory_row_bytes m k"
  by (auto simp: memory_ok_def memory_row_bytes_def dest: map_of_SomeD split: option.splits)

lemma memory_ok_filter: "memory_ok m \<Longrightarrow> memory_ok (filter P m)"
  by (auto simp: memory_ok_def distinct_map_filter)

lemma set_alist_update: "set (AList.update k v m) \<subseteq> insert (k, v) (set m)"
  by (induction m) auto

lemma memory_ok_update:
  "memory_ok m \<Longrightarrow> 0 \<le> tr_bytes r \<Longrightarrow>
   memory_ok (AList.update (toast_map_key (tr_table r) (tr_key r)) r m)"
  using set_alist_update [of "toast_map_key (tr_table r) (tr_key r)" r m]
  by (auto simp: memory_ok_def distinct_update)

lemma memory_map_update:
  "memory_map (AList.update (toast_map_key t k) r m) =
   (memory_map m)((t, k) \<mapsto> (tr_values r, tr_lsn r))"
  by (auto simp: memory_map_def update_conv' toast_map_key_inject fun_eq_iff)

lemma memory_map_delete:
  "memory_map (AList.delete (toast_map_key t k) m) = (memory_map m)((t, k) := None)"
  by (auto simp: memory_map_def delete_conv' toast_map_key_inject fun_eq_iff)

lemma map_of_filter_rows:
  "distinct (map fst m) \<Longrightarrow>
   map_of (filter P m) k = (case map_of m k of Some r \<Rightarrow> if P (k, r) then Some r else None | None \<Rightarrow> None)"
  by (induction m) (auto split: option.splits simp: rev_image_eqI map_of_eq_None_iff)

subsection \<open>Every operation implements its map operation\<close>

definition spec_truncate :: "string \<Rightarrow> toast_map \<Rightarrow> toast_map" where
  "spec_truncate table A = (\<lambda>tk. if fst tk = table then None else A tk)"

definition spec_prune :: "lsn \<Rightarrow> toast_map \<Rightarrow> toast_map" where
  "spec_prune durable A = (\<lambda>tk. case A tk of
     Some (v, l) \<Rightarrow> if l \<le> durable then None else Some (v, l) | None \<Rightarrow> None)"

definition spec_values :: "toast_map \<Rightarrow> string \<Rightarrow> string \<Rightarrow> cell list" where
  "spec_values A table key = (case A (table, key) of None \<Rightarrow> [] | Some (v, _) \<Rightarrow> v)"

lemma scratch_calls_InrD:
  "scratch_calls fails n s = Inr s' \<Longrightarrow> s' = s\<lparr>toast_calls := toast_calls s + n\<rparr>"
  by (auto simp: scratch_calls_def split: if_splits)

lemma toast_rel_calls [simp]: "toast_rel (s\<lparr>toast_calls := n\<rparr>) A = toast_rel s A"
  by (simp add: toast_rel_def toast_counted_def split: option.splits)

lemma db_rows_update: "db_rows (A(tk \<mapsto> (v, l))) = (db_rows A)(tk \<mapsto> (v, format_lsn l))"
  by (auto simp: db_rows_def)

lemma toast_get_rel:
  assumes "toast_rel s A" "toast_get fails s t k = Inr (v, s')"
  shows "v = spec_values A t k \<and> toast_rel s' A \<and> toast_pruned s' = toast_pruned s"
  using assms(1)
proof (cases rule: toast_rel_cases)
  case memory
  then show ?thesis using assms
    by (auto simp: toast_get_def spec_values_def memory_map_def split: option.splits)
next
  case (spilled db)
  then obtain s1 where "scratch_calls fails 1 s = Inr s1" "s' = s1"
      "v = (case map_of db (t, k) of None \<Rightarrow> [] | Some (v, _) \<Rightarrow> v)"
    using assms(2) by (auto simp: toast_get_def bind_result_Inr_iff)
  then show ?thesis using assms(1) spilled(3)
    by (auto dest!: scratch_calls_InrD simp: spec_values_def db_rows_def split: option.splits)
qed

lemma db_put_rel:
  assumes "toast_db s = Some db" "db_put fails s t k v l = Inr s'"
  shows "\<exists>n. s' = s\<lparr>toast_calls := n, toast_db := Some (AList.update (t, k) (v, format_lsn l) db)\<rparr>"
  using assms by (auto simp: db_put_def bind_result_Inr_iff dest!: scratch_calls_InrD)

definition spill_row :: "((string \<times> string) \<times> cell list \<times> string) list \<Rightarrow> toast_row \<Rightarrow>
  ((string \<times> string) \<times> cell list \<times> string) list" where
  "spill_row db r = AList.update (tr_table r, tr_key r) (tr_values r, format_lsn (tr_lsn r)) db"

lemma db_put_rows_rel:
  assumes "toast_db s = Some db" "db_put_rows fails s rs = Inr s'"
  shows "\<exists>n. s' = s\<lparr>toast_calls := n, toast_db := Some (foldl spill_row db rs)\<rparr>"
  using assms
proof (induction rs arbitrary: s db)
  case Nil
  have "s\<lparr>toast_calls := toast_calls s, toast_db := Some db\<rparr> = s"
    using Nil.prems(1) by (cases s) simp
  then show ?case using Nil.prems(2) by (intro exI [of _ "toast_calls s"]) simp
next
  case (Cons r rs)
  then obtain s1 where s1: "db_put fails s (tr_table r) (tr_key r) (tr_values r) (tr_lsn r) = Inr s1"
      "db_put_rows fails s1 rs = Inr s'"
    by (auto simp: bind_result_Inr_iff)
  from db_put_rel [OF Cons.prems(1) s1(1)]
  obtain n where n: "s1 = s\<lparr>toast_calls := n, toast_db := Some (spill_row db r)\<rparr>"
    unfolding spill_row_def by blast
  have "\<exists>n. s' = s1\<lparr>toast_calls := n, toast_db := Some (foldl spill_row (spill_row db r) rs)\<rparr>"
    by (rule Cons.IH [OF _ s1(2)]) (simp add: n)
  then show ?case by (auto simp: n)
qed

text \<open>Putting all rows of the memory into an empty table gives the rows of the memory's map.\<close>

lemma spilled_rows:
  assumes "memory_ok m" "distinct (map fst db)"
    and "\<forall>x \<in> set m. (tr_table (snd x), tr_key (snd x)) \<notin> fst ` set db"
  shows "distinct (map fst (foldl spill_row db (map snd m))) \<and>
    map_of (foldl spill_row db (map snd m)) = map_of db ++ db_rows (memory_map m)"
  using assms
proof (induction m arbitrary: db)
  case Nil
  then show ?case by (auto simp: memory_map_def db_rows_def map_add_def fun_eq_iff)
next
  case (Cons x m)
  obtain mk r where x: "x = (mk, r)" by (cases x)
  have mk: "mk = toast_map_key (tr_table r) (tr_key r)" and ok: "memory_ok m"
    and fresh: "mk \<notin> fst ` set m"
    using Cons.prems(1) by (auto simp: memory_ok_def x)
  have "(tr_table (snd y), tr_key (snd y)) \<noteq> (tr_table r, tr_key r)" if "y \<in> set m" for y
  proof -
    have "fst y = toast_map_key (tr_table (snd y)) (tr_key (snd y))"
      using ok that by (auto simp: memory_ok_def)
    moreover have "fst y \<noteq> mk" using fresh that by blast
    ultimately show ?thesis by (auto simp: mk)
  qed
  then have "\<forall>y \<in> set m. (tr_table (snd y), tr_key (snd y)) \<notin> fst ` set (spill_row db r)"
    using Cons.prems(3) by (auto simp: spill_row_def dom_update)
  then have ih: "distinct (map fst (foldl spill_row (spill_row db r) (map snd m))) \<and>
      map_of (foldl spill_row (spill_row db r) (map snd m)) =
      map_of (spill_row db r) ++ db_rows (memory_map m)"
    using Cons.prems(2) by (intro Cons.IH ok) (simp_all add: spill_row_def distinct_update)
  have absent: "map_of m (toast_map_key (tr_table r) (tr_key r)) = None"
    using fresh mk by (simp add: map_of_eq_None_iff)
  have "map_of (spill_row db r) ++ db_rows (memory_map m) = map_of db ++ db_rows (memory_map (x # m))"
  proof
    fix tk :: "string \<times> string"
    obtain t k where tk: "tk = (t, k)" by (cases tk)
    show "(map_of (spill_row db r) ++ db_rows (memory_map m)) tk =
        (map_of db ++ db_rows (memory_map (x # m))) tk"
    proof (cases "t = tr_table r \<and> k = tr_key r")
      case True
      then show ?thesis
        using absent by (simp add: tk spill_row_def update_conv' map_add_def db_rows_def memory_map_def x mk)
    next
      case False
      then have "toast_map_key t k \<noteq> mk" by (simp add: mk toast_map_key_inject)
      then show ?thesis
        using False by (auto simp: tk spill_row_def update_conv' map_add_def db_rows_def memory_map_def x
            split: option.splits)
    qed
  qed
  then show ?case using ih by (simp add: x)
qed

lemma toast_spill_rel:
  assumes "toast_db s = None" "memory_ok (toast_memory s)" "toast_spill fails s = Inr s'"
  shows "toast_rel s' (memory_map (toast_memory s)) \<and> toast_pruned s' = toast_pruned s"
proof -
  obtain s1 s2 where s1: "scratch_calls fails 10 s = Inr s1"
    and s2: "db_put_rows fails (s1\<lparr>toast_db := Some []\<rparr>) (map snd (toast_memory s)) = Inr s2"
    and s': "s' = s2\<lparr>toast_memory := [], toast_bytes := 0\<rparr>"
    using assms(3) by (auto simp: toast_spill_def bind_result_Inr_iff)
  define db where "db = foldl spill_row [] (map snd (toast_memory s))"
  have rows: "distinct (map fst db) \<and> map_of db = db_rows (memory_map (toast_memory s))"
    using spilled_rows [OF assms(2), of "[]"] by (simp add: db_def)
  obtain n where "s2 = s1\<lparr>toast_db := Some [], toast_calls := n, toast_db := Some db\<rparr>"
    using db_put_rows_rel [OF _ s2, of "[]"] by (auto simp: db_def)
  then show ?thesis
    using rows scratch_calls_InrD [OF s1] by (auto simp: s' intro: toast_rel_spilledI)
qed

lemma toast_put_rel:
  assumes "toast_rel s A" "\<forall>v. 0 \<le> est v" "toast_put est fails s t k v l = Inr s'"
  shows "toast_rel s' (A((t, k) \<mapsto> (v, l))) \<and> toast_pruned s' = toast_pruned s"
  using assms(1)
proof (cases rule: toast_rel_cases)
  case memory
  define mk where "mk = toast_map_key t k"
  define r where "r = \<lparr>tr_table = t, tr_key = k, tr_values = v, tr_lsn = l,
    tr_bytes = int (length mk + length t + length k + 128) + est v\<rparr>"
  define s1 where "s1 = s\<lparr>toast_bytes := toast_bytes s + tr_bytes r - memory_row_bytes (toast_memory s) mk,
    toast_memory := AList.update mk r (toast_memory s)\<rparr>"
  have upd: "memory_map (toast_memory s1) = A((t, k) \<mapsto> (v, l))"
    using memory(3) by (simp add: s1_def mk_def memory_map_update r_def)
  have "0 \<le> tr_bytes r" using assms(2) by (simp add: r_def)
  then have ok: "memory_ok (toast_memory s1)"
    using memory_ok_update [OF memory(2), of r] by (simp add: s1_def mk_def r_def)
  have bytes: "toast_bytes s1 = memory_bytes (toast_memory s1)"
    using memory(2,4) by (simp add: s1_def memory_bytes_update memory_ok_def)
  have put: "(if toast_bytes s1 \<le> toast_limit s1 then Inr s1 else toast_spill fails s1) = Inr s'"
    using assms(3) unfolding toast_put_def memory(1) Let_def s1_def mk_def r_def
    by (simp only: option.case toast_row.select_convs)
  show ?thesis
  proof (cases "toast_bytes s1 \<le> toast_limit s1")
    case True
    then have "s' = s1" using put by simp
    then show ?thesis
      using True upd ok bytes memory(1) by (auto intro!: toast_rel_memoryI simp: s1_def)
  next
    case False
    have "toast_spill fails s1 = Inr s'" using put False by simp
    moreover have "toast_db s1 = None" "toast_pruned s1 = toast_pruned s"
      using memory(1) by (simp_all add: s1_def)
    ultimately show ?thesis using toast_spill_rel [of s1 fails s'] ok upd by simp
  qed
next
  case (spilled db)
  then have "db_put fails s t k v l = Inr s'" using assms(3) by (simp add: toast_put_def)
  from db_put_rel [OF spilled(1) this] obtain n where
    "s' = s\<lparr>toast_calls := n, toast_db := Some (AList.update (t, k) (v, format_lsn l) db)\<rparr>"
    by blast
  then show ?thesis
    using spilled by (auto intro!: toast_rel_spilledI simp: distinct_update update_conv' db_rows_update)
qed

lemma toast_delete_rel:
  assumes "toast_rel s A" "toast_delete fails s t k = Inr s'"
  shows "toast_rel s' (A((t, k) := None)) \<and> toast_pruned s' = toast_pruned s"
  using assms(1)
proof (cases rule: toast_rel_cases)
  case memory
  have ok: "memory_ok (AList.delete mk (toast_memory s))" for mk
    using memory(2) by (simp add: AList.delete_eq memory_ok_filter)
  show ?thesis
    using assms(2) memory ok memory_row_bytes_nonneg [OF memory(2), of "toast_map_key t k"]
    by (auto simp: toast_delete_def Let_def memory_map_delete memory_bytes_delete memory_ok_def
        intro!: toast_rel_memoryI)
next
  case (spilled db)
  have "db_rows (A((t, k) := None)) = (db_rows A)((t, k) := None)" by (auto simp: db_rows_def)
  then show ?thesis
    using assms(2) spilled
    by (auto simp: toast_delete_def bind_result_Inr_iff delete_conv' distinct_delete
        dest!: scratch_calls_InrD intro!: toast_rel_spilledI)
qed

lemma drop_rows_rel:
  assumes "toast_rel s A" "toast_db s = None"
  shows "toast_rel (drop_rows P s) (memory_map (filter (Not \<circ> P \<circ> snd) (toast_memory s)))"
  using assms(1)
proof (cases rule: toast_rel_cases)
  case memory
  have "0 \<le> sum_list (map (tr_bytes \<circ> snd) (filter (P \<circ> snd) (toast_memory s)))"
    by (rule sum_rows_nonneg [OF memory(2)])
  then show ?thesis
    using memory by (intro toast_rel_memoryI)
      (simp_all add: drop_rows_def memory_ok_filter memory_bytes_filter del: filter_filter)
qed (use assms(2) in simp)

lemma memory_map_filter:
  assumes "memory_ok m"
  shows "memory_map (filter (Not \<circ> P \<circ> snd) m) (t, k) =
    (case map_of m (toast_map_key t k) of
       Some r \<Rightarrow> if P r then None else Some (tr_values r, tr_lsn r) | None \<Rightarrow> None)"
  using assms by (auto simp: memory_map_def memory_ok_def map_of_filter_rows split: option.splits)

lemma memory_map_app:
  "memory_map m (t, k) = map_option (\<lambda>r. (tr_values r, tr_lsn r)) (map_of m (toast_map_key t k))"
  by (simp add: memory_map_def)

lemma memory_row_table:
  "memory_ok m \<Longrightarrow> map_of m (toast_map_key t k) = Some r \<Longrightarrow> tr_table r = t \<and> tr_key r = k"
  by (auto simp: memory_ok_def toast_map_key_inject dest!: map_of_SomeD)

lemma toast_truncate_rel:
  assumes "toast_rel s A" "toast_truncate fails s t = Inr s'"
  shows "toast_rel s' (spec_truncate t A) \<and> toast_pruned s' = toast_pruned s"
  using assms(1)
proof (cases rule: toast_rel_cases)
  case memory
  have "memory_map (filter (Not \<circ> (\<lambda>r. tr_table r = t) \<circ> snd) (toast_memory s)) (a, b) =
      spec_truncate t A (a, b)" for a b
    unfolding memory_map_filter [OF memory(2)]
    unfolding spec_truncate_def memory(3) [symmetric] memory_map_app
    using memory_row_table [OF memory(2), of a b] by (auto split: option.splits)
  then have "memory_map (filter (Not \<circ> (\<lambda>r. tr_table r = t) \<circ> snd) (toast_memory s)) = spec_truncate t A"
    by (simp only: fun_eq_iff split_paired_All) blast
  then show ?thesis
    using assms(2) memory(1) drop_rows_rel [OF assms(1) memory(1), of "\<lambda>r. tr_table r = t"]
    by (auto simp: toast_truncate_def drop_rows_def)
next
  case (spilled db)
  have "map_of (filter (\<lambda>(k, _). fst k \<noteq> t) db) = db_rows (spec_truncate t A)"
    using spilled(2,3) by (auto simp: fun_eq_iff map_of_filter_rows db_rows_def spec_truncate_def
        split: option.splits)
  then show ?thesis
    using assms(2) spilled
    by (auto simp: toast_truncate_def bind_result_Inr_iff distinct_map_filter
        dest!: scratch_calls_InrD intro!: toast_rel_spilledI)
qed

lemma toast_rel_pruned [simp]: "toast_rel (s\<lparr>toast_pruned := d\<rparr>) A = toast_rel s A"
  by (simp add: toast_rel_def toast_counted_def split: option.splits)

lemma toast_prune_rel:
  assumes "toast_rel s A" "toast_prune fails s d = Inr s'"
  shows "toast_rel s' (if d \<le> toast_pruned s then A else spec_prune d A) \<and>
    toast_pruned s' = max d (toast_pruned s)"
proof (cases "d \<le> toast_pruned s")
  case True
  then show ?thesis using assms by (simp add: toast_prune_def max_def)
next
  case False
  from assms(1) show ?thesis
  proof (cases rule: toast_rel_cases)
    case memory
    have "memory_map (filter (Not \<circ> (\<lambda>r. tr_lsn r \<le> d) \<circ> snd) (toast_memory s)) (a, b) =
        spec_prune d A (a, b)" for a b
      unfolding memory_map_filter [OF memory(2)]
      unfolding spec_prune_def memory(3) [symmetric] memory_map_app
      by (auto split: option.splits)
    then have "memory_map (filter (Not \<circ> (\<lambda>r. tr_lsn r \<le> d) \<circ> snd) (toast_memory s)) = spec_prune d A"
      by (simp only: fun_eq_iff split_paired_All) blast
    then have "toast_rel (drop_rows (\<lambda>r. tr_lsn r \<le> d) s) (spec_prune d A)"
      using drop_rows_rel [OF assms(1) memory(1), of "\<lambda>r. tr_lsn r \<le> d"] by simp
    moreover have "s' = drop_rows (\<lambda>r. tr_lsn r \<le> d) s\<lparr>toast_pruned := d\<rparr>"
      using assms(2) memory(1) False by (simp add: toast_prune_def)
    ultimately show ?thesis using False by (simp add: max_def)
  next
    case (spilled db)
    have "map_of (filter (\<lambda>(_, _, x). \<not> x \<le> format_lsn d) db) = db_rows (spec_prune d A)"
      using spilled(2,3) by (auto simp: fun_eq_iff map_of_filter_rows db_rows_def spec_prune_def
          format_lsn_le split: option.splits)
    then show ?thesis
      using assms(2) spilled False
      by (auto simp: toast_prune_def bind_result_Inr_iff distinct_map_filter max_def
          dest!: scratch_calls_InrD intro!: toast_rel_spilledI)
  qed
qed

subsection \<open>Sequences of operations\<close>

datatype toast_op =
    OpGet string string
  | OpPut string string "cell list" lsn
  | OpDelete string string
  | OpTruncate string
  | OpPrune lsn

fun toast_step :: "(cell list \<Rightarrow> int) \<Rightarrow> scratch_faults \<Rightarrow> toast_state \<Rightarrow> toast_op \<Rightarrow>
  (toast_error, cell list option \<times> toast_state) result" where
  "toast_step est fails s (OpGet t k) =
     bind_result (toast_get fails s t k) (\<lambda>(v, s'). Inr (Some v, s'))"
| "toast_step est fails s (OpPut t k v l) =
     bind_result (toast_put est fails s t k v l) (\<lambda>s'. Inr (None, s'))"
| "toast_step est fails s (OpDelete t k) =
     bind_result (toast_delete fails s t k) (\<lambda>s'. Inr (None, s'))"
| "toast_step est fails s (OpTruncate t) =
     bind_result (toast_truncate fails s t) (\<lambda>s'. Inr (None, s'))"
| "toast_step est fails s (OpPrune d) =
     bind_result (toast_prune fails s d) (\<lambda>s'. Inr (None, s'))"

fun toast_run :: "(cell list \<Rightarrow> int) \<Rightarrow> scratch_faults \<Rightarrow> toast_state \<Rightarrow> toast_op list \<Rightarrow>
  (toast_error, cell list option list \<times> toast_state) result" where
  "toast_run est fails s [] = Inr ([], s)"
| "toast_run est fails s (p # ps) =
     bind_result (toast_step est fails s p) (\<lambda>(v, s1).
     bind_result (toast_run est fails s1 ps) (\<lambda>(vs, s2). Inr (v # vs, s2)))"

text \<open>The same operations on the map, with the highest position pruned so far.\<close>

fun spec_step :: "toast_map \<times> lsn \<Rightarrow> toast_op \<Rightarrow> cell list option \<times> toast_map \<times> lsn" where
  "spec_step (A, p) (OpGet t k) = (Some (spec_values A t k), A, p)"
| "spec_step (A, p) (OpPut t k v l) = (None, A((t, k) \<mapsto> (v, l)), p)"
| "spec_step (A, p) (OpDelete t k) = (None, A((t, k) := None), p)"
| "spec_step (A, p) (OpTruncate t) = (None, spec_truncate t A, p)"
| "spec_step (A, p) (OpPrune d) = (None, if d \<le> p then A else spec_prune d A, max d p)"

fun spec_run :: "toast_map \<times> lsn \<Rightarrow> toast_op list \<Rightarrow> cell list option list \<times> toast_map \<times> lsn" where
  "spec_run a [] = ([], a)"
| "spec_run a (p # ps) = (case spec_step a p of (v, a1) \<Rightarrow> case spec_run a1 ps of (vs, a2) \<Rightarrow> (v # vs, a2))"

lemma toast_step_rel:
  assumes "toast_rel s A" "\<forall>v. 0 \<le> est v" "toast_step est fails s p = Inr (v, s')"
  shows "\<exists>A' d'. spec_step (A, toast_pruned s) p = (v, A', d') \<and> toast_rel s' A' \<and> toast_pruned s' = d'"
  using assms toast_get_rel [OF assms(1)] toast_put_rel [OF assms(1,2)]
    toast_delete_rel [OF assms(1)] toast_truncate_rel [OF assms(1)] toast_prune_rel [OF assms(1)]
  by (cases p) (fastforce simp: bind_result_Inr_iff)+

lemma toast_run_rel:
  assumes "toast_rel s A" "\<forall>v. 0 \<le> est v" "toast_run est fails s ps = Inr (vs, s')"
  shows "\<exists>A'. spec_run (A, toast_pruned s) ps = (vs, A', toast_pruned s') \<and> toast_rel s' A'"
  using assms(1,3)
proof (induction ps arbitrary: s A vs)
  case (Cons p ps)
  then obtain v s1 ws where "toast_step est fails s p = Inr (v, s1)"
      "toast_run est fails s1 ps = Inr (ws, s')" "vs = v # ws"
    by (auto simp: bind_result_Inr_iff split: prod.splits)
  then show ?case
    using toast_step_rel [OF Cons.prems(1) assms(2)] Cons.IH [of s1] by fastforce
qed simp

text \<open>C27: Started empty and driven by any sequence of operations, the TOAST state answers every
  lookup as a plain map would and ends up representing that map, in memory or on the scratch
  database alike: neither the byte accounting, the move to the database in the middle of the
  sequence, nor comparing positions as text there can be observed. While it is in memory it
  stays within its byte limit.\<close>

theorem toast_state_implements_map:
  assumes "\<forall>v. 0 \<le> est v"
    and "toast_run est fails new_toast_state ps = Inr (vs, s')"
  shows "\<exists>A'. spec_run (Map.empty, 0) ps = (vs, A', toast_pruned s') \<and> toast_rel s' A' \<and>
    (toast_db s' = None \<longrightarrow> toast_bytes s' \<le> toast_limit s')"
proof -
  have "toast_pruned new_toast_state = 0" by (simp add: new_toast_state_def)
  with toast_run_rel [OF new_toast_rel assms]
  obtain A' where "spec_run (Map.empty, 0) ps = (vs, A', toast_pruned s')" "toast_rel s' A'"
    by auto
  then show ?thesis by (auto simp: toast_rel_def toast_counted_def)
qed

definition sample_toast_ops :: "toast_op list" where
  "sample_toast_ops =
     [OpPut ''t'' ''1:a'' [CNull, CVal ''string'' ''x''] 16, OpPut ''t'' ''1:b'' [CNull] 32,
      OpGet ''t'' ''1:a'', OpPrune 16, OpGet ''t'' ''1:a'', OpTruncate ''u'', OpGet ''t'' ''1:b'']"

lemma sample_toast_run:
  "case toast_run (\<lambda>v. 9000000) (\<lambda>n. False) new_toast_state sample_toast_ops of
     Inl e \<Rightarrow> False
   | Inr (vs, s) \<Rightarrow> vs = [None, None, Some [CNull, CVal ''string'' ''x''], None, Some [], None, Some [CNull]] \<and>
       toast_db s \<noteq> None"
  by (simp add: sample_toast_ops_def toast_put_def toast_get_def toast_prune_def toast_truncate_def
      toast_spill_def db_put_def scratch_calls_def new_toast_state_def memory_row_bytes_def Let_def
      default_transaction_memory_bytes_def format_lsn_le list_ex_iff)

theorem toast_state_implements_map_witness:
  "\<exists>vs s A. toast_run (\<lambda>v. 9000000) (\<lambda>n. False) new_toast_state sample_toast_ops = Inr (vs, s) \<and>
     toast_db s \<noteq> None \<and> spec_run (Map.empty, 0) sample_toast_ops = (vs, A, toast_pruned s) \<and> toast_rel s A"
proof -
  obtain vs s where run: "toast_run (\<lambda>v. 9000000) (\<lambda>n. False) new_toast_state sample_toast_ops = Inr (vs, s)"
    "toast_db s \<noteq> None"
    using sample_toast_run by (auto split: sum.splits)
  moreover have "\<forall>v :: cell list. 0 \<le> (\<lambda>v. 9000000 :: int) v" by simp
  ultimately show ?thesis using toast_state_implements_map [of "\<lambda>v. 9000000"] by blast
qed

end
