(* ===== verification/Cdc_Values.thy ===== *)
theory Cdc_Values
  imports Schema Cdc_Toast
begin

text \<open>
  The rows of a flush window, from \<^verbatim>\<open>pkg/source/postgres_cdc/values.go\<close>: resolving the columns
  PostgreSQL left out of an UPDATE, splitting UPDATEs that move a row to another key, and
  dropping the row versions a later one supersedes. \<open>Change\<close> is the record of \<^verbatim>\<open>decoder.go\<close>;
  its four operation strings are a datatype.
\<close>

datatype change_op = INSERT | UPDATE | DELETE | TRUNCATE

text \<open>\<open>ch_old = None\<close> is a nil \<open>OldValues\<close>, which the code tells from an empty one.\<close>

record change =
  ch_op :: change_op
  ch_lsn :: lsn
  ch_seq :: "64 word"
  ch_values :: "cell list"
  ch_old :: "cell list option"

definition old_values :: "change \<Rightarrow> cell list" where
  "old_values c = (case ch_old c of None \<Rightarrow> [] | Some v \<Rightarrow> v)"

text \<open>\<open>fmt.Sprintf("%v", v)\<close>.\<close>

fun fmt_v :: "cell \<Rightarrow> string" where
  "fmt_v CNull = ''<nil>''"
| "fmt_v (CMarker m) = (if m then ''{true}'' else ''{false}'')"
| "fmt_v (CVal _ s) = s"

definition column_value_at :: "cell list \<Rightarrow> nat \<Rightarrow> cell" where
  "column_value_at vs i = (if i < length vs then vs ! i else CNull)"

definition resolve_column_value_base :: "change \<Rightarrow> nat \<Rightarrow> cell" where
  "resolve_column_value_base c i =
     (let v = column_value_at (ch_values c) i
      in if \<not> is_tuple_unchanged v then v
         else if ch_op c = UPDATE \<and> i < length (old_values c) then
           (let old = old_values c ! i
            in if old \<noteq> CNull \<and> \<not> is_tuple_unchanged old then old else CNull)
         else CNull)"

definition resolve_column_value :: "change \<Rightarrow> nat \<Rightarrow> cell" where
  "resolve_column_value c i = resolve_column_value_base c i"

definition column_is_unchanged :: "change \<Rightarrow> nat \<Rightarrow> bool" where
  "column_is_unchanged c i \<longleftrightarrow>
     ch_op c = UPDATE \<and> i < length (ch_values c) \<and> is_tuple_unchanged (ch_values c ! i)"

definition set_column_value :: "change \<Rightarrow> nat \<Rightarrow> cell \<Rightarrow> change" where
  "set_column_value c i v =
     (if i < length (ch_values c) then c\<lparr>ch_values := (ch_values c)[i := v]\<rparr> else c)"

definition column_is_authoritative :: "change \<Rightarrow> nat \<Rightarrow> bool" where
  "column_is_authoritative c i \<longleftrightarrow>
     (if \<not> column_is_unchanged c i then True else resolve_column_value_base c i \<noteq> CNull)"

subsection \<open>Keys\<close>

fun index_of_column :: "column list \<Rightarrow> string \<Rightarrow> nat option" where
  "index_of_column [] pk = None"
| "index_of_column (c # cs) pk = (if c_name c = pk then Some 0 else map_option Suc (index_of_column cs pk))"

fun pk_indices_from :: "column list \<Rightarrow> string list \<Rightarrow> nat list option" where
  "pk_indices_from cols [] = Some []"
| "pk_indices_from cols (pk # pks) =
     (case index_of_column cols pk of
        None \<Rightarrow> None
      | Some i \<Rightarrow> map_option (Cons i) (pk_indices_from cols pks))"

definition pk_column_indices :: "column list \<Rightarrow> string list \<Rightarrow> nat list" where
  "pk_column_indices cols pks =
     (if pks = [] then [] else (case pk_indices_from cols pks of None \<Rightarrow> [] | Some is \<Rightarrow> is))"

text \<open>The loop of \<open>pkKeyFromRow\<close>: the text of every key column, nothing when one has no value.\<close>

definition key_part :: "cell list \<Rightarrow> cell list \<Rightarrow> nat \<Rightarrow> string option" where
  "key_part vs olds i =
     (let v = column_value_at vs i;
          w = (if v = CNull \<or> is_tuple_unchanged v then column_value_at olds i else v)
      in case w of CVal t s \<Rightarrow> Some (t @ '':'' @ s) | _ \<Rightarrow> None)"

fun key_parts :: "cell list \<Rightarrow> cell list \<Rightarrow> nat list \<Rightarrow> string list option" where
  "key_parts vs olds [] = Some []"
| "key_parts vs olds (i # is) =
     (case key_part vs olds i of
        None \<Rightarrow> None
      | Some p \<Rightarrow> map_option (Cons p) (key_parts vs olds is))"

definition pk_key_from_row :: "cell list \<Rightarrow> cell list \<Rightarrow> nat list \<Rightarrow> nat \<Rightarrow> string" where
  "pk_key_from_row vs olds is n =
     (case key_parts vs olds is of
        None \<Rightarrow> ''row-'' @ itoa (int n)
      | Some ps \<Rightarrow> encode_key_parts ps)"

definition pk_value_changed :: "change \<Rightarrow> nat list \<Rightarrow> bool" where
  "pk_value_changed c is \<longleftrightarrow>
     ch_op c = UPDATE \<and> ch_old c \<noteq> None \<and>
     list_ex (\<lambda>i. \<not> is_tuple_unchanged (column_value_at (ch_values c) i) \<and>
       fmt_v (column_value_at (old_values c) i) \<noteq> fmt_v (column_value_at (ch_values c) i)) is"

text \<open>\<open>fillStateKeys\<close>: the key the row was known under, and the key it is known under now.\<close>

definition fill_state_keys :: "change \<Rightarrow> nat list \<Rightarrow> nat \<Rightarrow> string \<times> string" where
  "fill_state_keys c is n =
     (let store = pk_key_from_row (ch_values c) (old_values c) is n
      in (if ch_op c = UPDATE \<and> pk_value_changed c is
          then pk_key_from_row (old_values c) (old_values c) is n else store, store))"

subsection \<open>\<open>fillUnchangedColumns\<close>\<close>

definition cdc_metadata_columns :: "string list" where
  "cdc_metadata_columns = [''_cdc_lsn'', ''_cdc_deleted'', ''_cdc_synced_at'', ''_cdc_unchanged_cols'']"

definition source_column_count :: "table_schema \<Rightarrow> nat" where
  "source_column_count ts = length (ts_columns ts) - length cdc_metadata_columns"

definition toastable_type :: "data_type \<Rightarrow> bool" where
  "toastable_type t \<longleftrightarrow>
     t \<in> {TypeString, TypeBinary, TypeJSON, TypeArray, TypeDecimal, TypeUnknown}"

definition toastable_columns :: "table_schema \<Rightarrow> bool list" where
  "toastable_columns ts =
     map (\<lambda>c. toastable_type (c_type c)) (take (source_column_count ts) (ts_columns ts))"

text \<open>The errors: the scratch database failed, a column is gone from the relation, or a key
  change leaves a TOAST column without a value.\<close>

datatype fill_error =
    FillScratch toast_error
  | FillSchemaChanged string string
  | FillKeyChange string string string

definition lift_toast :: "(toast_error, 'a) result \<Rightarrow> (fill_error, 'a) result" where
  "lift_toast r = (case r of Inl e \<Rightarrow> Inl (FillScratch e) | Inr x \<Rightarrow> Inr x)"

text \<open>The first loop over the columns: from the old tuple, else from what is known of the row.\<close>

definition fill_column :: "cell list \<Rightarrow> nat \<Rightarrow> change \<Rightarrow> change" where
  "fill_column prior i c =
     (if \<not> column_is_unchanged c i then c
      else let base = resolve_column_value_base c i
           in if base \<noteq> CNull then set_column_value c i base
              else if i < length prior \<and> \<not> is_tuple_unchanged (prior ! i)
              then set_column_value c i (prior ! i) else c)"

definition fill_columns :: "cell list \<Rightarrow> nat \<Rightarrow> change \<Rightarrow> change" where
  "fill_columns prior n c = fold (fill_column prior) [0..<n] c"

text \<open>The second loop: a row that moved must be complete.\<close>

definition missing_column_error :: "table_schema \<Rightarrow> string \<Rightarrow> change \<Rightarrow> nat \<Rightarrow> fill_error" where
  "missing_column_error ts table c i =
     (let name = c_name (ts_columns ts ! i)
      in if is_relation_missing_marker (ch_values c ! i)
         then FillSchemaChanged
           (if table = [] then (if ts_schema ts \<noteq> [] then ts_schema ts @ ''.'' @ ts_name ts else ts_name ts)
            else table) name
         else FillKeyChange (ts_schema ts) (ts_name ts) name)"

definition check_moved_row :: "table_schema \<Rightarrow> string \<Rightarrow> nat list \<Rightarrow> change \<Rightarrow> (fill_error, unit) result" where
  "check_moved_row ts table is c =
     (if pk_value_changed c is
      then (case filter (column_is_unchanged c) [0..<source_column_count ts] of
              [] \<Rightarrow> Inr () | i # _ \<Rightarrow> Inl (missing_column_error ts table c i))
      else Inr ())"

text \<open>The third loop: what is known of the row after the change.\<close>

definition next_known :: "bool list \<Rightarrow> cell list \<Rightarrow> change \<Rightarrow> cell list" where
  "next_known toastable prior c =
     map (\<lambda>i. if toastable ! i \<and> column_is_authoritative c i then resolve_column_value c i
              else if i < length prior then prior ! i else CMarker False)
       [0..<length toastable]"

text \<open>The body of the loop over the changes. The store is a parameter: its three operations, and
  the table they are called for.\<close>

record 's row_store =
  rs_get :: "'s \<Rightarrow> string \<Rightarrow> (fill_error, cell list \<times> 's) result"
  rs_put :: "'s \<Rightarrow> string \<Rightarrow> cell list \<Rightarrow> lsn \<Rightarrow> (fill_error, 's) result"
  rs_delete :: "'s \<Rightarrow> string \<Rightarrow> (fill_error, 's) result"

definition fill_change :: "'s row_store \<Rightarrow> table_schema \<Rightarrow> string \<Rightarrow> nat \<Rightarrow> change \<Rightarrow> 's \<Rightarrow>
  (fill_error, change \<times> 's) result" where
  "fill_change ops ts table n c s =
     (let is = pk_column_indices (ts_columns ts) (ts_primary_keys ts);
          (lookup, store) = fill_state_keys c is n
      in bind_result (rs_get ops s lookup) (\<lambda>(prior, s1).
         let c' = fill_columns prior (source_column_count ts) c
         in bind_result (check_moved_row ts table is c') (\<lambda>_.
            bind_result (if lookup \<noteq> store then rs_delete ops s1 lookup else Inr s1) (\<lambda>s2.
            bind_result
              (if ch_op c' = DELETE then rs_delete ops s2 store
               else rs_put ops s2 store (next_known (toastable_columns ts) prior c') (ch_lsn c'))
              (\<lambda>s3. Inr (c', s3))))))"

fun fill_changes :: "'s row_store \<Rightarrow> table_schema \<Rightarrow> string \<Rightarrow> nat \<Rightarrow> change list \<Rightarrow> 's \<Rightarrow>
  (fill_error, change list \<times> 's) result" where
  "fill_changes ops ts table n [] s = Inr ([], s)"
| "fill_changes ops ts table n (c # cs) s =
     bind_result (fill_change ops ts table n c s) (\<lambda>(c', s1).
     bind_result (fill_changes ops ts table (Suc n) cs s1) (\<lambda>(cs', s2). Inr (c' # cs', s2)))"

definition toast_store :: "(cell list \<Rightarrow> int) \<Rightarrow> scratch_faults \<Rightarrow> string \<Rightarrow> toast_state row_store" where
  "toast_store est fails table =
     \<lparr>rs_get = (\<lambda>s k. lift_toast (toast_get fails s table k)),
      rs_put = (\<lambda>s k v l. lift_toast (toast_put est fails s table k v l)),
      rs_delete = (\<lambda>s k. lift_toast (toast_delete fails s table k))\<rparr>"

definition fill_unchanged_columns :: "(cell list \<Rightarrow> int) \<Rightarrow> scratch_faults \<Rightarrow> change list \<Rightarrow>
  table_schema option \<Rightarrow> string \<Rightarrow> toast_state \<Rightarrow> (fill_error, change list \<times> toast_state) result" where
  "fill_unchanged_columns est fails cs tso table s =
     (case tso of
        None \<Rightarrow> Inr (cs, s)
      | Some ts \<Rightarrow>
          if cs = [] \<or> pk_column_indices (ts_columns ts) (ts_primary_keys ts) = [] \<or>
             \<not> list_ex id (toastable_columns ts)
          then Inr (cs, s)
          else fill_changes (toast_store est fails table) ts table 0 cs s)"

subsection \<open>\<open>expandUpdates\<close>\<close>

definition update_needs_expansion :: "change \<Rightarrow> nat list \<Rightarrow> bool \<Rightarrow> bool" where
  "update_needs_expansion c is keyless \<longleftrightarrow>
     ch_op c = UPDATE \<and> ch_old c \<noteq> None \<and> (keyless \<or> pk_value_changed c is)"

definition resolved_new_image :: "change \<Rightarrow> cell list" where
  "resolved_new_image c = map (resolve_column_value_base c) [0..<length (ch_values c)]"

definition expand_update :: "nat list \<Rightarrow> bool \<Rightarrow> change \<Rightarrow> change list" where
  "expand_update is keyless c =
     (if \<not> update_needs_expansion c is keyless then [c]
      else [\<lparr>ch_op = DELETE, ch_lsn = ch_lsn c,
             ch_seq = (if ch_seq c > 0 then ch_seq c - 1 else ch_seq c),
             ch_values = old_values c, ch_old = None\<rparr>,
            (if keyless then \<lparr>ch_op = INSERT, ch_lsn = ch_lsn c, ch_seq = ch_seq c,
                              ch_values = resolved_new_image c, ch_old = None\<rparr>
             else c)])"

definition expand_updates :: "change list \<Rightarrow> table_schema option \<Rightarrow> change list" where
  "expand_updates cs tso =
     (case tso of
        None \<Rightarrow> cs
      | Some ts \<Rightarrow>
          let is = pk_column_indices (ts_columns ts) (ts_primary_keys ts);
              keyless = (is = [])
          in if list_ex (\<lambda>c. update_needs_expansion c is keyless) cs
             then concat (map (expand_update is keyless) cs) else cs)"

subsection \<open>\<open>compactChanges\<close>\<close>

text \<open>The two maps hold, per key, the last change that is no DELETE and the last that is one,
  each with its index; the entries of both are sorted by index. An association list stands for
  a Go map: the order it is ranged over is lost in the sort.\<close>

definition compact_step :: "nat list \<Rightarrow> nat \<times> change \<Rightarrow>
  (string \<times> nat \<times> change) list \<times> (string \<times> nat \<times> change) list \<Rightarrow>
  (string \<times> nat \<times> change) list \<times> (string \<times> nat \<times> change) list" where
  "compact_step is = (\<lambda>(i, c) (live, deleted).
     let key = pk_key_from_row (ch_values c) (old_values c) is i
     in if ch_op c = DELETE then (live, AList.update key (i, c) deleted)
        else (AList.update key (i, c) live, deleted))"

definition compact_changes :: "change list \<Rightarrow> table_schema option \<Rightarrow> change list" where
  "compact_changes cs tso =
     (case tso of
        None \<Rightarrow> cs
      | Some ts \<Rightarrow>
          let is = pk_column_indices (ts_columns ts) (ts_primary_keys ts)
          in if length cs < 2 \<or> is = [] then cs
             else case fold (compact_step is) (enumerate 0 cs) ([], []) of (live, deleted) \<Rightarrow>
               if length live + length deleted = length cs then cs
               else map snd (sort_key fst (map snd (live @ deleted))))"

text \<open>The columns \<open>unchangedColumnsJSON\<close> lists for a staged row.\<close>

definition unchanged_columns :: "change \<Rightarrow> column list \<Rightarrow> nat \<Rightarrow> string list" where
  "unchanged_columns c cols n =
     (if ch_op c \<noteq> UPDATE then []
      else map (\<lambda>i. c_name (cols ! i)) (filter (column_is_unchanged c) [0..<min n (length cols)]))"

subsection \<open>What the column loop does\<close>

text \<open>The cell the loop leaves in a column.\<close>

definition filled_cell :: "cell list \<Rightarrow> change \<Rightarrow> nat \<Rightarrow> cell" where
  "filled_cell prior c i =
     (if \<not> column_is_unchanged c i then ch_values c ! i
      else if resolve_column_value_base c i \<noteq> CNull then resolve_column_value_base c i
      else if i < length prior \<and> \<not> is_tuple_unchanged (prior ! i) then prior ! i
      else ch_values c ! i)"

lemma fill_column_values:
  "ch_values (fill_column prior i c) =
     (if i < length (ch_values c) then (ch_values c)[i := filled_cell prior c i] else ch_values c)"
  by (auto simp: fill_column_def filled_cell_def set_column_value_def Let_def)

lemma fill_column_keeps [keeps]:
  "ch_op (fill_column prior i c) = ch_op c" "ch_old (fill_column prior i c) = ch_old c"
  "ch_lsn (fill_column prior i c) = ch_lsn c" "ch_seq (fill_column prior i c) = ch_seq c"
  "length (ch_values (fill_column prior i c)) = length (ch_values c)"
  by (simp_all add: fill_column_def set_column_value_def Let_def)

lemma fill_columns_Suc: "fill_columns prior (Suc n) c = fill_column prior n (fill_columns prior n c)"
  by (simp add: fill_columns_def)

lemma fill_columns_0 [simp]: "fill_columns prior 0 c = c"
  by (simp add: fill_columns_def)

lemma fill_columns_keeps [keeps]:
  "ch_op (fill_columns prior n c) = ch_op c" "ch_old (fill_columns prior n c) = ch_old c"
  "ch_lsn (fill_columns prior n c) = ch_lsn c" "ch_seq (fill_columns prior n c) = ch_seq c"
  "length (ch_values (fill_columns prior n c)) = length (ch_values c)"
  by (induction n) (simp_all add: fill_columns_Suc keeps)

lemma filled_cell_cong:
  assumes "ch_op c = ch_op d" "ch_old c = ch_old d" "length (ch_values c) = length (ch_values d)"
    and "ch_values c ! i = ch_values d ! i"
  shows "filled_cell prior c i = filled_cell prior d i"
  using assms by (simp add: filled_cell_def column_is_unchanged_def resolve_column_value_base_def
      column_value_at_def old_values_def)

lemma fill_columns_values:
  "i < length (ch_values c) \<Longrightarrow>
   ch_values (fill_columns prior n c) ! i = (if i < n then filled_cell prior c i else ch_values c ! i)"
proof (induction n)
  case (Suc n)
  have "filled_cell prior (fill_columns prior n c) n = filled_cell prior c n" if "n = i"
    by (rule filled_cell_cong) (use Suc that in \<open>simp_all add: keeps\<close>)
  then show ?case using Suc by (auto simp: fill_columns_Suc fill_column_values keeps nth_list_update)
qed simp

lemma old_values_fill [simp]: "old_values (fill_columns prior n c) = old_values c"
  by (simp add: old_values_def keeps)

lemma resolve_known:
  "\<not> is_tuple_unchanged (column_value_at (ch_values c) i) \<Longrightarrow>
   resolve_column_value_base c i = column_value_at (ch_values c) i"
  by (simp add: resolve_column_value_base_def)

lemma resolve_not_marker: "\<not> is_tuple_unchanged (resolve_column_value_base c i)"
  by (auto simp: resolve_column_value_base_def Let_def)

subsection \<open>The store behind the loop\<close>

definition known_values :: "(string \<rightharpoonup> cell list) \<Rightarrow> string \<Rightarrow> cell list" where
  "known_values K k = (case K k of None \<Rightarrow> [] | Some v \<Rightarrow> v)"

definition map_store :: "(string \<rightharpoonup> cell list) row_store" where
  "map_store =
     \<lparr>rs_get = (\<lambda>K k. Inr (known_values K k, K)),
      rs_put = (\<lambda>K k v l. Inr (K(k \<mapsto> v))),
      rs_delete = (\<lambda>K k. Inr (K(k := None)))\<rparr>"

locale known_store =
  fixes ops :: "'s row_store"
    and rel :: "'s \<Rightarrow> (string \<rightharpoonup> cell list) \<Rightarrow> bool"
  assumes get: "rel s K \<Longrightarrow> rs_get ops s k = Inr (v, s') \<Longrightarrow> v = known_values K k \<and> rel s' K"
    and put: "rel s K \<Longrightarrow> rs_put ops s k v l = Inr s' \<Longrightarrow> rel s' (K(k \<mapsto> v))"
    and delete: "rel s K \<Longrightarrow> rs_delete ops s k = Inr s' \<Longrightarrow> rel s' (K(k := None))"
begin

lemma fill_change_refines:
  assumes "rel s K" "fill_change ops ts table n c s = Inr (c', s')"
  shows "\<exists>K'. fill_change map_store ts table n c K = Inr (c', K') \<and> rel s' K'"
proof -
  define ix where "ix = pk_column_indices (ts_columns ts) (ts_primary_keys ts)"
  obtain lookup store where keys: "fill_state_keys c ix n = (lookup, store)"
    by (cases "fill_state_keys c ix n")
  obtain prior s1 s2 where
    s1: "rs_get ops s lookup = Inr (prior, s1)" and
    chk: "check_moved_row ts table ix (fill_columns prior (source_column_count ts) c) = Inr ()" and
    s2: "(if lookup \<noteq> store then rs_delete ops s1 lookup else Inr s1) = Inr s2" and
    c': "c' = fill_columns prior (source_column_count ts) c" and
    s': "(if ch_op c' = DELETE then rs_delete ops s2 store
          else rs_put ops s2 store (next_known (toastable_columns ts) prior c') (ch_lsn c')) = Inr s'"
    using assms(2)
    by (auto simp: fill_change_def ix_def [symmetric] keys Let_def bind_result_Inr_iff simp del: if_split)
  have prior: "prior = known_values K lookup" and r1: "rel s1 K"
    using get [OF assms(1) s1] by simp_all
  define K2 where "K2 = (if lookup \<noteq> store then K(lookup := None) else K)"
  have r2: "rel s2 K2" using s2 delete [OF r1] r1 by (auto simp: K2_def split: if_splits)
  define K' where "K' = (if ch_op c' = DELETE then K2(store := None)
     else K2(store \<mapsto> next_known (toastable_columns ts) prior c'))"
  have "rel s' K'" using s' delete [OF r2] put [OF r2] by (auto simp: K'_def split: if_splits)
  moreover have "fill_change map_store ts table n c K = Inr (c', K')"
    using chk by (simp add: fill_change_def ix_def [symmetric] keys Let_def map_store_def prior c'
        K'_def K2_def keeps)
  ultimately show ?thesis by blast
qed

lemma fill_changes_refine:
  assumes "rel s K" "fill_changes ops ts table n cs s = Inr (cs', s')"
  shows "\<exists>K'. fill_changes map_store ts table n cs K = Inr (cs', K') \<and> rel s' K'"
  using assms
proof (induction cs arbitrary: n s K cs')
  case (Cons c cs)
  then obtain c1 s1 ds where step: "fill_change ops ts table n c s = Inr (c1, s1)"
      "fill_changes ops ts table (Suc n) cs s1 = Inr (ds, s')" "cs' = c1 # ds"
    by (auto simp: bind_result_Inr_iff)
  from fill_change_refines [OF Cons.prems(1) step(1)]
  obtain K1 where K1: "fill_change map_store ts table n c K = Inr (c1, K1)" "rel s1 K1" by blast
  from Cons.IH [OF K1(2) step(2)]
  obtain K' where "fill_changes map_store ts table (Suc n) cs K1 = Inr (ds, K')" "rel s' K'" by blast
  then show ?case using K1(1) step(3) by auto
qed auto

end

text \<open>The TOAST state provides the store: the rows of one table, without their positions.\<close>

definition toast_known :: "(cell list \<Rightarrow> int) \<Rightarrow> string \<Rightarrow> toast_state \<Rightarrow> (string \<rightharpoonup> cell list) \<Rightarrow> bool" where
  "toast_known est table s K \<longleftrightarrow> (\<forall>v. 0 \<le> est v) \<and>
     (\<exists>A. toast_rel s A \<and> K = (\<lambda>k. map_option fst (A (table, k))))"

lemma lift_toast_Inr [simp]: "lift_toast r = Inr x \<longleftrightarrow> r = Inr x"
  by (cases r) (simp_all add: lift_toast_def)

interpretation toast: known_store "toast_store est fails table" "toast_known est table"
  for est fails table
proof
  fix s s' :: toast_state and K k v and l :: lsn
  assume rel: "toast_known est table s K"
  then obtain A where A: "\<forall>v. 0 \<le> est v" "toast_rel s A" "K = (\<lambda>k. map_option fst (A (table, k)))"
    by (auto simp: toast_known_def)
  show "v = known_values K k \<and> toast_known est table s' K"
    if "rs_get (toast_store est fails table) s k = Inr (v, s')"
    using toast_get_rel [OF A(2), of fails table k v s'] that A
    by (auto simp: toast_store_def toast_known_def known_values_def spec_values_def split: option.splits)
  show "toast_known est table s' (K(k \<mapsto> v))"
    if "rs_put (toast_store est fails table) s k v l = Inr s'"
    using toast_put_rel [OF A(2,1), of fails table k v l s'] that A
    by (auto simp: toast_store_def toast_known_def fun_eq_iff intro!: exI [of _ "A((table, k) \<mapsto> (v, l))"])
  show "toast_known est table s' (K(k := None))"
    if "rs_delete (toast_store est fails table) s k = Inr s'"
    using toast_delete_rel [OF A(2), of fails table k s'] that A
    by (auto simp: toast_store_def toast_known_def fun_eq_iff intro!: exI [of _ "A((table, k) := None)"])
qed

end
