(* ===== verification/Cdc_Fill.thy ===== *)
theory Cdc_Fill
  imports Cdc_Values
begin

text \<open>
  The correctness of \<open>fillUnchangedColumns\<close> over a history of the source table: the filled
  changes carry the rows' values, what stays marked did not change since the window began, and
  what the TOAST state knows stays true. The steps are proved over the store that is a plain
  map; the TOAST state refines it (\<open>toast.fill_changes_refine\<close>).
\<close>

subsection \<open>Keys survive the loop\<close>

lemma key_parts_cong:
  "(\<And>i. i \<in> set ks \<Longrightarrow> key_part vs olds i = key_part vs' olds' i) \<Longrightarrow>
   key_parts vs olds ks = key_parts vs' olds' ks"
  by (induction ks) (auto split: option.splits)

lemma key_parts_SomeD: "key_parts vs olds ks \<noteq> None \<Longrightarrow> i \<in> set ks \<Longrightarrow> key_part vs olds i \<noteq> None"
  by (induction ks) (auto split: option.splits)

text \<open>A change that says which row it is about, and for a moved row which row it was about.\<close>

definition has_keys :: "nat list \<Rightarrow> change \<Rightarrow> bool" where
  "has_keys ks c \<longleftrightarrow> key_parts (ch_values c) (old_values c) ks \<noteq> None \<and>
     (pk_value_changed c ks \<longrightarrow> key_parts (old_values c) (old_values c) ks \<noteq> None)"

definition store_key :: "nat list \<Rightarrow> change \<Rightarrow> string" where
  "store_key ks c = encode_key_parts (the (key_parts (ch_values c) (old_values c) ks))"

definition lookup_key :: "nat list \<Rightarrow> change \<Rightarrow> string" where
  "lookup_key ks c =
     (if pk_value_changed c ks then encode_key_parts (the (key_parts (old_values c) (old_values c) ks))
      else store_key ks c)"

lemma pk_key_has_key:
  "key_parts vs olds ks \<noteq> None \<Longrightarrow> pk_key_from_row vs olds ks n = encode_key_parts (the (key_parts vs olds ks))"
  by (auto simp: pk_key_from_row_def)

lemma fill_state_keys_has_keys:
  "has_keys ks c \<Longrightarrow> fill_state_keys c ks n = (lookup_key ks c, store_key ks c)"
  by (auto simp: fill_state_keys_def has_keys_def lookup_key_def store_key_def pk_key_has_key Let_def
      pk_value_changed_def)

lemma filled_key_cell:
  assumes "key_part (ch_values c) (old_values c) i \<noteq> None"
  shows "column_value_at (ch_values (fill_columns prior n c)) i =
    (if column_is_unchanged c i \<and> i < n then column_value_at (old_values c) i
     else column_value_at (ch_values c) i)"
proof (cases "column_is_unchanged c i \<and> i < n")
  case True
  then have i: "i < length (ch_values c)" "is_tuple_unchanged (ch_values c ! i)" "ch_op c = UPDATE"
    by (auto simp: column_is_unchanged_def)
  then obtain t x where old: "column_value_at (old_values c) i = CVal t x"
    using assms by (auto simp: key_part_def column_value_at_def Let_def split: cell.splits if_splits)
  then have "i < length (old_values c)" "old_values c ! i = CVal t x"
    by (auto simp: column_value_at_def split: if_splits)
  then have "resolve_column_value_base c i = CVal t x"
    using i by (simp add: resolve_column_value_base_def column_value_at_def)
  then show ?thesis
    using True i old by (simp add: column_value_at_def keeps fill_columns_values filled_cell_def)
next
  case False
  then show ?thesis
    by (auto simp: column_value_at_def keeps fill_columns_values filled_cell_def)
qed

lemma key_part_fill:
  assumes "key_part (ch_values c) (old_values c) i \<noteq> None"
  shows "key_part (ch_values (fill_columns prior n c)) (old_values c) i = key_part (ch_values c) (old_values c) i"
  unfolding key_part_def filled_key_cell [OF assms]
  by (auto simp: Let_def column_is_unchanged_def column_value_at_def)

lemma pk_value_changed_fill:
  assumes "key_parts (ch_values c) (old_values c) ks \<noteq> None"
  shows "pk_value_changed (fill_columns prior n c) ks = pk_value_changed c ks"
proof -
  have "\<not> is_tuple_unchanged (column_value_at (ch_values (fill_columns prior n c)) i) \<and>
      fmt_v (column_value_at (old_values c) i) \<noteq> fmt_v (column_value_at (ch_values (fill_columns prior n c)) i) \<longleftrightarrow>
    \<not> is_tuple_unchanged (column_value_at (ch_values c) i) \<and>
      fmt_v (column_value_at (old_values c) i) \<noteq> fmt_v (column_value_at (ch_values c) i)"
    if "i \<in> set ks" for i
    unfolding filled_key_cell [OF key_parts_SomeD [OF assms that]]
    by (auto simp: column_is_unchanged_def column_value_at_def)
  then show ?thesis by (auto simp: pk_value_changed_def keeps list_ex_iff)
qed

lemma keys_fill:
  assumes "has_keys ks c"
  shows "has_keys ks (fill_columns prior n c)"
    "store_key ks (fill_columns prior n c) = store_key ks c"
    "lookup_key ks (fill_columns prior n c) = lookup_key ks c"
proof -
  have some: "key_parts (ch_values c) (old_values c) ks \<noteq> None" using assms by (simp add: has_keys_def)
  have "key_parts (ch_values (fill_columns prior n c)) (old_values c) ks =
      key_parts (ch_values c) (old_values c) ks"
    using key_parts_SomeD [OF some] by (intro key_parts_cong key_part_fill)
  then show "has_keys ks (fill_columns prior n c)"
    "store_key ks (fill_columns prior n c) = store_key ks c"
    "lookup_key ks (fill_columns prior n c) = lookup_key ks c"
    using assms by (simp_all add: has_keys_def store_key_def lookup_key_def
        pk_value_changed_fill [OF some])
qed

subsection \<open>The source table behind the changes\<close>

text \<open>
  A source table maps a row's key to the row. An event is a decoded change with the full row it
  leaves behind, whose key columns have values. It fits the table when the change says what
  PostgreSQL sends: an INSERT all values; an UPDATE every value it does not mark, the marked ones
  being TOAST columns the statement did not touch; an old tuple nothing but values the row had;
  a DELETE the key and no second tuple.
\<close>

type_synonym source_rows = "string \<rightharpoonup> cell list"

definition pk_of :: "table_schema \<Rightarrow> nat list" where
  "pk_of ts = pk_column_indices (ts_columns ts) (ts_primary_keys ts)"

definition complete_row :: "table_schema \<Rightarrow> cell list \<Rightarrow> bool" where
  "complete_row ts row \<longleftrightarrow> length row = source_column_count ts \<and> (\<forall>v \<in> set row. \<not> is_tuple_unchanged v) \<and>
     (\<forall>i \<in> set (pk_of ts). row ! i \<noteq> CNull)"

definition update_fits :: "table_schema \<Rightarrow> cell list \<Rightarrow> change \<Rightarrow> cell list \<Rightarrow> bool" where
  "update_fits ts before c row \<longleftrightarrow>
     length (ch_values c) = source_column_count ts \<and>
     (\<forall>i < source_column_count ts.
        (if is_tuple_unchanged (ch_values c ! i) then toastable_columns ts ! i \<and> row ! i = before ! i
         else ch_values c ! i = row ! i) \<and>
        (i < length (old_values c) \<longrightarrow> old_values c ! i = CNull \<or> is_tuple_unchanged (old_values c ! i) \<or>
           old_values c ! i = before ! i))"

definition event_fits :: "table_schema \<Rightarrow> source_rows \<Rightarrow> change \<times> cell list \<Rightarrow> bool" where
  "event_fits ts D = (\<lambda>(c, row). has_keys (pk_of ts) c \<and>
     (case ch_op c of
        INSERT \<Rightarrow> complete_row ts row \<and> ch_values c = row
      | UPDATE \<Rightarrow> complete_row ts row \<and>
          (case D (lookup_key (pk_of ts) c) of None \<Rightarrow> False | Some before \<Rightarrow> update_fits ts before c row)
      | DELETE \<Rightarrow> ch_old c = None
      | TRUNCATE \<Rightarrow> False))"

definition source_apply :: "table_schema \<Rightarrow> change \<times> cell list \<Rightarrow> source_rows \<Rightarrow> source_rows" where
  "source_apply ts = (\<lambda>(c, row) D.
     (case ch_op c of
        DELETE \<Rightarrow> D(store_key (pk_of ts) c := None)
      | TRUNCATE \<Rightarrow> Map.empty
      | _ \<Rightarrow> D(lookup_key (pk_of ts) c := None, store_key (pk_of ts) c \<mapsto> row)))"

fun history_fits :: "table_schema \<Rightarrow> source_rows \<Rightarrow> (change \<times> cell list) list \<Rightarrow> bool" where
  "history_fits ts D [] \<longleftrightarrow> True"
| "history_fits ts D (e # es) \<longleftrightarrow> event_fits ts D e \<and> history_fits ts (source_apply ts e D) es"

definition source_run :: "table_schema \<Rightarrow> (change \<times> cell list) list \<Rightarrow> source_rows \<Rightarrow> source_rows" where
  "source_run ts es D = fold (source_apply ts) es D"

text \<open>What is known of a row is true of it, and known of TOAST columns only.\<close>

definition known_sound :: "table_schema \<Rightarrow> source_rows \<Rightarrow> (string \<rightharpoonup> cell list) \<Rightarrow> bool" where
  "known_sound ts D K \<longleftrightarrow>
     (\<forall>k v i. K k = Some v \<longrightarrow> i < length v \<longrightarrow> \<not> is_tuple_unchanged (v ! i) \<longrightarrow>
        i < source_column_count ts \<and> toastable_columns ts ! i \<and> (\<exists>row. D k = Some row \<and> v ! i = row ! i))"

text \<open>A TOAST column that is not known has kept its value since the window began.\<close>

definition known_complete :: "table_schema \<Rightarrow> source_rows \<Rightarrow> source_rows \<Rightarrow> (string \<rightharpoonup> cell list) \<Rightarrow> bool" where
  "known_complete ts D0 D K \<longleftrightarrow>
     (\<forall>k row i. D k = Some row \<longrightarrow> i < source_column_count ts \<longrightarrow> toastable_columns ts ! i \<longrightarrow>
        i < length (known_values K k) \<and> \<not> is_tuple_unchanged (known_values K k ! i) \<or>
        (\<exists>row0. D0 k = Some row0 \<and> row0 ! i = row ! i))"

text \<open>A filled change: a cell it still marks is as it was when the window began.\<close>

definition filled_fits :: "table_schema \<Rightarrow> source_rows \<Rightarrow> change \<Rightarrow> cell list \<Rightarrow> bool" where
  "filled_fits ts D0 c row \<longleftrightarrow> has_keys (pk_of ts) c \<and>
     (case ch_op c of
        DELETE \<Rightarrow> ch_old c = None | TRUNCATE \<Rightarrow> False
      | _ \<Rightarrow> complete_row ts row \<and> length (ch_values c) = source_column_count ts \<and>
          (\<forall>i < source_column_count ts.
             if is_tuple_unchanged (ch_values c ! i)
             then ch_op c = UPDATE \<and> \<not> pk_value_changed c (pk_of ts) \<and> toastable_columns ts ! i \<and>
               (\<exists>row0. D0 (store_key (pk_of ts) c) = Some row0 \<and> row0 ! i = row ! i)
             else ch_values c ! i = row ! i))"

lemma length_toastable [simp]: "length (toastable_columns ts) = source_column_count ts"
  by (simp add: toastable_columns_def source_column_count_def)

lemma length_next_known [simp]: "length (next_known tb prior c) = length tb"
  by (simp add: next_known_def)

text \<open>The pure outcome of one iteration.\<close>

lemma fill_change_map:
  assumes "has_keys (pk_of ts) c" "fill_change map_store ts table n c K = Inr (c', K')"
  defines "prior \<equiv> known_values K (lookup_key (pk_of ts) c)"
  defines "K1 \<equiv> K(lookup_key (pk_of ts) c := None)"
  shows "c' = fill_columns prior (source_column_count ts) c"
    and "check_moved_row ts table (pk_of ts) c' = Inr ()"
    and "K' = (if ch_op c = DELETE then K1(store_key (pk_of ts) c := None)
               else K1(store_key (pk_of ts) c \<mapsto> next_known (toastable_columns ts) prior c'))"
  using assms(2) fill_state_keys_has_keys [OF assms(1), of n]
  by (auto simp: fill_change_def pk_of_def [symmetric] Let_def map_store_def bind_result_Inr_iff keeps
      prior_def K1_def split: if_splits)

lemma moved_row_complete:
  assumes "check_moved_row ts table ks c = Inr ()" "pk_value_changed c ks" "i < source_column_count ts"
  shows "\<not> column_is_unchanged c i"
proof -
  have "filter (column_is_unchanged c) [0..<source_column_count ts] = []"
    using assms(1,2) by (simp add: check_moved_row_def split: list.splits)
  then show ?thesis using assms(3) by (simp add: filter_empty_conv)
qed

subsection \<open>One iteration keeps the invariants\<close>

lemma known_values_upd [simp]:
  "known_values (K(k \<mapsto> v)) k = v" "known_values (K(k := None)) k = []"
  "k' \<noteq> k \<Longrightarrow> known_values (K(k := w)) k' = known_values K k'"
  by (simp_all add: known_values_def)

lemma put_keeps_known:
  assumes "known_sound ts D K" "known_complete ts D0 D K"
    and len: "length w = source_column_count ts"
    and cells: "\<And>i. i < source_column_count ts \<Longrightarrow>
      (\<not> is_tuple_unchanged (w ! i) \<longrightarrow> toastable_columns ts ! i \<and> w ! i = row ! i) \<and>
      (toastable_columns ts ! i \<and> is_tuple_unchanged (w ! i) \<longrightarrow>
        (\<exists>row0. D0 st = Some row0 \<and> row0 ! i = row ! i))"
  shows "known_sound ts (D(lk := None, st \<mapsto> row)) (K(lk := None, st \<mapsto> w))"
    and "known_complete ts D0 (D(lk := None, st \<mapsto> row)) (K(lk := None, st \<mapsto> w))"
proof -
  show "known_sound ts (D(lk := None, st \<mapsto> row)) (K(lk := None, st \<mapsto> w))"
    unfolding known_sound_def
  proof (intro allI impI)
    fix k v i
    assume k: "(K(lk := None, st \<mapsto> w)) k = Some v" and i: "i < length v" "\<not> is_tuple_unchanged (v ! i)"
    show "i < source_column_count ts \<and> toastable_columns ts ! i \<and>
        (\<exists>r. (D(lk := None, st \<mapsto> row)) k = Some r \<and> v ! i = r ! i)"
    proof (cases "k = st")
      case True
      then show ?thesis using k i len cells [of i] by auto
    next
      case False
      then have "k \<noteq> lk" "K k = Some v" using k by (auto split: if_splits)
      then show ?thesis using False i assms(1) unfolding known_sound_def by auto
    qed
  qed
  show "known_complete ts D0 (D(lk := None, st \<mapsto> row)) (K(lk := None, st \<mapsto> w))"
    unfolding known_complete_def
  proof (intro allI impI)
    fix k r i
    assume k: "(D(lk := None, st \<mapsto> row)) k = Some r"
      and i: "i < source_column_count ts" "toastable_columns ts ! i"
    show "i < length (known_values (K(lk := None, st \<mapsto> w)) k) \<and>
          \<not> is_tuple_unchanged (known_values (K(lk := None, st \<mapsto> w)) k ! i) \<or>
        (\<exists>row0. D0 k = Some row0 \<and> row0 ! i = r ! i)"
    proof (cases "k = st")
      case True
      then show ?thesis using k i len cells [of i] by auto
    next
      case False
      then have "k \<noteq> lk" "D k = Some r" using k by (auto split: if_splits)
      then show ?thesis using False i assms(2) unfolding known_complete_def by auto
    qed
  qed
qed

lemma delete_keeps_known:
  assumes "known_sound ts D K" "known_complete ts D0 D K"
  shows "known_sound ts (D(k := None)) (K(k := None))" "known_complete ts D0 (D(k := None)) (K(k := None))"
proof -
  show "known_sound ts (D(k := None)) (K(k := None))"
    using assms(1) unfolding known_sound_def by (auto split: if_splits)
  show "known_complete ts D0 (D(k := None)) (K(k := None))"
    unfolding known_complete_def
  proof (intro allI impI)
    fix k' r i
    assume "(D(k := None)) k' = Some r" "i < source_column_count ts" "toastable_columns ts ! i"
    moreover from this have "k' \<noteq> k" by (auto split: if_splits)
    ultimately show "i < length (known_values (K(k := None)) k') \<and>
          \<not> is_tuple_unchanged (known_values (K(k := None)) k' ! i) \<or>
        (\<exists>row0. D0 k' = Some row0 \<and> row0 ! i = r ! i)"
      using assms(2) unfolding known_complete_def by auto
  qed
qed

text \<open>The cell stored for a column once the change is filled: the cell of the change if it has a
  value and the column is a TOAST column, nothing otherwise.\<close>

lemma filled_marker:
  assumes "is_tuple_unchanged (filled_cell prior c i)" "i < length (ch_values c)"
    and "is_tuple_unchanged (ch_values c ! i) \<Longrightarrow> ch_op c = UPDATE"
  shows "column_is_unchanged c i" "resolve_column_value_base c i = CNull"
    "i < length prior \<Longrightarrow> is_tuple_unchanged (prior ! i)" "filled_cell prior c i = ch_values c ! i"
proof -
  have "is_tuple_unchanged (ch_values c ! i)"
    using assms(1) resolve_not_marker [of c i] by (auto simp: filled_cell_def split: if_splits)
  then show u: "column_is_unchanged c i" using assms by (simp add: column_is_unchanged_def)
  show b: "resolve_column_value_base c i = CNull"
    using assms(1) u resolve_not_marker [of c i] by (auto simp: filled_cell_def split: if_splits)
  show "i < length prior \<Longrightarrow> is_tuple_unchanged (prior ! i)" "filled_cell prior c i = ch_values c ! i"
    using assms(1) u b by (auto simp: filled_cell_def split: if_splits)
qed

lemma next_known_nth:
  assumes i: "i < length tb" "i < length (ch_values c)"
    and upd: "is_tuple_unchanged (ch_values c ! i) \<Longrightarrow> ch_op c = UPDATE"
    and prior: "i < length prior \<Longrightarrow> \<not> tb ! i \<Longrightarrow> is_tuple_unchanged (prior ! i)"
  defines "c' \<equiv> fill_columns prior (length tb) c"
  shows "\<not> is_tuple_unchanged (next_known tb prior c' ! i) \<Longrightarrow>
      tb ! i \<and> next_known tb prior c' ! i = ch_values c' ! i"
    and "tb ! i \<Longrightarrow> is_tuple_unchanged (next_known tb prior c' ! i) \<Longrightarrow> is_tuple_unchanged (ch_values c' ! i)"
proof -
  have cell: "ch_values c' ! i = filled_cell prior c i" and len: "i < length (ch_values c')"
    using i by (simp_all add: c'_def fill_columns_values keeps)
  have nth: "next_known tb prior c' ! i =
      (if tb ! i \<and> column_is_authoritative c' i then resolve_column_value c' i
       else if i < length prior then prior ! i else CMarker False)"
    using i by (simp add: next_known_def)
  have known: "column_is_authoritative c' i \<and> resolve_column_value c' i = ch_values c' ! i"
    if "\<not> is_tuple_unchanged (ch_values c' ! i)"
    using that len by (simp add: column_is_authoritative_def column_is_unchanged_def resolve_column_value_def
        resolve_column_value_base_def column_value_at_def)
  have unknown: "\<not> column_is_authoritative c' i \<and> (i < length prior \<longrightarrow> is_tuple_unchanged (prior ! i))"
    if "is_tuple_unchanged (ch_values c' ! i)"
  proof -
    have m: "is_tuple_unchanged (filled_cell prior c i)" using that cell by simp
    note fm = filled_marker [OF m i(2) upd]
    have "resolve_column_value_base c' i = resolve_column_value_base c i"
      using fm(4) cell i(2) len
      by (simp add: resolve_column_value_base_def column_value_at_def c'_def keeps Let_def)
    moreover have "column_is_unchanged c' i"
      using that fm(1) len by (simp add: column_is_unchanged_def c'_def keeps)
    ultimately show ?thesis using fm by (simp add: column_is_authoritative_def)
  qed
  show "\<not> is_tuple_unchanged (next_known tb prior c' ! i) \<Longrightarrow>
      tb ! i \<and> next_known tb prior c' ! i = ch_values c' ! i"
    using known unknown prior nth by (auto split: if_splits)
  show "tb ! i \<Longrightarrow> is_tuple_unchanged (next_known tb prior c' ! i) \<Longrightarrow> is_tuple_unchanged (ch_values c' ! i)"
    using known nth by (cases "is_tuple_unchanged (ch_values c' ! i)") simp_all
qed

lemma known_sound_prior:
  assumes "known_sound ts D K" "i < length (known_values K k)" "\<not> is_tuple_unchanged (known_values K k ! i)"
  shows "i < source_column_count ts \<and> toastable_columns ts ! i \<and>
    (\<exists>row. D k = Some row \<and> known_values K k ! i = row ! i)"
  using assms unfolding known_sound_def known_values_def by (auto split: option.splits)

text \<open>A filled UPDATE has the row's values, and marks only what was the same in the row before.\<close>

lemma filled_update_cell:
  assumes fits: "update_fits ts before c row" "ch_op c = UPDATE" and i: "i < source_column_count ts"
    and known: "known_sound ts D K" "D k = Some before"
  shows "if is_tuple_unchanged (filled_cell (known_values K k) c i)
    then toastable_columns ts ! i \<and> row ! i = before ! i \<and>
      \<not> (i < length (known_values K k) \<and> \<not> is_tuple_unchanged (known_values K k ! i))
    else filled_cell (known_values K k) c i = row ! i"
proof -
  have len: "i < length (ch_values c)" using fits(1) i by (simp add: update_fits_def)
  have cell: "if is_tuple_unchanged (ch_values c ! i) then toastable_columns ts ! i \<and> row ! i = before ! i
      else ch_values c ! i = row ! i"
    and old: "i < length (old_values c) \<Longrightarrow> old_values c ! i = CNull \<or> is_tuple_unchanged (old_values c ! i) \<or>
      old_values c ! i = before ! i"
    using fits(1) i by (simp_all add: update_fits_def)
  show ?thesis
  proof (cases "is_tuple_unchanged (ch_values c ! i)")
    case False
    then show ?thesis using cell by (simp add: filled_cell_def column_is_unchanged_def)
  next
    case True
    then have u: "column_is_unchanged c i" using fits(2) len by (simp add: column_is_unchanged_def)
    have base: "resolve_column_value_base c i \<noteq> CNull \<Longrightarrow> resolve_column_value_base c i = before ! i"
      using True old len by (auto simp: resolve_column_value_base_def column_value_at_def Let_def split: if_splits)
    have "known_values K k ! i = before ! i"
      if "i < length (known_values K k)" "\<not> is_tuple_unchanged (known_values K k ! i)"
      using known_sound_prior [OF known(1) that] known(2) by auto
    then show ?thesis
      using True u cell base resolve_not_marker [of c i] by (auto simp: filled_cell_def)
  qed
qed

text \<open>The three kinds of iterations.\<close>

lemma fill_put_step:
  assumes step: "fill_change map_store ts table n c K = Inr (c', K')" "ch_op c \<noteq> DELETE"
    and keys: "has_keys (pk_of ts) c"
    and sound: "known_sound ts D K" and complete: "known_complete ts D0 D K"
    and len: "length (ch_values c) = source_column_count ts"
    and upd: "\<And>i. i < source_column_count ts \<Longrightarrow> is_tuple_unchanged (ch_values c ! i) \<Longrightarrow> ch_op c = UPDATE"
    and cells: "\<And>i. i < source_column_count ts \<Longrightarrow>
      if is_tuple_unchanged (ch_values c' ! i)
      then toastable_columns ts ! i \<and> (\<exists>row0. D0 (store_key (pk_of ts) c) = Some row0 \<and> row0 ! i = row ! i)
      else ch_values c' ! i = row ! i"
  shows "known_sound ts (D(lookup_key (pk_of ts) c := None, store_key (pk_of ts) c \<mapsto> row)) K' \<and>
    known_complete ts D0 (D(lookup_key (pk_of ts) c := None, store_key (pk_of ts) c \<mapsto> row)) K'"
proof -
  define prior where "prior = known_values K (lookup_key (pk_of ts) c)"
  define w where "w = next_known (toastable_columns ts) prior c'"
  have c': "c' = fill_columns prior (length (toastable_columns ts)) c"
    and K': "K' = K(lookup_key (pk_of ts) c := None, store_key (pk_of ts) c \<mapsto> w)"
    using fill_change_map [OF keys step(1)] step(2) by (simp_all add: prior_def w_def)
  have "(\<not> is_tuple_unchanged (w ! i) \<longrightarrow> toastable_columns ts ! i \<and> w ! i = row ! i) \<and>
      (toastable_columns ts ! i \<and> is_tuple_unchanged (w ! i) \<longrightarrow>
        (\<exists>row0. D0 (store_key (pk_of ts) c) = Some row0 \<and> row0 ! i = row ! i))"
    if i: "i < source_column_count ts" for i
  proof -
    have pr: "is_tuple_unchanged (prior ! i)" if "i < length prior" "\<not> toastable_columns ts ! i"
      using known_sound_prior [OF sound] that by (auto simp: prior_def)
    have i': "i < length (toastable_columns ts)" "i < length (ch_values c)" using i len by simp_all
    note nk = next_known_nth [OF i' upd [OF i] pr, folded c', folded w_def]
    show ?thesis
    proof (cases "is_tuple_unchanged (w ! i)")
      case True
      then show ?thesis using nk(2) cells [OF i] by auto
    next
      case False
      have "\<not> is_tuple_unchanged (ch_values c' ! i)" using nk(1) False by metis
      then show ?thesis using nk(1) False cells [OF i] by simp
    qed
  qed
  then show ?thesis
    using put_keeps_known [OF sound complete, where w = w and row = row
        and st = "store_key (pk_of ts) c" and lk = "lookup_key (pk_of ts) c"]
    by (simp add: K' w_def)
qed

lemma insert_keys: "ch_op c \<noteq> UPDATE \<Longrightarrow> \<not> pk_value_changed c ks"
  by (simp add: pk_value_changed_def)

lemma complete_row_nth: "complete_row ts row \<Longrightarrow> i < source_column_count ts \<Longrightarrow> \<not> is_tuple_unchanged (row ! i)"
  by (simp add: complete_row_def)

lemma fill_step:
  assumes fits: "event_fits ts D (c, row)"
    and sound: "known_sound ts D K" and complete: "known_complete ts D0 D K"
    and step: "fill_change map_store ts table n c K = Inr (c', K')"
  shows "filled_fits ts D0 c' row \<and> known_sound ts (source_apply ts (c, row) D) K' \<and>
    known_complete ts D0 (source_apply ts (c, row) D) K' \<and>
    source_apply ts (c', row) = source_apply ts (c, row)"
proof -
  have keys: "has_keys (pk_of ts) c" using fits by (simp add: event_fits_def)
  define prior where "prior = known_values K (lookup_key (pk_of ts) c)"
  have c': "c' = fill_columns prior (source_column_count ts) c"
    and chk: "check_moved_row ts table (pk_of ts) c' = Inr ()"
    using fill_change_map [OF keys step] by (simp_all add: prior_def)
  have keep: "has_keys (pk_of ts) c'" "store_key (pk_of ts) c' = store_key (pk_of ts) c"
      "lookup_key (pk_of ts) c' = lookup_key (pk_of ts) c" "ch_op c' = ch_op c"
    using keys_fill [OF keys] by (simp_all add: c' keeps)
  have same: "source_apply ts (c', row) = source_apply ts (c, row)"
    unfolding source_apply_def prod.case keep ..
  have length_fill: "length (ch_values c') = length (ch_values c)" by (simp add: c' keeps)
  show ?thesis
  proof (cases "ch_op c")
    case TRUNCATE
    then show ?thesis using fits by (simp add: event_fits_def)
  next
    case DELETE
    have "lookup_key (pk_of ts) c = store_key (pk_of ts) c"
      using DELETE by (simp add: lookup_key_def insert_keys)
    then have "K' = K(store_key (pk_of ts) c := None)"
      using fill_change_map [OF keys step] DELETE by simp
    then show ?thesis
      using delete_keeps_known [OF sound complete] DELETE keep same fits
      by (simp add: source_apply_def filled_fits_def event_fits_def c' keeps)
  next
    case INSERT
    have row: "complete_row ts row" "ch_values c = row"
      using fits INSERT by (simp_all add: event_fits_def)
    have cell: "ch_values c' ! i = row ! i \<and> \<not> is_tuple_unchanged (row ! i)" if "i < source_column_count ts" for i
      using that row complete_row_nth [OF row(1) that] INSERT
      by (simp add: c' fill_columns_values filled_cell_def column_is_unchanged_def complete_row_def)
    have len: "length (ch_values c) = source_column_count ts" using row by (simp add: complete_row_def)
    have "source_apply ts (c, row) D = D(lookup_key (pk_of ts) c := None, store_key (pk_of ts) c \<mapsto> row)"
      using INSERT by (simp add: source_apply_def)
    moreover have "known_sound ts (D(lookup_key (pk_of ts) c := None, store_key (pk_of ts) c \<mapsto> row)) K' \<and>
      known_complete ts D0 (D(lookup_key (pk_of ts) c := None, store_key (pk_of ts) c \<mapsto> row)) K'"
      by (rule fill_put_step [OF step _ keys sound complete len])
        (simp_all add: INSERT cell row(2) complete_row_nth [OF row(1)])
    moreover have "filled_fits ts D0 c' row"
      using INSERT keep(1,4) row(1) cell len by (simp add: filled_fits_def c' keeps)
    ultimately show ?thesis using same by simp
  next
    case UPDATE
    obtain before where before: "D (lookup_key (pk_of ts) c) = Some before" "update_fits ts before c row"
        "complete_row ts row"
      using fits UPDATE by (auto simp: event_fits_def split: option.splits)
    have len: "length (ch_values c) = source_column_count ts" using before(2) by (simp add: update_fits_def)
    have cell: "if is_tuple_unchanged (ch_values c' ! i)
      then \<not> pk_value_changed c (pk_of ts) \<and> toastable_columns ts ! i \<and>
        (\<exists>row0. D0 (store_key (pk_of ts) c) = Some row0 \<and> row0 ! i = row ! i)
      else ch_values c' ! i = row ! i" if i: "i < source_column_count ts" for i
    proof -
      have fc: "ch_values c' ! i = filled_cell prior c i" using i len by (simp add: c' fill_columns_values)
      note fu = filled_update_cell [OF before(2) UPDATE i sound before(1), folded prior_def, folded fc]
      show ?thesis
      proof (cases "is_tuple_unchanged (ch_values c' ! i)")
        case True
        have "\<not> pk_value_changed c' (pk_of ts)"
          using moved_row_complete [OF chk _ i] True UPDATE i len keep(4)
          by (auto simp: column_is_unchanged_def c' keeps)
        then have np: "\<not> pk_value_changed c (pk_of ts)"
          using keys pk_value_changed_fill by (auto simp: c' has_keys_def)
        then have "lookup_key (pk_of ts) c = store_key (pk_of ts) c" by (simp add: lookup_key_def)
        then have "\<exists>row0. D0 (store_key (pk_of ts) c) = Some row0 \<and> row0 ! i = before ! i"
          using complete [unfolded known_complete_def] before(1) i fu True by (auto simp: prior_def)
        then show ?thesis using True np fu by simp
      next
        case False
        then show ?thesis using fu by simp
      qed
    qed
    have "source_apply ts (c, row) D = D(lookup_key (pk_of ts) c := None, store_key (pk_of ts) c \<mapsto> row)"
      using UPDATE by (simp add: source_apply_def)
    moreover have "known_sound ts (D(lookup_key (pk_of ts) c := None, store_key (pk_of ts) c \<mapsto> row)) K' \<and>
      known_complete ts D0 (D(lookup_key (pk_of ts) c := None, store_key (pk_of ts) c \<mapsto> row)) K'"
    proof (rule fill_put_step [OF step _ keys sound complete len])
      show "if is_tuple_unchanged (ch_values c' ! i)
        then toastable_columns ts ! i \<and> (\<exists>row0. D0 (store_key (pk_of ts) c) = Some row0 \<and> row0 ! i = row ! i)
        else ch_values c' ! i = row ! i" if "i < source_column_count ts" for i
        using cell [OF that] by (simp split: if_splits)
    qed (simp_all add: UPDATE)
    moreover have "filled_fits ts D0 c' row"
    proof -
      have "pk_value_changed c' (pk_of ts) = pk_value_changed c (pk_of ts)"
        using keys pk_value_changed_fill by (auto simp: c' has_keys_def)
      then show ?thesis
        using UPDATE keep before(3) len cell by (simp add: filled_fits_def length_fill)
    qed
    ultimately show ?thesis using same by simp
  qed
qed

subsection \<open>The whole window\<close>

definition same_position :: "change \<Rightarrow> change \<Rightarrow> bool" where
  "same_position c d \<longleftrightarrow> ch_op c = ch_op d \<and> ch_lsn c = ch_lsn d \<and> ch_seq c = ch_seq d \<and> ch_old c = ch_old d"

text \<open>A filled change and the event it was decoded from.\<close>

definition fill_result :: "table_schema \<Rightarrow> source_rows \<Rightarrow> change \<Rightarrow> change \<times> cell list \<Rightarrow> bool" where
  "fill_result ts D0 c' e \<longleftrightarrow> filled_fits ts D0 c' (snd e) \<and> same_position c' (fst e) \<and>
     source_apply ts (c', snd e) = source_apply ts e"

lemma fill_window:
  assumes "history_fits ts D es" "known_sound ts D K" "known_complete ts D0 D K"
    and "fill_changes map_store ts table n (map fst es) K = Inr (cs', K')"
  shows "list_all2 (fill_result ts D0) cs' es \<and> known_sound ts (source_run ts es D) K' \<and>
    known_complete ts D0 (source_run ts es D) K'"
  using assms
proof (induction es arbitrary: n D K cs')
  case Nil
  then show ?case by (simp add: source_run_def)
next
  case (Cons e es)
  obtain c row where e: "e = (c, row)" by (cases e)
  obtain c1 K1 ds where step: "fill_change map_store ts table n c K = Inr (c1, K1)"
      "fill_changes map_store ts table (Suc n) (map fst es) K1 = Inr (ds, K')" "cs' = c1 # ds"
    using Cons.prems(4) by (auto simp: e bind_result_Inr_iff)
  have fits: "event_fits ts D (c, row)" "history_fits ts (source_apply ts (c, row) D) es"
    using Cons.prems(1) by (simp_all add: e)
  note fs = fill_step [OF fits(1) Cons.prems(2,3) step(1)]
  have "same_position c1 c"
    using fill_change_map(1) [OF _ step(1)] fits(1) by (simp add: same_position_def keeps event_fits_def)
  then have "fill_result ts D0 c1 e" using fs by (simp add: fill_result_def e)
  then show ?case
    using Cons.IH [OF fits(2) _ _ step(2)] fs step(3) by (simp add: source_run_def e)
qed

lemma known_complete_start: "known_complete ts D D K"
  by (simp add: known_complete_def)

text \<open>Without a TOAST column nothing is ever marked, and nothing is ever known.\<close>

lemma no_toast_event:
  assumes "event_fits ts D (c, row)" "\<not> list_ex id (toastable_columns ts)"
  shows "fill_result ts D0 c (c, row)"
proof -
  have nt: "\<not> toastable_columns ts ! i" if "i < source_column_count ts" for i
    using assms(2) that by (metis id_apply length_toastable list_ex_length)
  have "filled_fits ts D0 c row"
  proof (cases "ch_op c")
    case INSERT
    then show ?thesis using assms(1) complete_row_nth by (auto simp: event_fits_def filled_fits_def complete_row_def)
  next
    case UPDATE
    then obtain before where "update_fits ts before c row" "complete_row ts row" "has_keys (pk_of ts) c"
      using assms(1) by (auto simp: event_fits_def split: option.splits)
    moreover from this(1) have "\<not> is_tuple_unchanged (ch_values c ! i) \<and> ch_values c ! i = row ! i"
      if "i < source_column_count ts" for i
      using that nt [OF that] by (auto simp: update_fits_def split: if_splits)
    ultimately show ?thesis using UPDATE complete_row_nth [of ts row] by (auto simp: filled_fits_def update_fits_def)
  qed (use assms(1) in \<open>simp_all add: event_fits_def filled_fits_def\<close>)
  then show ?thesis by (simp add: fill_result_def same_position_def)
qed

lemma no_toast_window:
  assumes "history_fits ts D es" "\<not> list_ex id (toastable_columns ts)"
  shows "list_all2 (fill_result ts D0) (map fst es) es"
  using assms(1)
proof (induction es arbitrary: D)
  case (Cons e es)
  then show ?case
    using no_toast_event [OF _ assms(2), of D "fst e" "snd e" D0] Cons.IH [of "source_apply ts e D"] by simp
qed simp

lemma no_toast_known:
  assumes "known_sound ts D K" "\<not> list_ex id (toastable_columns ts)"
  shows "known_sound ts D' K"
  using assms unfolding known_sound_def by (metis id_apply length_toastable list_ex_length)

text \<open>What \<open>fillUnchangedColumns\<close> does to a window of a table with a primary key: every cell it
  hands on is the row's, or is still marked and then as it was when the window began; what the
  TOAST state knows afterwards is true of the table after the window.\<close>

lemma fill_unchanged_columns_correct:
  assumes "fill_unchanged_columns est fails (map fst es) (Some ts) table s = Inr (cs', s')"
    and "toast_known est table s K" "known_sound ts D K" "history_fits ts D es" "pk_of ts \<noteq> []"
  shows "list_all2 (fill_result ts D) cs' es \<and>
    (\<exists>K'. toast_known est table s' K' \<and> known_sound ts (source_run ts es D) K')"
proof -
  consider "es = []" | "\<not> list_ex id (toastable_columns ts)" |
    (run) "es \<noteq> []" "list_ex id (toastable_columns ts)" by blast
  then show ?thesis
  proof cases
    case 1
    then show ?thesis using assms by (auto simp: fill_unchanged_columns_def source_run_def)
  next
    case 2
    then have "cs' = map fst es" "s' = s" using assms(1) by (auto simp: fill_unchanged_columns_def)
    then show ?thesis
      using no_toast_window [OF assms(4) 2] no_toast_known [OF assms(3) 2] assms(2) by blast
  next
    case run
    then have "fill_changes (toast_store est fails table) ts table 0 (map fst es) s = Inr (cs', s')"
      using assms(1,5) by (simp add: fill_unchanged_columns_def pk_of_def)
    from toast.fill_changes_refine [OF assms(2) this]
    obtain K' where K': "fill_changes map_store ts table 0 (map fst es) K = Inr (cs', K')"
        "toast_known est table s' K'" by blast
    from fill_window [OF assms(4,3) known_complete_start K'(1)] K'(2) show ?thesis by blast
  qed
qed

subsection \<open>A table to evaluate on\<close>

definition cdc_column :: "string \<Rightarrow> data_type \<Rightarrow> column" where
  "cdc_column n t = zero_column\<lparr>c_name := n, c_type := t\<rparr>"

definition sample_cdc_schema :: table_schema where
  "sample_cdc_schema = \<lparr>ts_name = ''docs'', ts_schema = ''public'',
     ts_columns = [cdc_column ''id'' TypeInt64, cdc_column ''doc'' TypeString,
       cdc_column ''_cdc_lsn'' TypeString, cdc_column ''_cdc_deleted'' TypeBoolean,
       cdc_column ''_cdc_synced_at'' TypeTimestamp, cdc_column ''_cdc_unchanged_cols'' TypeString],
     ts_primary_keys = [''id''], ts_incremental_key = [], ts_partition_by = []\<rparr>"

definition sample_cell :: "string \<Rightarrow> cell" where "sample_cell n = CVal ''int64'' n"
definition sample_doc :: "string \<Rightarrow> cell" where "sample_doc t = CVal ''string'' t"

lemma sample_pk [simp]: "pk_of sample_cdc_schema = [0]" "source_column_count sample_cdc_schema = 2"
    "toastable_columns sample_cdc_schema = [False, True]"
    "distinct (column_names sample_cdc_schema)"
  by code_simp+

end
