(* ===== verification/Cdc_Merge.thy ===== *)
theory Cdc_Merge
  imports Cdc_Fill
begin

text \<open>
  From a flush window to the destination: the staged rows of \<^verbatim>\<open>pkg/source/postgres_cdc/materialize.go\<close>,
  the order of \<^verbatim>\<open>pkg/destination/cdc.go\<close>, and the merge the PostgreSQL destination runs over them
  (the CDC branch of \<open>mergeTableInTx\<close> in \<^verbatim>\<open>pkg/destination/postgres/postgres.go\<close>).

  The merge is SQL that the code sends. The model is its effect on one key at a time: the join
  conditions equate primary keys, here the texts of \<open>pkKeyFromRow\<close>, and within a key the three
  common table expressions pick the latest row overall, the latest live and the latest deleted
  one. Writing the key columns, which the join makes equal, changes nothing. The incremental
  predicate is taken to be empty. \<open>COALESCE(_cdc_deleted, false)\<close> of the target is \<open>tg_deleted\<close>.
\<close>

subsection \<open>Staged rows\<close>

record staged =
  sg_key :: string
  sg_values :: "cell list"
  sg_unchanged :: "string list"
  sg_lsn :: string
  sg_deleted :: bool

text \<open>One row of \<open>changesToBatch\<close>, without the synchronisation time.\<close>

definition stage_change :: "table_schema \<Rightarrow> change \<Rightarrow> staged" where
  "stage_change ts c =
     (let n = source_column_count ts;
          vs = map (resolve_column_value c) [0..<n]
      in \<lparr>sg_key = pk_key_from_row vs [] (pk_of ts) 0,
          sg_values = vs,
          sg_unchanged = unchanged_columns c (ts_columns ts) n,
          sg_lsn = format_change_lsn (ch_lsn c) (ch_seq c),
          sg_deleted = (ch_op c = DELETE)\<rparr>)"

definition stage_changes :: "table_schema \<Rightarrow> change list \<Rightarrow> staged list" where
  "stage_changes ts cs = map (stage_change ts) cs"

subsection \<open>The merge\<close>

text \<open>\<open>CDCSupersedes\<close>, the order \<open>_cdc_lsn DESC, _cdc_deleted DESC\<close>.\<close>

definition cdc_supersedes :: "string \<Rightarrow> bool \<Rightarrow> string \<Rightarrow> bool \<Rightarrow> bool" where
  "cdc_supersedes l deleted prev_l prev_deleted =
     (if l \<noteq> prev_l then prev_l < l else deleted \<and> \<not> prev_deleted)"

text \<open>\<open>DISTINCT ON\<close> a key in that order: a row no other supersedes.\<close>

fun latest_from :: "staged \<Rightarrow> staged list \<Rightarrow> staged" where
  "latest_from a [] = a"
| "latest_from a (r # rs) =
     latest_from (if cdc_supersedes (sg_lsn r) (sg_deleted r) (sg_lsn a) (sg_deleted a) then r else a) rs"

definition latest :: "staged list \<Rightarrow> staged option" where
  "latest rs = (case rs of [] \<Rightarrow> None | r # rs' \<Rightarrow> Some (latest_from r rs'))"

record target =
  tg_values :: "cell list"
  tg_lsn :: "string option"
  tg_deleted :: bool

text \<open>\<open>SET col = CASE WHEN unchanged @> col THEN target.col ELSE la.col END\<close>.\<close>

definition merge_values :: "column list \<Rightarrow> staged \<Rightarrow> cell list \<Rightarrow> cell list" where
  "merge_values cols a old =
     map (\<lambda>i. if c_name (cols ! i) \<in> set (sg_unchanged a) then column_value_at old i else sg_values a ! i)
       [0..<length (sg_values a)]"

definition newer_active :: "staged \<Rightarrow> staged option \<Rightarrow> target \<Rightarrow> bool" where
  "newer_active a l g \<longleftrightarrow>
     (case tg_lsn g of
        None \<Rightarrow> True
      | Some x \<Rightarrow> x < sg_lsn a \<or>
          sg_lsn a = x \<and> \<not> tg_deleted g \<and>
          (case l of None \<Rightarrow> False | Some o' \<Rightarrow> sg_lsn o' = sg_lsn a \<and> sg_deleted o'))"

definition newer_deleted :: "staged \<Rightarrow> target \<Rightarrow> bool" where
  "newer_deleted d g \<longleftrightarrow>
     (case tg_lsn g of
        None \<Rightarrow> True
      | Some x \<Rightarrow> x < sg_lsn d \<or> sg_lsn d = x \<and> \<not> tg_deleted g)"

text \<open>Step 1: upsert the latest live row.\<close>

definition upsert_active :: "column list \<Rightarrow> staged list \<Rightarrow> target option \<Rightarrow> target option" where
  "upsert_active cols rs t =
     (case latest (filter (\<lambda>r. \<not> sg_deleted r) rs) of
        None \<Rightarrow> t
      | Some a \<Rightarrow>
          (case t of
             None \<Rightarrow> Some \<lparr>tg_values = sg_values a, tg_lsn = Some (sg_lsn a), tg_deleted = False\<rparr>
           | Some g \<Rightarrow>
               if newer_active a (latest rs) g
               then Some \<lparr>tg_values = merge_values cols a (tg_values g),
                          tg_lsn = Some (sg_lsn a), tg_deleted = False\<rparr>
               else Some g))"

text \<open>Step 2: mark the row deleted when the latest change is a delete.\<close>

definition mark_deleted :: "staged list \<Rightarrow> target option \<Rightarrow> target option" where
  "mark_deleted rs t =
     (case (latest (filter sg_deleted rs), latest rs, t) of
        (Some d, Some l, Some g) \<Rightarrow>
          if sg_deleted l \<and> newer_deleted d g
          then Some (g\<lparr>tg_lsn := Some (sg_lsn d), tg_deleted := True\<rparr>) else Some g
      | _ \<Rightarrow> t)"

text \<open>Step 3: a tombstone for a deleted row the target never had.\<close>

definition insert_tombstone :: "staged list \<Rightarrow> target option \<Rightarrow> target option" where
  "insert_tombstone rs t =
     (case (latest rs, t) of
        (Some l, None) \<Rightarrow>
          if sg_deleted l
          then Some \<lparr>tg_values = sg_values l, tg_lsn = Some (sg_lsn l), tg_deleted = True\<rparr> else None
      | _ \<Rightarrow> t)"

definition merge_key :: "column list \<Rightarrow> staged list \<Rightarrow> target option \<Rightarrow> target option" where
  "merge_key cols rs t = insert_tombstone rs (mark_deleted rs (upsert_active cols rs t))"

definition merge_staged :: "column list \<Rightarrow> staged list \<Rightarrow> (string \<rightharpoonup> target) \<Rightarrow> (string \<rightharpoonup> target)" where
  "merge_staged cols rs T = (\<lambda>k. merge_key cols (filter (\<lambda>r. sg_key r = k) rs) (T k))"

subsection \<open>The latest row\<close>

definition last_opt :: "'a list \<Rightarrow> 'a option" where
  "last_opt xs = (if xs = [] then None else Some (last xs))"

lemma last_opt_simps [simp]: "last_opt [] = None" "last_opt (xs @ [x]) = Some x" "last_opt xs = None \<longleftrightarrow> xs = []"
  by (simp_all add: last_opt_def)

lemma latest_None [simp]: "latest rs = None \<longleftrightarrow> rs = []"
  by (cases rs) (simp_all add: latest_def)

lemma latest_from_in: "latest_from a rs = a \<or> latest_from a rs \<in> set rs"
  by (induction rs arbitrary: a) auto

lemma latest_in: "latest rs = Some r \<Longrightarrow> r \<in> set rs"
  using latest_from_in by (cases rs) (auto simp: latest_def)

lemma latest_from_max: "r \<in> insert a (set rs) \<Longrightarrow> sg_lsn r \<le> sg_lsn (latest_from a rs)"
proof (induction rs arbitrary: a r)
  case (Cons x rs)
  define b where "b = (if cdc_supersedes (sg_lsn x) (sg_deleted x) (sg_lsn a) (sg_deleted a) then x else a)"
  have "sg_lsn x \<le> sg_lsn b" "sg_lsn a \<le> sg_lsn b"
    by (auto simp: b_def cdc_supersedes_def split: if_splits)
  moreover have "sg_lsn b \<le> sg_lsn (latest_from b rs)" using Cons.IH [of b b] by simp
  ultimately show ?case
    using Cons by (auto simp: b_def [symmetric] intro: order_trans)
qed simp

lemma latest_max: "latest rs = Some l \<Longrightarrow> r \<in> set rs \<Longrightarrow> sg_lsn r \<le> sg_lsn l"
  using latest_from_max by (cases rs) (auto simp: latest_def)

lemma latest_Nil [simp]: "latest [] = None"
  by simp

text \<open>A row past all others is the latest of every part it belongs to.\<close>

lemma latest_filter_max:
  assumes "latest rs = Some l" "P l" "\<And>r. r \<in> set rs \<Longrightarrow> sg_lsn r = sg_lsn l \<Longrightarrow> r = l"
  shows "latest (filter P rs) = Some l"
proof -
  have lin: "l \<in> set (filter P rs)" using latest_in [OF assms(1)] assms(2) by simp
  then have "latest (filter P rs) \<noteq> None" by (metis empty_iff empty_set latest_None)
  then obtain a where a: "latest (filter P rs) = Some a" by blast
  have "a \<in> set rs" using latest_in [OF a] by simp
  moreover have "sg_lsn a = sg_lsn l"
    using latest_max [OF a lin] latest_max [OF assms(1) \<open>a \<in> set rs\<close>] by simp
  ultimately show ?thesis using assms(3) a by simp
qed

definition lsn_sorted :: "staged list \<Rightarrow> bool" where
  "lsn_sorted rs \<longleftrightarrow> sorted_wrt (\<lambda>r r'. sg_lsn r < sg_lsn r') rs"

lemma lsn_sorted_filter: "lsn_sorted rs \<Longrightarrow> lsn_sorted (filter P rs)"
  by (simp add: lsn_sorted_def sorted_wrt_filter)

lemma latest_from_sorted: "lsn_sorted (a # rs) \<Longrightarrow> latest_from a rs = last (a # rs)"
proof (induction rs arbitrary: a)
  case (Cons r rs)
  then have "latest_from a (r # rs) = latest_from r rs"
    by (auto simp: lsn_sorted_def cdc_supersedes_def)
  then show ?case using Cons by (simp add: lsn_sorted_def)
qed simp

lemma latest_sorted: "lsn_sorted rs \<Longrightarrow> latest rs = last_opt rs"
  using latest_from_sorted by (cases rs) (auto simp: latest_def last_opt_def)

subsection \<open>Redelivery\<close>

text \<open>A target row that is at or past every row of a batch and agrees with it is left alone.\<close>

definition row_covers :: "target option \<Rightarrow> staged list \<Rightarrow> bool" where
  "row_covers t rs \<longleftrightarrow> rs = [] \<or>
     (\<exists>g x. t = Some g \<and> tg_lsn g = Some x \<and>
        (\<forall>r \<in> set rs. sg_lsn r < x \<or> sg_lsn r = x \<and> (tg_deleted g \<or> \<not> sg_deleted r)) \<and>
        (\<forall>r \<in> set rs. \<forall>r' \<in> set rs. sg_lsn r = x \<longrightarrow> sg_lsn r' = x \<longrightarrow> sg_deleted r = sg_deleted r'))"

lemma insert_tombstone_Some [simp]: "insert_tombstone rs (Some g) = Some g"
  by (simp add: insert_tombstone_def split: option.splits)

lemma covered_row_kept:
  assumes "row_covers t rs"
  shows "merge_key cols rs t = t"
proof (cases "rs = []")
  case True
  then show ?thesis
    by (cases t) (simp_all add: merge_key_def upsert_active_def mark_deleted_def insert_tombstone_def latest_def)
next
  case False
  then obtain g x where t: "t = Some g" and x: "tg_lsn g = Some x"
    and below: "\<And>r. r \<in> set rs \<Longrightarrow> sg_lsn r < x \<or> sg_lsn r = x \<and> (tg_deleted g \<or> \<not> sg_deleted r)"
    and same: "\<And>r r'. r \<in> set rs \<Longrightarrow> r' \<in> set rs \<Longrightarrow> sg_lsn r = x \<Longrightarrow> sg_lsn r' = x \<Longrightarrow>
      sg_deleted r = sg_deleted r'"
    using assms unfolding row_covers_def by blast
  have up: "upsert_active cols rs t = t"
  proof (cases "latest (filter (\<lambda>r. \<not> sg_deleted r) rs)")
    case (Some a)
    then have a: "a \<in> set rs" "\<not> sg_deleted a" using latest_in [OF Some] by simp_all
    have "\<not> x < sg_lsn a" using below [OF a(1)] by (auto simp: not_less)
    moreover have "\<not> (sg_lsn l = sg_lsn a \<and> sg_deleted l)" if "sg_lsn a = x" "latest rs = Some l" for l
      using same [OF a(1) latest_in [OF that(2)]] that(1) a(2) by auto
    ultimately have "\<not> newer_active a (latest rs) g"
      by (auto simp: newer_active_def x split: option.splits)
    then show ?thesis by (simp add: upsert_active_def Some t)
  qed (simp add: upsert_active_def)
  have "mark_deleted rs t = t"
  proof (cases "latest (filter sg_deleted rs)")
    case (Some d)
    then have d: "d \<in> set rs" "sg_deleted d" using latest_in [OF Some] by simp_all
    have "\<not> newer_deleted d g" using below [OF d(1)] d(2) by (auto simp: newer_deleted_def x not_less)
    then show ?thesis by (simp add: mark_deleted_def Some t split: option.splits)
  qed (simp add: mark_deleted_def split: option.splits)
  then have "merge_key cols rs t = insert_tombstone rs t" by (simp only: merge_key_def up)
  then show ?thesis by (simp add: t)
qed

text \<open>After a merge every key of the batch is covered by it, if positions identify rows.\<close>

definition positions_distinct :: "staged list \<Rightarrow> bool" where
  "positions_distinct rs \<longleftrightarrow> (\<forall>r \<in> set rs. \<forall>r' \<in> set rs. sg_lsn r = sg_lsn r' \<longrightarrow> r = r')"

lemma mark_deleted_live:
  "\<not> sg_deleted l \<Longrightarrow> latest rs = Some l \<Longrightarrow> mark_deleted rs t = t"
  by (cases t) (simp_all add: mark_deleted_def split: option.splits)

lemma merged_rows_covered:
  assumes dist: "positions_distinct rs" and ne: "rs \<noteq> []"
  shows "\<exists>g. merge_key cols rs t = Some g \<and>
    (case tg_lsn g of None \<Rightarrow> False | Some x \<Rightarrow>
       \<forall>r \<in> set rs. sg_lsn r < x \<or> sg_lsn r = x \<and> (tg_deleted g \<or> \<not> sg_deleted r))"
proof -
  obtain l where l: "latest rs = Some l" using ne by fastforce
  have max: "\<And>r. r \<in> set rs \<Longrightarrow> sg_lsn r \<le> sg_lsn l" using latest_max [OF l] .
  have lin: "l \<in> set rs" using latest_in [OF l] .
  have only: "\<And>r. r \<in> set rs \<Longrightarrow> sg_lsn r = sg_lsn l \<Longrightarrow> r = l"
    using dist lin unfolding positions_distinct_def by blast
  have at_l: "\<forall>r \<in> set rs. sg_lsn r < sg_lsn l \<or> sg_lsn r = sg_lsn l \<and> (b \<or> \<not> sg_deleted r)"
    if "sg_deleted l \<longrightarrow> b" for b
    using max only that by (metis order_le_imp_less_or_eq)
  show ?thesis
  proof (cases "sg_deleted l")
    case False
    have live: "latest (filter (\<lambda>r. \<not> sg_deleted r) rs) = Some l"
      by (rule latest_filter_max [OF l]) (use False only in simp_all)
    have m: "merge_key cols rs t = insert_tombstone rs (upsert_active cols rs t)"
      by (simp add: merge_key_def mark_deleted_live [OF False l])
    show ?thesis
    proof (cases t)
      case None
      then show ?thesis using at_l [of False] False by (simp add: m [unfolded None] upsert_active_def live)
    next
      case (Some g)
      show ?thesis
      proof (cases "newer_active l (latest rs) g")
        case True
        then show ?thesis using at_l [of False] False by (simp add: m [unfolded Some] Some upsert_active_def live)
      next
        case not_newer: False
        then obtain x where x: "tg_lsn g = Some x" "sg_lsn l \<le> x"
          by (auto simp: newer_active_def not_less split: option.splits)
        have "\<forall>r \<in> set rs. sg_lsn r < x \<or> sg_lsn r = x \<and> (tg_deleted g \<or> \<not> sg_deleted r)"
        proof
          fix r assume r: "r \<in> set rs"
          show "sg_lsn r < x \<or> sg_lsn r = x \<and> (tg_deleted g \<or> \<not> sg_deleted r)"
            using max [OF r] only [OF r] x(2) False by (metis order.strict_trans1 order_le_less)
        qed
        then show ?thesis using not_newer x by (simp add: m [unfolded Some] Some upsert_active_def live)
      qed
    qed
  next
    case True
    have dead: "latest (filter sg_deleted rs) = Some l"
      by (rule latest_filter_max [OF l]) (use True only in simp_all)
    show ?thesis
    proof (cases "upsert_active cols rs t")
      case None
      then show ?thesis using True at_l l
        by (simp add: merge_key_def mark_deleted_def insert_tombstone_def split: option.splits)
    next
      case (Some g)
      show ?thesis
      proof (cases "newer_deleted l g")
        case newer: True
        then show ?thesis using Some True at_l l dead by (simp add: merge_key_def mark_deleted_def)
      next
        case False
        then obtain x where x: "tg_lsn g = Some x" "sg_lsn l \<le> x" "sg_lsn l = x \<longrightarrow> tg_deleted g"
          by (auto simp: newer_deleted_def not_less split: option.splits)
        have "\<forall>r \<in> set rs. sg_lsn r < x \<or> sg_lsn r = x \<and> (tg_deleted g \<or> \<not> sg_deleted r)"
        proof
          fix r assume r: "r \<in> set rs"
          show "sg_lsn r < x \<or> sg_lsn r = x \<and> (tg_deleted g \<or> \<not> sg_deleted r)"
            using max [OF r] only [OF r] x(2,3) by (metis order.strict_trans1 order_le_less)
        qed
        then show ?thesis using Some True l dead False x by (simp add: merge_key_def mark_deleted_def)
      qed
    qed
  qed
qed

lemma covers_part:
  assumes "positions_distinct rs" "set ds \<subseteq> set rs"
  shows "row_covers (merge_key cols rs t) ds"
proof (cases "ds = []")
  case False
  then have "rs \<noteq> []" using assms(2) by auto
  from merged_rows_covered [OF assms(1) this, of cols t]
  obtain g x where g: "merge_key cols rs t = Some g" "tg_lsn g = Some x"
    "\<forall>r \<in> set rs. sg_lsn r < x \<or> sg_lsn r = x \<and> (tg_deleted g \<or> \<not> sg_deleted r)"
    by (auto split: option.splits)
  moreover have "\<forall>r \<in> set ds. \<forall>r' \<in> set ds. sg_lsn r = x \<longrightarrow> sg_lsn r' = x \<longrightarrow> sg_deleted r = sg_deleted r'"
    using assms unfolding positions_distinct_def by (metis subsetD)
  ultimately show ?thesis using assms(2) unfolding row_covers_def by blast
qed (simp add: row_covers_def)

text \<open>Redelivery does not change the target: after a batch whose rows have distinct positions
  has been merged, merging any selection of its rows again, in any order and split in any way,
  leaves every row as it is. The source may therefore repeat what it sent before a restart.\<close>

theorem merge_redelivery:
  assumes "positions_distinct rs" "set ds \<subseteq> set rs"
  shows "merge_staged cols ds (merge_staged cols rs T) = merge_staged cols rs T"
proof
  fix k
  have "positions_distinct (filter (\<lambda>r. sg_key r = k) rs)"
    using assms(1) by (simp add: positions_distinct_def)
  moreover have "set (filter (\<lambda>r. sg_key r = k) ds) \<subseteq> set (filter (\<lambda>r. sg_key r = k) rs)"
    using assms(2) by auto
  ultimately show "merge_staged cols ds (merge_staged cols rs T) k = merge_staged cols rs T k"
    unfolding merge_staged_def by (intro covered_row_kept covers_part)
qed

subsection \<open>Compaction\<close>

text \<open>The specification: of every group the last element stays, in the order of the list.\<close>

fun keep_last :: "('a \<Rightarrow> 'g) \<Rightarrow> 'a list \<Rightarrow> 'a list" where
  "keep_last f [] = []"
| "keep_last f (x # xs) = (if f x \<in> f ` set xs then keep_last f xs else x # keep_last f xs)"

definition compact_group :: "nat list \<Rightarrow> nat \<times> change \<Rightarrow> string \<times> bool" where
  "compact_group ks = (\<lambda>(i, c). (pk_key_from_row (ch_values c) (old_values c) ks i, ch_op c = DELETE))"

lemma set_keep_last: "set (keep_last f xs) \<subseteq> set xs"
  by (induction xs) auto

lemma keep_last_snoc: "keep_last f (xs @ [x]) = filter (\<lambda>y. f y \<noteq> f x) (keep_last f xs) @ [x]"
  by (induction xs) auto

lemma keep_last_id: "length (keep_last f xs) = length xs \<Longrightarrow> keep_last f xs = xs"
proof (induction xs)
  case (Cons x xs)
  have "length (keep_last f ys) \<le> length ys" for ys by (induction ys) auto
  from this [of xs] show ?case using Cons by (auto split: if_splits)
qed simp

lemma in_keep_last: "x \<in> set (keep_last f xs) \<Longrightarrow> x \<in> set xs"
  using set_keep_last [of f xs] by blast

lemma distinct_keep_last: "distinct (map g xs) \<Longrightarrow> distinct (map g (keep_last f xs))"
  by (induction xs) (auto dest: in_keep_last)

lemma sorted_keep_last: "sorted (map g xs) \<Longrightarrow> sorted (map g (keep_last f xs))"
proof (induction xs)
  case (Cons x xs)
  then show ?case using set_keep_last [of f xs] by auto
qed simp

lemma last_opt_Cons: "last_opt (x # xs) = (if xs = [] then Some x else last_opt xs)"
  by (simp add: last_opt_def)

text \<open>Whatever a reader selects by group, it finds the same last element.\<close>

lemma last_opt_keep_last:
  assumes "\<And>x y. x \<in> set xs \<Longrightarrow> y \<in> set xs \<Longrightarrow> f x = f y \<Longrightarrow> P x = P y"
  shows "last_opt (filter P (keep_last f xs)) = last_opt (filter P xs)"
  using assms
proof (induction xs)
  case (Cons x xs)
  have ih: "last_opt (filter P (keep_last f xs)) = last_opt (filter P xs)"
    by (rule Cons.IH, rule Cons.prems) simp_all
  then have empty: "filter P (keep_last f xs) = [] \<longleftrightarrow> filter P xs = []"
    by (metis last_opt_simps(3))
  show ?case
  proof (cases "f x \<in> f ` set xs")
    case True
    then obtain y where "y \<in> set xs" "f x = f y" by auto
    then have "P x \<Longrightarrow> filter P xs \<noteq> []" using Cons.prems [of x y] by (auto simp: filter_empty_conv)
    moreover have "keep_last f (x # xs) = keep_last f xs" using True by simp
    ultimately show ?thesis using ih by (cases "P x") (simp_all add: last_opt_Cons)
  next
    case False
    then have "keep_last f (x # xs) = x # keep_last f xs" by simp
    then show ?thesis using ih empty by (cases "P x") (simp_all add: last_opt_Cons)
  qed
qed simp

text \<open>What the two maps of the code hold.\<close>

definition compact_entries :: "nat list \<Rightarrow> bool \<Rightarrow> (nat \<times> change) list \<Rightarrow> (string \<times> nat \<times> change) set" where
  "compact_entries ks b es =
     (\<lambda>e. (fst (compact_group ks e), e)) `
       {e \<in> set (keep_last (compact_group ks) es). snd (compact_group ks e) = b}"

lemma alist_update_set:
  "distinct (map fst m) \<Longrightarrow> set (AList.update k v m) = {(k', v') \<in> set m. k' \<noteq> k} \<union> {(k, v)}"
  by (induction m) (auto simp: rev_image_eqI)

lemma compact_entries_snoc:
  "compact_entries ks b (es @ [e]) =
     (if snd (compact_group ks e) = b
      then {(k', v') \<in> compact_entries ks b es. k' \<noteq> fst (compact_group ks e)} \<union> {(fst (compact_group ks e), e)}
      else compact_entries ks b es)"
proof (cases "snd (compact_group ks e) = b")
  case True
  have "{e' \<in> set (keep_last (compact_group ks) (es @ [e])). snd (compact_group ks e') = b} =
      {e' \<in> set (keep_last (compact_group ks) es). snd (compact_group ks e') = b \<and>
         fst (compact_group ks e') \<noteq> fst (compact_group ks e)} \<union> {e}"
    using True by (auto simp: keep_last_snoc prod_eq_iff)
  then show ?thesis using True by (auto simp: compact_entries_def)
next
  case False
  then have "{e' \<in> set (keep_last (compact_group ks) (es @ [e])). snd (compact_group ks e') = b} =
      {e' \<in> set (keep_last (compact_group ks) es). snd (compact_group ks e') = b}"
    by (auto simp: keep_last_snoc)
  then show ?thesis using False by (simp add: compact_entries_def)
qed

lemma compact_fold:
  "case fold (compact_step ks) es ([], []) of (live, deleted) \<Rightarrow>
     distinct (map fst live) \<and> distinct (map fst deleted) \<and>
     set live = compact_entries ks False es \<and> set deleted = compact_entries ks True es"
proof (induction es rule: rev_induct)
  case Nil
  then show ?case by (simp add: compact_entries_def)
next
  case (snoc e es)
  obtain live deleted where ld: "fold (compact_step ks) es ([], []) = (live, deleted)"
    by (cases "fold (compact_step ks) es ([], [])")
  obtain i c where e: "e = (i, c)" by (cases e)
  show ?case
  proof (cases "ch_op c = DELETE")
    case True
    then show ?thesis using snoc ld
      by (simp add: e compact_step_def Let_def compact_entries_snoc compact_group_def alist_update_set
          distinct_update)
  next
    case False
    then show ?thesis using snoc ld
      by (simp add: e compact_step_def Let_def compact_entries_snoc compact_group_def alist_update_set
          distinct_update)
  qed
qed

lemma sorted_enumerate: "sorted (map fst (enumerate n xs))" "distinct (map fst (enumerate n xs))"
  by (simp_all add: enumerate_eq_zip)

text \<open>Compaction keeps of every key the last change that is a DELETE and the last that is none, in
  the order of the window, and nothing else: the two maps, the sort by index and the early
  returns of the code amount to dropping every change a later one of its kind and key supersedes.\<close>

lemma compact_changes_rows:
  assumes "pk_of ts \<noteq> []"
  shows "compact_changes cs (Some ts) = map snd (keep_last (compact_group (pk_of ts)) (enumerate 0 cs))"
proof -
  let ?g = "compact_group (pk_of ts)" and ?es = "enumerate 0 cs"
  obtain live deleted where ld: "fold (compact_step (pk_of ts)) ?es ([], []) = (live, deleted)"
    by (cases "fold (compact_step (pk_of ts)) ?es ([], [])")
  have l: "distinct (map fst live)" "set live = compact_entries (pk_of ts) False ?es"
    and d: "distinct (map fst deleted)" "set deleted = compact_entries (pk_of ts) True ?es"
    using compact_fold [of "pk_of ts" ?es] by (simp_all add: ld)
  have vals: "set (map snd (live @ deleted)) = set (keep_last ?g ?es)"
    by (auto simp: l d compact_entries_def image_image)
  have dl: "distinct live" "distinct deleted"
    using l(1) d(1) by (simp_all add: distinct_map)
  have "inj_on snd (set live)" "inj_on snd (set deleted)" "snd ` set live \<inter> snd ` set deleted = {}"
    by (auto simp: l d compact_entries_def inj_on_def)
  then have dist: "distinct (map snd (live @ deleted))"
    using dl by (auto simp: distinct_map)
  have len: "length live + length deleted = length (keep_last ?g ?es)"
    using distinct_card [OF dist] vals distinct_card [of "keep_last ?g ?es"]
      distinct_keep_last [OF sorted_enumerate(2) [of 0 cs], of ?g]
    by (simp add: distinct_map)
  show ?thesis
  proof (cases "length cs < 2")
    case True
    then have "cs = [] \<or> (\<exists>c. cs = [c])" by (cases cs rule: list.exhaust; cases "tl cs") auto
    then show ?thesis by (auto simp: compact_changes_def Let_def)
  next
    case False
    show ?thesis
    proof (cases "length live + length deleted = length cs")
      case True
      then have "keep_last ?g ?es = ?es" using len by (intro keep_last_id) simp
      then show ?thesis using True False assms ld
        by (simp add: compact_changes_def pk_of_def [symmetric] Let_def)
    next
      case short: False
      have fin: "inj_on fst (set (map snd (live @ deleted)))"
        unfolding vals using sorted_enumerate(2) [of 0 cs] set_keep_last [of ?g ?es]
        by (meson distinct_map inj_on_subset)
      have "sort_key fst (map snd (live @ deleted)) = keep_last ?g ?es"
      proof (rule map_sorted_distinct_set_unique [of fst])
        show "inj_on fst (set (sort_key fst (map snd (live @ deleted))) \<union> set (keep_last ?g ?es))"
          using fin by (simp only: set_sort vals Un_absorb)
        show "distinct (map fst (sort_key fst (map snd (live @ deleted))))"
          using dist fin by (simp add: distinct_map)
      qed (simp_all add: sorted_keep_last sorted_enumerate distinct_keep_last vals del: map_append set_map)
      then show ?thesis using short False assms ld
        by (simp add: compact_changes_def pk_of_def [symmetric] Let_def)
    qed
  qed
qed

text \<open>A row that was updated and then deleted, redelivered in part.\<close>

definition sample_staged :: "staged list" where
  "sample_staged =
     [\<lparr>sg_key = ''1'', sg_values = [CNull], sg_unchanged = [], sg_lsn = ''A'', sg_deleted = False\<rparr>,
      \<lparr>sg_key = ''1'', sg_values = [CNull], sg_unchanged = [], sg_lsn = ''B'', sg_deleted = True\<rparr>]"

theorem merge_redelivery_witness:
  "\<forall>T. merge_staged [] [hd sample_staged] (merge_staged [] sample_staged T) = merge_staged [] sample_staged T"
proof
  fix T
  have "positions_distinct sample_staged" by (simp add: positions_distinct_def sample_staged_def)
  moreover have "set [hd sample_staged] \<subseteq> set sample_staged" by (simp add: sample_staged_def)
  ultimately show "merge_staged [] [hd sample_staged] (merge_staged [] sample_staged T) = merge_staged [] sample_staged T"
    by (rule merge_redelivery)
qed

end
