(* ===== verification/Cdc_Window.thy ===== *)
theory Cdc_Window
  imports Cdc_Merge
begin

text \<open>
  A flush window from the source table to the target: \<open>flushTableContext\<close> of
  \<^verbatim>\<open>pkg/source/postgres_cdc/batch_accumulator.go\<close> composes the fill, the expansion and the
  compaction, and the destination merges what it stages. The theorems say that this carries the
  source table over.
\<close>

subsection \<open>Expanded changes as point updates of the source table\<close>

definition expand_event :: "table_schema \<Rightarrow> change \<times> cell list \<Rightarrow> (change \<times> cell list) list" where
  "expand_event ts = (\<lambda>(c, row). map (\<lambda>d. (d, row)) (expand_update (pk_of ts) False c))"

definition point_apply :: "table_schema \<Rightarrow> change \<times> cell list \<Rightarrow> source_rows \<Rightarrow> source_rows" where
  "point_apply ts = (\<lambda>(d, row) D.
     if ch_op d = DELETE then D(store_key (pk_of ts) d := None) else D(store_key (pk_of ts) d \<mapsto> row))"

lemma key_part_old: "key_part olds [] i = key_part olds olds i"
  by (auto simp: key_part_def Let_def column_value_at_def split: cell.splits)

lemma key_parts_old: "key_parts olds [] ks = key_parts olds olds ks"
  by (intro key_parts_cong key_part_old)

definition moved_delete :: "change \<Rightarrow> change" where
  "moved_delete c = \<lparr>ch_op = DELETE, ch_lsn = ch_lsn c,
     ch_seq = (if ch_seq c > 0 then ch_seq c - 1 else ch_seq c), ch_values = old_values c, ch_old = None\<rparr>"

lemma expand_update_keyed:
  "expand_update ks False c = (if pk_value_changed c ks then [moved_delete c, c] else [c])"
  by (auto simp: expand_update_def update_needs_expansion_def moved_delete_def pk_value_changed_def)

lemma moved_delete_keys:
  assumes "has_keys ks c" "pk_value_changed c ks"
  shows "has_keys ks (moved_delete c)" "store_key ks (moved_delete c) = lookup_key ks c"
proof -
  have "ch_values (moved_delete c) = old_values c" by (simp add: moved_delete_def)
  moreover have "old_values (moved_delete c) = []" by (simp add: moved_delete_def old_values_def)
  moreover have "\<not> pk_value_changed (moved_delete c) ks" by (simp add: moved_delete_def pk_value_changed_def)
  ultimately show "has_keys ks (moved_delete c)" "store_key ks (moved_delete c) = lookup_key ks c"
    using assms by (simp_all add: has_keys_def store_key_def lookup_key_def key_parts_old [of "old_values c"])
qed

lemma filled_keys: "filled_fits ts D0 c row \<Longrightarrow> has_keys (pk_of ts) c"
  by (simp add: filled_fits_def)

lemma expand_event_apply:
  assumes "filled_fits ts D0 c row"
  shows "fold (point_apply ts) (expand_event ts (c, row)) D = source_apply ts (c, row) D"
proof (cases "pk_value_changed c (pk_of ts)")
  case True
  then have "ch_op c = UPDATE" by (simp add: pk_value_changed_def)
  then show ?thesis
    using True moved_delete_keys [OF filled_keys [OF assms] True]
    by (simp add: expand_event_def expand_update_keyed point_apply_def source_apply_def moved_delete_def)
next
  case False
  then show ?thesis
    using assms by (auto simp: expand_event_def expand_update_keyed point_apply_def source_apply_def
        filled_fits_def lookup_key_def split: change_op.splits)
qed

lemma expand_updates_concat:
  assumes "pk_of ts \<noteq> []"
  shows "expand_updates cs (Some ts) = concat (map (expand_update (pk_of ts) False) cs)"
proof (cases "list_ex (\<lambda>c. update_needs_expansion c (pk_of ts) False) cs")
  case True
  then show ?thesis using assms by (simp add: expand_updates_def Let_def pk_of_def [symmetric])
next
  case False
  then have "\<forall>c \<in> set cs. expand_update (pk_of ts) False c = [c]"
    by (auto simp: list_ex_iff expand_update_def)
  then have "concat (map (expand_update (pk_of ts) False) cs) = cs" by (induction cs) simp_all
  then show ?thesis using assms False by (simp add: expand_updates_def Let_def pk_of_def [symmetric])
qed

text \<open>A change of the window, after the expansion.\<close>

definition window_row :: "table_schema \<Rightarrow> source_rows \<Rightarrow> change \<times> cell list \<Rightarrow> bool" where
  "window_row ts D0 = (\<lambda>(d, row). filled_fits ts D0 d row)"

lemma window_rows:
  assumes "list_all2 (fill_result ts D0) cs es"
  defines "xs \<equiv> concat (map (expand_event ts) (zip cs (map snd es)))"
  shows "list_all (window_row ts D0) xs" "map fst xs = concat (map (expand_update (pk_of ts) False) cs)"
    "fold (point_apply ts) xs D = source_run ts es D"
proof -
  have "list_all (window_row ts D0) xs \<and> map fst xs = concat (map (expand_update (pk_of ts) False) cs) \<and>
    fold (point_apply ts) xs D = source_run ts es D"
    using assms(1) unfolding xs_def
  proof (induction cs es arbitrary: D rule: list_all2_induct)
    case Nil
    then show ?case by (simp add: source_run_def)
  next
    case (Cons c cs e es)
    have fits: "filled_fits ts D0 c (snd e)" "source_apply ts (c, snd e) = source_apply ts e"
      using Cons(1) by (simp_all add: fill_result_def)
    have "list_all (window_row ts D0) (expand_event ts (c, snd e))"
      using fits(1) moved_delete_keys(1) [OF filled_keys [OF fits(1)]]
      by (simp add: expand_event_def expand_update_keyed window_row_def filled_fits_def moved_delete_def)
    moreover have "fold (point_apply ts) (expand_event ts (c, snd e)) D = source_apply ts e D"
      using expand_event_apply [OF fits(1)] fits(2) by simp
    moreover have "map fst (expand_event ts (c, snd e)) = expand_update (pk_of ts) False c"
      by (simp add: expand_event_def comp_def)
    ultimately show ?case using Cons(3) by (simp add: source_run_def)
  qed
  then show "list_all (window_row ts D0) xs" "map fst xs = concat (map (expand_update (pk_of ts) False) cs)"
    "fold (point_apply ts) xs D = source_run ts es D" by simp_all
qed

text \<open>What the table holds under a key is decided by the last change of that key.\<close>

lemma point_run_key:
  "fold (point_apply ts) xs D k =
     (case last_opt (filter (\<lambda>x. store_key (pk_of ts) (fst x) = k) xs) of
        None \<Rightarrow> D k
      | Some (d, row) \<Rightarrow> if ch_op d = DELETE then None else Some row)"
  by (induction xs rule: rev_induct) (auto simp: point_apply_def split: option.splits)

subsection \<open>What is staged\<close>

definition pk_in_source :: "table_schema \<Rightarrow> bool" where
  "pk_in_source ts \<longleftrightarrow> pk_of ts \<noteq> [] \<and> (\<forall>i \<in> set (pk_of ts). i < source_column_count ts)"

lemma staged_key:
  assumes "filled_fits ts D0 c row" "pk_in_source ts"
  shows "sg_key (stage_change ts c) = store_key (pk_of ts) c"
proof -
  define vs where "vs = map (resolve_column_value c) [0..<source_column_count ts]"
  have keys: "key_parts (ch_values c) (old_values c) (pk_of ts) \<noteq> None"
    using filled_keys [OF assms(1)] by (simp add: has_keys_def)
  have "key_part vs [] i = key_part (ch_values c) (old_values c) i" if i: "i \<in> set (pk_of ts)" for i
  proof -
    have n: "i < source_column_count ts" using assms(2) i by (simp add: pk_in_source_def)
    have some: "key_part (ch_values c) (old_values c) i \<noteq> None" by (rule key_parts_SomeD [OF keys i])
    have vs: "column_value_at vs i = resolve_column_value_base c i"
      using n by (simp add: vs_def column_value_at_def resolve_column_value_def)
    show ?thesis
    proof (cases "column_value_at (ch_values c) i")
      case (CVal t x)
      then show ?thesis by (simp add: key_part_def vs resolve_known)
    next
      case CNull
      have "ch_op c = DELETE"
        using assms(1) n i CNull by (auto simp: filled_fits_def complete_row_def column_value_at_def
            split: change_op.splits if_splits)
      then have "old_values c = []" using assms(1) by (simp add: filled_fits_def old_values_def)
      then show ?thesis using some CNull by (simp add: key_part_def column_value_at_def)
    next
      case (CMarker m)
      then obtain t x where old: "column_value_at (old_values c) i = CVal t x"
        using some by (auto simp: key_part_def Let_def split: cell.splits if_splits)
      then have o: "i < length (old_values c)" "old_values c ! i = CVal t x"
        by (auto simp: column_value_at_def split: if_splits)
      then have "ch_old c \<noteq> None" by (cases "ch_old c") (simp_all add: old_values_def)
      then have "ch_op c = UPDATE"
        using assms(1) n CMarker by (auto simp: filled_fits_def column_value_at_def
            split: change_op.splits if_splits)
      then have "resolve_column_value_base c i = CVal t x"
        using CMarker o by (simp add: resolve_column_value_base_def)
      then show ?thesis using CMarker old by (simp add: key_part_def vs)
    qed
  qed
  then have "key_parts vs [] (pk_of ts) = key_parts (ch_values c) (old_values c) (pk_of ts)"
    by (rule key_parts_cong)
  then have "pk_key_from_row vs [] (pk_of ts) 0 = store_key (pk_of ts) c"
    using keys by (simp add: pk_key_has_key store_key_def)
  then show ?thesis by (simp add: stage_change_def Let_def vs_def)
qed

lemma staged_unchanged:
  assumes "distinct (column_names ts)" "i < source_column_count ts"
  shows "c_name (ts_columns ts ! i) \<in> set (sg_unchanged (stage_change ts c)) \<longleftrightarrow> column_is_unchanged c i"
proof -
  have n: "source_column_count ts \<le> length (ts_columns ts)" by (simp add: source_column_count_def)
  have inj: "c_name (ts_columns ts ! j) = c_name (ts_columns ts ! i) \<longleftrightarrow> j = i" if "j < source_column_count ts" for j
    using assms(2) n that nth_eq_iff_index_eq [OF assms(1), of j i] by (simp add: column_names_def)
  have "sg_unchanged (stage_change ts c) = (if ch_op c \<noteq> UPDATE then [] else
      map (\<lambda>i. c_name (ts_columns ts ! i)) (filter (column_is_unchanged c) [0..<source_column_count ts]))"
    using n by (simp add: stage_change_def Let_def unchanged_columns_def min_def)
  then have "c_name (ts_columns ts ! i) \<in> set (sg_unchanged (stage_change ts c)) \<longleftrightarrow>
      (\<exists>j < source_column_count ts. column_is_unchanged c j \<and> c_name (ts_columns ts ! j) = c_name (ts_columns ts ! i))"
    by (cases "ch_op c = UPDATE") (auto simp: image_iff column_is_unchanged_def)
  then show ?thesis using assms(2) inj by blast
qed

text \<open>A staged live row gives the table's row, from the change or from the target.\<close>

lemma staged_values:
  assumes fits: "filled_fits ts D0 c row" "ch_op c \<noteq> DELETE" and names: "distinct (column_names ts)"
  shows "merge_values (ts_columns ts) (stage_change ts c) old =
      map (\<lambda>i. if column_is_unchanged c i then column_value_at old i else row ! i) [0..<source_column_count ts]"
    and "(\<And>i. i < source_column_count ts \<Longrightarrow> \<not> column_is_unchanged c i) \<Longrightarrow> sg_values (stage_change ts c) = row"
    and "column_is_unchanged c i \<Longrightarrow> i < source_column_count ts \<Longrightarrow>
      \<exists>row0. D0 (store_key (pk_of ts) c) = Some row0 \<and> row0 ! i = row ! i"
proof -
  let ?n = "source_column_count ts"
  have row: "length row = ?n" and len: "length (ch_values c) = ?n"
    and cells: "\<And>i. i < ?n \<Longrightarrow>
      if is_tuple_unchanged (ch_values c ! i)
      then ch_op c = UPDATE \<and> (\<exists>row0. D0 (store_key (pk_of ts) c) = Some row0 \<and> row0 ! i = row ! i)
      else ch_values c ! i = row ! i"
    using fits by (auto simp: filled_fits_def complete_row_def split: change_op.splits if_splits)
  have sv: "sg_values (stage_change ts c) = map (resolve_column_value c) [0..<?n]"
    by (simp add: stage_change_def Let_def)
  have res: "resolve_column_value c i = row ! i" if "i < ?n" "\<not> column_is_unchanged c i" for i
    using cells [OF that(1)] that len
    by (auto simp: resolve_column_value_def resolve_column_value_base_def column_value_at_def
        column_is_unchanged_def split: if_splits)
  show "merge_values (ts_columns ts) (stage_change ts c) old =
      map (\<lambda>i. if column_is_unchanged c i then column_value_at old i else row ! i) [0..<?n]"
    using res by (simp add: merge_values_def sv staged_unchanged [OF names])
  show "(\<And>i. i < ?n \<Longrightarrow> \<not> column_is_unchanged c i) \<Longrightarrow> sg_values (stage_change ts c) = row"
    using res row by (intro nth_equalityI) (simp_all add: sv)
  show "column_is_unchanged c i \<Longrightarrow> i < ?n \<Longrightarrow>
      \<exists>row0. D0 (store_key (pk_of ts) c) = Some row0 \<and> row0 ! i = row ! i"
    using cells by (auto simp: column_is_unchanged_def)
qed

subsection \<open>The order of the staged rows\<close>

text \<open>The changes of a window come in the order of their positions, with the even sequence numbers
  the decoder gives out, so that a moved row's DELETE has a number of its own.\<close>

definition change_less :: "change \<Rightarrow> change \<Rightarrow> bool" where
  "change_less c d \<longleftrightarrow> change_position_less (ch_lsn c) (ch_seq c) (ch_lsn d) (ch_seq d)"

definition window_order :: "change list \<Rightarrow> bool" where
  "window_order cs \<longleftrightarrow> sorted_wrt change_less cs \<and> list_all (\<lambda>c. even (unat (ch_seq c)) \<and> ch_seq c \<noteq> 0) cs"

lemma unat_pred: "s \<noteq> 0 \<Longrightarrow> unat (s - 1 :: 64 word) = unat s - 1"
  by (rule unat_minus_one)

lemma moved_delete_seq: "ch_seq c \<noteq> 0 \<Longrightarrow> unat (ch_seq (moved_delete c)) = unat (ch_seq c) - 1"
  by (simp add: moved_delete_def unat_pred word_neq_0_conv)

lemma change_less_nat:
  "change_less c d \<longleftrightarrow> ch_lsn c < ch_lsn d \<or> ch_lsn c = ch_lsn d \<and> unat (ch_seq c) < unat (ch_seq d)"
  by (simp add: change_less_def change_position_less_def word_less_nat_alt)

lemma moved_delete_less: "ch_seq c \<noteq> 0 \<Longrightarrow> change_less (moved_delete c) c"
  using unat_gt_0 [of "ch_seq c"]
  by (simp add: change_less_nat moved_delete_seq) (simp add: moved_delete_def)

lemma less_moved_delete:
  assumes "change_less b c" "even (unat (ch_seq b))" "even (unat (ch_seq c))" "ch_seq c \<noteq> 0"
  shows "change_less b (moved_delete c)"
proof -
  have "unat (ch_seq b) < unat (ch_seq c) \<Longrightarrow> unat (ch_seq b) < unat (ch_seq c) - 1"
    using assms(2,3) by presburger
  then show ?thesis
    using assms(1,4) by (simp add: change_less_nat moved_delete_seq) (auto simp: moved_delete_def)
qed

lemma change_less_trans: "change_less a b \<Longrightarrow> change_less b c \<Longrightarrow> change_less a c"
  by (auto simp: change_less_def change_position_less_def)

lemma expand_order:
  assumes "window_order cs"
  shows "sorted_wrt change_less (concat (map (expand_update ks False) cs))"
  using assms
proof (induction cs)
  case (Cons c cs)
  have c: "even (unat (ch_seq c))" "ch_seq c \<noteq> 0" "\<forall>d \<in> set cs. change_less c d"
    and cs: "list_all (\<lambda>c. even (unat (ch_seq c)) \<and> ch_seq c \<noteq> 0) cs" and ord: "window_order cs"
    using Cons.prems by (auto simp: window_order_def)
  have "change_less c d'" if "d \<in> set cs" "d' \<in> set (expand_update ks False d)" for d d'
    using that c cs less_moved_delete [of c d] by (auto simp: expand_update_keyed list_all_iff split: if_splits)
  then have after: "\<forall>d' \<in> set (concat (map (expand_update ks False) cs)). change_less c d'" by auto
  show ?case
    using Cons.IH [OF ord] after moved_delete_less [OF c(2)] change_less_trans
    by (auto simp: expand_update_keyed)
qed (simp add: window_order_def)

lemma staged_order: "sorted_wrt change_less cs \<Longrightarrow> lsn_sorted (stage_changes ts cs)"
  by (simp add: lsn_sorted_def stage_changes_def sorted_wrt_map stage_change_def Let_def change_lsn_order_text
      change_less_def [abs_def])

subsection \<open>Compaction and the merge\<close>

lemma sorted_wrt_keep_last: "sorted_wrt R xs \<Longrightarrow> sorted_wrt R (keep_last f xs)"
  by (induction xs) (auto dest: in_keep_last)

lemma last_opt_map: "last_opt (map f xs) = map_option f (last_opt xs)"
  by (simp add: last_opt_def last_map)

lemma merge_key_cong:
  assumes "latest rs = latest rs'" "latest (filter (\<lambda>r. \<not> sg_deleted r) rs) = latest (filter (\<lambda>r. \<not> sg_deleted r) rs')"
    "latest (filter sg_deleted rs) = latest (filter sg_deleted rs')"
  shows "merge_key cols rs t = merge_key cols rs' t"
  unfolding merge_key_def upsert_active_def mark_deleted_def insert_tombstone_def assms ..

text \<open>Changes that are staged under the key the compaction groups them by.\<close>

definition keyed_window :: "table_schema \<Rightarrow> change list \<Rightarrow> bool" where
  "keyed_window ts cs \<longleftrightarrow> pk_of ts \<noteq> [] \<and>
     list_all (\<lambda>c. has_keys (pk_of ts) c \<and> sg_key (stage_change ts c) = store_key (pk_of ts) c) cs"

lemma compact_last:
  assumes "keyed_window ts cs" and P: "\<And>r r'. sg_key r = sg_key r' \<Longrightarrow> sg_deleted r = sg_deleted r' \<Longrightarrow> P r = P r'"
  shows "last_opt (filter P (stage_changes ts (compact_changes cs (Some ts)))) =
    last_opt (filter P (stage_changes ts cs))"
proof -
  let ?g = "compact_group (pk_of ts)" and ?es = "enumerate 0 cs" and ?f = "\<lambda>e. stage_change ts (snd e)"
  have staged: "sg_key (?f e) = fst (?g e) \<and> sg_deleted (?f e) = snd (?g e)" if "e \<in> set ?es" for e
  proof -
    have "snd e \<in> set (map snd ?es)" unfolding set_map using that by (rule imageI)
    then have "snd e \<in> set cs" by simp
    then have "has_keys (pk_of ts) (snd e)" "sg_key (?f e) = store_key (pk_of ts) (snd e)"
      using assms(1) by (auto simp: keyed_window_def list_all_iff)
    then show ?thesis
      by (cases e) (simp add: compact_group_def has_keys_def pk_key_has_key store_key_def stage_change_def Let_def)
  qed
  have "last_opt (filter (P \<circ> ?f) (keep_last ?g ?es)) = last_opt (filter (P \<circ> ?f) ?es)"
    by (rule last_opt_keep_last) (metis P comp_apply staged)
  then have "last_opt (map ?f (filter (P \<circ> ?f) (keep_last ?g ?es))) = last_opt (map ?f (filter (P \<circ> ?f) ?es))"
    by (simp only: last_opt_map)
  moreover have all: "stage_changes ts cs = map ?f ?es"
  proof -
    have "map ?f ?es = map (stage_change ts) (map snd ?es)" by (simp only: map_map comp_def)
    then show ?thesis by (simp add: stage_changes_def)
  qed
  moreover have "stage_changes ts (compact_changes cs (Some ts)) = map ?f (keep_last ?g ?es)"
    using assms(1) by (simp add: compact_changes_rows keyed_window_def stage_changes_def)
  ultimately show ?thesis by (simp only: filter_map)
qed

lemma compact_sorted:
  assumes "sorted_wrt change_less cs" "pk_of ts \<noteq> []"
  shows "sorted_wrt change_less (compact_changes cs (Some ts))"
proof -
  have "sorted_wrt change_less (map snd (enumerate 0 cs))" using assms(1) by simp
  then have "sorted_wrt (\<lambda>x y. change_less (snd x) (snd y)) (enumerate 0 cs)" by (simp only: sorted_wrt_map)
  then show ?thesis
    using assms(2) by (simp add: compact_changes_rows sorted_wrt_map sorted_wrt_keep_last)
qed

lemma compaction_merge:
  assumes "keyed_window ts cs" "sorted_wrt change_less cs"
  shows "merge_staged cols (stage_changes ts (compact_changes cs (Some ts))) T =
    merge_staged cols (stage_changes ts cs) T"
proof
  fix k
  have pk: "pk_of ts \<noteq> []" using assms(1) by (simp add: keyed_window_def)
  have sorted: "lsn_sorted (filter P (stage_changes ts cs))"
      "lsn_sorted (filter P (stage_changes ts (compact_changes cs (Some ts))))" for P
    using staged_order [OF assms(2)] staged_order [OF compact_sorted [OF assms(2) pk]]
    by (simp_all add: lsn_sorted_filter)
  have same: "latest (filter P (stage_changes ts (compact_changes cs (Some ts)))) =
      latest (filter P (stage_changes ts cs))"
    if "\<And>r r'. sg_key r = sg_key r' \<Longrightarrow> sg_deleted r = sg_deleted r' \<Longrightarrow> P r = P r'" for P
    using compact_last [OF assms(1) that] by (simp add: latest_sorted sorted)
  show "merge_staged cols (stage_changes ts (compact_changes cs (Some ts))) T k =
      merge_staged cols (stage_changes ts cs) T k"
    unfolding merge_staged_def
  proof (rule merge_key_cong)
    show "latest (filter (\<lambda>r. sg_key r = k) (stage_changes ts (compact_changes cs (Some ts)))) =
        latest (filter (\<lambda>r. sg_key r = k) (stage_changes ts cs))"
      by (rule same [of "\<lambda>r. sg_key r = k"]) simp
    show "latest (filter (\<lambda>r. \<not> sg_deleted r) (filter (\<lambda>r. sg_key r = k)
          (stage_changes ts (compact_changes cs (Some ts))))) =
        latest (filter (\<lambda>r. \<not> sg_deleted r) (filter (\<lambda>r. sg_key r = k) (stage_changes ts cs)))"
      unfolding filter_filter
      by (rule same [of "\<lambda>r. sg_key r = k \<and> \<not> sg_deleted r"]) simp
    show "latest (filter sg_deleted (filter (\<lambda>r. sg_key r = k)
          (stage_changes ts (compact_changes cs (Some ts))))) =
        latest (filter sg_deleted (filter (\<lambda>r. sg_key r = k) (stage_changes ts cs)))"
      unfolding filter_filter
      by (rule same [of "\<lambda>r. sg_key r = k \<and> sg_deleted r"]) simp
  qed
qed

subsection \<open>A window under one key\<close>

definition target_fits :: "cell list option \<Rightarrow> target option \<Rightarrow> bool" where
  "target_fits r t \<longleftrightarrow>
     (case r of
        Some row \<Rightarrow> (\<exists>g. t = Some g \<and> tg_values g = row \<and> \<not> tg_deleted g)
      | None \<Rightarrow> (\<forall>g. t = Some g \<longrightarrow> tg_deleted g))"

definition target_before :: "target option \<Rightarrow> staged list \<Rightarrow> bool" where
  "target_before t rs \<longleftrightarrow> (\<forall>g x. t = Some g \<longrightarrow> tg_lsn g = Some x \<longrightarrow> (\<forall>r \<in> set rs. x < sg_lsn r))"

lemma merge_key_Nil [simp]: "merge_key cols [] t = t"
  by (cases t) (simp_all add: merge_key_def upsert_active_def mark_deleted_def insert_tombstone_def)

lemma last_filter_last: "xs \<noteq> [] \<Longrightarrow> P (last xs) \<Longrightarrow> last_opt (filter P xs) = Some (last xs)"
  by (induction xs rule: rev_induct) (simp_all add: last_opt_def)

text \<open>The last row is live: the target takes it over, with the cells it leaves to the target.\<close>

lemma merge_key_live:
  assumes "lsn_sorted rs" "rs \<noteq> []" "\<not> sg_deleted (last rs)" "target_before t rs"
  shows "merge_key cols rs t = Some \<lparr>tg_values =
      (case t of None \<Rightarrow> sg_values (last rs) | Some g \<Rightarrow> merge_values cols (last rs) (tg_values g)),
      tg_lsn = Some (sg_lsn (last rs)), tg_deleted = False\<rparr>"
proof -
  let ?l = "last rs"
  have l: "latest rs = Some ?l" "latest (filter (\<lambda>r. \<not> sg_deleted r) rs) = Some ?l"
    using assms last_filter_last [of rs "\<lambda>r. \<not> sg_deleted r"]
    by (simp_all add: latest_sorted lsn_sorted_filter last_opt_def)
  have "newer_active ?l (latest rs) g" if "t = Some g" for g
    using assms(2,4) that by (auto simp: newer_active_def target_before_def split: option.splits)
  then have up: "upsert_active cols rs t = Some \<lparr>tg_values =
      (case t of None \<Rightarrow> sg_values ?l | Some g \<Rightarrow> merge_values cols ?l (tg_values g)),
      tg_lsn = Some (sg_lsn ?l), tg_deleted = False\<rparr>"
    by (cases t) (simp_all add: upsert_active_def l)
  show ?thesis by (simp add: merge_key_def up mark_deleted_live [OF assms(3) l(1)])
qed

text \<open>The last row is a delete: the target row is marked, or a tombstone is left.\<close>

lemma merge_key_dead:
  assumes "lsn_sorted rs" "rs \<noteq> []" "sg_deleted (last rs)" "target_before t rs"
  shows "\<exists>g. merge_key cols rs t = Some g \<and> tg_deleted g \<and> tg_lsn g = Some (sg_lsn (last rs))"
proof -
  let ?l = "last rs"
  have l: "latest rs = Some ?l" "latest (filter sg_deleted rs) = Some ?l"
    using assms last_filter_last [of rs sg_deleted]
    by (simp_all add: latest_sorted lsn_sorted_filter last_opt_def)
  have below: "sg_lsn r < sg_lsn ?l \<or> r = ?l" if "r \<in> set rs" for r
    using assms(1,2) that by (induction rs) (auto simp: lsn_sorted_def)
  show ?thesis
  proof (cases "upsert_active cols rs t")
    case None
    then show ?thesis
      by (simp add: merge_key_def mark_deleted_def insert_tombstone_def l assms(3))
  next
    case (Some g)
    have "newer_deleted ?l g"
    proof (cases "latest (filter (\<lambda>r. \<not> sg_deleted r) rs)")
      case None
      then have "t = Some g" using Some by (simp add: upsert_active_def)
      then show ?thesis using assms(2,4) by (auto simp: newer_deleted_def target_before_def split: option.splits)
    next
      case (Some a)
      then have a: "a \<in> set rs" "\<not> sg_deleted a" using latest_in by fastforce+
      then have "sg_lsn a < sg_lsn ?l" using below assms(3) by blast
      then show ?thesis
        using \<open>upsert_active cols rs t = Some g\<close> Some assms(2,4)
        by (auto simp: upsert_active_def newer_deleted_def target_before_def split: option.splits if_splits)
    qed
    then show ?thesis by (simp add: merge_key_def mark_deleted_def l assms(3) Some)
  qed
qed

text \<open>Rows staged under one key, with the table rows they stand for.\<close>

lemma merge_key_window:
  assumes rows: "list_all (window_row ts D0) ys" "\<forall>y \<in> set ys. store_key (pk_of ts) (fst y) = k"
    and sorted: "lsn_sorted (map (stage_change ts \<circ> fst) ys)" and names: "distinct (column_names ts)"
    and full: "\<And>r. D0 k = Some r \<Longrightarrow> complete_row ts r"
    and start: "target_fits (D0 k) t" "target_before t (map (stage_change ts \<circ> fst) ys)"
  shows "target_fits
    (case last_opt ys of None \<Rightarrow> D0 k | Some (d, row) \<Rightarrow> if ch_op d = DELETE then None else Some row)
    (merge_key (ts_columns ts) (map (stage_change ts \<circ> fst) ys) t)"
proof (cases "ys = []")
  case True
  then show ?thesis using start(1) by simp
next
  case False
  let ?rs = "map (stage_change ts \<circ> fst) ys"
  obtain d row where last: "last ys = (d, row)" by (cases "last ys")
  have rs: "?rs \<noteq> []" "last ?rs = stage_change ts d" using False last by (simp_all add: last_map)
  have lo: "last_opt ys = Some (d, row)" using False last by (simp add: last_opt_def)
  have "(d, row) \<in> set ys" using False last by (metis last_in_set)
  then have fits: "filled_fits ts D0 d row" and key: "store_key (pk_of ts) d = k"
    using rows by (auto simp: list_all_iff window_row_def)
  have del: "sg_deleted (stage_change ts d) \<longleftrightarrow> ch_op d = DELETE" by (simp add: stage_change_def Let_def)
  show ?thesis
  proof (cases "ch_op d = DELETE")
    case True
    then show ?thesis
      using merge_key_dead [OF sorted rs(1) _ start(2), of "ts_columns ts"] rs(2) del
      by (auto simp: target_fits_def lo)
  next
    case live: False
    note sv = staged_values [OF fits live names]
    have row: "length row = source_column_count ts"
      using fits live by (auto simp: filled_fits_def complete_row_def split: change_op.splits)
    have vals: "(case t of None \<Rightarrow> sg_values (stage_change ts d)
        | Some g \<Rightarrow> merge_values (ts_columns ts) (stage_change ts d) (tg_values g)) = row"
    proof (cases t)
      case None
      then have "D0 k = None" using start(1) by (auto simp: target_fits_def split: option.splits)
      then show ?thesis using None sv(2,3) key by auto
    next
      case (Some g)
      have "(if column_is_unchanged d i then column_value_at (tg_values g) i else row ! i) = row ! i"
        if i: "i < source_column_count ts" for i
      proof (cases "column_is_unchanged d i")
        case True
        then obtain row0 where row0: "D0 k = Some row0" "row0 ! i = row ! i" using sv(3) [OF True i] key by auto
        then have "tg_values g = row0" using start(1) Some by (simp add: target_fits_def)
        moreover have "i < length row0" using full [OF row0(1)] i by (simp add: complete_row_def)
        ultimately show ?thesis using row0(2) True by (simp add: column_value_at_def)
      qed simp
      then have "map (\<lambda>i. if column_is_unchanged d i then column_value_at (tg_values g) i else row ! i)
          [0..<source_column_count ts] = map (\<lambda>i. row ! i) [0..<source_column_count ts]"
        by (intro map_cong) simp_all
      also have "\<dots> = row" using map_nth [of row] row by simp
      finally have "map (\<lambda>i. if column_is_unchanged d i then column_value_at (tg_values g) i else row ! i)
          [0..<source_column_count ts] = row" .
      then show ?thesis using Some sv(1) by simp
    qed
    show ?thesis
      using merge_key_live [OF sorted rs(1) _ start(2), of "ts_columns ts", unfolded rs(2) vals] del live
      by (simp add: target_fits_def lo)
  qed
qed

subsection \<open>The flush of a table\<close>

definition last_truncate_index :: "change list \<Rightarrow> int" where
  "last_truncate_index cs =
     (case rev (filter (\<lambda>i. ch_op (cs ! i) = TRUNCATE) [0..<length cs]) of [] \<Rightarrow> -1 | i # _ \<Rightarrow> int i)"

datatype flush_error = FlushPrune toast_error | FlushTruncate toast_error | NoSchema string | FlushFill fill_error

definition map_error :: "('e \<Rightarrow> 'f) \<Rightarrow> ('e, 'a) result \<Rightarrow> ('f, 'a) result" where
  "map_error f r = (case r of Inl e \<Rightarrow> Inl (f e) | Inr x \<Rightarrow> Inr x)"

lemma map_error_Inr [simp]: "map_error f r = Inr x \<longleftrightarrow> r = Inr x"
  by (cases r) (simp_all add: map_error_def)

text \<open>\<open>flushTableContext\<close> up to the sends: whether the target is truncated first, the changes that
  are materialized, and the TOAST state afterwards. \<open>durable\<close> is the position known to be merged,
  when there is one to ask for.\<close>

definition flush_changes :: "(cell list \<Rightarrow> int) \<Rightarrow> scratch_faults \<Rightarrow> lsn option \<Rightarrow> table_schema option \<Rightarrow>
  string \<Rightarrow> change list \<Rightarrow> toast_state \<Rightarrow> (flush_error, bool \<times> change list \<times> toast_state) result" where
  "flush_changes est fails durable tso table cs s =
     bind_result (map_error FlushPrune (case durable of None \<Rightarrow> Inr s | Some d \<Rightarrow> toast_prune fails s d)) (\<lambda>s1.
     let t = last_truncate_index cs
     in bind_result (map_error FlushTruncate (if 0 \<le> t then toast_truncate fails s1 table else Inr s1)) (\<lambda>s2.
        let cs1 = (if 0 \<le> t then drop (nat t + 1) cs else cs)
        in if tso = None then Inl (NoSchema table)
           else if cs1 = [] then Inr (0 \<le> t, [], s2)
           else bind_result (map_error FlushFill (fill_unchanged_columns est fails cs1 tso table s2)) (\<lambda>(cs2, s3).
             Inr (0 \<le> t, compact_changes (expand_updates cs2 tso) tso, s3))))"

text \<open>What the destination does with a flushed table.\<close>

definition apply_flush :: "table_schema \<Rightarrow> bool \<Rightarrow> change list \<Rightarrow> (string \<rightharpoonup> target) \<Rightarrow> (string \<rightharpoonup> target)" where
  "apply_flush ts trunc cs T =
     merge_staged (ts_columns ts) (stage_changes ts cs) (if trunc then Map.empty else T)"

text \<open>The events behind a window: those after its last TRUNCATE, on the table it empties.\<close>

definition live_events :: "(change \<times> cell list) list \<Rightarrow> (change \<times> cell list) list" where
  "live_events es =
     (let t = last_truncate_index (map fst es) in if 0 \<le> t then drop (nat t + 1) es else es)"

definition live_start :: "(change \<times> cell list) list \<Rightarrow> source_rows \<Rightarrow> source_rows" where
  "live_start es D = (if 0 \<le> last_truncate_index (map fst es) then Map.empty else D)"

text \<open>Source and target in step: what the TOAST state knows of the table is true, the target shows
  the rows of the source, and nothing in the target is past the position text \<open>p\<close>.\<close>

definition in_step :: "(cell list \<Rightarrow> int) \<Rightarrow> table_schema \<Rightarrow> string \<Rightarrow> source_rows \<Rightarrow> toast_state \<Rightarrow>
  (string \<rightharpoonup> target) \<Rightarrow> string \<Rightarrow> bool" where
  "in_step est ts table D s T p \<longleftrightarrow>
     (\<exists>K. toast_known est table s K \<and> known_sound ts D K) \<and>
     (\<forall>k. target_fits (D k) (T k)) \<and> (\<forall>k r. D k = Some r \<longrightarrow> complete_row ts r) \<and>
     (\<forall>k g x. T k = Some g \<longrightarrow> tg_lsn g = Some x \<longrightarrow> x \<le> p)"

definition change_start :: "change \<Rightarrow> string" where
  "change_start c = format_change_lsn (ch_lsn c) (ch_seq c - 1)"

definition change_end :: "change \<Rightarrow> string" where
  "change_end c = format_change_lsn (ch_lsn c) (ch_seq c)"

text \<open>The hypotheses on a window between two positions: the history behind it fits the source
  table, and its changes come in the order of their positions.\<close>

definition window_ok :: "table_schema \<Rightarrow> source_rows \<Rightarrow> (change \<times> cell list) list \<Rightarrow> string \<Rightarrow> string \<Rightarrow> bool" where
  "window_ok ts D es p p' \<longleftrightarrow>
     history_fits ts (live_start es D) (live_events es) \<and> window_order (map fst (live_events es)) \<and>
     p \<le> p' \<and> (\<forall>e \<in> set (live_events es). p < change_start (fst e) \<and> change_end (fst e) \<le> p')"

lemma last_truncate_index_nth:
  assumes "0 \<le> last_truncate_index cs"
  shows "\<exists>i < length cs. last_truncate_index cs = int i \<and> ch_op (cs ! i) = TRUNCATE"
proof (cases "rev (filter (\<lambda>i. ch_op (cs ! i) = TRUNCATE) [0..<length cs])")
  case Nil
  then show ?thesis using assms by (simp add: last_truncate_index_def)
next
  case (Cons i is')
  then have "i \<in> set (filter (\<lambda>i. ch_op (cs ! i) = TRUNCATE) [0..<length cs])"
    by (metis list.set_intros(1) set_rev)
  then show ?thesis using Cons by (simp add: last_truncate_index_def)
qed

lemma live_run: "source_run ts es D = source_run ts (live_events es) (live_start es D)"
proof (cases "0 \<le> last_truncate_index (map fst es)")
  case True
  then obtain i where i: "last_truncate_index (map fst es) = int i" "i < length es"
      "ch_op (fst (es ! i)) = TRUNCATE"
    using last_truncate_index_nth by fastforce
  have "es = take i es @ es ! i # drop (Suc i) es" using i(2) by (rule id_take_nth_drop)
  then have "source_run ts es D = fold (source_apply ts) (drop (Suc i) es)
      (source_apply ts (es ! i) (fold (source_apply ts) (take i es) D))"
    unfolding source_run_def by (metis fold_append fold_simps(2) o_apply)
  moreover have "source_apply ts (es ! i) D' = Map.empty" for D'
    using i(3) by (cases "es ! i") (simp add: source_apply_def)
  ultimately show ?thesis using i(1) by (simp add: live_events_def live_start_def source_run_def Let_def)
qed (simp add: live_events_def live_start_def Let_def)

lemma upsert_active_lsn:
  assumes "upsert_active cols rs t = Some g" "tg_lsn g = Some x"
  shows "t = Some g \<or> (\<exists>r \<in> set rs. sg_lsn r = x)"
proof (cases "latest (filter (\<lambda>r. \<not> sg_deleted r) rs)")
  case None
  then show ?thesis using assms by (simp add: upsert_active_def)
next
  case (Some a)
  then have "a \<in> set rs" using latest_in by fastforce
  then show ?thesis using assms Some by (auto simp: upsert_active_def split: option.splits if_splits)
qed

lemma mark_deleted_lsn:
  assumes "mark_deleted rs t = Some g" "tg_lsn g = Some x"
  shows "t = Some g \<or> (\<exists>r \<in> set rs. sg_lsn r = x)"
proof (cases "latest (filter sg_deleted rs)")
  case None
  then show ?thesis using assms by (simp add: mark_deleted_def)
next
  case (Some d)
  then have "d \<in> set rs" using latest_in by fastforce
  then show ?thesis using assms Some by (auto simp: mark_deleted_def split: option.splits if_splits)
qed

lemma merge_key_lsn:
  assumes "merge_key cols rs t = Some g" "tg_lsn g = Some x"
  shows "t = Some g \<or> (\<exists>r \<in> set rs. sg_lsn r = x)"
proof (cases "mark_deleted rs (upsert_active cols rs t)")
  case None
  then obtain l where "latest rs = Some l" "sg_lsn l = x"
    using assms by (auto simp: merge_key_def insert_tombstone_def split: option.splits if_splits)
  then show ?thesis using latest_in by blast
next
  case (Some g')
  then have "g' = g" using assms(1) by (simp add: merge_key_def)
  then show ?thesis using mark_deleted_lsn [OF _ assms(2)] upsert_active_lsn [OF _ assms(2)] Some by blast
qed

subsection \<open>A flush keeps source and target in step\<close>

lemma toast_prune_known:
  assumes "toast_known est table s K" "known_sound ts D K" "toast_prune fails s d = Inr s'"
  shows "\<exists>K'. toast_known est table s' K' \<and> known_sound ts D K'"
proof -
  obtain A where A: "\<forall>v. 0 \<le> est v" "toast_rel s A" "K = (\<lambda>k. map_option fst (A (table, k)))"
    using assms(1) by (auto simp: toast_known_def)
  define A' where "A' = (if d \<le> toast_pruned s then A else spec_prune d A)"
  define K' where "K' = (\<lambda>k. map_option fst (A' (table, k)))"
  have "toast_known est table s' K'"
    using toast_prune_rel [OF A(2) assms(3)] A(1) by (auto simp: toast_known_def A'_def K'_def)
  moreover have "K' k = Some v \<Longrightarrow> K k = Some v" for k v
    by (auto simp: K'_def A'_def A(3) spec_prune_def split: option.splits if_splits)
  then have "known_sound ts D K'" using assms(2) unfolding known_sound_def by blast
  ultimately show ?thesis by blast
qed

lemma toast_truncate_known:
  assumes "toast_known est table s K" "toast_truncate fails s table = Inr s'"
  shows "toast_known est table s' Map.empty"
proof -
  obtain A where A: "\<forall>v. 0 \<le> est v" "toast_rel s A" using assms(1) by (auto simp: toast_known_def)
  then show ?thesis
    using toast_truncate_rel [OF A(2) assms(2)] by (auto simp: toast_known_def spec_truncate_def fun_eq_iff)
qed

lemma known_sound_empty: "known_sound ts D Map.empty"
  by (simp add: known_sound_def)

lemma result_row:
  assumes "list_all (window_row ts D0) xs" "\<And>k r. D0 k = Some r \<Longrightarrow> complete_row ts r"
    and "fold (point_apply ts) xs D0 k = Some r"
  shows "complete_row ts r"
proof (cases "last_opt (filter (\<lambda>x. store_key (pk_of ts) (fst x) = k) xs)")
  case None
  then show ?thesis using assms(2,3) by (simp add: point_run_key)
next
  case (Some x)
  obtain d row where x: "x = (d, row)" by (cases x)
  then have r: "ch_op d \<noteq> DELETE" "row = r" using assms(3) Some by (auto simp: point_run_key split: if_splits)
  have "x \<in> set xs"
    using Some by (metis filter_is_subset last_in_set last_opt_def option.distinct(1) option.inject subsetD)
  then have "filled_fits ts D0 d row" using assms(1) by (auto simp: list_all_iff window_row_def x)
  then show ?thesis using r by (auto simp: filled_fits_def split: change_op.splits)
qed

text \<open>The changes a filled window is staged from stay between its positions.\<close>

lemma expanded_between:
  assumes "list_all2 (fill_result ts D0) cs es" "window_order (map fst es)"
    and "\<forall>e \<in> set es. p < change_start (fst e) \<and> change_end (fst e) \<le> p'"
  shows "window_order cs"
    and "c \<in> set (concat (map (expand_update ks False) cs)) \<Longrightarrow>
      p < format_change_lsn (ch_lsn c) (ch_seq c) \<and> format_change_lsn (ch_lsn c) (ch_seq c) \<le> p'"
proof -
  have same: "map (\<lambda>c. (ch_lsn c, ch_seq c)) cs = map (\<lambda>e. (ch_lsn (fst e), ch_seq (fst e))) es"
    using assms(1) by (induction rule: list_all2_induct) (simp_all add: fill_result_def same_position_def)
  have wo: "window_order ds \<longleftrightarrow> sorted_wrt (\<lambda>(l, s) (l', s'). change_position_less l s l' s')
        (map (\<lambda>c. (ch_lsn c, ch_seq c)) ds) \<and>
      list_all (\<lambda>(l, s). even (unat s) \<and> s \<noteq> 0) (map (\<lambda>c. (ch_lsn c, ch_seq c)) ds)" for ds
    by (simp add: window_order_def sorted_wrt_map list_all_iff change_less_def [abs_def])
  show ord: "window_order cs"
    using assms(2) unfolding wo same by (simp add: comp_def)
  assume "c \<in> set (concat (map (expand_update ks False) cs))"
  then obtain d where d: "d \<in> set cs" "c \<in> set (expand_update ks False d)" by auto
  have "(ch_lsn d, ch_seq d) \<in> set (map (\<lambda>e. (ch_lsn (fst e), ch_seq (fst e))) es)"
    unfolding same [symmetric] using d(1) by auto
  then obtain e where e: "e \<in> set es" "ch_lsn (fst e) = ch_lsn d" "ch_seq (fst e) = ch_seq d" by auto
  then have b: "p < format_change_lsn (ch_lsn d) (ch_seq d - 1)" "format_change_lsn (ch_lsn d) (ch_seq d) \<le> p'"
    using assms(3) by (auto simp: change_start_def change_end_def)
  have nz: "ch_seq d \<noteq> 0" using ord d(1) by (auto simp: window_order_def list_all_iff)
  then have "ch_seq d - 1 < ch_seq d" using unat_gt_0 [of "ch_seq d"] by (simp add: word_less_nat_alt unat_pred)
  then have lt: "format_change_lsn (ch_lsn d) (ch_seq d - 1) < format_change_lsn (ch_lsn d) (ch_seq d)"
    by (simp add: change_lsn_order_text change_position_less_def)
  from d(2) have "ch_lsn c = ch_lsn d \<and> (ch_seq c = ch_seq d \<or> ch_seq c = ch_seq d - 1)"
    using nz by (auto simp: expand_update_keyed moved_delete_def word_neq_0_conv split: if_splits)
  then show "p < format_change_lsn (ch_lsn c) (ch_seq c) \<and> format_change_lsn (ch_lsn c) (ch_seq c) \<le> p'"
    using b lt by auto
qed

text \<open>The merge of an expanded and filled window.\<close>

lemma window_in_step:
  assumes fill: "list_all2 (fill_result ts D) cs es" and pk: "pk_in_source ts" and names: "distinct (column_names ts)"
    and ord: "window_order (map fst es)" "\<forall>e \<in> set es. p < change_start (fst e) \<and> change_end (fst e) \<le> p'" "p \<le> p'"
    and fits: "\<And>k. target_fits (D k) (T k)" and full: "\<And>k r. D k = Some r \<Longrightarrow> complete_row ts r"
    and upto: "\<And>k g x. T k = Some g \<Longrightarrow> tg_lsn g = Some x \<Longrightarrow> x \<le> p"
  defines "T' \<equiv> merge_staged (ts_columns ts)
    (stage_changes ts (compact_changes (expand_updates cs (Some ts)) (Some ts))) T"
  shows "target_fits (source_run ts es D k) (T' k)"
    and "source_run ts es D k = Some r \<Longrightarrow> complete_row ts r"
    and "T' k = Some g \<Longrightarrow> tg_lsn g = Some x \<Longrightarrow> x \<le> p'"
proof -
  define xs where "xs = concat (map (expand_event ts) (zip cs (map snd es)))"
  note wr = window_rows [OF fill, folded xs_def]
  have exp: "expand_updates cs (Some ts) = map fst xs"
    using pk expand_updates_concat wr(2) by (simp add: pk_in_source_def)
  note bet = expanded_between [OF fill ord(1,2)]
  have sorted: "sorted_wrt change_less (map fst xs)"
    unfolding wr(2) by (rule expand_order [OF bet(1)])
  have key: "sg_key (stage_change ts (fst x)) = store_key (pk_of ts) (fst x)" "has_keys (pk_of ts) (fst x)"
    if "x \<in> set xs" for x
    using that wr(1) staged_key [OF _ pk] filled_keys by (auto simp: list_all_iff window_row_def)
  have "keyed_window ts (map fst xs)"
    using key pk by (auto simp: keyed_window_def list_all_iff pk_in_source_def)
  then have T': "T' = merge_staged (ts_columns ts) (stage_changes ts (map fst xs)) T"
    unfolding T'_def exp by (rule compaction_merge [OF _ sorted])
  define ys where "ys = filter (\<lambda>x. store_key (pk_of ts) (fst x) = k) xs"
  have rows: "filter (\<lambda>r. sg_key r = k) (stage_changes ts (map fst xs)) = map (stage_change ts \<circ> fst) ys"
    using key(1) by (simp add: stage_changes_def filter_map ys_def comp_def cong: filter_cong)
  have pos: "p < sg_lsn r \<and> sg_lsn r \<le> p'" if "r \<in> set (map (stage_change ts \<circ> fst) ys)" for r
  proof -
    obtain y where "y \<in> set xs" "r = stage_change ts (fst y)" using \<open>r \<in> _\<close> by (auto simp: ys_def)
    then have "fst y \<in> set (map fst xs)" "sg_lsn r = format_change_lsn (ch_lsn (fst y)) (ch_seq (fst y))"
      by (simp_all add: stage_change_def Let_def)
    then show ?thesis using bet(2) [of "fst y" "pk_of ts"] unfolding wr(2) by simp
  qed
  have before: "target_before (T k) (map (stage_change ts \<circ> fst) ys)"
    unfolding target_before_def using upto pos by (meson order.strict_trans1)
  have "lsn_sorted (map (stage_change ts \<circ> fst) ys)"
    using lsn_sorted_filter [OF staged_order [OF sorted]] unfolding rows [symmetric] .
  then have "target_fits
    (case last_opt ys of None \<Rightarrow> D k | Some (d, row) \<Rightarrow> if ch_op d = DELETE then None else Some row)
    (merge_key (ts_columns ts) (map (stage_change ts \<circ> fst) ys) (T k))"
    using wr(1) full fits before
    by (intro merge_key_window [OF _ _ _ names]) (auto simp: ys_def list_all_iff)
  then show "target_fits (source_run ts es D k) (T' k)"
    using point_run_key [of ts xs D k] wr(3) [of D] by (simp add: T' merge_staged_def rows ys_def)
  show "source_run ts es D k = Some r \<Longrightarrow> complete_row ts r"
    using result_row [OF wr(1) full] wr(3) [of D] by simp
  show "T' k = Some g \<Longrightarrow> tg_lsn g = Some x \<Longrightarrow> x \<le> p'"
    using merge_key_lsn [of "ts_columns ts" "map (stage_change ts \<circ> fst) ys" "T k" g x] upto [of k g x] ord(3) pos
    unfolding T' merge_staged_def rows by (auto intro: order_trans)
qed

lemma flush_in_step:
  assumes step: "in_step est ts table D s T p" and pk: "pk_in_source ts" and names: "distinct (column_names ts)"
    and window: "window_ok ts D es p p'"
    and flush: "flush_changes est fails durable (Some ts) table (map fst es) s = Inr (trunc, cs', s')"
  shows "in_step est ts table (source_run ts es D) s' (apply_flush ts trunc cs' T) p'"
proof -
  define t where "t = last_truncate_index (map fst es)"
  define T0 where "T0 = (if 0 \<le> t then Map.empty else T)"
  have cs1: "(if 0 \<le> t then drop (nat t + 1) (map fst es) else map fst es) = map fst (live_events es)"
    by (simp add: live_events_def t_def Let_def drop_map)
  obtain s1 s2 where
    s1: "(case durable of None \<Rightarrow> Inr s | Some d \<Rightarrow> toast_prune fails s d) = Inr s1" and
    s2: "(if 0 \<le> t then toast_truncate fails s1 table else Inr s1) = Inr s2" and
    rest: "(if map fst (live_events es) = [] then Inr (0 \<le> t, [], s2)
      else bind_result (map_error FlushFill (fill_unchanged_columns est fails (map fst (live_events es)) (Some ts) table s2))
        (\<lambda>(cs2, s3). Inr (0 \<le> t, compact_changes (expand_updates cs2 (Some ts)) (Some ts), s3))) =
      Inr (trunc, cs', s')"
    using flush unfolding flush_changes_def t_def [symmetric] Let_def bind_result_Inr_iff cs1
    by (auto simp del: map_is_Nil_conv)
  obtain K where K: "toast_known est table s K" "known_sound ts D K"
    using step by (auto simp: in_step_def)
  obtain K1 where K1: "toast_known est table s1 K1" "known_sound ts D K1"
  proof (cases durable)
    case None
    then show ?thesis using s1 K that by simp
  next
    case (Some d)
    then show ?thesis using s1 toast_prune_known [OF K, of fails d s1] that by auto
  qed
  define K2 where "K2 = (if 0 \<le> t then Map.empty else K1)"
  have K2: "toast_known est table s2 K2" "known_sound ts (live_start es D) K2"
    using s2 K1 toast_truncate_known [OF K1(1), of fails s2] known_sound_empty
    by (auto simp: live_start_def t_def K2_def split: if_splits)
  obtain cs2 where cs2: "fill_unchanged_columns est fails (map fst (live_events es)) (Some ts) table s2 = Inr (cs2, s')"
      "trunc = (0 \<le> t)" "cs' = compact_changes (expand_updates cs2 (Some ts)) (Some ts)"
  proof (cases "live_events es = []")
    case True
    then show ?thesis using rest that [of "[]"]
      by (simp add: fill_unchanged_columns_def expand_updates_def compact_changes_def Let_def)
  next
    case False
    then show ?thesis using rest that by (auto simp: bind_result_Inr_iff)
  qed
  have w: "history_fits ts (live_start es D) (live_events es)" "window_order (map fst (live_events es))" "p \<le> p'"
      "\<forall>e \<in> set (live_events es). p < change_start (fst e) \<and> change_end (fst e) \<le> p'"
    using window by (simp_all add: window_ok_def)
  have "pk_of ts \<noteq> []" using pk by (simp add: pk_in_source_def)
  from fill_unchanged_columns_correct [OF cs2(1) K2 w(1) this]
  have fill: "list_all2 (fill_result ts (live_start es D)) cs2 (live_events es)"
    and known: "\<exists>K'. toast_known est table s' K' \<and> known_sound ts (source_run ts es D) K'"
    by (simp_all add: live_run [symmetric])
  have start: "\<And>k. target_fits (live_start es D k) (T0 k)"
      "\<And>k r. live_start es D k = Some r \<Longrightarrow> complete_row ts r"
      "\<And>k g x. T0 k = Some g \<Longrightarrow> tg_lsn g = Some x \<Longrightarrow> x \<le> p"
    using step by (auto simp: in_step_def T0_def live_start_def t_def target_fits_def split: if_splits)
  have "apply_flush ts trunc cs' T = merge_staged (ts_columns ts)
      (stage_changes ts (compact_changes (expand_updates cs2 (Some ts)) (Some ts))) T0"
    by (simp add: apply_flush_def cs2 T0_def)
  then show ?thesis
    using window_in_step [OF fill pk names w(2,4,3) start] known
    by (simp add: in_step_def live_run [symmetric])
qed

text \<open>A table's flushes one after the other, each with the position the pipeline has confirmed, the
  fault behaviour of the scratch database it meets, and the history behind its window.\<close>

fun flush_windows :: "(cell list \<Rightarrow> int) \<Rightarrow> table_schema \<Rightarrow> string \<Rightarrow>
  (scratch_faults \<times> lsn option \<times> (change \<times> cell list) list) list \<Rightarrow> toast_state \<Rightarrow> (string \<rightharpoonup> target) \<Rightarrow>
  (flush_error, toast_state \<times> (string \<rightharpoonup> target)) result" where
  "flush_windows est ts table [] s T = Inr (s, T)"
| "flush_windows est ts table ((fails, durable, es) # ws) s T =
     bind_result (flush_changes est fails durable (Some ts) table (map fst es) s) (\<lambda>(trunc, cs, s1).
       flush_windows est ts table ws s1 (apply_flush ts trunc cs T))"

fun windows_ok :: "table_schema \<Rightarrow> source_rows \<Rightarrow> (change \<times> cell list) list list \<Rightarrow> string \<Rightarrow> string list \<Rightarrow> bool" where
  "windows_ok ts D [] p [] \<longleftrightarrow> True"
| "windows_ok ts D (es # ess) p (q # qs) \<longleftrightarrow> window_ok ts D es p q \<and> windows_ok ts (source_run ts es D) ess q qs"
| "windows_ok ts D _ p _ \<longleftrightarrow> False"

lemma flush_windows_in_step:
  assumes "in_step est ts table D s T p" "pk_in_source ts" "distinct (column_names ts)"
    and "windows_ok ts D (map (snd \<circ> snd) ws) p qs" "flush_windows est ts table ws s T = Inr (s', T')"
  shows "in_step est ts table (source_run ts (concat (map (snd \<circ> snd) ws)) D) s' T' (last (p # qs))"
  using assms(1,4,5)
proof (induction ws arbitrary: D s T p qs)
  case Nil
  then show ?case by (cases qs) (simp_all add: source_run_def)
next
  case (Cons w ws)
  obtain fails durable es where w: "w = (fails, durable, es)" by (cases w) auto
  obtain q qs' where qs: "qs = q # qs'" using Cons.prems(2) by (cases qs) simp_all
  obtain trunc cs s1 where f: "flush_changes est fails durable (Some ts) table (map fst es) s = Inr (trunc, cs, s1)"
      "flush_windows est ts table ws s1 (apply_flush ts trunc cs T) = Inr (s', T')"
    using Cons.prems(3) by (auto simp: w bind_result_Inr_iff)
  have ok: "window_ok ts D es p q" "windows_ok ts (source_run ts es D) (map (snd \<circ> snd) ws) q qs'"
    using Cons.prems(2) by (simp_all add: w qs comp_def)
  from Cons.IH [OF flush_in_step [OF Cons.prems(1) assms(2,3) ok(1) f(1)] ok(2) f(2)]
  show ?case by (simp add: w qs source_run_def)
qed

subsection \<open>An example\<close>

definition sample_windows :: "(change \<times> cell list) list list" where
  "sample_windows =
     [[(\<lparr>ch_op = INSERT, ch_lsn = 16, ch_seq = 2, ch_values = [sample_cell ''1'', sample_doc ''x''],
         ch_old = None\<rparr>, [sample_cell ''1'', sample_doc ''x''])],
      [(\<lparr>ch_op = UPDATE, ch_lsn = 32, ch_seq = 2, ch_values = [sample_cell ''2'', CMarker False],
         ch_old = Some [sample_cell ''1'', CNull]\<rparr>, [sample_cell ''2'', sample_doc ''x'']),
       (\<lparr>ch_op = UPDATE, ch_lsn = 32, ch_seq = 4, ch_values = [sample_cell ''2'', CMarker False],
         ch_old = None\<rparr>, [sample_cell ''2'', sample_doc ''x''])]]"

definition sample_flushes :: "(scratch_faults \<times> lsn option \<times> (change \<times> cell list) list) list" where
  "sample_flushes = map (\<lambda>es. (\<lambda>n. False, None, es)) sample_windows"

lemma sample_flush_ok:
  "case flush_changes (\<lambda>v. 0) (\<lambda>n. False) None (Some sample_cdc_schema) ''docs''
       (map fst (sample_windows ! 0)) new_toast_state of
     Inl _ \<Rightarrow> False
   | Inr (_, _, s) \<Rightarrow>
      is_ok (flush_changes (\<lambda>v. 0) (\<lambda>n. False) None (Some sample_cdc_schema) ''docs''
        (map fst (sample_windows ! 1)) s)"
  by code_simp

lemma nil_less_format: "[] < format_change_lsn l s"
  by (cases "format_change_lsn l s") (simp_all add: format_change_lsn_def format_lsn_def split: if_splits)

lemma all_less_2: "(\<forall>i < 2. P i) \<longleftrightarrow> P 0 \<and> P (1::nat)"
  by (auto simp: less_2_cases_iff)

lemma sample_windows_ok:
  "windows_ok sample_cdc_schema Map.empty sample_windows [] [format_change_lsn 16 2, format_change_lsn 32 4]"
  by (simp add: sample_windows_def window_ok_def live_events_def live_start_def last_truncate_index_def Let_def
      event_fits_def has_keys_def complete_row_def update_fits_def all_less_2 source_apply_def source_run_def
      pk_value_changed_def column_value_at_def key_part_def old_values_def sample_cell_def sample_doc_def
      store_key_def lookup_key_def window_order_def change_less_def change_position_less_def
      change_start_def change_end_def change_lsn_order_text not_less [symmetric] nil_less_format)

text \<open>Replication keeps the target in step with the source. Flush after flush, with values
  PostgreSQL leaves out, rows that move to another key, truncations, superseded versions dropped,
  the TOAST state pruned and spilled: after every window the rows the target shows are the rows of
  the source table at the window's end, and the TOAST state knows nothing untrue. Assumed are
  histories that fit the table, changes in the order of their positions, and the effect of the
  destination's merge.\<close>

theorem replication_keeps_step:
  assumes "in_step est ts table D s T p" "pk_in_source ts" "distinct (column_names ts)"
    and "windows_ok ts D (map (snd \<circ> snd) ws) p qs" "flush_windows est ts table ws s T = Inr (s', T')"
  shows "in_step est ts table (source_run ts (concat (map (snd \<circ> snd) ws)) D) s' T' (last (p # qs))"
  by (rule flush_windows_in_step [OF assms])

theorem replication_keeps_step_witness:
  "\<exists>s' T'. flush_windows (\<lambda>v. 0) sample_cdc_schema ''docs'' sample_flushes new_toast_state Map.empty = Inr (s', T') \<and>
     in_step (\<lambda>v. 0) sample_cdc_schema ''docs'' (source_run sample_cdc_schema (concat sample_windows) Map.empty) s' T'
       (format_change_lsn 32 4)"
proof -
  obtain s' T' where run:
    "flush_windows (\<lambda>v. 0) sample_cdc_schema ''docs'' sample_flushes new_toast_state Map.empty = Inr (s', T')"
    using sample_flush_ok
    by (auto simp: sample_flushes_def sample_windows_def is_ok_iff split: sum.splits)
  have start: "in_step (\<lambda>v. 0) sample_cdc_schema ''docs'' Map.empty new_toast_state Map.empty []"
    using new_toast_rel known_sound_empty
    by (auto simp: in_step_def toast_known_def target_fits_def intro!: exI [of _ Map.empty] simp: fun_eq_iff)
  have "map (snd \<circ> snd) sample_flushes = sample_windows" by (simp add: sample_flushes_def comp_def)
  then have "in_step (\<lambda>v. 0) sample_cdc_schema ''docs''
      (source_run sample_cdc_schema (concat sample_windows) Map.empty) s' T' (format_change_lsn 32 4)"
    using replication_keeps_step [OF start _ sample_pk(4) _ run,
        where qs = "[format_change_lsn 16 2, format_change_lsn 32 4]"] sample_windows_ok
    by (simp add: pk_in_source_def)
  then show ?thesis using run by blast
qed

definition sample_moves :: "change list" where
  "sample_moves =
     [\<lparr>ch_op = INSERT, ch_lsn = 16, ch_seq = 2, ch_values = [sample_cell ''1'', sample_doc ''x''], ch_old = None\<rparr>,
      \<lparr>ch_op = UPDATE, ch_lsn = 16, ch_seq = 4, ch_values = [sample_cell ''1'', sample_doc ''y''], ch_old = None\<rparr>,
      \<lparr>ch_op = DELETE, ch_lsn = 32, ch_seq = 2, ch_values = [sample_cell ''1'', CNull], ch_old = None\<rparr>,
      \<lparr>ch_op = INSERT, ch_lsn = 48, ch_seq = 2, ch_values = [sample_cell ''2'', sample_doc ''z''], ch_old = None\<rparr>]"

text \<open>C26: Compaction cannot alter the outcome of the merge: whatever the target holds, merging the
  compacted window gives what merging the whole window gives.\<close>

theorem compaction_preserves_merge:
  assumes "keyed_window ts cs" "sorted_wrt change_less cs"
  shows "merge_staged cols (stage_changes ts (compact_changes cs (Some ts))) T =
    merge_staged cols (stage_changes ts cs) T"
  by (rule compaction_merge [OF assms])

theorem compaction_preserves_merge_witness:
  "length (compact_changes sample_moves (Some sample_cdc_schema)) = 3 \<and>
   (\<forall>T. merge_staged (ts_columns sample_cdc_schema) (stage_changes sample_cdc_schema
       (compact_changes sample_moves (Some sample_cdc_schema))) T =
     merge_staged (ts_columns sample_cdc_schema) (stage_changes sample_cdc_schema sample_moves) T)"
proof -
  have "length (compact_changes sample_moves (Some sample_cdc_schema)) = 3" by code_simp
  moreover have "keyed_window sample_cdc_schema sample_moves"
    by (simp add: keyed_window_def sample_moves_def has_keys_def key_part_def column_value_at_def sample_cell_def
        sample_doc_def stage_change_def store_key_def pk_key_from_row_def pk_value_changed_def
        resolve_column_value_def resolve_column_value_base_def upt_rec Let_def)
  moreover have "sorted_wrt change_less sample_moves"
    by (simp add: sample_moves_def change_less_def change_position_less_def)
  ultimately show ?thesis using compaction_preserves_merge by blast
qed

end
