(* ===== verification/Cdc_Stream.thy ===== *)
theory Cdc_Stream
  imports Cdc_Window
begin

text \<open>
  The stream of one table: the decoder's transactions (\<^verbatim>\<open>decoder.go\<close>), the replicator
  (\<^verbatim>\<open>replicator.go\<close>, \<^verbatim>\<open>batch_barrier.go\<close>), the accumulator (\<^verbatim>\<open>batch_accumulator.go\<close>), the commit
  positions (\<^verbatim>\<open>commit_state.go\<close>) and the loop that drives them (\<open>streamLoop\<close> in \<^verbatim>\<open>reader.go\<close>), all
  under \<^verbatim>\<open>pkg/source/postgres_cdc\<close>.

  A message of the replication protocol is given by its meaning for the table: a BEGIN with the
  transaction's commit position, a row change of the table, a COMMIT, a logical message, or one
  that decodes to nothing (other tables, relations, types). The spools of a transaction are
  lists. The accumulator's maps hold the one table the reader adds to, under the name \<open>''''\<close>.
\<close>

subsection \<open>Messages\<close>

record logical_message =
  lm_transactional :: bool
  lm_lsn :: lsn
  lm_prefix :: string
  lm_content :: string

datatype wal_payload =
    MBegin lsn
  | MRow change
  | MSkip
  | MCommit lsn
  | MMessage logical_message

record xlog =
  xl_start :: lsn
  xl_payload :: wal_payload

definition batch_barrier_prefix :: string where "batch_barrier_prefix = ''ingestr_cdc_batch_barrier''"
definition stream_heartbeat_prefix :: string where "stream_heartbeat_prefix = ''ingestr_cdc_stream_heartbeat''"

definition matches_batch_barrier :: "logical_message \<Rightarrow> string \<Rightarrow> bool" where
  "matches_batch_barrier m nonce \<longleftrightarrow> nonce \<noteq> [] \<and> \<not> lm_transactional m \<and>
     lm_prefix m = batch_barrier_prefix \<and> lm_content m = nonce"

definition matches_stream_heartbeat :: "logical_message \<Rightarrow> bool" where
  "matches_stream_heartbeat m \<longleftrightarrow> \<not> lm_transactional m \<and> lm_prefix m = stream_heartbeat_prefix"

subsection \<open>The decoder\<close>

record decoder =
  dc_tx :: lsn
  dc_pending :: "change list"
  dc_committed :: "change list option"

definition has_committed :: "decoder \<Rightarrow> bool" where
  "has_committed d \<longleftrightarrow> (case dc_committed d of None \<Rightarrow> False | Some cs \<Rightarrow> cs \<noteq> [])"

definition default_committed_drain_changes :: nat where "default_committed_drain_changes = 1024"
definition default_committed_drain_bytes :: int where "default_committed_drain_bytes = 8388608"

text \<open>\<open>Drain\<close> of a spool: up to \<open>limit\<close> changes, fewer once their encoded sizes reach the byte limit.\<close>

fun drain_take :: "(change \<Rightarrow> int) \<Rightarrow> nat \<Rightarrow> int \<Rightarrow> change list \<Rightarrow> change list \<times> change list" where
  "drain_take sz n bytes [] = ([], [])"
| "drain_take sz 0 bytes cs = ([], cs)"
| "drain_take sz (Suc n) bytes (c # cs) =
     (if default_committed_drain_bytes \<le> bytes + sz c then ([c], cs)
      else case drain_take sz n (bytes + sz c) cs of (a, b) \<Rightarrow> (c # a, b))"

datatype decode_error = BeginBeforeDrained | SpoolRead | SpoolClose | DecodeFailed

text \<open>What the file system and the server do during one call: whether a spool can be read, whether
  its file can be closed and removed, whether a message can be decoded.\<close>

record spool_faults =
  sf_read_ok :: bool
  sf_close_ok :: bool
  sf_decode_ok :: bool

text \<open>\<open>DrainCommitted\<close> returns its changes with the error of closing the spool.\<close>

definition drain_committed :: "(change \<Rightarrow> int) \<Rightarrow> spool_faults \<Rightarrow> decoder \<Rightarrow>
  change list \<times> decode_error option \<times> decoder" where
  "drain_committed sz fl d =
     (case dc_committed d of
        None \<Rightarrow> ([], None, d)
      | Some cs \<Rightarrow>
          if cs = [] then ([], None, d)
          else if \<not> sf_read_ok fl then ([], Some SpoolRead, d)
          else case drain_take sz default_committed_drain_changes 0 cs of (out, rest) \<Rightarrow>
            if rest = [] then (out, if sf_close_ok fl then None else Some SpoolClose, d\<lparr>dc_committed := None\<rparr>)
            else (out, None, d\<lparr>dc_committed := Some rest\<rparr>))"

definition handle_begin :: "lsn \<Rightarrow> decoder \<Rightarrow> decode_error option \<times> decoder" where
  "handle_begin final d =
     (if has_committed d then (Some BeginBeforeDrained, d)
      else (None, d\<lparr>dc_pending := [], dc_tx := final\<rparr>))"

text \<open>A row handler builds the change with \<open>currentTxLSN\<close>; \<open>appendChange\<close> numbers it.\<close>

definition stamp_change :: "lsn \<Rightarrow> nat \<Rightarrow> change \<Rightarrow> change" where
  "stamp_change tx n c = c\<lparr>ch_lsn := tx, ch_seq := word_of_nat (n + 1) * 2\<rparr>"

definition append_change :: "change \<Rightarrow> decoder \<Rightarrow> decoder" where
  "append_change c d =
     d\<lparr>dc_pending := dc_pending d @ [stamp_change (dc_tx d) (length (dc_pending d)) c]\<rparr>"

definition handle_commit :: "(change \<Rightarrow> int) \<Rightarrow> spool_faults \<Rightarrow> decoder \<Rightarrow>
  change list \<times> decode_error option \<times> decoder" where
  "handle_commit sz fl d =
     (if dc_pending d = [] then ([], None, d)
      else drain_committed sz fl (d\<lparr>dc_committed := Some (dc_pending d), dc_pending := []\<rparr>))"

definition decode :: "(change \<Rightarrow> int) \<Rightarrow> spool_faults \<Rightarrow> wal_payload \<Rightarrow> decoder \<Rightarrow>
  change list \<times> decode_error option \<times> decoder" where
  "decode sz fl p d =
     (if \<not> sf_decode_ok fl then ([], Some DecodeFailed, d)
      else case p of
        MBegin l \<Rightarrow> (case handle_begin l d of (e, d') \<Rightarrow> ([], e, d'))
      | MRow c \<Rightarrow> ([], None, append_change c d)
      | MCommit _ \<Rightarrow> handle_commit sz fl d
      | _ \<Rightarrow> ([], None, d))"

definition in_flight_tx_lsn :: "decoder \<Rightarrow> lsn option" where
  "in_flight_tx_lsn d = (if dc_pending d = [] then None else Some (dc_tx d))"

definition committed_low_water :: "decoder \<Rightarrow> lsn option" where
  "committed_low_water d = (if has_committed d then Some (dc_tx d) else None)"

subsection \<open>The replicator\<close>

record replicator =
  rp_decoder :: decoder
  rp_start :: lsn
  rp_pos :: lsn
  rp_barrier_seen :: bool
  rp_barrier_lsn :: lsn
  rp_keyless :: bool
  rp_snapshot_boundary :: bool

definition new_replicator :: "lsn \<Rightarrow> bool \<Rightarrow> bool \<Rightarrow> replicator" where
  "new_replicator start keyless boundary =
     \<lparr>rp_decoder = \<lparr>dc_tx = 0, dc_pending = [], dc_committed = None\<rparr>, rp_start = start, rp_pos = start,
      rp_barrier_seen = False, rp_barrier_lsn = 0, rp_keyless = keyless, rp_snapshot_boundary = boundary\<rparr>"

definition should_filter_change :: "replicator \<Rightarrow> lsn \<Rightarrow> bool" where
  "should_filter_change r l =
     (if l \<noteq> rp_start r then l < rp_start r else \<not> rp_snapshot_boundary r \<and> rp_keyless r)"

definition pending_low_water :: "replicator \<Rightarrow> lsn option" where
  "pending_low_water r =
     (case committed_low_water (rp_decoder r) of Some l \<Rightarrow> Some l | None \<Rightarrow> in_flight_tx_lsn (rp_decoder r))"

definition handle_logical_message :: "string \<Rightarrow> logical_message \<Rightarrow> replicator \<Rightarrow> replicator" where
  "handle_logical_message nonce m r =
     (let barrier = matches_batch_barrier m nonce;
          r1 = (if barrier then r\<lparr>rp_barrier_seen := True, rp_barrier_lsn := lm_lsn m\<rparr> else r)
      in if (barrier \<or> matches_stream_heartbeat m) \<and> rp_pos r < lm_lsn m
         then r1\<lparr>rp_pos := lm_lsn m\<rparr> else r1)"

text \<open>What one call of \<open>NextChanges\<close> meets: a failure of a check, of the connection or of the
  server, or, when nothing is left to drain, what it receives.\<close>

datatype event = EvMessage xlog | EvOther | EvIdle | EvError

datatype next_result = NextError replicator | NextOk "change list" lsn bool replicator

definition processed_lsn :: "xlog \<Rightarrow> lsn" where
  "processed_lsn x =
     (case xl_payload x of
        MCommit l \<Rightarrow> if xl_start x < l then l else xl_start x
      | _ \<Rightarrow> xl_start x)"

definition next_changes :: "(change \<Rightarrow> int) \<Rightarrow> string \<Rightarrow> spool_faults \<Rightarrow> event \<Rightarrow> replicator \<Rightarrow> next_result" where
  "next_changes sz nonce fl ev r =
     (if (case ev of EvError \<Rightarrow> True | _ \<Rightarrow> False) then NextError r
      else if has_committed (rp_decoder r) then
        (case drain_committed sz fl (rp_decoder r) of (cs, e, d) \<Rightarrow>
           if e = None then NextOk cs (dc_tx d) True (r\<lparr>rp_decoder := d\<rparr>) else NextError (r\<lparr>rp_decoder := d\<rparr>))
      else case ev of
        EvError \<Rightarrow> NextError r
      | EvIdle \<Rightarrow> NextOk [] 0 False r
      | EvOther \<Rightarrow> NextOk [] 0 True r
      | EvMessage x \<Rightarrow>
          (case xl_payload x of
             MMessage m \<Rightarrow> NextOk [] 0 True (handle_logical_message nonce m r)
           | p \<Rightarrow>
               (case decode sz fl p (rp_decoder r) of (cs, e, d) \<Rightarrow>
                  let r1 = r\<lparr>rp_decoder := d\<rparr>
                  in if e \<noteq> None then NextError r1
                     else NextOk cs (dc_tx d) True
                       (if rp_pos r < processed_lsn x then r1\<lparr>rp_pos := processed_lsn x\<rparr> else r1))))"

subsection \<open>The accumulator and the commit position\<close>

record accum =
  ac_changes :: "change list"
  ac_min :: "lsn option"
  ac_bytes :: int
  ac_toast :: toast_state

definition new_accum :: accum where
  "new_accum = \<lparr>ac_changes = [], ac_min = None, ac_bytes = 0, ac_toast = new_toast_state\<rparr>"

text \<open>\<open>charge\<close> is the byte estimate of the changes that are added to those held already.\<close>

definition accum_add :: "(change list \<Rightarrow> change list \<Rightarrow> int) \<Rightarrow> change list \<Rightarrow> lsn \<Rightarrow> accum \<Rightarrow> accum" where
  "accum_add charge cs l a =
     (if cs = [] then a
      else a\<lparr>ac_min := (case ac_min a of None \<Rightarrow> Some l | Some m \<Rightarrow> Some m),
             ac_changes := ac_changes a @ cs, ac_bytes := ac_bytes a + charge (ac_changes a) cs\<rparr>)"

definition accum_discard :: "accum \<Rightarrow> accum" where
  "accum_discard a = a\<lparr>ac_changes := [], ac_min := None, ac_bytes := 0\<rparr>"

definition min_pending_lsn :: "accum \<Rightarrow> lsn option" where
  "min_pending_lsn a = ac_min a"

definition safe_commit_lsn :: "replicator \<Rightarrow> accum \<Rightarrow> lsn" where
  "safe_commit_lsn r a =
     (let low = (case (min_pending_lsn a, pending_low_water r) of
                   (Some l, None) \<Rightarrow> Some l
                 | (Some l, Some k) \<Rightarrow> Some (if l < k then l else k)
                 | (None, w) \<Rightarrow> w)
      in case low of None \<Rightarrow> rp_pos r | Some l \<Rightarrow> if l = 0 then 0 else l - 1)"

text \<open>\<open>streamPosition.Commit\<close>, and the positions of a standby status update: written, flushed.\<close>

definition position_commit :: "lsn \<Rightarrow> lsn \<Rightarrow> lsn" where
  "position_commit cur l = (if l \<le> cur then cur else l)"

definition standby_update :: "bool \<Rightarrow> lsn \<Rightarrow> lsn \<Rightarrow> lsn \<Rightarrow> lsn \<times> lsn" where
  "standby_update streaming received committed start =
     (let flush = (if streaming then committed else 0);
          flush' = (if flush = 0 then start else flush)
      in (max received flush', flush'))"

subsection \<open>The loop\<close>

text \<open>What goes into the results channel: a truncation or a batch of a table, each with the commit
  token when streaming, and a bare token.\<close>

datatype sent = SentTruncate "lsn option" | SentBatch "change list" "lsn option" | SentToken lsn

fun sent_token :: "sent \<Rightarrow> lsn option" where
  "sent_token (SentTruncate t) = t"
| "sent_token (SentBatch cs t) = t"
| "sent_token (SentToken t) = Some t"

definition sent_tokens :: "sent list \<Rightarrow> lsn list" where
  "sent_tokens xs = List.map_filter sent_token xs"

datatype stop = LeaseLost | FlushFailed flush_error | MaterializeFailed | SendFailed | Cancelled
  | NextFailed | CheckpointFailed | Finished

record stream_config =
  cf_est :: "cell list \<Rightarrow> int"
  cf_encoded :: "change \<Rightarrow> int"
  cf_charge :: "change list \<Rightarrow> change list \<Rightarrow> int"
  cf_schema :: table_schema
  cf_streaming :: bool
  cf_threshold :: nat
  cf_nonce :: string

definition default_decoder_memory_bytes :: int where "default_decoder_memory_bytes = 33554432"

text \<open>The state of a stream, the results sent so far, the position the pipeline has confirmed
  (\<open>source.pos\<close>), and a log of the windows flushed, which the code does not keep.\<close>

record stream =
  sm_repl :: replicator
  sm_accum :: accum
  sm_idle :: lsn
  sm_pos :: lsn
  sm_sent :: "sent list"
  sm_flushed :: "(scratch_faults \<times> lsn option \<times> change list) list"

text \<open>What a flush meets: the lease lost before it or after the batch is built, the scratch
  database's faults, whether the batch can be built, and whether the sends go through.\<close>

record flush_env =
  fe_lost_before :: bool
  fe_scratch :: scratch_faults
  fe_truncate_sent :: bool
  fe_batch_ok :: bool
  fe_lost_after :: bool
  fe_batch_sent :: bool

text \<open>What one turn of the loop meets. At most one flush of a turn finds changes to flush.\<close>

record tick =
  tk_cancelled :: bool
  tk_lost :: bool
  tk_faults :: spool_faults
  tk_event :: event
  tk_flush :: flush_env
  tk_checkpoint_ok :: bool
  tk_token_sent :: bool

definition discard_all :: "stream \<Rightarrow> stream" where
  "discard_all s = s\<lparr>sm_accum := accum_discard (sm_accum s)\<rparr>"

definition stream_token :: "stream_config \<Rightarrow> replicator \<Rightarrow> accum \<Rightarrow> lsn option" where
  "stream_token cf r a = (if cf_streaming cf then Some (safe_commit_lsn r a) else None)"

text \<open>\<open>sendResult\<close> fails at once when the context is done.\<close>

definition flush_table :: "stream_config \<Rightarrow> bool \<Rightarrow> flush_env \<Rightarrow> stream \<Rightarrow> stop option \<times> stream" where
  "flush_table cf cancelled fe s =
     (let a = sm_accum s; durable = (if cf_streaming cf then Some (sm_pos s) else None)
      in if fe_lost_before fe then (Some LeaseLost, discard_all s)
         else if ac_changes a = [] then (None, s)
         else case flush_changes (cf_est cf) (fe_scratch fe) durable (Some (cf_schema cf)) [] (ac_changes a) (ac_toast a) of
           Inl e \<Rightarrow> (Some (FlushFailed e), s)
         | Inr (trunc, cs, toast) \<Rightarrow>
             let a1 = (accum_discard a)\<lparr>ac_toast := toast\<rparr>;
                 token = stream_token cf (sm_repl s) a1;
                 s1 = s\<lparr>sm_accum := a1\<rparr>;
                 s2 = (if trunc then s1\<lparr>sm_sent := sm_sent s @ [SentTruncate (if cs = [] then token else None)]\<rparr> else s1);
                 s3 = s2\<lparr>sm_flushed := sm_flushed s @ [(fe_scratch fe, durable, ac_changes a)]\<rparr>
             in if trunc \<and> (cancelled \<or> \<not> fe_truncate_sent fe) then (Some SendFailed, discard_all s1)
                else if cs = [] then (None, s3)
                else if \<not> fe_batch_ok fe then (Some MaterializeFailed, s2)
                else if fe_lost_after fe then (Some LeaseLost, discard_all s2)
                else if cancelled \<or> \<not> fe_batch_sent fe then (Some SendFailed, discard_all s2)
                else (None, s3\<lparr>sm_sent := sm_sent s2 @ [SentBatch cs token]\<rparr>))"

definition and_then :: "stop option \<times> stream \<Rightarrow> (stream \<Rightarrow> stop option \<times> stream) \<Rightarrow> stop option \<times> stream" where
  "and_then p f = (case p of (Some e, s) \<Rightarrow> (Some e, s) | (None, s) \<Rightarrow> f s)"

definition flush_all :: "stream_config \<Rightarrow> bool \<Rightarrow> flush_env \<Rightarrow> stream \<Rightarrow> stop option \<times> stream" where
  "flush_all cf cancelled fe s =
     (if ac_changes (sm_accum s) = [] then (None, s) else flush_table cf cancelled fe s)"

definition flush_ready :: "stream_config \<Rightarrow> flush_env \<Rightarrow> stream \<Rightarrow> stop option \<times> stream" where
  "flush_ready cf fe s =
     and_then
       (if ac_changes (sm_accum s) \<noteq> [] \<and> (cf_threshold cf \<le> length (ac_changes (sm_accum s)) \<or>
             0 \<le> last_truncate_index (ac_changes (sm_accum s)))
        then flush_table cf False fe s else (None, s))
       (\<lambda>s1. if default_decoder_memory_bytes \<le> ac_bytes (sm_accum s1) then flush_all cf False fe s1 else (None, s1))"

definition emit_idle_commit_token :: "tick \<Rightarrow> stream \<Rightarrow> stop option \<times> stream" where
  "emit_idle_commit_token tk s =
     (let safe = safe_commit_lsn (sm_repl s) (sm_accum s)
      in if safe \<le> sm_idle s then (None, s)
         else if \<not> tk_checkpoint_ok tk then (Some CheckpointFailed, s)
         else if \<not> tk_token_sent tk then (Some SendFailed, s)
         else (None, s\<lparr>sm_idle := safe, sm_sent := sm_sent s @ [SentToken safe]\<rparr>))"

text \<open>The part of a turn after \<open>NextChanges\<close> has returned: the changes are added, what is ready is
  flushed, a batch run ends at its barrier, an idle stream flushes all and confirms its position.\<close>

definition turn_changes :: "stream_config \<Rightarrow> tick \<Rightarrow> change list \<Rightarrow> lsn \<Rightarrow> bool \<Rightarrow> stream \<Rightarrow> stop option \<times> stream" where
  "turn_changes cf tk cs l active s =
     and_then (flush_ready cf (tk_flush tk)
         (s\<lparr>sm_accum := accum_add (cf_charge cf) (if should_filter_change (sm_repl s) l then [] else cs) l (sm_accum s)\<rparr>))
       (\<lambda>s1.
         if \<not> cf_streaming cf \<and> rp_barrier_seen (sm_repl s1) \<and> pending_low_water (sm_repl s1) = None
         then and_then (flush_all cf False (tk_flush tk) s1) (\<lambda>s2. (Some Finished, s2))
         else if active then (None, s1)
         else and_then (flush_all cf False (tk_flush tk) s1) (\<lambda>s2.
                if cf_streaming cf then emit_idle_commit_token tk s2 else (None, s2)))"

definition loop_step :: "stream_config \<Rightarrow> tick \<Rightarrow> stream \<Rightarrow> stop option \<times> stream" where
  "loop_step cf tk s =
     (if tk_cancelled tk then
        if tk_lost tk then (Some LeaseLost, discard_all s)
        else and_then (flush_all cf True (tk_flush tk) s) (\<lambda>s1. (Some Cancelled, s1))
      else case next_changes (cf_encoded cf) (cf_nonce cf) (tk_faults tk) (tk_event tk) (sm_repl s) of
        NextError r \<Rightarrow>
          if tk_lost tk then (Some LeaseLost, discard_all (s\<lparr>sm_repl := r\<rparr>))
          else (Some NextFailed, snd (flush_all cf False (tk_flush tk) (s\<lparr>sm_repl := r\<rparr>)))
      | NextOk cs l active r \<Rightarrow>
          if tk_lost tk then (Some LeaseLost, discard_all (s\<lparr>sm_repl := r\<rparr>))
          else turn_changes cf tk cs l active (s\<lparr>sm_repl := r\<rparr>))"

definition new_stream :: "lsn \<Rightarrow> bool \<Rightarrow> bool \<Rightarrow> stream" where
  "new_stream start keyless boundary =
     \<lparr>sm_repl = new_replicator start keyless boundary, sm_accum = new_accum, sm_idle = 0, sm_pos = 0,
      sm_sent = [], sm_flushed = []\<rparr>"

text \<open>\<open>streamLoop\<close>: turn after turn, until one stops it.\<close>

fun stream_loop :: "stream_config \<Rightarrow> tick list \<Rightarrow> stream \<Rightarrow> stop option \<times> stream" where
  "stream_loop cf [] s = (None, s)"
| "stream_loop cf (tk # tks) s = and_then (loop_step cf tk s) (stream_loop cf tks)"

end
