(* ===== verification/Cdc_Stream_Safety.thy ===== *)
theory Cdc_Stream_Safety
  imports Cdc_Stream
begin

text \<open>
  What the stream of one table promises: every row change of the table's transactions goes into
  exactly one flush window, in the order of its position, and no commit token handed to the
  pipeline is past a change that has not been handed over. The invariant relates the loop's state
  to the messages of the write-ahead log received so far.
\<close>

subsection \<open>The log received so far\<close>

text \<open>The commit position of the transaction being received, its rows so far, and the rows of the
  transactions received in full.\<close>

type_synonym wal_view = "lsn \<times> change list \<times> change list"

definition wal_apply :: "xlog \<Rightarrow> wal_view \<Rightarrow> wal_view" where
  "wal_apply x = (\<lambda>(tx, pend, rows).
     (case xl_payload x of
        MBegin l \<Rightarrow> (l, [], rows)
      | MRow c \<Rightarrow> (tx, pend @ [stamp_change tx (length pend) c], rows)
      | MCommit l \<Rightarrow> (tx, [], rows @ pend)
      | _ \<Rightarrow> (tx, pend, rows)))"

definition wal_state :: "xlog list \<Rightarrow> wal_view" where
  "wal_state h = fold wal_apply h (0, [], [])"

text \<open>The order the server guarantees. The phase is a position that no later transaction precedes,
  and whether a transaction is open; inside one, the position is its commit's.\<close>

type_synonym wal_phase = "lsn \<times> bool"

definition wal_next :: "wal_phase \<Rightarrow> xlog \<Rightarrow> wal_phase \<Rightarrow> bool" where
  "wal_next ph x ph' \<longleftrightarrow>
     (case ph of (fr, open) \<Rightarrow>
        (case xl_payload x of
           MBegin f \<Rightarrow> \<not> open \<and> fr \<le> f \<and> xl_start x \<le> f \<and> ph' = (f, True)
         | MRow c \<Rightarrow> open \<and> xl_start x \<le> fr \<and> ph' = ph
         | MSkip \<Rightarrow> (if open then xl_start x \<le> fr \<and> ph' = ph else ph' = (max fr (xl_start x), False))
         | MCommit l \<Rightarrow> open \<and> l = fr \<and> l < xl_start x \<and> ph' = (xl_start x, False)
         | MMessage m \<Rightarrow>
             (if lm_transactional m then ph' = ph else \<not> open \<and> ph' = (max fr (lm_lsn m), False))))"

definition view_ordered :: "wal_phase \<Rightarrow> wal_view \<Rightarrow> bool" where
  "view_ordered ph v \<longleftrightarrow>
     (case ph of (fr, open) \<Rightarrow> case v of (tx, pend, rows) \<Rightarrow>
        window_order (rows @ pend) \<and> (\<forall>c \<in> set rows. ch_lsn c < fr) \<and>
        (\<forall>c \<in> set pend. ch_lsn c = tx) \<and> (if open then tx = fr else pend = []) \<and>
        (\<forall>i < length pend. ch_seq (pend ! i) = word_of_nat (i + 1) * 2))"

lemma stamp_fields [simp]:
  "ch_lsn (stamp_change tx n c) = tx" "ch_seq (stamp_change tx n c) = word_of_nat (n + 1) * 2"
  by (simp_all add: stamp_change_def)

lemma unat_seq:
  assumes "n < 2 ^ 62"
  shows "unat (word_of_nat (n + 1) * 2 :: 64 word) = 2 * (n + 1)"
  using assms by (simp add: unat_word_ariths unat_of_nat take_bit_eq_mod)

lemma window_order_snoc:
  "window_order (cs @ [c]) \<longleftrightarrow> window_order cs \<and> (\<forall>d \<in> set cs. change_less d c) \<and>
     even (unat (ch_seq c)) \<and> ch_seq c \<noteq> 0"
  by (auto simp: window_order_def sorted_wrt_append)

lemma view_ordered_next:
  assumes "view_ordered ph v" "wal_next ph x ph'" "length (fst (snd v)) < 2 ^ 62"
  shows "view_ordered ph' (wal_apply x v)"
proof -
  obtain fr op where ph: "ph = (fr, op)" by (cases ph)
  obtain tx pend rows where v: "v = (tx, pend, rows)" by (cases v) auto
  note base = assms(1) [unfolded ph v view_ordered_def prod.case]
  note step = assms(2) [unfolded ph wal_next_def prod.case]
  show ?thesis
  proof (cases "xl_payload x")
    case (MBegin f)
    then show ?thesis
      using base step by (auto simp: v view_ordered_def wal_apply_def)
  next
    case (MRow c)
    let ?c = "stamp_change tx (length pend) c"
    have n: "length pend < 2 ^ 62" using assms(3) by (simp add: v)
    have seq: "unat (ch_seq ?c) = 2 * (length pend + 1)" using unat_seq [OF n] by simp
    have less: "change_less d ?c" if "d \<in> set (rows @ pend)" for d
    proof (cases "d \<in> set rows")
      case True
      then show ?thesis using base step MRow by (simp add: change_less_nat)
    next
      case False
      then have "d \<in> set pend" using that by simp
      then obtain i where i: "i < length pend" "d = pend ! i" by (metis in_set_conv_nth)
      then have "unat (ch_seq d) = 2 * (i + 1)"
        using base unat_seq [of i] n by (simp del: of_nat_add of_nat_Suc)
      moreover have "ch_lsn d = tx" using base i nth_mem [OF i(1)] by simp
      ultimately show ?thesis using i seq by (simp add: change_less_nat del: stamp_fields(2))
    qed
    have "window_order (rows @ pend @ [?c])"
      using base less seq by (simp add: window_order_snoc [of "rows @ pend", simplified] del: stamp_fields(2)) auto
    then show ?thesis
      using base step MRow by (auto simp: v view_ordered_def wal_apply_def nth_append less_Suc_eq)
  next
    case MSkip
    then show ?thesis
      using base step by (auto simp: v view_ordered_def wal_apply_def less_max_iff_disj split: if_splits)
  next
    case (MCommit l)
    then show ?thesis
      using base step by (auto simp: v view_ordered_def wal_apply_def)
  next
    case (MMessage m)
    then show ?thesis
      using base step by (auto simp: v view_ordered_def wal_apply_def less_max_iff_disj split: if_splits)
  qed
qed

subsection \<open>The invariant\<close>

definition kept :: "replicator \<Rightarrow> change \<Rightarrow> bool" where
  "kept r c \<longleftrightarrow> \<not> should_filter_change r (ch_lsn c)"

definition committed_changes :: "decoder \<Rightarrow> change list" where
  "committed_changes d = (case dc_committed d of None \<Rightarrow> [] | Some cs \<Rightarrow> cs)"

lemma has_committed_iff: "has_committed d \<longleftrightarrow> committed_changes d \<noteq> []"
  by (simp add: has_committed_def committed_changes_def split: option.splits)

definition same_filter :: "replicator \<Rightarrow> replicator \<Rightarrow> bool" where
  "same_filter r r' \<longleftrightarrow> rp_start r' = rp_start r \<and> rp_keyless r' = rp_keyless r \<and>
     rp_snapshot_boundary r' = rp_snapshot_boundary r"

lemma same_filter_should: "same_filter r r' \<Longrightarrow> should_filter_change r' l = should_filter_change r l"
  by (simp add: same_filter_def should_filter_change_def)

lemma kept_start: "kept r c \<Longrightarrow> rp_start r \<le> ch_lsn c"
  by (auto simp: kept_def should_filter_change_def split: if_splits)

definition repl_ok :: "replicator \<Rightarrow> wal_phase \<Rightarrow> wal_view \<Rightarrow> replicator \<Rightarrow> bool" where
  "repl_ok r0 ph v r \<longleftrightarrow> (case v of (tx, pend, rows) \<Rightarrow>
     dc_tx (rp_decoder r) = tx \<and> dc_pending (rp_decoder r) = pend \<and>
     (committed_changes (rp_decoder r) \<noteq> [] \<longrightarrow> pend = []) \<and>
     set (committed_changes (rp_decoder r)) \<subseteq> set rows \<and>
     (\<forall>c \<in> set (committed_changes (rp_decoder r)). ch_lsn c = tx) \<and>
     same_filter r0 r \<and> rp_pos r \<le> max (rp_start r0) (fst ph))"

definition accum_ok :: "accum \<Rightarrow> bool" where
  "accum_ok a \<longleftrightarrow> ac_min a = (case ac_changes a of [] \<Rightarrow> None | c # _ \<Rightarrow> Some (ch_lsn c))"

text \<open>The windows flushed, the accumulator and the replicator hold between them the rows of the
  log that the stream keeps, in order, and no token is past a row not yet flushed.\<close>

definition good_parts :: "replicator \<Rightarrow> wal_phase \<Rightarrow> wal_view \<Rightarrow> change list \<Rightarrow> lsn set \<Rightarrow>
  replicator \<Rightarrow> accum \<Rightarrow> bool" where
  "good_parts r0 ph v W T r a \<longleftrightarrow> view_ordered ph v \<and> repl_ok r0 ph v r \<and> accum_ok a \<and>
     filter (kept r0) (snd (snd v)) = W @ ac_changes a @ filter (kept r0) (committed_changes (rp_decoder r)) \<and>
     (\<forall>t \<in> T. t \<le> max (rp_start r0) (fst ph) \<and>
        (\<forall>c \<in> set (ac_changes a @ filter (kept r0) (committed_changes (rp_decoder r) @ fst (snd v))). t \<le> ch_lsn c))"

lemma good_discard:
  assumes "good_parts r0 ph v W T r a"
  shows "good_parts r0 ph v (W @ ac_changes a) T r ((accum_discard a)\<lparr>ac_toast := t\<rparr>)"
  using assms by (simp add: good_parts_def accum_ok_def accum_discard_def)

lemma word_minus_one_le: "l \<noteq> 0 \<Longrightarrow> l - 1 \<le> (l :: lsn)"
  by (simp add: word_le_nat_alt unat_minus_one)

lemma sorted_lsn_head:
  assumes "sorted_wrt change_less (W @ (c # cs) @ R)" "d \<in> set (c # cs)"
  shows "ch_lsn c \<le> ch_lsn d"
proof (cases "d = c")
  case False
  then have "change_less c d" using assms by (simp add: sorted_wrt_append)
  then show ?thesis by (auto simp: change_less_nat)
qed simp

lemma good_sorted:
  assumes "good_parts r0 ph v W T r a"
  shows "sorted_wrt change_less (W @ ac_changes a @ filter (kept r0) (committed_changes (rp_decoder r)))"
proof -
  obtain tx pend rows where v: "v = (tx, pend, rows)" by (cases v) auto
  have "sorted_wrt change_less rows"
    using assms by (auto simp: good_parts_def view_ordered_def v window_order_def sorted_wrt_append split: prod.splits)
  then have "sorted_wrt change_less (filter (kept r0) rows)" by (rule sorted_wrt_filter)
  then show ?thesis using assms by (simp add: good_parts_def v)
qed

lemma safe_commit_cases:
  "safe_commit_lsn r a = (case ac_min a of
     None \<Rightarrow> (case pending_low_water r of None \<Rightarrow> rp_pos r | Some l \<Rightarrow> if l = 0 then 0 else l - 1)
   | Some l \<Rightarrow> (let m = (case pending_low_water r of None \<Rightarrow> l | Some k \<Rightarrow> min l k) in if m = 0 then 0 else m - 1))"
  by (cases "ac_min a"; cases "pending_low_water r")
    (auto simp: safe_commit_lsn_def min_pending_lsn_def min_def Let_def)

lemma pending_low_water_repl:
  assumes "repl_ok r0 ph (tx, pend, rows) r"
  shows "pending_low_water r = (if committed_changes (rp_decoder r) = [] \<and> pend = [] then None else Some tx)"
  using assms
  by (auto simp: repl_ok_def pending_low_water_def committed_low_water_def in_flight_tx_lsn_def has_committed_iff)

text \<open>The token computed in a good state may be sent.\<close>

lemma good_token:
  assumes good: "good_parts r0 ph v W T r a"
  shows "good_parts r0 ph v W (insert (safe_commit_lsn r a) T) r a"
proof -
  obtain tx pend rows where v: "v = (tx, pend, rows)" by (cases v) auto
  obtain fr op where ph: "ph = (fr, op)" by (cases ph)
  let ?C = "committed_changes (rp_decoder r)" and ?t = "safe_commit_lsn r a"
  have ord: "\<forall>c \<in> set rows. ch_lsn c < fr" "\<forall>c \<in> set pend. ch_lsn c = tx" "if op then tx = fr else pend = []"
    using good by (simp_all add: good_parts_def v ph view_ordered_def)
  have rep: "repl_ok r0 ph (tx, pend, rows) r" using good by (simp add: good_parts_def v)
  have C: "set ?C \<subseteq> set rows" "\<forall>c \<in> set ?C. ch_lsn c = tx" "rp_pos r \<le> max (rp_start r0) fr"
    using rep by (simp_all add: repl_ok_def ph)
  have rows: "filter (kept r0) rows = W @ ac_changes a @ filter (kept r0) ?C"
    using good by (simp add: good_parts_def v)
  have sub: "set (ac_changes a) \<subseteq> set rows"
    using arg_cong [OF rows, of set] by auto
  have amin: "ac_min a = (case ac_changes a of [] \<Rightarrow> None | c # _ \<Rightarrow> Some (ch_lsn c))"
    using good by (simp add: good_parts_def accum_ok_def)
  have ac: "ch_lsn c \<le> ch_lsn d" if "ac_changes a = c # cs" "d \<in> set (ac_changes a)" for c cs d
    using sorted_lsn_head [of W c cs "filter (kept r0) ?C" d] good_sorted [OF good] that by simp
  have low: "pending_low_water r = (if ?C = [] \<and> pend = [] then None else Some tx)"
    by (rule pending_low_water_repl [OF rep])
  have tx: "tx \<le> fr" if ne: "\<not> (?C = [] \<and> pend = [])"
  proof (cases "pend = []")
    case True
    then obtain c where "c \<in> set ?C" using ne by (cases ?C) auto
    then show ?thesis using C(1,2) ord(1) by force
  next
    case False
    then show ?thesis using ord(3) by (simp split: if_splits)
  qed
  have dec: "(if m = 0 then 0 else m - 1) \<le> m" for m :: lsn by (simp add: word_minus_one_le)
  have "?t \<le> max (rp_start r0) fr \<and> (\<forall>c \<in> set (ac_changes a @ filter (kept r0) (?C @ pend)). ?t \<le> ch_lsn c)"
  proof (cases "ac_changes a")
    case Nil
    then have none: "ac_min a = None" using amin by simp
    show ?thesis
    proof (cases "?C = [] \<and> pend = []")
      case True
      then show ?thesis using C(3) low none Nil by (simp add: safe_commit_cases)
    next
      case False
      then have "pending_low_water r = Some tx" using low by (simp only: if_False)
      then have t: "?t \<le> tx" using none dec [of tx] by (simp add: safe_commit_cases)
      then show ?thesis
        using tx [OF False] C(2) ord(2) Nil by (auto intro: order_trans simp: le_max_iff_disj)
    qed
  next
    case (Cons c cs)
    define m where "m = (if ?C = [] \<and> pend = [] then ch_lsn c else min (ch_lsn c) tx)"
    have "?t = (if m = 0 then 0 else m - 1)"
      using amin Cons low by (simp add: safe_commit_cases m_def)
    then have t: "?t \<le> m" using dec [of m] by simp
    have m: "m \<le> ch_lsn c" "\<not> (?C = [] \<and> pend = []) \<Longrightarrow> m \<le> tx" by (auto simp: m_def)
    have "ch_lsn c \<le> fr" using ord(1) sub Cons by force
    then have "?t \<le> fr" using t m(1) by simp
    moreover have "?t \<le> ch_lsn d" if "d \<in> set (ac_changes a)" for d
      using ac [OF Cons that] t m(1) by simp
    moreover have "?t \<le> ch_lsn d" if "d \<in> set (?C @ pend)" for d
    proof -
      have "\<not> (?C = [] \<and> pend = [])" using that by auto
      then show ?thesis using m(2) t that C(2) ord(2) by auto
    qed
    ultimately show ?thesis by (auto simp: le_max_iff_disj)
  qed
  then show ?thesis using good by (simp add: good_parts_def v ph)
qed

subsection \<open>Receiving\<close>

lemma wal_next_mono: "wal_next ph x ph' \<Longrightarrow> fst ph \<le> fst ph'"
  by (cases ph) (auto simp: wal_next_def less_imp_le split: wal_payload.splits if_splits)

lemma good_pos:
  assumes "good_parts r0 ph v W T r a" "p \<le> max (rp_start r0) (fst ph)"
  shows "good_parts r0 ph v W T (if rp_pos r < p then r\<lparr>rp_pos := p\<rparr> else r) a"
  using assms by (auto simp: good_parts_def repl_ok_def same_filter_def)

definition receive :: "wal_payload \<Rightarrow> decoder \<Rightarrow> decoder" where
  "receive p d =
     (case p of
        MBegin l \<Rightarrow> d\<lparr>dc_pending := [], dc_tx := l\<rparr>
      | MRow c \<Rightarrow> append_change c d
      | MCommit _ \<Rightarrow> (if dc_pending d = [] then d else d\<lparr>dc_committed := Some (dc_pending d), dc_pending := []\<rparr>)
      | _ \<Rightarrow> d)"

lemma good_receive:
  assumes good: "good_parts r0 ph v W T r a" and none: "\<not> has_committed (rp_decoder r)"
    and next_ph: "wal_next ph x ph'" and len: "length (fst (snd v)) < 2 ^ 62"
  shows "good_parts r0 ph' (wal_apply x v) W T (r\<lparr>rp_decoder := receive (xl_payload x) (rp_decoder r)\<rparr>) a"
proof -
  obtain tx pend rows where v: "v = (tx, pend, rows)" by (cases v) auto
  obtain fr op where ph: "ph = (fr, op)" by (cases ph)
  let ?r = "r\<lparr>rp_decoder := receive (xl_payload x) (rp_decoder r)\<rparr>"
  have C: "committed_changes (rp_decoder r) = []" using none by (simp add: has_committed_iff)
  have ord: "view_ordered ph' (wal_apply x v)"
    using good next_ph len by (intro view_ordered_next) (simp_all add: good_parts_def)
  have vo: "if op then tx = fr else pend = []" "\<forall>c \<in> set pend. ch_lsn c = tx"
    using good by (simp_all add: good_parts_def v ph view_ordered_def)
  have rep: "dc_tx (rp_decoder r) = tx" "dc_pending (rp_decoder r) = pend" "same_filter r0 r"
      "rp_pos r \<le> max (rp_start r0) fr"
    using good by (simp_all add: good_parts_def repl_ok_def v ph)
  have pos: "rp_pos r \<le> max (rp_start r0) (fst ph')"
    using rep(4) wal_next_mono [OF next_ph] by (auto simp: ph le_max_iff_disj)
  have acc: "accum_ok a" and rows: "filter (kept r0) rows = W @ ac_changes a"
    and T: "\<forall>t \<in> T. t \<le> max (rp_start r0) fr \<and> (\<forall>c \<in> set (ac_changes a @ filter (kept r0) pend). t \<le> ch_lsn c)"
    using good by (simp_all add: good_parts_def v C ph)
  have T': "\<forall>t \<in> T. t \<le> max (rp_start r0) (fst ph')"
    using T wal_next_mono [OF next_ph] by (auto simp: ph le_max_iff_disj)
  note step = next_ph [unfolded ph wal_next_def prod.case]
  note defs = good_parts_def v wal_apply_def receive_def C rows acc
  show ?thesis
  proof (cases "xl_payload x")
    case (MBegin l)
    have "repl_ok r0 ph' (wal_apply x v) ?r"
      using rep pos MBegin C
      by (simp add: repl_ok_def v wal_apply_def receive_def committed_changes_def same_filter_def)
    then show ?thesis
      using MBegin T T' ord C by (simp add: good_parts_def v wal_apply_def receive_def acc rows committed_changes_def)
  next
    case (MRow c)
    have open_tx: "tx = fr" "ph' = ph" using MRow step vo(1) by (simp_all add: ph)
    have "repl_ok r0 ph' (wal_apply x v) ?r"
      using rep pos MRow C
      by (simp add: repl_ok_def v wal_apply_def receive_def committed_changes_def same_filter_def append_change_def)
    moreover have "t \<le> tx" if "t \<in> T" "kept r0 (stamp_change tx (length pend) c)" for t
    proof -
      have "rp_start r0 \<le> tx" using kept_start [OF that(2)] by simp
      moreover have "t \<le> max (rp_start r0) fr" using T that(1) by blast
      ultimately show ?thesis using open_tx by simp
    qed
    ultimately show ?thesis
      using MRow T T' ord C
      by (auto simp: good_parts_def v wal_apply_def receive_def acc rows committed_changes_def append_change_def)
  next
    case MSkip
    have "repl_ok r0 ph' (wal_apply x v) ?r"
      using rep pos MSkip C by (simp add: repl_ok_def v wal_apply_def receive_def same_filter_def)
    then show ?thesis
      using MSkip T T' ord C by (simp add: good_parts_def v wal_apply_def receive_def acc rows)
  next
    case (MCommit l)
    have D: "committed_changes (receive (xl_payload x) (rp_decoder r)) = pend"
      using MCommit C rep(2) by (auto simp: receive_def committed_changes_def)
    have P: "dc_pending (receive (xl_payload x) (rp_decoder r)) = []" "dc_tx (receive (xl_payload x) (rp_decoder r)) = tx"
      using MCommit rep by (auto simp: receive_def)
    have "repl_ok r0 ph' (wal_apply x v) ?r"
      using rep pos MCommit vo(2)
      by (simp add: repl_ok_def v wal_apply_def D [unfolded MCommit] P [unfolded MCommit] same_filter_def)
    then show ?thesis
      using MCommit T T' ord
      by (simp add: good_parts_def v wal_apply_def acc rows D [unfolded MCommit])
  next
    case (MMessage m)
    have "repl_ok r0 ph' (wal_apply x v) ?r"
      using rep pos MMessage C by (simp add: repl_ok_def v wal_apply_def receive_def same_filter_def)
    then show ?thesis
      using MMessage T T' ord C by (simp add: good_parts_def v wal_apply_def receive_def acc rows)
  qed
qed

lemma processed_bound: "wal_next ph x ph' \<Longrightarrow> (\<And>m. xl_payload x \<noteq> MMessage m) \<Longrightarrow> processed_lsn x \<le> fst ph'"
  by (cases ph) (auto simp: wal_next_def processed_lsn_def split: wal_payload.splits if_splits)

lemma drain_take_append: "drain_take sz n b cs = (out, rest) \<Longrightarrow> cs = out @ rest"
  by (induction sz n b cs arbitrary: out rest rule: drain_take.induct) (auto split: if_splits prod.splits)

lemma drain_take_progress:
  "drain_take sz n b cs = (out, rest) \<Longrightarrow> 0 < n \<Longrightarrow> cs \<noteq> [] \<Longrightarrow> out \<noteq> []"
  by (induction sz n b cs arbitrary: out rest rule: drain_take.induct) (auto split: if_splits prod.splits)

lemma accum_add_changes [simp]: "ac_changes (accum_add ch cs l a) = ac_changes a @ cs"
  by (simp add: accum_add_def)

lemma accum_add_ok:
  assumes "accum_ok a" "\<forall>c \<in> set cs. ch_lsn c = l"
  shows "accum_ok (accum_add ch cs l a)"
  using assms by (cases cs; cases "ac_changes a") (auto simp: accum_ok_def accum_add_def)

text \<open>Draining: what leaves the committed transaction goes into the accumulator.\<close>

lemma good_drain:
  assumes good: "good_parts r0 ph v W T r a"
    and drain: "drain_committed sz fl (rp_decoder r) = (cs, None, d)"
  shows "good_parts r0 ph v W T (r\<lparr>rp_decoder := d\<rparr>)
    (accum_add ch (if should_filter_change r0 (dc_tx d) then [] else cs) (dc_tx d) a)"
proof -
  obtain tx pend rows where v: "v = (tx, pend, rows)" by (cases v) auto
  let ?C = "committed_changes (rp_decoder r)"
  have d: "?C = cs @ committed_changes d" "dc_tx d = dc_tx (rp_decoder r)" "dc_pending d = dc_pending (rp_decoder r)"
    using drain
    by (auto simp: drain_committed_def committed_changes_def split: option.splits if_splits prod.splits
        dest: drain_take_append)
  have rep: "dc_tx (rp_decoder r) = tx" "dc_pending (rp_decoder r) = pend" "?C \<noteq> [] \<longrightarrow> pend = []"
      "set ?C \<subseteq> set rows" "\<forall>c \<in> set ?C. ch_lsn c = tx" "same_filter r0 r" "rp_pos r \<le> max (rp_start r0) (fst ph)"
    using good by (simp_all add: good_parts_def repl_ok_def v)
  let ?cs = "if should_filter_change r0 (dc_tx d) then [] else cs"
  have cs: "\<forall>c \<in> set cs. ch_lsn c = tx" using rep(5) d(1) by simp
  then have keep: "filter (kept r0) cs = ?cs"
    using d(2) rep(1) by (auto simp: kept_def filter_id_conv filter_empty_conv)
  have "repl_ok r0 ph v (r\<lparr>rp_decoder := d\<rparr>)"
    using rep d by (auto simp: repl_ok_def v same_filter_def)
  moreover have "accum_ok (accum_add ch ?cs (dc_tx d) a)"
    using good cs d(2) rep(1) by (intro accum_add_ok) (simp_all add: good_parts_def)
  moreover have "filter (kept r0) ?C = ?cs @ filter (kept r0) (committed_changes d)"
    using d(1) keep by simp
  ultimately show ?thesis
    using good by (auto simp: good_parts_def v)
qed

text \<open>What one turn does to the log received: a message is taken up when nothing is left to drain.\<close>

definition tick_next :: "tick \<Rightarrow> replicator \<Rightarrow> wal_phase \<Rightarrow> wal_view \<Rightarrow> wal_phase \<Rightarrow> wal_view \<Rightarrow> bool" where
  "tick_next tk r ph v ph' v' \<longleftrightarrow>
     (case tk_event tk of
        EvMessage x \<Rightarrow>
          if has_committed (rp_decoder r) then ph' = ph \<and> v' = v
          else wal_next ph x ph' \<and> v' = wal_apply x v \<and> length (fst (snd v)) < 2 ^ 62
      | _ \<Rightarrow> ph' = ph \<and> v' = v)"

lemma same_filter_parts: "good_parts r0 ph v W T r a \<Longrightarrow> same_filter r0 r"
  by (auto simp: good_parts_def repl_ok_def split: prod.splits)

lemma accum_add_nil [simp]: "accum_add ch [] l a = a"
  by (simp add: accum_add_def)

lemma good_next_ok:
  assumes good: "good_parts r0 ph v W T r a" and tick: "tick_next tk r ph v ph' v'"
    and run: "next_changes sz nonce fl (tk_event tk) r = NextOk cs l act r'"
  shows "good_parts r0 ph' v' W T r' (accum_add ch (if should_filter_change r' l then [] else cs) l a)"
proof (cases "has_committed (rp_decoder r)")
  case True
  have same: "ph' = ph" "v' = v" using tick True by (auto simp: tick_next_def split: event.splits)
  obtain cs1 e d where d: "drain_committed sz fl (rp_decoder r) = (cs1, e, d)" by (metis prod_cases3)
  have e: "e = None" "cs = cs1" "l = dc_tx d" "r' = r\<lparr>rp_decoder := d\<rparr>"
    using run True d
    by (auto simp: next_changes_def drain_committed_def split: event.splits if_splits option.splits prod.splits)
  have filt: "should_filter_change r' l = should_filter_change r0 (dc_tx d)"
    using same_filter_parts [OF good] by (simp add: e same_filter_def should_filter_change_def)
  from good_drain [OF good d [unfolded e(1)], of ch] show ?thesis
    by (simp only: same e(2) filt) (simp add: e)
next
  case False
  show ?thesis
  proof (cases "tk_event tk")
    case (EvMessage x)
    note nx = tick [unfolded tick_next_def EvMessage event.case, simplified False if_False]
    let ?d = "receive (xl_payload x) (rp_decoder r)"
    have rec: "good_parts r0 ph' v' W T (r\<lparr>rp_decoder := ?d\<rparr>) a"
      using good_receive [OF good False] nx by simp
    show ?thesis
    proof (cases "\<exists>m. xl_payload x = MMessage m")
      case True
      then obtain m where m: "xl_payload x = MMessage m" ..
      have r': "cs = []" "r' = handle_logical_message nonce m r"
        using run False by (simp_all add: next_changes_def EvMessage m)
      have bound: "lm_lsn m \<le> fst ph'" if "\<not> lm_transactional m"
        using nx that by (auto simp: wal_next_def m split: prod.splits)
      have "good_parts r0 ph' v' W T r a" using rec by (simp add: m receive_def)
      then show ?thesis
        using bound
        by (auto simp: r' handle_logical_message_def Let_def good_parts_def repl_ok_def same_filter_def
            matches_batch_barrier_def matches_stream_heartbeat_def le_max_iff_disj)
    next
      case no_message: False
      obtain cs1 e d where dec: "decode sz fl (xl_payload x) (rp_decoder r) = (cs1, e, d)" by (metis prod_cases3)
      have e: "e = None" "cs = cs1" "l = dc_tx d"
        "r' = (if rp_pos r < processed_lsn x then r\<lparr>rp_decoder := d, rp_pos := processed_lsn x\<rparr> else r\<lparr>rp_decoder := d\<rparr>)"
        using run False no_message dec
        by (auto simp: next_changes_def EvMessage Let_def split: wal_payload.splits if_splits)
      have "good_parts r0 ph' v' W T (r\<lparr>rp_decoder := d\<rparr>)
          (accum_add ch (if should_filter_change r0 l then [] else cs) l a)"
      proof (cases "\<exists>k. xl_payload x = MCommit k \<and> dc_pending (rp_decoder r) \<noteq> []")
        case True
        have "drain_committed sz fl ?d = (cs1, None, d)"
          using True dec e(1) by (auto simp: decode_def handle_commit_def receive_def split: if_splits)
        from good_drain [OF rec, simplified, OF this, of ch] show ?thesis
          by (simp only: e(2,3))
      next
        case False
        have "cs1 = [] \<and> d = ?d"
          using False dec e(1) \<open>\<not> has_committed (rp_decoder r)\<close>
          by (auto simp: decode_def handle_commit_def handle_begin_def receive_def
              split: wal_payload.splits if_splits prod.splits)
        then show ?thesis using rec by (simp add: e(2))
      qed
      then have "good_parts r0 ph' v' W T r' (accum_add ch (if should_filter_change r0 l then [] else cs) l a)"
        using good_pos [of _ _ _ _ _ "r\<lparr>rp_decoder := d\<rparr>" _ "processed_lsn x"] processed_bound [of ph x ph']
          nx no_message e(4) by (auto simp: le_max_iff_disj)
      moreover have "should_filter_change r' l = should_filter_change r0 l"
        using same_filter_parts [OF good] by (simp add: e(4) same_filter_def should_filter_change_def)
      ultimately show ?thesis by simp
    qed
  next
    case EvOther
    then show ?thesis using run tick good False by (simp add: next_changes_def tick_next_def)
  next
    case EvIdle
    then show ?thesis using run tick good False by (simp add: next_changes_def tick_next_def)
  next
    case EvError
    then show ?thesis using run by (simp add: next_changes_def)
  qed
qed

text \<open>When \<open>NextChanges\<close> fails and no spool fails to close, nothing is lost: the state is good for the
  log before the message, or for the log after it.\<close>

lemma good_next_error:
  assumes good: "good_parts r0 ph v W T r a" and tick: "tick_next tk r ph v ph' v'"
    and run: "next_changes sz nonce fl (tk_event tk) r = NextError r'" and close: "sf_close_ok fl"
  shows "good_parts r0 ph v W T r' a \<or> good_parts r0 ph' v' W T r' a"
proof -
  have drained: "d = d0" if "drain_committed sz fl d0 = (cs, Some e, d)" for d0 cs e d
    using that close by (auto simp: drain_committed_def split: option.splits if_splits prod.splits)
  show ?thesis
  proof (cases "tk_event tk")
    case (EvMessage x)
    show ?thesis
    proof (cases "has_committed (rp_decoder r)")
      case True
      then have "r' = r"
        using run by (auto simp: next_changes_def EvMessage split: prod.splits if_splits dest!: drained)
      then show ?thesis using good by simp
    next
      case False
      note nx = tick [unfolded tick_next_def EvMessage event.case, simplified False if_False]
      let ?d = "receive (xl_payload x) (rp_decoder r)"
      have rec: "good_parts r0 ph' v' W T (r\<lparr>rp_decoder := ?d\<rparr>) a"
        using good_receive [OF good False] nx by simp
      obtain cs1 e d where dec: "decode sz fl (xl_payload x) (rp_decoder r) = (cs1, e, d)" by (metis prod_cases3)
      have e: "e \<noteq> None" "r' = r\<lparr>rp_decoder := d\<rparr>"
        using run False dec by (auto simp: next_changes_def EvMessage Let_def split: wal_payload.splits if_splits)
      have "d = rp_decoder r \<or> d = ?d"
        using dec e(1) False
        by (auto simp: decode_def handle_commit_def handle_begin_def receive_def
            split: wal_payload.splits if_splits prod.splits dest: drained)
      then show ?thesis using good rec by (auto simp: e(2))
    qed
  qed (use run good in \<open>auto simp: next_changes_def split: prod.splits if_splits dest!: drained\<close>)
qed

subsection \<open>The loop\<close>

lemma set_sent_tokens [simp]:
  "sent_tokens [] = []" "set (sent_tokens (x # xs)) = set_option (sent_token x) \<union> set (sent_tokens xs)"
  "sent_tokens (xs @ ys) = sent_tokens xs @ sent_tokens ys"
  by (simp_all add: sent_tokens_def map_filter_simps split: option.splits)
    (simp add: map_filter_def)

definition windows :: "stream \<Rightarrow> change list" where
  "windows s = concat (map (snd \<circ> snd) (sm_flushed s))"

definition stream_good :: "replicator \<Rightarrow> wal_phase \<Rightarrow> wal_view \<Rightarrow> stream \<Rightarrow> bool" where
  "stream_good r0 ph v s \<longleftrightarrow>
     good_parts r0 ph v (windows s) (set (sent_tokens (sm_sent s))) (sm_repl s) (sm_accum s)"

text \<open>What was sent is what some good state has sent.\<close>

definition stream_safe :: "replicator \<Rightarrow> wal_phase \<Rightarrow> wal_view \<Rightarrow> stream \<Rightarrow> bool" where
  "stream_safe r0 ph v s \<longleftrightarrow>
     (\<exists>r a. good_parts r0 ph v (windows s) (set (sent_tokens (sm_sent s))) r a)"

lemma stream_good_safe: "stream_good r0 ph v s \<Longrightarrow> stream_safe r0 ph v s"
  by (auto simp: stream_good_def stream_safe_def)

lemma stream_safe_same:
  "windows s' = windows s \<Longrightarrow> set (sent_tokens (sm_sent s')) = set (sent_tokens (sm_sent s)) \<Longrightarrow>
   stream_safe r0 ph v s \<Longrightarrow> stream_safe r0 ph v s'"
  by (simp add: stream_safe_def)

lemma discard_all_safe: "stream_safe r0 ph v s \<Longrightarrow> stream_safe r0 ph v (discard_all s)"
  by (simp add: stream_safe_def discard_all_def windows_def)

definition flush_result_ok :: "replicator \<Rightarrow> wal_phase \<Rightarrow> wal_view \<Rightarrow> stream \<Rightarrow> stop option \<times> stream \<Rightarrow> bool" where
  "flush_result_ok r0 ph v s p \<longleftrightarrow> stream_safe r0 ph v (snd p) \<and>
     (fst p = None \<longrightarrow> stream_good r0 ph v (snd p) \<and> sm_repl (snd p) = sm_repl s)"

lemma flush_table_ok:
  assumes good: "stream_good r0 ph v s"
  shows "flush_result_ok r0 ph v s (flush_table cf c fe s) \<and>
    (fst (flush_table cf c fe s) = None \<longrightarrow> ac_changes (sm_accum (snd (flush_table cf c fe s))) = [])"
proof (cases "fe_lost_before fe \<or> ac_changes (sm_accum s) = []")
  case True
  then show ?thesis
    using good stream_good_safe [OF good]
    by (cases "fe_lost_before fe") (auto simp: flush_table_def Let_def flush_result_ok_def intro: discard_all_safe)
next
  case False
  let ?dur = "if cf_streaming cf then Some (sm_pos s) else None"
  show ?thesis
  proof (cases "flush_changes (cf_est cf) (fe_scratch fe) ?dur (Some (cf_schema cf)) []
      (ac_changes (sm_accum s)) (ac_toast (sm_accum s))")
    case (Inl e)
    then show ?thesis
      using False stream_good_safe [OF good]
      by (cases "cf_streaming cf") (simp_all add: flush_table_def Let_def flush_result_ok_def)
  next
    case (Inr p)
    obtain trunc cs toast where p: "p = (trunc, cs, toast)" by (cases p) auto
    let ?a = "(accum_discard (sm_accum s))\<lparr>ac_toast := toast\<rparr>"
    let ?T = "set (sent_tokens (sm_sent s))"
    have new: "good_parts r0 ph v (windows s @ ac_changes (sm_accum s)) ?T (sm_repl s) ?a"
      using good_discard good by (simp add: stream_good_def)
    have tok: "good_parts r0 ph v (windows s @ ac_changes (sm_accum s)) (?T \<union> set_option (stream_token cf (sm_repl s) ?a))
        (sm_repl s) ?a"
      using new good_token [OF new] by (simp add: stream_token_def)
    have safe: "stream_safe r0 ph v s" by (rule stream_good_safe [OF good])
    note flush = Inr [unfolded p]
    show ?thesis
      using False flush new tok safe
      by (cases "cf_streaming cf"; cases trunc; cases "cs = []") (auto simp: flush_table_def Let_def p flush_result_ok_def stream_good_def stream_safe_def discard_all_def
          windows_def accum_discard_def)
  qed
qed

lemma flush_all_ok:
  assumes "stream_good r0 ph v s"
  shows "flush_result_ok r0 ph v s (flush_all cf c fe s)"
    "fst (flush_all cf c fe s) = None \<Longrightarrow> ac_changes (sm_accum (snd (flush_all cf c fe s))) = []"
  using flush_table_ok [OF assms] assms stream_good_safe [OF assms]
  by (auto simp: flush_all_def flush_result_ok_def)

lemma and_then_ok:
  assumes "flush_result_ok r0 ph v s p"
    and "\<And>s1. p = (None, s1) \<Longrightarrow> stream_good r0 ph v s1 \<Longrightarrow> sm_repl s1 = sm_repl s \<Longrightarrow>
      flush_result_ok r0 ph v s1 (f s1)"
  shows "flush_result_ok r0 ph v s (and_then p f)"
proof (cases p)
  case (Pair e s1)
  show ?thesis
  proof (cases e)
    case None
    then show ?thesis using assms by (auto simp: Pair and_then_def flush_result_ok_def)
  next
    case (Some x)
    then show ?thesis using assms(1) by (simp add: Pair and_then_def flush_result_ok_def)
  qed
qed

lemma flush_ready_ok:
  assumes "stream_good r0 ph v s"
  shows "flush_result_ok r0 ph v s (flush_ready cf fe s)"
proof -
  have stay: "flush_result_ok r0 ph v s1 (None, s1)" if "stream_good r0 ph v s1" for s1
    using that stream_good_safe [OF that] by (simp add: flush_result_ok_def)
  show ?thesis
    unfolding flush_ready_def
    by (rule and_then_ok) (use assms stay flush_table_ok [OF assms] flush_all_ok(1) in auto)
qed

lemma emit_idle_ok:
  assumes "stream_good r0 ph v s"
  shows "flush_result_ok r0 ph v s (emit_idle_commit_token tk s)"
  using assms good_token [of r0 ph v "windows s" _ "sm_repl s" "sm_accum s"]
  by (auto simp: emit_idle_commit_token_def Let_def flush_result_ok_def stream_safe_def stream_good_def windows_def)

lemma turn_changes_ok:
  assumes "stream_good r0 ph v (s\<lparr>sm_accum := accum_add (cf_charge cf)
      (if should_filter_change (sm_repl s) l then [] else cs) l (sm_accum s)\<rparr>)"
  shows "stream_safe r0 ph v (snd (turn_changes cf tk cs l act s))"
    "fst (turn_changes cf tk cs l act s) = None \<Longrightarrow> stream_good r0 ph v (snd (turn_changes cf tk cs l act s))"
    "fst (turn_changes cf tk cs l act s) = Some Finished \<Longrightarrow>
      stream_good r0 ph v (snd (turn_changes cf tk cs l act s)) \<and>
      ac_changes (sm_accum (snd (turn_changes cf tk cs l act s))) = [] \<and>
      pending_low_water (sm_repl (snd (turn_changes cf tk cs l act s))) = None \<and> \<not> cf_streaming cf"
proof -
  let ?s = "s\<lparr>sm_accum := accum_add (cf_charge cf)
      (if should_filter_change (sm_repl s) l then [] else cs) l (sm_accum s)\<rparr>"
  let ?f = "\<lambda>s1. if \<not> cf_streaming cf \<and> rp_barrier_seen (sm_repl s1) \<and> pending_low_water (sm_repl s1) = None
         then and_then (flush_all cf False (tk_flush tk) s1) (\<lambda>s2. (Some Finished, s2))
         else if act then (None, s1)
         else and_then (flush_all cf False (tk_flush tk) s1) (\<lambda>s2.
                if cf_streaming cf then emit_idle_commit_token tk s2 else (None, s2))"
  have stay: "flush_result_ok r0 ph v s1 (e, s1)" if "stream_good r0 ph v s1" for s1 e
    using that stream_good_safe [OF that] by (simp add: flush_result_ok_def)
  have turn: "turn_changes cf tk cs l act s = and_then (flush_ready cf (tk_flush tk) ?s) ?f"
    by (simp add: turn_changes_def)
  have "flush_result_ok r0 ph v ?s (and_then (flush_ready cf (tk_flush tk) ?s) ?f)"
  proof (rule and_then_ok [OF flush_ready_ok [OF assms]])
    fix s1
    assume good: "stream_good r0 ph v s1"
    have "flush_result_ok r0 ph v s1 (and_then (flush_all cf False (tk_flush tk) s1) (\<lambda>s2. (Some Finished, s2)))"
      by (rule and_then_ok [OF flush_all_ok(1) [OF good]]) (rule stay)
    moreover have "flush_result_ok r0 ph v s1 (and_then (flush_all cf False (tk_flush tk) s1) (\<lambda>s2.
        if cf_streaming cf then emit_idle_commit_token tk s2 else (None, s2)))"
      by (rule and_then_ok [OF flush_all_ok(1) [OF good]]) (use stay emit_idle_ok in auto)
    ultimately show "flush_result_ok r0 ph v s1 (?f s1)" using stay [OF good] by simp
  qed
  then show "stream_safe r0 ph v (snd (turn_changes cf tk cs l act s))"
    "fst (turn_changes cf tk cs l act s) = None \<Longrightarrow> stream_good r0 ph v (snd (turn_changes cf tk cs l act s))"
    by (simp_all add: turn flush_result_ok_def)
  assume fin: "fst (turn_changes cf tk cs l act s) = Some Finished"
  have no_flush: "fst (flush_table cf c fe t) \<noteq> Some Finished" for c fe t
    by (auto simp: flush_table_def Let_def split: sum.splits if_splits)
  have no_all: "fst (flush_all cf c fe t) \<noteq> Some Finished" for c fe t
    using no_flush by (simp add: flush_all_def)
  have no_idle: "fst (emit_idle_commit_token tk t) \<noteq> Some Finished" for t
    by (simp add: emit_idle_commit_token_def Let_def)
  have no_ready: "fst (flush_ready cf fe t) \<noteq> Some Finished" for fe t
    using no_flush no_all by (auto simp: flush_ready_def and_then_def split: prod.splits option.splits) (metis fst_conv)+
  obtain s1 where s1: "flush_ready cf (tk_flush tk) ?s = (None, s1)"
    using fin no_ready [of "tk_flush tk" ?s]
    by (cases "flush_ready cf (tk_flush tk) ?s"; cases "fst (flush_ready cf (tk_flush tk) ?s)")
      (auto simp: turn and_then_def)
  have good1: "stream_good r0 ph v s1"
    using flush_ready_ok [OF assms, of cf "tk_flush tk"] by (simp add: s1 flush_result_ok_def)
  obtain s2 where s2: "flush_all cf False (tk_flush tk) s1 = (None, s2)" "turn_changes cf tk cs l act s = (Some Finished, s2)"
      "\<not> cf_streaming cf" "pending_low_water (sm_repl s1) = None"
    using fin s1 no_all [of False "tk_flush tk" s1] no_idle
    by (cases "flush_all cf False (tk_flush tk) s1"; cases "fst (flush_all cf False (tk_flush tk) s1)")
      (auto simp: turn and_then_def split: if_splits)
  show "stream_good r0 ph v (snd (turn_changes cf tk cs l act s)) \<and>
      ac_changes (sm_accum (snd (turn_changes cf tk cs l act s))) = [] \<and>
      pending_low_water (sm_repl (snd (turn_changes cf tk cs l act s))) = None \<and> \<not> cf_streaming cf"
    using flush_all_ok [OF good1, of cf False "tk_flush tk"] s2
    by (simp add: flush_result_ok_def)
qed

lemma loop_step_ok:
  assumes good: "stream_good r0 ph v s" and tick: "tick_next tk (sm_repl s) ph v ph' v'"
    and close: "sf_close_ok (tk_faults tk)" and run: "loop_step cf tk s = (e, s')"
  shows "stream_safe r0 ph v s' \<or> stream_safe r0 ph' v' s'" "e = None \<Longrightarrow> stream_good r0 ph' v' s'"
    "e = Some Finished \<Longrightarrow> stream_good r0 ph' v' s' \<and> ac_changes (sm_accum s') = [] \<and>
       pending_low_water (sm_repl s') = None \<and> \<not> cf_streaming cf"
proof -
  note safe = stream_good_safe [OF good]
  have parts: "good_parts r0 ph v (windows s) (set (sent_tokens (sm_sent s))) (sm_repl s) (sm_accum s)"
    using good by (simp add: stream_good_def)
  have "(stream_safe r0 ph v s' \<or> stream_safe r0 ph' v' s') \<and> (e = None \<longrightarrow> stream_good r0 ph' v' s') \<and>
    (e = Some Finished \<longrightarrow> stream_good r0 ph' v' s' \<and> ac_changes (sm_accum s') = [] \<and>
       pending_low_water (sm_repl s') = None \<and> \<not> cf_streaming cf)"
  proof (cases "tk_cancelled tk")
    case True
    have "flush_result_ok r0 ph v s (flush_all cf True (tk_flush tk) s)" by (rule flush_all_ok(1) [OF good])
    moreover have "fst (flush_all cf True (tk_flush tk) s) \<noteq> Some Finished"
      by (auto simp: flush_all_def flush_table_def Let_def split: sum.splits if_splits)
    ultimately show ?thesis
      using run True safe
      by (auto simp: loop_step_def and_then_def flush_result_ok_def intro: discard_all_safe split: if_splits option.splits prod.splits)
  next
    case running: False
    show ?thesis
    proof (cases "next_changes (cf_encoded cf) (cf_nonce cf) (tk_faults tk) (tk_event tk) (sm_repl s)")
      case (NextError r)
      let ?s = "s\<lparr>sm_repl := r\<rparr>"
      have good_s: "stream_good r0 ph v ?s \<or> stream_good r0 ph' v' ?s"
        using good_next_error [OF parts tick NextError close] by (simp add: stream_good_def windows_def)
      have err: "stream_safe r0 p w (discard_all ?s)" "stream_safe r0 p w (snd (flush_all cf False (tk_flush tk) ?s))"
        if "stream_good r0 p w ?s" for p w
        using flush_all_ok(1) [OF that] stream_good_safe [OF that]
        by (auto simp: flush_result_ok_def intro: discard_all_safe)
      have "s' = discard_all ?s \<or> s' = snd (flush_all cf False (tk_flush tk) ?s)" "e \<noteq> None" "e \<noteq> Some Finished"
        using run running NextError by (auto simp: loop_step_def split: if_splits)
      then show ?thesis using good_s err [of ph v] err [of ph' v'] by blast
    next
      case (NextOk cs l act r)
      let ?s = "s\<lparr>sm_repl := r\<rparr>"
      have "stream_good r0 ph' v' (?s\<lparr>sm_accum := accum_add (cf_charge cf)
          (if should_filter_change (sm_repl ?s) l then [] else cs) l (sm_accum ?s)\<rparr>)"
        using good_next_ok [OF parts tick NextOk] by (simp add: stream_good_def windows_def)
      note turn = turn_changes_ok [OF this, of tk act]
      have "stream_safe r0 ph v (discard_all ?s)"
        using safe by (simp add: stream_safe_def discard_all_def windows_def)
      then show ?thesis
        using run running NextOk turn by (auto simp: loop_step_def split: if_splits)
    qed
  qed
  then show "stream_safe r0 ph v s' \<or> stream_safe r0 ph' v' s'" "e = None \<Longrightarrow> stream_good r0 ph' v' s'"
    "e = Some Finished \<Longrightarrow> stream_good r0 ph' v' s' \<and> ac_changes (sm_accum s') = [] \<and>
       pending_low_water (sm_repl s') = None \<and> \<not> cf_streaming cf" by blast+
qed

subsection \<open>Reachable streams\<close>

definition turn_log :: "tick \<Rightarrow> replicator \<Rightarrow> wal_phase \<Rightarrow> xlog list \<Rightarrow> wal_phase \<Rightarrow> xlog list \<Rightarrow> bool" where
  "turn_log tk r ph h ph' h' \<longleftrightarrow>
     (case tk_event tk of
        EvMessage x \<Rightarrow>
          if has_committed (rp_decoder r) then ph' = ph \<and> h' = h
          else wal_next ph x ph' \<and> h' = h @ [x] \<and> length h < 2 ^ 62
      | _ \<Rightarrow> ph' = ph \<and> h' = h)"

text \<open>A stream from a start position, over the log it receives: turns of the loop in which every
  spool that is used up can be closed, and the pipeline confirming tokens it was handed.\<close>

inductive stream_reach :: "stream_config \<Rightarrow> replicator \<Rightarrow> stream \<Rightarrow> wal_phase \<Rightarrow> xlog list \<Rightarrow> bool"
  for cf :: stream_config and r0 :: replicator where
  start: "r0 = new_replicator l keyless boundary \<Longrightarrow>
    stream_reach cf r0 (new_stream l keyless boundary) (0, False) []"
| turn: "stream_reach cf r0 s ph h \<Longrightarrow> turn_log tk (sm_repl s) ph h ph' h' \<Longrightarrow> sf_close_ok (tk_faults tk) \<Longrightarrow>
    loop_step cf tk s = (None, s') \<Longrightarrow> stream_reach cf r0 s' ph' h'"
| confirm: "stream_reach cf r0 s ph h \<Longrightarrow> t \<in> set (sent_tokens (sm_sent s)) \<Longrightarrow>
    stream_reach cf r0 (s\<lparr>sm_pos := position_commit (sm_pos s) t\<rparr>) ph h"

lemma wal_state_snoc: "wal_state (h @ [x]) = wal_apply x (wal_state h)"
  by (simp add: wal_state_def)

lemma wal_pending_length: "length (fst (snd (wal_state h))) \<le> length h"
proof (induction h rule: rev_induct)
  case Nil
  then show ?case by (simp add: wal_state_def)
next
  case (snoc x h)
  obtain tx pend rows where "wal_state h = (tx, pend, rows)" by (cases "wal_state h") auto
  then show ?case
    using snoc by (simp add: wal_state_snoc wal_apply_def split: wal_payload.splits)
qed

lemma turn_log_tick:
  assumes "turn_log tk r ph h ph' h'"
  shows "tick_next tk r ph (wal_state h) ph' (wal_state h')"
  using assms wal_pending_length [of h]
  by (auto simp: turn_log_def tick_next_def wal_state_snoc split: event.splits if_splits)

lemma reach_good: "stream_reach cf r0 s ph h \<Longrightarrow> stream_good r0 ph (wal_state h) s"
proof (induction rule: stream_reach.induct)
  case (start l keyless boundary)
  then show ?case
    by (simp add: stream_good_def good_parts_def view_ordered_def wal_state_def repl_ok_def accum_ok_def
        new_stream_def new_replicator_def new_accum_def committed_changes_def same_filter_def windows_def window_order_def)
next
  case (turn s ph h tk ph' h' s')
  from loop_step_ok(2) [OF turn.IH turn_log_tick [OF turn.hyps(2)] turn.hyps(3,4)] show ?case by simp
next
  case (confirm s ph h t)
  then show ?case by (simp add: stream_good_def windows_def)
qed

definition sends_more :: "stream \<Rightarrow> stop option \<times> stream \<Rightarrow> bool" where
  "sends_more s p \<longleftrightarrow> sm_pos (snd p) = sm_pos s \<and>
     set (sent_tokens (sm_sent s)) \<subseteq> set (sent_tokens (sm_sent (snd p)))"

lemma flush_table_sends: "sends_more s (flush_table cf c fe s)"
  by (auto simp: sends_more_def flush_table_def Let_def discard_all_def split: sum.splits)

lemma flush_all_sends: "sends_more s (flush_all cf c fe s)"
  using flush_table_sends by (simp add: flush_all_def sends_more_def)

lemma and_then_sends:
  assumes "sends_more s p" "\<And>s1. sends_more s1 (f s1)"
  shows "sends_more s (and_then p f)"
  using assms(1) assms(2) [of "snd p"]
  by (auto simp: and_then_def sends_more_def split: prod.splits option.splits)

lemma emit_idle_sends: "sends_more s (emit_idle_commit_token tk s)"
  by (auto simp: emit_idle_commit_token_def Let_def sends_more_def)

lemma sends_same: "sm_pos s' = sm_pos s \<Longrightarrow> sm_sent s' = sm_sent s \<Longrightarrow> sends_more s p = sends_more s' p"
  by (simp add: sends_more_def)

lemma sends_stay: "sends_more s (e, s)"
  by (simp add: sends_more_def)

lemma turn_changes_sends: "sends_more s (turn_changes cf tk cs l act s)"
proof -
  let ?s = "s\<lparr>sm_accum := accum_add (cf_charge cf)
      (if should_filter_change (sm_repl s) l then [] else cs) l (sm_accum s)\<rparr>"
  have "sends_more ?s (turn_changes cf tk cs l act s)"
    unfolding turn_changes_def flush_ready_def
    by (intro and_then_sends) (simp_all add: flush_table_sends flush_all_sends and_then_sends emit_idle_sends sends_stay)
  then show ?thesis by (simp add: sends_more_def)
qed

lemma loop_step_sends: "sends_more s (loop_step cf tk s)"
proof -
  have err: "sends_more s (x, discard_all (s\<lparr>sm_repl := r\<rparr>))" "sends_more s (x, snd (flush_all cf False fe (s\<lparr>sm_repl := r\<rparr>)))"
    "sends_more s (turn_changes cf tk cs l act (s\<lparr>sm_repl := r\<rparr>))" "sends_more s (x, discard_all s)" for x r fe cs l act
    using flush_all_sends [of "s\<lparr>sm_repl := r\<rparr>" cf False fe] turn_changes_sends [of "s\<lparr>sm_repl := r\<rparr>" cf tk cs l act]
    by (simp_all add: sends_more_def discard_all_def)
  show ?thesis
    using err and_then_sends [OF flush_all_sends [of s cf True "tk_flush tk"] sends_stay]
    by (simp add: loop_step_def split: next_result.splits)
qed

lemma reach_position:
  "stream_reach cf r0 s ph h \<Longrightarrow> sm_pos s = 0 \<or> sm_pos s \<in> set (sent_tokens (sm_sent s))"
proof (induction rule: stream_reach.induct)
  case (start l keyless boundary)
  then show ?case by (simp add: new_stream_def)
next
  case (turn s ph h tk ph' h' s')
  then show ?case using loop_step_sends [of s cf tk] by (auto simp: sends_more_def)
next
  case (confirm s ph h t)
  then show ?case by (auto simp: position_commit_def)
qed

subsection \<open>What follows for the log\<close>

definition complete_rows :: "xlog list \<Rightarrow> change list" where
  "complete_rows h = (case wal_state h of (tx, pend, rows) \<Rightarrow> rows)"

definition received_rows :: "xlog list \<Rightarrow> change list" where
  "received_rows h = (case wal_state h of (tx, pend, rows) \<Rightarrow> rows @ pend)"

text \<open>The rows of the log the stream keeps that have not been in a window.\<close>

definition unflushed :: "replicator \<Rightarrow> stream \<Rightarrow> xlog list \<Rightarrow> change list" where
  "unflushed r0 s h = drop (length (windows s)) (filter (kept r0) (received_rows h))"

definition view_rows :: "wal_view \<Rightarrow> change list" where
  "view_rows v = snd (snd v) @ fst (snd v)"

definition tokens_below :: "replicator \<Rightarrow> wal_phase \<Rightarrow> wal_view \<Rightarrow> stream \<Rightarrow> bool" where
  "tokens_below r0 ph v s \<longleftrightarrow> view_ordered ph v \<and>
     length (windows s) \<le> length (filter (kept r0) (view_rows v)) \<and>
     (\<forall>t \<in> set (sent_tokens (sm_sent s)). t \<le> max (rp_start r0) (fst ph) \<and>
        (\<forall>c \<in> set (drop (length (windows s)) (filter (kept r0) (view_rows v))). t \<le> ch_lsn c))"

lemma safe_below: "stream_safe r0 ph v s \<Longrightarrow> tokens_below r0 ph v s"
  by (auto simp: stream_safe_def good_parts_def tokens_below_def view_rows_def)

lemma view_rows_next:
  assumes "view_ordered ph v" "wal_next ph x ph'"
  shows "view_rows (wal_apply x v) = view_rows v \<or>
    (\<exists>c. view_rows (wal_apply x v) = view_rows v @ [c] \<and> ch_lsn c = fst ph)"
  using assms
  by (auto simp: view_ordered_def wal_next_def wal_apply_def view_rows_def split: prod.splits wal_payload.splits if_splits)

lemma below_next:
  assumes below: "tokens_below r0 ph v s" and tick: "tick_next tk r ph v ph' v'"
  shows "tokens_below r0 ph' v' s"
proof (cases "ph' = ph \<and> v' = v")
  case False
  then obtain x where x: "wal_next ph x ph'" "v' = wal_apply x v" "length (fst (snd v)) < 2 ^ 62"
    using tick by (auto simp: tick_next_def split: event.splits if_splits)
  have vo: "view_ordered ph v" using below by (simp add: tokens_below_def)
  then have ord: "view_ordered ph' v'" unfolding x(2) by (rule view_ordered_next [OF _ x(1,3)])
  have mono: "fst ph \<le> fst ph'" by (rule wal_next_mono [OF x(1)])
  have len: "length (windows s) \<le> length (filter (kept r0) (view_rows v))"
    and old: "t \<le> max (rp_start r0) (fst ph)"
      "c \<in> set (drop (length (windows s)) (filter (kept r0) (view_rows v))) \<Longrightarrow> t \<le> ch_lsn c"
    if "t \<in> set (sent_tokens (sm_sent s))" for t c
    using below that by (simp_all add: tokens_below_def)
  have front: "t \<le> max (rp_start r0) (fst ph')" if "t \<in> set (sent_tokens (sm_sent s))" for t
    using old(1) [OF that] mono by (auto simp: le_max_iff_disj)
  have added: "t \<le> ch_lsn c" if "t \<in> set (sent_tokens (sm_sent s))" "kept r0 c" "ch_lsn c = fst ph" for t c
    using old(1) [OF that(1)] kept_start [OF that(2)] that(3) by (simp add: max_def)
  have len': "length (windows s) \<le> length (filter (kept r0) (view_rows v))"
    using below by (simp add: tokens_below_def)
  from view_rows_next [OF vo x(1)]
  consider "view_rows v' = view_rows v" | c where "view_rows v' = view_rows v @ [c]" "ch_lsn c = fst ph"
    unfolding x(2) by blast
  then show ?thesis
  proof cases
    case 1
    then show ?thesis using ord len' old(2) front by (simp add: tokens_below_def)
  next
    case 2
    then show ?thesis using ord len' old(2) front added by (auto simp: tokens_below_def)
  qed
qed (use below in simp)

lemma received_view: "received_rows h = view_rows (wal_state h)"
  by (simp add: received_rows_def view_rows_def split: prod.splits)

lemma turn_below:
  assumes reach: "stream_reach cf r0 s ph h" and turn: "turn_log tk (sm_repl s) ph h ph' h'"
    and close: "sf_close_ok (tk_faults tk)" and run: "loop_step cf tk s = (e, s')"
  shows "tokens_below r0 ph' (wal_state h') s'"
  using loop_step_ok(1) [OF reach_good [OF reach] turn_log_tick [OF turn] close run]
    below_next [OF safe_below turn_log_tick [OF turn], of r0 s'] safe_below [of r0 ph' _ s'] by blast

text \<open>The positions that confirm data to the slot: the tokens sent, and the flush position of a
  standby status update, which follows those the pipeline has confirmed.\<close>

definition confirmable :: "replicator \<Rightarrow> stream \<Rightarrow> lsn set" where
  "confirmable r0 s = insert (snd (standby_update True (rp_pos (sm_repl s)) (sm_pos s) (rp_start r0)))
     (set (sent_tokens (sm_sent s)))"

lemma turn_confirmable:
  assumes reach: "stream_reach cf r0 s ph h" and turn: "turn_log tk (sm_repl s) ph h ph' h'"
    and close: "sf_close_ok (tk_faults tk)" and run: "loop_step cf tk s = (e, s')"
    and t: "t \<in> confirmable r0 s'"
  shows "t \<le> max (rp_start r0) (fst ph') \<and> (\<forall>c \<in> set (unflushed r0 s' h'). t \<le> ch_lsn c)"
proof -
  have below: "tokens_below r0 ph' (wal_state h') s'" by (rule turn_below [OF reach turn close run])
  have "sm_pos s' = 0 \<or> sm_pos s' \<in> set (sent_tokens (sm_sent s'))"
    using reach_position [OF reach] loop_step_sends [of s cf tk] run by (auto simp: sends_more_def)
  then have "t = rp_start r0 \<or> t \<in> set (sent_tokens (sm_sent s'))"
    using t by (auto simp: confirmable_def standby_update_def Let_def)
  moreover have "rp_start r0 \<le> ch_lsn c" if "c \<in> set (unflushed r0 s' h')" for c
    using that by (auto simp: unflushed_def dest!: in_set_dropD intro: kept_start)
  ultimately show ?thesis using below by (auto simp: tokens_below_def unflushed_def received_view)
qed

lemma wal_next_begin: "wal_next ph x ph' \<Longrightarrow> xl_payload x = MBegin f \<Longrightarrow> fst ph \<le> f"
  by (cases ph) (simp add: wal_next_def)

lemma reach_conserves:
  assumes "stream_reach cf r0 s ph h"
  shows "filter (kept r0) (complete_rows h) =
      windows s @ ac_changes (sm_accum s) @ filter (kept r0) (committed_changes (rp_decoder (sm_repl s)))"
    and "window_order (windows s @ ac_changes (sm_accum s))"
proof -
  obtain tx pend rows where v: "wal_state h = (tx, pend, rows)" by (cases "wal_state h") auto
  have good: "good_parts r0 ph (tx, pend, rows) (windows s) (set (sent_tokens (sm_sent s))) (sm_repl s) (sm_accum s)"
    using reach_good [OF assms] by (simp add: stream_good_def v)
  then show eq: "filter (kept r0) (complete_rows h) =
      windows s @ ac_changes (sm_accum s) @ filter (kept r0) (committed_changes (rp_decoder (sm_repl s)))"
    by (simp add: good_parts_def complete_rows_def v)
  have "window_order rows"
    using good by (auto simp: good_parts_def view_ordered_def window_order_def sorted_wrt_append split: prod.splits)
  then have "window_order (filter (kept r0) rows)"
    by (auto simp: window_order_def list_all_iff intro: sorted_wrt_filter)
  then show "window_order (windows s @ ac_changes (sm_accum s))"
    using eq by (simp add: complete_rows_def v window_order_def sorted_wrt_append) 
qed

lemma batch_complete:
  assumes reach: "stream_reach cf r0 s ph h" and turn: "turn_log tk (sm_repl s) ph h ph' h'"
    and close: "sf_close_ok (tk_faults tk)" and run: "loop_step cf tk s = (Some Finished, s')"
  shows "windows s' = filter (kept r0) (received_rows h') \<and> window_order (windows s')"
proof -
  obtain tx pend rows where v: "wal_state h' = (tx, pend, rows)" by (cases "wal_state h'") auto
  note fin = loop_step_ok(3) [OF reach_good [OF reach] turn_log_tick [OF turn] close run refl]
  then have good: "good_parts r0 ph' (tx, pend, rows) (windows s') (set (sent_tokens (sm_sent s'))) (sm_repl s') (sm_accum s')"
    by (simp add: stream_good_def v)
  then have "committed_changes (rp_decoder (sm_repl s')) = [] \<and> pend = []"
    using fin pending_low_water_repl [of r0 ph' tx pend rows "sm_repl s'"]
    by (simp add: good_parts_def split: if_splits)
  moreover have "window_order rows"
    using good by (auto simp: good_parts_def view_ordered_def window_order_def sorted_wrt_append split: prod.splits)
  then have "window_order (filter (kept r0) rows)"
    by (auto simp: window_order_def list_all_iff intro: sorted_wrt_filter)
  ultimately show ?thesis using good fin by (simp add: good_parts_def received_rows_def v)
qed

end
