(* ===== verification/Cdc_Stream_Target.thy ===== *)
theory Cdc_Stream_Target
  imports Cdc_Stream_Safety
begin

text \<open>
  The results of a stream arrive at the destination: a truncation empties the target, a batch is
  merged into it. The stream's sends are the windows of \<open>Cdc_Window\<close> flushed one after the other,
  so the target follows the source table along the write-ahead log.
\<close>

subsection \<open>What the sends amount to\<close>

fun apply_sent :: "table_schema \<Rightarrow> sent \<Rightarrow> (string \<rightharpoonup> target) \<Rightarrow> (string \<rightharpoonup> target)" where
  "apply_sent ts (SentTruncate t) T = Map.empty"
| "apply_sent ts (SentBatch cs t) T = merge_staged (ts_columns ts) (stage_changes ts cs) T"
| "apply_sent ts (SentToken t) T = T"

definition apply_all :: "table_schema \<Rightarrow> sent list \<Rightarrow> (string \<rightharpoonup> target) \<Rightarrow> (string \<rightharpoonup> target)" where
  "apply_all ts xs T = fold (apply_sent ts) xs T"

lemma apply_all_append [simp]:
  "apply_all ts [] T = T" "apply_all ts (xs @ ys) T = apply_all ts ys (apply_all ts xs T)"
  "apply_all ts (x # xs) T = apply_all ts xs (apply_sent ts x T)"
  by (simp_all add: apply_all_def)

fun flush_log :: "(cell list \<Rightarrow> int) \<Rightarrow> table_schema \<Rightarrow> string \<Rightarrow>
  (scratch_faults \<times> lsn option \<times> change list) list \<Rightarrow> toast_state \<Rightarrow> (string \<rightharpoonup> target) \<Rightarrow>
  (flush_error, toast_state \<times> (string \<rightharpoonup> target)) result" where
  "flush_log est ts table [] s T = Inr (s, T)"
| "flush_log est ts table ((fails, durable, cs) # ws) s T =
     bind_result (flush_changes est fails durable (Some ts) table cs s) (\<lambda>(trunc, cs', s1).
       flush_log est ts table ws s1 (apply_flush ts trunc cs' T))"

lemma flush_log_append:
  "flush_log est ts table (ws @ [(fails, durable, cs)]) s T =
     bind_result (flush_log est ts table ws s T) (\<lambda>(s1, T1).
     bind_result (flush_changes est fails durable (Some ts) table cs s1) (\<lambda>(trunc, cs', s2).
       Inr (s2, apply_flush ts trunc cs' T1)))"
  by (induction ws arbitrary: s T) (auto simp: bind_result_def split: sum.splits)

text \<open>The sends of a stream amount to its windows flushed, and its TOAST state is theirs.\<close>

definition sends_windows :: "stream_config \<Rightarrow> (string \<rightharpoonup> target) \<Rightarrow> stream \<Rightarrow> bool" where
  "sends_windows cf T s \<longleftrightarrow>
     flush_log (cf_est cf) (cf_schema cf) [] (sm_flushed s) new_toast_state T =
       Inr (ac_toast (sm_accum s), apply_all (cf_schema cf) (sm_sent s) T)"

definition keeps_windows :: "stream_config \<Rightarrow> (string \<rightharpoonup> target) \<Rightarrow> stop option \<times> stream \<Rightarrow> bool" where
  "keeps_windows cf T p \<longleftrightarrow> fst p \<in> {None, Some Finished} \<longrightarrow> sends_windows cf T (snd p)"

lemma merge_none [simp]: "merge_staged cols (stage_changes ts []) T = T"
  by (simp add: merge_staged_def stage_changes_def merge_key_def upsert_active_def mark_deleted_def
      insert_tombstone_def fun_eq_iff split: option.splits)

lemma flush_table_windows:
  assumes "sends_windows cf T s"
  shows "keeps_windows cf T (flush_table cf c fe s)"
  using assms
  by (cases "cf_streaming cf") (auto simp: keeps_windows_def flush_table_def Let_def sends_windows_def flush_log_append bind_result_def
      apply_flush_def accum_discard_def split: sum.splits)

lemma flush_all_windows: "sends_windows cf T s \<Longrightarrow> keeps_windows cf T (flush_all cf c fe s)"
  by (simp add: flush_all_def flush_table_windows) (simp add: keeps_windows_def)

lemma stay_windows: "sends_windows cf T s \<Longrightarrow> keeps_windows cf T (e, s)"
  by (simp add: keeps_windows_def)

lemma and_then_windows:
  assumes "keeps_windows cf T p" "\<And>s1. sends_windows cf T s1 \<Longrightarrow> keeps_windows cf T (f s1)"
  shows "keeps_windows cf T (and_then p f)"
  using assms by (cases p; cases "fst p") (auto simp: and_then_def keeps_windows_def)

lemma emit_idle_windows: "sends_windows cf T s \<Longrightarrow> keeps_windows cf T (emit_idle_commit_token tk s)"
  by (auto simp: emit_idle_commit_token_def Let_def keeps_windows_def sends_windows_def)

lemma sends_windows_same:
  "sm_flushed s' = sm_flushed s \<Longrightarrow> sm_sent s' = sm_sent s \<Longrightarrow> ac_toast (sm_accum s') = ac_toast (sm_accum s) \<Longrightarrow>
   sends_windows cf T s' = sends_windows cf T s"
  by (simp add: sends_windows_def)

lemma turn_changes_windows:
  assumes "sends_windows cf T s"
  shows "keeps_windows cf T (turn_changes cf tk cs l act s)"
proof -
  have "sends_windows cf T (s\<lparr>sm_accum := accum_add (cf_charge cf)
      (if should_filter_change (sm_repl s) l then [] else cs) l (sm_accum s)\<rparr>)"
    using assms by (simp add: sends_windows_def accum_add_def)
  then show ?thesis
    unfolding turn_changes_def flush_ready_def
    by (intro and_then_windows)
      (auto simp: flush_table_windows flush_all_windows stay_windows
        intro!: and_then_windows flush_all_windows stay_windows emit_idle_windows)
qed

lemma loop_step_windows:
  assumes "sends_windows cf T s"
  shows "keeps_windows cf T (loop_step cf tk s)"
proof -
  have same: "sends_windows cf T (s\<lparr>sm_repl := r\<rparr>)" for r
    using assms by (simp add: sends_windows_def)
  have no_cancel: "keeps_windows cf T (and_then p (\<lambda>s1. (Some Cancelled, s1)))"
    if "keeps_windows cf T p" for p
    using that by (cases p; cases "fst p") (auto simp: and_then_def keeps_windows_def)
  show ?thesis
    using flush_all_windows [OF assms, of True "tk_flush tk"] no_cancel turn_changes_windows [OF same]
    by (auto simp: loop_step_def keeps_windows_def split: next_result.splits)
qed

lemma reach_windows: "stream_reach cf r0 s ph h \<Longrightarrow> sends_windows cf T s"
proof (induction rule: stream_reach.induct)
  case (start l keyless boundary)
  then show ?case by (simp add: sends_windows_def new_stream_def new_accum_def)
next
  case (turn s ph h tk ph' h' s')
  then show ?case using loop_step_windows [of cf T s tk] by (simp add: keeps_windows_def)
next
  case (confirm s ph h t)
  then show ?case by (simp add: sends_windows_def)
qed

subsection \<open>The source table along the log\<close>

text \<open>A history of the table with its truncations.\<close>

fun table_history :: "table_schema \<Rightarrow> source_rows \<Rightarrow> (change \<times> cell list) list \<Rightarrow> bool" where
  "table_history ts D [] \<longleftrightarrow> True"
| "table_history ts D (e # es) \<longleftrightarrow>
     (ch_op (fst e) = TRUNCATE \<or> event_fits ts D e) \<and> table_history ts (source_apply ts e D) es"

lemma source_run_append: "source_run ts (xs @ ys) D = source_run ts ys (source_run ts xs D)"
  by (simp add: source_run_def)

lemma table_history_append:
  "table_history ts D (xs @ ys) \<longleftrightarrow> table_history ts D xs \<and> table_history ts (source_run ts xs D) ys"
  by (induction xs arbitrary: D) (simp_all add: source_run_def)

lemma table_history_live:
  "table_history ts D es \<Longrightarrow> \<forall>e \<in> set es. ch_op (fst e) \<noteq> TRUNCATE \<Longrightarrow> history_fits ts D es"
  by (induction es arbitrary: D) auto

lemma last_truncate_max:
  assumes "i < length cs" "ch_op (cs ! i) = TRUNCATE"
  shows "int i \<le> last_truncate_index cs"
proof -
  let ?is = "filter (\<lambda>i. ch_op (cs ! i) = TRUNCATE) [0..<length cs]"
  have "i \<in> set ?is" using assms by simp
  moreover have "sorted ?is" by (rule sorted_wrt_filter) simp
  moreover obtain ks k where "?is = ks @ [k]" using \<open>i \<in> set ?is\<close> by (metis append_butlast_last_id in_set_conv_nth length_0_conv less_nat_zero_code)
  ultimately show ?thesis
    by (auto simp: last_truncate_index_def sorted_append)
qed

lemma live_no_truncate: "e \<in> set (live_events es) \<Longrightarrow> ch_op (fst e) \<noteq> TRUNCATE"
proof
  assume e: "e \<in> set (live_events es)" and op: "ch_op (fst e) = TRUNCATE"
  let ?t = "last_truncate_index (map fst es)"
  define k where "k = (if 0 \<le> ?t then nat ?t + 1 else 0)"
  have "live_events es = drop k es" by (simp add: live_events_def k_def Let_def)
  then obtain j where j: "j < length (drop k es)" "drop k es ! j = e" using e by (metis in_set_conv_nth)
  then have "k + j < length es" "es ! (k + j) = e" by simp_all
  then have "int (k + j) \<le> ?t" using op by (intro last_truncate_max) simp_all
  then show False by (auto simp: k_def split: if_splits)
qed

lemma table_history_window:
  assumes "table_history ts D es"
  shows "history_fits ts (live_start es D) (live_events es)"
proof (cases "0 \<le> last_truncate_index (map fst es)")
  case True
  then obtain i where i: "last_truncate_index (map fst es) = int i" "i < length es"
      "ch_op (fst (es ! i)) = TRUNCATE"
    using last_truncate_index_nth [OF True] by auto
  have split: "es = (take i es @ [es ! i]) @ drop (Suc i) es"
    using id_take_nth_drop [OF i(2)] by simp
  have live: "live_events es = drop (Suc i) es" "live_start es D = Map.empty"
    using i(1) by (simp_all add: live_events_def live_start_def Let_def)
  have "source_run ts (take i es @ [es ! i]) D = Map.empty"
    using i(3) by (cases "es ! i") (simp add: source_run_def source_apply_def)
  then have "table_history ts Map.empty (drop (Suc i) es)"
    using assms table_history_append [of ts D "take i es @ [es ! i]" "drop (Suc i) es"] split by simp
  then show ?thesis
    using table_history_live [of ts Map.empty "live_events es"] live_no_truncate [of _ es] live by simp
next
  case False
  then have "live_events es = es" "live_start es D = D" by (simp_all add: live_events_def live_start_def Let_def)
  then show ?thesis
    using table_history_live [OF assms] live_no_truncate [of _ es] by simp
qed

subsection \<open>Windows along the log\<close>

definition window_end :: "string \<Rightarrow> (change \<times> cell list) list \<Rightarrow> string" where
  "window_end p es = (if live_events es = [] then p else change_end (fst (last (live_events es))))"

lemma live_events_suffix: "\<exists>k. live_events es = drop k es"
  by (simp add: live_events_def Let_def) (metis drop0)

lemma set_live: "set (live_events es) \<subseteq> set es"
  using live_events_suffix [of es] set_drop_subset by fastforce

lemma start_less_end: "ch_seq c \<noteq> 0 \<Longrightarrow> change_start c < change_end c"
  by (simp add: change_start_def change_end_def change_lsn_order_text change_position_less_def
      word_less_nat_alt unat_minus_one unat_gt_0)

lemma end_mono: "change_less c d \<Longrightarrow> change_end c < change_end d"
  by (simp add: change_end_def change_lsn_order_text change_less_def)

lemma end_before_start:
  assumes "change_less b c" "even (unat (ch_seq b))" "even (unat (ch_seq c))" "ch_seq c \<noteq> 0"
  shows "change_end b < change_start c"
proof -
  have "change_less b (moved_delete c)" by (rule less_moved_delete [OF assms])
  then show ?thesis
    using assms(4)
    by (simp add: change_end_def change_start_def change_lsn_order_text change_less_def moved_delete_def
        word_neq_0_conv)
qed

lemma window_order_sub:
  assumes "window_order (xs @ ys)"
  shows "window_order xs" "window_order ys"
    "x \<in> set xs \<Longrightarrow> y \<in> set ys \<Longrightarrow> change_end x < change_start y"
  using assms end_before_start [of x y]
  by (auto simp: window_order_def sorted_wrt_append list_all_iff)

lemma window_ok_of_history:
  assumes "table_history ts D es" "window_order (map fst es)" "\<forall>e \<in> set es. p < change_start (fst e)"
  shows "window_ok ts D es p (window_end p es)"
proof -
  obtain k where k: "live_events es = drop k es" using live_events_suffix [of es] by blast
  have "window_order (map fst (take k es) @ map fst (drop k es))"
    using assms(2) by (simp flip: map_append)
  then have ord: "window_order (map fst (live_events es))" unfolding k by (rule window_order_sub(2))
  have start: "p < change_start (fst e)" if "e \<in> set (live_events es)" for e
    using assms(3) that set_live by blast
  have le: "change_end (fst e) \<le> window_end p es" if e: "e \<in> set (live_events es)" for e
  proof -
    have ne: "live_events es \<noteq> []" using e by auto
    then obtain xs l where xs: "live_events es = xs @ [l]" by (metis rev_exhaust)
    have "change_end (fst e) \<le> change_end (fst l)"
    proof (cases "e = l")
      case False
      then have "change_less (fst e) (fst l)"
        using e ord by (auto simp: xs window_order_def sorted_wrt_append)
      then show ?thesis by (simp add: end_mono less_imp_le)
    qed simp
    then show ?thesis by (simp add: window_end_def xs)
  qed
  have "p \<le> window_end p es"
  proof (cases "live_events es = []")
    case False
    then have l: "last (live_events es) \<in> set (live_events es)" by simp
    then have "ch_seq (fst (last (live_events es))) \<noteq> 0" using ord by (simp add: window_order_def list_all_iff)
    then show ?thesis
      using start [OF l] start_less_end False by (simp add: window_end_def) (meson less_imp_le less_trans)
  qed (simp add: window_end_def)
  then show ?thesis
    using table_history_window [OF assms(1)] ord start le by (simp add: window_ok_def)
qed

lemma windows_ok_of_history:
  assumes "table_history ts D (concat ess)" "window_order (map fst (concat ess))"
    "\<forall>e \<in> set (concat ess). p < change_start (fst e)"
  shows "\<exists>qs. windows_ok ts D ess p qs"
  using assms
proof (induction ess arbitrary: D p)
  case Nil
  then show ?case by (intro exI [of _ "[]"]) simp
next
  case (Cons es ess)
  have hist: "table_history ts D es" "table_history ts (source_run ts es D) (concat ess)"
    using Cons.prems(1) by (simp_all add: table_history_append)
  have "window_order (map fst es @ map fst (concat ess))" using Cons.prems(2) by simp
  note order = window_order_sub [OF this]
  have ok: "window_ok ts D es p (window_end p es)"
    using hist(1) order(1) Cons.prems(3) by (intro window_ok_of_history) simp_all
  have "window_end p es < change_start (fst e)" if "e \<in> set (concat ess)" for e
  proof (cases "live_events es = []")
    case True
    then show ?thesis using that Cons.prems(3) by (auto simp: window_end_def)
  next
    case False
    then have "last (live_events es) \<in> set es" using set_live by (metis last_in_set subsetD)
    then show ?thesis using that False order(3) by (simp add: window_end_def)
  qed
  then obtain qs where "windows_ok ts (source_run ts es D) ess (window_end p es) qs"
    using Cons.IH [OF hist(2) order(2)] by blast
  then show ?case using ok by (intro exI [of _ "window_end p es # qs"]) simp
qed

fun attach :: "('a \<times> 'b \<times> change list) list \<Rightarrow> (change \<times> cell list) list \<Rightarrow>
  ('a \<times> 'b \<times> (change \<times> cell list) list) list" where
  "attach [] es = []"
| "attach ((f, d, cs) # ws) es = (f, d, take (length cs) es) # attach ws (drop (length cs) es)"

lemma attach_events:
  "length es = length (concat (map (snd \<circ> snd) ws)) \<Longrightarrow> concat (map (snd \<circ> snd) (attach ws es)) = es"
  by (induction ws es rule: attach.induct) auto

lemma attach_flush:
  "map fst es = concat (map (snd \<circ> snd) ws) \<Longrightarrow>
   flush_windows est ts table (attach ws es) s T = flush_log est ts table ws s T"
proof (induction ws es arbitrary: s T rule: attach.induct)
  case (2 f d cs ws es)
  have "map fst (take (length cs) es) = cs" "map fst (drop (length cs) es) = concat (map (snd \<circ> snd) ws)"
    using 2(2) by (simp_all add: take_map [symmetric] drop_map [symmetric] comp_def)
  then show ?case
    using 2(1) by (auto simp: bind_result_def comp_def split: sum.splits)
qed simp

text \<open>The target of a stream is in step with the source table as of the last window.\<close>

lemma stream_in_step:
  assumes reach: "stream_reach cf r0 s ph h"
    and step: "in_step (cf_est cf) (cf_schema cf) [] D new_toast_state T p"
    and schema: "pk_in_source (cf_schema cf)" "distinct (column_names (cf_schema cf))"
    and events: "map fst es = filter (kept r0) (complete_rows h)"
    and history: "table_history (cf_schema cf) D es" "\<forall>e \<in> set es. p < change_start (fst e)"
  shows "\<exists>p'. in_step (cf_est cf) (cf_schema cf) [] (source_run (cf_schema cf) (take (length (windows s)) es) D)
    (ac_toast (sm_accum s)) (apply_all (cf_schema cf) (sm_sent s) T) p'"
proof -
  let ?n = "length (windows s)" and ?ws = "attach (sm_flushed s) (take (length (windows s)) es)"
  have es: "map fst es = windows s @ ac_changes (sm_accum s) @
      filter (kept r0) (committed_changes (rp_decoder (sm_repl s)))"
    using reach_conserves(1) [OF reach] events by simp
  then have w: "map fst (take ?n es) = windows s" by (simp add: take_map [symmetric])
  have "length es \<ge> ?n" using arg_cong [OF es, of length] by simp
  then have conc: "concat (map (snd \<circ> snd) ?ws) = take ?n es"
    by (intro attach_events) (simp add: windows_def)
  have run: "flush_windows (cf_est cf) (cf_schema cf) [] ?ws new_toast_state T =
      Inr (ac_toast (sm_accum s), apply_all (cf_schema cf) (sm_sent s) T)"
    using reach_windows [OF reach, of T] attach_flush [of "take ?n es" "sm_flushed s"] w
    by (simp add: sends_windows_def windows_def)
  have "table_history (cf_schema cf) D (take ?n es @ drop ?n es)" using history(1) by simp
  then have "table_history (cf_schema cf) D (take ?n es)" by (simp only: table_history_append)
  moreover have "window_order (map fst (take ?n es))"
    unfolding w using reach_conserves(2) [OF reach] by (rule window_order_sub(1))
  moreover have "\<forall>e \<in> set (take ?n es). p < change_start (fst e)"
    using history(2) by (auto dest: in_set_takeD)
  ultimately obtain qs where "windows_ok (cf_schema cf) D (map (snd \<circ> snd) ?ws) p qs"
    using windows_ok_of_history [of "cf_schema cf" D "map (snd \<circ> snd) ?ws" p] unfolding conc by blast
  from flush_windows_in_step [OF step schema this run] show ?thesis unfolding conc by blast
qed

subsection \<open>Examples\<close>

definition calm :: flush_env where
  "calm = \<lparr>fe_lost_before = False, fe_scratch = (\<lambda>n. False), fe_truncate_sent = True, fe_batch_ok = True,
     fe_lost_after = False, fe_batch_sent = True\<rparr>"

definition calm_tick :: "bool \<Rightarrow> event \<Rightarrow> tick" where
  "calm_tick close_ok ev = \<lparr>tk_cancelled = False, tk_lost = False,
     tk_faults = \<lparr>sf_read_ok = True, sf_close_ok = close_ok, sf_decode_ok = True\<rparr>, tk_event = ev, tk_flush = calm,
     tk_checkpoint_ok = True, tk_token_sent = True\<rparr>"

definition sample_stream_config :: "bool \<Rightarrow> int \<Rightarrow> stream_config" where
  "sample_stream_config streaming n = \<lparr>cf_est = (\<lambda>v. 0), cf_encoded = (\<lambda>c. n), cf_charge = (\<lambda>a b. 0),
     cf_schema = sample_cdc_schema, cf_streaming = streaming, cf_threshold = 10, cf_nonce = ''n''\<rparr>"

definition sample_row :: change where
  "sample_row = \<lparr>ch_op = INSERT, ch_lsn = 0, ch_seq = 0, ch_values = [sample_cell ''1'', sample_doc ''x''], ch_old = None\<rparr>"

definition wal :: "lsn \<Rightarrow> wal_payload \<Rightarrow> event" where
  "wal l p = EvMessage \<lparr>xl_start = l, xl_payload = p\<rparr>"

lemmas stream_step_simps = loop_step_def turn_changes_def flush_ready_def flush_all_def and_then_def
  next_changes_def decode_def handle_begin_def append_change_def handle_commit_def drain_committed_def
  has_committed_def processed_lsn_def accum_add_def should_filter_change_def default_committed_drain_changes_def
  calm_def calm_tick_def emit_idle_commit_token_def safe_commit_lsn_def min_pending_lsn_def
  pending_low_water_def committed_low_water_def in_flight_tx_lsn_def default_decoder_memory_bytes_def
  sample_stream_config_def new_stream_def new_replicator_def new_accum_def wal_def
  last_truncate_index_def default_committed_drain_bytes_def

lemma drain_take_one: "drain_take sz 1024 b (c # cs) = (if default_committed_drain_bytes \<le> b + sz c then ([c], cs)
      else case drain_take sz 1023 (b + sz c) cs of (a, b) \<Rightarrow> (c # a, b))"
  using drain_take.simps(3) [of sz 1023 b c cs] by simp

lemma sample_flush:
  "case flush_changes (\<lambda>v. 0) (\<lambda>n. False) None (Some sample_cdc_schema) []
       [stamp_change 16 0 sample_row] new_toast_state of
     Inl _ \<Rightarrow> False
   | Inr (trunc, cs, s) \<Rightarrow> \<not> trunc \<and> cs \<noteq> []"
  by code_simp

lemma flush_durable_zero: "flush_changes est fails (Some 0) ts t cs new_toast_state = flush_changes est fails None ts t cs new_toast_state"
  by (simp add: flush_changes_def toast_prune_def new_toast_state_def)

lemma sample_flush_obtain:
  obtains cs s where "cs \<noteq> []"
    "flush_changes (\<lambda>v. 0) (\<lambda>n. False) None (Some sample_cdc_schema) []
       [stamp_change 16 0 sample_row] new_toast_state = Inr (False, cs, s)"
    "flush_changes (\<lambda>v. 0) (\<lambda>n. False) (Some 0) (Some sample_cdc_schema) []
       [stamp_change 16 0 sample_row] new_toast_state = Inr (False, cs, s)"
  using sample_flush by (auto simp: flush_durable_zero split: sum.splits prod.splits)

lemma stamp_op [simp]: "ch_op (stamp_change tx n c) = ch_op c" "ch_op sample_row = INSERT"
  by (simp_all add: stamp_change_def sample_row_def)

lemmas stream_run_simps = stream_step_simps drain_take_one handle_logical_message_def Let_def
  matches_batch_barrier_def matches_stream_heartbeat_def batch_barrier_prefix_def stream_heartbeat_prefix_def
  flush_table_def stream_token_def accum_discard_def windows_def sent_tokens_def map_filter_simps

text \<open>A stream that has received one transaction with one row.\<close>

definition sample_log :: "xlog list" where
  "sample_log = [\<lparr>xl_start = 8, xl_payload = MBegin 16\<rparr>, \<lparr>xl_start = 8, xl_payload = MRow sample_row\<rparr>,
     \<lparr>xl_start = 24, xl_payload = MCommit 16\<rparr>]"

definition sample_stream :: "lsn \<Rightarrow> change list \<Rightarrow> lsn \<Rightarrow> change list \<Rightarrow> stream" where
  "sample_stream tx pend pos acs =
     \<lparr>sm_repl = \<lparr>rp_decoder = \<lparr>dc_tx = tx, dc_pending = pend, dc_committed = None\<rparr>, rp_start = 0, rp_pos = pos,
        rp_barrier_seen = False, rp_barrier_lsn = 0, rp_keyless = False, rp_snapshot_boundary = False\<rparr>,
      sm_accum = \<lparr>ac_changes = acs, ac_min = (case acs of [] \<Rightarrow> None | c # _ \<Rightarrow> Some (ch_lsn c)), ac_bytes = 0,
        ac_toast = new_toast_state\<rparr>,
      sm_idle = 0, sm_pos = 0, sm_sent = [], sm_flushed = []\<rparr>"

lemma sample_turns:
  "loop_step (sample_stream_config st 8) (calm_tick True (wal 8 (MBegin 16))) (sample_stream 0 [] 0 []) =
     (None, sample_stream 16 [] 8 [])"
  "loop_step (sample_stream_config st 8) (calm_tick True (wal 8 (MRow sample_row))) (sample_stream 16 [] 8 []) =
     (None, sample_stream 16 [stamp_change 16 0 sample_row] 8 [])"
  "loop_step (sample_stream_config st 8) (calm_tick True (wal 24 (MCommit 16)))
       (sample_stream 16 [stamp_change 16 0 sample_row] 8 []) =
     (None, sample_stream 16 [] 24 [stamp_change 16 0 sample_row])"
  by (simp_all add: sample_stream_def stream_run_simps)

lemma sample_reach:
  "stream_reach (sample_stream_config st 8) (new_replicator 0 False False)
     (sample_stream 16 [stamp_change 16 0 sample_row] 8 []) (16, True) (take 2 sample_log)"
  "stream_reach (sample_stream_config st 8) (new_replicator 0 False False)
     (sample_stream 16 [] 24 [stamp_change 16 0 sample_row]) (24, False) sample_log"
proof -
  let ?cf = "sample_stream_config st 8" and ?r0 = "new_replicator 0 False False"
  have start: "sample_stream 0 [] 0 [] = new_stream 0 False False"
    by (simp add: sample_stream_def new_stream_def new_replicator_def new_accum_def)
  have step0: "stream_reach ?cf ?r0 (sample_stream 0 [] 0 []) (0, False) []"
    unfolding start by (rule stream_reach.start) simp
  have step1: "stream_reach ?cf ?r0 (sample_stream 16 [] 8 []) (16, True) (take 1 sample_log)"
    by (rule stream_reach.turn [OF step0 _ _ sample_turns(1)])
      (simp_all add: turn_log_def wal_next_def calm_tick_def wal_def has_committed_def sample_stream_def sample_log_def)
  show step2: "stream_reach ?cf ?r0 (sample_stream 16 [stamp_change 16 0 sample_row] 8 []) (16, True) (take 2 sample_log)"
    by (rule stream_reach.turn [OF step1 _ _ sample_turns(2)])
      (simp_all add: turn_log_def wal_next_def calm_tick_def wal_def has_committed_def sample_stream_def sample_log_def)
  show "stream_reach ?cf ?r0 (sample_stream 16 [] 24 [stamp_change 16 0 sample_row]) (24, False) sample_log"
    by (rule stream_reach.turn [OF step2 _ _ sample_turns(3)])
      (simp_all add: turn_log_def wal_next_def calm_tick_def wal_def has_committed_def sample_stream_def sample_log_def)
qed

lemma sample_rows:
  "received_rows (take 2 sample_log) = [stamp_change 16 0 sample_row]"
  "complete_rows sample_log = [stamp_change 16 0 sample_row]"
  by (simp_all add: received_rows_def complete_rows_def wal_state_def sample_log_def wal_apply_def)

subsection \<open>Draining\<close>

lemma calm_tick_fields [simp]:
  "tk_cancelled (calm_tick c ev) = False" "tk_lost (calm_tick c ev) = False" "tk_event (calm_tick c ev) = ev"
  "tk_flush (calm_tick c ev) = calm" "tk_checkpoint_ok (calm_tick c ev)" "tk_token_sent (calm_tick c ev)"
  "tk_faults (calm_tick c ev) = \<lparr>sf_read_ok = True, sf_close_ok = c, sf_decode_ok = True\<rparr>"
  by (simp_all add: calm_tick_def)

definition only_flush_fails :: "stop option \<Rightarrow> bool" where
  "only_flush_fails e \<longleftrightarrow> (case e of None \<Rightarrow> True | Some (FlushFailed x) \<Rightarrow> True | _ \<Rightarrow> False)"

lemma calm_flush_table: "only_flush_fails (fst (flush_table cf False calm s))"
  by (auto simp: flush_table_def calm_def Let_def only_flush_fails_def split: sum.splits)

lemma calm_flush_all: "only_flush_fails (fst (flush_all cf False calm s))"
  using calm_flush_table by (simp add: flush_all_def) (simp add: only_flush_fails_def)

lemma and_then_fails:
  "only_flush_fails (fst p) \<Longrightarrow> (\<And>s. only_flush_fails (fst (f s))) \<Longrightarrow> only_flush_fails (fst (and_then p f))"
  by (cases p; cases "fst p") (auto simp: and_then_def)

lemma calm_idle_fails:
  assumes "cf_streaming cf"
  shows "only_flush_fails (fst (loop_step cf (calm_tick True EvIdle) s))"
proof -
  have emit: "only_flush_fails (fst (emit_idle_commit_token (calm_tick True EvIdle) t))" for t
    by (simp add: emit_idle_commit_token_def only_flush_fails_def Let_def)
  have none: "only_flush_fails (fst (None, t))" for t :: stream by (simp add: only_flush_fails_def)
  have turn: "only_flush_fails (fst (turn_changes cf (calm_tick True EvIdle) cs l act t))" for cs l act t
    unfolding turn_changes_def flush_ready_def using assms emit none calm_flush_table calm_flush_all
    by (intro and_then_fails) (auto intro!: and_then_fails)
  obtain cs e d where "drain_committed (cf_encoded cf) \<lparr>sf_read_ok = True, sf_close_ok = True, sf_decode_ok = True\<rparr>
      (rp_decoder (sm_repl s)) = (cs, e, d)" by (metis prod_cases3)
  moreover from this have "e = None"
    by (cases "dc_committed (rp_decoder (sm_repl s))") (auto simp: drain_committed_def split: if_splits prod.splits)
  ultimately show ?thesis
    using turn by (simp add: loop_step_def next_changes_def)
qed

lemma flush_table_repl: "sm_repl (snd (flush_table cf c fe s)) = sm_repl s"
  by (simp add: flush_table_def Let_def discard_all_def if_distrib [of snd] if_distrib [of sm_repl] if_distribR
      split: sum.split prod.split del: if_split cong: if_cong)

lemma flush_all_repl: "sm_repl (snd (flush_all cf c fe s)) = sm_repl s"
  by (simp add: flush_all_def flush_table_repl)

lemma and_then_repl:
  "sm_repl (snd p) = sm_repl s \<Longrightarrow> (\<And>t. sm_repl (snd (f t)) = sm_repl t) \<Longrightarrow> sm_repl (snd (and_then p f)) = sm_repl s"
  by (cases p; cases "fst p") (auto simp: and_then_def)

lemma emit_idle_repl: "sm_repl (snd (emit_idle_commit_token tk s)) = sm_repl s"
  by (simp add: emit_idle_commit_token_def Let_def)

lemma turn_changes_repl: "sm_repl (snd (turn_changes cf tk cs l act s)) = sm_repl s"
proof -
  have finish: "sm_repl (snd (and_then (flush_all cf False fe t) (\<lambda>s2. (Some Finished, s2)))) = sm_repl t" for fe t
    by (rule and_then_repl) (simp_all add: flush_all_repl)
  have idle: "sm_repl (snd (and_then (flush_all cf False fe t) (\<lambda>s2.
      if cf_streaming cf then emit_idle_commit_token tk s2 else (None, s2)))) = sm_repl t" for fe t
    by (rule and_then_repl) (simp_all add: flush_all_repl emit_idle_repl)
  have ready: "sm_repl (snd (flush_ready cf fe t)) = sm_repl t" for fe t
    unfolding flush_ready_def by (rule and_then_repl) (simp_all add: flush_table_repl flush_all_repl)
  show ?thesis
    unfolding turn_changes_def by (rule and_then_repl) (simp_all add: finish idle ready)
qed

text \<open>An idle turn that goes on drains a chunk, or else leaves nothing to send but a token at the
  position received.\<close>

lemma idle_turn:
  assumes reach: "stream_reach cf r0 s ph h" and streaming: "cf_streaming cf"
    and idle: "dc_pending (rp_decoder (sm_repl s)) = []"
    and run: "loop_step cf (calm_tick True EvIdle) s = (None, s')"
  shows "stream_reach cf r0 s' ph h" "dc_pending (rp_decoder (sm_repl s')) = []" "rp_pos (sm_repl s') = rp_pos (sm_repl s)"
    "has_committed (rp_decoder (sm_repl s)) \<Longrightarrow>
      length (committed_changes (rp_decoder (sm_repl s'))) < length (committed_changes (rp_decoder (sm_repl s)))"
    "\<not> has_committed (rp_decoder (sm_repl s)) \<Longrightarrow> committed_changes (rp_decoder (sm_repl s')) = [] \<and>
      ac_changes (sm_accum s') = [] \<and> rp_pos (sm_repl s') \<le> sm_idle s'"
proof -
  let ?tk = "calm_tick True EvIdle" and ?d = "rp_decoder (sm_repl s)"
  show reach': "stream_reach cf r0 s' ph h"
    by (rule stream_reach.turn [OF reach _ _ run]) (simp_all add: turn_log_def calm_tick_def)
  obtain cs e d where drain: "drain_committed (cf_encoded cf) (tk_faults ?tk) ?d = (cs, e, d)" by (metis prod_cases3)
  have e: "e = None" "dc_pending d = dc_pending ?d" "dc_tx d = dc_tx ?d"
    using drain by (auto simp: drain_committed_def calm_tick_def split: option.splits if_splits prod.splits)
  have drained: "sm_repl s' = (sm_repl s)\<lparr>rp_decoder := d\<rparr>" if "has_committed ?d"
  proof -
    have "turn_changes cf ?tk cs (dc_tx d) True (s\<lparr>sm_repl := (sm_repl s)\<lparr>rp_decoder := d\<rparr>\<rparr>) = (None, s')"
      using run that drain e(1) by (simp add: loop_step_def next_changes_def)
    then show ?thesis
      using turn_changes_repl [of cf ?tk cs "dc_tx d" True "s\<lparr>sm_repl := (sm_repl s)\<lparr>rp_decoder := d\<rparr>\<rparr>"] by simp
  qed
  have turn: "turn_changes cf ?tk [] 0 False s = (None, s')" if "\<not> has_committed ?d"
    using run that by (simp add: loop_step_def next_changes_def)
  have undrained: "sm_repl s' = sm_repl s" if "\<not> has_committed ?d"
    using turn_changes_repl [of cf ?tk "[]" 0 False s] turn [OF that] by simp
  show "dc_pending (rp_decoder (sm_repl s')) = []" "rp_pos (sm_repl s') = rp_pos (sm_repl s)"
    using drained undrained idle e(2) by (cases "has_committed ?d"; simp)+
  show "length (committed_changes (rp_decoder (sm_repl s'))) < length (committed_changes ?d)"
    if hc: "has_committed ?d"
  proof -
    obtain rest where c: "dc_committed ?d = Some rest" "rest \<noteq> []"
      using hc by (auto simp: has_committed_def split: option.splits)
    obtain a b where ab: "drain_take (cf_encoded cf) default_committed_drain_changes 0 rest = (a, b)" by (cases "drain_take (cf_encoded cf) default_committed_drain_changes 0 rest")
    have "a \<noteq> []" "rest = a @ b"
      using drain_take_progress [OF ab] drain_take_append [OF ab] c by (simp_all add: default_committed_drain_changes_def)
    moreover have "committed_changes d = b"
      using drain c ab by (auto simp: drain_committed_def calm_tick_def committed_changes_def split: if_splits)
    ultimately show ?thesis using c drained [OF hc] by (simp add: committed_changes_def)
  qed
  show "committed_changes (rp_decoder (sm_repl s')) = [] \<and> ac_changes (sm_accum s') = [] \<and> rp_pos (sm_repl s') \<le> sm_idle s'"
    if hc: "\<not> has_committed ?d"
  proof -
    have none: "committed_changes (rp_decoder (sm_repl s')) = []" "pending_low_water (sm_repl s') = None"
      using hc idle undrained [OF hc] by (simp_all add: has_committed_iff pending_low_water_def committed_low_water_def in_flight_tx_lsn_def)
    obtain s1 s2 where s2: "flush_all cf False calm s1 = (None, s2)" "emit_idle_commit_token ?tk s2 = (None, s')"
      using turn [OF hc] streaming
      by (auto simp: turn_changes_def and_then_def split: prod.splits option.splits)
    have "ac_changes (sm_accum s2) = []"
      using s2(1) by (auto simp: flush_all_def flush_table_def Let_def accum_discard_def calm_def
          split: if_splits sum.splits prod.splits)
    then have ac: "ac_changes (sm_accum s') = []"
      using s2(2) by (auto simp: emit_idle_commit_token_def Let_def split: if_splits)
    moreover have "accum_ok (sm_accum s')"
      using reach_good [OF reach'] by (simp add: stream_good_def good_parts_def)
    ultimately have "ac_min (sm_accum s') = None" by (simp add: accum_ok_def)
    then have "safe_commit_lsn (sm_repl s') (sm_accum s') = rp_pos (sm_repl s')"
      using none(2) by (simp add: safe_commit_cases)
    moreover have "safe_commit_lsn (sm_repl s') (sm_accum s') \<le> sm_idle s'"
      using s2(2) by (auto simp: emit_idle_commit_token_def Let_def split: if_splits)
    ultimately show ?thesis using none ac by simp
  qed
qed

lemma and_then_Pair: "and_then (e, s) f = (case e of None \<Rightarrow> f s | Some x \<Rightarrow> (Some x, s))"
  by (simp add: and_then_def split: option.splits)

lemma stream_idle_drains:
  assumes "stream_reach cf r0 s ph h" "cf_streaming cf" "dc_pending (rp_decoder (sm_repl s)) = []"
    and "length (committed_changes (rp_decoder (sm_repl s))) < n"
  shows "(\<exists>x s'. stream_loop cf (replicate n (calm_tick True EvIdle)) s = (Some (FlushFailed x), s')) \<or>
    (\<exists>s'. stream_loop cf (replicate n (calm_tick True EvIdle)) s = (None, s') \<and> stream_reach cf r0 s' ph h \<and>
      dc_pending (rp_decoder (sm_repl s')) = [] \<and> committed_changes (rp_decoder (sm_repl s')) = [] \<and>
      ac_changes (sm_accum s') = [] \<and> rp_pos (sm_repl s') = rp_pos (sm_repl s) \<and> rp_pos (sm_repl s) \<le> sm_idle s')"
  using assms
proof (induction n arbitrary: s)
  case (Suc n)
  let ?tk = "calm_tick True EvIdle"
  obtain e s1 where step: "loop_step cf ?tk s = (e, s1)" by (cases "loop_step cf ?tk s")
  show ?case
  proof (cases e)
    case (Some x)
    then obtain y where "x = FlushFailed y"
      using calm_idle_fails [OF Suc.prems(2), of s] by (auto simp: step only_flush_fails_def split: stop.splits)
    then show ?thesis using Some by (simp add: step and_then_Pair)
  next
    case None
    note idle = idle_turn [OF Suc.prems(1-3) step [unfolded None]]
    have run: "stream_loop cf (replicate (Suc n) ?tk) s = stream_loop cf (replicate n ?tk) s1"
      by (simp add: step None and_then_Pair)
    show ?thesis
    proof (cases n)
      case 0
      then have "\<not> has_committed (rp_decoder (sm_repl s))" using Suc.prems(4) by (simp add: has_committed_iff)
      then show ?thesis using idle(1-3,5) 0 by (simp add: step None and_then_Pair)
    next
      case (Suc m)
      have "length (committed_changes (rp_decoder (sm_repl s1))) < n"
        using idle(4,5) Suc.prems(4) Suc by (cases "has_committed (rp_decoder (sm_repl s))") simp_all
      from Suc.IH [OF idle(1) Suc.prems(2) idle(2) this] show ?thesis unfolding run idle(3) .
    qed
  qed
qed simp

subsection \<open>What a stream promises\<close>

text \<open>C5: As long as every spool file that is used up can be closed, no position past unsent data is
  confirmed. After any turn of the loop, be it one that ends the stream with another error, no commit
  token the pipeline was ever handed, and no flush position a standby status update may report, is
  past a row change received and kept that has not been in a flushed window, or past the commit of a
  later transaction; and a stream of a table with a key, started again from such a position, does not
  skip a row that was not flushed. (When a spool file cannot be closed the code drops rows, as
  \<open>close_failure_loses_rows\<close> below shows, and the claim fails.)\<close>

theorem stream_confirms_flushed_only:
  assumes "stream_reach cf r0 s ph h" "turn_log tk (sm_repl s) ph h ph' h'"
    and "sf_close_ok (tk_faults tk)" "loop_step cf tk s = (e, s')" "t \<in> confirmable r0 s'"
  shows "(\<forall>c \<in> set (unflushed r0 s' h'). t \<le> ch_lsn c \<and>
      \<not> should_filter_change (new_replicator t False b) (ch_lsn c)) \<and>
    (\<forall>x ph'' f. wal_next ph' x ph'' \<longrightarrow> xl_payload x = MBegin f \<longrightarrow> rp_start r0 \<le> f \<longrightarrow> t \<le> f)"
  using turn_confirmable [OF assms] wal_next_begin [of ph']
  by (fastforce simp: should_filter_change_def new_replicator_def max_def split: if_splits)

theorem stream_confirms_flushed_only_witness:
  "\<exists>s'. loop_step (sample_stream_config True 8) (calm_tick True EvIdle)
      (sample_stream 16 [stamp_change 16 0 sample_row] 8 []) = (None, s') \<and>
    sm_sent s' = [SentToken 15] \<and> unflushed (new_replicator 0 False False) s' (take 2 sample_log) \<noteq> [] \<and>
    (\<forall>c \<in> set (unflushed (new_replicator 0 False False) s' (take 2 sample_log)). 15 \<le> ch_lsn c)"
proof -
  let ?s = "sample_stream 16 [stamp_change 16 0 sample_row] 8 []"
  define s' where "s' = snd (loop_step (sample_stream_config True 8) (calm_tick True EvIdle) ?s)"
  have run: "loop_step (sample_stream_config True 8) (calm_tick True EvIdle) ?s = (None, s')"
    "sm_sent s' = [SentToken 15]" "windows s' = []"
    by (simp_all add: s'_def sample_stream_def stream_run_simps)
  have "15 \<in> confirmable (new_replicator 0 False False) s'"
    by (simp add: confirmable_def run(2))
  moreover have "turn_log (calm_tick True EvIdle) (sm_repl ?s) (16, True) (take 2 sample_log) (16, True) (take 2 sample_log)"
    by (simp add: turn_log_def calm_tick_def)
  ultimately have "\<forall>c \<in> set (unflushed (new_replicator 0 False False) s' (take 2 sample_log)). 15 \<le> ch_lsn c"
    using stream_confirms_flushed_only [OF sample_reach(1) _ _ run(1)] by (auto simp: calm_tick_def)
  moreover have "unflushed (new_replicator 0 False False) s' (take 2 sample_log) = [stamp_change 16 0 sample_row]"
    by (simp add: unflushed_def run(3) sample_rows kept_def should_filter_change_def new_replicator_def)
  ultimately show ?thesis using run by auto
qed

text \<open>C6: No row of the log is lost, doubled or reordered on its way into a window, as long as spool files
  can be closed. At every turn the
  rows of the table's complete transactions that are not filtered by the start position are, in the
  order of the log, the windows flushed so far, then the accumulator, then what the decoder has yet
  to drain; and windows and accumulator together are in strictly increasing order of position with
  even, non-zero sequence numbers, which is what the expansion of moved rows and the merge rely on.\<close>

theorem stream_conserves_rows:
  assumes "stream_reach cf r0 s ph h"
  shows "filter (kept r0) (complete_rows h) =
      windows s @ ac_changes (sm_accum s) @ filter (kept r0) (committed_changes (rp_decoder (sm_repl s))) \<and>
    window_order (windows s @ ac_changes (sm_accum s))"
  using reach_conserves [OF assms] by simp

theorem stream_conserves_rows_witness:
  "windows (sample_stream 16 [] 24 [stamp_change 16 0 sample_row]) = [] \<and>
   filter (kept (new_replicator 0 False False)) (complete_rows sample_log) = [stamp_change 16 0 sample_row] \<and>
   window_order [stamp_change 16 0 sample_row]"
proof -
  let ?s = "sample_stream 16 [] 24 [stamp_change 16 0 sample_row]"
  have "windows ?s = []" "ac_changes (sm_accum ?s) = [stamp_change 16 0 sample_row]"
    "committed_changes (rp_decoder (sm_repl ?s)) = []"
    by (simp_all add: sample_stream_def windows_def committed_changes_def)
  then show ?thesis using stream_conserves_rows [OF sample_reach(2)] by simp
qed

text \<open>C7: A batch run delivers everything before its barrier, its spool files having been closed without an
  error. When the loop finishes, the windows it
  flushed are exactly the rows received and not filtered, of complete transactions all of them, in
  order: nothing is left in the accumulator or the decoder.\<close>

theorem batch_run_complete:
  assumes "stream_reach cf r0 s ph h" "turn_log tk (sm_repl s) ph h ph' h'"
    and "sf_close_ok (tk_faults tk)" "loop_step cf tk s = (Some Finished, s')"
  shows "windows s' = filter (kept r0) (received_rows h') \<and> window_order (windows s')"
  by (rule batch_complete [OF assms])

definition sample_barrier :: xlog where
  "sample_barrier = \<lparr>xl_start = 32, xl_payload =
     MMessage \<lparr>lm_transactional = False, lm_lsn = 32, lm_prefix = batch_barrier_prefix, lm_content = ''n''\<rparr>\<rparr>"

theorem batch_run_complete_witness:
  "\<exists>s'. loop_step (sample_stream_config False 8) (calm_tick True (EvMessage sample_barrier))
      (sample_stream 16 [] 24 [stamp_change 16 0 sample_row]) = (Some Finished, s') \<and>
    windows s' = [stamp_change 16 0 sample_row]"
proof -
  let ?s = "sample_stream 16 [] 24 [stamp_change 16 0 sample_row]" and ?tk = "calm_tick True (EvMessage sample_barrier)"
  obtain cs t where f: "cs \<noteq> []" "flush_changes (\<lambda>v. 0) (\<lambda>n. False) None (Some sample_cdc_schema) []
       [stamp_change 16 0 sample_row] new_toast_state = Inr (False, cs, t)"
    by (rule sample_flush_obtain)
  define s' where "s' = snd (loop_step (sample_stream_config False 8) ?tk ?s)"
  have run: "loop_step (sample_stream_config False 8) ?tk ?s = (Some Finished, s')"
    using f by (simp add: s'_def sample_barrier_def sample_stream_def stream_run_simps)
  have "turn_log ?tk (sm_repl ?s) (24, False) sample_log (32, False) (sample_log @ [sample_barrier])"
    by (simp add: turn_log_def calm_tick_def has_committed_def sample_stream_def wal_next_def sample_barrier_def
        sample_log_def)
  then have "windows s' = filter (kept (new_replicator 0 False False)) (received_rows (sample_log @ [sample_barrier]))"
    using batch_run_complete [OF sample_reach(2) _ _ run] by (simp add: calm_tick_def)
  also have "\<dots> = [stamp_change 16 0 sample_row]"
    by (simp add: received_rows_def wal_state_def sample_log_def sample_barrier_def wal_apply_def kept_def
        should_filter_change_def new_replicator_def)
  finally show ?thesis using run by blast
qed

text \<open>C4: A stream keeps the target in step with the source table. Whatever the interleaving of
  messages, chunks, idle periods, faults of the scratch database and confirmations (but with every
  spool file closed without an error): after any turn that goes on, what the destination has been sent, applied in order, shows the rows the source
  table had at the end of the last flushed window, for a table with a key whose log is a history of
  that table.\<close>

theorem stream_replicates:
  assumes "stream_reach cf r0 s ph h" "in_step (cf_est cf) (cf_schema cf) [] D new_toast_state T p"
    and "pk_in_source (cf_schema cf)" "distinct (column_names (cf_schema cf))"
    and "map fst es = filter (kept r0) (complete_rows h)" "table_history (cf_schema cf) D es"
    and "\<forall>e \<in> set es. p < change_start (fst e)"
  shows "\<exists>p'. in_step (cf_est cf) (cf_schema cf) [] (source_run (cf_schema cf) (take (length (windows s)) es) D)
    (ac_toast (sm_accum s)) (apply_all (cf_schema cf) (sm_sent s) T) p'"
  by (rule stream_in_step [OF assms])

lemma sample_idle:
  "\<exists>s'. loop_step (sample_stream_config True 8) (calm_tick True EvIdle)
      (sample_stream 16 [] 24 [stamp_change 16 0 sample_row]) = (None, s') \<and>
    windows s' = [stamp_change 16 0 sample_row] \<and> sent_tokens (sm_sent s') = [24, 24]"
proof -
  obtain cs t where f: "cs \<noteq> []" "flush_changes (\<lambda>v. 0) (\<lambda>n. False) (Some 0) (Some sample_cdc_schema) []
       [stamp_change 16 0 sample_row] new_toast_state = Inr (False, cs, t)"
    by (rule sample_flush_obtain)
  then show ?thesis by (simp add: sample_stream_def stream_run_simps)
qed

theorem stream_replicates_witness:
  "\<exists>s p'. windows s = [stamp_change 16 0 sample_row] \<and>
    in_step (\<lambda>v. 0) sample_cdc_schema [] (source_run sample_cdc_schema
        [(stamp_change 16 0 sample_row, [sample_cell ''1'', sample_doc ''x''])] Map.empty)
      (ac_toast (sm_accum s)) (apply_all sample_cdc_schema (sm_sent s) Map.empty) p'"
proof -
  let ?cf = "sample_stream_config True 8" and ?r0 = "new_replicator 0 False False"
  let ?es = "[(stamp_change 16 0 sample_row, [sample_cell ''1'', sample_doc ''x''])]"
  obtain s where run: "loop_step ?cf (calm_tick True EvIdle) (sample_stream 16 [] 24 [stamp_change 16 0 sample_row]) = (None, s)"
    "windows s = [stamp_change 16 0 sample_row]" using sample_idle by blast
  have reach: "stream_reach ?cf ?r0 s (24, False) sample_log"
    by (rule stream_reach.turn [OF sample_reach(2) _ _ run(1)]) (simp_all add: turn_log_def calm_tick_def)
  have cf: "cf_est ?cf = (\<lambda>v. 0)" "cf_schema ?cf = sample_cdc_schema" by (simp_all add: sample_stream_config_def)
  have start: "in_step (\<lambda>v. 0) sample_cdc_schema [] Map.empty new_toast_state Map.empty []"
    using new_toast_rel known_sound_empty
    by (auto simp: in_step_def toast_known_def target_fits_def intro!: exI [of _ Map.empty] simp: fun_eq_iff)
  have "table_history sample_cdc_schema Map.empty ?es"
    by (simp add: event_fits_def has_keys_def complete_row_def all_less_2 stamp_change_def sample_row_def
        column_value_at_def key_part_def old_values_def sample_cell_def sample_doc_def pk_value_changed_def)
  moreover have "map fst ?es = filter (kept ?r0) (complete_rows sample_log)"
    by (simp add: sample_rows kept_def should_filter_change_def new_replicator_def)
  moreover have "pk_in_source sample_cdc_schema" by (simp add: pk_in_source_def)
  moreover have "\<forall>e \<in> set ?es. [] < change_start (fst e)"
    by (simp add: change_start_def nil_less_format)
  ultimately obtain p' where "in_step (\<lambda>v. 0) sample_cdc_schema []
      (source_run sample_cdc_schema (take (length (windows s)) ?es) Map.empty)
      (ac_toast (sm_accum s)) (apply_all sample_cdc_schema (sm_sent s) Map.empty) p'"
    using stream_replicates [OF reach, unfolded cf, OF start _ sample_pk(4)] by blast
  then show ?thesis using run(2) by (intro exI [of _ s] exI [of _ p']) simp
qed

text \<open>C8: An idle stream catches up. Once the server has nothing more to send and no transaction is
  open, one more turn than there are rows left to drain either ends in a flush that fails, or leaves
  decoder and accumulator empty, with every row received in a window and a commit token sent that
  is not before the position received.\<close>

theorem stream_catches_up:
  assumes "stream_reach cf r0 s ph h" "cf_streaming cf" "dc_pending (rp_decoder (sm_repl s)) = []"
    and "length (committed_changes (rp_decoder (sm_repl s))) < n"
  shows "(\<exists>x s'. stream_loop cf (replicate n (calm_tick True EvIdle)) s = (Some (FlushFailed x), s')) \<or>
    (\<exists>s'. stream_loop cf (replicate n (calm_tick True EvIdle)) s = (None, s') \<and>
      windows s' = filter (kept r0) (received_rows h) \<and> rp_pos (sm_repl s) \<le> sm_idle s')"
proof -
  have rows: "windows s' = filter (kept r0) (received_rows h)"
    if s': "stream_reach cf r0 s' ph h" "dc_pending (rp_decoder (sm_repl s')) = []"
      "committed_changes (rp_decoder (sm_repl s')) = []" "ac_changes (sm_accum s') = []" for s'
  proof -
    obtain tx pend rows where v: "wal_state h = (tx, pend, rows)" by (cases "wal_state h") auto
    have "good_parts r0 ph (tx, pend, rows) (windows s') (set (sent_tokens (sm_sent s'))) (sm_repl s') (sm_accum s')"
      using reach_good [OF s'(1)] by (simp add: stream_good_def v)
    then show ?thesis using s'(2-4) by (simp add: good_parts_def repl_ok_def received_rows_def v)
  qed
  show ?thesis using stream_idle_drains [OF assms] rows by metis
qed

theorem stream_catches_up_witness:
  "\<exists>s'. stream_loop (sample_stream_config True 8) [calm_tick True EvIdle]
      (sample_stream 16 [] 24 [stamp_change 16 0 sample_row]) = (None, s') \<and>
    windows s' = [stamp_change 16 0 sample_row] \<and> 24 \<le> sm_idle s'"
proof -
  let ?s = "sample_stream 16 [] 24 [stamp_change 16 0 sample_row]" and ?r0 = "new_replicator 0 False False"
  obtain s1 where s1: "loop_step (sample_stream_config True 8) (calm_tick True EvIdle) ?s = (None, s1)"
    using sample_idle by blast
  have fields: "cf_streaming (sample_stream_config True 8)" "dc_pending (rp_decoder (sm_repl ?s)) = []"
    "committed_changes (rp_decoder (sm_repl ?s)) = []" "rp_pos (sm_repl ?s) = 24"
    by (simp_all add: sample_stream_config_def sample_stream_def committed_changes_def)
  have "filter (kept ?r0) (received_rows sample_log) = [stamp_change 16 0 sample_row]"
    by (simp add: received_rows_def wal_state_def sample_log_def wal_apply_def kept_def should_filter_change_def
        new_replicator_def)
  then show ?thesis
    using stream_catches_up [OF sample_reach(2) fields(1,2), of 1] s1 fields(3,4)
    by (auto simp: and_then_Pair)
qed

subsection \<open>Two ways to lose rows\<close>

text \<open>A spool that cannot be closed: the chunk just read is dropped with the error, and the flush on
  the way out confirms a position past it.\<close>

definition close_failure_turns :: "tick list" where
  "close_failure_turns =
     [calm_tick True (wal 8 (MBegin 16)), calm_tick True (wal 8 (MRow sample_row)),
      calm_tick True (wal 10 (MRow sample_row)), calm_tick True (wal 24 (MCommit 16)), calm_tick False EvIdle]"

lemma close_failure_loses_rows:
  defines "s \<equiv> snd (stream_loop (sample_stream_config True 8388608) close_failure_turns (new_stream 0 False False))"
  shows "windows s = [stamp_change 16 0 sample_row]" "sent_tokens (sm_sent s) = [24]"
proof -
  obtain cs t where f: "cs \<noteq> []" "flush_changes (\<lambda>v. 0) (\<lambda>n. False) (Some 0) (Some sample_cdc_schema) []
       [stamp_change 16 0 sample_row] new_toast_state = Inr (False, cs, t)"
    by (rule sample_flush_obtain)
  then show "windows s = [stamp_change 16 0 sample_row]" "sent_tokens (sm_sent s) = [24]"
    by (simp_all add: s_def close_failure_turns_def stream_run_simps)
qed

text \<open>A table without a key, started again at the position its idle stream confirmed, the end of a
  COMMIT, at which the next transaction commits: the transaction is taken for one already merged.\<close>

lemma keyless_restart_loses_rows:
  "sm_sent (snd (stream_loop (sample_stream_config True 8)
      [calm_tick True (wal 8 (MBegin 16)), calm_tick True (wal 24 (MCommit 16)), calm_tick True EvIdle]
      (new_stream 0 True False))) = [SentToken 24]"
  "wal_next (24, False) \<lparr>xl_start = 20, xl_payload = MBegin 24\<rparr> (24, True)"
  "sm_sent (snd (stream_loop (sample_stream_config True 8)
      [calm_tick True (wal 20 (MBegin 24)), calm_tick True (wal 20 (MRow sample_row)),
       calm_tick True (wal 32 (MCommit 24)), calm_tick True EvIdle] (new_stream 24 True False))) = [SentToken 32]"
  by (simp_all add: stream_run_simps wal_next_def)

end
