(* ===== verification/Extract_Partition.thy ===== *)
theory Extract_Partition
  imports Schema Go_Time Complex_Main
begin

text \<open>
  \<^verbatim>\<open>pkg/source/extract_partition.go\<close>: a read split into windows over a partition column. Modelled
  are the plan (validation, discovered bounds, automatic interval, windows, jobs), the options
  each job reads with, its SQL conditions, and the values that bounds are discovered from. The
  pool of workers that runs the jobs is not modelled.
\<close>

subsection \<open>Options, windows and jobs\<close>

datatype partition_kind = KindUnknown | KindTime | KindNumeric

record options =
  op_incremental_key :: string
  op_incremental_key_type :: data_type
  op_interval_start :: "gotime option"
  op_interval_end :: "gotime option"
  op_partition_by :: string
  op_partition_interval :: duration
  op_partition_numeric_interval :: int
  op_partition_auto :: bool
  op_partition_start :: "gotime option"
  op_partition_end :: "gotime option"
  op_partition_numeric_start :: "int option"
  op_partition_numeric_end :: "int option"
  op_partition_end_inclusive :: bool
  op_partition_is_null :: bool
  op_partition_kind :: partition_kind
  op_partition_data_type :: data_type
  op_buffer_size :: int
  op_parallelism :: int

record partition_job =
  pj_window :: "gotime \<times> gotime"
  pj_numeric_window :: "int \<times> int"
  pj_end_inclusive :: bool
  pj_is_null :: bool
  pj_kind :: partition_kind

record partition_bounds =
  pb_start :: gotime
  pb_end :: gotime
  pb_numeric_start :: int
  pb_numeric_end :: int
  pb_kind :: partition_kind
  pb_has_range :: bool
  pb_has_nulls :: bool

definition no_bounds :: partition_bounds where
  "no_bounds = \<lparr>pb_start = zero_time, pb_end = zero_time, pb_numeric_start = 0, pb_numeric_end = 0,
     pb_kind = KindUnknown, pb_has_range = False, pb_has_nulls = False\<rparr>"

definition zero_job :: partition_job where
  "zero_job = \<lparr>pj_window = (zero_time, zero_time), pj_numeric_window = (0, 0), pj_end_inclusive = False,
     pj_is_null = False, pj_kind = KindUnknown\<rparr>"

datatype partition_error =
  SchemaRequired | ColumnTypeNotSupported string data_type | ColumnNotFound string
  | IntervalNotPositive | StartNotBeforeEnd | TooManyWindows | NumericStartAfterEnd
  | IntervalBoundsRequired | IntervalConflict | DurationRequired string | DateIntervalTooShort string
  | NumericIntervalRequired string | DiscoveryRequired | DiscoveryFailed | BoundsReversed | RangeTooLarge
  | NullValue | NotFinite | NotAnInteger | Overflow | NotANumber | UnsupportedValue | NotATime

definition max_windows :: nat where "max_windows = 100000"
definition partitions_per_worker :: int where "partitions_per_worker = 4"

definition partitioning_enabled :: "options \<Rightarrow> bool" where
  "partitioning_enabled o' \<longleftrightarrow> op_partition_by o' \<noteq> [] \<or> op_partition_interval o' \<noteq> 0 \<or>
     op_partition_numeric_interval o' \<noteq> 0 \<or> op_partition_auto o'"

definition bounds_discovery_enabled :: "options \<Rightarrow> bool" where
  "bounds_discovery_enabled o' \<longleftrightarrow>
     (if op_partition_kind o' = KindNumeric then True
      else op_incremental_key o' \<noteq> [] \<and> op_partition_by o' \<noteq> [] \<and>
           \<not> equal_fold (op_incremental_key o') (op_partition_by o'))"

definition end_operator :: "options \<Rightarrow> string" where
  "end_operator o' = (if op_partition_end_inclusive o' then ''<='' else ''<'')"

definition table_column_data_type :: "table_schema option \<Rightarrow> string \<Rightarrow> data_type" where
  "table_column_data_type ts name =
     (case ts of
        None \<Rightarrow> TypeUnknown
      | Some t \<Rightarrow>
          (if name = [] then TypeUnknown
           else (case find (\<lambda>c. equal_fold (c_name c) name) (ts_columns t) of
                   None \<Rightarrow> TypeUnknown | Some c \<Rightarrow> c_type c)))"

definition extract_partition_column ::
  "table_schema option \<Rightarrow> string \<Rightarrow> (partition_error, column \<times> partition_kind) sum" where
  "extract_partition_column ts name =
     (case ts of
        None \<Rightarrow> Inl SchemaRequired
      | Some t \<Rightarrow>
          (case find (\<lambda>c. equal_fold (c_name c) name) (ts_columns t) of
             None \<Rightarrow> Inl (ColumnNotFound name)
           | Some c \<Rightarrow>
               (if c_type c \<in> {TypeDate, TypeTimestamp, TypeTimestampTZ} then Inr (c, KindTime)
                else if c_type c \<in> {TypeInt8, TypeInt16, TypeInt32, TypeInt64} then Inr (c, KindNumeric)
                else Inl (ColumnTypeNotSupported name (c_type c)))))"

subsection \<open>Windows\<close>

text \<open>The loop of \<open>ExtractPartitionWindows\<close>; \<open>n\<close> counts the windows made so far.\<close>

function time_windows_loop ::
  "gotime \<Rightarrow> gotime \<Rightarrow> duration \<Rightarrow> nat \<Rightarrow> (partition_error, (gotime \<times> gotime) list) sum" where
  "time_windows_loop cur end_at interval n =
     (if \<not> cur < end_at then Inr []
      else
        (let next = (if end_at < cur + interval then end_at else cur + interval)
         in if max_windows \<le> n then Inl TooManyWindows
            else (case time_windows_loop next end_at interval (Suc n) of
                    Inl e \<Rightarrow> Inl e | Inr ws \<Rightarrow> Inr ((cur, next) # ws))))"
  by pat_completeness auto
termination by (relation "measure (\<lambda>(cur, end_at, interval, n). max_windows - n)") auto

definition extract_partition_windows ::
  "gotime \<Rightarrow> gotime \<Rightarrow> duration \<Rightarrow> (partition_error, (gotime \<times> gotime) list) sum" where
  "extract_partition_windows start end_at interval =
     (if interval \<le> 0 then Inl IntervalNotPositive
      else if \<not> start < end_at then Inl StartNotBeforeEnd
      else time_windows_loop start end_at interval 0)"

text \<open>The loop of \<open>ExtractNumericPartitionWindows\<close>, with the sum of two \<open>int64\<close> values guarded
  as in the code and wrapping otherwise.\<close>

function numeric_windows_loop ::
  "int \<Rightarrow> int \<Rightarrow> int \<Rightarrow> nat \<Rightarrow> (partition_error, (int \<times> int) list) sum" where
  "numeric_windows_loop cur end_at interval n =
     (if \<not> cur \<le> end_at then Inr []
      else
        (let next = (if cur \<le> max_int64 - interval then wrap64 (cur + interval) else end_at)
         in if end_at \<le> next
            then (if max_windows \<le> n then Inl TooManyWindows else Inr [(cur, end_at)])
            else if max_windows \<le> n then Inl TooManyWindows
            else (case numeric_windows_loop next end_at interval (Suc n) of
                    Inl e \<Rightarrow> Inl e | Inr ws \<Rightarrow> Inr ((cur, next) # ws))))"
  by pat_completeness auto
termination by (relation "measure (\<lambda>(cur, end_at, interval, n). max_windows - n)") auto

definition extract_numeric_partition_windows ::
  "int \<Rightarrow> int \<Rightarrow> int \<Rightarrow> (partition_error, (int \<times> int) list) sum" where
  "extract_numeric_partition_windows start end_at interval =
     (if interval \<le> 0 then Inl IntervalNotPositive
      else if end_at < start then Inl NumericStartAfterEnd
      else if start = end_at then Inr [(start, end_at)]
      else numeric_windows_loop start end_at interval 0)"

declare time_windows_loop.simps [simp del] numeric_windows_loop.simps [simp del]

subsection \<open>The automatic interval\<close>

definition ceil_div_int64 :: "int \<Rightarrow> int \<Rightarrow> int" where
  "ceil_div_int64 value divisor =
     (if divisor = 0 then value
      else (let r = go_mod value divisor; q = go_div value divisor
            in if r \<noteq> 0 \<and> (0 < r) = (0 < divisor) then q + 1 else q))"

definition auto_partition_target :: "int \<Rightarrow> int" where
  "auto_partition_target parallelism =
     (let p = (if parallelism \<le> 0 then 4 else parallelism)
      in if go_div max_int64 partitions_per_worker < p then max_int64 else p * partitions_per_worker)"

definition auto_partition_interval :: "gotime \<Rightarrow> gotime \<Rightarrow> int \<Rightarrow> (partition_error, duration) sum" where
  "auto_partition_interval start end_at parallelism =
     (if \<not> start < end_at then Inl StartNotBeforeEnd
      else
        (let span = time_sub end_at start
         in if span \<le> 0 then Inl RangeTooLarge
            else (let interval = ceil_div_int64 span (auto_partition_target parallelism)
                  in Inr (if interval < second then second else interval))))"

definition auto_numeric_interval :: "int \<Rightarrow> int \<Rightarrow> int \<Rightarrow> (partition_error, int) sum" where
  "auto_numeric_interval start end_at parallelism =
     (if end_at < start then Inl NumericStartAfterEnd
      else
        (let width = end_at - start + 1; target = auto_partition_target parallelism;
             step = (target - 1 + width) div target
         in if \<not> is_int64 step then Inr max_int64 else if step \<le> 0 then Inr 1 else Inr step))"

subsection \<open>Jobs\<close>

definition numeric_jobs :: "int \<Rightarrow> (int \<times> int) list \<Rightarrow> partition_job list" where
  "numeric_jobs end_at windows =
     map (\<lambda>w. zero_job\<lparr>pj_numeric_window := w, pj_end_inclusive := (snd w = end_at), pj_kind := KindNumeric\<rparr>) windows"

definition time_jobs :: "gotime \<Rightarrow> (gotime \<times> gotime) list \<Rightarrow> partition_job list" where
  "time_jobs end_at windows =
     map (\<lambda>w. zero_job\<lparr>pj_window := w, pj_end_inclusive := (snd w = end_at), pj_kind := KindTime\<rparr>) windows"

definition range_jobs :: "options \<Rightarrow> partition_bounds \<Rightarrow> (partition_error, partition_job list) sum" where
  "range_jobs o' b =
     (if pb_kind b = KindNumeric then
        (if pb_numeric_end b < pb_numeric_start b then Inl BoundsReversed
         else bind_result
                (if op_partition_auto o'
                 then auto_numeric_interval (pb_numeric_start b) (pb_numeric_end b) (op_parallelism o')
                 else Inr (op_partition_numeric_interval o'))
                (\<lambda>interval. bind_result
                   (extract_numeric_partition_windows (pb_numeric_start b) (pb_numeric_end b) interval)
                   (\<lambda>ws. Inr (numeric_jobs (pb_numeric_end b) ws))))
      else
        (if pb_end b < pb_start b then Inl BoundsReversed
         else if pb_start b = pb_end b
         then Inr [zero_job\<lparr>pj_window := (pb_start b, pb_end b), pj_end_inclusive := True, pj_kind := KindTime\<rparr>]
         else bind_result
                (if op_partition_auto o'
                 then bind_result (auto_partition_interval (pb_start b) (pb_end b) (op_parallelism o'))
                        (\<lambda>i. Inr (if op_partition_data_type o' = TypeDate \<and> i < 24 * hour then 24 * hour else i))
                 else Inr (op_partition_interval o'))
                (\<lambda>interval. bind_result (extract_partition_windows (pb_start b) (pb_end b) interval)
                   (\<lambda>ws. Inr (time_jobs (pb_end b) ws)))))"

text \<open>\<open>discover\<close> queries the source for the bounds; it may be absent, and it may fail.\<close>

definition extract_partition_jobs ::
  "options \<Rightarrow> (options \<Rightarrow> partition_bounds option) option \<Rightarrow> (partition_error, partition_job list) sum" where
  "extract_partition_jobs o' discover =
     (let initial = (case (op_interval_start o', op_interval_end o') of
            (Some s, Some e) \<Rightarrow> no_bounds\<lparr>pb_kind := op_partition_kind o', pb_start := s, pb_end := e, pb_has_range := True\<rparr>
          | _ \<Rightarrow> no_bounds\<lparr>pb_kind := op_partition_kind o'\<rparr>)
      in bind_result
           (if bounds_discovery_enabled o' then
              (case discover of
                 None \<Rightarrow> Inl DiscoveryRequired
               | Some d \<Rightarrow>
                   (case d o' of
                      None \<Rightarrow> Inl DiscoveryFailed
                    | Some b \<Rightarrow> Inr (if pb_kind b = KindUnknown then b\<lparr>pb_kind := op_partition_kind o'\<rparr> else b)))
            else Inr initial)
           (\<lambda>b. bind_result (if pb_has_range b then range_jobs o' b else Inr [])
              (\<lambda>jobs. Inr (jobs @ (if pb_has_nulls b
                 then [zero_job\<lparr>pj_is_null := True, pj_kind := pb_kind b\<rparr>] else [])))))"

text \<open>The checks of \<open>ReadExtractPartitions\<close> before it plans; \<open>None\<close> for a read that is not
  partitioned.\<close>

definition plan_extract ::
  "options \<Rightarrow> table_schema option \<Rightarrow> (options \<Rightarrow> partition_bounds option) option
     \<Rightarrow> (partition_error, (options \<times> partition_job list) option) sum" where
  "plan_extract o0 ts discover =
     (let o1 = (if op_incremental_key_type o0 = TypeUnknown
                then o0\<lparr>op_incremental_key_type := table_column_data_type ts (op_incremental_key o0)\<rparr> else o0)
      in if \<not> partitioning_enabled o1 then Inr None
         else bind_result (extract_partition_column ts (op_partition_by o1))
           (\<lambda>(col, kind).
             (let o2 = o1\<lparr>op_partition_by := c_name col, op_partition_kind := kind, op_partition_data_type := c_type col\<rparr>;
                  full_numeric = (kind = KindNumeric \<and> trim_space (op_incremental_key o2) = [])
              in if \<not> full_numeric \<and> (op_interval_start o2 = None \<or> op_interval_end o2 = None)
                 then Inl IntervalBoundsRequired
                 else if op_partition_auto o2 \<and> (op_partition_interval o2 \<noteq> 0 \<or> op_partition_numeric_interval o2 \<noteq> 0)
                 then Inl IntervalConflict
                 else if \<not> op_partition_auto o2 \<and> kind = KindTime \<and> op_partition_interval o2 \<le> 0
                 then Inl (DurationRequired (op_partition_by o2))
                 else if \<not> op_partition_auto o2 \<and> kind = KindTime \<and> c_type col = TypeDate \<and> op_partition_interval o2 < 24 * hour
                 then Inl (DateIntervalTooShort (op_partition_by o2))
                 else if \<not> op_partition_auto o2 \<and> kind = KindNumeric \<and> op_partition_numeric_interval o2 \<le> 0
                 then Inl (NumericIntervalRequired (op_partition_by o2))
                 else bind_result (extract_partition_jobs o2 discover) (\<lambda>jobs. Inr (Some (o2, jobs))))))"

text \<open>The options a worker reads one job with.\<close>

definition window_options :: "options \<Rightarrow> partition_job \<Rightarrow> options" where
  "window_options o' job =
     (let o1 =
        (if pj_is_null job
         then o'\<lparr>op_partition_start := None, op_partition_end := None, op_partition_numeric_start := None,
                 op_partition_numeric_end := None, op_partition_end_inclusive := False, op_partition_is_null := True\<rparr>
         else
           (if pj_kind job = KindNumeric
            then o'\<lparr>op_partition_start := None, op_partition_end := None,
                    op_partition_numeric_start := Some (fst (pj_numeric_window job)),
                    op_partition_numeric_end := Some (snd (pj_numeric_window job))\<rparr>
            else o'\<lparr>op_partition_start := Some (fst (pj_window job)), op_partition_end := Some (snd (pj_window job)),
                    op_partition_numeric_start := None, op_partition_numeric_end := None\<rparr>)
           \<lparr>op_partition_end_inclusive := pj_end_inclusive job, op_partition_is_null := False\<rparr>)
      in o1\<lparr>op_buffer_size := 1, op_parallelism := 1\<rparr>)"

subsection \<open>SQL conditions\<close>

definition sql_time_range_conditions ::
  "string \<Rightarrow> gotime option \<Rightarrow> gotime option \<Rightarrow> string \<Rightarrow> (string \<Rightarrow> string) \<Rightarrow> (gotime \<Rightarrow> string) \<Rightarrow> string list" where
  "sql_time_range_conditions col start end_at end_op quote format =
     (if col = [] then []
      else (case start of None \<Rightarrow> [] | Some t \<Rightarrow> [quote col @ '' >= '' @ [CHR 0x27] @ format t @ [CHR 0x27]]) @
           (case end_at of None \<Rightarrow> []
            | Some t \<Rightarrow> [quote col @ '' '' @ end_op @ '' '' @ [CHR 0x27] @ format t @ [CHR 0x27]]))"

definition sql_numeric_range_conditions ::
  "string \<Rightarrow> int option \<Rightarrow> int option \<Rightarrow> string \<Rightarrow> (string \<Rightarrow> string) \<Rightarrow> string list" where
  "sql_numeric_range_conditions col start end_at end_op quote =
     (if col = [] then []
      else (case start of None \<Rightarrow> [] | Some n \<Rightarrow> [quote col @ '' >= '' @ itoa n]) @
           (case end_at of None \<Rightarrow> [] | Some n \<Rightarrow> [quote col @ '' '' @ end_op @ '' '' @ itoa n]))"

definition sql_temporal_range_conditions ::
  "string \<Rightarrow> data_type \<Rightarrow> gotime option \<Rightarrow> gotime option \<Rightarrow> string \<Rightarrow> (string \<Rightarrow> string)
     \<Rightarrow> (gotime \<Rightarrow> string) \<Rightarrow> (gotime \<Rightarrow> string) \<Rightarrow> string list" where
  "sql_temporal_range_conditions col t start end_at end_op quote native format =
     (if t = TypeDate then sql_time_range_conditions col start end_at end_op quote format_date
      else if t = TypeTimestamp then sql_time_range_conditions col start end_at end_op quote native
      else sql_time_range_conditions col start end_at end_op quote format)"

definition sql_extract_partition_conditions ::
  "options \<Rightarrow> (string \<Rightarrow> string) \<Rightarrow> (gotime \<Rightarrow> string) \<Rightarrow> (gotime \<Rightarrow> string) \<Rightarrow> string list" where
  "sql_extract_partition_conditions o' quote native format =
     (if op_partition_by o' = [] then []
      else if op_partition_is_null o' then [quote (op_partition_by o') @ '' IS NULL'']
      else if op_partition_kind o' = KindNumeric
      then sql_numeric_range_conditions (op_partition_by o') (op_partition_numeric_start o')
             (op_partition_numeric_end o') (end_operator o') quote
      else sql_temporal_range_conditions (op_partition_by o') (op_partition_data_type o') (op_partition_start o')
             (op_partition_end o') (end_operator o') quote native format)"

text \<open>Trailing semicolons and white space come off a custom query.\<close>

function strip_semicolons :: "string \<Rightarrow> string" where
  "strip_semicolons q = (if has_suffix q '';'' \<and> q \<noteq> [] then strip_semicolons (trim_space (butlast q)) else q)"
  by pat_completeness auto
termination
proof (relation "measure length")
  fix q :: string
  assume "has_suffix q '';'' \<and> q \<noteq> []"
  moreover have "length (trim_space s) \<le> length s" for s
  proof -
    have "length (trim_left_by is_space s) \<le> length s" by (simp add: trim_left_by_def length_dropWhile_le)
    then show ?thesis using trim_right_by_length [of is_space "trim_left_by is_space s"] by (simp add: trim_space_def)
  qed
  ultimately show "(trim_space (butlast q), q) \<in> measure length"
    by (metis (no_types, lifting) One_nat_def Suc_diff_1 in_measure length_butlast length_greater_0_conv lessI order_le_less_trans)
qed simp

declare strip_semicolons.simps [simp del]

definition normalize_custom_query :: "string \<Rightarrow> string" where
  "normalize_custom_query query = strip_semicolons (trim_space query)"

definition sql_custom_query_select ::
  "string \<Rightarrow> options \<Rightarrow> (string \<Rightarrow> string) \<Rightarrow> (gotime \<Rightarrow> string) \<Rightarrow> (gotime \<Rightarrow> string) \<Rightarrow> string" where
  "sql_custom_query_select query o' quote native format =
     (let alias = quote ''__ingestr_query'';
          conditions = sql_extract_partition_conditions o' (\<lambda>c. alias @ ''.'' @ quote c) native format
      in ''SELECT * FROM ('' @ normalize_custom_query query @ '') AS '' @ alias @
         (if conditions \<noteq> [] then '' WHERE '' @ join '' AND '' conditions else []))"

subsection \<open>Discovered values\<close>

datatype go_float = Finite rat | NonFinite

datatype sql_value =
  SqlNull | SqlInt int | SqlUint int | SqlFloat go_float | SqlBig int | SqlText string | SqlTime gotime | SqlOther

definition float_to_int64 :: "go_float \<Rightarrow> (partition_error, int) sum" where
  "float_to_int64 v =
     (case v of
        NonFinite \<Rightarrow> Inl NotFinite
      | Finite x \<Rightarrow>
          (if x \<noteq> of_int \<lfloor>x\<rfloor> then Inl NotAnInteger
           else if x < of_int min_int64 \<or> 9223372036854775808 \<le> x then Inl Overflow
           else Inr \<lfloor>x\<rfloor>))"

definition uint_to_int64 :: "int \<Rightarrow> (partition_error, int) sum" where
  "uint_to_int64 v = (if max_int64 < v then Inl Overflow else Inr v)"

definition sql_int_value :: "sql_value \<Rightarrow> (partition_error, int) sum" where
  "sql_int_value value =
     (case value of
        SqlNull \<Rightarrow> Inl NullValue
      | SqlInt n \<Rightarrow> Inr n
      | SqlUint n \<Rightarrow> uint_to_int64 n
      | SqlFloat x \<Rightarrow> float_to_int64 x
      | SqlBig n \<Rightarrow> (if is_int64 n then Inr n else Inl Overflow)
      | SqlText s \<Rightarrow> (case atoi (trim_space s) of None \<Rightarrow> Inl NotANumber | Some n \<Rightarrow> Inr n)
      | _ \<Rightarrow> Inl UnsupportedValue)"

text \<open>\<open>parse_time\<close> is \<open>parseSQLTimeString\<close>, which tries nine layouts of the time library.\<close>

definition sql_time_value :: "(string \<Rightarrow> gotime option) \<Rightarrow> sql_value \<Rightarrow> (partition_error, gotime) sum" where
  "sql_time_value parse_time value =
     (case value of
        SqlNull \<Rightarrow> Inl NullValue
      | SqlTime t \<Rightarrow> Inr t
      | SqlText s \<Rightarrow> (case parse_time (trim_space s) of None \<Rightarrow> Inl NotATime | Some t \<Rightarrow> Inr t)
      | _ \<Rightarrow> Inl UnsupportedValue)"

text \<open>\<open>Truncate\<close> rounds down to a multiple of the duration since the zero time, which is a whole
  number of microseconds before the epoch.\<close>

definition ceil_time_to_sql_granularity :: "gotime \<Rightarrow> gotime" where
  "ceil_time_to_sql_granularity t =
     (let truncated = t - t mod microsecond in if truncated = t then t else truncated + microsecond)"

definition bounds_from_values ::
  "(string \<Rightarrow> gotime option) \<Rightarrow> partition_kind \<Rightarrow> sql_value \<Rightarrow> sql_value \<Rightarrow> int \<Rightarrow> int
     \<Rightarrow> (partition_error, partition_bounds) sum" where
  "bounds_from_values parse_time kind min_value max_value total_count non_null_count =
     (if total_count = 0 then Inr no_bounds
      else
        (let b = no_bounds\<lparr>pb_kind := kind, pb_has_nulls := (non_null_count < total_count)\<rparr>
         in if non_null_count = 0 then Inr b
            else if kind = KindNumeric
            then bind_result (sql_int_value min_value) (\<lambda>s. bind_result (sql_int_value max_value)
                   (\<lambda>e. Inr (b\<lparr>pb_numeric_start := s, pb_numeric_end := e, pb_has_range := True\<rparr>)))
            else bind_result (sql_time_value parse_time min_value) (\<lambda>s. bind_result (sql_time_value parse_time max_value)
                   (\<lambda>e. Inr (b\<lparr>pb_start := s, pb_end := ceil_time_to_sql_granularity e, pb_has_range := True\<rparr>)))))"

subsection \<open>The windows cover the range, each value once\<close>

fun covers :: "int \<Rightarrow> (int \<times> int) list \<Rightarrow> int \<Rightarrow> bool" where
  "covers c [] e \<longleftrightarrow> False"
| "covers c [w] e \<longleftrightarrow> w = (c, e) \<and> c \<le> e"
| "covers c (w # w' # ws) e \<longleftrightarrow> fst w = c \<and> c < snd w \<and> snd w < e \<and> covers (snd w) (w' # ws) e"

lemma covers_Cons: "covers n ws e \<Longrightarrow> c < n \<Longrightarrow> n < e \<Longrightarrow> covers c ((c, n) # ws) e"
  by (cases ws) simp_all

text \<open>What a window selects: its start and what lies before its end, the last one also its end.\<close>

definition window_selects :: "int \<Rightarrow> int \<times> int \<Rightarrow> int \<Rightarrow> bool" where
  "window_selects e w v \<longleftrightarrow> fst w \<le> v \<and> (if snd w = e then v \<le> snd w else v < snd w)"

lemma covers_count:
  "covers c ws e \<Longrightarrow> length (filter (\<lambda>w. window_selects e w v) ws) = (if c \<le> v \<and> v \<le> e then 1 else 0)"
proof (induction c ws e rule: covers.induct)
  case (3 c w w' ws e)
  then have tail: "length (filter (\<lambda>w. window_selects e w v) (w' # ws)) = (if snd w \<le> v \<and> v \<le> e then 1 else 0)"
    by simp
  have "window_selects e w v \<longleftrightarrow> c \<le> v \<and> v < snd w" using 3(2) by (auto simp: window_selects_def)
  moreover have "length (filter (\<lambda>w. window_selects e w v) (w # w' # ws)) =
      (if window_selects e w v then 1 else 0) + length (filter (\<lambda>w. window_selects e w v) (w' # ws))" by simp
  ultimately show ?case using tail 3(2) by (auto simp del: filter.simps)
qed (auto simp: window_selects_def)

lemma time_windows_cover:
  assumes "time_windows_loop cur e interval n = Inr ws" "cur < e" "0 < interval"
  shows "covers cur ws e"
  using assms
proof (induction cur e interval n arbitrary: ws rule: time_windows_loop.induct)
  case (1 cur e interval n)
  define nxt where "nxt = (if e < cur + interval then e else cur + interval)"
  have nx: "cur < nxt" "nxt \<le> e" using 1(3,4) by (auto simp: nxt_def)
  have nm: "\<not> max_windows \<le> n" using 1(2,3) by (subst (asm) time_windows_loop.simps) (auto split: if_splits)
  obtain ws1 where w: "time_windows_loop nxt e interval (Suc n) = Inr ws1" "ws = (cur, nxt) # ws1"
    using 1(2,3) nm by (subst (asm) time_windows_loop.simps) (auto simp: nxt_def [symmetric] Let_def split: sum.splits)
  show ?case
  proof (cases "nxt < e")
    case True
    then have "covers nxt ws1 e" using 1(1) [OF _ nxt_def nm w(1)] 1(3,4) by simp
    then show ?thesis using w(2) nx True covers_Cons by simp
  next
    case False
    then have "ws1 = []" using w(1) by (subst (asm) time_windows_loop.simps) simp
    then show ?thesis using w(2) nx False by simp
  qed
qed

lemma numeric_next:
  assumes "is_int64 cur" "is_int64 e" "0 < interval" "is_int64 interval" "cur < e"
  shows "(if cur \<le> max_int64 - interval then wrap64 (cur + interval) else e) =
    (if cur \<le> max_int64 - interval then cur + interval else e)"
proof (cases "cur \<le> max_int64 - interval")
  case True
  then have "is_int64 (cur + interval)" using assms by (simp add: is_int64_def)
  then show ?thesis by simp
qed simp

lemma numeric_windows_cover:
  assumes "numeric_windows_loop cur e interval n = Inr ws" "cur < e" "0 < interval"
    and "is_int64 cur" "is_int64 e" "is_int64 interval"
  shows "covers cur ws e"
  using assms
proof (induction cur e interval n arbitrary: ws rule: numeric_windows_loop.induct)
  case (1 cur e interval n)
  define nxt where "nxt = (if cur \<le> max_int64 - interval then wrap64 (cur + interval) else e)"
  have nx: "nxt = (if cur \<le> max_int64 - interval then cur + interval else e)"
    unfolding nxt_def by (rule numeric_next) (use 1 in simp_all)
  show ?case
  proof (cases "e \<le> nxt")
    case True
    then have "ws = [(cur, e)]"
      using 1(2,3) by (subst (asm) numeric_windows_loop.simps) (auto simp: nxt_def [symmetric] Let_def split: if_splits)
    then show ?thesis using 1(3) by simp
  next
    case False
    have nm: "\<not> max_windows \<le> n"
      using 1(2,3) False by (subst (asm) numeric_windows_loop.simps) (auto simp: nxt_def [symmetric] Let_def split: if_splits)
    obtain ws1 where w: "numeric_windows_loop nxt e interval (Suc n) = Inr ws1" "ws = (cur, nxt) # ws1"
      using 1(2,3) False nm
      by (subst (asm) numeric_windows_loop.simps) (auto simp: nxt_def [symmetric] Let_def split: sum.splits)
    have "cur < nxt" "is_int64 nxt" using nx 1(3-7) False by (auto simp: is_int64_def split: if_splits)
    then have "covers nxt ws1 e" using 1(1) [OF _ nxt_def False nm w(1)] 1(3-7) False by simp
    then show ?thesis using w(2) \<open>cur < nxt\<close> False covers_Cons by simp
  qed
qed

text \<open>A range of at most \<open>k\<close> intervals takes at most \<open>k\<close> windows.\<close>

lemma time_windows_exist:
  assumes "e - cur \<le> int k * interval" "k + n \<le> max_windows" "0 < interval"
  shows "\<exists>ws. time_windows_loop cur e interval n = Inr ws \<and> length ws \<le> k"
  using assms
proof (induction k arbitrary: cur n)
  case 0
  then show ?case by (subst time_windows_loop.simps) simp
next
  case (Suc k)
  show ?case
  proof (cases "cur < e")
    case True
    define nxt where "nxt = (if e < cur + interval then e else cur + interval)"
    have "e - nxt \<le> int k * interval" using Suc.prems(1,3) by (auto simp: nxt_def algebra_simps)
    then obtain ws where "time_windows_loop nxt e interval (Suc n) = Inr ws" "length ws \<le> k"
      using Suc.IH [of nxt "Suc n"] Suc.prems(2,3) by auto
    then show ?thesis using True Suc.prems(2)
      by (subst time_windows_loop.simps) (auto simp: nxt_def [symmetric] Let_def)
  qed (subst time_windows_loop.simps, simp)
qed

lemma numeric_windows_exist:
  assumes "e - cur \<le> int k * interval" "k + n \<le> max_windows" "0 < interval" "cur < e"
    and "is_int64 cur" "is_int64 e" "is_int64 interval"
  shows "\<exists>ws. numeric_windows_loop cur e interval n = Inr ws \<and> length ws \<le> k"
  using assms
proof (induction k arbitrary: cur n)
  case (Suc k)
  define nxt where "nxt = (if cur \<le> max_int64 - interval then wrap64 (cur + interval) else e)"
  have nx: "nxt = (if cur \<le> max_int64 - interval then cur + interval else e)"
    unfolding nxt_def by (rule numeric_next) (use Suc.prems in simp_all)
  show ?case
  proof (cases "e \<le> nxt")
    case True
    then show ?thesis using Suc.prems(2,4)
      by (subst numeric_windows_loop.simps) (simp add: nxt_def [symmetric] Let_def)
  next
    case False
    then have "nxt = cur + interval" using nx by (simp split: if_splits)
    then have "e - nxt \<le> int k * interval" "is_int64 nxt" using Suc.prems False
      by (auto simp: algebra_simps is_int64_def)
    then obtain ws where "numeric_windows_loop nxt e interval (Suc n) = Inr ws" "length ws \<le> k"
      using Suc.IH [of nxt "Suc n"] Suc.prems False by auto
    then show ?thesis using False Suc.prems(2,4)
      by (subst numeric_windows_loop.simps) (simp add: nxt_def [symmetric] Let_def)
  qed
qed simp

subsection \<open>The automatic interval\<close>

lemma auto_partition_target_pos: "4 \<le> auto_partition_target p \<and> auto_partition_target p \<le> max_int64"
proof -
  have "go_div max_int64 partitions_per_worker = 2305843009213693951"
    by (simp add: go_div_nonneg partitions_per_worker_def max_int64_def)
  then show ?thesis by (auto simp: auto_partition_target_def partitions_per_worker_def max_int64_def Let_def)
qed

lemma auto_numeric_interval_ok:
  assumes "is_int64 start" "is_int64 e" "start \<le> e"
  shows "\<exists>i. auto_numeric_interval start e p = Inr i \<and> 0 < i \<and> is_int64 i \<and>
    e - start \<le> auto_partition_target p * i"
proof -
  define t where "t = auto_partition_target p"
  define w where "w = e - start + 1"
  define st where "st = (t - 1 + w) div t"
  have t: "4 \<le> t" "t \<le> max_int64" using auto_partition_target_pos by (simp_all add: t_def)
  have w: "1 \<le> w" "w \<le> 18446744073709551616"
    using assms by (simp_all add: w_def is_int64_def min_int64_def max_int64_def)
  have cover: "w \<le> t * st"
  proof -
    have "t - 1 + w = t * st + (t - 1 + w) mod t" by (simp add: st_def)
    moreover have "(t - 1 + w) mod t < t" using t by simp
    ultimately show ?thesis by linarith
  qed
  have pos: "0 < st" using cover w t by (smt (verit, best) mult_nonneg_nonpos)
  have "st * t \<le> t - 1 + w" proof -
    have "t - 1 + w = t * st + (t - 1 + w) mod t" "0 \<le> (t - 1 + w) mod t" using t by (simp_all add: st_def)
    then show ?thesis by (simp add: mult.commute)
  qed
  have "4 * st \<le> t * st" using t pos by simp
  then have "3 * st \<le> 18446744073709551616 + t - 1 - st" using \<open>st * t \<le> t - 1 + w\<close> w by (simp add: mult.commute)
  then have "is_int64 st" using t pos by (simp add: is_int64_def min_int64_def max_int64_def)
  then show ?thesis
    using assms(3) cover pos unfolding auto_numeric_interval_def Let_def w_def [symmetric] t_def [symmetric] st_def [symmetric]
    by (simp add: w_def)
qed

lemma range_jobs_auto_numeric:
  assumes "op_partition_auto o'" "pb_kind b = KindNumeric" "is_int64 (pb_numeric_start b)" "is_int64 (pb_numeric_end b)"
    and "pb_numeric_start b \<le> pb_numeric_end b" "auto_partition_target (op_parallelism o') \<le> 100000"
  shows "\<exists>jobs. range_jobs o' b = Inr jobs \<and> int (length jobs) \<le> auto_partition_target (op_parallelism o')"
proof -
  let ?t = "auto_partition_target (op_parallelism o')"
  let ?s = "pb_numeric_start b" and ?e = "pb_numeric_end b"
  have t: "4 \<le> ?t" using auto_partition_target_pos by blast
  obtain i where i: "auto_numeric_interval ?s ?e (op_parallelism o') = Inr i" "0 < i" "is_int64 i" "?e - ?s \<le> ?t * i"
    using auto_numeric_interval_ok [OF assms(3,4,5)] by blast
  show ?thesis
  proof (cases "?s = ?e")
    case True
    then show ?thesis using assms(1,2) i t
      by (simp add: range_jobs_def extract_numeric_partition_windows_def numeric_jobs_def)
  next
    case False
    have "?e - ?s \<le> int (nat ?t) * i" "nat ?t + 0 \<le> max_windows" "?s < ?e"
      using i(4) t assms(5,6) False by (simp_all add: max_windows_def)
    then obtain ws where "numeric_windows_loop ?s ?e i 0 = Inr ws" "length ws \<le> nat ?t"
      using numeric_windows_exist [of ?e ?s "nat ?t" i 0] assms(3,4) i(2,3) by blast
    then show ?thesis using assms(1,2,5) i t False
      by (simp add: range_jobs_def extract_numeric_partition_windows_def numeric_jobs_def)
  qed
qed

text \<open>The values that the jobs of a plan select.\<close>

definition job_selects_number :: "partition_job \<Rightarrow> int \<Rightarrow> bool" where
  "job_selects_number j v \<longleftrightarrow> \<not> pj_is_null j \<and> fst (pj_numeric_window j) \<le> v \<and>
     (if pj_end_inclusive j then v \<le> snd (pj_numeric_window j) else v < snd (pj_numeric_window j))"

definition job_selects_time :: "partition_job \<Rightarrow> gotime \<Rightarrow> bool" where
  "job_selects_time j t \<longleftrightarrow> \<not> pj_is_null j \<and> fst (pj_window j) \<le> t \<and>
     (if pj_end_inclusive j then t \<le> snd (pj_window j) else t < snd (pj_window j))"

lemma numeric_jobs_count:
  assumes "covers c ws e"
  shows "length (filter (\<lambda>j. job_selects_number j v) (numeric_jobs e ws)) = (if c \<le> v \<and> v \<le> e then 1 else 0)"
proof -
  have "(\<lambda>w. job_selects_number (zero_job\<lparr>pj_numeric_window := w, pj_end_inclusive := (snd w = e), pj_kind := KindNumeric\<rparr>) v)
      = (\<lambda>w. window_selects e w v)"
    by (rule ext) (simp add: job_selects_number_def window_selects_def zero_job_def)
  then show ?thesis using covers_count [OF assms, of v] by (simp add: numeric_jobs_def filter_map comp_def)
qed

lemma time_jobs_count:
  assumes "covers c ws e"
  shows "length (filter (\<lambda>j. job_selects_time j v) (time_jobs e ws)) = (if c \<le> v \<and> v \<le> e then 1 else 0)"
proof -
  have "(\<lambda>w. job_selects_time (zero_job\<lparr>pj_window := w, pj_end_inclusive := (snd w = e), pj_kind := KindTime\<rparr>) v)
      = (\<lambda>w. window_selects e w v)"
    by (rule ext) (simp add: job_selects_time_def window_selects_def zero_job_def)
  then show ?thesis using covers_count [OF assms, of v] by (simp add: time_jobs_def filter_map comp_def)
qed

lemma extract_numeric_cover:
  assumes "extract_numeric_partition_windows s e i = Inr ws" "is_int64 s" "is_int64 e" "is_int64 i"
  shows "covers s ws e"
  using assms numeric_windows_cover [of s e i 0 ws]
  by (auto simp: extract_numeric_partition_windows_def split: if_splits)

lemma extract_time_cover:
  "extract_partition_windows s e i = Inr ws \<Longrightarrow> covers s ws e"
  using time_windows_cover [of s e i 0 ws] by (auto simp: extract_partition_windows_def split: if_splits)

lemma range_jobs_numeric_count:
  assumes "range_jobs o' b = Inr jobs" "pb_kind b = KindNumeric" "is_int64 (pb_numeric_start b)" "is_int64 (pb_numeric_end b)"
    and "is_int64 (op_partition_numeric_interval o')"
  shows "length (filter (\<lambda>j. job_selects_number j v) jobs) =
    (if pb_numeric_start b \<le> v \<and> v \<le> pb_numeric_end b then 1 else 0)"
proof -
  have le: "pb_numeric_start b \<le> pb_numeric_end b" using assms(1,2) by (auto simp: range_jobs_def split: if_splits)
  obtain i ws where i: "is_int64 i" "extract_numeric_partition_windows (pb_numeric_start b) (pb_numeric_end b) i = Inr ws"
    "jobs = numeric_jobs (pb_numeric_end b) ws"
    using assms(1,2,5) auto_numeric_interval_ok [OF assms(3,4) le, of "op_parallelism o'"]
    by (auto simp: range_jobs_def bind_result_Inr_iff split: if_splits)
  show ?thesis
    using numeric_jobs_count [OF extract_numeric_cover [OF i(2) assms(3,4) i(1)], of v] i(3) by simp
qed

lemma range_jobs_time_count:
  assumes "range_jobs o' b = Inr jobs" "pb_kind b \<noteq> KindNumeric"
  shows "length (filter (\<lambda>j. job_selects_time j v) jobs) = (if pb_start b \<le> v \<and> v \<le> pb_end b then 1 else 0)"
proof (cases "pb_start b = pb_end b")
  case True
  then show ?thesis using assms by (auto simp: range_jobs_def job_selects_time_def zero_job_def split: if_splits)
next
  case False
  then obtain i ws where "extract_partition_windows (pb_start b) (pb_end b) i = Inr ws" "jobs = time_jobs (pb_end b) ws"
    using assms by (auto simp: range_jobs_def bind_result_Inr_iff split: if_splits)
  then show ?thesis using time_jobs_count [OF extract_time_cover] by simp
qed

lemma ceil_granularity:
  "t \<le> ceil_time_to_sql_granularity t" "ceil_time_to_sql_granularity t < t + microsecond"
  "ceil_time_to_sql_granularity t mod microsecond = 0"
proof -
  have m: "0 \<le> t mod microsecond" "t mod microsecond < microsecond" by (simp_all add: microsecond_def)
  show "t \<le> ceil_time_to_sql_granularity t" "ceil_time_to_sql_granularity t < t + microsecond"
    using m by (auto simp: ceil_time_to_sql_granularity_def Let_def)
  have "(t - t mod microsecond) mod microsecond = 0" by (simp add: minus_mod_eq_mult_div)
  then show "ceil_time_to_sql_granularity t mod microsecond = 0"
    by (auto simp: ceil_time_to_sql_granularity_def Let_def)
qed


subsection \<open>Properties\<close>

lemma null_selects_nothing [simp]:
  "\<not> job_selects_number (zero_job\<lparr>pj_is_null := True, pj_kind := k\<rparr>) v"
  "\<not> job_selects_time (zero_job\<lparr>pj_is_null := True, pj_kind := k\<rparr>) t"
  by (simp_all add: job_selects_number_def job_selects_time_def)

lemma discovered_jobs:
  assumes "extract_partition_jobs o' (Some d) = Inr jobs" "bounds_discovery_enabled o'" "d o' = Some b"
    and "pb_kind b \<noteq> KindUnknown"
  shows "\<exists>rs. (if pb_has_range b then range_jobs o' b = Inr rs else rs = []) \<and>
    jobs = rs @ (if pb_has_nulls b then [zero_job\<lparr>pj_is_null := True, pj_kind := pb_kind b\<rparr>] else [])"
  using assms by (auto simp: extract_partition_jobs_def bind_result_Inr_iff split: if_splits)

text \<open>C28: A partitioned read over a numeric column reads every value once: when the bounds have been
  discovered and the plan succeeds, each number between the discovered bounds is selected by exactly
  one job, no other number by any, and there is a job for the nulls exactly when there are nulls. It
  holds for the fixed interval and for the automatic one, over the whole range of 64-bit integers.\<close>

theorem partition_numbers_once:
  assumes "extract_partition_jobs o' (Some d) = Inr jobs" "op_partition_kind o' = KindNumeric" "d o' = Some b"
    and "pb_kind b = KindNumeric" "is_int64 (pb_numeric_start b)" "is_int64 (pb_numeric_end b)"
    and "is_int64 (op_partition_numeric_interval o')"
  shows "length (filter (\<lambda>j. job_selects_number j v) jobs) =
      (if pb_has_range b \<and> pb_numeric_start b \<le> v \<and> v \<le> pb_numeric_end b then 1 else 0) \<and>
    ((\<exists>j \<in> set jobs. pj_is_null j) \<longleftrightarrow> pb_has_nulls b)"
proof -
  have "bounds_discovery_enabled o'" "pb_kind b \<noteq> KindUnknown"
    using assms(2,4) by (simp_all add: bounds_discovery_enabled_def)
  from discovered_jobs [OF assms(1) this(1) assms(3) this(2)] obtain rs
    where rs: "if pb_has_range b then range_jobs o' b = Inr rs else rs = []"
      and jobs: "jobs = rs @ (if pb_has_nulls b then [zero_job\<lparr>pj_is_null := True, pj_kind := pb_kind b\<rparr>] else [])"
    by blast
  have "\<forall>j \<in> set rs. \<not> pj_is_null j"
    using rs assms(4) by (auto simp: range_jobs_def bind_result_Inr_iff numeric_jobs_def zero_job_def split: if_splits)
  moreover have "length (filter (\<lambda>j. job_selects_number j v) rs) =
      (if pb_has_range b \<and> pb_numeric_start b \<le> v \<and> v \<le> pb_numeric_end b then 1 else 0)"
    using rs range_jobs_numeric_count [OF _ assms(4-7), of rs v] by (auto split: if_splits)
  ultimately show ?thesis using jobs by auto
qed

definition sample_options :: options where
  "sample_options = \<lparr>op_incremental_key = [], op_incremental_key_type = TypeUnknown, op_interval_start = None,
     op_interval_end = None, op_partition_by = ''id'', op_partition_interval = 0, op_partition_numeric_interval = 10,
     op_partition_auto = False, op_partition_start = None, op_partition_end = None, op_partition_numeric_start = None,
     op_partition_numeric_end = None, op_partition_end_inclusive = False, op_partition_is_null = False,
     op_partition_kind = KindNumeric, op_partition_data_type = TypeInt64, op_buffer_size = 0, op_parallelism = 2\<rparr>"

definition sample_bounds :: partition_bounds where
  "sample_bounds = no_bounds\<lparr>pb_kind := KindNumeric, pb_numeric_start := 1, pb_numeric_end := 25, pb_has_range := True,
     pb_has_nulls := True\<rparr>"

theorem partition_numbers_once_witness:
  "\<exists>jobs. extract_partition_jobs sample_options (Some (\<lambda>_. Some sample_bounds)) = Inr jobs \<and> length jobs = 4 \<and>
     length (filter (\<lambda>j. job_selects_number j 11) jobs) = 1"
proof -
  have "case extract_partition_jobs sample_options (Some (\<lambda>_. Some sample_bounds)) of Inl e \<Rightarrow> False
      | Inr jobs \<Rightarrow> length jobs = 4"
    by (simp add: extract_partition_jobs_def bounds_discovery_enabled_def sample_options_def sample_bounds_def no_bounds_def
        range_jobs_def extract_numeric_partition_windows_def numeric_windows_loop.simps numeric_jobs_def max_windows_def
        max_int64_def wrap64_def)
  then obtain jobs where j: "extract_partition_jobs sample_options (Some (\<lambda>_. Some sample_bounds)) = Inr jobs"
    "length jobs = 4" by (auto split: sum.splits)
  have "op_partition_kind sample_options = KindNumeric" "pb_kind sample_bounds = KindNumeric"
    "is_int64 (pb_numeric_start sample_bounds)" "is_int64 (pb_numeric_end sample_bounds)"
    "is_int64 (op_partition_numeric_interval sample_options)"
    "pb_has_range sample_bounds \<and> pb_numeric_start sample_bounds \<le> 11 \<and> 11 \<le> pb_numeric_end sample_bounds"
    by code_simp+
  then show ?thesis using partition_numbers_once [OF j(1), where b = sample_bounds and v = 11] j by auto
qed

text \<open>C30: A partitioned read over a time column reads every instant once: with bounds discovered by a
  query (the least and the greatest value, and how many rows have one), each instant from the least to
  the greatest is selected by exactly one job, although the upper bound is rounded up to the
  microseconds that SQL stores; no instant before the least or a microsecond after the greatest is
  selected, and the nulls have their job exactly when some row has none.\<close>

theorem partition_times_once:
  assumes "extract_partition_jobs o' (Some d) = Inr jobs" "bounds_discovery_enabled o'" "d o' = Some b"
    and "bounds_from_values parse KindTime lo hi total_rows non_null = Inr b"
    and "sql_time_value parse lo = Inr s" "sql_time_value parse hi = Inr e" "0 < non_null" "non_null \<le> total_rows"
  shows "(s \<le> t \<and> t \<le> e \<longrightarrow> length (filter (\<lambda>j. job_selects_time j t) jobs) = 1) \<and>
    (t < s \<or> e + microsecond \<le> t \<longrightarrow> length (filter (\<lambda>j. job_selects_time j t) jobs) = 0) \<and>
    ((\<exists>j \<in> set jobs. pj_is_null j) \<longleftrightarrow> non_null < total_rows)"
proof -
  have b: "b = no_bounds\<lparr>pb_kind := KindTime, pb_has_nulls := (non_null < total_rows), pb_start := s,
      pb_end := ceil_time_to_sql_granularity e, pb_has_range := True\<rparr>"
    using assms(4-8) by (auto simp: bounds_from_values_def)
  then have p: "pb_kind b \<noteq> KindUnknown" "pb_kind b \<noteq> KindNumeric" "pb_has_range b" "pb_start b = s"
    "pb_end b = ceil_time_to_sql_granularity e" "pb_has_nulls b \<longleftrightarrow> non_null < total_rows" by simp_all
  from discovered_jobs [OF assms(1,2,3) p(1)] p(3) obtain rs
    where rs: "range_jobs o' b = Inr rs"
      and jobs: "jobs = rs @ (if pb_has_nulls b then [zero_job\<lparr>pj_is_null := True, pj_kind := pb_kind b\<rparr>] else [])"
    by auto
  have "\<forall>j \<in> set rs. \<not> pj_is_null j"
    using rs p(2) by (auto simp: range_jobs_def bind_result_Inr_iff time_jobs_def zero_job_def split: if_splits)
  moreover have "length (filter (\<lambda>j. job_selects_time j t) rs) =
      (if s \<le> t \<and> t \<le> ceil_time_to_sql_granularity e then 1 else 0)"
    using range_jobs_time_count [OF rs p(2), of t] p(4,5) by simp
  ultimately show ?thesis using jobs p(6) ceil_granularity [of e] by auto
qed

theorem partition_times_once_witness:
  "\<exists>jobs. extract_partition_jobs (sample_options\<lparr>op_partition_kind := KindTime, op_incremental_key := ''updated'',
       op_partition_interval := 1000000\<rparr>)
     (Some (\<lambda>_. Some (no_bounds\<lparr>pb_kind := KindTime, pb_start := 500, pb_end := 2500000, pb_has_range := True\<rparr>))) = Inr jobs \<and>
     length (filter (\<lambda>j. job_selects_time j 2499500) jobs) = 1"
proof -
  let ?o = "sample_options\<lparr>op_partition_kind := KindTime, op_incremental_key := ''updated'', op_partition_interval := 1000000\<rparr>"
  let ?b = "no_bounds\<lparr>pb_kind := KindTime, pb_start := 500, pb_end := 2500000, pb_has_range := True\<rparr>"
  have "case extract_partition_jobs ?o (Some (\<lambda>_. Some ?b)) of Inl e \<Rightarrow> False | Inr jobs \<Rightarrow> True"
    by (simp add: extract_partition_jobs_def bounds_discovery_enabled_def sample_options_def no_bounds_def equal_fold_def
        to_lower_def range_jobs_def extract_partition_windows_def time_windows_loop.simps time_jobs_def max_windows_def)
  then obtain jobs where j: "extract_partition_jobs ?o (Some (\<lambda>_. Some ?b)) = Inr jobs" by (auto split: sum.splits)
  have "bounds_discovery_enabled ?o" by code_simp
  moreover have "bounds_from_values (\<lambda>_. None) KindTime (SqlTime 500) (SqlTime 2499500) 7 7 = Inr ?b"
    by (simp add: bounds_from_values_def sql_time_value_def ceil_time_to_sql_granularity_def microsecond_def no_bounds_def)
  moreover have "sql_time_value (\<lambda>_. None) (SqlTime 500) = Inr 500" "sql_time_value (\<lambda>_. None) (SqlTime 2499500) = Inr 2499500"
    by (simp_all add: sql_time_value_def)
  ultimately show ?thesis
    using partition_times_once [OF j, where b = ?b and parse = "\<lambda>_. None" and lo = "SqlTime 500" and
        hi = "SqlTime 2499500" and total_rows = 7 and non_null = 7 and t = 2499500] j by auto
qed

text \<open>The automatic interval always plans: whatever the numeric bounds, the interval computed for the
  workers fits in 64 bits and gives at most as many windows as the target asks for (four per worker),
  so the limit on windows is not reached.\<close>

theorem auto_partition_plans:
  assumes "op_partition_auto o'" "pb_kind b = KindNumeric" "is_int64 (pb_numeric_start b)" "is_int64 (pb_numeric_end b)"
    and "pb_numeric_start b \<le> pb_numeric_end b" "auto_partition_target (op_parallelism o') \<le> 100000"
  shows "\<exists>jobs. range_jobs o' b = Inr jobs \<and> int (length jobs) \<le> auto_partition_target (op_parallelism o') \<and>
    (\<forall>v. pb_numeric_start b \<le> v \<and> v \<le> pb_numeric_end b \<longrightarrow> (\<exists>j \<in> set jobs. job_selects_number j v))"
proof -
  obtain jobs where j: "range_jobs o' b = Inr jobs" "int (length jobs) \<le> auto_partition_target (op_parallelism o')"
    using range_jobs_auto_numeric [OF assms] by blast
  have "range_jobs (o'\<lparr>op_partition_numeric_interval := 0\<rparr>) b = range_jobs o' b"
    using assms(1,2) by (simp add: range_jobs_def)
  then have "length (filter (\<lambda>j. job_selects_number j v) jobs) = 1"
    if "pb_numeric_start b \<le> v" "v \<le> pb_numeric_end b" for v
    using range_jobs_numeric_count [of "o'\<lparr>op_partition_numeric_interval := 0\<rparr>" b jobs v] assms(2,3,4) j(1) that
    by (simp add: is_int64_def min_int64_def max_int64_def)
  then have "\<exists>j \<in> set jobs. job_selects_number j v" if "pb_numeric_start b \<le> v" "v \<le> pb_numeric_end b" for v
    using that by (metis filter_empty_conv list.size(3) zero_neq_one)
  then show ?thesis using j by blast
qed

theorem auto_partition_plans_witness:
  "\<exists>jobs. range_jobs (sample_options\<lparr>op_partition_auto := True, op_partition_numeric_interval := 0\<rparr>)
     (no_bounds\<lparr>pb_kind := KindNumeric, pb_numeric_start := min_int64, pb_numeric_end := max_int64\<rparr>) = Inr jobs \<and>
     length jobs \<le> 8"
proof -
  let ?o = "sample_options\<lparr>op_partition_auto := True, op_partition_numeric_interval := 0\<rparr>"
  let ?b = "no_bounds\<lparr>pb_kind := KindNumeric, pb_numeric_start := min_int64, pb_numeric_end := max_int64\<rparr>"
  have t: "auto_partition_target (op_parallelism ?o) = 8" by code_simp
  have "is_int64 (pb_numeric_start ?b)" "is_int64 (pb_numeric_end ?b)" "pb_numeric_start ?b \<le> pb_numeric_end ?b"
    by (simp_all add: is_int64_def min_int64_def max_int64_def)
  then show ?thesis using auto_partition_plans [of ?o ?b] t by (simp add: ) (metis nat_le_iff nat_int numeral_le_iff of_nat_le_iff of_nat_numeral)
qed

end
