(* ===== verification/Naming.thy ===== *)
theory Naming
  imports Schema
begin

text \<open>
  \<^verbatim>\<open>pkg/naming\<close>: naming conventions for destination columns, their detection on an existing
  table, and the reserved metadata columns. The two regular expression passes of
  \<open>normalizeSegment\<close> are written as the scans that leftmost-greedy matching performs.
\<close>

subsection \<open>snake_case.go\<close>

definition underscore :: char where "underscore = CHR ''_''"
definition dunder :: string where "dunder = ''__''"

definition replace_trailing_underscores :: "string \<Rightarrow> string" where
  "replace_trailing_underscores s =
     (let t = trim_right_by (\<lambda>c. c = underscore) s
      in t @ replicate (length s - length t) (CHR ''x''))"

definition segment_char :: "char \<Rightarrow> char" where
  "segment_char c =
     (if c = CHR ''+'' \<or> c = CHR ''*'' then CHR ''x''
      else if c = CHR ''-'' then underscore
      else if c = CHR ''@'' then CHR ''a''
      else if c = CHR ''|'' then CHR ''l''
      else if is_letter c \<or> is_digit c then c
      else underscore)"

text \<open>\<open>([A-Z]+)([A-Z][a-z])\<close> replaced by \<open>${1}_${2}\<close>: a run of at least two capitals
  followed by a small letter is cut before its last capital.\<close>

function camel_case1 :: "string \<Rightarrow> string" where
  "camel_case1 [] = []"
| "camel_case1 (c # s) =
     (if is_upper c then
        (let run = takeWhile is_upper (c # s); rest = dropWhile is_upper (c # s)
         in if 2 \<le> length run \<and> rest \<noteq> [] \<and> is_lower (hd rest)
            then butlast run @ underscore # last run # hd rest # camel_case1 (tl rest)
            else run @ camel_case1 rest)
      else c # camel_case1 s)"
  by pat_completeness auto
termination
  by (relation "measure length")
    (auto simp: less_Suc_eq_le length_dropWhile_le intro: le_trans [OF diff_le_self])

text \<open>\<open>([a-z\d])([A-Z])\<close> replaced by \<open>${1}_${2}\<close>: a match consumes both characters.\<close>

fun camel_case2 :: "string \<Rightarrow> string" where
  "camel_case2 (a # b # s) =
     (if (is_lower a \<or> is_digit a) \<and> is_upper b
      then a # underscore # b # camel_case2 s
      else a # camel_case2 (b # s))"
| "camel_case2 s = s"

text \<open>\<open>_+\<close> replaced by a single underscore.\<close>

fun multi_underscore :: "string \<Rightarrow> string" where
  "multi_underscore (a # b # s) =
     (if a = underscore \<and> b = underscore then multi_underscore (b # s)
      else a # multi_underscore (b # s))"
| "multi_underscore s = s"

definition normalize_segment :: "string \<Rightarrow> string" where
  "normalize_segment s =
     replace_trailing_underscores
       (multi_underscore (to_lower (camel_case2 (camel_case1 (map segment_char s)))))"

definition to_snake_case :: "string \<Rightarrow> string" where
  "to_snake_case name =
     (if name = [] then name
      else
        (let parts = split_str dunder (replace_trailing_underscores name);
             result = join dunder (map normalize_segment (filter (\<lambda>p. p \<noteq> []) parts))
         in if result \<noteq> [] \<and> is_digit (hd result) then underscore # result else result))"

subsection \<open>naming.go\<close>

datatype convention = Direct | SnakeCase | Auto

datatype naming_error = UnknownConvention string

definition parse_convention :: "string \<Rightarrow> (naming_error, convention) result" where
  "parse_convention s =
     (let l = to_lower s
      in if l \<in> {'''', ''auto'', ''default''} then Inr Auto
         else if l = ''direct'' then Inr Direct
         else if l = ''snake_case'' then Inr SnakeCase
         else Inl (UnknownConvention s))"

text \<open>\<open>Get\<close> returns the convention's object; the model keeps its \<open>Normalize\<close> method.\<close>

definition get_convention :: "convention \<Rightarrow> string \<Rightarrow> string" where
  "get_convention conv = (case conv of SnakeCase \<Rightarrow> to_snake_case | _ \<Rightarrow> (\<lambda>name. name))"

subsection \<open>detect.go\<close>

definition ingestr_column_prefix :: string where "ingestr_column_prefix = ''_dlt_''"
definition ingestr_loaded_at_column :: string where
  "ingestr_loaded_at_column = ''_ingestr_loaded_at''"
definition ingestr_run_id_column :: string where "ingestr_run_id_column = ''_ingestr_run_id''"

definition is_ingestr_column :: "string \<Rightarrow> bool" where
  "is_ingestr_column name \<longleftrightarrow>
     has_prefix (to_lower name) ingestr_column_prefix \<or>
     equal_fold name ingestr_loaded_at_column \<or> equal_fold name ingestr_run_id_column"

definition has_ingestr_columns :: "table_schema option \<Rightarrow> bool" where
  "has_ingestr_columns s =
     (case s of None \<Rightarrow> False
      | Some ts \<Rightarrow> list_ex (\<lambda>col. is_ingestr_column (c_name col)) (ts_columns ts))"

definition get_ingestr_columns :: "table_schema option \<Rightarrow> string list" where
  "get_ingestr_columns s =
     (case s of None \<Rightarrow> []
      | Some ts \<Rightarrow> filter is_ingestr_column (map c_name (ts_columns ts)))"

text \<open>The counters of \<open>DetectConvention\<close>'s loop, over the source columns in order.\<close>

fun detect_matches :: "string list \<Rightarrow> string list \<Rightarrow> string list \<Rightarrow> nat \<times> nat \<Rightarrow> nat \<times> nat" where
  "detect_matches exact lowered [] (direct, snake) = (direct, snake)"
| "detect_matches exact lowered (name # names) (direct, snake) =
     (let snake_name = to_snake_case name
      in if snake_name = name then detect_matches exact lowered names (direct, snake)
         else detect_matches exact lowered names
           (if name \<in> set exact then direct + 1 else direct,
            if to_lower snake_name \<in> set lowered then snake + 1 else snake))"

definition detect_convention :: "table_schema option \<Rightarrow> table_schema option \<Rightarrow> convention" where
  "detect_convention source dest =
     (case (source, dest) of
        (Some src, Some dst) \<Rightarrow>
          (let names = filter (\<lambda>n. \<not> is_ingestr_column n) (column_names dst);
               (direct, snake) =
                 detect_matches names (map to_lower names) (column_names src) (0, 0)
           in if 0 < direct \<and> snake < direct then Direct else SnakeCase)
      | _ \<Rightarrow> SnakeCase)"

text \<open>\<open>BuildColumnMapping\<close>: the Go map holds one entry per renamed column; a later column of
  the same name writes the same entry again.\<close>

definition build_column_mapping :: "(string \<Rightarrow> string) \<Rightarrow> string list \<Rightarrow> (string \<rightharpoonup> string)" where
  "build_column_mapping conv names =
     map_of (map (\<lambda>n. (n, conv n)) (filter (\<lambda>n. conv n \<noteq> n) names))"

definition apply_mapping :: "(string \<rightharpoonup> string) \<Rightarrow> string \<Rightarrow> string" where
  "apply_mapping m n = (case m n of Some d \<Rightarrow> d | None \<Rightarrow> n)"

subsection \<open>Normal forms of snake case\<close>

text \<open>
  A normal segment holds small letters, digits and single underscores and does not end in an
  underscore. \<open>normalize_segment\<close> produces normal segments and leaves them alone, and
  \<open>split_str\<close> takes a join of normal segments apart again; so \<open>to_snake_case\<close> is a
  projection onto its normal forms.
\<close>

definition snake_char :: "char \<Rightarrow> bool" where
  "snake_char c \<longleftrightarrow> is_lower c \<or> is_digit c \<or> c = underscore"

definition no_pair :: "char \<Rightarrow> char \<Rightarrow> bool" where
  "no_pair a b \<longleftrightarrow> \<not> (a = underscore \<and> b = underscore)"

definition snake_segment :: "string \<Rightarrow> bool" where
  "snake_segment p \<longleftrightarrow>
     p \<noteq> [] \<and> list_all snake_char p \<and> successively no_pair p \<and> last p \<noteq> underscore"

lemma underscore_class [simp]:
  "\<not> is_upper underscore" "\<not> is_lower underscore" "\<not> is_digit underscore" "\<not> is_letter underscore"
  by (simp_all add: underscore_def is_upper_def is_lower_def is_digit_def is_letter_def)

lemma snake_char_underscore: "snake_char underscore"
  by (simp add: snake_char_def)

lemma snake_char_not_upper: "snake_char c \<Longrightarrow> \<not> is_upper c"
  by (auto simp: snake_char_def dest: char_class_disjoint)

lemma segment_char_special:
  "\<not> is_lower (CHR ''+'')" "\<not> is_lower (CHR ''*'')" "\<not> is_lower (CHR ''-'')"
  "\<not> is_lower (CHR ''@'')" "\<not> is_lower (CHR ''|'')"
  "\<not> is_digit (CHR ''+'')" "\<not> is_digit (CHR ''*'')" "\<not> is_digit (CHR ''-'')"
  "\<not> is_digit (CHR ''@'')" "\<not> is_digit (CHR ''|'')"
  by (simp_all add: is_lower_def is_digit_def)

lemma snake_char_cases: "snake_char c \<Longrightarrow> is_lower c \<or> is_digit c \<or> c = underscore"
  by (simp add: snake_char_def)

lemma segment_char_id: "snake_char c \<Longrightarrow> segment_char c = c"
  using segment_char_special
  by (auto simp: segment_char_def snake_char_def is_letter_def underscore_def)

lemma x_is_lower [simp]: "is_lower (CHR ''x'')" "is_lower (CHR ''a'')" "is_lower (CHR ''l'')"
  by (simp_all add: is_lower_def)

lemma segment_char_class: "is_letter (segment_char c) \<or> is_digit (segment_char c) \<or> segment_char c = underscore"
  by (auto simp: segment_char_def is_letter_def)

declare camel_case1.simps [simp del]

lemma camel_case1_Nil [simp]: "camel_case1 [] = []"
  by (rule camel_case1.simps)

lemma camel_case1_lower [simp]: "\<not> is_upper c \<Longrightarrow> camel_case1 (c # s) = c # camel_case1 s"
  by (simp add: camel_case1.simps)

lemma camel_case1_upper:
  "is_upper c \<Longrightarrow> camel_case1 (c # s) =
     (let run = takeWhile is_upper (c # s); rest = dropWhile is_upper (c # s)
      in if 2 \<le> length run \<and> rest \<noteq> [] \<and> is_lower (hd rest)
         then butlast run @ underscore # last run # hd rest # camel_case1 (tl rest)
         else run @ camel_case1 rest)"
  by (subst camel_case1.simps) simp

lemma camel_case1_id: "\<forall>c\<in>set s. \<not> is_upper c \<Longrightarrow> camel_case1 s = s"
  by (induction s) auto

lemma camel_case2_id: "\<forall>c\<in>set s. \<not> is_upper c \<Longrightarrow> camel_case2 s = s"
  by (induction s rule: camel_case2.induct) simp_all

lemma to_lower_id: "\<forall>c\<in>set s. \<not> is_upper c \<Longrightarrow> to_lower s = s"
  by (induction s) (auto simp: to_lower_def lower_char_id)

lemma multi_underscore_id: "successively no_pair s \<Longrightarrow> multi_underscore s = s"
  by (induction s rule: multi_underscore.induct) (auto simp add: no_pair_def)

lemma replace_trailing_id: "s = [] \<or> last s \<noteq> underscore \<Longrightarrow> replace_trailing_underscores s = s"
  by (simp add: replace_trailing_underscores_def trim_right_by_id Let_def)

lemma normalize_segment_id:
  assumes "snake_segment p"
  shows "normalize_segment p = p"
proof -
  have c: "\<forall>c\<in>set p. snake_char c"
    using assms by (simp add: snake_segment_def list_all_iff)
  then have u: "\<forall>c\<in>set p. \<not> is_upper c" by (auto dest: snake_char_not_upper)
  have "map segment_char p = p"
    using c by (simp add: map_idI segment_char_id)
  then show ?thesis
    using assms u by (simp add: normalize_segment_def camel_case1_id camel_case2_id to_lower_id
        multi_underscore_id replace_trailing_id snake_segment_def)
qed

lemma set_camel_case1: "set (camel_case1 s) \<subseteq> insert underscore (set s)"
proof (induction s rule: camel_case1.induct)
  case (2 c s)
  show ?case
  proof (cases "is_upper c")
    case False
    then show ?thesis using "2.IH" by auto
  next
    case True
    let ?run = "takeWhile is_upper (c # s)" and ?rest = "dropWhile is_upper (c # s)"
    have eq: "?run @ ?rest = c # s" by (rule takeWhile_dropWhile_id)
    have run: "?run \<noteq> []" using True by simp
    have sub: "set ?run \<subseteq> set (c # s)" "set ?rest \<subseteq> set (c # s)"
      using arg_cong [OF eq, of set] unfolding set_append by blast+
    show ?thesis
    proof (cases "2 \<le> length ?run \<and> ?rest \<noteq> [] \<and> is_lower (hd ?rest)")
      case m: True
      have eq1: "camel_case1 (c # s) =
          butlast ?run @ underscore # last ?run # hd ?rest # camel_case1 (tl ?rest)"
        using m by (subst camel_case1_upper [OF True]) (simp only: Let_def if_True if_False simp_thms)
      have "set (butlast ?run) \<subseteq> set (c # s)"
        by (rule subset_trans [OF _ sub(1)]) (auto dest: in_set_butlastD)
      moreover have "last ?run \<in> set (c # s)" using sub(1) run last_in_set by blast
      moreover have "hd ?rest \<in> set (c # s)" using sub(2) m hd_in_set by blast
      moreover have "set (camel_case1 (tl ?rest)) \<subseteq> insert underscore (set (tl ?rest))"
        by (rule "2.IH"(1) [OF True refl refl m])
      moreover have "set (tl ?rest) \<subseteq> set (c # s)"
        using sub(2) m by (cases ?rest) auto
      ultimately show ?thesis unfolding eq1 by auto
    next
      case m: False
      have eq1: "camel_case1 (c # s) = ?run @ camel_case1 ?rest"
        using m by (subst camel_case1_upper [OF True]) (simp only: Let_def if_True if_False simp_thms)
      have "set (camel_case1 ?rest) \<subseteq> insert underscore (set ?rest)"
        by (rule "2.IH"(2) [OF True refl refl m])
      then show ?thesis unfolding eq1 using sub by auto
    qed
  qed
qed simp

lemma set_camel_case2: "set (camel_case2 s) \<subseteq> insert underscore (set s)"
  by (induction s rule: camel_case2.induct) auto

lemma camel_case1_Nil_iff: "camel_case1 s = [] \<longleftrightarrow> s = []"
proof (cases s)
  case (Cons c t)
  then show ?thesis
    by (cases "is_upper c") (auto simp: camel_case1_upper Let_def)
qed simp

lemma camel_case2_Nil_iff: "camel_case2 s = [] \<longleftrightarrow> s = []"
  by (cases s rule: camel_case2.cases) auto

lemma multi_underscore_Nil_iff: "multi_underscore s = [] \<longleftrightarrow> s = []"
  by (induction s rule: multi_underscore.induct) auto

lemma set_multi_underscore: "set (multi_underscore s) \<subseteq> set s"
  by (induction s rule: multi_underscore.induct) auto

lemma hd_multi_underscore: "s \<noteq> [] \<Longrightarrow> hd (multi_underscore s) = hd s"
  by (induction s rule: multi_underscore.induct) auto

lemma multi_underscore_no_pair: "successively no_pair (multi_underscore s)"
proof (induction s rule: multi_underscore.induct)
  case (1 a b s)
  have "multi_underscore (b # s) \<noteq> []" by (simp add: multi_underscore_Nil_iff)
  moreover have "hd (multi_underscore (b # s)) = b" by (simp add: hd_multi_underscore)
  ultimately show ?case using 1
    by (cases "multi_underscore (b # s)") (auto simp: no_pair_def)
qed simp_all

lemma successively_replicate_x:
  "successively no_pair t \<Longrightarrow> successively no_pair (t @ replicate n (CHR ''x''))"
proof (induction n arbitrary: t)
  case (Suc n)
  have "successively no_pair (t @ [CHR ''x''])"
    using Suc.prems by (simp add: successively_append_iff no_pair_def underscore_def)
  from Suc.IH [OF this] show ?case by simp
qed simp

lemma snake_segment_replace_trailing:
  assumes "s \<noteq> []" "list_all snake_char s" "successively no_pair s"
  shows "snake_segment (replace_trailing_underscores s)"
proof -
  let ?P = "\<lambda>c. c = underscore"
  define t where "t = trim_right_by ?P s"
  obtain u where u: "s = t @ u" "list_all ?P u"
    using trim_right_by_split [of s ?P] t_def by blast
  have n: "length s - length t = length u" using u(1) by simp
  have r: "replace_trailing_underscores s = t @ replicate (length u) (CHR ''x'')"
    by (simp add: replace_trailing_underscores_def Let_def n flip: t_def)
  have sc: "list_all snake_char (t @ replicate (length u) (CHR ''x''))"
    using assms(2) u(1) by (auto simp: list_all_iff snake_char_def)
  have "successively no_pair t"
    using assms(3) u(1) by (simp add: successively_append_iff)
  then have sp: "successively no_pair (t @ replicate (length u) (CHR ''x''))"
    by (rule successively_replicate_x)
  have "t = [] \<or> last t \<noteq> underscore"
    using trim_right_by_last [of ?P s] by (simp add: t_def)
  moreover have ne: "t @ replicate (length u) (CHR ''x'') \<noteq> []"
    using assms(1) u(1) by auto
  ultimately have "last (t @ replicate (length u) (CHR ''x'')) \<noteq> underscore"
    by (cases "u = []") (simp_all add: underscore_def last_append last_replicate)
  then show ?thesis
    using sc sp ne by (simp only: r snake_segment_def) blast
qed

lemma normalize_segment_normal:
  assumes "s \<noteq> []"
  shows "snake_segment (normalize_segment s)"
proof -
  let ?m = "map segment_char s"
  let ?c = "camel_case2 (camel_case1 ?m)"
  have "\<forall>c\<in>set ?m. is_letter c \<or> is_digit c \<or> c = underscore"
    using segment_char_class by auto
  then have "\<forall>c\<in>set ?c. is_letter c \<or> is_digit c \<or> c = underscore"
    using set_camel_case1 [of ?m] set_camel_case2 [of "camel_case1 ?m"] by blast
  moreover have "lower_char underscore = underscore" by (simp add: lower_char_id)
  ultimately have "\<forall>c\<in>set (to_lower ?c). snake_char c"
    by (auto simp: to_lower_def snake_char_def is_lower_lower_char)
  then have "list_all snake_char (multi_underscore (to_lower ?c))"
    using set_multi_underscore by (fastforce simp: list_all_iff)
  moreover have "multi_underscore (to_lower ?c) \<noteq> []"
    using assms by (simp add: multi_underscore_Nil_iff camel_case1_Nil_iff camel_case2_Nil_iff)
  ultimately show ?thesis
    unfolding normalize_segment_def
    using multi_underscore_no_pair by (intro snake_segment_replace_trailing)
qed

lemma dunder_eq: "dunder = [underscore, underscore]"
  by (simp add: dunder_def underscore_def)

lemma has_prefix_dunder_pair:
  "has_prefix (a # b # s) dunder \<longleftrightarrow> a = underscore \<and> b = underscore"
  by (simp add: dunder_eq)

lemma segment_no_prefix:
  assumes "successively no_pair (c # p)" "last (c # p) \<noteq> underscore"
  shows "\<not> has_prefix (c # p @ q) dunder"
  using assms by (cases p) (auto simp: dunder_eq no_pair_def)

lemma split_str_segment:
  assumes "successively no_pair p" "p = [] \<or> last p \<noteq> underscore"
  shows "split_str dunder p = [p] \<and> split_str dunder (p @ dunder @ r) = p # split_str dunder r"
  using assms
proof (induction p)
  case Nil
  then show ?case by (simp add: dunder_eq)
next
  case (Cons c p)
  have np: "\<not> has_prefix (c # p @ q) dunder" for q
    using Cons.prems by (intro segment_no_prefix) auto
  have "successively no_pair p" "p = [] \<or> last p \<noteq> underscore"
    using Cons.prems by (auto simp: successively_Cons split: if_splits)
  from Cons.IH [OF this] show ?case
    using np [of "[]"] np [of "dunder @ r"] by simp
qed

lemma split_str_join:
  assumes "ps \<noteq> []" "list_all snake_segment ps"
  shows "split_str dunder (join dunder ps) = ps"
  using assms
proof (induction ps)
  case (Cons p ps)
  then have p: "successively no_pair p" "p = [] \<or> last p \<noteq> underscore"
    by (auto simp: snake_segment_def)
  show ?case
  proof (cases "ps = []")
    case True
    then show ?thesis using split_str_segment [OF p] by simp
  next
    case False
    then show ?thesis
      using split_str_segment [OF p] Cons by (simp add: join_Cons)
  qed
qed simp

lemma last_join:
  assumes "ps \<noteq> []" "\<forall>p\<in>set ps. p \<noteq> []"
  shows "join sep ps \<noteq> [] \<and> last (join sep ps) = last (last ps)"
  using assms by (induction ps) (auto simp: join_Cons)

lemma hd_join:
  assumes "ps \<noteq> []" "\<forall>p\<in>set ps. p \<noteq> []"
  shows "hd (join sep ps) = hd (hd ps)"
  using assms by (cases ps; cases "tl ps = []") (auto simp: join_Cons neq_Nil_conv)

lemma join_split_str: "sep \<noteq> [] \<Longrightarrow> join sep (split_str sep s) = s"
proof (induction sep s rule: split_str.induct)
  case (2 sep c s)
  show ?case
  proof (cases "has_prefix (c # s) sep")
    case True
    have "sep @ drop (length sep) (c # s) = c # s"
      using True by (auto simp: has_prefix_iff)
    then show ?thesis using 2 True by (simp add: join_Cons)
  next
    case False
    then have "join sep (split_str sep s) = s" using 2 by simp
    then show ?thesis using False
      by (cases "split_str sep s"; cases "tl (split_str sep s)") (auto simp: neq_Nil_conv)
  qed
qed simp

lemma join_all_empty: "\<forall>p\<in>set ps. p = [] \<Longrightarrow> set (join sep ps) \<subseteq> set sep"
proof (induction ps)
  case (Cons p ps)
  then show ?case by (cases "ps = []") (simp_all add: join_Cons)
qed simp

text \<open>The normal forms of \<open>to_snake_case\<close>.\<close>

definition snake_normal :: "string \<Rightarrow> bool" where
  "snake_normal s \<longleftrightarrow>
     (\<exists>ps. ps \<noteq> [] \<and> list_all snake_segment ps \<and> \<not> is_digit (hd (hd ps)) \<and> s = join dunder ps)"

lemma snake_normal_fixed:
  assumes "snake_normal s"
  shows "to_snake_case s = s"
proof -
  obtain ps where ps: "ps \<noteq> []" "list_all snake_segment ps" "\<not> is_digit (hd (hd ps))"
    and s: "s = join dunder ps"
    using assms by (auto simp: snake_normal_def)
  have ne: "\<forall>p\<in>set ps. p \<noteq> []" using ps(2) by (auto simp: list_all_iff snake_segment_def)
  have "last ps \<in> set ps" using ps(1) by simp
  then have "last (last ps) \<noteq> underscore"
    using ps(2) by (auto simp: list_all_iff snake_segment_def)
  then have "replace_trailing_underscores s = s"
    using last_join [OF ps(1) ne] s by (simp add: replace_trailing_id)
  moreover have "filter (\<lambda>p. p \<noteq> []) ps = ps" using ne by (simp add: filter_id_conv)
  moreover have "map normalize_segment ps = ps"
    using ps(2) by (simp add: map_idI list_all_iff normalize_segment_id)
  moreover have "\<not> is_digit (hd (join dunder ps))" using hd_join [OF ps(1) ne] ps(3) by simp
  ultimately show ?thesis
    using split_str_join [OF ps(1,2)] s by (simp add: to_snake_case_def Let_def)
qed

lemma replace_trailing_last:
  assumes "s \<noteq> []"
  shows "replace_trailing_underscores s \<noteq> []"
    and "last (replace_trailing_underscores s) \<noteq> underscore"
proof -
  let ?P = "\<lambda>c. c = underscore"
  obtain u where u: "s = trim_right_by ?P s @ u" using trim_right_by_split by blast
  have n: "length s - length (trim_right_by ?P s) = length u"
    using arg_cong [OF u, of length] by simp
  have r: "replace_trailing_underscores s = trim_right_by ?P s @ replicate (length u) (CHR ''x'')"
    by (simp add: replace_trailing_underscores_def Let_def n)
  show ne: "replace_trailing_underscores s \<noteq> []" using r u assms by (cases u) auto
  show "last (replace_trailing_underscores s) \<noteq> underscore"
    using trim_right_by_last [of ?P s] ne unfolding r
    by (cases "u = []") (auto simp: underscore_def last_append last_replicate)
qed

lemma to_snake_case_normal:
  assumes "name \<noteq> []"
  shows "snake_normal (to_snake_case name)"
proof -
  let ?r = "replace_trailing_underscores name"
  define parts where "parts = filter (\<lambda>p. p \<noteq> []) (split_str dunder ?r)"
  define ps where "ps = map normalize_segment parts"
  have seg: "list_all snake_segment ps"
    by (auto simp: ps_def parts_def list_all_iff normalize_segment_normal)
  have "parts \<noteq> []"
  proof
    assume "parts = []"
    then have "\<forall>p\<in>set (split_str dunder ?r). p = []" by (simp add: parts_def filter_empty_conv)
    then have "set (join dunder (split_str dunder ?r)) \<subseteq> set dunder" by (rule join_all_empty)
    then have "set ?r \<subseteq> {underscore}" by (simp add: join_split_str dunder_eq)
    then show False using replace_trailing_last [OF assms] last_in_set by blast
  qed
  then have ne: "ps \<noteq> []" by (simp add: ps_def)
  then obtain q qs where q: "ps = q # qs" by (cases ps) auto
  have qseg: "snake_segment q" and qne: "q \<noteq> []" and all: "\<forall>p\<in>set ps. p \<noteq> []"
    using seg q by (auto simp: list_all_iff snake_segment_def)
  have j: "join dunder ps \<noteq> []" "hd (join dunder ps) = hd q"
    using last_join [OF ne all] hd_join [OF ne all] q by auto
  have res: "to_snake_case name =
      (if is_digit (hd q) then underscore # join dunder ps else join dunder ps)"
    using assms j by (simp add: to_snake_case_def Let_def flip: parts_def ps_def)
  show ?thesis
  proof (cases "is_digit (hd q)")
    case False
    then show ?thesis using res ne seg q by (auto simp: snake_normal_def)
  next
    case True
    have "snake_segment (underscore # q)"
      using qseg True by (cases q) (auto simp: snake_segment_def snake_char_def no_pair_def)
    then have "list_all snake_segment ((underscore # q) # qs)" using seg q by simp
    moreover have "underscore # join dunder ps = join dunder ((underscore # q) # qs)"
      using q by (cases qs) simp_all
    ultimately show ?thesis using res True
      by (auto simp: snake_normal_def intro!: exI [of _ "(underscore # q) # qs"])
  qed
qed

lemma to_snake_case_idem: "to_snake_case (to_snake_case name) = to_snake_case name"
proof (cases "name = []")
  case False
  then show ?thesis by (intro snake_normal_fixed to_snake_case_normal)
qed (simp add: to_snake_case_def)

lemma to_snake_case_chars: "list_all snake_char (to_snake_case name)"
proof (cases "name = []")
  case False
  then obtain ps where ps: "list_all snake_segment ps" "to_snake_case name = join dunder ps"
    using to_snake_case_normal by (auto simp: snake_normal_def)
  have "list_all snake_char (join dunder ps)"
    using ps(1)
  proof (induction ps)
    case (Cons p ps)
    then show ?case
      by (cases "ps = []") (auto simp: join_Cons snake_segment_def dunder_eq snake_char_underscore)
  qed simp
  then show ?thesis using ps(2) by simp
qed (simp add: to_snake_case_def)

lemma to_lower_snake_case [simp]: "to_lower (to_snake_case name) = to_snake_case name"
  using to_snake_case_chars [of name] by (auto intro!: to_lower_id simp: list_all_iff dest: snake_char_not_upper)

subsection \<open>The contract of a naming convention\<close>

text \<open>
  What \<open>BuildColumnMapping\<close>, the override matching and the destinations rely on: a
  \<open>NamingConvention\<close>'s \<open>Normalize\<close> leaves an already normalised name alone.
\<close>

locale naming_convention =
  fixes norm_name :: "string \<Rightarrow> string"
  assumes norm_idem: "norm_name (norm_name n) = norm_name n"
begin

lemma mapping_lookup:
  "build_column_mapping norm_name names n =
     (if n \<in> set names \<and> norm_name n \<noteq> n then Some (norm_name n) else None)"
  by (induction names) (auto simp: build_column_mapping_def)

lemma mapping_applied:
  "n \<in> set names \<Longrightarrow> apply_mapping (build_column_mapping norm_name names) n = norm_name n"
  by (simp add: apply_mapping_def mapping_lookup)

lemma mapping_again_empty:
  "build_column_mapping norm_name (map norm_name names) = Map.empty"
  by (rule ext) (auto simp: mapping_lookup norm_idem)

lemma key_stable: "to_lower (norm_name (norm_name n)) = to_lower (norm_name n)"
  by (simp add: norm_idem)

end

interpretation snake_case: naming_convention to_snake_case
  by unfold_locales (rule to_snake_case_idem)

interpretation direct_case: naming_convention "\<lambda>name. name"
  by unfold_locales simp

interpretation get_conv: naming_convention "get_convention conv"
  by unfold_locales (cases conv; simp add: get_convention_def to_snake_case_idem)

subsection \<open>Detection\<close>

lemma detect_matches_count:
  "detect_matches exact lowered names (d, s) =
     (d + length (filter (\<lambda>n. to_snake_case n \<noteq> n \<and> n \<in> set exact) names),
      s + length (filter (\<lambda>n. to_snake_case n \<noteq> n \<and> to_snake_case n \<in> set lowered) names))"
  by (induction names arbitrary: d s) (simp_all add: Let_def)

lemma detect_convention_count:
  "detect_convention (Some src) (Some dst) =
     (let names = filter (\<lambda>n. \<not> is_ingestr_column n) (column_names dst);
          d = length (filter (\<lambda>n. to_snake_case n \<noteq> n \<and> n \<in> set names) (column_names src));
          s = length (filter (\<lambda>n. to_snake_case n \<noteq> n \<and> to_snake_case n \<in> to_lower ` set names)
                (column_names src))
      in if 0 < d \<and> s < d then Direct else SnakeCase)"
  by (simp add: detect_convention_def detect_matches_count Let_def)

lemma length_filter_mono:
  "(\<And>x. x \<in> set xs \<Longrightarrow> P x \<Longrightarrow> Q x) \<Longrightarrow> length (filter P xs) \<le> length (filter Q xs)"
  by (induction xs) auto

lemma detect_snake_table:
  assumes "column_names dst = map to_snake_case (column_names src) @ extra"
    and "\<forall>n\<in>set (column_names src). \<not> is_ingestr_column (to_snake_case n)"
  shows "detect_convention (Some src) (Some dst) = SnakeCase"
proof -
  let ?names = "filter (\<lambda>n. \<not> is_ingestr_column n) (column_names dst)"
  have "to_snake_case n \<in> to_lower ` set ?names" if "n \<in> set (column_names src)" for n
    using that assms by (intro image_eqI [of _ _ "to_snake_case n"]) auto
  then have "length (filter (\<lambda>n. to_snake_case n \<noteq> n \<and> n \<in> set ?names) (column_names src))
      \<le> length (filter (\<lambda>n. to_snake_case n \<noteq> n \<and> to_snake_case n \<in> to_lower ` set ?names)
           (column_names src))"
    by (intro length_filter_mono) blast
  then show ?thesis unfolding detect_convention_count Let_def by (meson linorder_not_le)
qed

lemma detect_direct_table:
  assumes "column_names dst = column_names src @ extra" "\<forall>n\<in>set extra. is_ingestr_column n"
    and ing: "\<forall>n\<in>set (column_names src). \<not> is_ingestr_column n"
    and clash: "\<forall>n\<in>set (column_names src). to_snake_case n \<noteq> n \<longrightarrow>
      to_snake_case n \<notin> to_lower ` set (column_names src)"
    and renamed: "n \<in> set (column_names src)" "to_snake_case n \<noteq> n"
  shows "detect_convention (Some src) (Some dst) = Direct"
proof -
  let ?names = "filter (\<lambda>n. \<not> is_ingestr_column n) (column_names dst)"
  have names: "?names = column_names src"
    using assms(1,2) ing by (auto simp: filter_id_conv filter_empty_conv)
  have "filter (\<lambda>n. to_snake_case n \<noteq> n \<and> to_snake_case n \<in> to_lower ` set ?names)
      (column_names src) = []"
    unfolding names using clash by (auto simp: filter_empty_conv)
  moreover have "filter (\<lambda>n. to_snake_case n \<noteq> n \<and> n \<in> set ?names) (column_names src) \<noteq> []"
    unfolding names using renamed by (auto simp: filter_empty_conv)
  ultimately show ?thesis unfolding detect_convention_count Let_def by simp
qed

lemma ingestr_metadata_columns:
  "is_ingestr_column ingestr_loaded_at_column" "is_ingestr_column ingestr_run_id_column"
  by (simp_all add: is_ingestr_column_def)

lemma is_ingestr_column_fold: "equal_fold a b \<Longrightarrow> is_ingestr_column a = is_ingestr_column b"
  by (auto simp: is_ingestr_column_def equal_fold_def)


subsection \<open>Properties\<close>


text \<open>The column mapping of any convention renames each source column to its normal form and no other
  column, and a table whose columns are already mapped has nothing to rename.\<close>

theorem column_mapping_stable:
  "apply_mapping (build_column_mapping (get_convention conv) names) n =
     (if n \<in> set names then get_convention conv n else n) \<and>
   build_column_mapping (get_convention conv) (map (get_convention conv) names) = Map.empty"
  using get_conv.mapping_again_empty [of conv names]
  by (auto simp: get_conv.mapping_applied apply_mapping_def get_conv.mapping_lookup)

text \<open>Detection finds the convention a destination was created with. A table that snake case made of
  the source is detected as snake case, whatever extra columns it has; a table with the source's own
  names is detected as direct, provided some source name is not in snake case and no such name's
  snake case is another of the table's names.\<close>

lemma detection_recovers_convention:
  assumes "\<forall>n\<in>set (column_names src). \<not> is_ingestr_column n \<and> \<not> is_ingestr_column (to_snake_case n)"
  shows "(column_names dst = map to_snake_case (column_names src) @ extra \<longrightarrow>
      detect_convention (Some src) (Some dst) = SnakeCase) \<and>
    (column_names dst = column_names src @ extra \<and> (\<forall>n\<in>set extra. is_ingestr_column n) \<and>
      (\<forall>n\<in>set (column_names src). to_snake_case n \<noteq> n \<longrightarrow> to_snake_case n \<notin> to_lower ` set (column_names src)) \<and>
      (\<exists>n\<in>set (column_names src). to_snake_case n \<noteq> n) \<longrightarrow>
      detect_convention (Some src) (Some dst) = Direct)"
  using detect_snake_table [of dst src extra] detect_direct_table [of dst src extra] assms by blast

definition sample_table :: "string list \<Rightarrow> table_schema" where
  "sample_table names = \<lparr>ts_name = ''t'', ts_schema = [], ts_columns = map (\<lambda>n. zero_column\<lparr>c_name := n\<rparr>) names,
     ts_primary_keys = [], ts_incremental_key = [], ts_partition_by = []\<rparr>"

lemma detection_recovers_convention_witness:
  "detect_convention (Some (sample_table [''firstName''])) (Some (sample_table [''first_name'', ''x''])) = SnakeCase \<and>
   detect_convention (Some (sample_table [''firstName''])) (Some (sample_table [''firstName''])) = Direct"
proof -
  have cn: "column_names (sample_table ns) = ns" for ns
    by (simp add: column_names_def sample_table_def comp_def)
  have s: "to_snake_case ''firstName'' = ''first_name''" "\<not> is_ingestr_column ''firstName''"
    "\<not> is_ingestr_column ''first_name''" "to_lower ''firstName'' = ''firstname''" by code_simp+
  have h: "\<forall>n\<in>set (column_names (sample_table [''firstName''])). \<not> is_ingestr_column n \<and> \<not> is_ingestr_column (to_snake_case n)"
    by (simp add: cn s)
  show ?thesis
    using detection_recovers_convention [OF h, of "sample_table [''first_name'', ''x'']" "[''x'']"]
      detection_recovers_convention [OF h, of "sample_table [''firstName'']" "[]"]
    by (simp add: cn s)
qed

end
