(* ===== verification/Onelake_Rows.thy ===== *)
theory Onelake_Rows
  imports Complex_Main Schema Go_Time Naming
begin

text \<open>
  The row transforms of the OneLake destination (\<^verbatim>\<open>destination/onelake/transform.go\<close>): the
  copy-on-write merge, delete+insert and SCD2 that read the target and the staging table and
  produce the rows of the next version, with the reading of a cell
  (\<^verbatim>\<open>internal/arrowutil/value.go\<close>) and the canonical values they compare.

  An Arrow record batch is its list of fields and its rows; the columnar layout, the reference
  counts (\<open>Retain\<close>, \<open>Release\<close>) and field metadata are left out. The text that \<open>%v\<close> gives a
  floating-point number and the two conversions of decimals belong to Go's formatter and to
  Arrow; they are the fields of \<open>arrow_lib\<close>.
\<close>

subsection \<open>Values\<close>

text \<open>A \<open>float64\<close>: its exact value, or one of the values that are not numbers.\<close>

datatype go_float = Finite rat | NegZero | NaN | PosInf | NegInf

datatype time_unit = USecond | UMilli | UMicro | UNano

datatype arrow_type =
    ABool | AInt8 | AInt16 | AInt32 | AInt64 | AUint8 | AUint16 | AUint32 | AUint64
  | AFloat32 | AFloat64 | ADecimal128 int int | ADecimal256 int int
  | AString | ALargeString | ABinary | ALargeBinary | ADate32 | ADate64
  | ATime32 time_unit | ATime64 time_unit | ATimestamp time_unit string
  | AList arrow_type | AJson | AUnknown

text \<open>A cell as Arrow stores it: integers also hold dates, times and instants (in the unit of the
  type) and the unscaled digits of decimals.\<close>

datatype cell = Null | CBool bool | CInt int | CFloat go_float | CText string | CList "cell list"

record field =
  fl_name :: string
  fl_type :: arrow_type
  fl_nullable :: bool

record record_batch =
  rb_fields :: "field list"
  rb_rows :: "cell list list"

record arrow_lib =
  al_dec128_float :: "int \<Rightarrow> int \<Rightarrow> go_float"
  al_dec256_text :: "int \<Rightarrow> int \<Rightarrow> string"
  al_float32_text :: "go_float \<Rightarrow> string"
  al_float64_text :: "go_float \<Rightarrow> string"

text \<open>The Go value of a cell: the dynamic types that an \<open>interface{}\<close> can hold here. Instants are in
  UTC, as Arrow's conversions and the interval flags give them.\<close>

datatype go_value =
    VNil | VBool bool | VInt8 int | VInt16 int | VInt32 int | VInt64 int
  | VFloat32 go_float | VFloat64 go_float | VString string | VBytes string | VTime gotime

text \<open>\<open>Timestamp.ToTime(unit)\<close>, \<open>Date32.ToTime\<close>, \<open>Date64.ToTime\<close> and the time of day.\<close>

definition timestamp_micro :: "int \<Rightarrow> gotime" where
  "timestamp_micro v = v * microsecond"

definition date32_time :: "int \<Rightarrow> gotime" where
  "date32_time d = d * day_length"

definition date64_time :: "int \<Rightarrow> gotime" where
  "date64_time d = go_div d 86400000 * day_length"

definition time_of_day :: "duration \<Rightarrow> gotime" where
  "time_of_day d = go_date 0 1 1 + d"

text \<open>\<open>arrowutil.Value\<close>: the first case of the type switch that the array's type satisfies; \<open>nil\<close>
  for every type the switch does not name (unsigned integers, lists, times of 32 bits).\<close>

fun arrow_value :: "arrow_lib \<Rightarrow> arrow_type \<Rightarrow> cell \<Rightarrow> go_value" where
  "arrow_value lib t Null = VNil"
| "arrow_value lib ABool (CBool b) = VBool b"
| "arrow_value lib AInt8 (CInt i) = VInt8 i"
| "arrow_value lib AInt16 (CInt i) = VInt16 i"
| "arrow_value lib AInt32 (CInt i) = VInt32 i"
| "arrow_value lib AInt64 (CInt i) = VInt64 i"
| "arrow_value lib AFloat32 (CFloat f) = VFloat32 f"
| "arrow_value lib AFloat64 (CFloat f) = VFloat64 f"
| "arrow_value lib AString (CText s) = VString s"
| "arrow_value lib ALargeString (CText s) = VString s"
| "arrow_value lib ABinary (CText s) = VBytes s"
| "arrow_value lib ALargeBinary (CText s) = VBytes s"
| "arrow_value lib (ADecimal128 p s) (CInt i) = VFloat64 (al_dec128_float lib i s)"
| "arrow_value lib (ADecimal256 p s) (CInt i) = VString (al_dec256_text lib i s)"
| "arrow_value lib ADate32 (CInt i) = VTime (date32_time i)"
| "arrow_value lib ADate64 (CInt i) = VTime (date64_time i)"
| "arrow_value lib (ATime64 UMicro) (CInt i) = VTime (time_of_day (wrap64 (i * microsecond)))"
| "arrow_value lib (ATime64 UNano) (CInt i) = VTime (time_of_day i)"
| "arrow_value lib (ATimestamp u z) (CInt i) = VTime (timestamp_micro i)"
| "arrow_value lib AJson (CText s) = VString s"
| "arrow_value lib AUnknown (CText s) = VString s"
| "arrow_value lib t c = VNil"

text \<open>The layouts \<open>RFC3339Nano\<close> (a fraction without its trailing zeros) and that of
  \<open>Time.String\<close>, in UTC.\<close>

definition nano_fraction :: "int \<Rightarrow> string" where
  "nano_fraction n =
     (if n = 0 then [] else CHR ''.'' # trim_right_by (\<lambda>c. c = CHR ''0'') (pad_to 9 n))"

definition format_rfc3339_nano :: "gotime \<Rightarrow> string" where
  "format_rfc3339_nano t = (case clock_of t of (h, mi, s, n) \<Rightarrow>
     format_date t @ ''T'' @ pad_to 2 h @ '':'' @ pad_to 2 mi @ '':'' @ pad_to 2 s @ nano_fraction n @ ''Z'')"

definition time_text :: "gotime \<Rightarrow> string" where
  "time_text t = (case clock_of t of (h, mi, s, n) \<Rightarrow>
     format_date t @ '' '' @ pad_to 2 h @ '':'' @ pad_to 2 mi @ '':'' @ pad_to 2 s @ nano_fraction n @ '' +0000 UTC'')"

text \<open>\<open>fmt.Sprintf("%v", v)\<close>.\<close>

fun value_text :: "arrow_lib \<Rightarrow> go_value \<Rightarrow> string" where
  "value_text lib VNil = ''<nil>''"
| "value_text lib (VBool b) = (if b then ''true'' else ''false'')"
| "value_text lib (VInt8 i) = itoa i"
| "value_text lib (VInt16 i) = itoa i"
| "value_text lib (VInt32 i) = itoa i"
| "value_text lib (VInt64 i) = itoa i"
| "value_text lib (VFloat32 f) = al_float32_text lib f"
| "value_text lib (VFloat64 f) = al_float64_text lib f"
| "value_text lib (VString s) = s"
| "value_text lib (VBytes s) = ''['' @ join '' '' (map (\<lambda>c. itoa (int (of_char c))) s) @ '']''"
| "value_text lib (VTime t) = time_text t"

subsection \<open>Keys of rows\<close>

text \<open>\<open>fieldIndex\<close>: the first field of exactly that name, else the first that differs in case.\<close>

fun index_where :: "('a \<Rightarrow> bool) \<Rightarrow> 'a list \<Rightarrow> nat option" where
  "index_where P [] = None"
| "index_where P (x # xs) = (if P x then Some 0 else map_option Suc (index_where P xs))"

definition field_index :: "field list \<Rightarrow> string \<Rightarrow> nat option" where
  "field_index fs name =
     (case index_where (\<lambda>f. fl_name f = name) fs of
        Some i \<Rightarrow> Some i
      | None \<Rightarrow> index_where (\<lambda>f. equal_fold (fl_name f) name) fs)"

datatype rewrite_error =
    ColumnNotFound string | KeyNotInTarget string | ScdColumnMissing string | NotTimestamp string

text \<open>\<open>fieldIndices\<close>.\<close>

fun field_indices :: "field list \<Rightarrow> string list \<Rightarrow> (rewrite_error, nat list) result" where
  "field_indices fs [] = Inr []"
| "field_indices fs (n # ns) =
     (case field_index fs n of
        None \<Rightarrow> Inl (ColumnNotFound n)
      | Some i \<Rightarrow> (case field_indices fs ns of Inl e \<Rightarrow> Inl e | Inr is' \<Rightarrow> Inr (i # is')))"

definition null_text :: string where "null_text = CHR 0x00 # ''NULL''"
definition key_sep :: char where "key_sep = CHR 0x1F"

text \<open>\<open>cellString\<close>.\<close>

definition cell_string :: "arrow_lib \<Rightarrow> arrow_type \<Rightarrow> cell \<Rightarrow> string" where
  "cell_string lib t c =
     (if c = Null then null_text
      else (case arrow_value lib t c of
              VNil \<Rightarrow> null_text
            | VBytes s \<Rightarrow> s
            | VTime u \<Rightarrow> format_rfc3339_nano u
            | v \<Rightarrow> value_text lib v))"

text \<open>\<open>rowKey\<close>: the texts of the columns, joined by a separator.\<close>

definition row_key :: "arrow_lib \<Rightarrow> field list \<Rightarrow> nat list \<Rightarrow> cell list \<Rightarrow> string" where
  "row_key lib fs idxs row = join [key_sep] (map (\<lambda>i. cell_string lib (fl_type (fs ! i)) (row ! i)) idxs)"

text \<open>\<open>buildKeySet\<close>.\<close>

definition build_key_set :: "arrow_lib \<Rightarrow> record_batch list \<Rightarrow> nat list \<Rightarrow> string set" where
  "build_key_set lib batches idxs =
     set (concat (map (\<lambda>b. map (row_key lib (rb_fields b) idxs) (rb_rows b)) batches))"

text \<open>\<open>filterByMask\<close>: the rows kept, no batch at all when none is.\<close>

definition filter_batch :: "(cell list \<Rightarrow> bool) \<Rightarrow> record_batch \<Rightarrow> record_batch list" where
  "filter_batch keep b =
     (let rows = filter keep (rb_rows b) in if rows = [] then [] else [b\<lparr>rb_rows := rows\<rparr>])"

definition all_rows :: "record_batch list \<Rightarrow> cell list list" where
  "all_rows bs = concat (map rb_rows bs)"

lemma all_rows_simps [simp]:
  "all_rows [] = []" "all_rows (b # bs) = rb_rows b @ all_rows bs" "all_rows (bs @ cs) = all_rows bs @ all_rows cs"
  by (simp_all add: all_rows_def)

lemma all_rows_filter_batch [simp]: "all_rows (filter_batch keep b) = filter keep (rb_rows b)"
  by (simp add: filter_batch_def Let_def)

subsection \<open>Merge\<close>

text \<open>\<open>mergeBatches\<close>.\<close>

fun merge_target :: "arrow_lib \<Rightarrow> string set \<Rightarrow> string list \<Rightarrow> record_batch list \<Rightarrow> (rewrite_error, record_batch list) result" where
  "merge_target lib keys pks [] = Inr []"
| "merge_target lib keys pks (tb # tbs) =
     (case field_indices (rb_fields tb) pks of
        Inl e \<Rightarrow> Inl e
      | Inr idxs \<Rightarrow>
          (case merge_target lib keys pks tbs of
             Inl e \<Rightarrow> Inl e
           | Inr out \<Rightarrow> Inr (filter_batch (\<lambda>r. row_key lib (rb_fields tb) idxs r \<notin> keys) tb @ out)))"

definition merge_batches ::
  "arrow_lib \<Rightarrow> record_batch list \<Rightarrow> record_batch list \<Rightarrow> string list \<Rightarrow> (rewrite_error, record_batch list) result" where
  "merge_batches lib target staging pks =
     (case staging of
        [] \<Rightarrow> Inr target
      | sb # _ \<Rightarrow>
          (case field_indices (rb_fields sb) pks of
             Inl e \<Rightarrow> Inl e
           | Inr idxs \<Rightarrow>
               (case merge_target lib (build_key_set lib staging idxs) pks target of
                  Inl e \<Rightarrow> Inl e
                | Inr out \<Rightarrow> Inr (out @ staging))))"

subsection \<open>Canonical values\<close>

text \<open>The conversion of an \<open>int64\<close> to a \<open>float64\<close>: round to nearest, ties to even, in 53 bits.\<close>

definition round_half_even :: "nat \<Rightarrow> nat \<Rightarrow> nat" where
  "round_half_even e n =
     (let q = n div 2 ^ e; r = n mod 2 ^ e
      in (if 2 * r < 2 ^ e then q else if 2 ^ e < 2 * r then q + 1 else q + q mod 2) * 2 ^ e)"

fun float_shift :: "nat \<Rightarrow> nat" where
  "float_shift n = (if n < 9007199254740992 then 0 else Suc (float_shift (n div 2)))"

declare float_shift.simps [simp del]

definition float64_of_int :: "int \<Rightarrow> int" where
  "float64_of_int i = sgn i * int (round_half_even (float_shift (nat \<bar>i\<bar>)) (nat \<bar>i\<bar>))"

text \<open>The canonical values: an \<open>interface{}\<close> holding a \<open>float64\<close>, a \<open>*big.Rat\<close> or a \<open>string\<close>.\<close>

datatype canonical = KFloat go_float | KRat rat | KText string

text \<open>\<open>big.Rat.SetString\<close> on decimal text: a sign, digits with a point, and an exponent.\<close>

definition split_sign :: "string \<Rightarrow> bool \<times> string" where
  "split_sign s =
     (if s \<noteq> [] \<and> hd s = CHR ''-'' then (True, tl s)
      else if s \<noteq> [] \<and> hd s = CHR ''+'' then (False, tl s) else (False, s))"

definition parse_rat :: "string \<Rightarrow> rat option" where
  "parse_rat s =
     (let (neg, body) = split_sign s;
          whole = takeWhile is_digit body; rest = dropWhile is_digit body;
          (fracs, rest') = (if rest \<noteq> [] \<and> hd rest = CHR ''.''
                           then (takeWhile is_digit (tl rest), dropWhile is_digit (tl rest)) else ([], rest));
          exponent = (if rest' = [] then Some 0
                      else if hd rest' = CHR ''e'' \<or> hd rest' = CHR ''E'' then atoi (tl rest') else None);
          m = int (digits_value (whole @ fracs))
      in if whole @ fracs = [] then None
         else (case exponent of
                 None \<Rightarrow> None
               | Some e \<Rightarrow>
                   (let k = e - int (length fracs); v = of_int (if neg then - m else m) :: rat
                    in Some (if 0 \<le> k then v * 10 ^ nat k else v / 10 ^ nat (- k)))))"

text \<open>\<open>toTime\<close>: an instant with the offset of the zone it was written in; the four layouts are
  tried in order (RFC 3339 with and without a fraction is one parser in Go).\<close>

definition parse_date_only :: "string \<Rightarrow> gotime option" where
  "parse_date_only s =
     (case parse_fields [(4, ''-''), (2, ''-''), (2, [])] s of
        Some ([y, mo, d], []) \<Rightarrow>
          (if 1 \<le> mo \<and> mo \<le> 12 \<and> 1 \<le> d \<and> d \<le> days_in_month y mo then Some (days_of_civil y mo d * day_length) else None)
      | _ \<Rightarrow> None)"

definition parse_date_time :: "string \<Rightarrow> gotime option" where
  "parse_date_time s =
     (case parse_fields [(4, ''-''), (2, ''-''), (2, '' ''), (2, '':''), (2, '':''), (2, [])] s of
        Some ([y, mo, d, h, mi, sec], r) \<Rightarrow>
          (case parse_fraction r of
             Some (ns, []) \<Rightarrow>
               (if 1 \<le> mo \<and> mo \<le> 12 \<and> 1 \<le> d \<and> d \<le> days_in_month y mo \<and> h < 24 \<and> mi < 60 \<and> sec < 60
                then Some (days_of_civil y mo d * day_length + (h * 3600 + mi * 60 + sec) * second + ns) else None)
           | _ \<Rightarrow> None)
      | _ \<Rightarrow> None)"

definition zone_of_text :: "string \<Rightarrow> int" where
  "zone_of_text s = (case parse_zone (drop (length s - 6) s) of None \<Rightarrow> 0 | Some off \<Rightarrow> off)"

fun to_time :: "go_value \<Rightarrow> (gotime \<times> int) option" where
  "to_time (VTime t) = Some (t, 0)"
| "to_time (VString s) =
     (case parse_date_only s of
        Some t \<Rightarrow> Some (t, 0)
      | None \<Rightarrow>
          (case parse_rfc3339 s of
             Some t \<Rightarrow> Some (t, zone_of_text s)
           | None \<Rightarrow> map_option (\<lambda>t. (t, 0)) (parse_date_time s)))"
| "to_time v = None"

text \<open>\<open>canonicalValue\<close>: text for text keys, seconds for dates, microseconds for timestamps, and for
  every other key type the number, where the value is one of the types the code lists.\<close>

definition float_of_int :: "int \<Rightarrow> go_float" where
  "float_of_int i = Finite (of_int (float64_of_int i))"

definition day_seconds :: "gotime \<times> int \<Rightarrow> int" where
  "day_seconds p = (let l = fst p + snd p * second in go_date (time_year l) (time_month l) (time_day l) div second)"

definition canonical_value :: "arrow_lib \<Rightarrow> go_value \<Rightarrow> data_type \<Rightarrow> canonical option" where
  "canonical_value lib v t =
     (if v = VNil then None
      else if t = TypeString \<or> t = TypeUUID then Some (KText (value_text lib v))
      else if t = TypeDate then map_option (\<lambda>p. KFloat (float_of_int (day_seconds p))) (to_time v)
      else if t = TypeTimestamp \<or> t = TypeTimestampTZ
      then map_option (\<lambda>p. KFloat (float_of_int (fst p div microsecond))) (to_time v)
      else (case v of
              VInt16 i \<Rightarrow> Some (KFloat (float_of_int i))
            | VInt32 i \<Rightarrow> Some (KFloat (float_of_int i))
            | VInt64 i \<Rightarrow> Some (KFloat (float_of_int i))
            | VFloat32 f \<Rightarrow> Some (KFloat f)
            | VFloat64 f \<Rightarrow> Some (KFloat f)
            | VString s \<Rightarrow> map_option KRat (parse_rat s)
            | _ \<Rightarrow> None))"

text \<open>\<open>cellCanonical\<close> and \<open>boundCanonical\<close>.\<close>

definition cell_canonical :: "arrow_lib \<Rightarrow> arrow_type \<Rightarrow> cell \<Rightarrow> data_type \<Rightarrow> canonical option" where
  "cell_canonical lib ty c t = (if c = Null then None else canonical_value lib (arrow_value lib ty c) t)"

text \<open>\<open>toRat\<close>, \<open>canonicalCmp\<close>: by value when both sides are numbers, else by text in byte order.\<close>

fun to_rat :: "canonical \<Rightarrow> rat option" where
  "to_rat (KRat q) = Some q"
| "to_rat (KFloat (Finite q)) = Some q"
| "to_rat (KFloat NegZero) = Some 0"
| "to_rat k = None"

fun canonical_text :: "arrow_lib \<Rightarrow> canonical \<Rightarrow> string" where
  "canonical_text lib (KFloat f) = al_float64_text lib f"
| "canonical_text lib (KRat q) = itoa (fst (quotient_of q)) @ ''/'' @ itoa (snd (quotient_of q))"
| "canonical_text lib (KText s) = s"

fun string_compare :: "string \<Rightarrow> string \<Rightarrow> int" where
  "string_compare [] [] = 0"
| "string_compare [] (d # t) = -1"
| "string_compare (c # s) [] = 1"
| "string_compare (c # s) (d # t) =
     (if (of_char c :: nat) < of_char d then -1 else if (of_char d :: nat) < of_char c then 1 else string_compare s t)"

definition canonical_cmp :: "arrow_lib \<Rightarrow> canonical \<Rightarrow> canonical \<Rightarrow> int" where
  "canonical_cmp lib a b =
     (case (to_rat a, to_rat b) of
        (Some x, Some y) \<Rightarrow> (if x < y then -1 else if y < x then 1 else 0)
      | _ \<Rightarrow> string_compare (canonical_text lib a) (canonical_text lib b))"

subsection \<open>Delete and insert\<close>

record delete_insert_options =
  di_key :: string
  di_key_type :: data_type
  di_start :: go_value
  di_end :: go_value

text \<open>\<open>deleteInsertBatches\<close>.\<close>

definition in_interval :: "arrow_lib \<Rightarrow> delete_insert_options \<Rightarrow> arrow_type \<Rightarrow> cell \<Rightarrow> bool" where
  "in_interval lib opts ty c =
     (case (cell_canonical lib ty c (di_key_type opts), canonical_value lib (di_start opts) (di_key_type opts),
            canonical_value lib (di_end opts) (di_key_type opts)) of
        (Some k, Some s, Some e) \<Rightarrow> 0 \<le> canonical_cmp lib k s \<and> canonical_cmp lib k e \<le> 0
      | _ \<Rightarrow> False)"

fun delete_target :: "arrow_lib \<Rightarrow> delete_insert_options \<Rightarrow> record_batch list \<Rightarrow> (rewrite_error, record_batch list) result" where
  "delete_target lib opts [] = Inr []"
| "delete_target lib opts (tb # tbs) =
     (case field_index (rb_fields tb) (di_key opts) of
        None \<Rightarrow> Inl (KeyNotInTarget (di_key opts))
      | Some i \<Rightarrow>
          (case delete_target lib opts tbs of
             Inl e \<Rightarrow> Inl e
           | Inr out \<Rightarrow>
               Inr (filter_batch (\<lambda>r. \<not> in_interval lib opts (fl_type (rb_fields tb ! i)) (r ! i)) tb @ out)))"

definition delete_insert_batches ::
  "arrow_lib \<Rightarrow> record_batch list \<Rightarrow> record_batch list \<Rightarrow> delete_insert_options \<Rightarrow> (rewrite_error, record_batch list) result" where
  "delete_insert_batches lib target staging opts =
     (case delete_target lib opts target of Inl e \<Rightarrow> Inl e | Inr out \<Rightarrow> Inr (out @ staging))"

subsection \<open>SCD2\<close>

definition scd2_valid_from :: string where "scd2_valid_from = ''_scd_valid_from''"
definition scd2_valid_to :: string where "scd2_valid_to = ''_scd_valid_to''"
definition scd2_is_current :: string where "scd2_is_current = ''_scd_is_current''"

text \<open>\<open>SCD2NonDataColumns\<close> and \<open>filterStrings\<close>.\<close>

definition scd2_non_data_columns :: "string list \<Rightarrow> string list" where
  "scd2_non_data_columns pks =
     pks @ [scd2_valid_from, scd2_valid_to, scd2_is_current] @ [ingestr_loaded_at_column, ingestr_run_id_column]"

definition filter_strings :: "string list \<Rightarrow> string list \<Rightarrow> string list" where
  "filter_strings all exclude = filter (\<lambda>c. to_lower c \<notin> set (map to_lower exclude)) all"

record scd2_options =
  so_primary_keys :: "string list"
  so_columns :: "string list"
  so_incremental_key :: string
  so_timestamp :: gotime

text \<open>The map from key to data signature; a later row of the same key overwrites an earlier one.\<close>

definition staging_data :: "arrow_lib \<Rightarrow> record_batch list \<Rightarrow> nat list \<Rightarrow> nat list \<Rightarrow> string \<Rightarrow> string option" where
  "staging_data lib staging pks data =
     map_of (rev (concat (map (\<lambda>b. map (\<lambda>r. (row_key lib (rb_fields b) pks r, row_key lib (rb_fields b) data r)) (rb_rows b))
       staging)))"

text \<open>\<open>boolValue\<close>.\<close>

definition bool_value :: "arrow_type \<Rightarrow> cell \<Rightarrow> bool" where
  "bool_value t c = (t = ABool \<and> c = CBool True)"

text \<open>\<open>closeSCD2Rows\<close>.\<close>

definition close_row :: "nat \<Rightarrow> nat \<Rightarrow> gotime \<Rightarrow> cell list \<Rightarrow> cell list" where
  "close_row vt ic ts row = row[ic := CBool False, vt := CInt (ts div microsecond)]"

definition close_scd2_rows :: "record_batch \<Rightarrow> nat \<Rightarrow> nat \<Rightarrow> gotime \<Rightarrow> (rewrite_error, record_batch) result" where
  "close_scd2_rows b vt ic ts =
     (case fl_type (rb_fields b ! vt) of
        ATimestamp u z \<Rightarrow> Inr (b\<lparr>rb_rows := map (close_row vt ic ts) (rb_rows b)\<rparr>)
      | _ \<Rightarrow> Inl (NotTimestamp scd2_valid_to))"

text \<open>What becomes of a target row: kept as history, closed, or kept as the current version.\<close>

datatype scd2_fate = History | Close | Current

definition scd2_fate ::
  "arrow_lib \<Rightarrow> scd2_options \<Rightarrow> (string \<Rightarrow> string option) \<Rightarrow> field list \<Rightarrow> nat list \<Rightarrow> nat list \<Rightarrow> nat \<Rightarrow> cell list \<Rightarrow> scd2_fate" where
  "scd2_fate lib opts sd fs pks data ic r =
     (if \<not> bool_value (fl_type (fs ! ic)) (r ! ic) then History
      else (case sd (row_key lib fs pks r) of
              Some incoming \<Rightarrow> (if incoming \<noteq> row_key lib fs data r then Close else Current)
            | None \<Rightarrow> (if so_incremental_key opts = [] then Close else Current)))"

text \<open>One target batch: the batches it leaves and the keys that remain current.\<close>

definition scd2_target_batch ::
  "arrow_lib \<Rightarrow> scd2_options \<Rightarrow> string list \<Rightarrow> (string \<Rightarrow> string option) \<Rightarrow> record_batch
   \<Rightarrow> (rewrite_error, record_batch list \<times> string set) result" where
  "scd2_target_batch lib opts data_cols sd tb =
     (let fs = rb_fields tb in
      case field_indices fs (so_primary_keys opts) of
        Inl e \<Rightarrow> Inl e
      | Inr pks \<Rightarrow>
      case field_indices fs data_cols of
        Inl e \<Rightarrow> Inl e
      | Inr data \<Rightarrow>
      case field_index fs scd2_is_current of
        None \<Rightarrow> Inl (ScdColumnMissing scd2_is_current)
      | Some ic \<Rightarrow>
      case field_index fs scd2_valid_to of
        None \<Rightarrow> Inl (ScdColumnMissing scd2_valid_to)
      | Some vt \<Rightarrow>
          (let fate = scd2_fate lib opts sd fs pks data ic;
               as_is = filter_batch (\<lambda>r. fate r \<noteq> Close) tb;
               still = set (map (row_key lib fs pks) (filter (\<lambda>r. fate r = Current) (rb_rows tb)))
           in case filter_batch (\<lambda>r. fate r = Close) tb of
                [] \<Rightarrow> Inr (as_is, still)
              | to_close # _ \<Rightarrow>
                  (case close_scd2_rows to_close vt ic (so_timestamp opts) of
                     Inl e \<Rightarrow> Inl e
                   | Inr done_rows \<Rightarrow> Inr (as_is @ [done_rows], still))))"

fun scd2_target ::
  "arrow_lib \<Rightarrow> scd2_options \<Rightarrow> string list \<Rightarrow> (string \<Rightarrow> string option) \<Rightarrow> record_batch list
   \<Rightarrow> (rewrite_error, record_batch list \<times> string set) result" where
  "scd2_target lib opts data_cols sd [] = Inr ([], {})"
| "scd2_target lib opts data_cols sd (tb # tbs) =
     (case scd2_target_batch lib opts data_cols sd tb of
        Inl e \<Rightarrow> Inl e
      | Inr (out, still) \<Rightarrow>
          (case scd2_target lib opts data_cols sd tbs of
             Inl e \<Rightarrow> Inl e
           | Inr (outs, stills) \<Rightarrow> Inr (out @ outs, still \<union> stills)))"

text \<open>\<open>scd2Batches\<close>.\<close>

definition scd2_batches ::
  "arrow_lib \<Rightarrow> record_batch list \<Rightarrow> record_batch list \<Rightarrow> scd2_options \<Rightarrow> (rewrite_error, record_batch list) result" where
  "scd2_batches lib target staging opts =
     (case staging of
        [] \<Rightarrow> Inr target
      | sb # _ \<Rightarrow>
      case field_indices (rb_fields sb) (so_primary_keys opts) of
        Inl e \<Rightarrow> Inl e
      | Inr pks \<Rightarrow>
          (let data_cols = filter_strings (so_columns opts) (scd2_non_data_columns (so_primary_keys opts)) in
           case field_indices (rb_fields sb) data_cols of
             Inl e \<Rightarrow> Inl e
           | Inr data \<Rightarrow>
               (case scd2_target lib opts data_cols (staging_data lib staging pks data) target of
                  Inl e \<Rightarrow> Inl e
                | Inr (out, still) \<Rightarrow>
                    Inr (out @ concat (map (\<lambda>b. filter_batch (\<lambda>r. row_key lib (rb_fields b) pks r \<notin> still) b) staging)))))"

end
