(* ===== verification/Widening.thy ===== *)
theory Widening
  imports Naming
begin

text \<open>
  \<^verbatim>\<open>pkg/schemaevolution/widen.go\<close>: which column type may be changed into which, the common
  type of two differing columns, and the merge of decimal precisions. Precisions and scales are
  Go \<open>int\<close>s; the model uses exact integers (a declared precision is far below \<open>2 ^ 62\<close>).
\<close>

fun widening_order :: "data_type \<Rightarrow> nat option" where
  "widening_order TypeBoolean = Some 0"
| "widening_order TypeInt8 = Some 1"
| "widening_order TypeInt16 = Some 2"
| "widening_order TypeInt32 = Some 3"
| "widening_order TypeInt64 = Some 4"
| "widening_order TypeFloat32 = Some 5"
| "widening_order TypeFloat64 = Some 6"
| "widening_order TypeDecimal = Some 7"
| "widening_order TypeDate = Some 8"
| "widening_order TypeTime = Some 9"
| "widening_order TypeTimestamp = Some 10"
| "widening_order TypeTimestampTZ = Some 11"
| "widening_order TypeBinary = Some 11"
| "widening_order TypeUUID = Some 11"
| "widening_order TypeInterval = Some 11"
| "widening_order TypeArray = Some 11"
| "widening_order TypeString = Some 12"
| "widening_order TypeJSON = Some 13"
| "widening_order TypeUnknown = None"

fun widening_paths :: "data_type \<Rightarrow> data_type list option" where
  "widening_paths TypeBoolean = Some [TypeString, TypeJSON]"
| "widening_paths TypeInt8 = Some [TypeInt16, TypeInt32, TypeInt64, TypeFloat64, TypeDecimal, TypeString, TypeJSON]"
| "widening_paths TypeInt16 = Some [TypeInt32, TypeInt64, TypeFloat64, TypeDecimal, TypeString, TypeJSON]"
| "widening_paths TypeInt32 = Some [TypeInt64, TypeFloat64, TypeDecimal, TypeString, TypeJSON]"
| "widening_paths TypeInt64 = Some [TypeFloat64, TypeDecimal, TypeString, TypeJSON]"
| "widening_paths TypeFloat32 = Some [TypeFloat64, TypeString, TypeJSON]"
| "widening_paths TypeFloat64 = Some [TypeDecimal, TypeString, TypeJSON]"
| "widening_paths TypeDecimal = Some [TypeString, TypeJSON]"
| "widening_paths TypeDate = Some [TypeTimestamp, TypeTimestampTZ, TypeString, TypeJSON]"
| "widening_paths TypeTime = Some [TypeString, TypeJSON]"
| "widening_paths TypeTimestamp = Some [TypeTimestampTZ, TypeString, TypeJSON]"
| "widening_paths TypeTimestampTZ = Some [TypeString, TypeJSON]"
| "widening_paths TypeString = Some [TypeJSON]"
| "widening_paths TypeBinary = Some [TypeString, TypeJSON]"
| "widening_paths TypeUUID = Some [TypeString, TypeJSON]"
| "widening_paths TypeInterval = Some [TypeString, TypeJSON]"
| "widening_paths TypeArray = Some [TypeJSON]"
| "widening_paths TypeJSON = Some []"
| "widening_paths TypeUnknown = None"

definition can_widen :: "data_type \<Rightarrow> data_type \<Rightarrow> bool" where
  "can_widen src dst =
     (if src = dst then True
      else (case widening_paths src of None \<Rightarrow> False | Some paths \<Rightarrow> list_ex (\<lambda>v. v = dst) paths))"

text \<open>The warning is the empty string where the code returns none.\<close>

definition widen_warning :: "data_type \<Rightarrow> string" where
  "widen_warning t =
     (if t = TypeString \<or> t = TypeJSON then ''type widened to '' @ type_string t else [])"

definition get_widened_type :: "data_type \<Rightarrow> data_type \<Rightarrow> data_type \<times> string" where
  "get_widened_type src dst =
     (if src = dst then (src, [])
      else (case (widening_order src, widening_order dst) of
        (Some src_order, Some dst_order) \<Rightarrow>
          (if dst_order < src_order \<and> can_widen dst src then (src, widen_warning src)
           else if \<not> dst_order < src_order \<and> can_widen src dst then (dst, widen_warning dst)
           else if can_widen src TypeString \<and> can_widen dst TypeString
           then (TypeString, ''incompatible types widened to STRING'')
           else (TypeJSON, ''incompatible types widened to JSON''))
      | _ \<Rightarrow> (TypeJSON, ''incompatible types widened to JSON'')))"

definition merge_decimal_precision :: "column \<Rightarrow> column \<Rightarrow> int \<times> int" where
  "merge_decimal_precision src dst =
     (let precision0 = (if c_precision src < c_precision dst then c_precision dst else c_precision src);
          scale = (if c_scale src < c_scale dst then c_scale dst else c_scale src);
          precision = (if precision0 = 0 then 38 else precision0);
          int_digits0 = precision - scale;
          src_int_digits = c_precision src - c_scale src;
          dst_int_digits = c_precision dst - c_scale dst;
          int_digits1 = (if int_digits0 < src_int_digits then src_int_digits else int_digits0);
          int_digits = (if int_digits1 < dst_int_digits then dst_int_digits else int_digits1)
      in (int_digits + scale, scale))"

datatype widen_error = DecimalTooWide int int

definition merge_decimal_precision_checked :: "column \<Rightarrow> column \<Rightarrow> (widen_error, int \<times> int) result" where
  "merge_decimal_precision_checked src dst =
     (let (precision, scale) = merge_decimal_precision src dst
      in if 76 < precision then Inl (DecimalTooWide precision scale) else Inr (precision, scale))"

subsection \<open>The widening relation\<close>

lemma can_widen_refl [simp]: "can_widen t t"
  by (simp add: can_widen_def)

lemma can_widen_JSON: "can_widen t TypeJSON \<longleftrightarrow> t \<noteq> TypeUnknown"
  by (cases t) (simp_all add: can_widen_def)

lemma can_widen_String: "can_widen t TypeString \<longleftrightarrow> t \<notin> {TypeUnknown, TypeArray, TypeJSON}"
  by (cases t) (simp_all add: can_widen_def)

lemma widening_order_None: "widening_order t = None \<longleftrightarrow> t = TypeUnknown"
  by (cases t) simp_all

lemma can_widen_order:
  "can_widen a b \<Longrightarrow> a \<noteq> b \<Longrightarrow> the (widening_order a) < the (widening_order b)"
  by (cases a; cases b) (simp_all add: can_widen_def)

lemma can_widen_known: "can_widen a b \<Longrightarrow> a \<noteq> b \<Longrightarrow> widening_order a \<noteq> None \<and> widening_order b \<noteq> None"
  by (cases a; cases b) (simp_all add: can_widen_def)

lemma can_widen_antisym: "can_widen a b \<Longrightarrow> can_widen b a \<Longrightarrow> a = b"
  using can_widen_order [of a b] can_widen_order [of b a] by fastforce

text \<open>The paths are transitive but for one pair: a 32-bit float may become a 64-bit float and
  a 64-bit float a decimal, and yet a 32-bit float may not become a decimal.\<close>

definition path_set :: "data_type \<Rightarrow> data_type set" where
  "path_set a = (case widening_paths a of None \<Rightarrow> {} | Some ps \<Rightarrow> set ps)"

lemma can_widen_path: "can_widen a b \<longleftrightarrow> a = b \<or> b \<in> path_set a"
  by (auto simp: can_widen_def path_set_def list_ex_iff split: option.splits)

lemma path_set_trans: "b \<in> path_set a \<Longrightarrow> path_set b - path_set a \<subseteq> (if a = TypeFloat32 then {TypeDecimal} else {})"
  by (cases a) (auto simp: path_set_def)

lemma can_widen_trans:
  assumes "can_widen a b" "can_widen b c" "\<not> (a = TypeFloat32 \<and> c = TypeDecimal)"
  shows "can_widen a c"
proof (cases "a = b \<or> b = c")
  case False
  then have "b \<in> path_set a" "c \<in> path_set b" using assms by (auto simp: can_widen_path)
  then have "c \<in> path_set a"
    using path_set_trans [of b a] assms(3) by (auto split: if_splits)
  then show ?thesis by (simp add: can_widen_path)
qed (use assms in auto)

text \<open>\<open>get_widened_type\<close>: symmetric, an upper bound of the known types, absorbing.\<close>

abbreviation widened :: "data_type \<Rightarrow> data_type \<Rightarrow> data_type" where
  "widened a b \<equiv> fst (get_widened_type a b)"

lemma widened_refl [simp]: "widened a a = a"
  by (simp add: get_widened_type_def)

lemma can_widen_Unknown:
  "can_widen TypeUnknown b \<longleftrightarrow> b = TypeUnknown" "can_widen a TypeUnknown \<longleftrightarrow> a = TypeUnknown"
  by (auto simp: can_widen_def split: option.splits) (cases a; simp)

lemma get_widened_type_alt:
  assumes "a \<noteq> b"
  shows "get_widened_type a b =
    (if can_widen a b then (b, widen_warning b)
     else if can_widen b a then (a, widen_warning a)
     else if can_widen a TypeString \<and> can_widen b TypeString
     then (TypeString, ''incompatible types widened to STRING'')
     else (TypeJSON, ''incompatible types widened to JSON''))"
proof (cases "a = TypeUnknown \<or> b = TypeUnknown")
  case True
  then have "widening_order a = None \<or> widening_order b = None" by auto
  then have "get_widened_type a b = (TypeJSON, ''incompatible types widened to JSON'')"
    using assms by (cases "widening_order a") (simp_all add: get_widened_type_def)
  then show ?thesis using True assms by (auto simp: can_widen_Unknown)
next
  case False
  then obtain m n where mn: "widening_order a = Some m" "widening_order b = Some n"
    using widening_order_None [of a] widening_order_None [of b] by auto
  have "can_widen a b \<Longrightarrow> m < n" "can_widen b a \<Longrightarrow> n < m"
    using can_widen_order [of a b] can_widen_order [of b a] mn assms by simp_all
  then show ?thesis
    using mn assms by (cases "n < m") (auto simp: get_widened_type_def)
qed

lemma get_widened_type_sym: "get_widened_type a b = get_widened_type b a"
proof (cases "a = b")
  case False
  then show ?thesis
    using can_widen_antisym [of a b] by (auto simp: get_widened_type_alt)
qed simp

lemma widened_to_right: "can_widen a b \<Longrightarrow> widened a b = b"
  by (cases "a = b") (simp_all add: get_widened_type_alt)

lemma widened_to_left: "can_widen b a \<Longrightarrow> widened a b = a"
  by (subst get_widened_type_sym) (rule widened_to_right)

lemma widened_incompatible:
  "\<not> can_widen a b \<Longrightarrow> \<not> can_widen b a \<Longrightarrow>
     widened a b = (if can_widen a TypeString \<and> can_widen b TypeString then TypeString else TypeJSON)"
  by (cases "a = b") (simp_all add: get_widened_type_alt)

lemma widened_upper_bound:
  assumes "a \<noteq> TypeUnknown" "b \<noteq> TypeUnknown"
  shows "can_widen a (widened a b) \<and> can_widen b (widened a b)"
proof -
  consider "can_widen a b" | "can_widen b a" | "\<not> can_widen a b" "\<not> can_widen b a" by blast
  then show ?thesis
  proof cases
    case 3
    then show ?thesis using assms
      by (simp add: widened_incompatible can_widen_JSON del: can_widen_String)
  qed (simp_all add: widened_to_right widened_to_left)
qed

lemma widened_Unknown_left: "widened TypeUnknown b = (if b = TypeUnknown then TypeUnknown else TypeJSON)"
  by (auto simp: get_widened_type_alt can_widen_Unknown)

lemma widened_absorb: "widened a (widened a b) = widened a b"
proof (cases "a = TypeUnknown")
  case True
  then show ?thesis by (simp add: widened_Unknown_left)
next
  case a: False
  show ?thesis
  proof (cases "b = TypeUnknown")
    case True
    then have "widened a b = TypeJSON"
      using a widened_Unknown_left [of a] by (subst get_widened_type_sym) simp
    then show ?thesis using a by (simp add: widened_to_right can_widen_JSON)
  next
    case False
    then show ?thesis using a widened_upper_bound widened_to_right by blast
  qed
qed

lemma widened_Unknown: "widened a b = TypeUnknown \<longleftrightarrow> a = TypeUnknown \<and> b = TypeUnknown"
  by (cases "a = b") (auto simp: get_widened_type_alt can_widen_Unknown)

subsection \<open>Decimals\<close>

lemma merge_decimal_precision_bounds:
  assumes "merge_decimal_precision src dst = (p, s)"
  shows "c_scale src \<le> s" "c_scale dst \<le> s"
    and "c_precision src - c_scale src \<le> p - s" "c_precision dst - c_scale dst \<le> p - s"
  using assms by (auto simp: merge_decimal_precision_def Let_def split: if_splits)

lemma merge_decimal_precision_sym:
  "merge_decimal_precision src dst = merge_decimal_precision dst src"
  by (auto simp: merge_decimal_precision_def Let_def)

lemma merge_decimal_scale:
  "snd (merge_decimal_precision src dst) = max (c_scale src) (c_scale dst)"
  by (auto simp: merge_decimal_precision_def Let_def)

lemma merge_checked_bounds:
  "merge_decimal_precision_checked src dst = Inr (p, s) \<Longrightarrow>
     p \<le> 76 \<and> merge_decimal_precision src dst = (p, s)"
  by (auto simp: merge_decimal_precision_checked_def Let_def split: prod.splits if_splits)

lemma merge_checked_error:
  "merge_decimal_precision_checked src dst = Inl e \<longleftrightarrow>
     (\<exists>p s. merge_decimal_precision src dst = (p, s) \<and> 76 < p \<and> e = DecimalTooWide p s)"
  by (auto simp: merge_decimal_precision_checked_def Let_def split: prod.splits if_splits)


subsection \<open>Properties\<close>

text \<open>The type \<open>GetWidenedType\<close> chooses does not depend on the order of its arguments, both types may
  be widened to it, and it is stable: widening one of the types with the result gives the result, so a
  column that has been widened is not widened again by the same source.\<close>

lemma widened_type_upper_bound:
  assumes "a \<noteq> TypeUnknown" "b \<noteq> TypeUnknown"
  shows "get_widened_type a b = get_widened_type b a \<and>
    can_widen a (fst (get_widened_type a b)) \<and> can_widen b (fst (get_widened_type a b)) \<and>
    fst (get_widened_type a (fst (get_widened_type a b))) = fst (get_widened_type a b)"
  using widened_upper_bound [OF assms] get_widened_type_sym [of a b] widened_absorb [of a b] by simp

theorem widened_type_upper_bound_witness:
  "can_widen TypeInt64 (fst (get_widened_type TypeInt64 TypeFloat32))"
proof -
  have "TypeInt64 \<noteq> TypeUnknown" "TypeFloat32 \<noteq> TypeUnknown" by simp_all
  from widened_type_upper_bound [OF this] show ?thesis by blast
qed

text \<open>\<open>CanWiden\<close> is a partial order but for one pair: a 32-bit float may become a 64-bit float, a
  64-bit float a decimal, and a 32-bit float not a decimal. Every other chain of widenings is one
  widening.\<close>

theorem can_widen_almost_order:
  "can_widen a a \<and> (can_widen a b \<and> can_widen b a \<longrightarrow> a = b) \<and>
   (can_widen a b \<and> can_widen b c \<longrightarrow> can_widen a c \<or> a = TypeFloat32 \<and> c = TypeDecimal) \<and>
   can_widen TypeFloat32 TypeFloat64 \<and> can_widen TypeFloat64 TypeDecimal \<and> \<not> can_widen TypeFloat32 TypeDecimal"
proof -
  have "can_widen TypeFloat32 TypeFloat64 \<and> can_widen TypeFloat64 TypeDecimal \<and> \<not> can_widen TypeFloat32 TypeDecimal"
    by code_simp
  moreover have "can_widen a a" by (simp add: can_widen_def)
  ultimately show ?thesis using can_widen_antisym [of a b] can_widen_trans [of a b c] by blast
qed

theorem can_widen_almost_order_witness: "can_widen TypeInt8 TypeInt64"
proof -
  have "can_widen TypeInt8 TypeInt16 \<and> can_widen TypeInt16 TypeInt64" by code_simp
  then show ?thesis using can_widen_almost_order [of TypeInt8 TypeInt16 TypeInt64] by blast
qed

text \<open>A merged decimal holds every value of both decimals (their scales and their integer digits), in
  the least scale that does, does not depend on their order, and has at most 76 digits; it is refused
  exactly when it would need more.\<close>

theorem decimal_merge_exact:
  "(case merge_decimal_precision_checked src dst of
      Inr (p, s) \<Rightarrow> p \<le> 76 \<and> s = max (c_scale src) (c_scale dst) \<and>
        c_precision src - c_scale src \<le> p - s \<and> c_precision dst - c_scale dst \<le> p - s
    | Inl e \<Rightarrow> 76 < fst (merge_decimal_precision src dst)) \<and>
   merge_decimal_precision src dst = merge_decimal_precision dst src"
proof (cases "merge_decimal_precision_checked src dst")
  case (Inl e)
  then show ?thesis using merge_checked_error [of src dst e] merge_decimal_precision_sym by auto
next
  case (Inr ps)
  obtain p s where ps: "ps = (p, s)" by (cases ps)
  have m: "p \<le> 76" "merge_decimal_precision src dst = (p, s)" using merge_checked_bounds Inr ps by auto
  show ?thesis
    using m merge_decimal_precision_bounds [OF m(2)] merge_decimal_scale [of src dst] Inr ps merge_decimal_precision_sym
    by auto
qed

end
