(* ===== verification/Column_Overrides.thy ===== *)
theory Column_Overrides
  imports Widening "HOL-Library.AList"
begin

text \<open>
  \<^verbatim>\<open>pkg/schemaevolution/override.go\<close>: the \<open>--columns\<close> option. A \<open>ColumnOverrides\<close> map is an
  association list with distinct keys, in the order in which a \<open>range\<close> loop visits the map;
  Go leaves that order open, so a fact about every such list is a fact about every order.
  The nil map is the empty list (every operation of the code treats the two alike).
\<close>

record column_override =
  ov_name :: string
  ov_rename_to :: string
  ov_type :: data_type
  ov_precision :: int
  ov_scale :: int
  ov_scale_specified :: bool
  ov_max_length :: int

definition zero_override :: column_override where
  "zero_override = \<lparr>ov_name = [], ov_rename_to = [], ov_type = TypeUnknown, ov_precision = 0,
     ov_scale = 0, ov_scale_specified = False, ov_max_length = 0\<rparr>"

type_synonym column_overrides = "(string \<times> column_override) list"

definition standard_type_names :: "(string \<times> data_type) list" where
  "standard_type_names =
    [(''boolean'', TypeBoolean), (''bool'', TypeBoolean),
     (''int8'', TypeInt8), (''tinyint'', TypeInt8), (''int16'', TypeInt16),
     (''smallint'', TypeInt16), (''int32'', TypeInt32), (''int'', TypeInt64),
     (''integer'', TypeInt64), (''int64'', TypeInt64), (''bigint'', TypeInt64),
     (''long'', TypeInt64),
     (''float32'', TypeFloat32), (''float'', TypeFloat32), (''real'', TypeFloat32),
     (''float64'', TypeFloat64), (''double'', TypeFloat64), (''float4'', TypeFloat32),
     (''float8'', TypeFloat64),
     (''decimal'', TypeDecimal), (''numeric'', TypeDecimal),
     (''string'', TypeString), (''text'', TypeString), (''varchar'', TypeString),
     (''binary'', TypeBinary), (''bytes'', TypeBinary), (''blob'', TypeBinary),
     (''date'', TypeDate), (''time'', TypeTime), (''timestamp'', TypeTimestampTZ),
     (''timestamptz'', TypeTimestampTZ), (''datetime'', TypeTimestampTZ),
     (''timestamp_ntz'', TypeTimestamp), (''timestampntz'', TypeTimestamp),
     (''json'', TypeJSON), (''jsonb'', TypeJSON), (''uuid'', TypeUUID),
     (''interval'', TypeInterval)]"

subsection \<open>Parsing\<close>

datatype override_error =
    BadFormat string | BadFormatParts string | EmptyType string | MissingParenthesis string
  | UnknownType string string | BadDecimalParameters string | InvalidPrecision string
  | PrecisionOutOfRange string | InvalidScale string | ScaleOutOfRange string int
  | BadLengthParameters string | InvalidLength string | LengthNotPositive string

text \<open>The loop of \<open>SplitColumnPairs\<close>: the nesting depth, the text collected since the last
  cut, the rest of the input. A trailing empty piece is dropped.\<close>

fun split_pairs_loop :: "int \<Rightarrow> string \<Rightarrow> string \<Rightarrow> string list" where
  "split_pairs_loop depth current [] = (if current = [] then [] else [current])"
| "split_pairs_loop depth current (ch # s) =
     (if ch = CHR ''('' then split_pairs_loop (depth + 1) (current @ [ch]) s
      else if ch = CHR '')'' then split_pairs_loop (depth - 1) (current @ [ch]) s
      else if ch = CHR '','' then
        (if depth = 0 then current # split_pairs_loop depth [] s
         else split_pairs_loop depth (current @ [ch]) s)
      else split_pairs_loop depth (current @ [ch]) s)"

definition split_column_pairs :: "string \<Rightarrow> string list" where
  "split_column_pairs input = split_pairs_loop 0 [] input"

text \<open>The parameters of a sized type: the \<open>switch dataType\<close> of \<open>parseColumnOverride\<close>.\<close>

definition parse_type_params ::
  "string \<Rightarrow> data_type \<Rightarrow> string list \<Rightarrow> column_override \<Rightarrow> (override_error, column_override) result" where
  "parse_type_params type_spec t params ov =
     (case t of
        TypeDecimal \<Rightarrow>
          (if length params < 1 \<or> 2 < length params then Inl (BadDecimalParameters type_spec)
           else (case atoi (trim_space (params ! 0)) of
              None \<Rightarrow> Inl (InvalidPrecision type_spec)
            | Some p \<Rightarrow>
                (if p < 1 \<or> 76 < p then Inl (PrecisionOutOfRange type_spec)
                 else if length params = 2 then
                   (case atoi (trim_space (params ! 1)) of
                      None \<Rightarrow> Inl (InvalidScale type_spec)
                    | Some s \<Rightarrow>
                        (if s < 0 \<or> p < s then Inl (ScaleOutOfRange type_spec p)
                         else Inr (ov\<lparr>ov_precision := p, ov_scale := s, ov_scale_specified := True\<rparr>)))
                 else Inr (ov\<lparr>ov_precision := p, ov_scale_specified := True\<rparr>))))
      | TypeString \<Rightarrow>
          (if length params \<noteq> 1 then Inl (BadLengthParameters type_spec)
           else (case atoi (trim_space (params ! 0)) of
              None \<Rightarrow> Inl (InvalidLength type_spec)
            | Some l \<Rightarrow> (if l \<le> 0 then Inl (LengthNotPositive type_spec)
                        else Inr (ov\<lparr>ov_max_length := l\<rparr>))))
      | _ \<Rightarrow> Inr ov)"

definition parse_type_spec ::
  "string \<Rightarrow> string \<Rightarrow> column_override \<Rightarrow> (override_error, column_override) result" where
  "parse_type_spec pair type_spec ov =
     (if CHR ''('' \<in> set type_spec then
        (let base = to_lower (trim_space (takeWhile (\<lambda>c. c \<noteq> CHR ''('') type_spec));
             params_str = dropWhile (\<lambda>c. c \<noteq> CHR ''('') type_spec
         in if \<not> has_suffix params_str '')'' then Inl (MissingParenthesis type_spec)
            else (let params = split_on (CHR '','') (butlast (tl params_str))
                  in case map_of standard_type_names base of
                       None \<Rightarrow> Inl (UnknownType base pair)
                     | Some t \<Rightarrow> parse_type_params type_spec t params (ov\<lparr>ov_type := t\<rparr>)))
      else (case map_of standard_type_names (to_lower type_spec) of
              None \<Rightarrow> Inl (UnknownType (to_lower type_spec) pair)
            | Some t \<Rightarrow> Inr (ov\<lparr>ov_type := t\<rparr>)))"

definition parse_column_override :: "string \<Rightarrow> (override_error, column_override) result" where
  "parse_column_override pair =
     (if CHR '':'' \<notin> set pair then Inl (BadFormat pair)
      else (let parts = split_on (CHR '':'') pair
            in if length parts \<noteq> 2 \<and> length parts \<noteq> 3 then Inl (BadFormatParts pair)
               else (let col_name = trim_space (parts ! (if length parts = 2 then 0 else 2));
                         type_spec = trim_space (parts ! 1);
                         rename_to = (if length parts = 2 then [] else trim_space (parts ! 0))
                     in if col_name = [] then Inr zero_override
                        else if type_spec = [] then
                          (if rename_to = [] then Inl (EmptyType pair)
                           else Inr (zero_override\<lparr>ov_name := col_name, ov_rename_to := rename_to\<rparr>))
                        else parse_type_spec pair type_spec
                               (zero_override\<lparr>ov_name := col_name, ov_rename_to := rename_to\<rparr>))))"

fun parse_overrides_loop :: "string list \<Rightarrow> column_overrides \<Rightarrow> (override_error, column_overrides) result" where
  "parse_overrides_loop [] overrides = Inr overrides"
| "parse_overrides_loop (pair0 # pairs) overrides =
     (let pair = trim_space pair0
      in if pair = [] then parse_overrides_loop pairs overrides
         else (case parse_column_override pair of
                 Inl e \<Rightarrow> Inl e
               | Inr ov \<Rightarrow>
                   (if ov_name ov = [] then parse_overrides_loop pairs overrides
                    else parse_overrides_loop pairs (AList.update (to_lower (ov_name ov)) ov overrides))))"

definition parse_column_overrides :: "string \<Rightarrow> (override_error, column_overrides) result" where
  "parse_column_overrides input =
     (if input = [] then Inr [] else parse_overrides_loop (split_column_pairs input) [])"

subsection \<open>Lookup and application\<close>

text \<open>\<open>Names\<close>, \<open>Get\<close>, \<open>GetForColumn\<close>, \<open>UnmatchedColumns\<close>, \<open>ApplyToColumn\<close>.\<close>

definition override_names :: "column_overrides \<Rightarrow> string list" where
  "override_names c = map fst c"

definition overrides_get :: "column_overrides \<Rightarrow> string \<Rightarrow> column_override option" where
  "overrides_get c column_name = map_of c (to_lower column_name)"

definition override_match_convention :: "string \<Rightarrow> string \<Rightarrow> string" where
  "override_match_convention schema_naming =
     (case parse_convention schema_naming of
        Inr Direct \<Rightarrow> get_convention Direct
      | _ \<Rightarrow> get_convention SnakeCase)"

definition get_for_column :: "column_overrides \<Rightarrow> string \<Rightarrow> string \<Rightarrow> column_override option" where
  "get_for_column c column_name schema_naming =
     (let conv = override_match_convention schema_naming;
          key = to_lower (conv column_name)
      in find (\<lambda>ov. to_lower (conv (ov_name ov)) = key) (map snd c))"

definition unmatched_columns :: "column_overrides \<Rightarrow> string list \<Rightarrow> string \<Rightarrow> bool \<Rightarrow> string list" where
  "unmatched_columns c source_columns schema_naming match_rename_to =
     (let conv = override_match_convention schema_naming;
          present = set (map (\<lambda>name. to_lower (conv name)) source_columns)
      in map ov_name (filter (\<lambda>ov.
           to_lower (conv (ov_name ov)) \<notin> present \<and>
           \<not> (match_rename_to \<and> ov_rename_to ov \<noteq> [] \<and> to_lower (conv (ov_rename_to ov)) \<in> present))
         (map snd c)))"

definition apply_to_column :: "column_override \<Rightarrow> column \<Rightarrow> column" where
  "apply_to_column ov col =
     (let col1 = (if ov_type ov \<noteq> TypeUnknown then col\<lparr>c_type := ov_type ov\<rparr> else col);
          col2 = (if 0 < ov_precision ov then col1\<lparr>c_precision := ov_precision ov\<rparr> else col1);
          col3 = (if ov_scale_specified ov \<or> 0 < ov_scale ov then col2\<lparr>c_scale := ov_scale ov\<rparr> else col2)
      in if 0 < ov_max_length ov then col3\<lparr>c_max_length := ov_max_length ov\<rparr> else col3)"

subsection \<open>Matching by naming convention\<close>

lemma override_match_convention_cases:
  "\<exists>conv. override_match_convention schema_naming = get_convention conv"
  unfolding override_match_convention_def by (cases "parse_convention schema_naming") (auto split: convention.split)

interpretation match_conv: naming_convention "override_match_convention schema_naming"
proof
  fix n
  obtain conv where "override_match_convention schema_naming = get_convention conv"
    using override_match_convention_cases by blast
  then show "override_match_convention schema_naming (override_match_convention schema_naming n) =
      override_match_convention schema_naming n"
    by (simp only: get_conv.norm_idem)
qed

lemma get_for_column_normalised:
  "get_for_column c (override_match_convention schema_naming n) schema_naming =
   get_for_column c n schema_naming"
  by (simp add: get_for_column_def Let_def match_conv.norm_idem)

lemma get_for_column_Some:
  "get_for_column c n sn = Some ov \<Longrightarrow>
     ov \<in> snd ` set c \<and>
     to_lower (override_match_convention sn (ov_name ov)) = to_lower (override_match_convention sn n)"
  by (auto simp: get_for_column_def Let_def dest!: find_Some_mem)

lemma find_unique:
  assumes "x \<in> set xs" "P x" "\<forall>y\<in>set xs. P y \<longrightarrow> y = x"
  shows "find P xs = Some x"
proof (cases "find P xs")
  case None
  then show ?thesis using assms(1,2) by (simp add: find_None_all)
next
  case (Some y)
  then have "y \<in> set xs" "P y" using find_Some_mem [OF Some] by auto
  then show ?thesis using Some assms(3) by simp
qed

text \<open>Where no two overrides name the same normalised column, the \<open>range\<close> order is
  irrelevant.\<close>

lemma get_for_column_order:
  assumes perm: "set c' = set c"
    and uniq: "inj_on (\<lambda>ov. to_lower (override_match_convention sn (ov_name ov))) (snd ` set c)"
  shows "get_for_column c' n sn = get_for_column c n sn"
proof (cases "get_for_column c n sn")
  case None
  then have "get_for_column c' n sn = None"
    using perm by (simp add: get_for_column_def Let_def find_None_all)
  then show ?thesis using None by simp
next
  case (Some ov)
  note ov = get_for_column_Some [OF Some]
  have "find (\<lambda>ov. to_lower (override_match_convention sn (ov_name ov)) =
      to_lower (override_match_convention sn n)) (map snd c') = Some ov"
  proof (rule find_unique)
    show "ov \<in> set (map snd c')" using ov perm by simp
    show "to_lower (override_match_convention sn (ov_name ov)) = to_lower (override_match_convention sn n)"
      using ov by blast
    show "\<forall>o'\<in>set (map snd c'). to_lower (override_match_convention sn (ov_name o')) =
        to_lower (override_match_convention sn n) \<longrightarrow> o' = ov"
      using ov perm inj_onD [OF uniq] by simp
  qed
  then show ?thesis using Some by (simp add: get_for_column_def Let_def)
qed

lemma unmatched_columns_mem:
  "m \<in> set (unmatched_columns c cols sn mr) \<longleftrightarrow>
     (\<exists>ov\<in>snd ` set c. m = ov_name ov \<and>
        (\<forall>n\<in>set cols. get_for_column [(to_lower (ov_name ov), ov)] n sn = None) \<and>
        (mr \<longrightarrow> ov_rename_to ov \<noteq> [] \<longrightarrow>
          (\<forall>n\<in>set cols. to_lower (override_match_convention sn (ov_rename_to ov)) \<noteq>
             to_lower (override_match_convention sn n))))"
  unfolding unmatched_columns_def get_for_column_def Let_def
  by (auto simp: image_iff; metis (no_types, opaque_lifting))

subsection \<open>Application\<close>

lemma apply_to_column_frame:
  "c_name (apply_to_column ov col) = c_name col"
  "c_nullable (apply_to_column ov col) = c_nullable col"
  "c_primary_key (apply_to_column ov col) = c_primary_key col"
  "c_array_type (apply_to_column ov col) = c_array_type col"
  "c_unsigned (apply_to_column ov col) = c_unsigned col"
  by (simp_all add: apply_to_column_def Let_def)

lemma apply_to_column_type:
  "c_type (apply_to_column ov col) = (if ov_type ov = TypeUnknown then c_type col else ov_type ov)"
  by (simp add: apply_to_column_def Let_def)

lemma apply_to_column_idem: "apply_to_column ov (apply_to_column ov col) = apply_to_column ov col"
  by (simp add: apply_to_column_def Let_def)

subsection \<open>Printing and parsing\<close>

text \<open>
  The reference printer: the canonical text of an override entry. \<open>valid_override\<close> says
  which overrides a user can write: names without the separators and white space, a type the
  table knows, decimal and length parameters in range.
\<close>

fun type_text :: "data_type \<Rightarrow> string" where
  "type_text TypeTimestampTZ = ''timestamp''"
| "type_text TypeTimestamp = ''timestamp_ntz''"
| "type_text t = type_string t"

definition type_spec_text :: "column_override \<Rightarrow> string" where
  "type_spec_text ov =
     (if ov_type ov = TypeUnknown then []
      else if ov_type ov = TypeDecimal \<and> ov_scale_specified ov
      then ''decimal('' @ itoa (ov_precision ov) @ '','' @ itoa (ov_scale ov) @ '')''
      else if ov_type ov = TypeString \<and> 0 < ov_max_length ov
      then ''string('' @ itoa (ov_max_length ov) @ '')''
      else type_text (ov_type ov))"

definition override_text :: "column_override \<Rightarrow> string" where
  "override_text ov =
     (if ov_rename_to ov = [] then ov_name ov @ '':'' @ type_spec_text ov
      else ov_rename_to ov @ '':'' @ type_spec_text ov @ '':'' @ ov_name ov)"

definition plain_char :: "char \<Rightarrow> bool" where
  "plain_char c \<longleftrightarrow> c \<notin> {CHR '':'', CHR '','', CHR ''('', CHR '')''} \<and> \<not> is_space c"

definition valid_override :: "column_override \<Rightarrow> bool" where
  "valid_override ov \<longleftrightarrow>
     ov_name ov \<noteq> [] \<and> list_all plain_char (ov_name ov) \<and> list_all plain_char (ov_rename_to ov) \<and>
     ov_type ov \<noteq> TypeArray \<and>
     (ov_type ov = TypeUnknown \<longrightarrow> ov_rename_to ov \<noteq> []) \<and>
     (if ov_type ov = TypeDecimal \<and> ov_scale_specified ov
      then 1 \<le> ov_precision ov \<and> ov_precision ov \<le> 76 \<and> 0 \<le> ov_scale ov \<and> ov_scale ov \<le> ov_precision ov
      else ov_precision ov = 0 \<and> ov_scale ov = 0 \<and> \<not> ov_scale_specified ov) \<and>
     (if ov_type ov = TypeString then 0 \<le> ov_max_length ov \<and> is_int64 (ov_max_length ov)
      else ov_max_length ov = 0)"

lemma type_text_known:
  "t \<noteq> TypeUnknown \<Longrightarrow> t \<noteq> TypeArray \<Longrightarrow>
     map_of standard_type_names (to_lower (type_text t)) = Some t \<and>
     list_all plain_char (type_text t) \<and> type_text t \<noteq> []"
  by (cases t) (simp_all add: standard_type_names_def to_lower_def lower_char_def is_upper_def
      plain_char_def is_space_def)

lemma plain_char_itoa: "list_all plain_char (itoa i)"
proof -
  have "plain_char c" if "c \<in> set (itoa i)" for c
  proof (cases "is_digit c")
    case True
    then have "c \<notin> {CHR '':'', CHR '','', CHR ''('', CHR '')''}"
      by (auto dest: subst [where P = is_digit])
    then show ?thesis using True by (simp add: plain_char_def is_digit_not_space)
  next
    case False
    then have "c = CHR ''-''" using that set_itoa by blast
    then show ?thesis by (simp add: plain_char_def is_space_def)
  qed
  then show ?thesis by (simp add: list_all_iff)
qed

lemma plain_trim: "list_all plain_char s \<Longrightarrow> trim_space s = s"
  by (rule trim_space_no_space) (simp add: list_all_iff plain_char_def)

lemma plain_notin:
  assumes "list_all plain_char s"
  shows "CHR '':'' \<notin> set s" "CHR '','' \<notin> set s" "CHR ''('' \<notin> set s" "CHR '')'' \<notin> set s"
  using assms by (auto simp: list_all_iff plain_char_def)

lemma has_suffix_snoc: "has_suffix (s @ [c]) [c]"
  by (simp add: has_suffix_def)

lemma parse_type_spec_sized:
  assumes "CHR ''('' \<notin> set base"
  shows "parse_type_spec pair (base @ CHR ''('' # body @ '')'') ov =
    (case map_of standard_type_names (to_lower (trim_space base)) of
       None \<Rightarrow> Inl (UnknownType (to_lower (trim_space base)) pair)
     | Some t \<Rightarrow> parse_type_params (base @ CHR ''('' # body @ '')'') t (split_on (CHR '','') body)
                  (ov\<lparr>ov_type := t\<rparr>))"
proof -
  let ?P = "\<lambda>c. c \<noteq> CHR ''(''"
  have "\<forall>c\<in>set base. ?P c" using assms by auto
  then have tw: "takeWhile ?P (base @ CHR ''('' # body @ '')'') = base"
    and dw: "dropWhile ?P (base @ CHR ''('' # body @ '')'') = CHR ''('' # body @ '')''"
    by (simp_all add: takeWhile_append2 dropWhile_append2)
  have "has_suffix (CHR ''('' # body @ '')'') '')''"
    using has_suffix_snoc [of "CHR ''('' # body"] by simp
  then show ?thesis
    unfolding parse_type_spec_def tw dw by (simp add: Let_def butlast_append)
qed

lemma type_lookup:
  "map_of standard_type_names (to_lower (trim_space ''decimal'')) = Some TypeDecimal"
  "map_of standard_type_names (to_lower (trim_space ''string'')) = Some TypeString"
  by (simp_all add: standard_type_names_def to_lower_def lower_char_def is_upper_def
      trim_space_no_space is_space_def)

lemma valid_override_int64:
  "valid_override ov \<Longrightarrow> ov_scale_specified ov \<Longrightarrow> is_int64 (ov_precision ov) \<and> is_int64 (ov_scale ov)"
  by (auto simp: valid_override_def is_int64_def min_int64_def max_int64_def split: if_splits)

lemma parse_type_spec_text:
  assumes "valid_override ov" "ov_type ov \<noteq> TypeUnknown"
  shows "parse_type_spec pair (type_spec_text ov)
    (zero_override\<lparr>ov_name := ov_name ov, ov_rename_to := ov_rename_to ov\<rparr>) = Inr ov"
proof -
  note i = plain_char_itoa
  consider (dec) "ov_type ov = TypeDecimal" "ov_scale_specified ov"
    | (str) "ov_type ov = TypeString" "0 < ov_max_length ov"
    | (plain) "\<not> (ov_type ov = TypeDecimal \<and> ov_scale_specified ov)"
        "\<not> (ov_type ov = TypeString \<and> 0 < ov_max_length ov)"
    by blast
  then show ?thesis
  proof cases
    case dec
    have t: "type_spec_text ov =
        ''decimal'' @ CHR ''('' # (itoa (ov_precision ov) @ CHR '','' # itoa (ov_scale ov)) @ '')''"
      using dec by (simp add: type_spec_text_def)
    have sp: "split_on (CHR '','') (itoa (ov_precision ov) @ CHR '','' # itoa (ov_scale ov)) =
        [itoa (ov_precision ov), itoa (ov_scale ov)]"
      by (simp add: split_on_append split_on_no_sep plain_notin [OF i])
    show ?thesis
      unfolding t using assms(1) dec valid_override_int64 [OF assms(1) dec(2)]
      by (subst parse_type_spec_sized)
        (auto simp: type_lookup sp parse_type_params_def plain_trim [OF i] valid_override_def
          zero_override_def)
  next
    case str
    have t: "type_spec_text ov = ''string'' @ CHR ''('' # itoa (ov_max_length ov) @ '')''"
      using str by (simp add: type_spec_text_def)
    have sp: "split_on (CHR '','') (itoa (ov_max_length ov)) = [itoa (ov_max_length ov)]"
      by (simp add: split_on_no_sep plain_notin [OF i])
    show ?thesis
      unfolding t using assms(1) str
      by (subst parse_type_spec_sized)
        (auto simp: type_lookup sp parse_type_params_def plain_trim [OF i] valid_override_def
          zero_override_def)
  next
    case plain
    have t: "type_spec_text ov = type_text (ov_type ov)"
      using plain assms(2) by (simp add: type_spec_text_def)
    have "ov_type ov \<noteq> TypeArray" using assms(1) by (simp add: valid_override_def)
    note k = type_text_known [OF assms(2) this]
    show ?thesis
      unfolding t using k plain assms(1) plain_notin [of "type_text (ov_type ov)"]
      by (auto simp: parse_type_spec_def valid_override_def zero_override_def split: if_splits)
  qed
qed

lemma type_spec_text_chars:
  assumes "valid_override ov"
  shows "CHR '':'' \<notin> set (type_spec_text ov) \<and> (\<forall>c\<in>set (type_spec_text ov). \<not> is_space c) \<and>
    (type_spec_text ov = [] \<longleftrightarrow> ov_type ov = TypeUnknown)"
proof (cases "ov_type ov = TypeUnknown")
  case False
  have "ov_type ov \<noteq> TypeArray" using assms by (simp add: valid_override_def)
  note k = type_text_known [OF False this]
  have i: "CHR '':'' \<notin> set (itoa n) \<and> (\<forall>c\<in>set (itoa n). \<not> is_space c)" for n
    using plain_char_itoa [of n] by (auto simp: list_all_iff plain_char_def)
  show ?thesis
    using k False i by (auto simp: type_spec_text_def list_all_iff plain_char_def is_space_def)
qed (simp add: type_spec_text_def)

lemma parse_override_text:
  assumes "valid_override ov"
  shows "parse_column_override (override_text ov) = Inr ov"
proof -
  let ?n = "ov_name ov" and ?r = "ov_rename_to ov" and ?t = "type_spec_text ov"
  have n: "list_all plain_char ?n" "?n \<noteq> []" and r: "list_all plain_char ?r"
    using assms by (auto simp: valid_override_def)
  note t = type_spec_text_chars [OF assms]
  have trims: "trim_space ?n = ?n" "trim_space ?r = ?r" "trim_space ?t = ?t"
    using n r t by (simp_all add: plain_trim trim_space_no_space)
  have parts: "split_on (CHR '':'') (override_text ov) =
      (if ?r = [] then [?n, ?t] else [?r, ?t, ?n])"
    using n r t plain_notin(1) by (simp add: override_text_def split_on_append split_on_no_sep)
  have colon: "CHR '':'' \<in> set (override_text ov)" by (simp add: override_text_def)
  show ?thesis
  proof (cases "ov_type ov = TypeUnknown")
    case True
    then have "?r \<noteq> []" "?t = []" using assms t by (auto simp: valid_override_def)
    then show ?thesis
      using True assms n colon parts trims
      by (auto simp: parse_column_override_def valid_override_def zero_override_def Let_def)
  next
    case False
    show ?thesis
    proof (cases "?r = []")
      case r0: True
      show ?thesis
        using parse_type_spec_text [OF assms False, of "override_text ov"] False n t colon parts trims r0
        by (simp add: parse_column_override_def Let_def)
    next
      case r1: False
      show ?thesis
        using parse_type_spec_text [OF assms False, of "override_text ov"] False n t colon parts trims r1
        by (simp add: parse_column_override_def Let_def)
    qed
  qed
qed

text \<open>A list of entries: the commas inside the parentheses do not cut.\<close>

lemma split_pairs_plain:
  "\<forall>c\<in>set p. c \<noteq> CHR ''('' \<and> c \<noteq> CHR '')'' \<and> (d = 0 \<longrightarrow> c \<noteq> CHR '','') \<Longrightarrow>
     split_pairs_loop d cur (p @ rest) = split_pairs_loop d (cur @ p) rest"
  by (induction p arbitrary: cur) auto

lemma split_pairs_text:
  assumes "valid_override ov"
  shows "split_pairs_loop 0 cur (override_text ov @ rest) = split_pairs_loop 0 (cur @ override_text ov) rest"
proof -
  have pl: "split_pairs_loop 0 c (p @ r) = split_pairs_loop 0 (c @ p) r" if "list_all plain_char p" for c p r
    using that by (intro split_pairs_plain) (auto simp: list_all_iff plain_char_def)
  have inner: "split_pairs_loop 1 c (p @ r) = split_pairs_loop 1 (c @ p) r" if "list_all plain_char p" for c p r
    using that by (intro split_pairs_plain) (auto simp: list_all_iff plain_char_def)
  have col: "split_pairs_loop 0 c (CHR '':'' # r) = split_pairs_loop 0 (c @ '':'') r" for c r
    by simp
  have base: "split_pairs_loop 0 c (''decimal('' @ r) = split_pairs_loop 1 (c @ ''decimal('') r"
      "split_pairs_loop 0 c (''string('' @ r) = split_pairs_loop 1 (c @ ''string('') r" for c r
    by simp_all
  have inc: "split_pairs_loop 1 c (CHR '','' # r) = split_pairs_loop 1 (c @ '','') r"
      "split_pairs_loop 1 c (CHR '')'' # r) = split_pairs_loop 0 (c @ '')'') r" for c r
    by simp_all
  have spec: "split_pairs_loop 0 c (type_spec_text ov @ r) = split_pairs_loop 0 (c @ type_spec_text ov) r" for c r
  proof (cases "ov_type ov = TypeUnknown")
    case False
    have "ov_type ov \<noteq> TypeArray" using assms by (simp add: valid_override_def)
    then have k: "list_all plain_char (type_text (ov_type ov))" using type_text_known False by blast
    show ?thesis
      using pl [OF k] False
      by (auto simp add: type_spec_text_def base inner [OF plain_char_itoa]
          simp del: split_pairs_loop.simps)
        (simp_all add: inner [OF plain_char_itoa])
  qed (simp add: type_spec_text_def)
  show ?thesis
    using assms by (simp only: override_text_def append_assoc append_Cons append_Nil pl spec col
        valid_override_def split: if_split) simp
qed

lemma override_text_not_Nil: "override_text ov \<noteq> []"
  by (simp add: override_text_def)

lemma split_column_pairs_join:
  assumes "\<forall>ov\<in>set ovs. valid_override ov"
  shows "split_column_pairs (join '','' (map override_text ovs)) = map override_text ovs"
  using assms unfolding split_column_pairs_def
proof (induction ovs)
  case (Cons ov ovs)
  then have v: "valid_override ov" by simp
  show ?case
  proof (cases "ovs = []")
    case True
    then show ?thesis
      using split_pairs_text [OF v, of "[]" "[]"] by (simp add: override_text_not_Nil)
  next
    case False
    then have "split_pairs_loop 0 [] (join '','' (map override_text (ov # ovs))) =
        split_pairs_loop 0 (override_text ov) ('','' @ join '','' (map override_text ovs))"
      using split_pairs_text [OF v, of "[]" "'','' @ join '','' (map override_text ovs)"]
      by (simp add: join_Cons)
    then show ?thesis using Cons by simp
  qed
qed simp

lemma hd_last_plain: "list_all plain_char p \<Longrightarrow> p \<noteq> [] \<Longrightarrow> \<not> is_space (hd p) \<and> \<not> is_space (last p)"
  using hd_in_set last_in_set by (fastforce simp: list_all_iff plain_char_def)

lemma override_text_trim:
  assumes "valid_override ov"
  shows "trim_space (override_text ov) = override_text ov"
proof (rule trim_space_no_space)
  show "\<forall>c\<in>set (override_text ov). \<not> is_space c"
    using assms type_spec_text_chars [OF assms]
    by (auto simp: override_text_def valid_override_def list_all_iff plain_char_def is_space_def)
qed

definition as_overrides :: "column_override list \<Rightarrow> column_overrides" where
  "as_overrides ovs = map (\<lambda>ov. (to_lower (ov_name ov), ov)) ovs"

lemma update_new: "k \<notin> fst ` set al \<Longrightarrow> AList.update k v al = al @ [(k, v)]"
  by (induction al) auto

lemma parse_loop_texts:
  assumes "\<forall>ov\<in>set ovs. valid_override ov"
    and "distinct (map fst acc @ map (\<lambda>ov. to_lower (ov_name ov)) ovs)"
  shows "parse_overrides_loop (map override_text ovs) acc = Inr (acc @ as_overrides ovs)"
  using assms
proof (induction ovs arbitrary: acc)
  case (Cons ov ovs)
  then have v: "valid_override ov" and new: "to_lower (ov_name ov) \<notin> fst ` set acc" by auto
  have "ov_name ov \<noteq> []" using v by (simp add: valid_override_def)
  moreover have "parse_overrides_loop (map override_text ovs) (acc @ [(to_lower (ov_name ov), ov)]) =
      Inr ((acc @ [(to_lower (ov_name ov), ov)]) @ as_overrides ovs)"
    using Cons.prems by (intro Cons.IH) auto
  ultimately show ?case
    using v update_new [OF new]
    by (simp add: override_text_trim parse_override_text override_text_not_Nil as_overrides_def)
qed (simp add: as_overrides_def)

lemma parse_column_overrides_text:
  assumes "\<forall>ov\<in>set ovs. valid_override ov" "distinct (map (\<lambda>ov. to_lower (ov_name ov)) ovs)"
  shows "parse_column_overrides (join '','' (map override_text ovs)) = Inr (as_overrides ovs)"
proof (cases ovs)
  case Nil
  then show ?thesis by (simp add: parse_column_overrides_def as_overrides_def)
next
  case (Cons ov ovs')
  then have "join '','' (map override_text ovs) \<noteq> []"
    by (cases ovs') (simp_all add: override_text_not_Nil)
  then show ?thesis
    using split_column_pairs_join [OF assms(1)] parse_loop_texts [OF assms(1), of "[]"] assms(2)
    by (simp add: parse_column_overrides_def)
qed


subsection \<open>Properties\<close>

text \<open>C37: The override syntax is unambiguous: every list of overrides a user can write, with different
  column names, is read back from its canonical text, entry by entry (renames, sized and parameterised
  types, commas inside a type's parentheses).\<close>

theorem overrides_round_trip:
  assumes "\<forall>ov\<in>set ovs. valid_override ov" "distinct (map (\<lambda>ov. to_lower (ov_name ov)) ovs)"
  shows "parse_column_overrides (join '','' (map override_text ovs)) = Inr (as_overrides ovs) \<and>
    (\<forall>ov\<in>set ovs. overrides_get (as_overrides ovs) (ov_name ov) = Some ov)"
proof -
  have "map_of (map (\<lambda>ov. (to_lower (ov_name ov), ov)) ovs) (to_lower (ov_name ov)) = Some ov" if "ov \<in> set ovs" for ov
    using assms(2) that by (intro map_of_is_SomeI) (auto simp: comp_def)
  then show ?thesis
    using parse_column_overrides_text [OF assms] by (simp add: overrides_get_def as_overrides_def)
qed

theorem overrides_round_trip_witness:
  "parse_column_overrides ''Total:decimal(10,2),id:int64:ID'' =
     Inr [(''total'', zero_override\<lparr>ov_name := ''Total'', ov_type := TypeDecimal, ov_precision := 10, ov_scale := 2,
            ov_scale_specified := True\<rparr>),
          (''id'', zero_override\<lparr>ov_name := ''ID'', ov_rename_to := ''id'', ov_type := TypeInt64\<rparr>)]"
proof -
  let ?a = "zero_override\<lparr>ov_name := ''Total'', ov_type := TypeDecimal, ov_precision := 10, ov_scale := 2,
            ov_scale_specified := True\<rparr>"
  let ?b = "zero_override\<lparr>ov_name := ''ID'', ov_rename_to := ''id'', ov_type := TypeInt64\<rparr>"
  have v: "\<forall>ov\<in>set [?a, ?b]. valid_override ov" "distinct (map (\<lambda>ov. to_lower (ov_name ov)) [?a, ?b])" by code_simp+
  have lowers: "to_lower ''Total'' = ''total''" "to_lower ''ID'' = ''id''" by code_simp+
  have "join '','' (map override_text [?a, ?b]) = ''Total:decimal(10,2),id:int64:ID''" by code_simp
  moreover have "as_overrides [?a, ?b] = [(''total'', ?a), (''id'', ?b)]"
    using lowers by (simp add: as_overrides_def)
  ultimately show ?thesis using overrides_round_trip [OF v] by (simp only:)
qed

text \<open>The override found for a column does not depend on the order of the map, nor on whether the
  column is named in the source's spelling or in the normal form, as long as no two overrides name the
  same column under the convention.\<close>

theorem override_lookup_deterministic:
  assumes "set c' = set c" "inj_on (\<lambda>ov. to_lower (override_match_convention sn (ov_name ov))) (snd ` set c)"
  shows "get_for_column c' (override_match_convention sn n) sn = get_for_column c n sn"
  using get_for_column_order [OF assms] by (simp add: get_for_column_normalised)

theorem override_lookup_deterministic_witness:
  "get_for_column (rev (as_overrides [zero_override\<lparr>ov_name := ''a''\<rparr>, zero_override\<lparr>ov_name := ''b''\<rparr>])) ''b'' ''snake_case''
     = Some (zero_override\<lparr>ov_name := ''b''\<rparr>)"
proof -
  let ?c = "as_overrides [zero_override\<lparr>ov_name := ''a''\<rparr>, zero_override\<lparr>ov_name := ''b''\<rparr>]"
  have n: "override_match_convention ''snake_case'' ''a'' = ''a''" "override_match_convention ''snake_case'' ''b'' = ''b''"
    by code_simp+
  have "set (rev ?c) = set ?c" by simp
  moreover have "inj_on (\<lambda>ov. to_lower (override_match_convention ''snake_case'' (ov_name ov))) (snd ` set ?c)"
    by (auto simp: inj_on_def as_overrides_def n zero_override_def to_lower_def lower_char_def is_upper_def)
  ultimately have "get_for_column (rev ?c) (override_match_convention ''snake_case'' ''b'') ''snake_case'' =
      get_for_column ?c ''b'' ''snake_case''"
    by (rule override_lookup_deterministic)
  moreover have "get_for_column ?c ''b'' ''snake_case'' = Some (zero_override\<lparr>ov_name := ''b''\<rparr>)" by code_simp
  ultimately show ?thesis by (simp add: n)
qed

end
