(* ===== verification/Schema_Compare.thy ===== *)
theory Schema_Compare
  imports Column_Overrides
begin

text \<open>
  \<^verbatim>\<open>pkg/schemaevolution/types.go\<close> and \<^verbatim>\<open>compare.go\<close>: the differences between the source
  schema of a load and the schema of its destination table.
\<close>

subsection \<open>Changes\<close>

datatype change_type =
  ChangeAddColumn | ChangeWidenType | ChangeOverrideType | ChangeRemoveColumn | ChangeRelaxNullability

record schema_change =
  sc_type :: change_type
  sc_column_name :: string
  sc_old :: "column option"
  sc_new :: column

record schema_comparison =
  cmp_changes :: "schema_change list"
  cmp_has_changes :: bool

definition empty_comparison :: schema_comparison where
  "empty_comparison = \<lparr>cmp_changes = [], cmp_has_changes = False\<rparr>"

definition mk_change :: "change_type \<Rightarrow> string \<Rightarrow> column option \<Rightarrow> column \<Rightarrow> schema_change" where
  "mk_change t n old new = \<lparr>sc_type = t, sc_column_name = n, sc_old = old, sc_new = new\<rparr>"

lemma mk_change_sel [simp]:
  "sc_type (mk_change t n old new) = t" "sc_column_name (mk_change t n old new) = n"
  "sc_old (mk_change t n old new) = old" "sc_new (mk_change t n old new) = new"
  by (simp_all add: mk_change_def)

subsection \<open>Column types\<close>

definition normalized_decimal :: "column \<Rightarrow> column" where
  "normalized_decimal col = (if c_precision col = 0 then col\<lparr>c_precision := 38\<rparr> else col)"

definition decimal_needs_widening :: "column \<Rightarrow> column \<Rightarrow> bool" where
  "decimal_needs_widening src dst =
     (let s = normalized_decimal src; d = normalized_decimal dst
      in c_precision d - c_scale d < c_precision s - c_scale s \<or> c_scale d < c_scale s)"

definition string_needs_widening :: "int \<Rightarrow> int \<Rightarrow> bool" where
  "string_needs_widening src_len dst_len =
     (if dst_len \<le> 0 then False else src_len \<le> 0 \<or> dst_len < src_len)"

definition widened_string_length :: "int \<Rightarrow> int \<Rightarrow> int" where
  "widened_string_length a b = (if a \<le> 0 \<or> b \<le> 0 then 0 else if b < a then a else b)"

definition is_floating_type :: "data_type \<Rightarrow> bool" where
  "is_floating_type t \<longleftrightarrow> t = TypeFloat32 \<or> t = TypeFloat64"

definition make_nullable :: "column \<Rightarrow> column" where
  "make_nullable col = col\<lparr>c_nullable := True\<rparr>"

definition array_element_column :: "column \<Rightarrow> column" where
  "array_element_column col = zero_column\<lparr>c_type := c_array_type col, c_precision := c_precision col,
     c_scale := c_scale col, c_max_length := c_max_length col\<rparr>"

definition decimal_representation :: "column \<Rightarrow> column option" where
  "decimal_representation col =
     (case c_type col of
        TypeDecimal \<Rightarrow> Some (normalized_decimal col)
      | TypeInt8 \<Rightarrow> Some (zero_column\<lparr>c_type := TypeDecimal, c_precision := 3\<rparr>)
      | TypeInt16 \<Rightarrow> Some (zero_column\<lparr>c_type := TypeDecimal, c_precision := 5\<rparr>)
      | TypeInt32 \<Rightarrow> Some (zero_column\<lparr>c_type := TypeDecimal, c_precision := 10\<rparr>)
      | TypeInt64 \<Rightarrow> Some (zero_column\<lparr>c_type := TypeDecimal, c_precision := 19\<rparr>)
      | _ \<Rightarrow> None)"

definition merge_decimal_types_checked :: "column \<Rightarrow> column \<Rightarrow> (widen_error, int \<times> int) result" where
  "merge_decimal_types_checked src dst =
     (case (decimal_representation src, decimal_representation dst) of
        (Some s, Some d) \<Rightarrow> merge_decimal_precision_checked s d
      | _ \<Rightarrow> (if c_type src = TypeDecimal then Inr (c_precision src, c_scale src)
              else Inr (c_precision dst, c_scale dst)))"

definition needs_widening :: "column \<Rightarrow> column \<Rightarrow> bool" where
  "needs_widening src dst =
     (if c_type src = c_type dst then
        (case c_type src of
           TypeDecimal \<Rightarrow> decimal_needs_widening src dst
         | TypeString \<Rightarrow> string_needs_widening (c_max_length src) (c_max_length dst)
         | TypeArray \<Rightarrow>
             (if c_array_type src \<noteq> c_array_type dst then True
              else (case c_array_type src of
                 TypeDecimal \<Rightarrow> decimal_needs_widening src dst
               | TypeString \<Rightarrow> string_needs_widening (c_max_length src) (c_max_length dst)
               | _ \<Rightarrow> False))
         | _ \<Rightarrow> False)
      else True)"

definition same_column_type_shape :: "column \<Rightarrow> column \<Rightarrow> bool" where
  "same_column_type_shape a b =
     (if c_type a \<noteq> c_type b then False
      else (case c_type a of
         TypeDecimal \<Rightarrow> c_precision a = c_precision b \<and> c_scale a = c_scale b
       | TypeString \<Rightarrow> c_max_length a = c_max_length b
       | TypeArray \<Rightarrow>
           (if c_array_type a \<noteq> c_array_type b then False
            else (case c_array_type a of
               TypeDecimal \<Rightarrow> c_precision a = c_precision b \<and> c_scale a = c_scale b
             | TypeString \<Rightarrow> c_max_length a = c_max_length b
             | _ \<Rightarrow> True))
       | _ \<Rightarrow> True))"

text \<open>\<open>widenedColumn\<close>; its two decimal merges may fail.\<close>

definition set_string_length :: "data_type \<Rightarrow> data_type \<Rightarrow> column \<Rightarrow> column \<Rightarrow> column \<Rightarrow> column" where
  "set_string_length src_type dst_type src dst result =
     (if src_type = TypeString \<and> dst_type = TypeString
      then result\<lparr>c_max_length := widened_string_length (c_max_length src) (c_max_length dst)\<rparr>
      else result\<lparr>c_max_length := 0\<rparr>)"

definition widened_array_column :: "column \<Rightarrow> column \<Rightarrow> column \<Rightarrow> (widen_error, column) result" where
  "widened_array_column src dst result0 =
     (let elem = fst (get_widened_type (c_array_type src) (c_array_type dst));
          result = result0\<lparr>c_array_type := elem\<rparr>
      in if elem = TypeDecimal \<and>
            (is_floating_type (c_array_type src) \<or> is_floating_type (c_array_type dst))
         then Inr (result\<lparr>c_array_type := TypeString, c_precision := 0, c_scale := 0, c_max_length := 0\<rparr>)
         else
           (let result1 = (if elem = c_array_type dst
                  then result\<lparr>c_precision := c_precision dst, c_scale := c_scale dst,
                         c_max_length := c_max_length dst\<rparr>
                  else result)
            in bind_result
                 (if elem = TypeDecimal
                  then bind_result (merge_decimal_types_checked (array_element_column src) (array_element_column dst))
                         (\<lambda>(p, s). Inr (result1\<lparr>c_precision := p, c_scale := s\<rparr>))
                  else Inr result1)
                 (\<lambda>result2. Inr (if elem = TypeString
                    then set_string_length (c_array_type src) (c_array_type dst) src dst result2
                    else result2))))"

definition widened_column :: "column \<Rightarrow> column \<Rightarrow> (widen_error, column) result" where
  "widened_column src dst =
     (let t = fst (get_widened_type (c_type src) (c_type dst));
          result = src\<lparr>c_name := c_name dst, c_type := t, c_nullable := c_nullable src \<or> c_nullable dst\<rparr>
      in if t = TypeArray \<and> c_type src = TypeArray \<and> c_type dst = TypeArray
         then widened_array_column src dst result
         else if t = TypeDecimal \<and> (is_floating_type (c_type src) \<or> is_floating_type (c_type dst))
         then Inr (result\<lparr>c_type := TypeString, c_precision := 0, c_scale := 0, c_max_length := 0\<rparr>)
         else bind_result
                (if t = TypeDecimal
                 then bind_result (merge_decimal_types_checked src dst)
                        (\<lambda>(p, s). Inr (result\<lparr>c_precision := p, c_scale := s\<rparr>))
                 else Inr result)
                (\<lambda>result1. Inr (if t = TypeString
                   then set_string_length (c_type src) (c_type dst) src dst result1
                   else result1)))"

subsection \<open>Compare\<close>

record compare_options =
  co_overrides :: column_overrides
  co_primary_keys :: "string list"
  co_normalize :: "(column \<Rightarrow> column) option"

datatype compare_error = ColumnError string widen_error

text \<open>The map from lower-case names to destination columns: a later column of the same
  lower-case name overwrites an earlier one.\<close>

definition column_lookup :: "column list \<Rightarrow> string \<Rightarrow> column option" where
  "column_lookup cols k = map_of (rev (map (\<lambda>c. (to_lower (c_name c), c)) cols)) k"

text \<open>The override branch of the loop, for the override \<open>ov\<close> of \<open>source_column\<close>.\<close>

definition override_length_step ::
  "column \<Rightarrow> column \<Rightarrow> column \<Rightarrow> (widen_error, column option) result" where
  "override_length_step comparison_col dst_col new_col =
     (case c_type comparison_col of
        TypeDecimal \<Rightarrow>
          bind_result (merge_decimal_precision_checked (normalized_decimal comparison_col) (normalized_decimal dst_col))
            (\<lambda>(p, s). if p = c_precision (normalized_decimal dst_col) \<and> s = c_scale dst_col then Inr None
                      else Inr (Some (new_col\<lparr>c_precision := p, c_scale := s\<rparr>)))
      | TypeString \<Rightarrow>
          (if \<not> string_needs_widening (c_max_length comparison_col) (c_max_length dst_col) then Inr None
           else Inr (Some (new_col\<lparr>c_max_length :=
                  widened_string_length (c_max_length comparison_col) (c_max_length dst_col)\<rparr>)))
      | _ \<Rightarrow> Inr None)"

definition compare_override ::
  "(column \<Rightarrow> column) \<Rightarrow> string set \<Rightarrow> column_override \<Rightarrow> column \<Rightarrow> column option
     \<Rightarrow> (compare_error, schema_change list) result" where
  "compare_override norm pks ov source_column dst =
     (let new_col0 = apply_to_column ov source_column;
          comparison_col = norm new_col0
      in case dst of
           None \<Rightarrow>
             (let new_col = new_col0\<lparr>c_nullable := True\<rparr>
              in Inr [mk_change ChangeAddColumn (c_name new_col) None new_col])
         | Some dest_column \<Rightarrow>
             (let dest_col = norm dest_column;
                  relax = c_nullable source_column \<and> \<not> c_nullable dest_column \<and>
                    to_lower (c_name source_column) \<notin> pks \<and> \<not> is_ingestr_column (c_name source_column);
                  new_col = new_col0\<lparr>c_name := c_name dest_column, c_nullable := c_nullable dest_column \<or> relax\<rparr>;
                  pre = (if relax then [mk_change ChangeRelaxNullability (c_name dest_column)
                           (Some dest_column) (dest_column\<lparr>c_nullable := True\<rparr>)] else [])
              in if c_type dest_col = c_type comparison_col
                 then (case override_length_step comparison_col dest_col new_col of
                         Inl e \<Rightarrow> Inl (ColumnError (c_name dest_column) e)
                       | Inr None \<Rightarrow> Inr pre
                       | Inr (Some new_col') \<Rightarrow>
                           Inr (pre @ [mk_change ChangeOverrideType (c_name new_col') (Some dest_column) new_col']))
                 else Inr (pre @ [mk_change ChangeOverrideType (c_name new_col) (Some dest_column) new_col])))"

text \<open>One pass of the loop over the source columns.\<close>

definition compare_source_column ::
  "(column \<Rightarrow> column) \<Rightarrow> column_overrides \<Rightarrow> string set \<Rightarrow> (string \<Rightarrow> column option) \<Rightarrow> column
     \<Rightarrow> (compare_error, schema_change list) result" where
  "compare_source_column norm overrides pks dest_map source_column =
     (let lower_name = to_lower (c_name source_column)
      in case overrides_get overrides (c_name source_column) of
           Some ov \<Rightarrow> compare_override norm pks ov source_column (dest_map lower_name)
         | None \<Rightarrow>
             (case dest_map lower_name of
                None \<Rightarrow> Inr [mk_change ChangeAddColumn (c_name source_column) None (make_nullable source_column)]
              | Some dest_column \<Rightarrow>
                  (let src_col = norm source_column; dest_col = norm dest_column;
                       is_pk = lower_name \<in> pks;
                       relax = (if c_nullable source_column \<and> \<not> c_nullable dest_column \<and> \<not> is_pk \<and>
                                   \<not> is_ingestr_column (c_name source_column)
                                then [mk_change ChangeRelaxNullability (c_name dest_column) (Some dest_column)
                                        (source_column\<lparr>c_name := c_name dest_column\<rparr>)] else [])
                   in if needs_widening src_col dest_col
                      then (case widened_column src_col dest_col of
                              Inl e \<Rightarrow> Inl (ColumnError (c_name dest_column) e)
                            | Inr new_col0 \<Rightarrow>
                                (let new_col = new_col0\<lparr>c_nullable := c_nullable dest_column \<or>
                                       (c_nullable source_column \<and> \<not> is_pk)\<rparr>
                                 in if same_column_type_shape new_col dest_col then Inr relax
                                    else Inr (relax @ [mk_change ChangeWidenType (c_name dest_column)
                                                (Some dest_column) new_col])))
                      else Inr relax)))"

fun compare_columns ::
  "(column \<Rightarrow> column) \<Rightarrow> column_overrides \<Rightarrow> string set \<Rightarrow> (string \<Rightarrow> column option) \<Rightarrow> column list
     \<Rightarrow> (compare_error, schema_change list) result" where
  "compare_columns norm overrides pks dest_map [] = Inr []"
| "compare_columns norm overrides pks dest_map (c # cs) =
     bind_result (compare_source_column norm overrides pks dest_map c)
       (\<lambda>changes. bind_result (compare_columns norm overrides pks dest_map cs)
          (\<lambda>rest. Inr (changes @ rest)))"

definition removed_columns :: "column list \<Rightarrow> column list \<Rightarrow> schema_change list" where
  "removed_columns source_cols dest_cols =
     map (\<lambda>d. mk_change ChangeRemoveColumn (c_name d) (Some d) zero_column)
       (filter (\<lambda>d. \<not> is_ingestr_column (c_name d) \<and>
          to_lower (c_name d) \<notin> (to_lower \<circ> c_name) ` set source_cols) dest_cols)"

definition compare_schemas ::
  "table_schema option \<Rightarrow> table_schema option \<Rightarrow> compare_options option
     \<Rightarrow> (compare_error, schema_comparison) result" where
  "compare_schemas source dest opts =
     (case (source, dest) of
        (Some src, Some dst) \<Rightarrow>
          (let overrides = (case opts of None \<Rightarrow> [] | Some co \<Rightarrow> co_overrides co);
               norm = (case opts of None \<Rightarrow> (\<lambda>col. col)
                       | Some co \<Rightarrow> (case co_normalize co of None \<Rightarrow> (\<lambda>col. col) | Some f \<Rightarrow> f));
               pks = (case opts of None \<Rightarrow> {} | Some co \<Rightarrow> to_lower ` set (co_primary_keys co))
           in bind_result (compare_columns norm overrides pks (column_lookup (ts_columns dst)) (ts_columns src))
                (\<lambda>changes.
                   (let all = changes @ removed_columns (ts_columns src) (ts_columns dst)
                    in Inr \<lparr>cmp_changes = all, cmp_has_changes = (0 < length all)\<rparr>)))
      | _ \<Rightarrow> Inr empty_comparison)"

end
