(* ===== verification/Onelake_Delta.thy ===== *)
theory Onelake_Delta
  imports Onelake_Rows Schema_Compare
begin

text \<open>
  Delta tables of the OneLake destination: the types and the schema of the metadata action
  (\<^verbatim>\<open>destination/onelake/delta.go\<close>), reading it back, the checks before a table is rewritten and
  schema evolution (\<^verbatim>\<open>evolve.go\<close>), and the Arrow types of columns
  (\<^verbatim>\<open>schema.DataTypeToArrowType\<close>, \<open>arrowFieldToColumn\<close>).

  JSON documents are their contents: an action, a schema and a table property are values here, and
  the errors of decoding malformed JSON are left out.
\<close>

subsection \<open>Delta types\<close>

text \<open>A type is its name or an array of a type (with the flag \<open>containsNull\<close>); the objects that
  ingestr does not map (structs, maps) are their JSON text.\<close>

datatype delta_type = DName string | DArray delta_type bool | DObject string

record delta_field =
  df_name :: string
  df_type :: delta_type
  df_nullable :: bool
  df_metadata :: "(string \<times> string) list"

definition decimal_name :: "int \<Rightarrow> int \<Rightarrow> string" where
  "decimal_name p s = ''decimal('' @ itoa p @ '','' @ itoa s @ '')''"

text \<open>\<open>deltaTypeFor\<close> on a type other than an array, and on a column.\<close>

definition scalar_delta_type :: "data_type \<Rightarrow> int \<Rightarrow> int \<Rightarrow> string" where
  "scalar_delta_type t p s =
     (case t of
        TypeBoolean \<Rightarrow> ''boolean'' | TypeInt8 \<Rightarrow> ''byte'' | TypeInt16 \<Rightarrow> ''short'' | TypeInt32 \<Rightarrow> ''integer''
      | TypeInt64 \<Rightarrow> ''long'' | TypeFloat32 \<Rightarrow> ''float'' | TypeFloat64 \<Rightarrow> ''double''
      | TypeDecimal \<Rightarrow> decimal_name (if p = 0 then 38 else p) s
      | TypeBinary \<Rightarrow> ''binary'' | TypeDate \<Rightarrow> ''date'' | TypeTimestamp \<Rightarrow> ''timestamp'' | TypeTimestampTZ \<Rightarrow> ''timestamp''
      | TypeTime \<Rightarrow> ''long'' | _ \<Rightarrow> ''string'')"

text \<open>An array of arrays asks for the element of a column that has no element type: \<open>"string"\<close>.\<close>

definition delta_type_for :: "column \<Rightarrow> delta_type" where
  "delta_type_for col =
     (if c_type col = TypeArray
      then DArray (if c_array_type col = TypeArray
                   then DArray (DName (scalar_delta_type TypeUnknown (c_precision col) (c_scale col))) True
                   else DName (scalar_delta_type (c_array_type col) (c_precision col) (c_scale col))) True
      else DName (scalar_delta_type (c_type col) (c_precision col) (c_scale col)))"

text \<open>\<open>buildSchemaString\<close>, before it is encoded.\<close>

definition delta_schema_of :: "column list \<Rightarrow> delta_field list" where
  "delta_schema_of cols =
     map (\<lambda>c. \<lparr>df_name = c_name c, df_type = delta_type_for c, df_nullable = c_nullable c, df_metadata = []\<rparr>) cols"

subsection \<open>Reading a schema back\<close>

datatype delta_error =
    UnsupportedType string | BadDecimal string | UnsupportedElement | DuplicateColumn string
  | MappingMode string | CannotAdd string | TypeChange string
  | NoProtocol | ProtocolVersion int int | ReaderFeature string | WriterFeature string
  | LogTruncated int | DeletionVector string | Partitioned "string list" | AppendOnly | ChangeDataFeed
  | CheckConstraint string | ColumnInvariant string | GeneratedColumn string | IdentityColumn string

text \<open>The regular expression of a decimal type: \<open>(?i)^decimal(\<close>, a number, a comma, a number and \<open>)\<close>,
  with white space (Go's \<open>\s\<close>, which has no vertical tab) around the numbers.\<close>

definition re_space :: "char \<Rightarrow> bool" where
  "re_space c \<longleftrightarrow> is_space c \<and> (of_char c :: nat) \<noteq> 11"

definition spaced_digits :: "string \<Rightarrow> string \<times> string" where
  "spaced_digits s =
     (let r = dropWhile re_space s in (takeWhile is_digit r, dropWhile re_space (dropWhile is_digit r)))"

definition decimal_match :: "string \<Rightarrow> (string \<times> string) option" where
  "decimal_match s =
     (if to_lower (take 8 s) \<noteq> ''decimal('' then None
      else (case spaced_digits (drop 8 s) of
              (p, r) \<Rightarrow>
                (if p = [] \<or> r = [] \<or> hd r \<noteq> CHR '','' then None
                 else (case spaced_digits (tl r) of
                         (q, r') \<Rightarrow> (if q = [] \<or> r' \<noteq> '')'' then None else Some (p, q))))))"

definition primitive_delta_type :: "string \<Rightarrow> (delta_error, data_type \<times> int \<times> int) result" where
  "primitive_delta_type name =
     (let n = to_lower (trim_space name)
      in if n = ''boolean'' then Inr (TypeBoolean, 0, 0)
         else if n = ''byte'' then Inr (TypeInt8, 0, 0)
         else if n = ''short'' then Inr (TypeInt16, 0, 0)
         else if n = ''integer'' \<or> n = ''int'' then Inr (TypeInt32, 0, 0)
         else if n = ''long'' then Inr (TypeInt64, 0, 0)
         else if n = ''float'' then Inr (TypeFloat32, 0, 0)
         else if n = ''double'' then Inr (TypeFloat64, 0, 0)
         else if n = ''string'' then Inr (TypeString, 0, 0)
         else if n = ''binary'' then Inr (TypeBinary, 0, 0)
         else if n = ''date'' then Inr (TypeDate, 0, 0)
         else if n = ''timestamp'' then Inr (TypeTimestampTZ, 0, 0)
         else if n = ''timestamp_ntz'' then Inr (TypeTimestamp, 0, 0)
         else (case decimal_match name of
                 None \<Rightarrow> Inl (UnsupportedType name)
               | Some (p, s) \<Rightarrow>
                   (case atoi p of
                      None \<Rightarrow> Inl (BadDecimal p)
                    | Some pv \<Rightarrow> (case atoi s of None \<Rightarrow> Inl (BadDecimal s) | Some sv \<Rightarrow> Inr (TypeDecimal, pv, sv)))))"

text \<open>\<open>applyDeltaType\<close> and \<open>columnFromDeltaField\<close>.\<close>

definition apply_delta_type :: "column \<Rightarrow> delta_type \<Rightarrow> (delta_error, column) result" where
  "apply_delta_type col t =
     (case t of
        DName n \<Rightarrow>
          (case primitive_delta_type n of
             Inl e \<Rightarrow> Inl e
           | Inr (dt, p, s) \<Rightarrow> Inr (col\<lparr>c_type := dt, c_precision := p, c_scale := s\<rparr>))
      | DArray elem cn \<Rightarrow>
          (case elem of
             DName n \<Rightarrow>
               (case primitive_delta_type n of
                  Inl e \<Rightarrow> Inl UnsupportedElement
                | Inr (dt, p, s) \<Rightarrow> Inr (col\<lparr>c_type := TypeArray, c_array_type := dt, c_precision := p, c_scale := s\<rparr>))
           | _ \<Rightarrow> Inl UnsupportedElement)
      | DObject json \<Rightarrow> Inl (UnsupportedType json))"

definition column_from_delta_field :: "delta_field \<Rightarrow> (delta_error, column) result" where
  "column_from_delta_field f =
     apply_delta_type (zero_column\<lparr>c_name := df_name f, c_nullable := df_nullable f\<rparr>) (df_type f)"

text \<open>\<open>tableSchemaFromDelta\<close>: two columns that differ in case only are an error, a column that cannot
  be mapped is left out.\<close>

fun delta_columns :: "string set \<Rightarrow> delta_field list \<Rightarrow> (delta_error, column list) result" where
  "delta_columns seen [] = Inr []"
| "delta_columns seen (f # fs) =
     (if to_lower (df_name f) \<in> seen then Inl (DuplicateColumn (df_name f))
      else (case delta_columns (insert (to_lower (df_name f)) seen) fs of
              Inl e \<Rightarrow> Inl e
            | Inr cols \<Rightarrow>
                (case column_from_delta_field f of Inl _ \<Rightarrow> Inr cols | Inr c \<Rightarrow> Inr (c # cols))))"

definition table_schema_from_delta :: "string \<Rightarrow> delta_field list \<Rightarrow> (delta_error, table_schema) result" where
  "table_schema_from_delta table fs =
     (case delta_columns {} fs of
        Inl e \<Rightarrow> Inl e
      | Inr cols \<Rightarrow> Inr \<lparr>ts_name = table, ts_schema = [], ts_columns = cols, ts_primary_keys = [],
                          ts_incremental_key = [], ts_partition_by = []\<rparr>)"

subsection \<open>Normalization for comparison\<close>

definition normalize_one_lake_type :: "data_type \<Rightarrow> data_type" where
  "normalize_one_lake_type t =
     (if t = TypeUUID \<or> t = TypeJSON then TypeString else if t = TypeTime then TypeInt64
      else if t = TypeTimestamp then TypeTimestampTZ else t)"

definition normalize_evolution_column :: "column \<Rightarrow> column" where
  "normalize_evolution_column col0 =
     (let col = col0\<lparr>c_max_length := 0\<rparr>
      in if c_type col = TypeArray then col\<lparr>c_array_type := normalize_one_lake_type (c_array_type col)\<rparr>
         else col\<lparr>c_type := normalize_one_lake_type (c_type col)\<rparr>)"

subsection \<open>Evolving the metadata\<close>

record delta_metadata =
  dm_id :: string
  dm_fields :: "delta_field list"
  dm_partition_columns :: "string list"
  dm_configuration :: "(string \<times> string) list"

definition config_get :: "delta_metadata \<Rightarrow> string \<Rightarrow> string" where
  "config_get md k = (case map_of (dm_configuration md) k of None \<Rightarrow> [] | Some v \<Rightarrow> v)"

text \<open>\<open>deltaColumnMappingMode\<close>, \<open>deltaFieldIndex\<close>, \<open>sameOneLakePhysicalType\<close>.\<close>

definition mapping_mode :: "delta_metadata \<Rightarrow> string" where
  "mapping_mode md = to_lower (trim_space (config_get md ''delta.columnMapping.mode''))"

definition delta_field_index :: "delta_field list \<Rightarrow> string \<Rightarrow> nat option" where
  "delta_field_index fs name = index_where (\<lambda>f. equal_fold (df_name f) name) fs"

definition same_physical_type :: "column \<Rightarrow> column \<Rightarrow> bool" where
  "same_physical_type l r \<longleftrightarrow>
     c_type l \<noteq> TypeUnknown \<and> c_type r \<noteq> TypeUnknown \<and> delta_type_for l = delta_type_for r"

text \<open>One change of the plan applied to the fields, with whether anything changed.\<close>

definition evolve_change :: "delta_field list \<Rightarrow> schema_change \<Rightarrow> (delta_error, delta_field list \<times> bool) result" where
  "evolve_change fs ch =
     (case sc_type ch of
        ChangeAddColumn \<Rightarrow>
          (case delta_field_index fs (sc_column_name ch) of
             Some i \<Rightarrow>
               (case column_from_delta_field (fs ! i) of
                  Inl e \<Rightarrow> Inl e
                | Inr existing \<Rightarrow>
                    (if same_physical_type existing (sc_new ch) then Inr (fs, False)
                     else Inl (CannotAdd (sc_column_name ch))))
           | None \<Rightarrow>
               Inr (fs @ [\<lparr>df_name = c_name (sc_new ch), df_type = delta_type_for (sc_new ch), df_nullable = True,
                           df_metadata = []\<rparr>], True))
      | ChangeRelaxNullability \<Rightarrow>
          (case delta_field_index fs (sc_column_name ch) of
             Some i \<Rightarrow> (if df_nullable (fs ! i) then Inr (fs, False) else Inr (fs[i := (fs ! i)\<lparr>df_nullable := True\<rparr>], True))
           | None \<Rightarrow> Inr (fs, False))
      | ChangeRemoveColumn \<Rightarrow>
          (case delta_field_index fs (sc_column_name ch) of
             Some i \<Rightarrow> (if df_nullable (fs ! i) then Inr (fs, False) else Inr (fs[i := (fs ! i)\<lparr>df_nullable := True\<rparr>], True))
           | None \<Rightarrow> Inr (fs, False))
      | _ \<Rightarrow>
          (case sc_old ch of
             Some old \<Rightarrow> (if same_physical_type old (sc_new ch) then Inr (fs, False) else Inl (TypeChange (sc_column_name ch)))
           | None \<Rightarrow> Inl (TypeChange (sc_column_name ch))))"

fun evolve_fields :: "delta_field list \<Rightarrow> schema_change list \<Rightarrow> (delta_error, delta_field list \<times> bool) result" where
  "evolve_fields fs [] = Inr (fs, False)"
| "evolve_fields fs (ch # chs) =
     (case evolve_change fs ch of
        Inl e \<Rightarrow> Inl e
      | Inr (fs', b) \<Rightarrow> (case evolve_fields fs' chs of Inl e \<Rightarrow> Inl e | Inr (fs'', b') \<Rightarrow> Inr (fs'', b \<or> b')))"

definition evolve_delta_metadata ::
  "delta_metadata \<Rightarrow> schema_comparison option \<Rightarrow> (delta_error, delta_metadata \<times> bool) result" where
  "evolve_delta_metadata md cmp =
     (case cmp of
        None \<Rightarrow> Inr (md, False)
      | Some c \<Rightarrow>
          (if \<not> cmp_has_changes c then Inr (md, False)
           else if mapping_mode md \<noteq> [] \<and> mapping_mode md \<noteq> ''none'' then Inl (MappingMode (mapping_mode md))
           else (case evolve_fields (dm_fields md) (cmp_changes c) of
                   Inl e \<Rightarrow> Inl e
                 | Inr (fs, changed) \<Rightarrow> (if changed then Inr (md\<lparr>dm_fields := fs\<rparr>, True) else Inr (md, False)))))"

subsection \<open>Checks before a rewrite\<close>

record delta_protocol =
  dp_min_reader :: int
  dp_min_writer :: int
  dp_reader_features :: "string list"
  dp_writer_features :: "string list"

definition max_reader_version :: int where "max_reader_version = 3"
definition max_writer_version :: int where "max_writer_version = 7"

definition supported_reader_features :: "string list" where
  "supported_reader_features =
     [''columnmapping'', ''deletionvectors'', ''timestampntz'', ''v2checkpoint'', ''vacuumprotocolcheck'']"

definition supported_writer_features :: "string list" where
  "supported_writer_features =
     [''appendonly'', ''changedatafeed'', ''checkconstraints'', ''clustering'', ''columnmapping'', ''deletionvectors'',
      ''domainmetadata'', ''generatedcolumns'', ''identitycolumns'', ''invariants'', ''timestampntz'', ''v2checkpoint'',
      ''vacuumprotocolcheck'']"

definition check_supported_protocol :: "delta_protocol option \<Rightarrow> delta_error option" where
  "check_supported_protocol p =
     (case p of
        None \<Rightarrow> Some NoProtocol
      | Some pr \<Rightarrow>
          (if max_reader_version < dp_min_reader pr \<or> max_writer_version < dp_min_writer pr
           then Some (ProtocolVersion (dp_min_reader pr) (dp_min_writer pr))
           else (case find (\<lambda>f. to_lower f \<notin> set supported_reader_features) (dp_reader_features pr) of
                   Some f \<Rightarrow> Some (ReaderFeature f)
                 | None \<Rightarrow>
                     (case find (\<lambda>f. to_lower f \<notin> set supported_writer_features) (dp_writer_features pr) of
                        Some f \<Rightarrow> Some (WriterFeature f)
                      | None \<Rightarrow> None))))"

text \<open>The loop over the metadata of the fields; Go's order of the keys of one field is not fixed, here
  it is that of the list.\<close>

definition field_hazard :: "delta_field \<Rightarrow> string \<Rightarrow> delta_error option" where
  "field_hazard f key =
     (let k = to_lower key
      in if k = ''delta.invariants'' then Some (ColumnInvariant (df_name f))
         else if k = ''delta.generationexpression'' then Some (GeneratedColumn (df_name f))
         else if has_prefix k ''delta.identity.'' then Some (IdentityColumn (df_name f)) else None)"

fun first_hazard :: "delta_field list \<Rightarrow> delta_error option" where
  "first_hazard [] = None"
| "first_hazard (f # fs) =
     (case List.map_filter (field_hazard f) (map fst (df_metadata f)) of
        e # _ \<Rightarrow> Some e
      | [] \<Rightarrow> first_hazard fs)"

text \<open>\<open>checkRewritableDeltaTable\<close>, on the parts of the snapshot it reads.\<close>

definition check_rewritable ::
  "delta_protocol option \<Rightarrow> int \<Rightarrow> string list \<Rightarrow> delta_metadata \<Rightarrow> delta_error option" where
  "check_rewritable protocol first_version dv_files md =
     (case check_supported_protocol protocol of
        Some e \<Rightarrow> Some e
      | None \<Rightarrow>
          (if first_version \<noteq> 0 then Some (LogTruncated first_version)
           else if dv_files \<noteq> [] then Some (DeletionVector (hd dv_files))
           else if mapping_mode md \<noteq> [] \<and> mapping_mode md \<noteq> ''none'' then Some (MappingMode (mapping_mode md))
           else if dm_partition_columns md \<noteq> [] then Some (Partitioned (dm_partition_columns md))
           else if equal_fold (config_get md ''delta.appendOnly'') ''true'' then Some AppendOnly
           else if equal_fold (config_get md ''delta.enableChangeDataFeed'') ''true'' then Some ChangeDataFeed
           else (case find (\<lambda>k. has_prefix (to_lower k) ''delta.constraints.'') (map fst (dm_configuration md)) of
                   Some k \<Rightarrow> Some (CheckConstraint k)
                 | None \<Rightarrow> first_hazard (dm_fields md))))"


subsection \<open>Arrow types of columns\<close>

text \<open>\<open>DataTypeToArrowType\<close>, with the conversion of precision and scale to \<open>int32\<close>.\<close>

definition wrap32 :: "int \<Rightarrow> int" where
  "wrap32 x = (x + 2147483648) mod 4294967296 - 2147483648"

definition decimal_arrow_type :: "int \<Rightarrow> int \<Rightarrow> arrow_type" where
  "decimal_arrow_type p0 s0 =
     (let s = wrap32 s0; p = (if wrap32 p0 = 0 then 38 else wrap32 p0)
      in if 38 < p then ADecimal256 (if 76 < p then 76 else p) s else ADecimal128 p s)"

definition scalar_arrow_type :: "data_type \<Rightarrow> int \<Rightarrow> int \<Rightarrow> arrow_type" where
  "scalar_arrow_type t p s =
     (case t of
        TypeUnknown \<Rightarrow> AUnknown | TypeBoolean \<Rightarrow> ABool | TypeInt8 \<Rightarrow> AInt8 | TypeInt16 \<Rightarrow> AInt16 | TypeInt32 \<Rightarrow> AInt32
      | TypeInt64 \<Rightarrow> AInt64 | TypeFloat32 \<Rightarrow> AFloat32 | TypeFloat64 \<Rightarrow> AFloat64 | TypeDecimal \<Rightarrow> decimal_arrow_type p s
      | TypeJSON \<Rightarrow> AJson | TypeBinary \<Rightarrow> ABinary | TypeDate \<Rightarrow> ADate32 | TypeTime \<Rightarrow> ATime64 UMicro
      | TypeTimestamp \<Rightarrow> ATimestamp UMicro [] | TypeTimestampTZ \<Rightarrow> ATimestamp UMicro ''UTC'' | _ \<Rightarrow> AString)"

text \<open>An array of arrays again asks for the element of a column without element type.\<close>

definition data_type_to_arrow :: "column \<Rightarrow> arrow_type" where
  "data_type_to_arrow col =
     (if c_type col = TypeArray
      then AList (if c_array_type col = TypeArray then AList AUnknown
                  else scalar_arrow_type (c_array_type col) (c_precision col) (c_scale col))
      else scalar_arrow_type (c_type col) (c_precision col) (c_scale col))"

text \<open>\<open>ToArrowSchema\<close>.\<close>

definition to_arrow_schema :: "column list \<Rightarrow> field list" where
  "to_arrow_schema cols =
     map (\<lambda>c. \<lparr>fl_name = c_name c, fl_type = data_type_to_arrow c, fl_nullable = c_nullable c\<rparr>) cols"

text \<open>\<open>arrowFieldToColumn\<close>: type, precision and scale of an Arrow type.\<close>

fun arrow_to_data_type :: "arrow_type \<Rightarrow> data_type \<times> int \<times> int" where
  "arrow_to_data_type ABool = (TypeBoolean, 0, 0)"
| "arrow_to_data_type AInt8 = (TypeInt8, 0, 0)"
| "arrow_to_data_type AInt16 = (TypeInt16, 0, 0)"
| "arrow_to_data_type AInt32 = (TypeInt32, 0, 0)"
| "arrow_to_data_type AInt64 = (TypeInt64, 0, 0)"
| "arrow_to_data_type AFloat32 = (TypeFloat32, 0, 0)"
| "arrow_to_data_type AFloat64 = (TypeFloat64, 0, 0)"
| "arrow_to_data_type (ADecimal128 p s) = (TypeDecimal, p, s)"
| "arrow_to_data_type (ADecimal256 p s) = (TypeDecimal, p, s)"
| "arrow_to_data_type ABinary = (TypeBinary, 0, 0)"
| "arrow_to_data_type ALargeBinary = (TypeBinary, 0, 0)"
| "arrow_to_data_type ADate32 = (TypeDate, 0, 0)"
| "arrow_to_data_type ADate64 = (TypeDate, 0, 0)"
| "arrow_to_data_type (ATime32 u) = (TypeTime, 0, 0)"
| "arrow_to_data_type (ATime64 u) = (TypeTime, 0, 0)"
| "arrow_to_data_type (ATimestamp u z) = (if z \<noteq> [] then TypeTimestampTZ else TypeTimestamp, 0, 0)"
| "arrow_to_data_type (AList e) = (TypeArray, snd (arrow_to_data_type e))"
| "arrow_to_data_type t = (TypeString, 0, 0)"

definition arrow_field_to_column :: "field \<Rightarrow> column" where
  "arrow_field_to_column f =
     (case arrow_to_data_type (fl_type f) of
        (t, p, s) \<Rightarrow>
          zero_column\<lparr>c_name := fl_name f, c_nullable := fl_nullable f, c_type := t, c_precision := p, c_scale := s,
            c_array_type := (case fl_type f of AList e \<Rightarrow> fst (arrow_to_data_type e) | _ \<Rightarrow> TypeUnknown)\<rparr>)"

end
