(* ===== verification/Evolution.thy ===== *)
theory Evolution
  imports Schema_Compare
begin

text \<open>
  \<^verbatim>\<open>pkg/schemaevolution/plan.go\<close>, \<^verbatim>\<open>evolve.go\<close> and \<^verbatim>\<open>contract.go\<close>: what a list of changes makes
  of the destination schema, the part of it a destination can apply, and the schema contract
  that decides which changes are allowed.
\<close>

subsection \<open>plan.go\<close>

record evolution_plan =
  ep_table :: string
  ep_comparison :: "schema_comparison option"
  ep_final_schema :: "table_schema option"

definition plan_has_changes :: "evolution_plan option \<Rightarrow> bool" where
  "plan_has_changes p =
     (case p of None \<Rightarrow> False
      | Some plan \<Rightarrow>
          (case ep_comparison plan of None \<Rightarrow> False | Some cmp \<Rightarrow> 0 < length (cmp_changes cmp)))"

text \<open>Only the first column of the name is changed. The callers ignore the result flag.\<close>

fun apply_column_change :: "column list \<Rightarrow> string \<Rightarrow> (column \<Rightarrow> column) \<Rightarrow> column list" where
  "apply_column_change [] name f = []"
| "apply_column_change (c # cs) name f =
     (if \<not> equal_fold (c_name c) name then c # apply_column_change cs name f else f c # cs)"

definition apply_schema_change :: "column list \<Rightarrow> schema_change \<Rightarrow> column list" where
  "apply_schema_change cols change =
     (case sc_type change of
        ChangeAddColumn \<Rightarrow> cols @ [sc_new change]
      | ChangeWidenType \<Rightarrow>
          apply_column_change cols (sc_column_name change) (\<lambda>col. (sc_new change)\<lparr>c_name := c_name col\<rparr>)
      | ChangeOverrideType \<Rightarrow>
          apply_column_change cols (sc_column_name change) (\<lambda>col. (sc_new change)\<lparr>c_name := c_name col\<rparr>)
      | ChangeRemoveColumn \<Rightarrow>
          apply_column_change cols (sc_column_name change) (\<lambda>col. col\<lparr>c_nullable := True\<rparr>)
      | ChangeRelaxNullability \<Rightarrow>
          apply_column_change cols (sc_column_name change) (\<lambda>col. col\<lparr>c_nullable := True\<rparr>))"

definition build_final_schema :: "table_schema option \<Rightarrow> schema_comparison option \<Rightarrow> table_schema option" where
  "build_final_schema dest comparison =
     (case dest of
        None \<Rightarrow> None
      | Some ts \<Rightarrow>
          (case comparison of
             None \<Rightarrow> Some ts
           | Some cmp \<Rightarrow>
               (if \<not> cmp_has_changes cmp then Some ts
                else Some (ts\<lparr>ts_columns := foldl apply_schema_change (ts_columns ts) (cmp_changes cmp)\<rparr>))))"

subsection \<open>evolve.go\<close>

definition is_type_change :: "schema_change \<Rightarrow> bool" where
  "is_type_change ch \<longleftrightarrow> sc_type ch = ChangeWidenType \<or> sc_type ch = ChangeOverrideType"

definition applicable_comparison :: "schema_comparison option \<Rightarrow> bool \<Rightarrow> schema_comparison" where
  "applicable_comparison comparison supports_type_changes =
     (case comparison of
        None \<Rightarrow> empty_comparison
      | Some cmp \<Rightarrow>
          (if \<not> cmp_has_changes cmp then empty_comparison
           else (let filtered = filter (\<lambda>ch. \<not> (is_type_change ch \<and> \<not> supports_type_changes)) (cmp_changes cmp)
                 in \<lparr>cmp_changes = filtered, cmp_has_changes = (0 < length filtered)\<rparr>)))"

subsection \<open>contract.go\<close>

datatype contract_mode = ContractEvolve | ContractFreeze | ContractDiscardRow | ContractDiscardValue

fun mode_string :: "contract_mode \<Rightarrow> string" where
  "mode_string ContractEvolve = ''evolve''"
| "mode_string ContractFreeze = ''freeze''"
| "mode_string ContractDiscardRow = ''discard_row''"
| "mode_string ContractDiscardValue = ''discard_value''"

datatype contract_error = UnknownContractMode string | ContractViolated string

definition parse_contract_mode :: "string \<Rightarrow> (contract_error, contract_mode) result" where
  "parse_contract_mode s =
     (let m = to_lower (trim_space s)
      in if m = [] \<or> m = ''evolve'' then Inr ContractEvolve
         else if m = ''freeze'' then Inr ContractFreeze
         else if m = ''discard_row'' \<or> m = ''discard-row'' then Inr ContractDiscardRow
         else if m = ''discard_value'' \<or> m = ''discard-value'' then Inr ContractDiscardValue
         else Inl (UnknownContractMode s))"

record contract_violation =
  cv_column_name :: string
  cv_change_type :: change_type
  cv_description :: string

record contract_result =
  cr_mode :: contract_mode
  cr_violations :: "contract_violation list"
  cr_allowed :: "schema_change list"

definition is_internal_allowed_change :: "schema_change \<Rightarrow> bool" where
  "is_internal_allowed_change ch \<longleftrightarrow>
     sc_type ch = ChangeAddColumn \<and>
     (equal_fold (sc_column_name ch) ingestr_loaded_at_column \<or>
      equal_fold (sc_column_name ch) ingestr_run_id_column)"

definition is_discard_row_allowed_change :: "schema_change \<Rightarrow> bool" where
  "is_discard_row_allowed_change ch \<longleftrightarrow>
     sc_type ch = ChangeRemoveColumn \<or> sc_type ch = ChangeRelaxNullability \<or>
     is_internal_allowed_change ch"

definition describe_change :: "schema_change \<Rightarrow> string" where
  "describe_change ch =
     (case sc_type ch of
        ChangeAddColumn \<Rightarrow> ''new column detected (type: '' @ type_string (c_type (sc_new ch)) @ '')''
      | ChangeWidenType \<Rightarrow>
          (case sc_old ch of
             Some old \<Rightarrow> ''type change from '' @ type_string (c_type old) @ '' to '' @
               type_string (c_type (sc_new ch))
           | None \<Rightarrow> ''type widened to '' @ type_string (c_type (sc_new ch)))
      | ChangeOverrideType \<Rightarrow>
          (case sc_old ch of
             Some old \<Rightarrow> ''type override from '' @ type_string (c_type old) @ '' to '' @
               type_string (c_type (sc_new ch))
           | None \<Rightarrow> ''type override to '' @ type_string (c_type (sc_new ch)))
      | ChangeRemoveColumn \<Rightarrow> ''column removed from source (future values will be NULL)''
      | ChangeRelaxNullability \<Rightarrow> ''column changed from required to optional'')"

definition violation :: "string \<Rightarrow> schema_change \<Rightarrow> contract_violation" where
  "violation sfx ch = \<lparr>cv_column_name = sc_column_name ch, cv_change_type = sc_type ch,
     cv_description = describe_change ch @ sfx\<rparr>"

text \<open>The loop that the three restrictive modes share: allowed changes and violations, each in
  the order of the changes.\<close>

fun split_changes ::
  "(schema_change \<Rightarrow> bool) \<Rightarrow> string \<Rightarrow> schema_change list \<Rightarrow> contract_violation list \<times> schema_change list" where
  "split_changes allowed sfx [] = ([], [])"
| "split_changes allowed sfx (ch # chs) =
     (let (vs, as) = split_changes allowed sfx chs
      in if allowed ch then (vs, ch # as) else (violation sfx ch # vs, as))"

definition discard_value_allowed :: "schema_change \<Rightarrow> bool" where
  "discard_value_allowed ch \<longleftrightarrow>
     sc_type ch = ChangeAddColumn \<or> sc_type ch = ChangeRemoveColumn \<or> sc_type ch = ChangeRelaxNullability"

definition apply_contract :: "contract_mode \<Rightarrow> schema_comparison option \<Rightarrow> contract_result" where
  "apply_contract mode comparison =
     (case comparison of
        None \<Rightarrow> \<lparr>cr_mode = mode, cr_violations = [], cr_allowed = []\<rparr>
      | Some cmp \<Rightarrow>
          (if \<not> cmp_has_changes cmp then \<lparr>cr_mode = mode, cr_violations = [], cr_allowed = []\<rparr>
           else (let (vs, as) =
                   (case mode of
                      ContractEvolve \<Rightarrow> ([], cmp_changes cmp)
                    | ContractFreeze \<Rightarrow> split_changes is_internal_allowed_change [] (cmp_changes cmp)
                    | ContractDiscardRow \<Rightarrow>
                        split_changes is_discard_row_allowed_change
                          '' (rows with this column will be discarded)'' (cmp_changes cmp)
                    | ContractDiscardValue \<Rightarrow>
                        split_changes discard_value_allowed
                          '' (non-conforming values will be set to NULL)'' (cmp_changes cmp))
                 in \<lparr>cr_mode = mode, cr_violations = vs, cr_allowed = as\<rparr>)))"

definition has_violations :: "contract_result \<Rightarrow> bool" where
  "has_violations r \<longleftrightarrow> 0 < length (cr_violations r)"

text \<open>\<open>ViolationError\<close>: nil (\<open>None\<close>) without violations.\<close>

definition violation_error :: "contract_result \<Rightarrow> contract_error option" where
  "violation_error r =
     (if \<not> has_violations r then None
      else Some (ContractViolated
        (''schema contract violation (mode='' @ mode_string (cr_mode r) @ ''):'' @ [CHR 0x0A] @
         join [CHR 0x0A] (map (\<lambda>v. ''  - '' @ cv_column_name v @ '': '' @ cv_description v) (cr_violations r)))))"

subsection \<open>Contracts partition the changes\<close>

lemma split_changes_filter:
  "split_changes allowed sfx chs =
     (map (violation sfx) (filter (\<lambda>ch. \<not> allowed ch) chs), filter allowed chs)"
  by (induction chs) simp_all

definition contract_allows :: "contract_mode \<Rightarrow> schema_change \<Rightarrow> bool" where
  "contract_allows mode =
     (case mode of
        ContractEvolve \<Rightarrow> (\<lambda>_. True)
      | ContractFreeze \<Rightarrow> is_internal_allowed_change
      | ContractDiscardRow \<Rightarrow> is_discard_row_allowed_change
      | ContractDiscardValue \<Rightarrow> discard_value_allowed)"

lemma apply_contract_allowed:
  "cmp_has_changes cmp \<Longrightarrow>
     cr_allowed (apply_contract mode (Some cmp)) = filter (contract_allows mode) (cmp_changes cmp)"
  by (cases mode) (simp_all add: apply_contract_def split_changes_filter contract_allows_def)

lemma apply_contract_violations:
  "cmp_has_changes cmp \<Longrightarrow>
     map (\<lambda>v. (cv_column_name v, cv_change_type v)) (cr_violations (apply_contract mode (Some cmp))) =
     map (\<lambda>ch. (sc_column_name ch, sc_type ch)) (filter (\<lambda>ch. \<not> contract_allows mode ch) (cmp_changes cmp))"
  by (cases mode)
    (simp_all add: apply_contract_def split_changes_filter contract_allows_def violation_def comp_def)

lemma contract_allows_mono:
  "contract_allows ContractFreeze ch \<Longrightarrow> contract_allows ContractDiscardRow ch"
  "contract_allows ContractDiscardRow ch \<Longrightarrow> contract_allows ContractDiscardValue ch"
  "contract_allows ContractDiscardValue ch \<Longrightarrow> contract_allows ContractEvolve ch"
  by (auto simp: contract_allows_def is_discard_row_allowed_change_def discard_value_allowed_def
      is_internal_allowed_change_def)

lemma parse_mode_string: "parse_contract_mode (mode_string m) = Inr m"
  by (cases m) (simp_all add: parse_contract_mode_def to_lower_def lower_char_def is_upper_def
      trim_space_no_space is_space_def)

lemma applicable_supported:
  "cmp_has_changes cmp \<Longrightarrow> cmp_has_changes cmp = (cmp_changes cmp \<noteq> []) \<Longrightarrow>
     applicable_comparison (Some cmp) True = cmp"
  by (simp add: applicable_comparison_def)

lemma applicable_has_changes:
  "cmp_has_changes (applicable_comparison c b) \<longleftrightarrow> cmp_changes (applicable_comparison c b) \<noteq> []"
  by (auto simp: applicable_comparison_def empty_comparison_def Let_def split: option.splits)

lemma build_final_schema_None: "build_final_schema d None = d"
  by (cases d) (simp_all add: build_final_schema_def)


subsection \<open>Properties\<close>

text \<open>A contract splits the changes, losing and inventing none: what it allows is the subsequence of
  the allowed changes, what it reports is one violation for every other change, in order, and there is
  an error exactly when one was refused. A stricter mode allows no change that a laxer one refuses
  (freeze, discard row, discard value, evolve), and an evolving contract allows everything.\<close>

theorem contract_splits_changes:
  assumes "cmp_has_changes cmp"
  shows "cr_allowed (apply_contract mode (Some cmp)) = filter (contract_allows mode) (cmp_changes cmp) \<and>
    map (\<lambda>v. (cv_column_name v, cv_change_type v)) (cr_violations (apply_contract mode (Some cmp))) =
      map (\<lambda>ch. (sc_column_name ch, sc_type ch)) (filter (\<lambda>ch. \<not> contract_allows mode ch) (cmp_changes cmp)) \<and>
    (violation_error (apply_contract mode (Some cmp)) = None \<longleftrightarrow> (\<forall>ch \<in> set (cmp_changes cmp). contract_allows mode ch)) \<and>
    (contract_allows ContractFreeze ch \<longrightarrow> contract_allows ContractDiscardRow ch) \<and>
    (contract_allows ContractDiscardRow ch \<longrightarrow> contract_allows ContractDiscardValue ch) \<and>
    contract_allows ContractEvolve ch"
proof -
  have "cr_violations (apply_contract mode (Some cmp)) = [] \<longleftrightarrow> filter (\<lambda>ch. \<not> contract_allows mode ch) (cmp_changes cmp) = []"
    using arg_cong [OF apply_contract_violations [OF assms, of mode], of "\<lambda>l. l = []"] by simp
  then have "violation_error (apply_contract mode (Some cmp)) = None \<longleftrightarrow> (\<forall>ch \<in> set (cmp_changes cmp). contract_allows mode ch)"
    by (auto simp: violation_error_def has_violations_def filter_empty_conv)
  then show ?thesis
    using apply_contract_allowed [OF assms] apply_contract_violations [OF assms] contract_allows_mono [of ch]
      contract_allows_def [of ContractEvolve] by simp
qed

theorem contract_splits_changes_witness:
  "cr_allowed (apply_contract ContractFreeze (Some \<lparr>cmp_changes = [mk_change ChangeRemoveColumn ''a'' None zero_column],
     cmp_has_changes = True\<rparr>)) = []"
proof -
  let ?cmp = "\<lparr>cmp_changes = [mk_change ChangeRemoveColumn ''a'' None zero_column], cmp_has_changes = True\<rparr>"
  have "cmp_has_changes ?cmp" by simp
  from contract_splits_changes [OF this, of ContractFreeze] show ?thesis
    by (simp add: contract_allows_def is_internal_allowed_change_def)
qed

end
