(* ===== verification/Evolution_Converges.thy ===== *)
theory Evolution_Converges
  imports Evolution
begin

text \<open>
  Schema evolution converges: after a destination has applied the changes that \<open>Compare\<close>
  reports, a second comparison of the same source reports nothing but the columns the source
  does not have. The column-level half is that \<open>widenedColumn\<close> absorbs: the widened column
  needs no further widening. The table-level half follows the changes through
  \<open>BuildFinalSchema\<close> by column name.
\<close>

subsection \<open>Widened columns absorb\<close>

definition column_wf :: "column \<Rightarrow> bool" where
  "column_wf c \<longleftrightarrow> 0 \<le> c_precision c"

text \<open>The merge of two decimals covers both, so merging again changes nothing.\<close>

definition dec_covers :: "column \<Rightarrow> int \<Rightarrow> int \<Rightarrow> bool" where
  "dec_covers c p s \<longleftrightarrow> c_scale c \<le> s \<and> c_precision c - c_scale c \<le> p - s"

lemma merge_covers:
  "merge_decimal_precision_checked a b = Inr (p, s) \<Longrightarrow> dec_covers a p s \<and> dec_covers b p s \<and> p \<le> 76"
  using merge_checked_bounds [of a b p s] merge_decimal_precision_bounds [of a b p s]
  by (simp add: dec_covers_def)

lemma merge_again:
  assumes "dec_covers a p s" "p \<le> 76" "c_precision b = p" "c_scale b = s" "0 < p"
  shows "merge_decimal_precision_checked a b = Inr (p, s)"
proof -
  have "c_precision a \<le> p" using assms(1) by (simp add: dec_covers_def)
  then have "merge_decimal_precision a b = (p, s)"
    using assms by (auto simp: merge_decimal_precision_def dec_covers_def Let_def)
  then show ?thesis using assms(2) by (simp add: merge_decimal_precision_checked_def)
qed

lemma normalized_decimal_pos: "column_wf c \<Longrightarrow> 0 < c_precision (normalized_decimal c)"
  by (auto simp: column_wf_def normalized_decimal_def)

lemma normalized_decimal_id: "c_precision c \<noteq> 0 \<Longrightarrow> normalized_decimal c = c"
  by (simp add: normalized_decimal_def)

lemma normalized_scale [simp]: "c_scale (normalized_decimal c) = c_scale c"
  by (simp add: normalized_decimal_def)

lemma decimal_representation_pos:
  "column_wf c \<Longrightarrow> decimal_representation c = Some d \<Longrightarrow> 0 < c_precision d"
  by (auto simp: decimal_representation_def normalized_decimal_pos split: data_type.splits)

lemma decimal_representation_Some:
  "can_widen t TypeDecimal \<Longrightarrow> \<not> is_floating_type t \<Longrightarrow> c_type c = t \<Longrightarrow>
     \<exists>d. decimal_representation c = Some d"
  by (cases t) (auto simp: can_widen_def is_floating_type_def decimal_representation_def)

lemma can_widen_Decimal_known: "can_widen t TypeDecimal \<Longrightarrow> t \<noteq> TypeUnknown"
  by (auto simp: can_widen_Unknown)

lemma widened_Decimal:
  assumes "widened a b = TypeDecimal"
  shows "can_widen a TypeDecimal \<and> can_widen b TypeDecimal"
proof -
  have "a \<noteq> TypeUnknown" "b \<noteq> TypeUnknown"
    using assms widened_Unknown_left [of a] widened_Unknown_left [of b] get_widened_type_sym [of a b]
    by (auto split: if_splits)
  then show ?thesis using widened_upper_bound [of a b] assms by simp
qed

lemma dec_covers_pos:
  assumes "dec_covers a p s" "dec_covers b p s" "0 < c_precision a"
  shows "0 < p"
  using assms by (simp add: dec_covers_def)

lemma merge_types_ok:
  assumes "widened (c_type a) (c_type b) = TypeDecimal"
    and "\<not> is_floating_type (c_type a)" "\<not> is_floating_type (c_type b)"
    and "merge_decimal_types_checked a b = Inr (p, s)" "column_wf a" "column_wf b"
  obtains da where "decimal_representation a = Some da" "dec_covers da p s" "p \<le> 76" "0 < p"
proof -
  obtain da where da: "decimal_representation a = Some da"
    using widened_Decimal [OF assms(1)] assms(2) decimal_representation_Some by blast
  obtain db where db: "decimal_representation b = Some db"
    using widened_Decimal [OF assms(1)] assms(3) decimal_representation_Some by blast
  have "merge_decimal_precision_checked da db = Inr (p, s)"
    using assms(4) da db by (simp add: merge_decimal_types_checked_def)
  note c = merge_covers [OF this]
  have "0 < c_precision da" using decimal_representation_pos assms(5) da by blast
  then have "0 < p" using c dec_covers_pos by blast
  then show ?thesis using that da c by blast
qed

lemma widened_string_stable:
  "\<not> string_needs_widening a (widened_string_length a b)" "\<not> string_needs_widening a 0"
  by (auto simp: string_needs_widening_def widened_string_length_def)

text \<open>What \<open>widened_column\<close> leaves of a column that is not an array: a string long enough for
  the source, a decimal that covers the source, or another type the source's type widens to.\<close>

definition absorbed :: "column \<Rightarrow> column \<Rightarrow> bool" where
  "absorbed src c \<longleftrightarrow>
     (c_type c = TypeString \<and> widened (c_type src) TypeString = TypeString \<and>
        (if c_type src = TypeString then \<not> string_needs_widening (c_max_length src) (c_max_length c)
         else c_max_length c = 0)) \<or>
     (c_type c = TypeDecimal \<and> \<not> is_floating_type (c_type src) \<and>
        widened (c_type src) TypeDecimal = TypeDecimal \<and> c_precision c \<le> 76 \<and> 0 < c_precision c \<and>
        (\<exists>da. decimal_representation src = Some da \<and> dec_covers da (c_precision c) (c_scale c))) \<or>
     (c_type c \<noteq> TypeString \<and> c_type c \<noteq> TypeDecimal \<and> c_type c \<noteq> TypeArray \<and>
        widened (c_type src) (c_type c) = c_type c)"

lemma widened_not_array:
  assumes "widened (c_type src) (c_type dst) = t" "t \<noteq> TypeArray"
    and "widened_column src dst = Inr c" "column_wf src" "column_wf dst"
  shows "absorbed src c"
proof -
  have abs: "widened (c_type src) t = t" using assms(1) widened_absorb by metis
  note t = assms(1)
  consider (flt) "t = TypeDecimal" "is_floating_type (c_type src) \<or> is_floating_type (c_type dst)"
    | (dec) "t = TypeDecimal" "\<not> is_floating_type (c_type src)" "\<not> is_floating_type (c_type dst)"
    | (str) "t = TypeString" | (oth) "t \<noteq> TypeString \<and> t \<noteq> TypeDecimal \<and> t \<noteq> TypeArray"
    using assms(2) by metis
  then show ?thesis
  proof cases
    case flt
    have "can_widen (c_type src) TypeDecimal" using widened_Decimal flt(1) t by metis
    then have s: "c_type src \<noteq> TypeString" "widened (c_type src) TypeString = TypeString"
      by (auto simp: can_widen_def intro!: widened_to_right) (cases "c_type src"; simp)
    have "c_type c = TypeString \<and> c_max_length c = 0"
      using assms(3) flt t by (auto simp: widened_column_def Let_def)
    then show ?thesis using s by (simp add: absorbed_def)
  next
    case dec
    obtain p s where m: "merge_decimal_types_checked src dst = Inr (p, s)"
      and c: "c_type c = TypeDecimal" "c_precision c = p" "c_scale c = s"
      using assms(3) dec t by (auto simp: widened_column_def Let_def bind_result_Inr_iff)
    obtain da where "decimal_representation src = Some da" "dec_covers da p s" "p \<le> 76" "0 < p"
      using merge_types_ok [of src dst p s] dec t m assms(4,5) by metis
    then show ?thesis using c dec abs by (auto simp: absorbed_def)
  next
    case str
    have c: "c_type c = TypeString"
      "c_max_length c = (if c_type src = TypeString \<and> c_type dst = TypeString
         then widened_string_length (c_max_length src) (c_max_length dst) else 0)"
      using assms(3) str t by (auto simp: widened_column_def set_string_length_def Let_def)
    then show ?thesis using abs str by (simp add: widened_string_stable absorbed_def)
  next
    case oth
    then have "c_type c = t" using assms(3) t by (auto simp: widened_column_def Let_def)
    then show ?thesis using oth abs by (simp add: absorbed_def)
  qed
qed

lemma absorbed_again:
  assumes "absorbed src c" "needs_widening src c"
  shows "\<exists>c'. widened_column src c = Inr c' \<and> same_column_type_shape c' c"
proof -
  consider (str) "c_type c = TypeString" "widened (c_type src) TypeString = TypeString"
      "if c_type src = TypeString then \<not> string_needs_widening (c_max_length src) (c_max_length c)
         else c_max_length c = 0"
    | (dec) da where "c_type c = TypeDecimal" "\<not> is_floating_type (c_type src)"
        "widened (c_type src) TypeDecimal = TypeDecimal" "c_precision c \<le> 76" "0 < c_precision c"
        "decimal_representation src = Some da" "dec_covers da (c_precision c) (c_scale c)"
    | (oth) "c_type c \<noteq> TypeString" "c_type c \<noteq> TypeDecimal" "c_type c \<noteq> TypeArray"
        "widened (c_type src) (c_type c) = c_type c"
    using assms(1) unfolding absorbed_def by blast
  then show ?thesis
  proof cases
    case str
    then show ?thesis using assms(2)
      by (cases "c_type src = TypeString")
        (auto simp: needs_widening_def widened_column_def set_string_length_def same_column_type_shape_def Let_def)
  next
    case dec
    have "decimal_representation c = Some c"
      using dec by (simp add: decimal_representation_def normalized_decimal_def)
    then have "merge_decimal_types_checked src c = Inr (c_precision c, c_scale c)"
      using dec merge_again [of da "c_precision c" "c_scale c" c] by (simp add: merge_decimal_types_checked_def)
    then show ?thesis
      using dec by (auto simp: widened_column_def same_column_type_shape_def is_floating_type_def Let_def)
  next
    case oth
    then show ?thesis
      by (auto simp: widened_column_def same_column_type_shape_def Let_def split: data_type.splits)
  qed
qed

text \<open>Arrays: the element columns are widened the way the columns themselves are.\<close>

definition same_element :: "column \<Rightarrow> column \<Rightarrow> bool" where
  "same_element c e \<longleftrightarrow> c_array_type c = c_type e \<and>
     (c_type e = TypeDecimal \<longrightarrow> c_precision c = c_precision e \<and> c_scale c = c_scale e) \<and>
     (c_type e = TypeString \<longrightarrow> c_max_length c = c_max_length e)"

lemma element_sel [simp]:
  "c_type (array_element_column c) = c_array_type c"
  "c_precision (array_element_column c) = c_precision c" "c_scale (array_element_column c) = c_scale c"
  "c_max_length (array_element_column c) = c_max_length c"
  by (simp_all add: array_element_column_def)

lemma widened_array_elements:
  assumes "widened (c_array_type src) (c_array_type dst) \<noteq> TypeArray"
  shows "(case widened_array_column src dst r of
      Inl e \<Rightarrow> widened_column (array_element_column src) (array_element_column dst) = Inl e
    | Inr c \<Rightarrow> c_type c = c_type r \<and> (\<exists>e. widened_column (array_element_column src) (array_element_column dst) = Inr e
                 \<and> same_element c e))"
proof -
  define m where "m = merge_decimal_types_checked (array_element_column src) (array_element_column dst)"
  consider (arr) "widened (c_array_type src) (c_array_type dst) = TypeDecimal"
      "is_floating_type (c_array_type src) \<or> is_floating_type (c_array_type dst)"
    | (dec) "widened (c_array_type src) (c_array_type dst) = TypeDecimal"
      "\<not> (is_floating_type (c_array_type src) \<or> is_floating_type (c_array_type dst))"
    | (str) "widened (c_array_type src) (c_array_type dst) = TypeString"
    | (oth) "widened (c_array_type src) (c_array_type dst) \<noteq> TypeDecimal"
      "widened (c_array_type src) (c_array_type dst) \<noteq> TypeString" by blast
  then show ?thesis
  proof cases
    case dec
    then show ?thesis
      by (cases m) (auto simp: widened_array_column_def widened_column_def Let_def same_element_def
          m_def [symmetric])
  qed (use assms in \<open>auto simp: widened_array_column_def widened_column_def Let_def same_element_def
          set_string_length_def\<close>)
qed

lemma absorbed_element:
  "absorbed src e \<Longrightarrow> same_element c e \<Longrightarrow> absorbed src (array_element_column c)"
  by (auto simp: absorbed_def same_element_def)

lemma widened_Array: "widened a b = TypeArray \<longleftrightarrow> a = TypeArray \<and> b = TypeArray"
proof (cases "a = b")
  case False
  have "can_widen x TypeArray \<longleftrightarrow> x = TypeArray" for x
    by (cases x) (simp_all add: can_widen_def)
  then show ?thesis using False by (auto simp: get_widened_type_alt)
qed simp

lemma decimal_needs_widening_alt:
  "decimal_needs_widening a b \<longleftrightarrow>
     (let pa = (if c_precision a = 0 then 38 else c_precision a);
          pb = (if c_precision b = 0 then 38 else c_precision b)
      in pb - c_scale b < pa - c_scale a \<or> c_scale b < c_scale a)"
  by (simp add: decimal_needs_widening_def normalized_decimal_def Let_def)

lemma needs_widening_array:
  assumes "c_type a = TypeArray" "c_type b = TypeArray"
  shows "needs_widening a b \<Longrightarrow> needs_widening (array_element_column a) (array_element_column b)"
proof (cases "c_array_type a = c_array_type b")
  case True
  moreover assume "needs_widening a b"
  ultimately show ?thesis using assms
    by (cases "c_array_type b")
      (simp_all add: needs_widening_def decimal_needs_widening_alt split: if_splits)
qed (simp add: needs_widening_def)

lemma same_shape_array:
  assumes "c_type a = TypeArray" "c_type b = TypeArray" "same_element a e"
    and "same_column_type_shape e (array_element_column b)" "c_type e \<noteq> TypeArray"
  shows "same_column_type_shape a b"
proof -
  have "c_array_type b = c_type e" "c_array_type a = c_type e"
    using assms(3,4) by (auto simp: same_column_type_shape_def same_element_def split: if_splits)
  then show ?thesis using assms
    by (cases "c_type e") (simp_all add: same_column_type_shape_def same_element_def)
qed

text \<open>Widening a column again with the source it has absorbed gives it back.\<close>

lemma widened_column_stable:
  assumes "widened_column src dst = Inr c" "column_wf src" "column_wf dst" "needs_widening src c"
  shows "\<exists>c'. widened_column src c = Inr c' \<and> same_column_type_shape c' c"
proof (cases "widened (c_type src) (c_type dst) = TypeArray")
  case False
  then show ?thesis using assms widened_not_array absorbed_again by metis
next
  case True
  then have ty: "c_type src = TypeArray" "c_type dst = TypeArray" by (simp_all add: widened_Array)
  define r where "r = src\<lparr>c_name := c_name dst, c_type := TypeArray, c_nullable := c_nullable src \<or> c_nullable dst\<rparr>"
  have wa: "widened_array_column src dst r = Inr c"
    using assms(1) ty by (simp add: widened_column_def r_def)
  have ct: "c_type c = TypeArray" using wa by (auto simp: widened_array_column_def r_def Let_def
        bind_result_Inr_iff set_string_length_def split: if_splits prod.splits)
  show ?thesis
  proof (cases "widened (c_array_type src) (c_array_type dst) = TypeArray")
    case True
    then have "c_array_type c = TypeArray" "c_array_type src = TypeArray"
      using wa by (auto simp: widened_Array widened_array_column_def Let_def)
    then show ?thesis using assms(4) ty ct by (simp add: needs_widening_def)
  next
    case False
    let ?s = "array_element_column src" and ?c = "array_element_column c"
    obtain e where e: "widened_column ?s (array_element_column dst) = Inr e" "same_element c e"
      using widened_array_elements [OF False, of r] wa by auto
    have "column_wf ?s" "column_wf (array_element_column dst)" using assms(2,3) by (simp_all add: column_wf_def)
    then have ab: "absorbed ?s ?c"
      using widened_not_array [of ?s "array_element_column dst" _ e] False e absorbed_element by simp
    moreover have nw: "needs_widening ?s ?c"
      using assms(4) ty ct needs_widening_array by blast
    ultimately obtain e' where e': "widened_column ?s ?c = Inr e'" "same_column_type_shape e' ?c"
      using absorbed_again by blast
    have na: "widened (c_array_type src) (c_array_type c) \<noteq> TypeArray"
      using False ab by (auto simp: widened_Array absorbed_def)
    define r' where "r' = src\<lparr>c_name := c_name c, c_type := TypeArray, c_nullable := c_nullable src \<or> c_nullable c\<rparr>"
    have "widened_column src c = widened_array_column src c r'"
      using ty ct by (simp add: widened_column_def r'_def)
    moreover obtain c' where "widened_array_column src c r' = Inr c'" "c_type c' = TypeArray" "same_element c' e'"
      using widened_array_elements [OF na, of r'] e'(1) by (auto split: sum.splits simp: r'_def)
    moreover have "same_column_type_shape c' c"
      using same_shape_array [OF calculation(3) ct calculation(4) e'(2)] e'(2) ab
      by (auto simp: absorbed_def same_column_type_shape_def split: if_splits)
    ultimately show ?thesis by auto
  qed
qed

text \<open>Nullability plays no part in the types.\<close>

lemma decimal_representation_nullable:
  "decimal_representation (d\<lparr>c_nullable := b\<rparr>) =
     map_option (\<lambda>x. x\<lparr>c_nullable := (if c_type d = TypeDecimal then b else c_nullable x)\<rparr>) (decimal_representation d)"
  by (cases "c_type d") (simp_all add: decimal_representation_def normalized_decimal_def zero_column_def)

lemma merge_types_nullable [simp]:
  "merge_decimal_types_checked a (d\<lparr>c_nullable := b\<rparr>) = merge_decimal_types_checked a d"
  by (simp add: merge_decimal_types_checked_def decimal_representation_nullable
      merge_decimal_precision_checked_def merge_decimal_precision_def split: option.splits)

lemma needs_widening_nullable [simp]: "needs_widening a (d\<lparr>c_nullable := b\<rparr>) = needs_widening a d"
  by (simp add: needs_widening_def decimal_needs_widening_alt cong: data_type.case_cong)

lemma element_nullable [simp]: "array_element_column (d\<lparr>c_nullable := b\<rparr>) = array_element_column d"
  by (simp add: array_element_column_def)

lemma same_shape_nullable [simp]:
  "same_column_type_shape (a\<lparr>c_nullable := b\<rparr>) d = same_column_type_shape a d"
  "same_column_type_shape a (d\<lparr>c_nullable := b\<rparr>) = same_column_type_shape a d"
  by (simp_all add: same_column_type_shape_def cong: data_type.case_cong)

lemma widened_array_nullable:
  "widened_array_column a (d\<lparr>c_nullable := b\<rparr>) r = widened_array_column a d r"
  by (simp add: widened_array_column_def set_string_length_def Let_def cong: if_cong)

lemma set_string_length_nullable [simp]:
  "set_string_length s t a d (r\<lparr>c_nullable := b\<rparr>) = (set_string_length s t a d r)\<lparr>c_nullable := b\<rparr>"
  "set_string_length s t a (d\<lparr>c_nullable := b\<rparr>) r = set_string_length s t a d r"
  by (simp_all add: set_string_length_def)

lemma widened_array_result_nullable:
  "widened_array_column a d (r\<lparr>c_nullable := b\<rparr>) = map_sum id (\<lambda>c. c\<lparr>c_nullable := b\<rparr>) (widened_array_column a d r)"
  by (cases "merge_decimal_types_checked (array_element_column a) (array_element_column d)")
    (auto simp: widened_array_column_def set_string_length_def Let_def)

lemma widened_array_nullable_again:
  "widened_array_column a d (r\<lparr>c_nullable := n\<rparr>) =
     map_sum id (\<lambda>c. c\<lparr>c_nullable := n\<rparr>) (widened_array_column a d (r\<lparr>c_nullable := m\<rparr>))"
  unfolding widened_array_result_nullable by (cases "widened_array_column a d r") simp_all

lemma widened_column_nullable:
  "widened_column a (d\<lparr>c_nullable := b\<rparr>) =
     map_sum id (\<lambda>c. c\<lparr>c_nullable := c_nullable a \<or> b\<rparr>) (widened_column a d)"
proof (cases "widened (c_type a) (c_type d) = TypeArray \<and> c_type a = TypeArray \<and> c_type d = TypeArray")
  case True
  then show ?thesis
    by (simp add: widened_column_def widened_array_nullable
        widened_array_nullable_again [of a d "c_nullable a \<or> b" _ "c_nullable a \<or> c_nullable d"])
next
  case False
  then show ?thesis
    by (cases "merge_decimal_types_checked a d")
      (auto simp: widened_column_def set_string_length_def Let_def split: prod.splits)
qed

subsection \<open>One source column\<close>

definition settled :: "column \<Rightarrow> column \<Rightarrow> bool" where
  "settled src d \<longleftrightarrow>
     (needs_widening src d \<longrightarrow> (\<exists>c. widened_column src d = Inr c \<and> same_column_type_shape c d))"

lemma settled_nullable [simp]: "settled src (d\<lparr>c_nullable := b\<rparr>) = settled src d"
  by (cases "widened_column src d") (auto simp: settled_def widened_column_nullable)

lemma settled_self: "settled c (make_nullable c)"
  by (auto simp: settled_def make_nullable_def needs_widening_def decimal_needs_widening_alt
      string_needs_widening_def split: data_type.splits)

lemma settled_widened:
  "widened_column src d = Inr c \<Longrightarrow> column_wf src \<Longrightarrow> column_wf d \<Longrightarrow> settled src c"
  unfolding settled_def using widened_column_stable by blast

lemma widened_column_name: "widened_column src d = Inr c \<Longrightarrow> c_name c = c_name d"
  by (auto simp: widened_column_def widened_array_column_def set_string_length_def Let_def bind_result_Inr_iff
      split: if_splits prod.splits)

lemma column_name_id [simp]: "c\<lparr>c_name := c_name c\<rparr> = c"
  by simp

text \<open>What one change makes of the destination column of its name.\<close>

definition change_effect :: "column option \<Rightarrow> schema_change \<Rightarrow> column option" where
  "change_effect d ch =
     (case sc_type ch of
        ChangeAddColumn \<Rightarrow> Some (sc_new ch)
      | ChangeWidenType \<Rightarrow> map_option (\<lambda>col. (sc_new ch)\<lparr>c_name := c_name col\<rparr>) d
      | ChangeOverrideType \<Rightarrow> map_option (\<lambda>col. (sc_new ch)\<lparr>c_name := c_name col\<rparr>) d
      | ChangeRemoveColumn \<Rightarrow> map_option (\<lambda>col. col\<lparr>c_nullable := True\<rparr>) d
      | ChangeRelaxNullability \<Rightarrow> map_option (\<lambda>col. col\<lparr>c_nullable := True\<rparr>) d)"

abbreviation compare_one ::
  "string set \<Rightarrow> (string \<Rightarrow> column option) \<Rightarrow> column \<Rightarrow> (compare_error, schema_change list) result" where
  "compare_one pks m c \<equiv> compare_source_column (\<lambda>col. col) [] pks m c"

text \<open>A column whose types are settled and that is nullable enough is left alone.\<close>

definition nullable_enough :: "string set \<Rightarrow> column \<Rightarrow> column \<Rightarrow> bool" where
  "nullable_enough pks src d \<longleftrightarrow>
     (c_nullable src \<and> to_lower (c_name src) \<notin> pks \<and> \<not> is_ingestr_column (c_name src) \<longrightarrow> c_nullable d)"

lemma compare_settled:
  assumes "m (to_lower (c_name c)) = Some d" "settled c d" "nullable_enough pks c d"
  shows "compare_one pks m c = Inr []"
  using assms
  by (auto simp: compare_source_column_def overrides_get_def settled_def nullable_enough_def Let_def)

lemma compare_one_converges:
  assumes "compare_one pks m c = Inr chs" "m (to_lower (c_name c)) = d"
    and wf: "column_wf c" "\<And>x. d = Some x \<Longrightarrow> column_wf x"
  shows "\<exists>d'. foldl change_effect d chs = Some d' \<and> settled c d' \<and> nullable_enough pks c d'"
proof (cases d)
  case None
  then show ?thesis using assms(1,2)
    by (auto simp: compare_source_column_def overrides_get_def change_effect_def settled_self
        nullable_enough_def make_nullable_def [symmetric] Let_def)
      (simp add: make_nullable_def)
next
  case (Some x)
  define relax where "relax = (c_nullable c \<and> \<not> c_nullable x \<and> to_lower (c_name c) \<notin> pks \<and>
    \<not> is_ingestr_column (c_name c))"
  have relaxed: "foldl change_effect (Some x) (if relax then
      [mk_change ChangeRelaxNullability (c_name x) (Some x) (c\<lparr>c_name := c_name x\<rparr>)] else []) =
      Some (x\<lparr>c_nullable := c_nullable x \<or> relax\<rparr>)"
    by (simp add: change_effect_def)
  have ne: "nullable_enough pks c (x\<lparr>c_nullable := c_nullable x \<or> relax\<rparr>)"
    by (auto simp: nullable_enough_def relax_def)
  show ?thesis
  proof (cases "needs_widening c x")
    case False
    then have "chs = (if relax then
      [mk_change ChangeRelaxNullability (c_name x) (Some x) (c\<lparr>c_name := c_name x\<rparr>)] else [])"
      using assms(1,2) Some by (auto simp: compare_source_column_def overrides_get_def relax_def Let_def)
    then show ?thesis using relaxed ne False Some by (auto simp: settled_def)
  next
    case True
    obtain w where w: "widened_column c x = Inr w"
      using assms(1,2) Some True
      by (cases "widened_column c x") (auto simp: compare_source_column_def overrides_get_def Let_def)
    define w' where "w' = w\<lparr>c_nullable := c_nullable x \<or> (c_nullable c \<and> to_lower (c_name c) \<notin> pks)\<rparr>"
    have chs: "chs = (if relax then
        [mk_change ChangeRelaxNullability (c_name x) (Some x) (c\<lparr>c_name := c_name x\<rparr>)] else []) @
        (if same_column_type_shape w x then [] else [mk_change ChangeWidenType (c_name x) (Some x) w'])"
      using assms(1,2) Some True w
      by (auto simp: compare_source_column_def overrides_get_def relax_def w'_def Let_def)
    show ?thesis
    proof (cases "same_column_type_shape w x")
      case True
      then have "settled c x" using w by (simp add: settled_def)
      then show ?thesis using chs True relaxed ne Some by auto
    next
      case False
      have "foldl change_effect (Some x) chs = Some w'"
        using chs False relaxed widened_column_name [OF w] by (simp add: change_effect_def w'_def)
      moreover have "settled c w'" using settled_widened [OF w] wf Some by (simp add: w'_def)
      moreover have "nullable_enough pks c w'" by (auto simp: nullable_enough_def w'_def)
      ultimately show ?thesis using Some by auto
    qed
  qed
qed

subsection \<open>The whole table\<close>

abbreviation ckey :: "column \<Rightarrow> string" where
  "ckey c \<equiv> to_lower (c_name c)"

abbreviation change_key :: "schema_change \<Rightarrow> string" where
  "change_key ch \<equiv> to_lower (sc_column_name ch)"

lemma column_lookup_Some_key: "column_lookup cols k = Some d \<Longrightarrow> ckey d = k \<and> d \<in> set cols"
  by (auto simp: column_lookup_def dest!: map_of_SomeD)

lemma column_lookup_None: "column_lookup cols k = None \<longleftrightarrow> k \<notin> ckey ` set cols"
  by (simp add: column_lookup_def map_of_eq_None_iff image_image)

lemma column_lookup_distinct:
  "distinct (map ckey cols) \<Longrightarrow> column_lookup cols k = find (\<lambda>c. ckey c = k) cols"
proof (induction cols)
  case (Cons c cs)
  then show ?case
    using column_lookup_None [of cs k]
    by (auto simp: column_lookup_def map_add_def split: option.splits)
qed (simp add: column_lookup_def)

lemma column_lookup_append:
  "ckey c \<notin> ckey ` set cols \<Longrightarrow> column_lookup (cols @ [c]) k = (if k = ckey c then Some c else column_lookup cols k)"
  by (auto simp: column_lookup_def)

lemma keys_apply_column_change:
  "(\<And>c. c_name (f c) = c_name c) \<Longrightarrow> map ckey (apply_column_change cols n f) = map ckey cols"
  by (induction cols) simp_all

lemma lookup_apply_column_change:
  assumes "distinct (map ckey cols)" "\<And>c. c_name (f c) = c_name c"
  shows "column_lookup (apply_column_change cols n f) k =
    (if k = to_lower n then map_option f (column_lookup cols k) else column_lookup cols k)"
proof -
  have "find (\<lambda>c. ckey c = k) (apply_column_change cols n f) =
    (if k = to_lower n then map_option f (find (\<lambda>c. ckey c = k) cols) else find (\<lambda>c. ckey c = k) cols)"
    using assms(2) by (induction cols) (auto simp: equal_fold_def)
  then show ?thesis
    using assms(1) keys_apply_column_change [OF assms(2), of cols n] by (simp add: column_lookup_distinct)
qed

definition is_add :: "schema_change \<Rightarrow> bool" where
  "is_add ch \<longleftrightarrow> sc_type ch = ChangeAddColumn"

lemma keys_apply_schema_change:
  "map ckey (apply_schema_change cols ch) = map ckey cols @ (if is_add ch then [ckey (sc_new ch)] else [])"
  by (auto simp: apply_schema_change_def is_add_def keys_apply_column_change split: change_type.splits)

lemma lookup_apply_schema_change:
  assumes "distinct (map ckey cols)" "is_add ch \<Longrightarrow> ckey (sc_new ch) = change_key ch \<and> change_key ch \<notin> ckey ` set cols"
  shows "column_lookup (apply_schema_change cols ch) k =
    (if k = change_key ch then change_effect (column_lookup cols k) ch else column_lookup cols k)"
  using assms
  by (auto simp: apply_schema_change_def is_add_def change_effect_def lookup_apply_column_change
      column_lookup_append split: change_type.splits)

text \<open>Changes that add columns of new and different names.\<close>

definition adds_fresh :: "column list \<Rightarrow> schema_change list \<Rightarrow> bool" where
  "adds_fresh cols chs \<longleftrightarrow>
     (\<forall>ch \<in> set (filter is_add chs). ckey (sc_new ch) = change_key ch) \<and>
     distinct (map ckey cols @ map change_key (filter is_add chs))"

lemma adds_fresh_step:
  assumes "adds_fresh cols (ch # chs)"
  shows "adds_fresh (apply_schema_change cols ch) chs"
    and "is_add ch \<Longrightarrow> ckey (sc_new ch) = change_key ch \<and> change_key ch \<notin> ckey ` set cols"
  using assms unfolding adds_fresh_def keys_apply_schema_change by (auto split: if_splits)

lemma lookup_foldl_changes:
  assumes "adds_fresh cols chs"
  shows "column_lookup (foldl apply_schema_change cols chs) k =
    foldl change_effect (column_lookup cols k) (filter (\<lambda>ch. change_key ch = k) chs)"
  using assms
proof (induction chs arbitrary: cols)
  case (Cons ch chs)
  have "distinct (map ckey cols)" using Cons.prems by (simp add: adds_fresh_def)
  then show ?case
    using Cons.IH [OF adds_fresh_step(1) [OF Cons.prems]]
      lookup_apply_schema_change [of cols ch k] adds_fresh_step(2) [OF Cons.prems] by auto
qed simp

lemma compare_one_adds:
  assumes "compare_one pks m c = Inr chs" "\<And>k d. m k = Some d \<Longrightarrow> ckey d = k"
  shows "\<forall>ch \<in> set chs. change_key ch = ckey c \<and> (is_add ch \<longrightarrow> ckey (sc_new ch) = ckey c)"
    and "map change_key (filter is_add chs) = (if m (ckey c) = None then [ckey c] else [])"
proof -
  have "(\<forall>ch \<in> set chs. change_key ch = ckey c \<and> (is_add ch \<longrightarrow> ckey (sc_new ch) = ckey c)) \<and>
    map change_key (filter is_add chs) = (if m (ckey c) = None then [ckey c] else [])"
    using assms
    by (auto simp: compare_source_column_def overrides_get_def is_add_def make_nullable_def Let_def
        split: option.splits if_splits sum.splits)
  then show "\<forall>ch \<in> set chs. change_key ch = ckey c \<and> (is_add ch \<longrightarrow> ckey (sc_new ch) = ckey c)"
    and "map change_key (filter is_add chs) = (if m (ckey c) = None then [ckey c] else [])" by blast+
qed

lemma compare_columns_adds:
  assumes "compare_columns (\<lambda>col. col) [] pks m cs = Inr chs" "\<And>k d. m k = Some d \<Longrightarrow> ckey d = k"
  shows "(\<forall>ch \<in> set chs. change_key ch \<in> ckey ` set cs \<and> (is_add ch \<longrightarrow> ckey (sc_new ch) = change_key ch)) \<and>
    map change_key (filter is_add chs) = filter (\<lambda>k. m k = None) (map ckey cs)"
  using assms(1)
proof (induction cs arbitrary: chs)
  case (Cons c cs)
  obtain one rest where "compare_one pks m c = Inr one" "compare_columns (\<lambda>col. col) [] pks m cs = Inr rest"
    "chs = one @ rest"
    using Cons.prems by (auto simp: bind_result_Inr_iff)
  then show ?case
    using Cons.IH [of rest] compare_one_adds [of pks m c one] assms(2) by auto
qed simp

lemma compare_columns_per_column:
  assumes "compare_columns (\<lambda>col. col) [] pks m cs = Inr chs" "\<And>k d. m k = Some d \<Longrightarrow> ckey d = k"
    and "distinct (map ckey cs)" "c \<in> set cs"
  shows "compare_one pks m c = Inr (filter (\<lambda>ch. change_key ch = ckey c) chs)"
  using assms(1,3,4)
proof (induction cs arbitrary: chs)
  case (Cons x cs)
  obtain one rest where r: "compare_one pks m x = Inr one" "compare_columns (\<lambda>col. col) [] pks m cs = Inr rest"
    "chs = one @ rest"
    using Cons.prems by (auto simp: bind_result_Inr_iff)
  have one: "\<forall>ch \<in> set one. change_key ch = ckey x" using compare_one_adds(1) [OF r(1) assms(2)] by blast
  have rest: "\<forall>ch \<in> set rest. change_key ch \<in> ckey ` set cs" using compare_columns_adds [OF r(2) assms(2)] by blast
  show ?case
  proof (cases "c = x")
    case True
    have "ckey c \<notin> ckey ` set cs" using Cons.prems(2) True by simp
    then have "\<forall>ch \<in> set rest. change_key ch \<noteq> ckey c" using rest by metis
    then have "filter (\<lambda>ch. change_key ch = ckey c) rest = []" by (rule filter_False)
    moreover have "filter (\<lambda>ch. change_key ch = ckey c) one = one" using one True by (simp add: filter_id_conv)
    ultimately show ?thesis using r True by simp
  next
    case False
    then have "c \<in> set cs" using Cons.prems(3) by simp
    then have "ckey c \<in> ckey ` set cs" by (rule imageI)
    moreover have "ckey x \<notin> ckey ` set cs" using Cons.prems(2) by simp
    ultimately have "ckey c \<noteq> ckey x" by metis
    then have "filter (\<lambda>ch. change_key ch = ckey c) one = []" using one by (auto simp: filter_empty_conv)
    then show ?thesis using Cons.IH [OF r(2)] Cons.prems(2) \<open>c \<in> set cs\<close> r(3) by simp
  qed
qed simp

lemma compare_columns_nothing:
  "(\<And>c. c \<in> set cs \<Longrightarrow> compare_one pks m c = Inr []) \<Longrightarrow> compare_columns (\<lambda>col. col) [] pks m cs = Inr []"
  by (induction cs) simp_all

lemma removed_columns_adds [simp]: "filter is_add (removed_columns src cols) = []"
  by (auto simp: removed_columns_def filter_empty_conv is_add_def)

lemma removed_columns_keys:
  "c \<in> set src \<Longrightarrow> filter (\<lambda>ch. change_key ch = ckey c) (removed_columns src cols) = []"
  by (auto simp: removed_columns_def filter_empty_conv)

lemma evolution_settles:
  assumes cmp: "compare_columns (\<lambda>col. col) [] pks (column_lookup dst) src = Inr chs"
    and d: "distinct (map ckey src)" "distinct (map ckey dst)"
    and wf: "\<forall>c \<in> set src. column_wf c" "\<forall>c \<in> set dst. column_wf c"
  shows "compare_columns (\<lambda>col. col) [] pks
    (column_lookup (foldl apply_schema_change dst (chs @ removed_columns src dst))) src = Inr []"
proof (rule compare_columns_nothing)
  fix c assume c: "c \<in> set src"
  note key = column_lookup_Some_key [THEN conjunct1]
  have one: "compare_one pks (column_lookup dst) c = Inr (filter (\<lambda>ch. change_key ch = ckey c) chs)"
    by (rule compare_columns_per_column [OF cmp key d(1) c])
  have "adds_fresh dst (chs @ removed_columns src dst)"
    using compare_columns_adds [OF cmp key] d
    by (auto simp: adds_fresh_def column_lookup_None)
  then have "column_lookup (foldl apply_schema_change dst (chs @ removed_columns src dst)) (ckey c) =
      foldl change_effect (column_lookup dst (ckey c)) (filter (\<lambda>ch. change_key ch = ckey c) chs)"
    using removed_columns_keys [OF c, of dst] lookup_foldl_changes [of dst "chs @ removed_columns src dst" "ckey c"]
    by (simp del: foldl_append)
  then show "compare_one pks (column_lookup (foldl apply_schema_change dst (chs @ removed_columns src dst))) c = Inr []"
    using compare_one_converges [OF one refl] wf c column_lookup_Some_key compare_settled by metis
qed

lemma build_final_schema_foldl:
  "build_final_schema (Some ts) (Some \<lparr>cmp_changes = chs, cmp_has_changes = (0 < length chs)\<rparr>) =
     Some (ts\<lparr>ts_columns := foldl apply_schema_change (ts_columns ts) chs\<rparr>)"
  by (cases chs) (simp_all add: build_final_schema_def)

lemma schema_evolution_settles:
  assumes "compare_schemas (Some src) (Some dst) (Some \<lparr>co_overrides = [], co_primary_keys = ks, co_normalize = None\<rparr>)
      = Inr cmp"
    and "build_final_schema (Some dst) (Some cmp) = Some final"
    and "distinct (map ckey (ts_columns src))" "distinct (map ckey (ts_columns dst))"
    and "\<forall>c \<in> set (ts_columns src) \<union> set (ts_columns dst). column_wf c"
  shows "\<exists>cmp2. compare_schemas (Some src) (Some final)
      (Some \<lparr>co_overrides = [], co_primary_keys = ks, co_normalize = None\<rparr>) = Inr cmp2 \<and>
      cmp_changes cmp2 = removed_columns (ts_columns src) (ts_columns final)"
proof -
  obtain chs where c: "compare_columns (\<lambda>col. col) [] (to_lower ` set ks) (column_lookup (ts_columns dst)) (ts_columns src) = Inr chs"
    and cmp: "cmp = \<lparr>cmp_changes = chs @ removed_columns (ts_columns src) (ts_columns dst),
      cmp_has_changes = (0 < length (chs @ removed_columns (ts_columns src) (ts_columns dst)))\<rparr>"
    using assms(1) by (auto simp: compare_schemas_def Let_def bind_result_Inr_iff)
  have "final = dst\<lparr>ts_columns := foldl apply_schema_change (ts_columns dst)
      (chs @ removed_columns (ts_columns src) (ts_columns dst))\<rparr>"
    using assms(2) unfolding cmp build_final_schema_foldl by simp
  then show ?thesis
    using evolution_settles [OF c] assms(3-5) by (simp add: compare_schemas_def del: foldl_append)
qed


subsection \<open>Properties\<close>

text \<open>C25: Schema evolution converges in one step: once the changes that \<open>Compare\<close> reports (without
  overrides and without a destination's own normalisation) have been applied to the destination's
  schema, comparing the same source again reports nothing but the columns that the source does not
  have, so no load alters the table a second time. It holds for tables whose column names differ
  without regard to case and whose precisions are not negative.\<close>

theorem evolution_converges:
  assumes "compare_schemas (Some src) (Some dst) (Some \<lparr>co_overrides = [], co_primary_keys = ks, co_normalize = None\<rparr>)
      = Inr cmp"
    and "build_final_schema (Some dst) (Some cmp) = Some final"
    and "distinct (map (\<lambda>c. to_lower (c_name c)) (ts_columns src))" "distinct (map (\<lambda>c. to_lower (c_name c)) (ts_columns dst))"
    and "\<forall>c \<in> set (ts_columns src) \<union> set (ts_columns dst). 0 \<le> c_precision c"
  shows "\<exists>cmp2. compare_schemas (Some src) (Some final)
      (Some \<lparr>co_overrides = [], co_primary_keys = ks, co_normalize = None\<rparr>) = Inr cmp2 \<and>
      (\<forall>ch \<in> set (cmp_changes cmp2). sc_type ch = ChangeRemoveColumn)"
proof -
  have "\<forall>c \<in> set (ts_columns src) \<union> set (ts_columns dst). column_wf c" using assms(5) by (simp add: column_wf_def)
  from schema_evolution_settles [OF assms(1-4) this] show ?thesis by (auto simp: removed_columns_def)
qed

definition sample_schema :: "(string \<times> data_type) list \<Rightarrow> table_schema" where
  "sample_schema cols = \<lparr>ts_name = ''t'', ts_schema = [],
     ts_columns = map (\<lambda>(n, t). zero_column\<lparr>c_name := n, c_type := t\<rparr>) cols,
     ts_primary_keys = [], ts_incremental_key = [], ts_partition_by = []\<rparr>"

theorem evolution_converges_witness:
  "\<exists>cmp final cmp2. compare_schemas (Some (sample_schema [(''a'', TypeDecimal), (''b'', TypeInt64)]))
      (Some (sample_schema [(''A'', TypeInt32)])) (Some \<lparr>co_overrides = [], co_primary_keys = [], co_normalize = None\<rparr>) = Inr cmp \<and>
    length (cmp_changes cmp) = 2 \<and>
    build_final_schema (Some (sample_schema [(''A'', TypeInt32)])) (Some cmp) = Some final \<and>
    compare_schemas (Some (sample_schema [(''a'', TypeDecimal), (''b'', TypeInt64)])) (Some final)
      (Some \<lparr>co_overrides = [], co_primary_keys = [], co_normalize = None\<rparr>) = Inr cmp2 \<and>
    (\<forall>ch \<in> set (cmp_changes cmp2). sc_type ch = ChangeRemoveColumn)"
proof -
  let ?src = "sample_schema [(''a'', TypeDecimal), (''b'', TypeInt64)]" and ?dst = "sample_schema [(''A'', TypeInt32)]"
  let ?o = "\<lparr>co_overrides = [], co_primary_keys = [], co_normalize = None\<rparr>"
  have "case compare_schemas (Some ?src) (Some ?dst) (Some ?o) of Inl e \<Rightarrow> False | Inr c \<Rightarrow> length (cmp_changes c) = 2"
    by code_simp
  then obtain cmp where c: "compare_schemas (Some ?src) (Some ?dst) (Some ?o) = Inr cmp" "length (cmp_changes cmp) = 2"
    by (auto split: sum.splits)
  have "build_final_schema (Some ?dst) (Some cmp) \<noteq> None" by (simp add: build_final_schema_def)
  then obtain final where f: "build_final_schema (Some ?dst) (Some cmp) = Some final" by blast
  have d: "distinct (map (\<lambda>c. to_lower (c_name c)) (ts_columns ?src))" "distinct (map (\<lambda>c. to_lower (c_name c)) (ts_columns ?dst))"
    "\<forall>c \<in> set (ts_columns ?src) \<union> set (ts_columns ?dst). 0 \<le> c_precision c"
    by (simp_all add: sample_schema_def zero_column_def to_lower_def lower_char_def is_upper_def)
  from evolution_converges [OF c(1) f d] c f show ?thesis by blast
qed

end
