(* ===== verification/Onelake_Schema.thy ===== *)
theory Onelake_Schema
  imports Onelake_Delta Evolution_Converges
begin

text \<open>
  The schema of a OneLake table: what the destination writes it reads back, so that a table it has
  created needs no change for the same source; schema evolution keeps every column readable as it
  was, adds columns that older files may lack, and applied again changes nothing.
\<close>

subsection \<open>Reading back a type\<close>

lemma digits_then:
  assumes "list_all is_digit ds" "\<not> is_digit c"
  shows "takeWhile is_digit (ds @ c # r) = ds" "dropWhile is_digit (ds @ c # r) = c # r"
  using assms by (simp_all add: list_all_iff takeWhile_append2 dropWhile_append2)

lemma itoa_nonneg_digits: "0 \<le> i \<Longrightarrow> list_all is_digit (itoa i)"
  using nat_digits_props by (simp add: itoa_def)

lemma re_space_digit: "is_digit c \<Longrightarrow> \<not> re_space c"
  by (auto simp: re_space_def dest: is_digit_not_space)

lemma spaced_digits_number:
  assumes "0 \<le> i" "\<not> is_digit c" "\<not> re_space c"
  shows "spaced_digits (itoa i @ c # r) = (itoa i, c # r)"
proof -
  have d: "list_all is_digit (itoa i)" using assms(1) by (rule itoa_nonneg_digits)
  obtain x xs where x: "itoa i = x # xs" using itoa_not_Nil [of i] by (cases "itoa i") simp_all
  have "dropWhile re_space (itoa i @ c # r) = itoa i @ c # r"
    using d x re_space_digit by simp
  then show ?thesis using digits_then [OF d assms(2)] assms(3) by (simp add: spaced_digits_def Let_def)
qed

lemma decimal_match_name:
  assumes "0 \<le> p" "0 \<le> s"
  shows "decimal_match (decimal_name p s) = Some (itoa p, itoa s)"
proof -
  have c: "\<not> is_digit (CHR '','')" "\<not> re_space (CHR '','')" "\<not> is_digit (CHR '')'')" "\<not> re_space (CHR '')'')"
    by (simp_all add: is_digit_def re_space_def is_space_def)
  have "take 8 (decimal_name p s) = ''decimal(''" "drop 8 (decimal_name p s) = itoa p @ CHR '','' # itoa s @ '')''"
    by (simp_all add: decimal_name_def)
  moreover have "to_lower ''decimal('' = ''decimal(''" by code_simp
  ultimately show ?thesis
    using spaced_digits_number [OF assms(1) c(1,2)] spaced_digits_number [OF assms(2) c(3,4)]
    by (simp add: decimal_match_def)
qed

lemma primitive_decimal:
  assumes "0 \<le> p" "0 \<le> s" "is_int64 p" "is_int64 s"
  shows "primitive_delta_type (decimal_name p s) = Inr (TypeDecimal, p, s)"
proof -
  have "trim_space (decimal_name p s) = decimal_name p s"
    by (rule trim_space_id) (simp add: decimal_name_def is_space_def)
  moreover have "to_lower (decimal_name p s) = ''decimal('' @ to_lower (itoa p @ '','' @ itoa s @ '')'')"
  proof -
    have "to_lower ''decimal('' = ''decimal(''" by code_simp
    then show ?thesis by (simp only: decimal_name_def to_lower_def map_append)
  qed
  ultimately show ?thesis
    using assms by (simp add: primitive_delta_type_def Let_def decimal_match_name)
qed

text \<open>The columns that Delta can hold: a known type, decimals with a precision and a scale that are
  not negative, arrays of such elements.\<close>

definition storable_type :: "data_type \<Rightarrow> int \<Rightarrow> int \<Rightarrow> bool" where
  "storable_type t p s \<longleftrightarrow>
     t \<noteq> TypeUnknown \<and> t \<noteq> TypeArray \<and> (t = TypeDecimal \<longrightarrow> 0 \<le> p \<and> is_int64 p \<and> 0 \<le> s \<and> is_int64 s)"

definition storable :: "column \<Rightarrow> bool" where
  "storable c \<longleftrightarrow>
     storable_type (if c_type c = TypeArray then c_array_type c else c_type c) (c_precision c) (c_scale c)"

text \<open>The type that is read back.\<close>

definition read_back_type :: "data_type \<Rightarrow> int \<Rightarrow> int \<Rightarrow> data_type \<times> int \<times> int" where
  "read_back_type t p s =
     (if t = TypeDecimal then (TypeDecimal, if p = 0 then 38 else p, s)
      else if t = TypeInterval then (TypeString, 0, 0)
      else (normalize_one_lake_type t, 0, 0))"

lemma primitive_read_back:
  assumes "storable_type t p s"
  shows "primitive_delta_type (scalar_delta_type t p s) = Inr (read_back_type t p s)"
proof (cases "t = TypeDecimal")
  case True
  then have "primitive_delta_type (decimal_name (if p = 0 then 38 else p) s) =
    Inr (TypeDecimal, if p = 0 then 38 else p, s)"
    using assms by (intro primitive_decimal) (auto simp: storable_type_def is_int64_def min_int64_def max_int64_def)
  then show ?thesis using True by (simp add: scalar_delta_type_def read_back_type_def)
next
  case False
  have names: "primitive_delta_type ''boolean'' = Inr (TypeBoolean, 0, 0)" "primitive_delta_type ''byte'' = Inr (TypeInt8, 0, 0)"
    "primitive_delta_type ''short'' = Inr (TypeInt16, 0, 0)" "primitive_delta_type ''integer'' = Inr (TypeInt32, 0, 0)"
    "primitive_delta_type ''long'' = Inr (TypeInt64, 0, 0)" "primitive_delta_type ''float'' = Inr (TypeFloat32, 0, 0)"
    "primitive_delta_type ''double'' = Inr (TypeFloat64, 0, 0)" "primitive_delta_type ''string'' = Inr (TypeString, 0, 0)"
    "primitive_delta_type ''binary'' = Inr (TypeBinary, 0, 0)" "primitive_delta_type ''date'' = Inr (TypeDate, 0, 0)"
    "primitive_delta_type ''timestamp'' = Inr (TypeTimestampTZ, 0, 0)"
    by code_simp+
  show ?thesis
    using assms False
    by (cases t) (simp_all add: scalar_delta_type_def names read_back_type_def normalize_one_lake_type_def storable_type_def)
qed

definition read_back :: "column \<Rightarrow> column" where
  "read_back c =
     (let ty = (if c_type c = TypeArray then c_array_type c else c_type c);
          (t, p, s) = read_back_type ty (c_precision c) (c_scale c);
          col = zero_column\<lparr>c_name := c_name c, c_nullable := c_nullable c, c_precision := p, c_scale := s\<rparr>
      in if c_type c = TypeArray then col\<lparr>c_type := TypeArray, c_array_type := t\<rparr> else col\<lparr>c_type := t\<rparr>)"

definition field_of :: "column \<Rightarrow> delta_field" where
  "field_of c = \<lparr>df_name = c_name c, df_type = delta_type_for c, df_nullable = c_nullable c, df_metadata = []\<rparr>"

lemma delta_schema_of_alt: "delta_schema_of cols = map field_of cols"
  by (simp add: delta_schema_of_def field_of_def)

lemma column_read_back: "storable c \<Longrightarrow> column_from_delta_field (field_of c) = Inr (read_back c)"
  by (simp add: storable_def column_from_delta_field_def field_of_def apply_delta_type_def delta_type_for_def
      primitive_read_back read_back_def Let_def storable_type_def zero_column_def split: if_splits prod.split)

lemma read_back_type_again:
  "storable_type t p s \<Longrightarrow> read_back_type t p s = (t', p', s') \<Longrightarrow>
   scalar_delta_type t' p' s' = scalar_delta_type t p s \<and> t' \<noteq> TypeUnknown \<and> t' \<noteq> TypeArray \<and> storable_type t' p' s'"
  by (cases t; cases "p = 0") (auto simp: read_back_type_def normalize_one_lake_type_def scalar_delta_type_def
      storable_type_def is_int64_def min_int64_def max_int64_def)

lemma read_back_scalar:
  assumes "c_type c \<noteq> TypeArray" "read_back_type (c_type c) (c_precision c) (c_scale c) = (t, p, s)"
  shows "read_back c = zero_column\<lparr>c_name := c_name c, c_nullable := c_nullable c, c_type := t, c_precision := p, c_scale := s\<rparr>"
  using assms by (simp add: read_back_def zero_column_def)

lemma read_back_array:
  assumes "c_type c = TypeArray" "read_back_type (c_array_type c) (c_precision c) (c_scale c) = (t, p, s)"
  shows "read_back c = zero_column\<lparr>c_name := c_name c, c_nullable := c_nullable c, c_type := TypeArray, c_precision := p,
    c_scale := s, c_array_type := t\<rparr>"
  using assms by (simp add: read_back_def zero_column_def)

lemma read_back_same_type:
  assumes "storable c"
  shows "same_physical_type (read_back c) c \<and> c_name (read_back c) = c_name c \<and> c_nullable (read_back c) = c_nullable c \<and>
    storable (read_back c)"
proof (cases "c_type c = TypeArray")
  case True
  obtain t p s where r: "read_back_type (c_array_type c) (c_precision c) (c_scale c) = (t, p, s)"
    by (cases "read_back_type (c_array_type c) (c_precision c) (c_scale c)")
  have st: "storable_type (c_array_type c) (c_precision c) (c_scale c)" using assms True by (simp add: storable_def)
  then show ?thesis
    using True read_back_type_again [OF st r]
    by (simp add: read_back_array [OF True r] same_physical_type_def delta_type_for_def storable_def storable_type_def
        zero_column_def)
next
  case False
  obtain t p s where r: "read_back_type (c_type c) (c_precision c) (c_scale c) = (t, p, s)"
    by (cases "read_back_type (c_type c) (c_precision c) (c_scale c)")
  have st: "storable_type (c_type c) (c_precision c) (c_scale c)" using assms False by (simp add: storable_def)
  then show ?thesis
    using False read_back_type_again [OF st r]
    by (simp add: read_back_scalar [OF False r] same_physical_type_def delta_type_for_def storable_def storable_type_def
        zero_column_def)
qed

subsection \<open>A table the destination created needs no change\<close>

lemma widened_interval [simp]: "widened TypeInterval TypeString = TypeString"
  by code_simp

lemma settled_read_back:
  assumes "storable c"
  shows "settled (normalize_evolution_column c) (normalize_evolution_column (read_back c))"
proof (cases "c_type c = TypeArray")
  case True
  obtain t p s where r: "read_back_type (c_array_type c) (c_precision c) (c_scale c) = (t, p, s)"
    by (cases "read_back_type (c_array_type c) (c_precision c) (c_scale c)")
  show ?thesis
    using assms r unfolding read_back_array [OF True r]
    by (cases "c_array_type c")
      (auto simp: True normalize_evolution_column_def normalize_one_lake_type_def settled_def needs_widening_def
        read_back_type_def decimal_needs_widening_alt string_needs_widening_def storable_def storable_type_def
        widened_column_def widened_array_column_def set_string_length_def same_column_type_shape_def
        is_floating_type_def zero_column_def Let_def split: if_splits)
next
  case False
  obtain t p s where r: "read_back_type (c_type c) (c_precision c) (c_scale c) = (t, p, s)"
    by (cases "read_back_type (c_type c) (c_precision c) (c_scale c)")
  show ?thesis
    using assms r False unfolding read_back_scalar [OF False r]
    by (cases "c_type c")
      (auto simp: normalize_evolution_column_def normalize_one_lake_type_def settled_def needs_widening_def
        read_back_type_def decimal_needs_widening_alt string_needs_widening_def storable_def storable_type_def
        widened_column_def set_string_length_def same_column_type_shape_def
        is_floating_type_def zero_column_def Let_def split: if_splits)
qed

lemma compare_normalized_settled:
  assumes "m (to_lower (c_name c)) = Some d" "settled (nrm c) (nrm d)" "nullable_enough pks c d"
    and "\<And>x. nrm (nrm x) = nrm x"
  shows "compare_source_column nrm [] pks m c = Inr []"
  using assms
  by (auto simp: compare_source_column_def overrides_get_def settled_def nullable_enough_def Let_def)

lemma delta_columns_storable:
  assumes "\<forall>c\<in>set cols. storable c" "distinct (map ckey cols)" "\<forall>c\<in>set cols. ckey c \<notin> seen"
  shows "delta_columns seen (map field_of cols) = Inr (map read_back cols)"
  using assms
proof (induction cols arbitrary: seen)
  case (Cons c cs)
  have "delta_columns (insert (ckey c) seen) (map field_of cs) = Inr (map read_back cs)"
  proof (rule Cons.IH)
    have "ckey c \<notin> ckey ` set cs" using Cons.prems(2) by simp
    then show "\<forall>x\<in>set cs. ckey x \<notin> insert (ckey c) seen" using Cons.prems(3) by (metis image_eqI insertE list.set_intros(2))
  qed (use Cons.prems in simp_all)
  moreover have "df_name (field_of c) = c_name c" by (simp add: field_of_def)
  ultimately show ?case using Cons.prems by (simp add: column_read_back)
qed simp

definition one_lake_options :: "string list \<Rightarrow> compare_options" where
  "one_lake_options pks =
     \<lparr>co_overrides = [], co_primary_keys = pks, co_normalize = Some normalize_evolution_column\<rparr>"

lemma normalize_twice [simp]:
  "normalize_evolution_column (normalize_evolution_column c) = normalize_evolution_column c"
  by (auto simp: normalize_evolution_column_def normalize_one_lake_type_def Let_def)

lemma compare_columns_quiet:
  assumes "\<forall>c\<in>set cs. compare_source_column nrm ovs pks m c = Inr []"
  shows "compare_columns nrm ovs pks m cs = Inr []"
  using assms by (induction cs) simp_all



subsection \<open>Evolution adds and relaxes, nothing else\<close>

definition kept_field :: "delta_field \<Rightarrow> delta_field \<Rightarrow> bool" where
  "kept_field f g \<longleftrightarrow> df_name g = df_name f \<and> df_type g = df_type f \<and> df_metadata g = df_metadata f \<and>
     (df_nullable f \<longrightarrow> df_nullable g)"

definition extends :: "delta_field list \<Rightarrow> delta_field list \<Rightarrow> bool" where
  "extends fs fs' \<longleftrightarrow> (\<exists>ps gs. fs' = ps @ gs \<and> list_all2 kept_field fs ps \<and> (\<forall>g\<in>set gs. df_nullable g))"

lemma kept_field_refl [simp]: "kept_field f f"
  by (simp add: kept_field_def)

lemma extends_refl [simp]: "extends fs fs"
  unfolding extends_def by (rule exI [of _ fs], rule exI [of _ "[]"]) (simp add: list_all2_conv_all_nth)

lemma kept_nullable:
  "list_all2 kept_field fs gs \<Longrightarrow> \<forall>f\<in>set fs. df_nullable f \<Longrightarrow> \<forall>g\<in>set gs. df_nullable g"
  by (induction rule: list_all2_induct) (simp_all add: kept_field_def)

lemma extends_trans:
  assumes "extends fs gs" "extends gs hs"
  shows "extends fs hs"
proof -
  obtain ps qs where g: "gs = ps @ qs" "list_all2 kept_field fs ps" "\<forall>g\<in>set qs. df_nullable g"
    using assms(1) by (auto simp: extends_def)
  obtain rs ts where h: "hs = rs @ ts" "list_all2 kept_field gs rs" "\<forall>g\<in>set ts. df_nullable g"
    using assms(2) by (auto simp: extends_def)
  obtain r1 r2 where r: "rs = r1 @ r2" "list_all2 kept_field ps r1" "list_all2 kept_field qs r2"
    using h(2) g(1) by (auto simp: list_all2_append1)
  have "list_all2 kept_field fs r1"
    using g(2) r(2) by (rule list_all2_trans [rotated]) (auto simp: kept_field_def)
  moreover have "\<forall>g\<in>set r2. df_nullable g"
    using r(3) g(3) by (rule kept_nullable)
  ultimately show ?thesis
    unfolding extends_def using h(1,3) r(1) by (intro exI [of _ r1] exI [of _ "r2 @ ts"]) auto
qed

lemma extends_append: "df_nullable g \<Longrightarrow> extends fs (fs @ [g])"
  unfolding extends_def by (rule exI [of _ fs], rule exI [of _ "[g]"]) (simp add: list_all2_conv_all_nth)

lemma extends_update: "i < length fs \<Longrightarrow> kept_field (fs ! i) g \<Longrightarrow> extends fs (fs[i := g])"
  unfolding extends_def
  by (rule exI [of _ "fs[i := g]"], rule exI [of _ "[]"]) (auto simp: list_all2_conv_all_nth nth_list_update)

lemma index_where_Some: "index_where P xs = Some i \<Longrightarrow> i < length xs \<and> P (xs ! i)"
  by (induction xs arbitrary: i) (auto split: if_splits)

lemma index_where_append:
  "index_where P (xs @ ys) =
     (case index_where P xs of Some i \<Rightarrow> Some i | None \<Rightarrow> map_option (\<lambda>i. length xs + i) (index_where P ys))"
proof (induction xs)
  case Nil
  show ?case by (cases "index_where P ys") simp_all
next
  case (Cons x xs)
  then show ?case by (cases "index_where P ys"; cases "index_where P xs") simp_all
qed

lemma index_where_cong: "list_all2 (\<lambda>x y. P x = Q y) xs ys \<Longrightarrow> index_where P xs = index_where Q ys"
  by (induction rule: list_all2_induct) simp_all

lemma extends_index:
  assumes "extends fs fs'" "delta_field_index fs n = Some i"
  shows "delta_field_index fs' n = Some i" "kept_field (fs ! i) (fs' ! i)" "i < length fs'"
proof -
  obtain ps gs where e: "fs' = ps @ gs" "list_all2 kept_field fs ps" using assms(1) by (auto simp: extends_def)
  have i: "i < length fs" using assms(2) index_where_Some by (auto simp: delta_field_index_def)
  have "index_where (\<lambda>f. equal_fold (df_name f) n) ps = index_where (\<lambda>f. equal_fold (df_name f) n) fs"
    using e(2) by (intro index_where_cong [symmetric]) (auto elim!: list_all2_mono simp: kept_field_def)
  then show "delta_field_index fs' n = Some i"
    using assms(2) by (simp add: delta_field_index_def e(1) index_where_append)
  show "kept_field (fs ! i) (fs' ! i)" "i < length fs'"
    using e i by (auto simp: list_all2_conv_all_nth nth_append)
qed

lemma extends_nullable:
  assumes "extends fs fs'" "delta_field_index fs n = None" "delta_field_index fs' n = Some j"
  shows "df_nullable (fs' ! j)"
proof -
  obtain ps gs where e: "fs' = ps @ gs" "list_all2 kept_field fs ps" "\<forall>g\<in>set gs. df_nullable g"
    using assms(1) by (auto simp: extends_def)
  have "index_where (\<lambda>f. equal_fold (df_name f) n) ps = index_where (\<lambda>f. equal_fold (df_name f) n) fs"
    using e(2) by (intro index_where_cong [symmetric]) (auto elim!: list_all2_mono simp: kept_field_def)
  then obtain k where "index_where (\<lambda>f. equal_fold (df_name f) n) gs = Some k" "j = length ps + k"
    using assms(2,3) by (auto simp: delta_field_index_def e(1) index_where_append)
  then show ?thesis using index_where_Some e(1,3) by (metis nth_append_length_plus nth_mem)
qed

lemma evolve_change_extends: "evolve_change fs ch = Inr (fs', b) \<Longrightarrow> extends fs fs' \<and> (\<not> b \<longrightarrow> fs' = fs)"
  by (auto simp: evolve_change_def delta_field_index_def kept_field_def dest: index_where_Some intro!: extends_append extends_update
      split: change_type.splits option.splits sum.splits if_splits)

text \<open>The type of a column does not depend on whether it is nullable.\<close>

lemma apply_delta_type_nullable:
  "apply_delta_type (col\<lparr>c_nullable := n\<rparr>) t = map_sum id (\<lambda>c. c\<lparr>c_nullable := n\<rparr>) (apply_delta_type col t)"
  by (cases t) (auto simp: apply_delta_type_def split: sum.splits delta_type.splits)

lemma column_of_kept_field:
  assumes "kept_field f g" "column_from_delta_field f = Inr c"
  shows "\<exists>c'. column_from_delta_field g = Inr c' \<and> same_physical_type c' d = same_physical_type c d"
proof -
  have "column_from_delta_field g = map_sum id (\<lambda>c. c\<lparr>c_nullable := df_nullable g\<rparr>) (column_from_delta_field f)"
    using assms(1) apply_delta_type_nullable [where col = "zero_column\<lparr>c_name := df_name f, c_nullable := df_nullable f\<rparr>"
        and n = "df_nullable g"]
    by (simp add: column_from_delta_field_def kept_field_def zero_column_def)
  then show ?thesis using assms(2) by (simp add: same_physical_type_def delta_type_for_def)
qed

text \<open>A change that has been made is no change any more, whatever is added after it.\<close>

definition good_add :: "schema_change \<Rightarrow> bool" where
  "good_add ch \<longleftrightarrow> (sc_type ch = ChangeAddColumn \<longrightarrow> storable (sc_new ch) \<and> sc_column_name ch = c_name (sc_new ch))"

lemma evolve_change_later:
  assumes "evolve_change fs ch = Inr (fs, False)" "extends fs fs'"
  shows "evolve_change fs' ch = Inr (fs', False)"
proof (cases "delta_field_index fs (sc_column_name ch)")
  case None
  then show ?thesis
    using assms extends_nullable [OF assms(2) None]
    by (auto simp: evolve_change_def split: change_type.splits option.splits if_splits)
next
  case (Some i)
  note ix = extends_index [OF assms(2) Some]
  show ?thesis
  proof (cases "column_from_delta_field (fs ! i)")
    case (Inl e)
    then show ?thesis using assms(1) Some ix
      by (auto simp: evolve_change_def kept_field_def split: change_type.splits option.splits if_splits)
  next
    case (Inr c)
    obtain c' where c': "column_from_delta_field (fs' ! i) = Inr c'"
      "same_physical_type c' (sc_new ch) = same_physical_type c (sc_new ch)"
      using column_of_kept_field [OF ix(2) Inr] by blast
    have "df_nullable (fs ! i) \<longrightarrow> df_nullable (fs' ! i)" using ix(2) by (simp add: kept_field_def)
    moreover have "sc_type ch = ChangeRelaxNullability \<or> sc_type ch = ChangeRemoveColumn \<longrightarrow> df_nullable (fs ! i)"
      using assms(1) Some by (auto simp: evolve_change_def split: if_splits)
    ultimately show ?thesis using assms(1) Some ix(1) Inr c'
      by (auto simp: evolve_change_def split: change_type.splits option.splits if_splits)
  qed
qed

lemma evolve_change_done:
  assumes "evolve_change fs ch = Inr (fs', b)" "good_add ch"
  shows "evolve_change fs' ch = Inr (fs', False)"
proof (cases b)
  case False
  then show ?thesis using evolve_change_extends [OF assms(1)] assms(1) by simp
next
  case True
  let ?n = "sc_column_name ch"
  consider (add) "sc_type ch = ChangeAddColumn" "delta_field_index fs ?n = None"
      "fs' = fs @ [(field_of (sc_new ch))\<lparr>df_nullable := True\<rparr>]"
    | (relax) i where "sc_type ch = ChangeRelaxNullability \<or> sc_type ch = ChangeRemoveColumn"
      "delta_field_index fs ?n = Some i" "fs' = fs[i := (fs ! i)\<lparr>df_nullable := True\<rparr>]"
    using assms(1) True
    by (auto simp: evolve_change_def field_of_def split: change_type.splits option.splits sum.splits if_splits)
  then show ?thesis
  proof cases
    case add
    let ?g = "(field_of (sc_new ch))\<lparr>df_nullable := True\<rparr>"
    have s: "storable (sc_new ch)" "?n = c_name (sc_new ch)" using assms(2) add(1) by (simp_all add: good_add_def)
    have ix: "delta_field_index fs' ?n = Some (length fs)"
      using add(2,3) s(2) by (simp add: delta_field_index_def index_where_append field_of_def equal_fold_def)
    have "kept_field (field_of (sc_new ch)) ?g" by (simp add: kept_field_def)
    then obtain c' where "column_from_delta_field ?g = Inr c'"
      "same_physical_type c' (sc_new ch) = same_physical_type (read_back (sc_new ch)) (sc_new ch)"
      using column_of_kept_field [OF _ column_read_back [OF s(1)]] by blast
    then show ?thesis using add(1,3) ix read_back_same_type [OF s(1)] by (simp add: evolve_change_def)
  next
    case relax
    have e: "extends fs fs'" using evolve_change_extends [OF assms(1)] by simp
    have "i < length fs" using relax(2) index_where_Some by (auto simp: delta_field_index_def)
    then show ?thesis using relax extends_index(1) [OF e relax(2)] by (auto simp: evolve_change_def)
  qed
qed

lemma evolve_fields_props:
  assumes "evolve_fields fs chs = Inr (fs', b)" "\<forall>ch\<in>set chs. good_add ch"
  shows "extends fs fs' \<and> (\<not> b \<longrightarrow> fs' = fs) \<and> (\<forall>ch\<in>set chs. evolve_change fs' ch = Inr (fs', False))"
  using assms
proof (induction chs arbitrary: fs b)
  case (Cons ch chs)
  obtain fs1 b1 b2 where s: "evolve_change fs ch = Inr (fs1, b1)" "evolve_fields fs1 chs = Inr (fs', b2)" "b = (b1 \<or> b2)"
  proof (cases "evolve_change fs ch")
    case (Inr r)
    obtain fs1 b1 where r: "r = (fs1, b1)" by (cases r)
    then obtain b2 where "evolve_fields fs1 chs = Inr (fs', b2)" "b = (b1 \<or> b2)"
      using Cons.prems(1) Inr by (auto split: sum.splits)
    then show ?thesis using that Inr r by blast
  qed (use Cons.prems(1) in simp)
  have IH: "extends fs1 fs' \<and> (\<not> b2 \<longrightarrow> fs' = fs1) \<and> (\<forall>ch\<in>set chs. evolve_change fs' ch = Inr (fs', False))"
    using Cons.IH [OF s(2)] Cons.prems(2) by simp
  have "evolve_change fs' ch = Inr (fs', False)"
    using evolve_change_later evolve_change_done [OF s(1)] Cons.prems(2) IH by simp
  then show ?case
    using IH s(3) evolve_change_extends [OF s(1)] extends_trans by auto
qed simp

lemma evolve_fields_done:
  "\<forall>ch\<in>set chs. evolve_change fs ch = Inr (fs, False) \<Longrightarrow> evolve_fields fs chs = Inr (fs, False)"
  by (induction chs) simp_all



subsection \<open>Examples\<close>

definition mk_column :: "string \<Rightarrow> data_type \<Rightarrow> bool \<Rightarrow> column" where
  "mk_column n t b = zero_column\<lparr>c_name := n, c_type := t, c_nullable := b\<rparr>"

definition orders_schema :: table_schema where
  "orders_schema = \<lparr>ts_name = ''orders'', ts_schema = [], ts_columns =
     [mk_column ''id'' TypeInt64 False, (mk_column ''amount'' TypeDecimal True)\<lparr>c_scale := 2\<rparr>,
      (mk_column ''tags'' TypeArray True)\<lparr>c_array_type := TypeUUID\<rparr>, mk_column ''at'' TypeTimestamp True,
      mk_column ''length'' TypeInterval True],
     ts_primary_keys = [''id''], ts_incremental_key = [], ts_partition_by = []\<rparr>"


definition orders_metadata :: delta_metadata where
  "orders_metadata = \<lparr>dm_id = ''t'', dm_fields = [\<lparr>df_name = ''id'', df_type = DName ''long'', df_nullable = False, df_metadata = []\<rparr>],
     dm_partition_columns = [], dm_configuration = []\<rparr>"

definition add_note :: schema_comparison where
  "add_note = \<lparr>cmp_changes = [mk_change ChangeAddColumn ''note'' None (mk_column ''note'' TypeJSON True),
       mk_change ChangeRelaxNullability ''ID'' None (mk_column ''id'' TypeInt64 True)], cmp_has_changes = True\<rparr>"

definition orders_evolved :: delta_metadata where
  "orders_evolved = orders_metadata\<lparr>dm_fields :=
     [\<lparr>df_name = ''id'', df_type = DName ''long'', df_nullable = True, df_metadata = []\<rparr>,
      \<lparr>df_name = ''note'', df_type = DName ''string'', df_nullable = True, df_metadata = []\<rparr>]\<rparr>"


end
