(* ===== verification/Onelake_Log.thy ===== *)
theory Onelake_Log
  imports Onelake_Delta
begin

text \<open>
  The transaction log of a Delta table as the OneLake destination reads and writes it: the commits
  it builds (\<^verbatim>\<open>delta.go\<close>), the listing of the log (\<^verbatim>\<open>internal/adlsutil/datalake.go\<close>), replaying it
  to a snapshot and the scan for the metadata with its cache (\<^verbatim>\<open>delta_io.go\<close>).

  A commit is its list of actions. An action that ingestr ignores (\<^verbatim>\<open>commitInfo\<close>, \<^verbatim>\<open>txn\<close>) is
  \<open>OtherAction\<close>; times and sizes, which nothing reads back, are left out.
\<close>

subsection \<open>Commits\<close>

datatype delta_action =
    AddFile string bool | RemoveFile string | SetMetaData delta_metadata | SetProtocol delta_protocol | OtherAction

type_synonym commit = "delta_action list"

definition add_actions :: "string list \<Rightarrow> commit" where
  "add_actions paths = map (\<lambda>p. AddFile p False) paths"

definition remove_actions :: "string list \<Rightarrow> commit" where
  "remove_actions paths = map RemoveFile paths"

definition new_delta_metadata :: "column list \<Rightarrow> string \<Rightarrow> delta_metadata" where
  "new_delta_metadata cols table_id =
     \<lparr>dm_id = table_id, dm_fields = delta_schema_of cols, dm_partition_columns = [], dm_configuration = []\<rparr>"

definition build_initial_commit :: "column list \<Rightarrow> string list \<Rightarrow> string \<Rightarrow> commit" where
  "build_initial_commit cols adds table_id =
     [SetProtocol \<lparr>dp_min_reader = 1, dp_min_writer = 2, dp_reader_features = [], dp_writer_features = []\<rparr>,
      SetMetaData (new_delta_metadata cols table_id)] @ add_actions adds @ [OtherAction]"

definition build_schema_evolution_commit :: "delta_metadata \<Rightarrow> commit" where
  "build_schema_evolution_commit md = [SetMetaData md, OtherAction]"

definition build_append_commit :: "string list \<Rightarrow> commit" where
  "build_append_commit adds = add_actions adds @ [OtherAction]"

definition build_rewrite_commit :: "string list \<Rightarrow> string list \<Rightarrow> commit" where
  "build_rewrite_commit removes adds = remove_actions removes @ add_actions adds @ [OtherAction]"

text \<open>\<open>commitFileName\<close>, and the entries of a listing: the base names that end in \<^verbatim>\<open>.json\<close> and
  start with a number, sorted by that number.\<close>

definition commit_file_name :: "int \<Rightarrow> string" where
  "commit_file_name v = pad_to 20 v @ ''.json''"

definition base_name :: "string \<Rightarrow> string" where
  "base_name n = last (split_on (CHR ''/'') n)"

definition log_entry :: "string \<times> string \<Rightarrow> (int \<times> string) option" where
  "log_entry p =
     (let n = base_name (fst p)
      in if has_suffix n ''.json'' then map_option (\<lambda>v. (v, snd p)) (atoi (take (length n - 5) n)) else None)"

definition list_log_entries :: "(string \<times> string) list \<Rightarrow> (int \<times> string) list" where
  "list_log_entries paths = sort_key fst (List.map_filter log_entry paths)"

definition list_log_versions :: "(string \<times> string) list \<Rightarrow> int list" where
  "list_log_versions paths = map fst (list_log_entries paths)"

subsection \<open>Replaying the log\<close>

record replay =
  rp_metadata :: "delta_metadata option"
  rp_protocol :: "delta_protocol option"
  rp_active :: "string \<Rightarrow> bool option"
  rp_order :: "string list"

definition empty_replay :: replay where
  "empty_replay = \<lparr>rp_metadata = None, rp_protocol = None, rp_active = Map.empty, rp_order = []\<rparr>"

fun replay_action :: "replay \<Rightarrow> delta_action \<Rightarrow> replay" where
  "replay_action s (AddFile p dv) =
     s\<lparr>rp_order := (if rp_active s p = None then rp_order s @ [p] else rp_order s), rp_active := (rp_active s)(p \<mapsto> dv)\<rparr>"
| "replay_action s (RemoveFile p) = s\<lparr>rp_active := (rp_active s)(p := None)\<rparr>"
| "replay_action s (SetMetaData md) = s\<lparr>rp_metadata := Some md\<rparr>"
| "replay_action s (SetProtocol p) = s\<lparr>rp_protocol := Some p\<rparr>"
| "replay_action s OtherAction = s"

definition replay_commit :: "replay \<Rightarrow> commit \<Rightarrow> replay" where
  "replay_commit s c = foldl replay_action s c"

text \<open>A snapshot: \<open>None\<close> when the log is empty.\<close>

record snapshot =
  sn_version :: int
  sn_first_version :: int
  sn_active_files :: "string list"
  sn_dv_files :: "string list"
  sn_metadata :: "delta_metadata option"
  sn_metadata_version :: int
  sn_protocol :: "delta_protocol option"
  sn_protocol_version :: int

datatype log_error = ReadFailed int

text \<open>\<open>readDeltaSnapshot\<close>: \<open>download v\<close> is the commit of a version, \<open>None\<close> when it cannot be read.\<close>

fun replay_versions :: "(int \<Rightarrow> commit option) \<Rightarrow> int list \<Rightarrow> replay \<Rightarrow> (log_error, replay) result" where
  "replay_versions download [] s = Inr s"
| "replay_versions download (v # vs) s =
     (case download v of
        None \<Rightarrow> Inl (ReadFailed v)
      | Some c \<Rightarrow> replay_versions download vs (replay_commit s c))"

definition read_delta_snapshot :: "int list \<Rightarrow> (int \<Rightarrow> commit option) \<Rightarrow> (log_error, snapshot option) result" where
  "read_delta_snapshot versions download =
     (if versions = [] then Inr None
      else (case replay_versions download versions empty_replay of
              Inl e \<Rightarrow> Inl e
            | Inr s \<Rightarrow>
                (let files = filter (\<lambda>p. rp_active s p \<noteq> None) (rp_order s)
                 in Inr (Some \<lparr>sn_version = last versions, sn_first_version = hd versions, sn_active_files = files,
                      sn_dv_files = filter (\<lambda>p. rp_active s p = Some True) files,
                      sn_metadata = rp_metadata s, sn_metadata_version = 0,
                      sn_protocol = rp_protocol s, sn_protocol_version = 0\<rparr>))))"

subsection \<open>The scan for the metadata\<close>

text \<open>What a scan found and the ETags it saw; \<open>mc_protocol_version\<close> is \<open>-1\<close> for a log without one.\<close>

record metadata_cache =
  mc_version :: int
  mc_metadata_version :: int
  mc_protocol_version :: int
  mc_metadata :: delta_metadata
  mc_etags :: "(int \<times> string) list"

record scan =
  sc_metadata :: "delta_metadata option"
  sc_metadata_version :: int
  sc_protocol :: "delta_protocol option"
  sc_protocol_version :: int

definition empty_scan :: scan where
  "empty_scan = \<lparr>sc_metadata = None, sc_metadata_version = 0, sc_protocol = None, sc_protocol_version = 0\<rparr>"

definition etag_of :: "(int \<times> string) list \<Rightarrow> int \<Rightarrow> string" where
  "etag_of es v = (case map_of es v of None \<Rightarrow> [] | Some e \<Rightarrow> e)"

text \<open>\<open>sameCachedDeltaLog\<close>.\<close>

definition same_cached_log :: "metadata_cache \<Rightarrow> (int \<times> string) list \<Rightarrow> bool" where
  "same_cached_log k current \<longleftrightarrow>
     mc_etags k \<noteq> [] \<and>
     list_all (\<lambda>(v, e). mc_version k < v \<or> e \<noteq> [] \<and> etag_of current v = e) (mc_etags k) \<and>
     list_all (\<lambda>(v, e). mc_version k < v \<or> e \<noteq> [] \<and> etag_of (mc_etags k) v = e) current"

definition note_commit :: "scan \<Rightarrow> int \<Rightarrow> replay \<Rightarrow> scan" where
  "note_commit s v r =
     (let s1 = (if sc_metadata s = None \<and> rp_metadata r \<noteq> None
                then s\<lparr>sc_metadata := rp_metadata r, sc_metadata_version := v\<rparr> else s)
      in if sc_protocol s1 = None \<and> rp_protocol r \<noteq> None
         then s1\<lparr>sc_protocol := rp_protocol r, sc_protocol_version := v\<rparr> else s1)"

datatype scan_result = Scanned scan | Restart | ScanFailed int

text \<open>The loop over the versions from the newest to the oldest.\<close>

fun scan_back :: "(int \<Rightarrow> commit option) \<Rightarrow> metadata_cache option \<Rightarrow> int list \<Rightarrow> scan \<Rightarrow> scan_result" where
  "scan_back download cached [] s = Scanned s"
| "scan_back download cached (v # vs) s =
     (if (case cached of None \<Rightarrow> False
          | Some k \<Rightarrow> v \<le> mc_version k \<and> v \<noteq> mc_metadata_version k \<and> v \<noteq> mc_protocol_version k)
      then scan_back download cached vs s
      else (case download v of
              None \<Rightarrow> ScanFailed v
            | Some c \<Rightarrow>
                (let r = replay_commit empty_replay c
                 in if (case cached of None \<Rightarrow> False
                        | Some k \<Rightarrow> v = mc_metadata_version k \<and> rp_metadata r \<noteq> Some (mc_metadata k))
                    then Restart
                    else (let s' = note_commit s v r
                          in if sc_metadata s' \<noteq> None \<and> sc_protocol s' \<noteq> None then Scanned s'
                             else scan_back download cached vs s'))))"

definition scanned_snapshot :: "(int \<times> string) list \<Rightarrow> scan \<Rightarrow> snapshot" where
  "scanned_snapshot entries s =
     \<lparr>sn_version = fst (last entries), sn_first_version = fst (hd entries), sn_active_files = [], sn_dv_files = [],
      sn_metadata = sc_metadata s, sn_metadata_version = sc_metadata_version s,
      sn_protocol = sc_protocol s, sn_protocol_version = sc_protocol_version s\<rparr>"

text \<open>\<open>readDeltaMetadata\<close>.\<close>

definition read_delta_metadata ::
  "(int \<times> string) list \<Rightarrow> (int \<Rightarrow> commit option) \<Rightarrow> metadata_cache option \<Rightarrow> (log_error, snapshot option) result" where
  "read_delta_metadata entries download cached0 =
     (if entries = [] then Inr None
      else
        (let cached = (case cached0 of
                         None \<Rightarrow> None
                       | Some k \<Rightarrow> (if fst (last entries) < mc_version k \<or> \<not> same_cached_log k entries then None else Some k));
             versions = rev (map fst entries)
         in case scan_back download cached versions empty_scan of
              Scanned s \<Rightarrow> Inr (Some (scanned_snapshot entries s))
            | ScanFailed v \<Rightarrow> Inl (ReadFailed v)
            | Restart \<Rightarrow>
                (case scan_back download None versions empty_scan of
                   Scanned s \<Rightarrow> Inr (Some (scanned_snapshot entries s))
                 | ScanFailed v \<Rightarrow> Inl (ReadFailed v)
                 | Restart \<Rightarrow> Inl (ReadFailed 0))))"

text \<open>\<open>readTableMetadata\<close>: the snapshot and the cache entry it leaves.\<close>

definition cache_entry :: "(int \<times> string) list \<Rightarrow> snapshot \<Rightarrow> metadata_cache option" where
  "cache_entry entries s =
     (case sn_metadata s of
        None \<Rightarrow> None
      | Some md \<Rightarrow>
          Some \<lparr>mc_version = sn_version s, mc_metadata_version = sn_metadata_version s,
                mc_protocol_version = (if sn_protocol s = None then -1 else sn_protocol_version s),
                mc_metadata = md, mc_etags = entries\<rparr>)"

definition read_table_metadata ::
  "(int \<times> string) list \<Rightarrow> (int \<Rightarrow> commit option) \<Rightarrow> metadata_cache option
   \<Rightarrow> (log_error, snapshot option) result \<times> metadata_cache option" where
  "read_table_metadata entries download cached =
     (case read_delta_metadata entries download cached of
        Inl e \<Rightarrow> (Inl e, cached)
      | Inr None \<Rightarrow> (Inr None, None)
      | Inr (Some s) \<Rightarrow> (Inr (Some s), cache_entry entries s))"

end
