(* ===== verification/Runner.thy ===== *)
theory Runner
  imports Run_Store Complex_Main
begin

text \<open>
  \<^verbatim>\<open>fabric/runner\<close>: the configuration and its validation (\<^verbatim>\<open>config.go\<close>), the call budget
  (\<^verbatim>\<open>budget.go\<close>), the window and the arguments of one ingestr invocation (\<^verbatim>\<open>plan.go\<close>), and the
  run over the configured entities (\<^verbatim>\<open>main.go\<close>). The ingestr process itself is a parameter: a
  function of its arguments, the call-count file of its environment and the world. Fractions
  are exact rationals where the code has \<open>float64\<close>.
\<close>

subsection \<open>config.go\<close>

record entity_config =
  ec_table :: string
  ec_entity :: string
  ec_endpoint :: string
  ec_primary_key :: "string list"
  ec_incremental_key :: string
  ec_strategy :: string
  ec_schedule_group :: string
  ec_critical :: bool
  ec_allowlist :: "string list"
  ec_meta_entities :: "string list"
  ec_subscribed_entities :: "string list"

record runner_settings =
  rn_watermark_overlap :: duration
  rn_budget_threshold_fraction :: rat
  rn_monthly_call_limit :: int
  rn_secret_store :: string

record config =
  cfg_entities :: "entity_config list"
  cfg_runner :: runner_settings

datatype config_error =
  TableNameRequired | DuplicateTable string | AllowlistRequired string string | WildcardField string string
  | MetaEntitiesRequired string | SubscribedEntitiesRequired string | UnknownEndpoint string string
  | UnknownStrategy string string | CallLimitNotPositive | ThresholdOutOfRange | UnknownSecretStore string

definition validate_endpoint :: "entity_config \<Rightarrow> config_error option" where
  "validate_endpoint e =
     (if ec_endpoint e = ''search'' \<or> ec_endpoint e = ''query'' then
        (if ec_allowlist e = [] then Some (AllowlistRequired (ec_table e) (ec_endpoint e))
         else (case find (\<lambda>f. f = ''*'') (ec_allowlist e) of
                 Some f \<Rightarrow> Some (WildcardField (ec_table e) f) | None \<Rightarrow> None))
      else if ec_endpoint e = ''meta'' then
        (if ec_meta_entities e = [] then Some (MetaEntitiesRequired (ec_table e)) else None)
      else if ec_endpoint e = ''subscription'' then
        (if ec_subscribed_entities e = [] then Some (SubscribedEntitiesRequired (ec_table e)) else None)
      else Some (UnknownEndpoint (ec_table e) (ec_endpoint e)))"

fun validate_entities :: "string set \<Rightarrow> entity_config list \<Rightarrow> config_error option" where
  "validate_entities seen [] = None"
| "validate_entities seen (e # es) =
     (if ec_table e = [] then Some TableNameRequired
      else if ec_table e \<in> seen then Some (DuplicateTable (ec_table e))
      else (case validate_endpoint e of
              Some err \<Rightarrow> Some err
            | None \<Rightarrow>
                (if ec_strategy e = ''merge'' \<or> ec_strategy e = ''replace''
                 then validate_entities (insert (ec_table e) seen) es
                 else Some (UnknownStrategy (ec_table e) (ec_strategy e)))))"

definition validate :: "config \<Rightarrow> config_error option" where
  "validate c =
     (case validate_entities {} (cfg_entities c) of
        Some err \<Rightarrow> Some err
      | None \<Rightarrow>
          (if rn_monthly_call_limit (cfg_runner c) \<le> 0 then Some CallLimitNotPositive
           else if rn_budget_threshold_fraction (cfg_runner c) \<le> 0 \<or> 1 < rn_budget_threshold_fraction (cfg_runner c)
           then Some ThresholdOutOfRange
           else if rn_secret_store (cfg_runner c) = ''file'' \<or> rn_secret_store (cfg_runner c) = ''keyvault''
           then None else Some (UnknownSecretStore (rn_secret_store (cfg_runner c)))))"

text \<open>What a valid configuration is, entity by entity.\<close>

definition entity_ok :: "entity_config \<Rightarrow> bool" where
  "entity_ok e \<longleftrightarrow> ec_table e \<noteq> [] \<and>
     (case ec_endpoint e of ep \<Rightarrow>
        (ep = ''search'' \<or> ep = ''query'') \<and> ec_allowlist e \<noteq> [] \<and> ''*'' \<notin> set (ec_allowlist e) \<or>
        ep = ''meta'' \<and> ec_meta_entities e \<noteq> [] \<or>
        ep = ''subscription'' \<and> ec_subscribed_entities e \<noteq> []) \<and>
     ec_strategy e \<in> {''merge'', ''replace''}"

definition config_ok :: "config \<Rightarrow> bool" where
  "config_ok c \<longleftrightarrow> (\<forall>e \<in> set (cfg_entities c). entity_ok e) \<and> distinct (map ec_table (cfg_entities c)) \<and>
     0 < rn_monthly_call_limit (cfg_runner c) \<and>
     0 < rn_budget_threshold_fraction (cfg_runner c) \<and> rn_budget_threshold_fraction (cfg_runner c) \<le> 1 \<and>
     rn_secret_store (cfg_runner c) \<in> {''file'', ''keyvault''}"

lemma find_eq_None: "find (\<lambda>f. f = a) xs = None \<longleftrightarrow> a \<notin> set xs"
  by (auto simp: find_None_iff)

lemma wildcard_case: "(case find (\<lambda>f. f = a) xs of Some f \<Rightarrow> Some (g f) | None \<Rightarrow> None) = None \<longleftrightarrow> a \<notin> set xs"
  using find_eq_None [of a xs] by (cases "find (\<lambda>f. f = a) xs") simp_all

lemma endpoint_distinct:
  "''meta'' \<noteq> ''search''" "''meta'' \<noteq> ''query''" "''subscription'' \<noteq> ''search''" "''subscription'' \<noteq> ''query''"
  "''subscription'' \<noteq> ''meta''"
  by simp_all

lemma validate_endpoint_None:
  "validate_endpoint e = None \<longleftrightarrow>
     (ec_endpoint e = ''search'' \<or> ec_endpoint e = ''query'') \<and> ec_allowlist e \<noteq> [] \<and> ''*'' \<notin> set (ec_allowlist e) \<or>
     ec_endpoint e = ''meta'' \<and> ec_meta_entities e \<noteq> [] \<or>
     ec_endpoint e = ''subscription'' \<and> ec_subscribed_entities e \<noteq> []"
proof -
  consider (sq) "ec_endpoint e = ''search'' \<or> ec_endpoint e = ''query''" | (m) "ec_endpoint e = ''meta''"
    | (s) "ec_endpoint e = ''subscription''"
    | (o) "ec_endpoint e \<noteq> ''search''" "ec_endpoint e \<noteq> ''query''" "ec_endpoint e \<noteq> ''meta''"
      "ec_endpoint e \<noteq> ''subscription''" by blast
  then show ?thesis
  proof cases
    case sq
    then have "ec_endpoint e \<noteq> ''meta''" "ec_endpoint e \<noteq> ''subscription''" by auto
    with sq show ?thesis by (simp add: validate_endpoint_def wildcard_case)
  qed (simp_all add: validate_endpoint_def)
qed

lemma validate_endpoint_ok:
  "ec_table e \<noteq> [] \<Longrightarrow>
     validate_endpoint e = None \<and> (ec_strategy e = ''merge'' \<or> ec_strategy e = ''replace'') \<longleftrightarrow> entity_ok e"
  unfolding validate_endpoint_None entity_ok_def by simp

lemma validate_entities_ok:
  "validate_entities seen es = None \<longleftrightarrow>
     (\<forall>e \<in> set es. entity_ok e) \<and> distinct (map ec_table es) \<and> (\<forall>e \<in> set es. ec_table e \<notin> seen)"
proof (induction es arbitrary: seen)
  case (Cons e es)
  show ?case
  proof (cases "ec_table e = []")
    case True
    then show ?thesis by (auto simp: entity_ok_def)
  next
    case False
    then show ?thesis
      using Cons.IH [of "insert (ec_table e) seen"] validate_endpoint_ok [OF False]
      by (cases "validate_endpoint e") (auto simp: image_iff)
  qed
qed simp

lemma validate_ok_iff: "validate c = None \<longleftrightarrow> config_ok c"
  unfolding validate_def config_ok_def
  using validate_entities_ok [of "{}" "cfg_entities c"] by (auto split: option.splits)

text \<open>The YAML decoder is a library; a duration that does not parse is an error of its.\<close>

definition load_config :: "(string \<Rightarrow> config option) \<Rightarrow> string \<Rightarrow> world \<Rightarrow> (config_error option, config) result" where
  "load_config yaml path w =
     (case read_text path w of
        None \<Rightarrow> Inl None
      | Some data \<Rightarrow>
          (case yaml data of
             None \<Rightarrow> Inl None
           | Some cfg \<Rightarrow> (case validate cfg of Some err \<Rightarrow> Inl (Some err) | None \<Rightarrow> Inr cfg)))"

subsection \<open>budget.go\<close>

definition projected_month_end_calls :: "gotime \<Rightarrow> int \<Rightarrow> rat" where
  "projected_month_end_calls now calls =
     (let month = month_start now;
          total = time_sub (next_month_start now) month;
          elapsed0 = time_sub now month;
          elapsed = (if elapsed0 < hour then hour else elapsed0);
          fraction = of_int elapsed / of_int total
      in of_int calls / fraction)"

definition budget_exceeded :: "rat \<Rightarrow> int \<Rightarrow> rat \<Rightarrow> bool" where
  "budget_exceeded projected monthly_limit threshold \<longleftrightarrow> of_int monthly_limit * threshold < projected"

subsection \<open>plan.go\<close>

definition compute_interval_start :: "gotime \<Rightarrow> gotime option \<Rightarrow> duration \<Rightarrow> gotime" where
  "compute_interval_start watermark seed overlap =
     (if \<not> is_zero_time watermark then watermark - overlap
      else (case seed of Some s \<Rightarrow> s - overlap | None \<Rightarrow> zero_time))"

definition should_run_entity :: "entity_config \<Rightarrow> bool \<Rightarrow> bool" where
  "should_run_entity e over \<longleftrightarrow> (if ec_critical e then True else \<not> over)"

definition bullhorn_source_table :: "entity_config \<Rightarrow> string" where
  "bullhorn_source_table e =
     (if ec_endpoint e = ''search'' \<or> ec_endpoint e = ''query''
      then ec_table e @ ''?fields='' @ join '','' (ec_allowlist e)
      else if ec_endpoint e = ''meta'' then ec_table e @ ''?entities='' @ join '','' (ec_meta_entities e)
      else if ec_endpoint e = ''subscription''
      then ec_table e @ ''?entities='' @ join '','' (ec_subscribed_entities e)
      else ec_table e)"

definition build_ingestr_args ::
  "entity_config \<Rightarrow> string \<Rightarrow> string \<Rightarrow> string \<Rightarrow> gotime \<Rightarrow> gotime \<Rightarrow> string list" where
  "build_ingestr_args e source_uri source_table dest_uri interval_start interval_end =
     [''ingest'', ''--source-uri='' @ source_uri, ''--source-table='' @ source_table,
      ''--dest-uri='' @ dest_uri, ''--dest-table=bullhorn.'' @ ec_table e,
      ''--incremental-strategy='' @ ec_strategy e, ''--yes''] @
     (if ec_primary_key e \<noteq> [] then [''--primary-key='' @ join '','' (ec_primary_key e)] else []) @
     (if ec_incremental_key e \<noteq> []
      then [''--incremental-key='' @ ec_incremental_key e] @
           (if \<not> is_zero_time interval_start then [''--interval-start='' @ format_rfc3339 interval_start] else []) @
           [''--interval-end='' @ format_rfc3339 interval_end]
      else [])"

definition parse_call_count :: "string \<Rightarrow> int option" where
  "parse_call_count raw = (let s = trim_space raw in if s = [] then None else atoi s)"

subsection \<open>main.go: one entity\<close>

record runner_env =
  re_config_path :: string
  re_state_path :: string
  re_lock_path :: string
  re_ingestr_bin :: string
  re_schedule_only :: string
  re_client_id :: string
  re_username :: string
  re_data_center :: string
  re_rate_limit :: string
  re_onelake_uri :: string
  re_secret_path :: string
  re_key_vault_url :: string
  re_token_tmp_dir :: string
  re_call_tmp_dir :: string

definition env_or :: "world \<Rightarrow> string \<Rightarrow> string \<Rightarrow> string" where
  "env_or w key fallback = (if w_env w key \<noteq> [] then w_env w key else fallback)"

definition build_onelake_uri :: "string \<Rightarrow> string \<Rightarrow> string" where
  "build_onelake_uri workspace lakehouse =
     (if workspace = [] \<or> lakehouse = [] then []
      else ''onelake://'' @ workspace @ ''/'' @ lakehouse @ ''?use_azure_default_credential=true'')"

definition load_runner_env :: "world \<Rightarrow> runner_env" where
  "load_runner_env w =
     (let state_path = env_or w ''AFC_STATE_PATH'' ''fabric/state/bullhorn_state.json''
      in \<lparr>re_config_path = env_or w ''AFC_ENTITIES_CONFIG'' ''fabric/runner/entities.yaml'',
          re_state_path = state_path,
          re_lock_path = env_or w ''AFC_LOCK_PATH'' (state_path @ ''.lock''),
          re_ingestr_bin = env_or w ''AFC_INGESTR_BIN'' ''ingestr'',
          re_schedule_only = w_env w ''AFC_SCHEDULE_GROUP'',
          re_client_id = w_env w ''BULLHORN_CLIENT_ID'',
          re_username = w_env w ''BULLHORN_USERNAME'',
          re_data_center = w_env w ''BULLHORN_DATA_CENTER'',
          re_rate_limit = w_env w ''BULLHORN_RATE_LIMIT'',
          re_onelake_uri = build_onelake_uri (w_env w ''ONELAKE_WORKSPACE'') (w_env w ''ONELAKE_LAKEHOUSE''),
          re_secret_path = env_or w ''AFC_SECRET_FILE_PATH'' ''fabric/state/secrets.json'',
          re_key_vault_url = w_env w ''AFC_KEY_VAULT_URL'',
          re_token_tmp_dir = env_or w ''AFC_TMP_DIR'' (w_temp_dir w),
          re_call_tmp_dir = env_or w ''AFC_TMP_DIR'' (w_temp_dir w)\<rparr>)"

text \<open>\<open>filepath.Join\<close> of a directory without a trailing slash and a file name.\<close>

definition join_path :: "string \<Rightarrow> string \<Rightarrow> string" where
  "join_path dir name = (if dir = [] then name else dir @ ''/'' @ name)"

definition token_out_path :: "runner_env \<Rightarrow> string \<Rightarrow> string" where
  "token_out_path env table = join_path (re_token_tmp_dir env) (''afc-token-'' @ table @ ''.json'')"

definition call_count_path :: "runner_env \<Rightarrow> string \<Rightarrow> string" where
  "call_count_path env table = join_path (re_call_tmp_dir env) (''afc-calls-'' @ table @ ''.txt'')"

definition subscription_state_path :: "runner_env \<Rightarrow> string" where
  "subscription_state_path env = join_path (re_token_tmp_dir env) ''afc-subscription-state.json''"

definition seed_watermark :: "string \<Rightarrow> world \<Rightarrow> gotime option" where
  "seed_watermark table w =
     (case read_text (''fabric/state/seed/'' @ table @ ''.json'') w of
        None \<Rightarrow> None
      | Some data \<Rightarrow>
          (let raw = trim_space data
           in case atoi raw of Some n \<Rightarrow> Some (from_unix_milli n) | None \<Rightarrow> parse_rfc3339 raw))"

definition current_refresh_token :: "vault_api \<Rightarrow> runner_env \<Rightarrow> world \<Rightarrow> (runner_error, string) result \<times> world" where
  "current_refresh_token va env w =
     (if w_env w ''BULLHORN_REFRESH_TOKEN'' \<noteq> [] then (Inr (w_env w ''BULLHORN_REFRESH_TOKEN''), w)
      else (case new_secret_store va (env_or w ''AFC_SECRET_STORE_KIND'' ''file'') (re_secret_path env)
                   (re_key_vault_url env) of
              Inl e \<Rightarrow> (Inl e, w)
            | Inr ref \<Rightarrow> get_secret va ref ''bullhorn_refresh_token'' w))"

definition rotate_token_if_present ::
  "vault_api \<Rightarrow> secret_store_ref \<Rightarrow> runner_env \<Rightarrow> entity_config \<Rightarrow> world \<Rightarrow> (runner_error, unit) result \<times> world" where
  "rotate_token_if_present va store env e w =
     (case read_text (token_out_path env (ec_table e)) w of
        None \<Rightarrow> (Inr (), w)
      | Some data \<Rightarrow>
          (let token = trim_space data
           in if token = [] then (Inr (), w) else set_secret va store ''bullhorn_refresh_token'' token w))"

definition source_uri :: "runner_env \<Rightarrow> string \<Rightarrow> string \<Rightarrow> string" where
  "source_uri env refresh_token token_out =
     ''bullhorn://?client_id='' @ re_client_id env @ ''&refresh_token='' @ refresh_token @
     ''&username='' @ re_username env @ ''&data_center='' @ re_data_center env @
     ''&rate_limit='' @ re_rate_limit env @ ''&token_output='' @ token_out"

text \<open>The process: its arguments and the path of the call-count file; it answers with its error
  output when it fails.\<close>

type_synonym process = "string list \<Rightarrow> string \<Rightarrow> world \<Rightarrow> string option \<times> world"

text \<open>The deferred removals of \<open>runEntity\<close>, in the order they run.\<close>

definition finish_entity :: "runner_env \<Rightarrow> entity_config \<Rightarrow> world \<Rightarrow> world" where
  "finish_entity env e w =
     remove_file (token_out_path env (ec_table e)) (remove_file (call_count_path env (ec_table e)) w)"

definition finish_subscription :: "runner_env \<Rightarrow> run_state \<Rightarrow> world \<Rightarrow> run_state \<times> world" where
  "finish_subscription env st w =
     (let p = subscription_state_path env
      in ((case read_text p w of
             Some data \<Rightarrow> st\<lparr>rs_subscription_request_id := trim_space data\<rparr> | None \<Rightarrow> st),
          remove_file p w))"

text \<open>The invocation proper: the window, the process, the call count.\<close>

definition invoke_ingestr ::
  "process \<Rightarrow> runner_env \<Rightarrow> duration \<Rightarrow> run_state \<Rightarrow> entity_config \<Rightarrow> string \<Rightarrow> string \<Rightarrow> world
     \<Rightarrow> (int \<times> runner_error option) \<times> world" where
  "invoke_ingestr ingestr env overlap st e uri source_table w =
     (let watermark = (case rs_watermarks st (ec_table e) of Some t \<Rightarrow> t | None \<Rightarrow> zero_time);
          interval_start = compute_interval_start watermark (seed_watermark (ec_table e) w) overlap;
          interval_end = w_now w;
          args = build_ingestr_args e uri source_table (re_onelake_uri env) interval_start interval_end;
          call_path = call_count_path env (ec_table e)
      in case ingestr args call_path w of (run_err, w') \<Rightarrow>
           (let calls = (case read_text call_path w' of
                  None \<Rightarrow> 0 | Some data \<Rightarrow> (case parse_call_count data of Some n \<Rightarrow> n | None \<Rightarrow> 0))
            in ((calls, map_option (IngestrFailed (ec_table e) (ec_endpoint e)) run_err), w')))"

definition run_entity ::
  "vault_api \<Rightarrow> process \<Rightarrow> runner_env \<Rightarrow> duration \<Rightarrow> run_state \<Rightarrow> entity_config \<Rightarrow> world
     \<Rightarrow> run_state \<times> (int \<times> runner_error option) \<times> world" where
  "run_entity va ingestr env overlap st e w =
     (if re_onelake_uri env = [] then (st, (0, Some OneLakeNotConfigured), w)
      else (case current_refresh_token va env w of
              (Inl err, w1) \<Rightarrow> (st, (0, Some err), w1)
            | (Inr refresh_token, w1) \<Rightarrow>
                (let uri = source_uri env refresh_token (token_out_path env (ec_table e));
                     source_table = bullhorn_source_table e;
                     sub_path = subscription_state_path env
                 in if ec_endpoint e = ''subscription''
                    then (if rs_subscription_request_id st \<noteq> [] \<and> w_fault w1 IoWrite
                          then (st, (0, Some WritingSubscriptionState), finish_entity env e w1)
                          else
                            (let w2 = (if rs_subscription_request_id st \<noteq> []
                                       then put_file sub_path (Text (rs_subscription_request_id st)) w1 else w1)
                             in case invoke_ingestr ingestr env overlap st e uri
                                       (source_table @ ''&state_path='' @ sub_path) w2 of
                                  (r, w3) \<Rightarrow>
                                    (case finish_subscription env st w3 of (st', w4) \<Rightarrow> (st', r, finish_entity env e w4))))
                    else (case invoke_ingestr ingestr env overlap st e uri source_table w1 of
                            (r, w2) \<Rightarrow> (st, r, finish_entity env e w2)))))"

subsection \<open>main.go: the run\<close>

datatype outcome = OtherGroup | SkippedBudget | EntityFailed runner_error | EntityOk

definition run_one ::
  "vault_api \<Rightarrow> process \<Rightarrow> runner_env \<Rightarrow> duration \<Rightarrow> secret_store_ref \<Rightarrow> bool \<Rightarrow> gotime \<Rightarrow> entity_config
     \<Rightarrow> run_state \<times> world \<times> bool \<Rightarrow> outcome \<times> run_state \<times> world \<times> bool" where
  "run_one va ingestr env overlap store over now e = (\<lambda>(st, w, failed).
     (if re_schedule_only env \<noteq> [] \<and> ec_schedule_group e \<noteq> re_schedule_only env
      then (OtherGroup, st, w, failed)
      else if \<not> should_run_entity e over then (SkippedBudget, st, w, failed)
      else (case run_entity va ingestr env overlap st e w of
              (st1, (calls, Some err), w1) \<Rightarrow> (EntityFailed err, add_calls st1 now calls, w1, True)
            | (st1, (calls, None), w1) \<Rightarrow>
                (let st2 = add_calls st1 now calls;
                     st3 = st2\<lparr>rs_watermarks := (rs_watermarks st2)(ec_table e \<mapsto> now)\<rparr>
                 in case save_state st3 (re_state_path env) w1 of (saved, w2) \<Rightarrow>
                      (case rotate_token_if_present va store env e w2 of (rotated, w3) \<Rightarrow>
                         (EntityOk, st3, w3, failed \<or> \<not> is_ok saved \<or> \<not> is_ok rotated))))))"

fun run_entities ::
  "vault_api \<Rightarrow> process \<Rightarrow> runner_env \<Rightarrow> duration \<Rightarrow> secret_store_ref \<Rightarrow> bool \<Rightarrow> gotime \<Rightarrow> entity_config list
     \<Rightarrow> run_state \<times> world \<times> bool \<Rightarrow> outcome list \<times> run_state \<times> world \<times> bool" where
  "run_entities va ingestr env overlap store over now [] s = ([], s)"
| "run_entities va ingestr env overlap store over now (e # es) s =
     (case run_one va ingestr env overlap store over now e s of (out, s1) \<Rightarrow>
        (case run_entities va ingestr env overlap store over now es s1 of (outs, s2) \<Rightarrow> (out # outs, s2)))"

definition exit_ok :: int where "exit_ok = 0"
definition exit_entity_failed :: int where "exit_entity_failed = 1"
definition exit_budget_warning :: int where "exit_budget_warning = 2"

definition exit_code :: "bool \<Rightarrow> bool \<Rightarrow> int" where
  "exit_code any_failed over =
     (if any_failed then exit_entity_failed else if over then exit_budget_warning else exit_ok)"

text \<open>The state is loaded before the lock is taken, as the code does.\<close>

definition run :: "(string \<Rightarrow> config option) \<Rightarrow> vault_api \<Rightarrow> process \<Rightarrow> string \<Rightarrow> world \<Rightarrow> int \<times> world" where
  "run yaml va ingestr config_flag w =
     (let env0 = load_runner_env w;
          env = (if config_flag \<noteq> [] then env0\<lparr>re_config_path := config_flag\<rparr> else env0)
      in case load_config yaml (re_config_path env) w of
           Inl _ \<Rightarrow> (exit_entity_failed, w)
         | Inr cfg \<Rightarrow>
             (case new_secret_store va (rn_secret_store (cfg_runner cfg)) (re_secret_path env) (re_key_vault_url env) of
                Inl _ \<Rightarrow> (exit_entity_failed, w)
              | Inr store \<Rightarrow>
                  (case load_state (re_state_path env) w of
                     Inl _ \<Rightarrow> (exit_entity_failed, w)
                   | Inr st \<Rightarrow>
                       (case acquire_lock (re_lock_path env) w of
                          (Inl _, w1) \<Rightarrow> (exit_entity_failed, w1)
                        | (Inr lock, w1) \<Rightarrow>
                            (let now = w_now w1;
                                 projected = projected_month_end_calls now (calls_this_month st now);
                                 over = budget_exceeded projected (rn_monthly_call_limit (cfg_runner cfg))
                                          (rn_budget_threshold_fraction (cfg_runner cfg))
                             in case run_entities va ingestr env (rn_watermark_overlap (cfg_runner cfg)) store over now
                                       (cfg_entities cfg) (st, w1, False) of
                                  (_, st2, w2, failed) \<Rightarrow>
                                    (case save_state st2 (re_state_path env) w2 of
                                       (saved, w3) \<Rightarrow>
                                         (exit_code (failed \<or> \<not> is_ok saved) over,
                                          snd (release_lock lock w3))))))))"

subsection \<open>What a run does\<close>

lemma remove_file_gone: "\<not> w_fault w IoRemove \<Longrightarrow> w_files (remove_file p w) p = None"
  by (simp add: remove_file_def)

lemma finish_entity_gone:
  "\<not> w_fault (finish_entity env e w) IoRemove \<Longrightarrow> w_files (finish_entity env e w) (token_out_path env (ec_table e)) = None"
  by (simp add: finish_entity_def remove_file_gone)

text \<open>Once \<open>runEntity\<close> has started the process, its deferred removals, unless they fail, leave no token file.\<close>

lemma run_entity_token_gone:
  assumes "run_entity va ingestr env overlap st e w = (st', (calls, None), w')" "\<not> w_fault w' IoRemove"
  shows "w_files w' (token_out_path env (ec_table e)) = None"
  using assms finish_entity_gone [of env e]
  by (auto simp: run_entity_def Let_def split: prod.splits sum.splits if_splits)

lemma rotate_no_file:
  "w_files w (token_out_path env (ec_table e)) = None \<Longrightarrow> rotate_token_if_present va store env e w = (Inr (), w)"
  by (simp add: rotate_token_if_present_def read_text_def)

lemma run_entity_watermarks:
  "run_entity va ingestr env overlap st e w = (st', r, w') \<Longrightarrow> rs_watermarks st' = rs_watermarks st"
  by (auto simp: run_entity_def finish_subscription_def Let_def split: prod.splits sum.splits if_splits option.splits)

lemma run_one_watermarks:
  assumes "run_one va ingestr env overlap store over now e (st, w, failed) = (out, st', w', failed')"
  shows "rs_watermarks st' = (if out = EntityOk then (rs_watermarks st)(ec_table e \<mapsto> now) else rs_watermarks st)"
  using assms
  by (auto simp: run_one_def Let_def split: prod.splits option.splits if_splits dest!: run_entity_watermarks)

lemma run_one_failed:
  assumes "run_one va ingestr env overlap store over now e (st, w, failed) = (out, st', w', failed')"
  shows "(failed \<longrightarrow> failed') \<and> ((\<exists>err. out = EntityFailed err) \<longrightarrow> failed')"
  using assms by (auto simp: run_one_def Let_def split: prod.splits option.splits if_splits)

lemma run_one_critical:
  assumes "run_one va ingestr env overlap store over now e s = (SkippedBudget, s')"
  shows "over \<and> \<not> ec_critical e"
  using assms
  by (auto simp: run_one_def should_run_entity_def Let_def split: prod.splits option.splits if_splits)

lemma run_entities_length:
  "run_entities va ingestr env overlap store over now es s = (outs, s') \<Longrightarrow> length outs = length es"
  by (induction es arbitrary: s outs s') (auto split: prod.splits)

lemma run_entities_watermarks:
  assumes "run_entities va ingestr env overlap store over now es (st, w, failed) = (outs, st', w', failed')"
  shows "rs_watermarks st' =
    foldl (\<lambda>m (e, out). if out = EntityOk then m(ec_table e \<mapsto> now) else m) (rs_watermarks st) (zip es outs)"
  using assms
proof (induction es arbitrary: st w failed outs)
  case (Cons e es)
  obtain out st1 w1 f1 where 1: "run_one va ingestr env overlap store over now e (st, w, failed) = (out, st1, w1, f1)"
    by (cases "run_one va ingestr env overlap store over now e (st, w, failed)") auto
  obtain outs2 where 2: "run_entities va ingestr env overlap store over now es (st1, w1, f1) = (outs2, st', w', failed')"
    and o: "outs = out # outs2"
    using Cons.prems 1 by (auto split: prod.splits)
  show ?case using Cons.IH [OF 2] run_one_watermarks [OF 1] by (simp add: o)
qed simp

lemma watermark_fold:
  assumes "distinct (map ec_table es)" "length outs = length es"
  shows "foldl (\<lambda>m (e, out). if out = EntityOk then m(ec_table e \<mapsto> now) else m) m0 (zip es outs) t =
    (if \<exists>e out. (e, out) \<in> set (zip es outs) \<and> ec_table e = t \<and> out = EntityOk then Some now else m0 t)"
  using assms(2,1)
proof (induction es outs arbitrary: m0 rule: list_induct2')
  case (4 e es out outs)
  then show ?case by auto
qed simp_all

lemma run_entities_failed:
  assumes "run_entities va ingestr env overlap store over now es (st, w, failed) = (outs, st', w', failed')"
  shows "(failed \<longrightarrow> failed') \<and> ((\<exists>err. EntityFailed err \<in> set outs) \<longrightarrow> failed')"
  using assms
proof (induction es arbitrary: st w failed outs)
  case (Cons e es)
  obtain out st1 w1 f1 where 1: "run_one va ingestr env overlap store over now e (st, w, failed) = (out, st1, w1, f1)"
    by (cases "run_one va ingestr env overlap store over now e (st, w, failed)") auto
  obtain outs2 where 2: "run_entities va ingestr env overlap store over now es (st1, w1, f1) = (outs2, st', w', failed')"
    and o: "outs = out # outs2"
    using Cons.prems 1 by (auto split: prod.splits)
  show ?case using Cons.IH [OF 2] run_one_failed [OF 1] o by auto
qed auto

text \<open>The next window starts before the last one ended.\<close>

lemma next_interval_start:
  assumes "rs_watermarks st (ec_table e) = Some now" "now \<noteq> zero_time"
  shows "compute_interval_start (case rs_watermarks st (ec_table e) of Some t \<Rightarrow> t | None \<Rightarrow> zero_time) seed overlap
     = now - overlap"
  using assms by (simp add: compute_interval_start_def is_zero_time_def)

text \<open>The budget, without the division.\<close>

lemma month_length_pos: "0 < time_sub (next_month_start now) (month_start now)"
  by (simp add: time_sub_pos next_month_later)

lemma budget_exceeded_cross:
  "budget_exceeded (projected_month_end_calls now calls) limit threshold \<longleftrightarrow>
    of_int limit * threshold * of_int (max hour (time_sub now (month_start now))) <
      (of_int (calls * time_sub (next_month_start now) (month_start now)) :: rat)"
proof -
  have "projected_month_end_calls now calls =
      of_int (calls * time_sub (next_month_start now) (month_start now)) /
        of_int (max hour (time_sub now (month_start now)))"
    by (auto simp: projected_month_end_calls_def Let_def max_def)
  moreover have "(0 :: rat) < of_int (max hour (time_sub now (month_start now)))"
    by (simp add: hour_def max_def)
  ultimately show ?thesis by (simp add: budget_exceeded_def pos_less_divide_eq)
qed

lemma budget_exceeded_mono:
  assumes "budget_exceeded (projected_month_end_calls now calls) limit threshold" "calls \<le> calls'"
  shows "budget_exceeded (projected_month_end_calls now calls') limit threshold"
proof -
  have "(of_int (calls * time_sub (next_month_start now) (month_start now)) :: rat) \<le>
      of_int (calls' * time_sub (next_month_start now) (month_start now))"
    using assms(2) month_length_pos [of now] by (simp only: of_int_le_iff) (simp add: mult_right_mono)
  then show ?thesis using assms(1) unfolding budget_exceeded_cross by linarith
qed

text \<open>What a run without failures and within the budget does to each entity.\<close>

definition expected_outcome :: "runner_env \<Rightarrow> entity_config \<Rightarrow> outcome" where
  "expected_outcome env e =
     (if re_schedule_only env = [] \<or> ec_schedule_group e = re_schedule_only env then EntityOk else OtherGroup)"

lemma run_one_clean:
  assumes "run_one va ingestr env overlap store False now e (st, w, failed) = (out, st', w', False)"
  shows "out = expected_outcome env e"
  using assms
  by (auto simp: run_one_def should_run_entity_def expected_outcome_def Let_def
      split: prod.splits option.splits if_splits)

lemma run_entities_clean:
  assumes "run_entities va ingestr env overlap store False now es (st, w, failed) = (outs, st', w', False)"
  shows "outs = map (expected_outcome env) es"
  using assms
proof (induction es arbitrary: st w failed outs)
  case (Cons e es)
  obtain out st1 w1 f1 where 1: "run_one va ingestr env overlap store False now e (st, w, failed) = (out, st1, w1, f1)"
    by (cases "run_one va ingestr env overlap store False now e (st, w, failed)") auto
  obtain outs2 where 2: "run_entities va ingestr env overlap store False now es (st1, w1, f1) = (outs2, st', w', False)"
    and o: "outs = out # outs2"
    using Cons.prems 1 by (auto split: prod.splits)
  have "\<not> f1" using run_entities_failed [OF 2] by blast
  then show ?case using Cons.IH [OF 2] run_one_clean [of va ingestr env overlap store now e st w failed out st1 w1] 1 o by simp
qed auto

lemma exit_code_ok: "exit_code failed over = exit_ok \<longleftrightarrow> \<not> failed \<and> \<not> over"
  by (simp add: exit_code_def exit_ok_def exit_entity_failed_def exit_budget_warning_def)

lemma load_config_valid: "load_config yaml path w = Inr cfg \<Longrightarrow> config_ok cfg"
  using validate_ok_iff by (auto simp: load_config_def split: option.splits)

lemma acquire_lock_frame:
  "acquire_lock path w = (Inr lock, w1) \<Longrightarrow> lock = path \<and> w_now w1 = w_now w"
  by (auto simp: acquire_lock_def split: if_splits)

lemma release_lock_other:
  "p \<noteq> path \<Longrightarrow> load_state p (snd (release_lock path w)) = load_state p w"
  by (simp add: release_lock_def load_state_def)

lemma clean_watermarks:
  assumes "run_entities va ingestr env overlap store False now es (st, w, failed) = (outs, st', w', False)"
    and "distinct (map ec_table es)"
  shows "rs_watermarks st' t =
    (if \<exists>e\<in>set es. ec_table e = t \<and> expected_outcome env e = EntityOk then Some now else rs_watermarks st t)"
proof -
  have o: "outs = map (expected_outcome env) es" by (rule run_entities_clean [OF assms(1)])
  have "(\<exists>e out. (e, out) \<in> set (zip es outs) \<and> ec_table e = t \<and> out = EntityOk) \<longleftrightarrow>
      (\<exists>e\<in>set es. ec_table e = t \<and> expected_outcome env e = EntityOk)"
    unfolding o zip_map2 zip_same_conv_map by force
  then show ?thesis
    using run_entities_watermarks [OF assms(1)] watermark_fold [OF assms(2), of outs now "rs_watermarks st" t] o by simp
qed

lemma run_eq:
  assumes "flag = []" "load_config yaml (re_config_path (load_runner_env w)) w = Inr cfg"
    "new_secret_store va (rn_secret_store (cfg_runner cfg)) (re_secret_path (load_runner_env w)) (re_key_vault_url (load_runner_env w)) = Inr store"
    "load_state (re_state_path (load_runner_env w)) w = Inr st"
    "acquire_lock (re_lock_path (load_runner_env w)) w = (Inr lock, w1)"
    "over = budget_exceeded (projected_month_end_calls (w_now w1) (calls_this_month st (w_now w1)))
       (rn_monthly_call_limit (cfg_runner cfg)) (rn_budget_threshold_fraction (cfg_runner cfg))"
    "run_entities va ingestr (load_runner_env w) (rn_watermark_overlap (cfg_runner cfg)) store over (w_now w1)
      (cfg_entities cfg) (st, w1, False) = (outs, st2, w2, failed)"
    "save_state st2 (re_state_path (load_runner_env w)) w2 = (saved, w3)"
  shows "run yaml va ingestr flag w = (exit_code (failed \<or> \<not> is_ok saved) over, snd (release_lock lock w3))"
  using assms by (simp add: run_def Let_def)

lemma run_one_ok:
  assumes "run_entity va ingestr env overlap st e w = (st1, (calls, None), w1)" "expected_outcome env e = EntityOk"
    and "list_all (\<lambda>i. \<not> w_fault w1 i) [IoRead, IoMkdir, IoCreateTemp, IoWrite, IoClose, IoRename, IoRemove]"
    and "token_out_path env (ec_table e) \<noteq> re_state_path env"
  shows "\<exists>st3 w3. run_one va ingestr env overlap store False now e (st, w, failed) = (EntityOk, st3, w3, failed) \<and>
    w_fault w3 = w_fault w1"
proof -
  define st3 where "st3 = (add_calls st1 now calls)\<lparr>rs_watermarks := (rs_watermarks (add_calls st1 now calls))(ec_table e \<mapsto> now)\<rparr>"
  define w3 where "w3 = rename_file (w_tmp w1) (re_state_path env) (put_file (w_tmp w1) (StateDoc st3) w1)"
  have sv: "save_state st3 (re_state_path env) w1 = (Inr (), w3)"
    using assms(3) by (simp add: save_state_def Let_def w3_def)
  have "w_files w1 (token_out_path env (ec_table e)) = None" by (rule run_entity_token_gone [OF assms(1)]) (use assms(3) in simp)
  then have "w_files w3 (token_out_path env (ec_table e)) = None"
    using assms(4) by (simp add: w3_def rename_file_def put_file_def)
  from rotate_no_file [OF this] have "rotate_token_if_present va store env e w3 = (Inr (), w3)" .
  then have "run_one va ingestr env overlap store False now e (st, w, failed) = (EntityOk, st3, w3, failed)"
    using assms(1,2) sv
    by (auto simp: run_one_def should_run_entity_def expected_outcome_def st3_def Let_def split: if_splits)
  then show ?thesis by (simp add: w3_def)
qed

subsection \<open>Properties\<close>

text \<open>C2: A run advances exactly the watermarks of the entities it loaded: an entity that failed, was
  skipped for the budget or belongs to another group keeps its watermark, one that succeeded has
  the start of the run; and any failed entity makes the run a failed one.\<close>

theorem run_advances_watermarks:
  assumes "distinct (map ec_table es)"
  shows "case run_entities va ingestr env overlap store over now es (st, w, failed) of (outs, st', w', failed') \<Rightarrow>
    length outs = length es \<and>
    (\<forall>t. rs_watermarks st' t =
       (if \<exists>i < length es. ec_table (es ! i) = t \<and> outs ! i = EntityOk then Some now else rs_watermarks st t)) \<and>
    ((\<exists>err. EntityFailed err \<in> set outs) \<longrightarrow> failed')"
proof -
  obtain outs st' w' failed' where r: "run_entities va ingestr env overlap store over now es (st, w, failed) = (outs, st', w', failed')"
    by (metis prod_cases4)
  have l: "length outs = length es" by (rule run_entities_length [OF r])
  have "(\<exists>e out. (e, out) \<in> set (zip es outs) \<and> ec_table e = t \<and> out = EntityOk) \<longleftrightarrow>
      (\<exists>i < length es. ec_table (es ! i) = t \<and> outs ! i = EntityOk)" for t
    using l by (auto simp: in_set_zip)
  then show ?thesis
    unfolding r using l run_entities_failed [OF r] watermark_fold [OF assms l, of now "rs_watermarks st"]
    by (auto simp: run_entities_watermarks [OF r])
qed

definition sample_entity :: "string \<Rightarrow> string \<Rightarrow> bool \<Rightarrow> entity_config" where
  "sample_entity table endpoint critical = \<lparr>ec_table = table, ec_entity = ''E'', ec_endpoint = endpoint,
     ec_primary_key = [''id''], ec_incremental_key = ''k'', ec_strategy = ''merge'', ec_schedule_group = ''g'',
     ec_critical = critical, ec_allowlist = [''id''], ec_meta_entities = [], ec_subscribed_entities = []\<rparr>"

definition sample_env :: runner_env where
  "sample_env = \<lparr>re_config_path = ''c'', re_state_path = ''s'', re_lock_path = ''l'', re_ingestr_bin = ''i'',
     re_schedule_only = [], re_client_id = ''a'', re_username = ''u'', re_data_center = ''d'', re_rate_limit = ''9'',
     re_onelake_uri = ''o'', re_secret_path = ''p'', re_key_vault_url = [], re_token_tmp_dir = ''t'',
     re_call_tmp_dir = ''t''\<rparr>"

definition sample_vault :: vault_api where
  "sample_vault = \<lparr>va_credential = False, va_call = (\<lambda>u v w. (VaultNoToken, w))\<rparr>"

text \<open>The sample process fails for the table \<^verbatim>\<open>y\<close>, and leaves a call count and a rotated token for the
  table \<^verbatim>\<open>x\<close>.\<close>

definition sample_process :: process where
  "sample_process args path w =
     (if ''--dest-table=bullhorn.y'' \<in> set args then (Some ''boom'', w)
      else (None, put_file path (Text ''12'') (put_file ''t/afc-token-x.json'' (Text ''new'') w)))"

definition token_world :: world where
  "token_world = (sample_world (\<lambda>i. False))\<lparr>w_env := (\<lambda>k. if k = ''BULLHORN_REFRESH_TOKEN'' then ''tok'' else [])\<rparr>"

definition sample_entities :: "entity_config list" where
  "sample_entities = [sample_entity ''x'' ''search'' True, sample_entity ''y'' ''search'' True,
     sample_entity ''z'' ''search'' False]"

definition sample_run :: "outcome list \<times> run_state \<times> world \<times> bool" where
  "sample_run = run_entities sample_vault sample_process sample_env 5 (FileStore ''p'') True 9 sample_entities
     (new_state, token_world, False)"

theorem run_advances_watermarks_witness:
  "rs_watermarks (fst (snd sample_run)) ''x'' = Some 9 \<and> rs_watermarks (fst (snd sample_run)) ''y'' = None \<and>
   snd (snd (snd sample_run))"
proof -
  have o: "fst sample_run = [EntityOk, EntityFailed (IngestrFailed ''y'' ''search'' ''boom''), SkippedBudget]"
    by code_simp
  have d: "distinct (map ec_table sample_entities)" by (simp add: sample_entities_def sample_entity_def)
  have r: "length (fst sample_run) = length sample_entities \<and>
    (\<forall>t. rs_watermarks (fst (snd sample_run)) t =
       (if \<exists>i < length sample_entities. ec_table (sample_entities ! i) = t \<and> fst sample_run ! i = EntityOk
        then Some 9 else rs_watermarks new_state t)) \<and>
    ((\<exists>err. EntityFailed err \<in> set (fst sample_run)) \<longrightarrow> snd (snd (snd sample_run)))"
    using run_advances_watermarks [OF d, where va = sample_vault and ingestr = sample_process and env = sample_env
        and overlap = 5 and store = "FileStore ''p''" and over = True and now = 9 and st = new_state
        and w = token_world and failed = False]
    unfolding sample_run_def by (simp add: split_beta)
  have x: "\<exists>i < length sample_entities. ec_table (sample_entities ! i) = ''x'' \<and> fst sample_run ! i = EntityOk"
    by (rule exI [of _ 0]) (simp add: o sample_entities_def sample_entity_def)
  have y: "\<not> (\<exists>i < length sample_entities. ec_table (sample_entities ! i) = ''y'' \<and> fst sample_run ! i = EntityOk)"
    by (auto simp: o sample_entities_def sample_entity_def nth_Cons' split: if_splits)
  show ?thesis using r x y by (auto simp: o new_state_def)
qed

text \<open>Consecutive windows of an entity leave no gap: when a run has succeeded at \<open>now\<close>, the next
  window starts the overlap before \<open>now\<close>, which is not after the end of the window just read (its
  end is the clock when ingestr was started, not before the start of the run).\<close>

theorem windows_leave_no_gap:
  assumes "run_one va ingestr env overlap store over now e (st, w, failed) = (EntityOk, st', w', failed')"
    and "now \<noteq> zero_time" "0 \<le> overlap" "now \<le> interval_end"
  shows "compute_interval_start (case rs_watermarks st' (ec_table e) of Some t \<Rightarrow> t | None \<Rightarrow> zero_time) seed overlap
      = now - overlap \<and> now - overlap \<le> interval_end"
  using run_one_watermarks [OF assms(1)] next_interval_start [of st' e now seed overlap] assms(2-4) by simp

theorem windows_leave_no_gap_witness:
  "compute_interval_start (case rs_watermarks (fst (snd (run_one sample_vault sample_process sample_env 5 (FileStore ''p'')
       True 9 (sample_entity ''x'' ''search'' True) (new_state, token_world, False)))) ''x'' of
     Some t \<Rightarrow> t | None \<Rightarrow> zero_time) None 5 = 4"
proof -
  let ?r = "run_one sample_vault sample_process sample_env 5 (FileStore ''p'') True 9 (sample_entity ''x'' ''search'' True)
    (new_state, token_world, False)"
  have "fst ?r = EntityOk" by code_simp
  then have "?r = (EntityOk, fst (snd ?r), fst (snd (snd ?r)), snd (snd (snd ?r)))" by (metis prod.collapse)
  from windows_leave_no_gap [OF this, of 10 None] show ?thesis
    by (simp add: zero_time_def sample_entity_def)
qed

text \<open>C34: A token that Bullhorn rotates during an entity's run is never put into the secret store:
  \<open>runEntity\<close>'s deferred removal, unless it fails, has deleted the token file by the time
  \<open>rotateTokenIfPresent\<close> reads it, so rotation does nothing after any successful run, whatever ingestr
  wrote.\<close>

theorem rotated_token_dropped:
  assumes "run_entity va ingestr env overlap st e w = (st', (calls, None), w')" "\<not> w_fault w' IoRemove"
  shows "rotate_token_if_present va store env e w' = (Inr (), w')"
  by (rule rotate_no_file) (rule run_entity_token_gone [OF assms])

theorem rotated_token_dropped_witness:
  "fst (rotate_token_if_present sample_vault (FileStore ''p'') sample_env (sample_entity ''x'' ''search'' True)
     (snd (snd (run_entity sample_vault sample_process sample_env 5 new_state (sample_entity ''x'' ''search'' True) token_world))))
   = Inr ()"
proof -
  let ?r = "run_entity sample_vault sample_process sample_env 5 new_state (sample_entity ''x'' ''search'' True) token_world"
  have r: "fst (snd ?r) = (12, None)" "\<not> w_fault (snd (snd ?r)) IoRemove" by code_simp+
  then have "?r = (fst ?r, (12, None), snd (snd ?r))" by (metis prod.collapse)
  from rotated_token_dropped [OF this r(2)] show ?thesis by simp
qed

text \<open>\<open>validate\<close> accepts a configuration exactly when every entity is well formed (a table name, a
  known endpoint with its fields or entities and no wildcard field, a known strategy), the tables are
  different, the call limit is positive, the threshold lies in (0, 1] and the secret store is known.\<close>

theorem validate_accepts:
  "validate c = None \<longleftrightarrow> config_ok c"
  by (rule validate_ok_iff)

text \<open>The budget rule needs no division: the projection exceeds the threshold exactly when the calls
  so far, over the whole month, exceed the allowed calls over the elapsed time (at least an hour);
  and more calls never bring a run back under it.\<close>

theorem budget_rule:
  "(budget_exceeded (projected_month_end_calls now calls) limit threshold \<longleftrightarrow>
     of_int limit * threshold * of_int (max hour (time_sub now (month_start now))) <
       (of_int (calls * time_sub (next_month_start now) (month_start now)) :: rat)) \<and>
   (calls \<le> calls' \<longrightarrow> budget_exceeded (projected_month_end_calls now calls) limit threshold \<longrightarrow>
      budget_exceeded (projected_month_end_calls now calls') limit threshold)"
  using budget_exceeded_cross budget_exceeded_mono by blast

theorem budget_rule_witness:
  "budget_exceeded (projected_month_end_calls 0 5000) 100000 1 \<and> budget_exceeded (projected_month_end_calls 0 6000) 100000 1"
proof -
  have "month_start 0 = 0" "next_month_start 0 = 2678400000000000" by code_simp+
  then have "budget_exceeded (projected_month_end_calls 0 5000) 100000 1"
    using budget_rule [of 0 5000 100000 1 6000] by (simp add: time_sub_def min_int64_def max_int64_def hour_def)
  then show ?thesis using budget_rule [of 0 5000 100000 1 6000] by simp
qed

text \<open>A critical entity is never skipped for the budget: an entity is skipped only when the budget is
  exceeded and it is not critical, and then nothing of the state, the world or the result changes.\<close>

theorem critical_never_skipped:
  assumes "run_one va ingestr env overlap store over now e (st, w, failed) = (SkippedBudget, s')"
  shows "over \<and> \<not> ec_critical e \<and> s' = (st, w, failed)"
proof -
  have "s' = (st, w, failed)"
    using assms by (auto simp: run_one_def Let_def split: prod.splits option.splits if_splits)
  then show ?thesis using run_one_critical [OF assms] by simp
qed

theorem critical_never_skipped_witness:
  "snd (run_one sample_vault sample_process sample_env 5 (FileStore ''p'') True 9 (sample_entity ''x'' ''search'' False)
     (new_state, token_world, False)) = (new_state, token_world, False)"
proof -
  let ?r = "run_one sample_vault sample_process sample_env 5 (FileStore ''p'') True 9 (sample_entity ''x'' ''search'' False)
     (new_state, token_world, False)"
  have "fst ?r = SkippedBudget" by code_simp
  then have "?r = (SkippedBudget, snd ?r)" by (metis prod.collapse)
  from critical_never_skipped [OF this] show ?thesis by simp
qed

text \<open>A run that finds the lock taken does nothing: it fails, and every file, the state and the lock
  of the other run included, is as it was.\<close>

theorem locked_run_does_nothing:
  assumes "w_files w (re_lock_path (load_runner_env w)) \<noteq> None"
  shows "run yaml va ingestr flag w = (exit_entity_failed, w)"
proof -
  have "acquire_lock (re_lock_path (load_runner_env w)) w = (Inl (LockExists (re_lock_path (load_runner_env w))), w)"
    using assms by (simp add: acquire_lock_def)
  then show ?thesis
    by (auto simp: run_def Let_def split: sum.splits)
qed

definition sample_config :: config where
  "sample_config = \<lparr>cfg_entities = [sample_entity ''x'' ''search'' True], cfg_runner = \<lparr>rn_watermark_overlap = 5,
     rn_budget_threshold_fraction = 1, rn_monthly_call_limit = 100000, rn_secret_store = ''file''\<rparr>\<rparr>"

definition run_world :: world where
  "run_world = token_world\<lparr>w_files := [''fabric/runner/entities.yaml'' \<mapsto> Text ''x''],
     w_env := (\<lambda>k. if k = ''BULLHORN_REFRESH_TOKEN'' \<or> k = ''ONELAKE_WORKSPACE'' \<or> k = ''ONELAKE_LAKEHOUSE'' then ''tok'' else [])\<rparr>"

theorem locked_run_does_nothing_witness:
  "run (\<lambda>_. Some sample_config) sample_vault sample_process []
     (put_file ''fabric/state/bullhorn_state.json.lock'' (Text ''pid=8'') run_world)
   = (1, put_file ''fabric/state/bullhorn_state.json.lock'' (Text ''pid=8'') run_world)"
proof -
  let ?w = "put_file ''fabric/state/bullhorn_state.json.lock'' (Text ''pid=8'') run_world"
  have "w_files ?w (re_lock_path (load_runner_env ?w)) \<noteq> None"
    by (simp add: load_runner_env_def env_or_def run_world_def put_file_def Let_def)
  from locked_run_does_nothing [OF this] show ?thesis by (simp add: exit_entity_failed_def)
qed

subsection \<open>The run that exits with 0\<close>

definition in_group :: "runner_env \<Rightarrow> entity_config \<Rightarrow> bool" where
  "in_group env e \<longleftrightarrow> re_schedule_only env = [] \<or> ec_schedule_group e = re_schedule_only env"

lemma expected_in_group: "expected_outcome env e = EntityOk \<longleftrightarrow> in_group env e"
  by (simp add: expected_outcome_def in_group_def)

text \<open>The entities of the group loaded one after the other, each without an error, its watermark set and the state
  saved before the next; those of other groups left out.\<close>

fun loads_in_turn ::
  "vault_api \<Rightarrow> process \<Rightarrow> runner_env \<Rightarrow> duration \<Rightarrow> secret_store_ref \<Rightarrow> gotime \<Rightarrow> entity_config list
     \<Rightarrow> run_state \<times> world \<Rightarrow> run_state \<times> world \<Rightarrow> bool" where
  "loads_in_turn va ingestr env overlap store now [] s s' \<longleftrightarrow> s' = s"
| "loads_in_turn va ingestr env overlap store now (e # es) s s' \<longleftrightarrow>
     (if in_group env e then
        (\<exists>st1 calls w1 st2 w2 w3. run_entity va ingestr env overlap (fst s) e (snd s) = (st1, (calls, None), w1) \<and>
           st2 = (add_calls st1 now calls)\<lparr>rs_watermarks := (rs_watermarks st1)(ec_table e \<mapsto> now)\<rparr> \<and>
           save_state st2 (re_state_path env) w1 = (Inr (), w2) \<and>
           rotate_token_if_present va store env e w2 = (Inr (), w3) \<and>
           loads_in_turn va ingestr env overlap store now es (st2, w3) s')
      else loads_in_turn va ingestr env overlap store now es s s')"

text \<open>ingestr has been run for an entity, with the arguments for it, and has ended without an error.\<close>

definition ingested :: "process \<Rightarrow> runner_env \<Rightarrow> entity_config \<Rightarrow> bool" where
  "ingested ingestr env e \<longleftrightarrow>
     (\<exists>token params from upto w w'. ingestr (build_ingestr_args e (source_uri env token (token_out_path env (ec_table e)))
        (bullhorn_source_table e @ params) (re_onelake_uri env) from upto) (call_count_path env (ec_table e)) w = (None, w'))"

lemma invoke_ingestr_ingested:
  assumes "invoke_ingestr ingestr env overlap st e (source_uri env token (token_out_path env (ec_table e)))
      (bullhorn_source_table e @ params) w = ((calls, None), w')"
  shows "ingested ingestr env e"
  using assms unfolding ingested_def by (fastforce simp: invoke_ingestr_def Let_def split: prod.splits)

lemma run_entity_ingested:
  assumes "run_entity va ingestr env overlap st e w = (st', (calls, None), w')"
  shows "ingested ingestr env e"
  using assms invoke_ingestr_ingested [of ingestr env overlap st e _ "[]"] invoke_ingestr_ingested
  by (fastforce simp: run_entity_def Let_def split: prod.splits sum.splits if_splits)

lemma loads_in_turn_ingested:
  "loads_in_turn va ingestr env overlap store now es s s' \<Longrightarrow> e \<in> set es \<Longrightarrow> in_group env e \<Longrightarrow> ingested ingestr env e"
  by (induction es arbitrary: s) (auto split: if_splits dest: run_entity_ingested)

lemma run_one_in_group:
  assumes "run_one va ingestr env overlap store False now e (st, w, False) = (out, st3, w3, False)" "in_group env e"
  shows "\<exists>st1 calls w1 w2. run_entity va ingestr env overlap st e w = (st1, (calls, None), w1) \<and>
    st3 = (add_calls st1 now calls)\<lparr>rs_watermarks := (rs_watermarks st1)(ec_table e \<mapsto> now)\<rparr> \<and>
    save_state st3 (re_state_path env) w1 = (Inr (), w2) \<and> rotate_token_if_present va store env e w2 = (Inr (), w3)"
proof -
  obtain st1 calls err w1 where r: "run_entity va ingestr env overlap st e w = (st1, (calls, err), w1)"
    by (metis prod.collapse)
  define st2 where "st2 = (add_calls st1 now calls)\<lparr>rs_watermarks := (rs_watermarks st1)(ec_table e \<mapsto> now)\<rparr>"
  obtain saved w2 where s: "save_state st2 (re_state_path env) w1 = (saved, w2)" by fastforce
  obtain rotated w4 where t: "rotate_token_if_present va store env e w2 = (rotated, w4)" by fastforce
  have "err = None \<and> is_ok saved \<and> is_ok rotated \<and> st3 = st2 \<and> w3 = w4"
    using assms r s t unfolding in_group_def
    by (auto simp: run_one_def should_run_entity_def st2_def split: option.splits if_splits)
  then show ?thesis using r s t st2_def by (cases saved; cases rotated) auto
qed

lemma run_entities_in_turn:
  assumes "run_entities va ingestr env overlap store False now es (st, w, False) = (outs, st', w', False)"
  shows "loads_in_turn va ingestr env overlap store now es (st, w) (st', w')"
  using assms
proof (induction es arbitrary: st w outs)
  case (Cons e es)
  obtain out st1 w1 f1 where 1: "run_one va ingestr env overlap store False now e (st, w, False) = (out, st1, w1, f1)"
    by (metis prod.collapse)
  obtain outs2 where 2: "run_entities va ingestr env overlap store False now es (st1, w1, f1) = (outs2, st', w', False)"
    using Cons.prems 1 by (auto split: prod.splits)
  have f: "\<not> f1" using run_entities_failed [OF 2] by blast
  then have rest: "loads_in_turn va ingestr env overlap store now es (st1, w1) (st', w')" using Cons.IH 2 by simp
  show ?case
  proof (cases "in_group env e")
    case True
    then show ?thesis using run_one_in_group [of va ingestr env overlap store now e st w out st1 w1] 1 f rest by auto
  next
    case False
    then have "st1 = st \<and> w1 = w" using 1 by (auto simp: run_one_def in_group_def)
    then show ?thesis using rest False by simp
  qed
qed simp

text \<open>C1: The exit code 0 means what it says. When \<open>run\<close> ends with it, the configuration that was read is valid, the
  state was read, the lock taken, and the projection of the calls made so far keeps to the budget of that
  configuration; ingestr has run without an error for each entity of the schedule group, one after the
  other, from the state that was read, the state being saved after each, and for no other entity; in the
  final state exactly the entities of the group have the start of the run as their watermark and every
  other table keeps the one it had; and the state file, read again, holds that state (the lock being
  another file than the state, and the disk readable).\<close>

theorem run_exit_zero:
  fixes w w' :: world and flag :: string
  defines "env \<equiv> (if flag \<noteq> [] then (load_runner_env w)\<lparr>re_config_path := flag\<rparr> else load_runner_env w)"
  assumes run: "run yaml va ingestr flag w = (exit_ok, w')" and lock: "re_lock_path env \<noteq> re_state_path env"
  shows "\<exists>cfg store st w1 st2 w2 w3. load_config yaml (re_config_path env) w = Inr cfg \<and> config_ok cfg \<and>
    load_state (re_state_path env) w = Inr st \<and> acquire_lock (re_lock_path env) w = (Inr (re_lock_path env), w1) \<and>
    \<not> budget_exceeded (projected_month_end_calls (w_now w) (calls_this_month st (w_now w)))
       (rn_monthly_call_limit (cfg_runner cfg)) (rn_budget_threshold_fraction (cfg_runner cfg)) \<and>
    loads_in_turn va ingestr env (rn_watermark_overlap (cfg_runner cfg)) store (w_now w) (cfg_entities cfg) (st, w1) (st2, w2) \<and>
    (\<forall>e\<in>set (cfg_entities cfg). in_group env e \<longrightarrow> ingested ingestr env e) \<and>
    (\<forall>t. rs_watermarks st2 t =
       (if \<exists>e\<in>set (cfg_entities cfg). ec_table e = t \<and> in_group env e then Some (w_now w) else rs_watermarks st t)) \<and>
    save_state st2 (re_state_path env) w2 = (Inr (), w3) \<and> w' = snd (release_lock (re_lock_path env) w3) \<and>
    (\<not> w_fault w' IoRead \<longrightarrow> load_state (re_state_path env) w' = Inr st2)"
proof -
  obtain cfg where cfg: "load_config yaml (re_config_path env) w = Inr cfg"
    using run by (auto simp: run_def Let_def env_def exit_ok_def exit_entity_failed_def split: sum.splits)
  obtain store where store: "new_secret_store va (rn_secret_store (cfg_runner cfg)) (re_secret_path env) (re_key_vault_url env) = Inr store"
    using run cfg by (auto simp: run_def Let_def env_def [symmetric] exit_ok_def exit_entity_failed_def split: sum.splits)
  obtain st where st: "load_state (re_state_path env) w = Inr st"
    using run cfg store by (auto simp: run_def Let_def env_def [symmetric] exit_ok_def exit_entity_failed_def split: sum.splits)
  obtain l w1 where l: "acquire_lock (re_lock_path env) w = (Inr l, w1)"
    using run cfg store st
    by (cases "acquire_lock (re_lock_path env) w")
      (auto simp: run_def Let_def env_def [symmetric] exit_ok_def exit_entity_failed_def split: sum.splits)
  have now: "l = re_lock_path env" "w_now w1 = w_now w" using acquire_lock_frame [OF l] by simp_all
  define over where "over = budget_exceeded (projected_month_end_calls (w_now w) (calls_this_month st (w_now w)))
    (rn_monthly_call_limit (cfg_runner cfg)) (rn_budget_threshold_fraction (cfg_runner cfg))"
  obtain outs st2 w2 failed where es: "run_entities va ingestr env (rn_watermark_overlap (cfg_runner cfg)) store over (w_now w)
      (cfg_entities cfg) (st, w1, False) = (outs, st2, w2, failed)" by (metis prod_cases4)
  obtain saved w3 where sv: "save_state st2 (re_state_path env) w2 = (saved, w3)" by fastforce
  have r: "exit_code (failed \<or> \<not> is_ok saved) over = exit_ok" "w' = snd (release_lock l w3)"
    using run cfg store st l es sv now(2) by (simp_all add: run_def Let_def env_def [symmetric] over_def [symmetric])
  then have ok: "\<not> failed" "saved = Inr ()" "\<not> over" unfolding exit_code_ok by (cases saved; simp)+
  have es': "run_entities va ingestr env (rn_watermark_overlap (cfg_runner cfg)) store False (w_now w)
      (cfg_entities cfg) (st, w1, False) = (outs, st2, w2, False)" using es ok by simp
  note turn = run_entities_in_turn [OF es']
  have "load_state (re_state_path env) w' = Inr st2" if "\<not> w_fault w' IoRead"
  proof -
    have "\<not> w_fault w2 IoRead"
      using that r(2) sv by (auto simp: release_lock_def save_state_def Let_def split: if_splits)
    then have "load_state (re_state_path env) w3 = Inr st2" using save_state_load sv ok(2) by blast
    then show ?thesis using release_lock_other [of "re_state_path env" l w3] lock now(1) r(2) by simp
  qed
  moreover have "\<forall>t. rs_watermarks st2 t =
      (if \<exists>e\<in>set (cfg_entities cfg). ec_table e = t \<and> in_group env e then Some (w_now w) else rs_watermarks st t)"
  proof -
    have "distinct (map ec_table (cfg_entities cfg))" using load_config_valid [OF cfg] by (simp add: config_ok_def)
    from clean_watermarks [OF es' this] show ?thesis by (simp add: expected_in_group)
  qed
  moreover have "\<forall>e\<in>set (cfg_entities cfg). in_group env e \<longrightarrow> ingested ingestr env e"
    using loads_in_turn_ingested [OF turn] by blast
  moreover have "acquire_lock (re_lock_path env) w = (Inr (re_lock_path env), w1)" using l now(1) by simp
  moreover have "save_state st2 (re_state_path env) w2 = (Inr (), w3)" using sv ok(2) by simp
  moreover have "w' = snd (release_lock (re_lock_path env) w3)" using r(2) now(1) by simp
  ultimately show ?thesis
    using cfg load_config_valid [OF cfg] st ok(3) [unfolded over_def] turn by blast
qed

definition clean_run :: "outcome list \<times> run_state \<times> world \<times> bool" where
  "clean_run = run_entities sample_vault sample_process (load_runner_env run_world) 5
     (FileStore ''fabric/state/secrets.json'') False (w_now run_world) (cfg_entities sample_config)
     (new_state, snd (acquire_lock ''fabric/state/bullhorn_state.json.lock'' run_world), False)"

lemma clean_run_ok:
  "\<not> snd (snd (snd clean_run)) \<and> list_all (\<lambda>i. \<not> w_fault (fst (snd (snd clean_run))) i) [IoRead, IoMkdir, IoCreateTemp, IoWrite, IoClose, IoRename, IoRemove]"
proof -
  let ?env = "load_runner_env run_world" and ?w = "snd (acquire_lock ''fabric/state/bullhorn_state.json.lock'' run_world)"
  let ?e = "sample_entity ''x'' ''search'' True"
  let ?r = "run_entity sample_vault sample_process ?env 5 new_state ?e ?w"
  have n0: "Option.is_none (snd (fst (snd ?r)))" by code_simp
  have f: "list_all (\<lambda>i. \<not> w_fault (snd (snd ?r)) i) [IoRead, IoMkdir, IoCreateTemp, IoWrite, IoClose, IoRename, IoRemove]" by code_simp
  have p1: "expected_outcome ?env ?e = EntityOk" by code_simp
  have p2: "token_out_path ?env (ec_table ?e) \<noteq> re_state_path ?env" by code_simp
  have n: "snd (fst (snd ?r)) = None" using n0 by (simp only: is_none_simps Option.is_none_def)
  have r: "?r = (fst ?r, (fst (fst (snd ?r)), None), snd (snd ?r))" unfolding n [symmetric] by simp
  from run_one_ok [OF r p1 f p2, of "FileStore ''fabric/state/secrets.json''" "w_now run_world" False]
  obtain st3 w3 where "run_one sample_vault sample_process ?env 5 (FileStore ''fabric/state/secrets.json'') False (w_now run_world) ?e
      (new_state, ?w, False) = (EntityOk, st3, w3, False)" "w_fault w3 = w_fault (snd (snd ?r))" by blast
  then show ?thesis using f by (simp add: clean_run_def sample_config_def)
qed

theorem run_exit_zero_witness:
  "\<exists>w' st'. run (\<lambda>_. Some sample_config) sample_vault sample_process [] run_world = (0, w') \<and>
     load_state ''fabric/state/bullhorn_state.json'' w' = Inr st' \<and> rs_watermarks st' ''x'' = Some (w_now run_world) \<and>
     rs_watermarks st' ''y'' = None \<and> ingested sample_process (load_runner_env run_world) (sample_entity ''x'' ''search'' True)"
proof -
  let ?yaml = "\<lambda>_. Some sample_config" and ?lock = "''fabric/state/bullhorn_state.json.lock''"
  let ?state = "''fabric/state/bullhorn_state.json''" and ?w1 = "snd (acquire_lock ?lock run_world)"
  have p: "re_state_path (load_runner_env run_world) = ?state" "re_lock_path (load_runner_env run_world) = ?lock"
    "load_config ?yaml (re_config_path (load_runner_env run_world)) run_world = Inr sample_config"
    "new_secret_store sample_vault (rn_secret_store (cfg_runner sample_config)) (re_secret_path (load_runner_env run_world))
       (re_key_vault_url (load_runner_env run_world)) = Inr (FileStore ''fabric/state/secrets.json'')"
    "budget_exceeded (projected_month_end_calls (w_now run_world) 0) 100000 1 = False"
    by code_simp+
  have l: "load_state ?state run_world = Inr new_state" "acquire_lock ?lock run_world = (Inr ?lock, ?w1)"
    "w_now ?w1 = w_now run_world" "calls_this_month new_state t = 0" for t
    by (simp_all add: load_state_def run_world_def acquire_lock_def token_world_def sample_world_def calls_this_month_def
        new_state_def)
  obtain outs st2 w2 failed where r: "clean_run = (outs, st2, w2, failed)" by (metis prod_cases4)
  have ok: "\<not> failed" "list_all (\<lambda>i. \<not> w_fault w2 i) [IoRead, IoMkdir, IoCreateTemp, IoWrite, IoClose, IoRename, IoRemove]"
    using clean_run_ok unfolding r by simp_all
  have sv: "save_state st2 ?state w2 = (Inr (), snd (save_state st2 ?state w2))"
    "\<not> w_fault (snd (save_state st2 ?state w2)) IoRead"
    using ok(2) by (simp_all add: save_state_def Let_def)
  have e: "exit_code (failed \<or> \<not> is_ok (Inr () :: (runner_error, unit) result)) False = exit_ok"
    using ok(1) by (simp add: exit_code_def)
  have run: "run ?yaml sample_vault sample_process [] run_world =
      (exit_ok, snd (release_lock ?lock (snd (save_state st2 ?state w2))))"
    unfolding e [symmetric]
    by (rule run_eq [where cfg = sample_config and st = new_state and ?w1.0 = ?w1 and ?w2.0 = w2 and ?st2.0 = st2 and
          store = "FileStore ''fabric/state/secrets.json''" and outs = outs])
      (use p l sv(1) r in \<open>simp_all add: clean_run_def sample_config_def\<close>)
  moreover have "re_lock_path (if [] \<noteq> ([] :: string) then (load_runner_env run_world)\<lparr>re_config_path := []\<rparr> else load_runner_env run_world)
      \<noteq> re_state_path (if [] \<noteq> ([] :: string) then (load_runner_env run_world)\<lparr>re_config_path := []\<rparr> else load_runner_env run_world)"
    by (simp add: p)
  moreover have "\<not> w_fault (snd (release_lock ?lock (snd (save_state st2 ?state w2)))) IoRead"
    using sv(2) by (simp add: release_lock_def)
  ultimately obtain cfg st st' where c: "load_config ?yaml (re_config_path (load_runner_env run_world)) run_world = Inr cfg"
    "load_state ?state run_world = Inr st" "load_state ?state (snd (release_lock ?lock (snd (save_state st2 ?state w2)))) = Inr st'"
    "\<forall>e\<in>set (cfg_entities cfg). in_group (load_runner_env run_world) e \<longrightarrow> ingested sample_process (load_runner_env run_world) e"
    "\<forall>t. rs_watermarks st' t = (if \<exists>e\<in>set (cfg_entities cfg). ec_table e = t \<and> in_group (load_runner_env run_world) e
       then Some (w_now run_world) else rs_watermarks st t)"
    using run_exit_zero [of ?yaml sample_vault sample_process "[]" run_world] p(1) by auto
  have "cfg = sample_config" "st = new_state" using c(1,2) p(3) l(1) by simp_all
  moreover have "in_group (load_runner_env run_world) (sample_entity ''x'' ''search'' True)" by code_simp
  ultimately have "ingested sample_process (load_runner_env run_world) (sample_entity ''x'' ''search'' True)"
    "rs_watermarks st' ''x'' = Some (w_now run_world)" "rs_watermarks st' ''y'' = None"
    using c(4,5) by (simp_all add: sample_config_def sample_entity_def new_state_def)
  then show ?thesis using run c(3) unfolding exit_ok_def by blast
qed
end
