(* ===== verification/Onelake_Uri.thy ===== *)
theory Onelake_Uri
  imports Table_Spec Runner
begin

text \<open>
  Where the OneLake destination writes (\<^verbatim>\<open>destination/onelake/onelake.go\<close>): the destination URI,
  the target of a table name and the paths made of them. The last part puts it together with the
  runner, which builds both the URI and the table name.
\<close>

subsection \<open>The URI\<close>

text \<open>\<open>url.PathUnescape\<close>.\<close>

fun path_unescape :: "string \<Rightarrow> string option" where
  "path_unescape [] = Some []"
| "path_unescape (c # s) =
     (if c = CHR ''%'' then
        (case s of
           a # b # r \<Rightarrow>
             (case (hex_value a, hex_value b) of
                (Some x, Some y) \<Rightarrow> map_option (Cons (char_of (16 * x + y))) (path_unescape r)
              | _ \<Rightarrow> None)
         | _ \<Rightarrow> None)
      else map_option (Cons c) (path_unescape s))"

text \<open>The values of \<open>url.ParseQuery\<close> when its error is ignored: the pairs that could be read.\<close>

definition parse_pair :: "string \<Rightarrow> (string \<times> string) option" where
  "parse_pair tok =
     (if tok = [] \<or> CHR '';'' \<in> set tok then None
      else (case cut (CHR ''='') tok of (k, v) \<Rightarrow>
              (case (query_unescape k, query_unescape v) of (Some k', Some v') \<Rightarrow> Some (k', v') | _ \<Rightarrow> None)))"

definition parse_query_lenient :: "string \<Rightarrow> url_values" where
  "parse_query_lenient s = List.map_filter parse_pair (split_on (CHR ''&'') s)"

record client_credentials =
  cc_tenant_id :: string
  cc_client_id :: string
  cc_client_secret :: string

definition parse_client_credentials :: "url_values \<Rightarrow> client_credentials" where
  "parse_client_credentials q =
     \<lparr>cc_tenant_id = url_get q ''tenant_id'', cc_client_id = url_get q ''client_id'', cc_client_secret = url_get q ''client_secret''\<rparr>"

datatype credential = DefaultCredential | ClientSecret client_credentials

datatype one_lake_error =
    NoScheme | WrongScheme string | LakehouseSegments string | BadWorkspace | NoLakehouse | BadLakehouse
  | MissingCredentials "string list" | NoPathAfterFiles string | NoTablePath string | EmptySegment string
  | NotTables string string

text \<open>\<open>NewTokenCredential\<close>, but for the construction of the credential itself.\<close>

definition new_token_credential :: "client_credentials \<Rightarrow> (one_lake_error, credential) result" where
  "new_token_credential c =
     (if cc_tenant_id c = [] \<and> cc_client_id c = [] \<and> cc_client_secret c = [] then Inr DefaultCredential
      else (let missing = (if cc_tenant_id c = [] then [''tenant_id''] else []) @
                          (if cc_client_id c = [] then [''client_id''] else []) @
                          (if cc_client_secret c = [] then [''client_secret''] else [])
            in if missing \<noteq> [] then Inl (MissingCredentials missing) else Inr (ClientSecret c)))"

record one_lake_uri =
  ou_workspace :: string
  ou_lakehouse :: string
  ou_sas_token :: string
  ou_credentials :: client_credentials
  ou_layout :: string

definition decode_segment :: "string \<Rightarrow> string" where
  "decode_segment s = (case path_unescape s of None \<Rightarrow> s | Some d \<Rightarrow> d)"

text \<open>\<open>strings.Cut(s, "://")\<close>, \<open>None\<close> when it is not found.\<close>

fun cut_str :: "string \<Rightarrow> string \<Rightarrow> (string \<times> string) option" where
  "cut_str sep [] = (if sep = [] then Some ([], []) else None)"
| "cut_str sep (c # s) =
     (if has_prefix (c # s) sep then Some ([], drop (length sep) (c # s))
      else map_option (\<lambda>(a, b). (c # a, b)) (cut_str sep s))"

definition parse_one_lake_uri :: "string \<Rightarrow> (one_lake_error, one_lake_uri) result" where
  "parse_one_lake_uri uri =
     (case cut_str ''://'' uri of
        None \<Rightarrow> Inl NoScheme
      | Some (scheme, rest) \<Rightarrow>
          (if \<not> equal_fold scheme ''onelake'' then Inl (WrongScheme scheme)
           else
             (case cut (CHR ''?'') rest of
                (path, raw_query) \<Rightarrow>
                  (let segments = split_on (CHR ''/'') (trim_right_by (\<lambda>c. c = CHR ''/'') path)
                   in if 2 < length segments then Inl (LakehouseSegments (join ''/'' (tl segments)))
                      else
                        (let workspace = decode_segment (hd segments)
                         in if workspace = [] \<or> CHR ''/'' \<in> set workspace then Inl BadWorkspace
                            else if length segments < 2 then Inl NoLakehouse
                            else
                              (let lakehouse = decode_segment (segments ! 1)
                               in if lakehouse = [] \<or> CHR ''/'' \<in> set lakehouse then Inl BadLakehouse
                                  else
                                    (let q = parse_query_lenient raw_query
                                     in Inr \<lparr>ou_workspace = workspace, ou_lakehouse = lakehouse,
                                              ou_sas_token = url_get q ''sas_token'',
                                              ou_credentials = parse_client_credentials q,
                                              ou_layout = url_get q ''layout''\<rparr>)))))))"

text \<open>What \<open>Connect\<close> keeps: the default layout for none, and a credential unless there is a token.\<close>

definition default_layout :: string where "default_layout = ''{load_id}.{file_id}.{ext}''"

record one_lake =
  ol_workspace :: string
  ol_lakehouse :: string
  ol_sas_token :: string
  ol_credential :: "credential option"
  ol_layout :: string

definition one_lake_connect :: "string \<Rightarrow> (one_lake_error, one_lake) result" where
  "one_lake_connect uri =
     (case parse_one_lake_uri uri of
        Inl e \<Rightarrow> Inl e
      | Inr p \<Rightarrow>
          (let base = \<lparr>ol_workspace = ou_workspace p, ol_lakehouse = ou_lakehouse p, ol_sas_token = ou_sas_token p,
                       ol_credential = None, ol_layout = (if ou_layout p = [] then default_layout else ou_layout p)\<rparr>
           in if ou_sas_token p \<noteq> [] then Inr base
              else (case new_token_credential (ou_credentials p) of
                      Inl e \<Rightarrow> Inl e | Inr cred \<Rightarrow> Inr (base\<lparr>ol_credential := Some cred\<rparr>))))"

subsection \<open>Targets and paths\<close>

definition trim_path :: "string \<Rightarrow> string" where
  "trim_path s = trim_right_by (\<lambda>c. c = CHR ''/'') (trim_left_by (\<lambda>c. c = CHR ''/'') s)"

datatype write_mode = ModeTables | ModeFiles

definition parse_target :: "string \<Rightarrow> (one_lake_error, write_mode \<times> string) result" where
  "parse_target table =
     (let t = trim_path table
      in case cut (CHR ''/'') t of
           (head, rel) \<Rightarrow>
             (if equal_fold head ''files''
              then (if rel = [] then Inl (NoPathAfterFiles table) else Inr (ModeFiles, rel))
              else
                (let segs0 = split_on (CHR ''/'') (map (\<lambda>c. if c = CHR ''.'' then CHR ''/'' else c) t);
                     segs = (if equal_fold (hd segs0) ''tables'' then tl segs0 else segs0)
                 in if segs = [] then Inl (NoTablePath table)
                    else if [] \<in> set segs then Inl (EmptySegment table)
                    else Inr (ModeTables, join ''/'' segs))))"

text \<open>\<open>itemPath\<close>; whether a text is a UUID is left to the library.\<close>

definition is_item_guid :: "(string \<Rightarrow> bool) \<Rightarrow> string \<Rightarrow> bool" where
  "is_item_guid valid_uuid s \<longleftrightarrow> length s = 36 \<and> valid_uuid s"

definition item_path :: "(string \<Rightarrow> bool) \<Rightarrow> one_lake \<Rightarrow> string" where
  "item_path valid_uuid d =
     (if contains (ol_lakehouse d) ''.'' \<or> is_item_guid valid_uuid (ol_lakehouse d) then ol_lakehouse d
      else ol_lakehouse d @ ''.Lakehouse'')"

definition table_dir :: "(string \<Rightarrow> bool) \<Rightarrow> one_lake \<Rightarrow> string \<Rightarrow> string" where
  "table_dir valid_uuid d rel = item_path valid_uuid d @ ''/Tables/'' @ trim_path rel"

definition files_dir :: "(string \<Rightarrow> bool) \<Rightarrow> one_lake \<Rightarrow> string \<Rightarrow> string" where
  "files_dir valid_uuid d rel = item_path valid_uuid d @ ''/Files/'' @ trim_path rel"

definition table_dir_for_tables :: "(string \<Rightarrow> bool) \<Rightarrow> one_lake \<Rightarrow> string \<Rightarrow> string \<Rightarrow> (one_lake_error, string) result" where
  "table_dir_for_tables valid_uuid d table op =
     (case parse_target table of
        Inl e \<Rightarrow> Inl e
      | Inr (mode, rel) \<Rightarrow> (if mode \<noteq> ModeTables then Inl (NotTables op table) else Inr (table_dir valid_uuid d rel)))"

text \<open>\<open>renderLayout\<close>.\<close>

definition replace_all :: "string \<Rightarrow> string \<Rightarrow> string \<Rightarrow> string" where
  "replace_all s old new = join new (split_str old s)"

definition render_layout :: "one_lake \<Rightarrow> string \<Rightarrow> string \<Rightarrow> int \<Rightarrow> string" where
  "render_layout d rel load_id file_id =
     (let name0 = last (split_on (CHR ''/'') (trim_path rel));
          name = (if name0 = [] then ''data'' else name0)
      in replace_all (replace_all (replace_all (replace_all (ol_layout d) ''{table_name}'' name)
           ''{load_id}'' load_id) ''{file_id}'' (itoa file_id)) ''{ext}'' ''parquet'')"


subsection \<open>The runner's destination\<close>

text \<open>A name that the URI can carry as it is: the runner does not encode it.\<close>

definition plain_segment :: "string \<Rightarrow> bool" where
  "plain_segment s \<longleftrightarrow> s \<noteq> [] \<and> CHR ''/'' \<notin> set s \<and> CHR ''?'' \<notin> set s \<and> CHR ''%'' \<notin> set s"

lemma path_unescape_plain: "CHR ''%'' \<notin> set s \<Longrightarrow> path_unescape s = Some s"
  by (induction s) auto

lemma cut_at: "d \<notin> set s \<Longrightarrow> cut d (s @ d # r) = (s, r)"
  by (induction s) (auto simp: cut_def)

lemma cut_absent: "d \<notin> set s \<Longrightarrow> cut d s = (s, [])"
  by (induction s) (auto simp: cut_def)

lemma cut_str_scheme: "cut_str ''://'' (''onelake://'' @ r) = Some (''onelake'', r)"
  by (simp add: has_prefix_def)

lemma trim_right_slash_plain:
  "s \<noteq> [] \<Longrightarrow> CHR ''/'' \<notin> set s \<Longrightarrow> trim_right_by (\<lambda>c. c = CHR ''/'') (p @ s) = p @ s"
  by (cases s rule: rev_cases) (auto simp: trim_right_by_def)

lemma runner_query: "parse_query_lenient ''use_azure_default_credential=true'' = [(''use_azure_default_credential'', ''true'')]"
  by code_simp

lemma runner_uri_parsed:
  assumes "plain_segment w" "plain_segment h"
  shows "parse_one_lake_uri (build_onelake_uri w h) =
    Inr \<lparr>ou_workspace = w, ou_lakehouse = h, ou_sas_token = [],
         ou_credentials = \<lparr>cc_tenant_id = [], cc_client_id = [], cc_client_secret = []\<rparr>, ou_layout = []\<rparr>"
proof -
  let ?q = "''use_azure_default_credential=true''"
  have uri: "build_onelake_uri w h = ''onelake://'' @ ((w @ CHR ''/'' # h) @ CHR ''?'' # ?q)"
    using assms by (simp add: build_onelake_uri_def plain_segment_def)
  have c: "cut (CHR ''?'') ((w @ CHR ''/'' # h) @ CHR ''?'' # ?q) = (w @ CHR ''/'' # h, ?q)"
    by (rule cut_at) (use assms in \<open>simp add: plain_segment_def\<close>)
  have t: "trim_right_by (\<lambda>c. c = CHR ''/'') (w @ CHR ''/'' # h) = w @ CHR ''/'' # h"
    using trim_right_slash_plain [of h "w @ [CHR ''/'']"] assms by (simp add: plain_segment_def)
  have seg: "split_on (CHR ''/'') (w @ CHR ''/'' # h) = [w, h]"
    using assms by (simp add: plain_segment_def split_on_append split_on_no_sep)
  have d: "decode_segment w = w" "decode_segment h = h"
    using assms by (simp_all add: plain_segment_def decode_segment_def path_unescape_plain)
  have keys: "url_get [(''use_azure_default_credential'', ''true'')] k = []" if "k \<noteq> ''use_azure_default_credential''" for k
    using that by (simp add: url_get_def)
  have f: "equal_fold ''onelake'' ''onelake''" by (simp add: equal_fold_def)
  show ?thesis
    unfolding uri parse_one_lake_uri_def cut_str_scheme option.case prod.case c Let_def t seg
    using assms by (simp add: d f runner_query parse_client_credentials_def keys plain_segment_def Let_def)
qed

text \<open>A table of the configuration: a name without separators.\<close>

definition plain_table :: "string \<Rightarrow> bool" where
  "plain_table t \<longleftrightarrow> t \<noteq> [] \<and> CHR ''/'' \<notin> set t \<and> CHR ''.'' \<notin> set t"

lemma runner_target:
  assumes "plain_table t"
  shows "parse_target (''bullhorn.'' @ t) = Inr (ModeTables, ''bullhorn/'' @ t)"
proof -
  have last: "\<exists>u c. t = u @ [c] \<and> c \<noteq> CHR ''/''"
    using assms by (cases t rule: rev_cases) (auto simp: plain_table_def)
  have t: "trim_path (''bullhorn.'' @ t) = ''bullhorn.'' @ t"
    using trim_right_slash_plain [of t "''bullhorn.''"] assms
    by (simp add: trim_path_def plain_table_def trim_left_by_def)
  have cut: "cut (CHR ''/'') (''bullhorn.'' @ t) = (''bullhorn.'' @ t, [])"
    by (rule cut_absent) (use assms in \<open>simp add: plain_table_def\<close>)
  have nf: "\<not> equal_fold (''bullhorn.'' @ t) ''files''" "\<not> equal_fold ''bullhorn'' ''tables''"
    by (simp_all add: equal_fold_def to_lower_def lower_char_def is_upper_def)
  have m: "map (\<lambda>c. if c = CHR ''.'' then CHR ''/'' else c) t = t"
    using assms by (auto simp: plain_table_def intro: map_idI)
  have seg: "split_on (CHR ''/'') (''bullhorn'' @ CHR ''/'' # t) = [''bullhorn'', t]"
    using assms by (simp add: plain_table_def split_on_append split_on_no_sep)
  show ?thesis
    using assms nf m seg unfolding parse_target_def Let_def t cut prod.case plain_table_def by auto
qed

text \<open>C24: the destination reads the URI that the runner builds from the names of a workspace and a
  lakehouse, as long as they hold none of the characters a URI gives a meaning to; it then takes the
  default credential and the default layout, and the table of an entity is a Delta table in a directory
  of its own under \<^verbatim>\<open>Tables/bullhorn\<close>.\<close>

theorem runner_destination:
  assumes "plain_segment w" "plain_segment h" "plain_table t" "plain_table u"
  shows "\<exists>d. one_lake_connect (build_onelake_uri w h) = Inr d \<and> ol_workspace d = w \<and> ol_lakehouse d = h \<and>
    ol_credential d = Some DefaultCredential \<and> ol_layout d = default_layout \<and>
    table_dir_for_tables valid_uuid d (''bullhorn.'' @ t) op = Inr (item_path valid_uuid d @ ''/Tables/bullhorn/'' @ t) \<and>
    (table_dir_for_tables valid_uuid d (''bullhorn.'' @ t) op = table_dir_for_tables valid_uuid d (''bullhorn.'' @ u) op
       \<longrightarrow> t = u)"
proof -
  have dir: "table_dir_for_tables valid_uuid d (''bullhorn.'' @ x) op = Inr (item_path valid_uuid d @ ''/Tables/bullhorn/'' @ x)"
    if "plain_table x" for d x
  proof -
    have "trim_path (''bullhorn/'' @ x) = ''bullhorn/'' @ x"
      using trim_right_slash_plain [of x "''bullhorn/''"] that
      by (simp add: trim_path_def plain_table_def trim_left_by_def)
    then show ?thesis using runner_target [OF that] by (simp add: table_dir_for_tables_def table_dir_def)
  qed
  show ?thesis
    using assms dir [OF assms(3)] dir [OF assms(4)]
    by (simp add: one_lake_connect_def runner_uri_parsed new_token_credential_def Let_def)
qed

lemma runner_destination_witness:
  "\<exists>d. one_lake_connect (build_onelake_uri ''My Workspace'' ''bronze'') = Inr d \<and>
     table_dir_for_tables (\<lambda>_. False) d ''bullhorn.candidates'' ''merge'' =
       Inr (item_path (\<lambda>_. False) d @ ''/Tables/bullhorn/candidates'')"
proof -
  have "plain_segment ''My Workspace''" "plain_segment ''bronze''" "plain_table ''candidates''"
    by (simp_all add: plain_segment_def plain_table_def)
  from runner_destination [OF this this(3), of "\<lambda>_. False" "''merge''"] show ?thesis by auto
qed

end
