(* ===== verification/Onelake_Commit.thy ===== *)
theory Onelake_Commit
  imports Onelake_Log Onelake_Uri
begin

text \<open>
  The loads of the OneLake destination as they touch storage: reading a table and projecting its
  files to the declared schema, reconciling the target with the staging table (\<^verbatim>\<open>delta_io.go\<close>),
  the copy-on-write loads, the append and schema evolution, each a loop of attempts to publish the
  next version (\<^verbatim>\<open>onelake.go\<close>, \<^verbatim>\<open>evolve.go\<close>).

  Storage is shared: before each of our operations on it other writers may act, and the operation
  may fail without effect or fail after it took effect; the record \<open>environment\<close> says what happens
  at each tick. A file holds bytes of some type \<open>'f\<close>; Parquet and the casts of Arrow columns are
  the fields of \<open>io_lib\<close>.
\<close>

subsection \<open>Projecting files to the declared schema\<close>

record 'f io_lib =
  io_cast :: "arrow_type \<Rightarrow> arrow_type \<Rightarrow> cell list \<Rightarrow> cell list option"
  io_write :: "field list \<Rightarrow> record_batch list \<Rightarrow> 'f option"
  io_read :: "'f \<Rightarrow> record_batch list option"
  io_etag :: "int \<Rightarrow> commit \<Rightarrow> string"

datatype io_error =
    BadTable one_lake_error | StorageFailed | LogFailed log_error | NoMetadata | BadDelta delta_error
  | FileMissing string | NotParquet string | CannotCast string | WriterFailed | BadLoad rewrite_error
  | NotDeclared string | NotInFiles string | RequiredColumn string | TypeConflict string | UnsupportedDeclared string
  | IncompatibleBatch | StreamFailed string | NoSchema | MetadataChanged | TooManyConflicts

text \<open>\<open>sameDeltaEncoding\<close>, \<open>latestArrowField\<close> and the fields that \<open>alignDeltaBatches\<close> builds.\<close>

definition same_delta_encoding :: "field \<Rightarrow> delta_type \<Rightarrow> bool" where
  "same_delta_encoding f t \<longleftrightarrow> delta_type_for (arrow_field_to_column f) = t"

definition latest_arrow_field :: "record_batch list \<Rightarrow> string \<Rightarrow> field option" where
  "latest_arrow_field bs name = find (\<lambda>f. equal_fold (fl_name f) name) (concat (map rb_fields (rev bs)))"

definition align_field :: "record_batch list \<Rightarrow> delta_field \<Rightarrow> field option" where
  "align_field bs df =
     (case (latest_arrow_field bs (df_name df), column_from_delta_field df) of
        (None, Inl e) \<Rightarrow> None
      | (None, Inr c) \<Rightarrow> Some \<lparr>fl_name = df_name df, fl_type = data_type_to_arrow c, fl_nullable = True\<rparr>
      | (Some f, col) \<Rightarrow>
          Some \<lparr>fl_name = df_name df,
            fl_type = (case col of
                         Inr c \<Rightarrow> (if same_delta_encoding f (df_type df) then data_type_to_arrow c else fl_type f)
                       | Inl e \<Rightarrow> fl_type f),
            fl_nullable = fl_nullable f \<or> df_nullable df\<rparr>)"

text \<open>\<open>CastRecordToSchema\<close>: a column of that name in any case (the last such), NULLs where there is
  none; a list of columns becomes rows again.\<close>

definition cast_column :: "'f io_lib \<Rightarrow> record_batch \<Rightarrow> field \<Rightarrow> (io_error, cell list) result" where
  "cast_column lib b f =
     (case find (\<lambda>i. to_lower (fl_name (rb_fields b ! i)) = to_lower (fl_name f)) (rev [0..<length (rb_fields b)]) of
        None \<Rightarrow> Inr (replicate (length (rb_rows b)) Null)
      | Some i \<Rightarrow>
          (let ty = fl_type (rb_fields b ! i); col = map (\<lambda>r. r ! i) (rb_rows b)
           in if ty = fl_type f then Inr col
              else (case io_cast lib ty (fl_type f) col of None \<Rightarrow> Inl (CannotCast (fl_name f)) | Some c \<Rightarrow> Inr c)))"

fun cast_columns :: "'f io_lib \<Rightarrow> record_batch \<Rightarrow> field list \<Rightarrow> (io_error, cell list list) result" where
  "cast_columns lib b [] = Inr []"
| "cast_columns lib b (f # fs) =
     (case cast_column lib b f of
        Inl e \<Rightarrow> Inl e
      | Inr c \<Rightarrow> (case cast_columns lib b fs of Inl e \<Rightarrow> Inl e | Inr cs \<Rightarrow> Inr (c # cs)))"

definition cast_record :: "'f io_lib \<Rightarrow> field list \<Rightarrow> record_batch \<Rightarrow> (io_error, record_batch) result" where
  "cast_record lib target b =
     (case cast_columns lib b target of
        Inl e \<Rightarrow> Inl e
      | Inr cols \<Rightarrow>
          Inr \<lparr>rb_fields = target, rb_rows = map (\<lambda>r. map (\<lambda>c. c ! r) cols) [0..<length (rb_rows b)]\<rparr>)"

fun cast_batches :: "'f io_lib \<Rightarrow> field list \<Rightarrow> record_batch list \<Rightarrow> (io_error, record_batch list) result" where
  "cast_batches lib target [] = Inr []"
| "cast_batches lib target (b # bs) =
     (case cast_record lib target b of
        Inl e \<Rightarrow> Inl e
      | Inr b' \<Rightarrow> (case cast_batches lib target bs of Inl e \<Rightarrow> Inl e | Inr bs' \<Rightarrow> Inr (b' # bs')))"

definition align_delta_batches :: "'f io_lib \<Rightarrow> record_batch list \<Rightarrow> delta_field list \<Rightarrow> (io_error, record_batch list) result" where
  "align_delta_batches lib bs schema =
     (if bs = [] then Inr [] else cast_batches lib (List.map_filter (align_field bs) schema) bs)"

text \<open>\<open>readDeltaData\<close>.\<close>

fun read_files :: "'f io_lib \<Rightarrow> (string \<Rightarrow> 'f option) \<Rightarrow> string list \<Rightarrow> (io_error, record_batch list) result" where
  "read_files lib files [] = Inr []"
| "read_files lib files (p # ps) =
     (case files p of
        None \<Rightarrow> Inl (FileMissing p)
      | Some d \<Rightarrow>
          (case io_read lib d of
             None \<Rightarrow> Inl (NotParquet p)
           | Some bs \<Rightarrow> (case read_files lib files ps of Inl e \<Rightarrow> Inl e | Inr bs' \<Rightarrow> Inr (bs @ bs'))))"

definition read_delta_data ::
  "'f io_lib \<Rightarrow> (string \<Rightarrow> 'f option) \<Rightarrow> string list \<Rightarrow> delta_field list \<Rightarrow> (io_error, record_batch list) result" where
  "read_delta_data lib files active schema =
     (case read_files lib files active of Inl e \<Rightarrow> Inl e | Inr bs \<Rightarrow> align_delta_batches lib bs schema)"

subsection \<open>Reconciling target and staging\<close>

text \<open>\<open>columnsNotIn\<close>: the first column that is missing.\<close>

definition columns_not_in :: "field list \<Rightarrow> string list \<Rightarrow> string option" where
  "columns_not_in fs names = find (\<lambda>n. \<not> list_ex (\<lambda>m. equal_fold n m) names) (map fl_name fs)"

text \<open>\<open>unifiedRewriteSchema\<close>: one field of the target against the staging schema, then all.\<close>

definition unified_field :: "delta_field list option \<Rightarrow> field list \<Rightarrow> field \<Rightarrow> (io_error, field) result" where
  "unified_field declared staging f =
     (case field_index staging (fl_name f) of
        None \<Rightarrow> (if fl_nullable f then Inr f else Inl (RequiredColumn (fl_name f)))
      | Some j \<Rightarrow>
          (let g = staging ! j; relax = (\<lambda>h. if fl_nullable g then h\<lparr>fl_nullable := True\<rparr> else h)
           in if fl_type f = fl_type g then Inr (relax f)
              else (case declared of
                      None \<Rightarrow> Inl (TypeConflict (fl_name f))
                    | Some dfs \<Rightarrow>
                        (case delta_field_index dfs (fl_name f) of
                           None \<Rightarrow> Inl (TypeConflict (fl_name f))
                         | Some k \<Rightarrow>
                             (if \<not> same_delta_encoding f (df_type (dfs ! k)) \<or> \<not> same_delta_encoding g (df_type (dfs ! k))
                              then Inl (TypeConflict (fl_name f))
                              else (case column_from_delta_field (dfs ! k) of
                                      Inl e \<Rightarrow> Inl (BadDelta e)
                                    | Inr c \<Rightarrow> Inr (relax (f\<lparr>fl_type := data_type_to_arrow c\<rparr>))))))))"

fun unified_fields :: "delta_field list option \<Rightarrow> field list \<Rightarrow> field list \<Rightarrow> (io_error, field list) result" where
  "unified_fields declared staging [] = Inr []"
| "unified_fields declared staging (f # fs) =
     (case unified_field declared staging f of
        Inl e \<Rightarrow> Inl e
      | Inr g \<Rightarrow> (case unified_fields declared staging fs of Inl e \<Rightarrow> Inl e | Inr gs \<Rightarrow> Inr (g # gs)))"

definition unified_rewrite_schema ::
  "record_batch list \<Rightarrow> record_batch list \<Rightarrow> delta_field list option \<Rightarrow> (io_error, field list option) result" where
  "unified_rewrite_schema target staging declared =
     (let ts = rb_fields (hd target); ss = rb_fields (hd staging)
      in case columns_not_in ss (map fl_name ts) of
           Some missing \<Rightarrow> Inl (NotInFiles missing)
         | None \<Rightarrow>
             (case unified_fields declared ss ts of
                Inl e \<Rightarrow> Inl e
              | Inr fs \<Rightarrow> Inr (if fs = ts \<and> fs = ss then None else Some fs)))"

text \<open>\<open>rewriteSchemaFromDelta\<close>.\<close>

fun fields_from_delta :: "delta_field list \<Rightarrow> field list \<Rightarrow> (io_error, field list) result" where
  "fields_from_delta [] staging = Inr []"
| "fields_from_delta (df # dfs) staging =
     (let rest = (\<lambda>g. case fields_from_delta dfs staging of Inl e \<Rightarrow> Inl e | Inr gs \<Rightarrow> Inr (g @ gs))
      in case (column_from_delta_field df, field_index staging (df_name df)) of
           (Inl e, Some j) \<Rightarrow> Inl (UnsupportedDeclared (df_name df))
         | (Inl e, None) \<Rightarrow> (if df_nullable df then rest [] else Inl (RequiredColumn (df_name df)))
         | (Inr c, None) \<Rightarrow>
             (if df_nullable df
              then rest [\<lparr>fl_name = df_name df, fl_type = data_type_to_arrow c, fl_nullable = True\<rparr>]
              else Inl (RequiredColumn (df_name df)))
         | (Inr c, Some j) \<Rightarrow>
             (if \<not> same_delta_encoding (staging ! j) (df_type df) then Inl (TypeConflict (df_name df))
              else rest [\<lparr>fl_name = df_name df, fl_type = data_type_to_arrow c,
                          fl_nullable = df_nullable df \<or> fl_nullable (staging ! j)\<rparr>]))"

definition rewrite_schema_from_delta :: "delta_field list option \<Rightarrow> field list \<Rightarrow> (io_error, field list option) result" where
  "rewrite_schema_from_delta declared staging =
     (case declared of
        None \<Rightarrow> Inr None
      | Some dfs \<Rightarrow>
          (case fields_from_delta dfs staging of
             Inl e \<Rightarrow> Inl e
           | Inr fs \<Rightarrow> Inr (if fs = staging then None else Some fs)))"

text \<open>\<open>unifyRewriteBatches\<close>.\<close>

definition cast_both ::
  "'f io_lib \<Rightarrow> field list option \<Rightarrow> record_batch list \<Rightarrow> record_batch list
   \<Rightarrow> (io_error, record_batch list \<times> record_batch list) result" where
  "cast_both lib unified target staging =
     (case unified of
        None \<Rightarrow> Inr (target, staging)
      | Some fs \<Rightarrow>
          (case cast_batches lib fs target of
             Inl e \<Rightarrow> Inl e
           | Inr t \<Rightarrow> (case cast_batches lib fs staging of Inl e \<Rightarrow> Inl e | Inr s \<Rightarrow> Inr (t, s))))"

definition unify_rewrite_batches ::
  "'f io_lib \<Rightarrow> record_batch list \<Rightarrow> record_batch list \<Rightarrow> delta_field list option
   \<Rightarrow> (io_error, record_batch list \<times> record_batch list) result" where
  "unify_rewrite_batches lib target staging declared =
     (if staging = [] then Inr (target, staging)
      else (case (case declared of
                    None \<Rightarrow> None
                  | Some dfs \<Rightarrow> columns_not_in (rb_fields (hd staging)) (map df_name dfs)) of
              Some missing \<Rightarrow> Inl (NotDeclared missing)
            | None \<Rightarrow>
                (case (if target = [] then rewrite_schema_from_delta declared (rb_fields (hd staging))
                       else unified_rewrite_schema target staging declared) of
                   Inl e \<Rightarrow> Inl e
                 | Inr unified \<Rightarrow> cast_both lib unified target staging)))"

end
