(* ===== verification/Onelake_Table.thy ===== *)
theory Onelake_Table
  imports Onelake_Commit
begin

text \<open>
  The tables of the OneLake destination in shared storage: reading one, publishing a commit, and the
  loops that retry on a conflict: the copy-on-write loads (\<open>rewriteTableWithRetry\<close>), the append
  (\<open>writeTablesMode\<close>) and schema evolution (\<open>ApplySchemaEvolution\<close>).
\<close>

subsection \<open>Storage\<close>

record 'f table_store =
  ts_log :: "(int \<times> commit) list"
  ts_files :: "string \<Rightarrow> 'f option"

definition empty_table :: "'f table_store" where
  "empty_table = \<lparr>ts_log = [], ts_files = Map.empty\<rparr>"

type_synonym 'f store = "string \<Rightarrow> 'f table_store"

text \<open>An operation on storage works, fails before or fails after its effect; a clock numbers the
  operations. What others write before each of them is a function of the tick.\<close>

datatype fault = Works | FailsBefore | FailsAfter

record 'f environment =
  ev_others :: "nat \<Rightarrow> 'f store \<Rightarrow> 'f store"
  ev_fault :: "nat \<Rightarrow> fault"
  ev_uuid :: "nat \<Rightarrow> string"

record 'f lake =
  w_store :: "'f store"
  w_clock :: nat
  w_cache :: "string \<Rightarrow> metadata_cache option"

definition next_tick :: "'f environment \<Rightarrow> 'f lake \<Rightarrow> fault \<times> 'f lake" where
  "next_tick env w =
     (ev_fault env (w_clock w),
      w\<lparr>w_store := ev_others env (w_clock w) (w_store w), w_clock := Suc (w_clock w)\<rparr>)"

definition set_table :: "'f lake \<Rightarrow> string \<Rightarrow> 'f table_store \<Rightarrow> 'f lake" where
  "set_table w dir t = w\<lparr>w_store := (w_store w)(dir := t)\<rparr>"

definition data_file :: "string \<Rightarrow> string" where
  "data_file uuid = ''part-00000-'' @ uuid @ ''.c000.snappy.parquet''"

text \<open>\<open>uploadBuffer\<close>, \<open>uploadDeltaCommit\<close> (an atomic rename that fails when the name is taken) and
  \<open>DeleteDir\<close>.\<close>

definition upload :: "'f environment \<Rightarrow> string \<Rightarrow> string \<Rightarrow> 'f \<Rightarrow> 'f lake \<Rightarrow> 'f lake \<times> (io_error, unit) result" where
  "upload env dir name content w =
     (case next_tick env w of
        (fault, w1) \<Rightarrow>
          (let t = w_store w1 dir; w2 = set_table w1 dir (t\<lparr>ts_files := (ts_files t)(name \<mapsto> content)\<rparr>)
           in case fault of Works \<Rightarrow> (w2, Inr ()) | FailsBefore \<Rightarrow> (w1, Inl StorageFailed) | FailsAfter \<Rightarrow> (w2, Inl StorageFailed)))"

datatype publish_result = Published | Conflict | PublishFailed

definition publish :: "'f environment \<Rightarrow> string \<Rightarrow> int \<Rightarrow> commit \<Rightarrow> 'f lake \<Rightarrow> 'f lake \<times> publish_result" where
  "publish env dir v c w =
     (case next_tick env w of
        (fault, w1) \<Rightarrow>
          (let t = w_store w1 dir; w2 = set_table w1 dir (t\<lparr>ts_log := insort_key fst (v, c) (ts_log t)\<rparr>)
           in if fault = FailsBefore then (w1, PublishFailed)
              else if v \<in> fst ` set (ts_log t) then (w1, Conflict)
              else (w2, if fault = Works then Published else PublishFailed)))"

definition delete_dir :: "'f environment \<Rightarrow> string \<Rightarrow> 'f lake \<Rightarrow> 'f lake \<times> (io_error, unit) result" where
  "delete_dir env dir w =
     (case next_tick env w of
        (fault, w1) \<Rightarrow>
          (let w2 = set_table w1 dir empty_table
           in case fault of Works \<Rightarrow> (w2, Inr ()) | FailsBefore \<Rightarrow> (w1, Inl StorageFailed) | FailsAfter \<Rightarrow> (w2, Inl StorageFailed)))"

definition forget_table_metadata :: "string \<Rightarrow> 'f lake \<Rightarrow> 'f lake" where
  "forget_table_metadata dir w = w\<lparr>w_cache := (w_cache w)(dir := None)\<rparr>"

subsection \<open>Reading a table\<close>

text \<open>\<open>readTable\<close>, on the state of storage and then as an operation of ours.\<close>

definition table_snapshot :: "'f table_store \<Rightarrow> (log_error, snapshot option) result" where
  "table_snapshot t = read_delta_snapshot (map fst (ts_log t)) (map_of (ts_log t))"

definition table_content :: "'f io_lib \<Rightarrow> 'f table_store \<Rightarrow> (io_error, snapshot option \<times> record_batch list) result" where
  "table_content lib t =
     (case table_snapshot t of
        Inl e \<Rightarrow> Inl (LogFailed e)
      | Inr None \<Rightarrow> Inr (None, [])
      | Inr (Some s) \<Rightarrow>
          (case sn_metadata s of
             None \<Rightarrow> Inl NoMetadata
           | Some md \<Rightarrow>
               (case check_rewritable (sn_protocol s) (sn_first_version s) (sn_dv_files s) md of
                  Some e \<Rightarrow> Inl (BadDelta e)
                | None \<Rightarrow>
                    (case read_delta_data lib (ts_files t) (sn_active_files s) (dm_fields md) of
                       Inl e \<Rightarrow> Inl e
                     | Inr bs \<Rightarrow> Inr (Some s, bs)))))"

definition read_delta_table ::
  "'f io_lib \<Rightarrow> 'f environment \<Rightarrow> string \<Rightarrow> 'f lake \<Rightarrow> 'f lake \<times> (io_error, snapshot option \<times> record_batch list) result" where
  "read_delta_table lib env dir w =
     (case next_tick env w of
        (fault, w1) \<Rightarrow> (w1, if fault = Works then table_content lib (w_store w1 dir) else Inl StorageFailed))"

text \<open>\<open>declaredDeltaSchema\<close>.\<close>

definition declared_delta_schema :: "snapshot option \<Rightarrow> delta_field list option" where
  "declared_delta_schema snap = (case snap of None \<Rightarrow> None | Some s \<Rightarrow> map_option dm_fields (sn_metadata s))"

subsection \<open>Copy-on-write loads\<close>

datatype load = Merge "string list" | DeleteInsert delete_insert_options | Scd2 scd2_options

fun run_load :: "arrow_lib \<Rightarrow> load \<Rightarrow> record_batch list \<Rightarrow> record_batch list \<Rightarrow> (rewrite_error, record_batch list) result" where
  "run_load al (Merge pks) target staging = merge_batches al target staging pks"
| "run_load al (DeleteInsert opts) target staging = delete_insert_batches al target staging opts"
| "run_load al (Scd2 opts) target staging = scd2_batches al target staging opts"

text \<open>The transform of one attempt: reconcile, then merge, delete and insert, or close versions.\<close>

definition transform ::
  "arrow_lib \<Rightarrow> 'f io_lib \<Rightarrow> load \<Rightarrow> record_batch list \<Rightarrow> snapshot option \<times> record_batch list
   \<Rightarrow> (io_error, record_batch list) result" where
  "transform al lib load staging content =
     (case content of
        (snap, target) \<Rightarrow>
          (case unify_rewrite_batches lib target staging (declared_delta_schema snap) of
             Inl e \<Rightarrow> Inl e
           | Inr (t, s) \<Rightarrow> (case run_load al load t s of Inl e \<Rightarrow> Inl (BadLoad e) | Inr out \<Rightarrow> Inr out)))"

text \<open>\<open>writeBatchesToParquet\<close> and \<open>uploadRewriteData\<close>: the added files and the columns.\<close>

definition write_batches_to_parquet :: "'f io_lib \<Rightarrow> record_batch list \<Rightarrow> (io_error, 'f) result" where
  "write_batches_to_parquet lib bs =
     (let fs = rb_fields (hd bs)
      in if \<not> list_all (\<lambda>b. rb_fields b = fs) bs then Inl IncompatibleBatch
         else (case io_write lib fs bs of None \<Rightarrow> Inl WriterFailed | Some d \<Rightarrow> Inr d))"

definition upload_rewrite_data ::
  "'f io_lib \<Rightarrow> 'f environment \<Rightarrow> string \<Rightarrow> record_batch list \<Rightarrow> 'f lake
   \<Rightarrow> 'f lake \<times> (io_error, string list \<times> column list) result" where
  "upload_rewrite_data lib env dir bs w =
     (if bs = [] then (w, Inr ([], []))
      else (case write_batches_to_parquet lib bs of
              Inl e \<Rightarrow> (w, Inl e)
            | Inr d \<Rightarrow>
                (let file = data_file (ev_uuid env (w_clock w))
                 in case upload env dir file d w of
                      (w1, Inl e) \<Rightarrow> (w1, Inl e)
                    | (w1, Inr _) \<Rightarrow> (w1, Inr ([file], map arrow_field_to_column (rb_fields (hd bs)))))))"

text \<open>\<open>commitRewrite\<close>; \<open>None\<close> when there is nothing to commit.\<close>

definition rewrite_commit ::
  "string \<Rightarrow> snapshot option \<Rightarrow> string list \<Rightarrow> column list \<Rightarrow> (int \<times> commit) option" where
  "rewrite_commit table_id snap adds cols =
     (case snap of
        None \<Rightarrow> (if adds = [] then None else Some (0, build_initial_commit cols adds table_id))
      | Some s \<Rightarrow>
          (let v = sn_version s + 1
           in Some (v, if v = 0 then build_initial_commit cols adds table_id
                       else build_rewrite_commit (sn_active_files s) adds)))"

text \<open>The loop of attempts: \<open>Again\<close> is the \<open>continue\<close> of a conflict.\<close>

datatype 'r attempt = Again | Done 'r

fun retry :: "nat \<Rightarrow> ('w \<Rightarrow> 'w \<times> 'r attempt) \<Rightarrow> 'w \<Rightarrow> 'w \<times> 'r option" where
  "retry 0 step w = (w, None)"
| "retry (Suc n) step w = (case step w of (w1, Again) \<Rightarrow> retry n step w1 | (w1, Done r) \<Rightarrow> (w1, Some r))"

definition max_delta_commit_attempts :: nat where "max_delta_commit_attempts = 5"

definition publish_attempt ::
  "'f environment \<Rightarrow> string \<Rightarrow> int \<Rightarrow> commit \<Rightarrow> 'f lake \<Rightarrow> 'f lake \<times> (io_error, unit) result attempt" where
  "publish_attempt env dir v c w =
     (case publish env dir v c w of
        (w1, Published) \<Rightarrow> (w1, Done (Inr ()))
      | (w1, Conflict) \<Rightarrow> (w1, Again)
      | (w1, PublishFailed) \<Rightarrow> (w1, Done (Inl StorageFailed)))"

definition rewrite_attempt ::
  "arrow_lib \<Rightarrow> 'f io_lib \<Rightarrow> 'f environment \<Rightarrow> load \<Rightarrow> string \<Rightarrow> record_batch list \<Rightarrow> 'f lake
   \<Rightarrow> 'f lake \<times> (io_error, unit) result attempt" where
  "rewrite_attempt al lib env load dir staging w =
     (case read_delta_table lib env dir w of
        (w1, Inl e) \<Rightarrow> (w1, Done (Inl e))
      | (w1, Inr content) \<Rightarrow>
          (case transform al lib load staging content of
             Inl e \<Rightarrow> (w1, Done (Inl e))
           | Inr out \<Rightarrow>
               (case upload_rewrite_data lib env dir out w1 of
                  (w2, Inl e) \<Rightarrow> (w2, Done (Inl e))
                | (w2, Inr (adds, cols)) \<Rightarrow>
                    (case rewrite_commit (ev_uuid env (w_clock w2)) (fst content) adds cols of
                       None \<Rightarrow> (w2, Done (Inr ()))
                     | Some (v, c) \<Rightarrow> publish_attempt env dir v c w2))))"

definition exhausted :: "'w \<times> (io_error, unit) result option \<Rightarrow> 'w \<times> (io_error, unit) result" where
  "exhausted p = (case p of (w, None) \<Rightarrow> (w, Inl TooManyConflicts) | (w, Some r) \<Rightarrow> (w, r))"

text \<open>\<open>rewriteTableWithRetry\<close>; its directories come from \<open>tableDirForTables\<close>.\<close>

definition rewrite_table_with_retry ::
  "arrow_lib \<Rightarrow> 'f io_lib \<Rightarrow> 'f environment \<Rightarrow> (string \<Rightarrow> (one_lake_error, string) result) \<Rightarrow> load \<Rightarrow> string \<Rightarrow> string
   \<Rightarrow> 'f lake \<Rightarrow> 'f lake \<times> (io_error, unit) result" where
  "rewrite_table_with_retry al lib env dir_of load target staging w =
     (case dir_of staging of
        Inl e \<Rightarrow> (w, Inl (BadTable e))
      | Inr sdir \<Rightarrow>
          (case read_delta_table lib env sdir w of
             (w1, Inl e) \<Rightarrow> (w1, Inl e)
           | (w1, Inr (_, sb)) \<Rightarrow>
               (case dir_of target of
                  Inl e \<Rightarrow> (w1, Inl (BadTable e))
                | Inr dir \<Rightarrow> exhausted (retry max_delta_commit_attempts (rewrite_attempt al lib env load dir sb) w1))))"

subsection \<open>Appending\<close>

text \<open>What \<open>PrepareTable\<close> leaves in the destination, with the directory of the target.\<close>

record target_state =
  tg_mode :: write_mode
  tg_rel :: string
  tg_dir :: string
  tg_columns :: "column list option"
  tg_fields :: "field list option"
  tg_drop_first :: bool

definition prepare_table ::
  "(string \<Rightarrow> bool) \<Rightarrow> one_lake \<Rightarrow> 'f environment \<Rightarrow> string \<Rightarrow> column list option \<Rightarrow> bool \<Rightarrow> 'f lake
   \<Rightarrow> 'f lake \<times> (io_error, target_state) result" where
  "prepare_table valid_uuid d env table cols drop_first w =
     (case parse_target table of
        Inl e \<Rightarrow> (w, Inl (BadTable e))
      | Inr (mode, rel) \<Rightarrow>
          (let dir = (if mode = ModeTables then table_dir valid_uuid d rel else files_dir valid_uuid d rel);
               t = \<lparr>tg_mode = mode, tg_rel = rel, tg_dir = dir, tg_columns = cols,
                    tg_fields = map_option to_arrow_schema cols, tg_drop_first = drop_first\<rparr>
           in if \<not> drop_first then (w, Inr t)
              else (case delete_dir env dir w of
                      (w1, Inl e) \<Rightarrow> (w1, Inl e)
                    | (w1, Inr _) \<Rightarrow> (forget_table_metadata dir w1, Inr t))))"

text \<open>The batches of the stream that have rows, up to its first error.\<close>

fun gather_records :: "(string, record_batch option) result list \<Rightarrow> (io_error, record_batch list) result" where
  "gather_records [] = Inr []"
| "gather_records (Inl e # rs) = Inl (StreamFailed e)"
| "gather_records (Inr b # rs) =
     (case gather_records rs of
        Inl e \<Rightarrow> Inl e
      | Inr bs \<Rightarrow> Inr (case b of None \<Rightarrow> bs | Some r \<Rightarrow> if rb_rows r = [] then bs else r # bs))"

text \<open>\<open>columns\<close>: those of the table schema, or those of the Arrow schema.\<close>

definition target_columns :: "target_state \<Rightarrow> (io_error, column list) result" where
  "target_columns t =
     (case tg_columns t of
        Some (c # cs) \<Rightarrow> Inr (c # cs)
      | _ \<Rightarrow> (case tg_fields t of None \<Rightarrow> Inl NoSchema | Some fs \<Rightarrow> Inr (map arrow_field_to_column fs)))"

text \<open>\<open>nextDeltaVersion\<close> and one attempt of \<open>writeTablesMode\<close>.\<close>

definition next_version :: "(int \<times> commit) list \<Rightarrow> int" where
  "next_version es = (if es = [] then 0 else fst (last es) + 1)"

definition next_delta_version :: "'f environment \<Rightarrow> target_state \<Rightarrow> 'f lake \<Rightarrow> 'f lake \<times> (io_error, int) result" where
  "next_delta_version env t w =
     (if tg_drop_first t then (w, Inr 0)
      else (case next_tick env w of
              (fault, w1) \<Rightarrow>
                (w1, if fault = Works then Inr (next_version (ts_log (w_store w1 (tg_dir t)))) else Inl StorageFailed)))"

definition append_attempt ::
  "'f environment \<Rightarrow> target_state \<Rightarrow> column list \<Rightarrow> string \<Rightarrow> 'f lake \<Rightarrow> 'f lake \<times> (io_error, unit) result attempt" where
  "append_attempt env t cols file w =
     (case next_delta_version env t w of
        (w1, Inl e) \<Rightarrow> (w1, Done (Inl e))
      | (w1, Inr v) \<Rightarrow>
          publish_attempt env (tg_dir t) v
            (if v = 0 then build_initial_commit cols [file] (ev_uuid env (w_clock w1)) else build_append_commit [file]) w1)"

definition write_tables_mode ::
  "'f environment \<Rightarrow> target_state \<Rightarrow> 'f \<Rightarrow> 'f lake \<Rightarrow> 'f lake \<times> (io_error, unit) result" where
  "write_tables_mode env t content w =
     (let file = data_file (ev_uuid env (w_clock w))
      in case upload env (tg_dir t) file content w of
           (w1, Inl e) \<Rightarrow> (w1, Inl e)
         | (w1, Inr _) \<Rightarrow>
             (case target_columns t of
                Inl e \<Rightarrow> (w1, Inl e)
              | Inr cols \<Rightarrow> exhausted (retry max_delta_commit_attempts (append_attempt env t cols file) w1)))"

definition write_files_mode ::
  "one_lake \<Rightarrow> 'f environment \<Rightarrow> target_state \<Rightarrow> 'f \<Rightarrow> 'f lake \<Rightarrow> 'f lake \<times> (io_error, unit) result" where
  "write_files_mode d env t content w =
     upload env (tg_dir t) (render_layout d (tg_rel t) (take 8 (ev_uuid env (w_clock w))) 0) content w"

text \<open>\<open>WriteParallel\<close>: one file of all the rows of the stream.\<close>

definition write_parallel ::
  "'f io_lib \<Rightarrow> one_lake \<Rightarrow> 'f environment \<Rightarrow> target_state \<Rightarrow> (string, record_batch option) result list \<Rightarrow> 'f lake
   \<Rightarrow> 'f lake \<times> (io_error, unit) result" where
  "write_parallel lib d env t0 records w =
     (case gather_records records of
        Inl e \<Rightarrow> (w, Inl e)
      | Inr [] \<Rightarrow> (w, Inr ())
      | Inr (b # bs) \<Rightarrow>
          (let fs = (case tg_fields t0 of Some fs \<Rightarrow> fs | None \<Rightarrow> rb_fields b); t = t0\<lparr>tg_fields := Some fs\<rparr>
           in case io_write lib fs (b # bs) of
                None \<Rightarrow> (w, Inl WriterFailed)
              | Some content \<Rightarrow>
                  (if tg_mode t = ModeFiles then write_files_mode d env t content w
                   else write_tables_mode env t content w)))"

text \<open>\<open>DropTable\<close>.\<close>

definition drop_table ::
  "(string \<Rightarrow> bool) \<Rightarrow> one_lake \<Rightarrow> 'f environment \<Rightarrow> string \<Rightarrow> 'f lake \<Rightarrow> 'f lake \<times> (io_error, unit) result" where
  "drop_table valid_uuid d env table w =
     (case parse_target table of
        Inl e \<Rightarrow> (w, Inl (BadTable e))
      | Inr (mode, rel) \<Rightarrow>
          (let dir = (if mode = ModeTables then table_dir valid_uuid d rel else files_dir valid_uuid d rel)
           in case delete_dir env dir w of
                (w1, Inl e) \<Rightarrow> (w1, Inl e)
              | (w1, Inr _) \<Rightarrow> (forget_table_metadata dir w1, Inr ())))"

subsection \<open>Schema evolution\<close>

text \<open>Reading the metadata through the cache, as an operation.\<close>

definition table_metadata ::
  "'f io_lib \<Rightarrow> 'f environment \<Rightarrow> string \<Rightarrow> 'f lake \<Rightarrow> 'f lake \<times> (io_error, snapshot option) result" where
  "table_metadata lib env dir w =
     (case next_tick env w of
        (fault, w1) \<Rightarrow>
          (if fault \<noteq> Works then (w1, Inl StorageFailed)
           else
             (let log = ts_log (w_store w1 dir)
              in case read_table_metadata (map (\<lambda>(v, c). (v, io_etag lib v c)) log) (map_of log) (w_cache w1 dir) of
                   (r, k) \<Rightarrow>
                     (w1\<lparr>w_cache := (w_cache w1)(dir := k)\<rparr>, case r of Inl e \<Rightarrow> Inl (LogFailed e) | Inr s \<Rightarrow> Inr s))))"

text \<open>\<open>GetTableSchema\<close>.\<close>

definition get_table_schema ::
  "(string \<Rightarrow> bool) \<Rightarrow> one_lake \<Rightarrow> 'f io_lib \<Rightarrow> 'f environment \<Rightarrow> string \<Rightarrow> 'f lake
   \<Rightarrow> 'f lake \<times> (io_error, table_schema option) result" where
  "get_table_schema valid_uuid d lib env table w =
     (case parse_target table of
        Inl e \<Rightarrow> (w, Inl (BadTable e))
      | Inr (mode, rel) \<Rightarrow>
          (if mode = ModeFiles then (w, Inr None)
           else (case table_metadata lib env (table_dir valid_uuid d rel) w of
                   (w1, Inl e) \<Rightarrow> (w1, Inl e)
                 | (w1, Inr None) \<Rightarrow> (w1, Inr None)
                 | (w1, Inr (Some s)) \<Rightarrow>
                     (case sn_metadata s of
                        None \<Rightarrow> (w1, Inr None)
                      | Some md \<Rightarrow>
                          (w1, case table_schema_from_delta table (dm_fields md) of
                                 Inl e \<Rightarrow> Inl (BadDelta e) | Inr ts \<Rightarrow> Inr (Some ts))))))"

text \<open>One attempt; the state carries the metadata that the plan was built against.\<close>

definition evolve_attempt ::
  "'f io_lib \<Rightarrow> 'f environment \<Rightarrow> string \<Rightarrow> schema_comparison \<Rightarrow> 'f lake \<times> delta_metadata option
   \<Rightarrow> ('f lake \<times> delta_metadata option) \<times> (io_error, unit) result attempt" where
  "evolve_attempt lib env dir cmp p =
     (case p of
        (w, expected) \<Rightarrow>
          (case table_metadata lib env dir w of
             (w1, Inl e) \<Rightarrow> ((w1, expected), Done (Inl e))
           | (w1, Inr None) \<Rightarrow> ((w1, expected), Done (Inr ()))
           | (w1, Inr (Some s)) \<Rightarrow>
               (case sn_metadata s of
                  None \<Rightarrow> ((w1, expected), Done (Inr ()))
                | Some md \<Rightarrow>
                    (if expected \<noteq> None \<and> expected \<noteq> Some md then ((w1, expected), Done (Inl MetadataChanged))
                     else (case check_supported_protocol (sn_protocol s) of
                             Some e \<Rightarrow> ((w1, Some md), Done (Inl (BadDelta e)))
                           | None \<Rightarrow>
                               (case evolve_delta_metadata md (Some cmp) of
                                  Inl e \<Rightarrow> ((w1, Some md), Done (Inl (BadDelta e)))
                                | Inr (md', changed) \<Rightarrow>
                                    (if \<not> changed then ((w1, Some md), Done (Inr ()))
                                     else (case publish_attempt env dir (sn_version s + 1) (build_schema_evolution_commit md') w1 of
                                             (w2, r) \<Rightarrow> ((w2, Some md), r)))))))))"

definition apply_schema_evolution ::
  "'f io_lib \<Rightarrow> 'f environment \<Rightarrow> (string \<Rightarrow> (one_lake_error, string) result) \<Rightarrow> string \<Rightarrow> schema_comparison option
   \<Rightarrow> 'f lake \<Rightarrow> 'f lake \<times> (io_error, unit) result" where
  "apply_schema_evolution lib env dir_of table cmp w =
     (case cmp of
        None \<Rightarrow> (w, Inr ())
      | Some c \<Rightarrow>
          (if \<not> cmp_has_changes c then (w, Inr ())
           else (case dir_of table of
                   Inl e \<Rightarrow> (w, Inl (BadTable e))
                 | Inr dir \<Rightarrow>
                     (case exhausted (retry max_delta_commit_attempts (evolve_attempt lib env dir c)
                                        (w, map_option mc_metadata (w_cache w dir))) of
                        ((w1, _), r) \<Rightarrow> (w1, r)))))"

end
