(* ===== verification/Onelake_Serial.thy ===== *)
theory Onelake_Serial
  imports Onelake_Table
begin

text \<open>
  Loads among other writers. Whatever the others commit between our operations, and wherever an
  operation on storage fails, a load of the OneLake destination takes effect in one commit or not
  at all, and that commit is what the load makes of the table as it stands just before it.
\<close>

subsection \<open>Retrying\<close>

locale retry_loop =
  fixes step :: "'w \<Rightarrow> 'w \<times> 'r attempt"
    and good :: "'w \<Rightarrow> bool"
    and waits :: "'w \<Rightarrow> 'w \<Rightarrow> bool"
    and ends :: "'w \<Rightarrow> 'r \<Rightarrow> 'w \<Rightarrow> bool"
  assumes waits_refl: "waits w w"
    and waits_trans: "waits w v \<Longrightarrow> waits v u \<Longrightarrow> waits w u"
    and ends_later: "waits w v \<Longrightarrow> ends v r u \<Longrightarrow> ends w r u"
    and step_again: "good w \<Longrightarrow> step w = (w', Again) \<Longrightarrow> good w' \<and> waits w w'"
    and step_done: "good w \<Longrightarrow> step w = (w', Done r) \<Longrightarrow> ends w r w'"
begin

lemma retry_outcome:
  "good w \<Longrightarrow> retry n step w = (w', res) \<Longrightarrow> (case res of None \<Rightarrow> waits w w' | Some r \<Rightarrow> ends w r w')"
proof (induction n arbitrary: w)
  case (Suc n)
  obtain w1 a where a: "step w = (w1, a)" by (cases "step w")
  show ?case
  proof (cases a)
    case Again
    with a step_again Suc.prems(1) have w1: "good w1" "waits w w1" by blast+
    have "retry n step w1 = (w', res)" using Suc.prems(2) a Again by simp
    from Suc.IH [OF w1(1) this] show ?thesis
      using waits_trans [OF w1(2)] ends_later [OF w1(2)] by (auto split: option.splits)
  next
    case (Done r)
    then show ?thesis using a Suc.prems step_done [OF Suc.prems(1)] by auto
  qed
qed (use waits_refl in simp)

end

text \<open>Every attempt that has to be repeated was worth something to somebody.\<close>

locale counted_retry = retry_loop +
  fixes work :: "'w \<Rightarrow> nat"
  assumes step_work: "good w \<Longrightarrow> step w = (w', Again) \<Longrightarrow> work w < work w'"
begin

lemma exhausted_work:
  "good w \<Longrightarrow> retry n step w = (w', None) \<Longrightarrow> work w + n \<le> work w'"
proof (induction n arbitrary: w)
  case (Suc n)
  then obtain w1 where w1: "step w = (w1, Again)" "retry n step w1 = (w', None)"
    by (auto split: prod.splits attempt.splits)
  then show ?case
    using Suc.IH [OF _ w1(2)] step_again [OF Suc.prems(1) w1(1)] step_work [OF Suc.prems(1) w1(1)] by simp
qed simp

end

subsection \<open>Other writers\<close>

text \<open>A log only grows, by the next versions; files are only added.\<close>

definition extends_log :: "(int \<times> commit) list \<Rightarrow> (int \<times> commit) list \<Rightarrow> bool" where
  "extends_log old new \<longleftrightarrow>
     (\<exists>later. new = old @ later \<and> map fst later = map (\<lambda>i. next_version old + int i) [0..<length later])"

definition grown :: "'f store \<Rightarrow> 'f store \<Rightarrow> bool" where
  "grown s s' \<longleftrightarrow> (\<forall>dir. extends_log (ts_log (s dir)) (ts_log (s' dir)) \<and> ts_files (s dir) \<subseteq>\<^sub>m ts_files (s' dir))"

definition log_ok :: "(int \<times> commit) list \<Rightarrow> bool" where
  "log_ok es \<longleftrightarrow> sorted_wrt (<) (map fst es)"

definition log_paths :: "(int \<times> commit) list \<Rightarrow> string set" where
  "log_paths es = {p. \<exists>v c b. (v, c) \<in> set es \<and> AddFile p b \<in> set c}"

text \<open>The names we generate from some tick on are not in use, and others do not come up with them.\<close>

definition fresh :: "'f environment \<Rightarrow> nat \<Rightarrow> 'f store \<Rightarrow> bool" where
  "fresh env n s \<longleftrightarrow>
     (\<forall>k\<ge>n. \<forall>dir. data_file (ev_uuid env k) \<notin> dom (ts_files (s dir)) \<union> log_paths (ts_log (s dir)))"

definition fair :: "'f environment \<Rightarrow> bool" where
  "fair env \<longleftrightarrow> inj (ev_uuid env) \<and>
     (\<forall>n s. grown s (ev_others env n s) \<and>
        (\<forall>k dir. let p = data_file (ev_uuid env k); t = s dir; t' = ev_others env n s dir
           in (p \<notin> log_paths (ts_log t) \<longrightarrow> p \<notin> log_paths (ts_log t')) \<and> (ts_files t p = None \<longrightarrow> ts_files t' p = None)))"

definition parquet_ok :: "'f io_lib \<Rightarrow> bool" where
  "parquet_ok lib \<longleftrightarrow>
     (\<forall>fs bs d. io_write lib fs bs = Some d \<and> list_all (\<lambda>b. rb_fields b = fs) bs \<longrightarrow>
        io_read lib d = Some (if all_rows bs = [] then [] else [\<lparr>rb_fields = fs, rb_rows = all_rows bs\<rparr>]))"

definition good :: "'f environment \<Rightarrow> 'f lake \<Rightarrow> bool" where
  "good env w \<longleftrightarrow> fair env \<and> (\<forall>dir. log_ok (ts_log (w_store w dir))) \<and> fresh env (w_clock w) (w_store w)"

text \<open>States reached while no commit of ours takes effect: others act, and files appear that no log
  mentions.\<close>

inductive by_others :: "'f environment \<Rightarrow> 'f store \<Rightarrow> 'f store \<Rightarrow> bool" for env where
  idle: "by_others env s s"
| others_act: "by_others env s s1 \<Longrightarrow> by_others env s (ev_others env n s1)"
| new_file: "by_others env s s1 \<Longrightarrow> ts_files (s1 dir) p = None \<Longrightarrow>
    by_others env s (s1(dir := (s1 dir)\<lparr>ts_files := (ts_files (s1 dir))(p \<mapsto> d)\<rparr>))"

lemma by_others_trans:
  assumes "by_others env s s1" "by_others env s1 s2"
  shows "by_others env s s2"
  using assms(2,1) by (induction rule: by_others.induct) (auto intro: by_others.intros)

lemma extends_log_refl: "extends_log es es"
  by (auto simp: extends_log_def)

lemma next_version_extends:
  assumes "map fst later = map (\<lambda>i. next_version old + int i) [0..<length later]"
  shows "next_version (old @ later) = next_version old + int (length later)"
proof (cases later rule: rev_cases)
  case (snoc ms m)
  have "fst (last later) = last (map fst later)" using snoc by (simp add: last_map)
  also have "\<dots> = next_version old + int (length ms)" unfolding assms using snoc by simp
  finally show ?thesis using snoc by (simp add: next_version_def)
qed simp

lemma extends_log_trans:
  assumes "extends_log a b" "extends_log b c"
  shows "extends_log a c"
proof -
  obtain m1 where m1: "b = a @ m1" "map fst m1 = map (\<lambda>i. next_version a + int i) [0..<length m1]"
    using assms(1) by (auto simp: extends_log_def)
  obtain m2 where m2: "c = b @ m2" "map fst m2 = map (\<lambda>i. next_version b + int i) [0..<length m2]"
    using assms(2) by (auto simp: extends_log_def)
  have n: "next_version b = next_version a + int (length m1)"
    using next_version_extends m1 by simp
  have up: "[0..<length m1 + length m2] = [0..<length m1] @ map (\<lambda>i. i + length m1) [0..<length m2]"
    using map_add_upt [of "length m1" "length m2"] upt_add_eq_append [of 0 "length m1" "length m2"] by (simp add: add.commute)
  have "map fst (m1 @ m2) = map (\<lambda>i. next_version a + int i) [0..<length (m1 @ m2)]"
    by (simp add: up m1(2) m2(2) n ac_simps)
  then show ?thesis using m1(1) m2(1) by (auto simp: extends_log_def)
qed

lemma grown_refl: "grown s s"
  by (simp add: grown_def extends_log_refl)

lemma grown_trans: "grown s t \<Longrightarrow> grown t u \<Longrightarrow> grown s u"
  unfolding grown_def by (meson extends_log_trans map_le_trans)

lemma grown_by_others:
  assumes "fair env" "by_others env s t"
  shows "grown s t"
  using assms(2)
proof (induction rule: by_others.induct)
  case (idle s)
  show ?case by (rule grown_refl)
next
  case (others_act s s1 n)
  then show ?case using assms(1) grown_trans by (fastforce simp: fair_def)
next
  case (new_file s s1 dir p d)
  have "grown s1 (s1(dir := (s1 dir)\<lparr>ts_files := (ts_files (s1 dir))(p \<mapsto> d)\<rparr>))"
    using new_file(2) by (auto simp: grown_def extends_log_refl map_le_def)
  then show ?case using new_file grown_trans by blast
qed

lemma sorted_next_version:
  assumes "log_ok es" "v \<in> fst ` set es"
  shows "v < next_version es"
proof (cases es rule: rev_cases)
  case (snoc xs x)
  then show ?thesis using assms by (fastforce simp: log_ok_def sorted_wrt_append next_version_def)
qed (use assms in simp)

lemma log_ok_extends:
  assumes "log_ok old" "extends_log old new"
  shows "log_ok new"
proof -
  obtain later where m: "new = old @ later" "map fst later = map (\<lambda>i. next_version old + int i) [0..<length later]"
    using assms(2) by (auto simp: extends_log_def)
  have "sorted_wrt (<) (map fst later)"
    unfolding m(2) by (simp add: sorted_wrt_map sorted_wrt_iff_nth_less)
  moreover have "x < y" if "x \<in> fst ` set old" "y \<in> fst ` set later" for x y
  proof -
    have "y \<in> set (map (\<lambda>i. next_version old + int i) [0..<length later])"
      using that(2) unfolding m(2) [symmetric] by simp
    then show ?thesis using sorted_next_version [OF assms(1) that(1)] by auto
  qed
  ultimately show ?thesis using assms(1) by (auto simp: log_ok_def m(1) sorted_wrt_append)
qed

text \<open>The next version is taken as soon as somebody else has committed.\<close>

lemma next_version_free:
  assumes "log_ok old" "extends_log old new"
  shows "next_version old \<notin> fst ` set new \<longleftrightarrow> new = old"
proof -
  obtain later where m: "new = old @ later" "map fst later = map (\<lambda>i. next_version old + int i) [0..<length later]"
    using assms(2) by (auto simp: extends_log_def)
  have old: "next_version old \<notin> fst ` set old" using sorted_next_version [OF assms(1)] by blast
  show ?thesis
  proof (cases later)
    case (Cons x xs)
    have "fst x = hd (map fst later)" using Cons by simp
    also have "\<dots> = next_version old" unfolding m(2) using Cons by (simp add: hd_map upt_conv_Cons del: upt_Suc)
    finally show ?thesis using m(1) Cons by auto
  qed (use m(1) old in simp)
qed

lemma insort_last: "\<forall>x\<in>set es. fst x < v \<Longrightarrow> insort_key fst (v, c) es = es @ [(v, c)]" for v :: int
  by (induction es) auto

lemma insort_next_version:
  "log_ok es \<Longrightarrow> insort_key fst (next_version es, c) es = es @ [(next_version es, c)]"
  using sorted_next_version by (intro insort_last) auto

subsection \<open>Snapshots\<close>

definition replayed :: "(int \<times> commit) list \<Rightarrow> replay" where
  "replayed es = foldl replay_commit empty_replay (map snd es)"

definition active_paths :: "replay \<Rightarrow> string list" where
  "active_paths s = filter (\<lambda>p. rp_active s p \<noteq> None) (rp_order s)"

lemma replay_versions_log:
  "\<forall>(v, c)\<in>set es. download v = Some c \<Longrightarrow>
    replay_versions download (map fst es) s = Inr (foldl replay_commit s (map snd es))"
  by (induction es arbitrary: s) auto

lemma table_snapshot_log:
  assumes "log_ok (ts_log t)"
  shows "table_snapshot t =
    (if ts_log t = [] then Inr None
     else Inr (Some \<lparr>sn_version = fst (last (ts_log t)), sn_first_version = fst (hd (ts_log t)),
       sn_active_files = active_paths (replayed (ts_log t)),
       sn_dv_files = filter (\<lambda>p. rp_active (replayed (ts_log t)) p = Some True) (active_paths (replayed (ts_log t))),
       sn_metadata = rp_metadata (replayed (ts_log t)), sn_metadata_version = 0,
       sn_protocol = rp_protocol (replayed (ts_log t)), sn_protocol_version = 0\<rparr>))"
proof -
  have "distinct (map fst (ts_log t))"
    using assms unfolding log_ok_def strict_sorted_iff by blast
  then have "\<forall>(v, c)\<in>set (ts_log t). map_of (ts_log t) v = Some c" by auto
  from replay_versions_log [OF this, of empty_replay] show ?thesis
    by (simp add: table_snapshot_def read_delta_snapshot_def replayed_def active_paths_def Let_def last_map hd_map)
qed

lemma replayed_append: "replayed (es @ [(v, c)]) = foldl replay_action (replayed es) c"
  by (simp add: replayed_def replay_commit_def)

lemma replay_order:
  assumes "dom (rp_active s) \<subseteq> set (rp_order s)" "set (rp_order s) \<subseteq> A" "\<And>p b. AddFile p b \<in> set c \<Longrightarrow> p \<in> A"
  shows "dom (rp_active (foldl replay_action s c)) \<subseteq> set (rp_order (foldl replay_action s c)) \<and>
    set (rp_order (foldl replay_action s c)) \<subseteq> A"
  using assms
proof (induction c arbitrary: s)
  case (Cons a c)
  have "dom (rp_active (replay_action s a)) \<subseteq> set (rp_order (replay_action s a)) \<and> set (rp_order (replay_action s a)) \<subseteq> A"
  proof (cases a)
    case (AddFile p b)
    then have "p \<in> A" using Cons.prems(3) [of p b] by simp
    then show ?thesis using Cons.prems(1,2) AddFile by (cases "rp_active s p") auto
  qed (use Cons.prems(1,2) in auto)
  moreover have "p \<in> A" if "AddFile p b \<in> set c" for p b using that Cons.prems(3) [of p b] by simp
  ultimately have "dom (rp_active (foldl replay_action (replay_action s a) c)) \<subseteq> set (rp_order (foldl replay_action (replay_action s a) c)) \<and>
    set (rp_order (foldl replay_action (replay_action s a) c)) \<subseteq> A"
    by (intro Cons.IH) blast+
  then show ?case by simp
qed simp

lemma replayed_order:
  "dom (rp_active (replayed es)) \<subseteq> set (rp_order (replayed es)) \<and> set (rp_order (replayed es)) \<subseteq> log_paths es"
proof (induction es rule: rev_induct)
  case (snoc e es)
  obtain v c where e: "e = (v, c)" by (cases e)
  have "log_paths es \<subseteq> log_paths (es @ [e])" by (auto simp: log_paths_def)
  then have "set (rp_order (replayed es)) \<subseteq> log_paths (es @ [e])" using snoc by blast
  moreover have "p \<in> log_paths (es @ [e])" if "AddFile p b \<in> set c" for p b
    using that e by (auto simp: log_paths_def)
  ultimately show ?case
    using snoc replay_order [of "replayed es" "log_paths (es @ [e])" c] unfolding e replayed_append by blast
qed (simp add: replayed_def empty_replay_def)

lemma replay_removes:
  "foldl replay_action s (remove_actions ps) = s\<lparr>rp_active := rp_active s |` (- set ps)\<rparr>"
proof (induction ps arbitrary: s)
  case (Cons p ps)
  have "(rp_active s)(p := None) |` (- set ps) = rp_active s |` (- set (p # ps))"
    by (auto simp: restrict_map_def)
  then show ?case using Cons [of "replay_action s (RemoveFile p)"] by (simp add: remove_actions_def del: fun_upd_apply restrict_fun_upd)
qed (simp add: remove_actions_def restrict_map_def)

lemma some_false [simp]: "\<exists>b. \<not> b"
  by (rule exI [of _ False]) simp

text \<open>A rewrite leaves exactly the files it adds, an append adds its file at the end.\<close>

lemma rewrite_replayed:
  fixes v :: int
  assumes "set adds \<inter> log_paths es = {}" "adds = [] \<or> adds = [p]"
  defines "r \<equiv> replayed (es @ [(v, build_rewrite_commit (active_paths (replayed es)) adds)])"
  shows "active_paths r = adds" "rp_metadata r = rp_metadata (replayed es)"
proof -
  let ?s = "replayed es"
  have "rp_active ?s |` (- set (active_paths ?s)) = Map.empty"
    using replayed_order [of es] by (force simp: active_paths_def restrict_map_def)
  then have r: "r = foldl replay_action (?s\<lparr>rp_active := Map.empty\<rparr>) (add_actions adds @ [OtherAction])"
    by (simp add: r_def replayed_append build_rewrite_commit_def replay_removes)
  have "p \<notin> set (rp_order ?s)" if "adds = [p]" using that assms(1) replayed_order [of es] by auto
  then show "active_paths r = adds" "rp_metadata r = rp_metadata ?s"
    unfolding r using assms(2) by (auto simp: active_paths_def add_actions_def ex_bool_eq all_bool_eq intro: filter_False)
qed

lemma append_replayed:
  fixes v :: int
  assumes "p \<notin> log_paths es"
  defines "r \<equiv> replayed (es @ [(v, build_append_commit [p])])"
  shows "active_paths r = active_paths (replayed es) @ [p]" "rp_metadata r = rp_metadata (replayed es)"
proof -
  have "p \<notin> set (rp_order (replayed es))" using assms(1) replayed_order [of es] by blast
  moreover from this have "rp_active (replayed es) p = None" using replayed_order [of es] by blast
  ultimately show "active_paths r = active_paths (replayed es) @ [p]" "rp_metadata r = rp_metadata (replayed es)"
    by (auto simp: r_def replayed_append build_append_commit_def add_actions_def active_paths_def intro!: filter_cong)
qed

lemma initial_replayed:
  "active_paths (replayed [(v, build_initial_commit cols [p] t)]) = [p]"
  "rp_metadata (replayed [(v, build_initial_commit cols [p] t)]) = Some (new_delta_metadata cols t)"
  by (simp_all add: replayed_def replay_commit_def build_initial_commit_def add_actions_def active_paths_def empty_replay_def)

text \<open>A file that is added again after it was removed, as restoring a table does, is active twice: its
  place in the order of files is kept when it is removed.\<close>

lemma readded_file_is_active_twice:
  "active_paths (replayed [(0, [AddFile ''f'' False]), (1, [RemoveFile ''f'']), (2, [AddFile ''f'' False])]) = [''f'', ''f'']"
  by (simp add: active_paths_def replayed_def replay_commit_def empty_replay_def)

subsection \<open>Operations among other writers\<close>

definition stored_batches :: "'f io_lib \<Rightarrow> 'f table_store \<Rightarrow> (io_error, record_batch list) result" where
  "stored_batches lib t =
     (case table_snapshot t of Inr (Some s) \<Rightarrow> read_files lib (ts_files t) (sn_active_files s) | _ \<Rightarrow> Inr [])"

definition stored_metadata :: "'f table_store \<Rightarrow> delta_metadata option" where
  "stored_metadata t = (case table_snapshot t of Inr (Some s) \<Rightarrow> sn_metadata s | _ \<Rightarrow> None)"

text \<open>The rows of a list of batches, in one file.\<close>

definition one_file :: "record_batch list \<Rightarrow> record_batch list" where
  "one_file bs = (if all_rows bs = [] then [] else [\<lparr>rb_fields = rb_fields (hd bs), rb_rows = all_rows bs\<rparr>])"

definition committed :: "string \<Rightarrow> commit \<Rightarrow> 'f store \<Rightarrow> 'f store" where
  "committed dir c s = s(dir := (s dir)\<lparr>ts_log := ts_log (s dir) @ [(next_version (ts_log (s dir)), c)]\<rparr>)"

lemma tick_good:
  assumes "good env w" "next_tick env w = (f, w1)"
  shows "good env w1" "by_others env (w_store w) (w_store w1)" "w_store w1 = ev_others env (w_clock w) (w_store w)"
    "w_clock w1 = Suc (w_clock w)"
    "data_file (ev_uuid env (w_clock w)) \<notin> log_paths (ts_log (w_store w1 dir))"
    "ts_files (w_store w1 dir) (data_file (ev_uuid env (w_clock w))) = None"
proof -
  have f: "fair env" "fresh env (w_clock w) (w_store w)" using assms(1) by (simp_all add: good_def)
  have w1: "w_store w1 = ev_others env (w_clock w) (w_store w)" "w_clock w1 = Suc (w_clock w)"
    using assms(2) by (auto simp: next_tick_def)
  have new: "data_file (ev_uuid env k) \<notin> log_paths (ts_log (w_store w1 d)) \<and> ts_files (w_store w1 d) (data_file (ev_uuid env k)) = None"
    if "k \<ge> w_clock w" for k d
    using f that unfolding fair_def fresh_def w1(1) Let_def by blast
  show "w_store w1 = ev_others env (w_clock w) (w_store w)" "w_clock w1 = Suc (w_clock w)" by (rule w1)+
  show b: "by_others env (w_store w) (w_store w1)" unfolding w1 by (intro by_others.intros)
  show "data_file (ev_uuid env (w_clock w)) \<notin> log_paths (ts_log (w_store w1 dir))"
    "ts_files (w_store w1 dir) (data_file (ev_uuid env (w_clock w))) = None"
    using new by simp_all
  have "log_ok (ts_log (w_store w1 d))" for d
    using grown_by_others [OF f(1) b] assms(1) log_ok_extends by (auto simp: good_def grown_def)
  moreover have "fresh env (w_clock w1) (w_store w1)"
    using new w1(2) by (auto simp: fresh_def domIff)
  ultimately show "good env w1" using f(1) by (simp add: good_def)
qed

lemma unmentioned_by_others:
  assumes "fair env" "by_others env s t" "data_file (ev_uuid env k) \<notin> log_paths (ts_log (s dir))"
  shows "data_file (ev_uuid env k) \<notin> log_paths (ts_log (t dir))"
  using assms(2,3) by (induction rule: by_others.induct) (use assms(1) in \<open>auto simp: fair_def Let_def\<close>)

lemma data_file_inject: "fair env \<Longrightarrow> data_file (ev_uuid env j) = data_file (ev_uuid env k) \<longleftrightarrow> j = k"
  by (auto simp: fair_def data_file_def inj_eq)

lemma upload_good:
  assumes "good env w" "upload env dir (data_file (ev_uuid env (w_clock w))) d w = (w1, r)"
  shows "good env w1" "by_others env (w_store w) (w_store w1)"
    "r = Inr () \<longrightarrow> ts_files (w_store w1 dir) (data_file (ev_uuid env (w_clock w))) = Some d"
    "data_file (ev_uuid env (w_clock w)) \<notin> log_paths (ts_log (w_store w1 dir))"
proof -
  let ?p = "data_file (ev_uuid env (w_clock w))"
  obtain f w0 where t: "next_tick env w = (f, w0)" by (cases "next_tick env w")
  note g = tick_good [OF assms(1) t]
  let ?s = "(w_store w0)(dir := (w_store w0 dir)\<lparr>ts_files := (ts_files (w_store w0 dir))(?p \<mapsto> d)\<rparr>)"
  let ?w = "w0\<lparr>w_store := ?s\<rparr>"
  have b: "by_others env (w_store w) (w_store ?w)" using by_others.new_file [OF g(2) g(6)] by simp
  have good: "good env ?w"
    using g(1,4) by (auto simp: good_def fresh_def data_file_inject)
  consider "f = FailsBefore" "w1 = w0" "r = Inl StorageFailed" | "w1 = ?w"
    using assms(2) t by (auto simp: upload_def set_table_def Let_def split: fault.splits)
  then show "good env w1" "by_others env (w_store w) (w_store w1)" "r = Inr () \<longrightarrow> ts_files (w_store w1 dir) ?p = Some d"
    "?p \<notin> log_paths (ts_log (w_store w1 dir))"
    using g b good by (cases; simp)+
qed

lemma publish_outcome:
  assumes "good env w" "publish_attempt env dir v c w = (w', a)"
  defines "s \<equiv> ev_others env (w_clock w) (w_store w)"
  obtains (conflict) "a = Again" "good env w'" "w_store w' = s" "v \<in> fst ` set (ts_log (s dir))"
  | (lost) "a = Done (Inl StorageFailed)" "by_others env (w_store w) (w_store w')"
  | (landed) r where "a = Done r" "v \<notin> fst ` set (ts_log (s dir))"
      "w_store w' = s(dir := (s dir)\<lparr>ts_log := insort_key fst (v, c) (ts_log (s dir))\<rparr>)"
proof -
  obtain f w0 where t: "next_tick env w = (f, w0)" by (cases "next_tick env w")
  note g = tick_good [OF assms(1) t]
  show ?thesis
    using assms(2) t g(1-3) conflict lost landed
    by (auto simp: publish_attempt_def publish_def set_table_def s_def Let_def split: if_splits)
qed

subsection \<open>Examples\<close>

text \<open>A library whose files are the batches themselves, a rival that commits once, at the fourth tick,
  and a world with a staging table \<open>S\<close> and a target \<open>T\<close>.\<close>

definition plain_io :: "record_batch list io_lib" where
  "plain_io =
     \<lparr>io_cast = (\<lambda>_ _ _. None),
      io_write = (\<lambda>fs bs. Some (if all_rows bs = [] then [] else [\<lparr>rb_fields = fs, rb_rows = all_rows bs\<rparr>])),
      io_read = Some, io_etag = (\<lambda>v _. itoa v)\<rparr>"

definition rival :: "'f environment" where
  "rival =
     \<lparr>ev_others = (\<lambda>n s. if n = 3 then committed ''T'' [OtherAction] s else s), ev_fault = (\<lambda>_. Works),
      ev_uuid = (\<lambda>n. replicate n (CHR ''x''))\<rparr>"

definition one_table :: "field list \<Rightarrow> cell list list \<Rightarrow> string \<Rightarrow> record_batch list table_store" where
  "one_table fs rows path =
     \<lparr>ts_log = [(0, build_initial_commit (map arrow_field_to_column fs) [path] ''id'')],
      ts_files = [path \<mapsto> [\<lparr>rb_fields = fs, rb_rows = rows\<rparr>]]\<rparr>"

definition key_value :: "field list" where
  "key_value = [\<lparr>fl_name = ''id'', fl_type = AInt64, fl_nullable = True\<rparr>,
     \<lparr>fl_name = ''v'', fl_type = AString, fl_nullable = True\<rparr>]"

definition two_tables :: "record_batch list lake" where
  "two_tables =
     \<lparr>w_store = (\<lambda>dir. if dir = ''T'' then one_table key_value [[CInt 1, CText ''a''], [CInt 2, CText ''b'']] ''t''
        else if dir = ''S'' then one_table key_value [[CInt 2, CText ''c'']] ''s'' else empty_table),
      w_clock = 0, w_cache = Map.empty\<rparr>"

definition plain_arrow :: arrow_lib where
  "plain_arrow =
     \<lparr>al_dec128_float = (\<lambda>_ _. NaN), al_dec256_text = (\<lambda>_ _. []), al_float32_text = (\<lambda>_. []), al_float64_text = (\<lambda>_. [])\<rparr>"

lemma plain_io_parquet: "parquet_ok plain_io"
  by (simp add: parquet_ok_def plain_io_def)

lemma rival_fair: "fair rival"
proof -
  have "extends_log es (es @ [(next_version es, c)])" for es c
    unfolding extends_log_def by (intro exI [of _ "[(next_version es, c)]"]) simp
  then show ?thesis
    by (auto simp: fair_def rival_def inj_def grown_def extends_log_refl committed_def log_paths_def Let_def
        dest: arg_cong [of _ _ length])
qed

lemma two_tables_good: "good rival two_tables"
  using rival_fair
  by (simp add: good_def two_tables_def one_table_def empty_table_def log_ok_def fresh_def log_paths_def data_file_def
      build_initial_commit_def add_actions_def)

end
