(* ===== verification/Onelake_Shape.thy ===== *)
theory Onelake_Shape
  imports Onelake_Serial
begin

text \<open>
  The shape of the batches of a rewrite: whatever files and schemas the two tables have, the batches
  that a load is given and those it makes have one list of fields and one cell per field in each row.
\<close>

definition shaped :: "field list \<Rightarrow> record_batch list \<Rightarrow> bool" where
  "shaped fs bs \<longleftrightarrow> (\<forall>b\<in>set bs. rb_fields b = fs \<and> (\<forall>r\<in>set (rb_rows b). length r = length fs))"

lemma shaped_simps [simp]:
  "shaped fs []" "shaped fs (b # bs) \<longleftrightarrow> rb_fields b = fs \<and> (\<forall>r\<in>set (rb_rows b). length r = length fs) \<and> shaped fs bs"
  "shaped fs (bs @ cs) \<longleftrightarrow> shaped fs bs \<and> shaped fs cs"
  by (auto simp: shaped_def)

lemma shaped_filter [simp]: "shaped fs [b] \<Longrightarrow> shaped fs (filter_batch P b)"
  by (auto simp: filter_batch_def Let_def)

lemma cast_columns_length: "cast_columns lib b fs = Inr cols \<Longrightarrow> length cols = length fs"
  by (induction fs arbitrary: cols) (auto split: sum.splits)

lemma cast_batches_shaped: "cast_batches lib target bs = Inr cs \<Longrightarrow> shaped target cs"
  by (induction bs arbitrary: cs) (auto simp: cast_record_def dest: cast_columns_length split: sum.splits)

lemma cast_batches_Nil [simp]: "cast_batches lib target bs = Inr [] \<longleftrightarrow> bs = []"
  by (cases bs) (auto split: sum.splits)

lemma table_content_shaped:
  assumes "table_content lib t = Inr (snap, bs)"
  shows "\<exists>fs. shaped fs bs"
proof -
  consider "bs = []" | target cs where "cast_batches lib target cs = Inr bs"
    using assms by (auto simp: table_content_def read_delta_data_def align_delta_batches_def split: sum.splits option.splits if_splits)
  then show ?thesis by cases (auto intro: cast_batches_shaped)
qed

lemma unify_shaped:
  assumes "shaped ts target" "shaped ss staging"
    and "unify_rewrite_batches lib target staging declared = Inr (t, s)"
  shows "\<exists>fs. shaped fs t \<and> shaped fs s"
proof (cases "staging = []")
  case True
  then show ?thesis using assms by (auto simp: unify_rewrite_batches_def)
next
  case False
  then obtain unified where u: "cast_both lib unified target staging = Inr (t, s)"
    "(if target = [] then rewrite_schema_from_delta declared (rb_fields (hd staging))
      else unified_rewrite_schema target staging declared) = Inr unified"
    using assms(3) by (auto simp: unify_rewrite_batches_def split: option.splits sum.splits)
  show ?thesis
  proof (cases unified)
    case None
    then have ts: "t = target" "s = staging" using u(1) by (simp_all add: cast_both_def)
    show ?thesis
    proof (cases "target = []")
      case True
      then show ?thesis using ts assms(2) by auto
    next
      case F: False
      have "rb_fields (hd target) = rb_fields (hd staging)"
        using u(2) F None by (auto simp: unified_rewrite_schema_def Let_def split: option.splits sum.splits if_splits)
      moreover have "rb_fields (hd target) = ts" "rb_fields (hd staging) = ss"
        using assms(1,2) F False by (cases target; cases staging; simp)+
      ultimately show ?thesis using ts assms(1,2) by auto
    qed
  next
    case (Some fs)
    then have "cast_batches lib fs target = Inr t" "cast_batches lib fs staging = Inr s"
      using u(1) by (auto simp: cast_both_def split: sum.splits)
    then show ?thesis using cast_batches_shaped by blast
  qed
qed

lemma merge_target_shaped:
  "merge_target al keys pks target = Inr out \<Longrightarrow> shaped fs target \<Longrightarrow> shaped fs out"
  by (induction target arbitrary: out) (auto split: sum.splits)

lemma delete_target_shaped:
  "delete_target al opts target = Inr out \<Longrightarrow> shaped fs target \<Longrightarrow> shaped fs out"
  by (induction target arbitrary: out) (auto split: sum.splits option.splits)

lemma close_scd2_rows_shaped:
  "close_scd2_rows b vt ic ts = Inr b' \<Longrightarrow> shaped fs [b] \<Longrightarrow> shaped fs [b']"
  by (auto simp: close_scd2_rows_def close_row_def split: arrow_type.splits)

lemma scd2_target_batch_shaped:
  assumes "scd2_target_batch al opts cols sd b = Inr (out, still)" "shaped fs [b]"
  shows "shaped fs out"
proof -
  have "shaped fs [c]" if "filter_batch P b = c # cs" for P c cs
    using shaped_filter [OF assms(2), of P] that by simp
  then show ?thesis
    using assms close_scd2_rows_shaped shaped_filter [OF assms(2)]
    by (auto simp: scd2_target_batch_def Let_def simp del: shaped_simps(2) split: sum.splits option.splits list.splits)
qed

lemma scd2_target_shaped:
  "scd2_target al opts cols sd target = Inr (out, still) \<Longrightarrow> shaped fs target \<Longrightarrow> shaped fs out"
proof (induction target arbitrary: out still)
  case (Cons b target)
  then obtain o1 s1 o2 s2 where "scd2_target_batch al opts cols sd b = Inr (o1, s1)"
    "scd2_target al opts cols sd target = Inr (o2, s2)" "out = o1 @ o2"
    by (auto split: sum.splits)
  then show ?case using scd2_target_batch_shaped [of al opts cols sd b o1 s1 fs] Cons by simp
qed simp

lemma staging_filtered_shaped: "shaped fs staging \<Longrightarrow> shaped fs (concat (map (\<lambda>b. filter_batch (P b) b) staging))"
  by (induction staging) auto

lemma run_load_shaped:
  assumes "run_load al load target staging = Inr out" "shaped fs target" "shaped fs staging"
  shows "shaped fs out"
proof (cases load)
  case (Merge pks)
  then show ?thesis
    using assms merge_target_shaped by (auto simp: merge_batches_def split: list.splits sum.splits)
next
  case (DeleteInsert opts)
  then show ?thesis
    using assms delete_target_shaped by (auto simp: delete_insert_batches_def split: sum.splits)
next
  case (Scd2 opts)
  then show ?thesis
    using assms scd2_target_shaped staging_filtered_shaped
    by (auto simp: scd2_batches_def Let_def simp del: shaped_simps(2) list.map concat.simps split: list.splits sum.splits)
qed

text \<open>C16: the batches that a load writes have the same fields and one cell for each field in each row,
  whatever the files of the two tables held and in whichever order their columns were; so the check
  for an incompatible batch before writing never fails.\<close>

theorem rewrite_well_shaped:
  assumes "table_content lib target = Inr content" "table_content lib staging = Inr (ssnap, sb)"
    and "transform al lib load sb content = Inr out"
  shows "(\<exists>fs. shaped fs out) \<and> write_batches_to_parquet lib out \<noteq> Inl IncompatibleBatch"
proof -
  obtain snap tb where c: "content = (snap, tb)" by (cases content)
  obtain ts ss where "shaped ts tb" "shaped ss sb"
    using assms(1,2) table_content_shaped unfolding c by blast
  moreover obtain t s where "unify_rewrite_batches lib tb sb (declared_delta_schema snap) = Inr (t, s)"
    "run_load al load t s = Inr out"
    using assms(3) by (auto simp: transform_def c split: sum.splits)
  ultimately obtain fs where "shaped fs out" using unify_shaped run_load_shaped by blast
  moreover from this have "list_all (\<lambda>b. rb_fields b = rb_fields (hd out)) out"
    by (cases out) (auto simp: shaped_def list_all_iff)
  ultimately show ?thesis
    by (auto simp: write_batches_to_parquet_def Let_def split: option.splits)
qed

lemma rewrite_well_shaped_witness:
  "let lib = plain_arrow;
       out = [\<lparr>rb_fields = key_value, rb_rows = [[CInt 1, CText ''a'']]\<rparr>, \<lparr>rb_fields = key_value, rb_rows = [[CInt 2, CText ''c'']]\<rparr>]
   in (\<exists>content sb. transform lib plain_io (Merge [''id'']) sb content = Inr out) \<and>
      (\<exists>fs. shaped fs out) \<and> write_batches_to_parquet plain_io out \<noteq> Inl IncompatibleBatch"
proof -
  let ?out = "[\<lparr>rb_fields = key_value, rb_rows = [[CInt 1, CText ''a'']]\<rparr>, \<lparr>rb_fields = key_value, rb_rows = [[CInt 2, CText ''c'']]\<rparr>]"
  let ?s = "one_table key_value [[CInt 2, CText ''c'']] ''s''"
  let ?t = "one_table key_value [[CInt 1, CText ''a''], [CInt 2, CText ''b'']] ''t''"
  have run: "(case (table_content plain_io ?t, table_content plain_io ?s) of
      (Inr c, Inr (_, sb)) \<Rightarrow> transform plain_arrow plain_io (Merge [''id'']) sb c | _ \<Rightarrow> Inl StorageFailed) = Inr ?out"
    by code_simp
  obtain c ss sb where c: "table_content plain_io ?t = Inr c" "table_content plain_io ?s = Inr (ss, sb)"
    "transform plain_arrow plain_io (Merge [''id'']) sb c = Inr ?out"
    using run by (cases "table_content plain_io ?t"; cases "table_content plain_io ?s") auto
  from rewrite_well_shaped [OF this] c(3) show ?thesis unfolding Let_def by blast
qed

end
