(* ===== verification/Reconcile.thy ===== *)
theory Reconcile
  imports Go_Time
begin

text \<open>
  \<^verbatim>\<open>fabric/reconcile\<close>: the entities that are reconciled (\<^verbatim>\<open>main.go\<close>), the comparison of the
  Bronze tables with Bullhorn by count and by key (\<^verbatim>\<open>diff.go\<close>), the paginated listing of
  Bullhorn's ids (\<^verbatim>\<open>bullhorn.go\<close>), and the pass over the entities. The SQL endpoint, Bullhorn
  and the ingestr process are parameters.
\<close>

subsection \<open>diff.go\<close>

record count_result =
  cr_table :: string
  cr_check_type :: string
  cr_run_at :: gotime
  cr_bronze_count :: int
  cr_bullhorn_count :: int
  cr_match :: bool

record key_result =
  kr_count_result :: count_result
  kr_missing_keys :: "string list"

definition diff_counts :: "string \<Rightarrow> gotime \<Rightarrow> int \<Rightarrow> int \<Rightarrow> count_result" where
  "diff_counts table now bronze_count bullhorn_count =
     \<lparr>cr_table = table, cr_check_type = ''count'', cr_run_at = now, cr_bronze_count = bronze_count,
      cr_bullhorn_count = bullhorn_count, cr_match = (bronze_count = bullhorn_count)\<rparr>"

definition diff_keys :: "string \<Rightarrow> gotime \<Rightarrow> string list \<Rightarrow> string list \<Rightarrow> key_result" where
  "diff_keys table now bronze_keys bullhorn_keys =
     (let bronze_set = set bronze_keys; missing = filter (\<lambda>k. k \<notin> bronze_set) bullhorn_keys
      in \<lparr>kr_count_result = \<lparr>cr_table = table, cr_check_type = ''keys'', cr_run_at = now,
             cr_bronze_count = int (length bronze_keys), cr_bullhorn_count = int (length bullhorn_keys),
             cr_match = (length missing = 0)\<rparr>,
          kr_missing_keys = missing\<rparr>)"

record deleted_record_row =
  dr_entity :: string
  dr_entity_id :: string
  dr_event_id :: string
  dr_event_type :: string
  dr_event_timestamp :: gotime

definition reconciliation_deleted_records :: "string \<Rightarrow> gotime \<Rightarrow> string list \<Rightarrow> deleted_record_row list" where
  "reconciliation_deleted_records entity now missing_keys =
     map (\<lambda>i. \<lparr>dr_entity = entity, dr_entity_id = i, dr_event_id = ''reconciliation-'' @ i,
        dr_event_type = ''reconciliation'', dr_event_timestamp = now\<rparr>) missing_keys"

lemma diff_keys_missing:
  "set (kr_missing_keys (diff_keys table now bronze bullhorn)) = set bullhorn - set bronze"
  by (auto simp: diff_keys_def Let_def)

lemma diff_keys_match:
  "cr_match (kr_count_result (diff_keys table now bronze bullhorn)) \<longleftrightarrow> set bullhorn \<subseteq> set bronze"
  by (auto simp: diff_keys_def Let_def filter_empty_conv)

lemma deleted_records_ids:
  "map dr_entity_id (reconciliation_deleted_records entity now ks) = ks"
  by (simp add: reconciliation_deleted_records_def comp_def)

lemma deleted_records_key_inj:
  "distinct ks \<Longrightarrow>
     distinct (map (\<lambda>r. (dr_entity r, dr_entity_id r, dr_event_id r)) (reconciliation_deleted_records entity now ks))"
  by (auto simp: reconciliation_deleted_records_def distinct_map inj_on_def)

subsection \<open>main.go: the entities\<close>

record reconciled_entity =
  re_table :: string
  re_entity :: string
  re_date_field :: string
  re_key_column :: string

definition default_entities :: "reconciled_entity list" where
  "default_entities = map (\<lambda>(t, e). \<lparr>re_table = t, re_entity = e, re_date_field = ''dateLastModified'',
      re_key_column = ''id''\<rparr>)
     [(''candidate'', ''Candidate''), (''client_corporation'', ''ClientCorporation''),
      (''client_contact'', ''ClientContact''), (''job_order'', ''JobOrder''), (''placement'', ''Placement''),
      (''job_submission'', ''JobSubmission''), (''corporate_user'', ''CorporateUser'')]"

record config_entity =
  ce_table :: string
  ce_entity :: string
  ce_endpoint :: string
  ce_primary_key :: "string list"
  ce_incremental_key :: string

datatype reconcile_error =
  ConfigUnreadable string | ConfigUnparsable string | BronzeError string | BullhornRequest string
  | BullhornStatus string int | BullhornDecode string | IngestrWrite string string

text \<open>\<open>read\<close> and \<open>yaml\<close> read the file and decode it.\<close>

definition load_reconciled_entities ::
  "(string \<Rightarrow> string option) \<Rightarrow> (string \<Rightarrow> config_entity list option) \<Rightarrow> string
     \<Rightarrow> (reconcile_error, reconciled_entity list) result" where
  "load_reconciled_entities read yaml path =
     (if path = [] then Inr default_entities
      else (case read path of
              None \<Rightarrow> Inl (ConfigUnreadable path)
            | Some data \<Rightarrow>
                (case yaml data of
                   None \<Rightarrow> Inl (ConfigUnparsable path)
                 | Some es \<Rightarrow>
                     (let out = map (\<lambda>e. \<lparr>re_table = ce_table e, re_entity = ce_entity e,
                                  re_date_field = ce_incremental_key e, re_key_column = hd (ce_primary_key e)\<rparr>)
                                (filter (\<lambda>e. (ce_endpoint e = ''search'' \<or> ce_endpoint e = ''query'') \<and>
                                   ce_primary_key e \<noteq> []) es)
                      in Inr (if out = [] then default_entities else out)))))"

definition normalize_mode :: "string \<Rightarrow> string option" where
  "normalize_mode mode =
     (if mode = ''count'' \<or> mode = ''counts'' then Some ''count''
      else if mode = ''key'' \<or> mode = ''keys'' then Some ''keys'' else None)"

lemma normalize_mode_idem: "normalize_mode mode = Some m \<Longrightarrow> normalize_mode m = Some m"
  by (auto simp: normalize_mode_def split: if_splits)

subsection \<open>bullhorn.go: the listing of ids\<close>

text \<open>One answer of the id query: the request failed, a status with a body that does not decode,
  or a status with the page of ids.\<close>

datatype page_reply = NoReply | UndecodablePage int | IdPage int "string list"

definition id_page_size :: nat where "id_page_size = 500"

text \<open>The loop over pages: it may go on for as long as pages are full, so it is given fuel.\<close>

fun list_ids_loop :: "nat \<Rightarrow> string \<Rightarrow> (nat \<Rightarrow> page_reply) \<Rightarrow> nat \<Rightarrow> string list
    \<Rightarrow> (reconcile_error, string list) result option" where
  "list_ids_loop 0 entity fetch start ids = None"
| "list_ids_loop (Suc fuel) entity fetch start ids =
     (case fetch start of
        NoReply \<Rightarrow> Some (Inl (BullhornRequest entity))
      | UndecodablePage status \<Rightarrow>
          Some (Inl (if status \<noteq> 200 then BullhornStatus entity status else BullhornDecode entity))
      | IdPage status page \<Rightarrow>
          (if status \<noteq> 200 then Some (Inl (BullhornStatus entity status))
           else if length page < id_page_size then Some (Inr (ids @ page))
           else list_ids_loop fuel entity fetch (start + id_page_size) (ids @ page)))"

definition list_ids :: "nat \<Rightarrow> string \<Rightarrow> (nat \<Rightarrow> page_reply) \<Rightarrow> (reconcile_error, string list) result option" where
  "list_ids fuel entity fetch = list_ids_loop fuel entity fetch 0 []"

text \<open>A server that holds a fixed list of ids and answers with the page that starts at an offset.\<close>

definition serve_ids :: "string list \<Rightarrow> nat \<Rightarrow> page_reply" where
  "serve_ids all start = IdPage 200 (take id_page_size (drop start all))"

lemma list_ids_loop_complete:
  assumes "start \<le> length all" "(length all - start) div id_page_size < fuel"
  shows "list_ids_loop fuel entity (serve_ids all) start ids = Some (Inr (ids @ drop start all))"
  using assms
proof (induction fuel arbitrary: start ids)
  case (Suc fuel)
  show ?case
  proof (cases "length all - start < id_page_size")
    case True
    then show ?thesis by (simp add: serve_ids_def)
  next
    case False
    have le: "start + id_page_size \<le> length all" using False Suc.prems(1) by linarith
    have "length all - start = length all - (start + id_page_size) + id_page_size" using le by simp
    then have "(length all - start) div id_page_size = Suc ((length all - (start + id_page_size)) div id_page_size)"
      by (metis div_add_self2 id_page_size_def numeral_eq_Suc Suc_neq_Zero Suc_eq_plus1)
    then have "(length all - (start + id_page_size)) div id_page_size < fuel" using Suc.prems(2) by linarith
    note IH = Suc.IH [OF le this, of "ids @ take id_page_size (drop start all)"]
    have "take id_page_size (drop start all) @ drop (start + id_page_size) all = drop start all"
      using append_take_drop_id [of id_page_size "drop start all"] by (simp add: add.commute)
    moreover have "length (take id_page_size (drop start all)) = id_page_size" using le by simp
    ultimately show ?thesis using IH by (simp add: serve_ids_def)
  qed
qed simp

subsection \<open>main.go: the pass\<close>

text \<open>\<open>TotalCount\<close> asks for the rows changed at or after an instant.\<close>

definition total_count_where :: "string \<Rightarrow> gotime \<Rightarrow> string" where
  "total_count_where date_field since = date_field @ '' >= '' @ itoa (unix_milli since)"

datatype count_reply = NoCountReply | UndecodableCount int | CountReply int int

definition total_count ::
  "(string \<Rightarrow> string \<Rightarrow> count_reply) \<Rightarrow> string \<Rightarrow> string \<Rightarrow> gotime \<Rightarrow> (reconcile_error, int) result" where
  "total_count query entity date_field since =
     (case query entity (total_count_where date_field since) of
        NoCountReply \<Rightarrow> Inl (BullhornRequest entity)
      | UndecodableCount status \<Rightarrow>
          Inl (if status \<noteq> 200 then BullhornStatus entity status else BullhornDecode entity)
      | CountReply status n \<Rightarrow>
          (if status \<noteq> 200 then Inl (BullhornStatus entity status) else Inr n))"

text \<open>One loop over the entities: a failed entity is noted and the loop goes on.\<close>

fun count_pass ::
  "(string \<Rightarrow> (reconcile_error, int) result) \<Rightarrow> (string \<Rightarrow> string \<Rightarrow> count_reply) \<Rightarrow> gotime
     \<Rightarrow> reconciled_entity list \<Rightarrow> count_result list \<times> bool" where
  "count_pass bronze query now [] = ([], False)"
| "count_pass bronze query now (e # es) =
     (case count_pass bronze query now es of (rows, failed) \<Rightarrow>
        (case bronze (re_table e) of
           Inl _ \<Rightarrow> (rows, True)
         | Inr bc \<Rightarrow>
             (case total_count query (re_entity e) (re_date_field e) (now - day_length) of
                Inl _ \<Rightarrow> (rows, True)
              | Inr hc \<Rightarrow> (diff_counts (re_table e) now bc hc # rows, failed))))"

fun key_pass ::
  "(string \<Rightarrow> string \<Rightarrow> (reconcile_error, string list) result)
     \<Rightarrow> (string \<Rightarrow> (reconcile_error, string list) result) \<Rightarrow> gotime
     \<Rightarrow> reconciled_entity list \<Rightarrow> count_result list \<times> deleted_record_row list \<times> bool" where
  "key_pass bronze ids now [] = ([], [], False)"
| "key_pass bronze ids now (e # es) =
     (case key_pass bronze ids now es of (rows, deleted, failed) \<Rightarrow>
        (case bronze (re_table e) (re_key_column e) of
           Inl _ \<Rightarrow> (rows, deleted, True)
         | Inr bk \<Rightarrow>
             (case ids (re_entity e) of
                Inl _ \<Rightarrow> (rows, deleted, True)
              | Inr hk \<Rightarrow>
                  (let r = diff_keys (re_table e) now bk hk
                   in (kr_count_result r # rows,
                       reconciliation_deleted_records (re_entity e) now (kr_missing_keys r) @ deleted, failed)))))"

text \<open>The arguments of the load that writes the rows, from the temporary file \<open>tmp\<close>.\<close>

definition write_args :: "string \<Rightarrow> string \<Rightarrow> string list \<Rightarrow> string \<Rightarrow> string list" where
  "write_args tmp dest_table primary_key onelake_uri =
     [''ingest'', ''--source-uri=jsonl://'' @ tmp, ''--source-table=data'', ''--dest-uri='' @ onelake_uri,
      ''--dest-table=bullhorn.'' @ dest_table, ''--incremental-strategy=merge'',
      ''--primary-key='' @ join '','' primary_key, ''--yes'']"

text \<open>The end of \<open>run\<close>: the loads of the two tables (\<open>load_log\<close>, \<open>load_deleted\<close> say whether
  they succeed) and the exit code.\<close>

definition finish_run ::
  "(string list \<Rightarrow> bool) \<Rightarrow> string \<Rightarrow> string \<Rightarrow> count_result list \<Rightarrow> deleted_record_row list \<Rightarrow> bool \<Rightarrow> int" where
  "finish_run load tmp onelake_uri log_rows deleted_rows failed =
     (let f1 = (if log_rows \<noteq> [] \<and>
                  \<not> load (write_args tmp ''reconciliation_log'' [''table'', ''check_type'', ''run_at''] onelake_uri)
                then True else failed);
          f2 = (if deleted_rows \<noteq> [] \<and>
                  \<not> load (write_args tmp ''deleted_records'' [''entity'', ''entity_id'', ''event_id''] onelake_uri)
                then True else f1)
      in if f2 then 1 else 0)"

lemma count_pass_failed:
  "\<not> snd (count_pass bronze query now es) \<Longrightarrow> map cr_table (fst (count_pass bronze query now es)) = map re_table es"
  by (induction es) (auto split: prod.splits sum.splits simp: diff_counts_def)

lemma deleted_records_keys:
  "set (map (\<lambda>r. (dr_entity r, dr_entity_id r)) (reconciliation_deleted_records entity now ks)) = {entity} \<times> set ks"
  by (auto simp: reconciliation_deleted_records_def)

lemma diff_keys_table [simp]: "cr_table (kr_count_result (diff_keys table now bronze bullhorn)) = table"
  by (simp add: diff_keys_def Let_def)

lemma key_pass_failed:
  assumes "key_pass bronze ids now es = (rows, deleted, False)"
  shows "map cr_table rows = map re_table es \<and>
    set (map (\<lambda>r. (dr_entity r, dr_entity_id r)) deleted) =
      (\<Union>e \<in> set es. {re_entity e} \<times>
         ((case ids (re_entity e) of Inr hk \<Rightarrow> set hk | Inl _ \<Rightarrow> {}) -
          (case bronze (re_table e) (re_key_column e) of Inr bk \<Rightarrow> set bk | Inl _ \<Rightarrow> {})))"
  using assms
proof (induction es arbitrary: rows deleted)
  case (Cons e es)
  obtain rows1 deleted1 f where p: "key_pass bronze ids now es = (rows1, deleted1, f)"
    by (cases "key_pass bronze ids now es") auto
  obtain bk where b: "bronze (re_table e) (re_key_column e) = Inr bk"
    using Cons.prems p by (auto split: sum.splits)
  obtain hk where h: "ids (re_entity e) = Inr hk" using Cons.prems p b by (auto split: sum.splits)
  have "\<not> f" and r: "rows = kr_count_result (diff_keys (re_table e) now bk hk) # rows1"
    and d: "deleted = reconciliation_deleted_records (re_entity e) now
      (kr_missing_keys (diff_keys (re_table e) now bk hk)) @ deleted1"
    using Cons.prems p b h by (simp_all add: Let_def)
  then have IH: "map cr_table rows1 = map re_table es \<and>
    set (map (\<lambda>r. (dr_entity r, dr_entity_id r)) deleted1) =
      (\<Union>e \<in> set es. {re_entity e} \<times>
         ((case ids (re_entity e) of Inr hk \<Rightarrow> set hk | Inl _ \<Rightarrow> {}) -
          (case bronze (re_table e) (re_key_column e) of Inr bk \<Rightarrow> set bk | Inl _ \<Rightarrow> {})))"
    using Cons.IH p by simp
  have "set (map (\<lambda>r. (dr_entity r, dr_entity_id r)) deleted) =
      {re_entity e} \<times> (set hk - set bk) \<union> set (map (\<lambda>r. (dr_entity r, dr_entity_id r)) deleted1)"
    unfolding d map_append set_append deleted_records_keys diff_keys_missing ..
  then show ?case using IH by (simp add: r b h)
qed simp


lemma key_pass_reads:
  assumes "key_pass bronze ids now es = (rows, deleted, False)" "e \<in> set es"
  shows "\<exists>bk hk. bronze (re_table e) (re_key_column e) = Inr bk \<and> ids (re_entity e) = Inr hk"
  using assms
proof (induction es arbitrary: rows deleted)
  case (Cons e' es)
  obtain rows1 deleted1 f where p: "key_pass bronze ids now es = (rows1, deleted1, f)"
    by (cases "key_pass bronze ids now es") auto
  obtain bk where b: "bronze (re_table e') (re_key_column e') = Inr bk"
    using Cons.prems(1) p by (auto split: sum.splits)
  obtain hk where h: "ids (re_entity e') = Inr hk" using Cons.prems(1) p b by (auto split: sum.splits)
  have "\<not> f" using Cons.prems(1) p b h by (simp add: Let_def)
  then show ?case using Cons.IH p Cons.prems(2) b h by auto
qed simp

subsection \<open>Properties\<close>

text \<open>The listing of Bullhorn's ids ends and is complete: against a server that holds a fixed list
  and answers pages of 500, it returns the whole list in order, with one request for each full page
  and one more, however many ids there are (none, or an exact multiple of a page).\<close>

theorem list_ids_complete:
  "list_ids (Suc (length all div id_page_size)) entity (serve_ids all) = Some (Inr all)"
  unfolding list_ids_def by (subst list_ids_loop_complete) simp_all

text \<open>C40: A key pass that reports no failure has looked at every entity, in order, and reports as deleted
  records exactly the pairs of an entity and an id that Bullhorn lists and the Bronze table lacks:
  a row deleted in Bullhorn and still in Bronze is not among them, which is the opposite of what
  its rows are called.\<close>

theorem key_pass_reports_missing:
  assumes "key_pass bronze ids now es = (rows, deleted, False)"
  shows "map cr_table rows = map re_table es \<and>
    (\<forall>r \<in> set deleted. dr_event_type r = ''reconciliation'' \<longrightarrow>
       (\<exists>e \<in> set es. dr_entity r = re_entity e \<and>
         (\<exists>bk hk. bronze (re_table e) (re_key_column e) = Inr bk \<and> ids (re_entity e) = Inr hk \<and>
            dr_entity_id r \<in> set hk - set bk))) \<and>
    (\<forall>e \<in> set es. \<forall>bk hk. bronze (re_table e) (re_key_column e) = Inr bk \<longrightarrow> ids (re_entity e) = Inr hk \<longrightarrow>
       (\<forall>i \<in> set hk - set bk. \<exists>r \<in> set deleted. dr_entity r = re_entity e \<and> dr_entity_id r = i))"
proof -
  let ?pairs = "\<Union>e \<in> set es. {re_entity e} \<times>
         ((case ids (re_entity e) of Inr hk \<Rightarrow> set hk | Inl _ \<Rightarrow> {}) -
          (case bronze (re_table e) (re_key_column e) of Inr bk \<Rightarrow> set bk | Inl _ \<Rightarrow> {}))"
  note k = key_pass_failed [OF assms]
  then have img: "(\<lambda>r. (dr_entity r, dr_entity_id r)) ` set deleted = ?pairs" by simp
  have ok: "\<exists>bk. bronze (re_table e) (re_key_column e) = Inr bk" if "e \<in> set es" for e
    using key_pass_reads [OF assms that] by blast
  have sound: "\<exists>e \<in> set es. dr_entity r = re_entity e \<and>
         (\<exists>bk hk. bronze (re_table e) (re_key_column e) = Inr bk \<and> ids (re_entity e) = Inr hk \<and>
            dr_entity_id r \<in> set hk - set bk)" if "r \<in> set deleted" for r
  proof -
    have "(dr_entity r, dr_entity_id r) \<in> ?pairs" using that unfolding img [symmetric] by blast
    then obtain e where e: "e \<in> set es" "dr_entity r = re_entity e"
      "dr_entity_id r \<in> (case ids (re_entity e) of Inr hk \<Rightarrow> set hk | Inl _ \<Rightarrow> {}) -
          (case bronze (re_table e) (re_key_column e) of Inr bk \<Rightarrow> set bk | Inl _ \<Rightarrow> {})" by blast
    then show ?thesis using key_pass_reads [OF assms e(1)] by auto
  qed
  have all: "\<exists>r \<in> set deleted. dr_entity r = re_entity e \<and> dr_entity_id r = i"
    if "e \<in> set es" "bronze (re_table e) (re_key_column e) = Inr bk" "ids (re_entity e) = Inr hk" "i \<in> set hk - set bk"
    for e bk hk i
  proof -
    have "(re_entity e, i) \<in> ?pairs" using that by force
    then show ?thesis unfolding img [symmetric] by auto
  qed
  show ?thesis
    by (intro conjI ballI allI impI) (use k in blast, erule sound, rule all)
qed

theorem key_pass_reports_missing_witness:
  "\<exists>rows deleted. key_pass (\<lambda>_ _. Inr [''1'', ''9'']) (\<lambda>_. Inr [''1'', ''2'']) 0
     [\<lparr>re_table = ''candidate'', re_entity = ''Candidate'', re_date_field = ''d'', re_key_column = ''id''\<rparr>] =
       (rows, deleted, False) \<and> map cr_table rows = [''candidate''] \<and> (\<exists>r \<in> set deleted. dr_entity_id r = ''2'')"
proof -
  let ?es = "[\<lparr>re_table = ''candidate'', re_entity = ''Candidate'', re_date_field = ''d'', re_key_column = ''id''\<rparr>]"
  let ?r = "key_pass (\<lambda>_ _. Inr [''1'', ''9'']) (\<lambda>_. Inr [''1'', ''2'']) 0 ?es"
  obtain rows deleted f where r0: "?r = (rows, deleted, f)" by (rule prod_cases3)
  have "\<not> snd (snd ?r)" by code_simp
  then have r: "?r = (rows, deleted, False)" unfolding r0 by simp
  note k = key_pass_reports_missing [OF r]
  have "map cr_table rows = [''candidate'']" using conjunct1 [OF k] by simp
  moreover have "\<exists>d \<in> set deleted. dr_entity_id d = ''2''"
    using bspec [OF conjunct2 [OF conjunct2 [OF k]], of "hd ?es"] by force
  ultimately show ?thesis using r by (intro exI conjI)
qed

end
