(* ===== verification/Table_Names.thy ===== *)
theory Table_Names
  imports Go_Strings
begin

text \<open>
  \<^verbatim>\<open>pkg/tablename\<close>: qualified table names. The scanner of \<open>splitRaw\<close> keeps quoted parts whole;
  \<open>Split\<close> also takes the quotes off. Bytes are characters here.
\<close>

subsection \<open>tablename.go: splitting\<close>

definition closer_of :: "char \<Rightarrow> char option" where
  "closer_of ch =
     (if ch = CHR ''['' then Some (CHR '']'') else if ch = CHR 0x22 then Some (CHR 0x22)
      else if ch = CHR 0x60 then Some (CHR 0x60) else None)"

text \<open>The loop of \<open>splitRaw\<close>: the current part, the closer when inside a quoted span, the rest.\<close>

fun split_loop :: "char \<Rightarrow> char option \<Rightarrow> string \<Rightarrow> string \<Rightarrow> string list" where
  "split_loop sep closer cur [] = [cur]"
| "split_loop sep (Some cl) cur (ch # s) =
     (if ch = cl
      then (case s of
              [] \<Rightarrow> split_loop sep None (cur @ [ch]) s
            | d # s' \<Rightarrow> (if d = cl then split_loop sep (Some cl) (cur @ [ch, d]) s'
                        else split_loop sep None (cur @ [ch]) s))
      else split_loop sep (Some cl) (cur @ [ch]) s)"
| "split_loop sep None cur (ch # s) =
     (if ch = sep then cur # split_loop sep None [] s
      else split_loop sep (closer_of ch) (cur @ [ch]) s)"

definition split_raw_sep :: "string \<Rightarrow> char \<Rightarrow> string list" where
  "split_raw_sep name sep = map trim_space (split_loop sep None [] (trim_space name))"

definition split_raw :: "string \<Rightarrow> string list" where
  "split_raw name = split_raw_sep name (CHR ''.'')"

text \<open>\<open>strings.ReplaceAll\<close> of a doubled character by the character.\<close>

fun undouble :: "char \<Rightarrow> string \<Rightarrow> string" where
  "undouble q (c # d # s) = (if c = q \<and> d = q then q # undouble q s else c # undouble q (d # s))"
| "undouble q s = s"

definition normalize_part :: "string \<Rightarrow> string" where
  "normalize_part part0 =
     (let part = trim_space part0
      in if 2 \<le> length part then
           (let f = hd part; l = last part; inner = butlast (tl part)
            in if f = CHR ''['' \<and> l = CHR '']'' then undouble (CHR '']'') inner
               else if f = CHR 0x22 \<and> l = CHR 0x22 then undouble (CHR 0x22) inner
               else if f = CHR 0x60 \<and> l = CHR 0x60 then undouble (CHR 0x60) inner
               else part)
         else part)"

definition split_name :: "string \<Rightarrow> string list" where
  "split_name name = map normalize_part (split_raw name)"

definition split_list :: "string \<Rightarrow> string list" where
  "split_list ls =
     (if trim_space ls = [] then []
      else filter (\<lambda>part. part \<noteq> []) (split_raw_sep ls (CHR '','')))"

subsection \<open>tablename.go: capabilities\<close>

record table_name =
  tn_catalog :: string
  tn_schema :: string
  tn_table :: string

record name_defaults =
  nd_catalog :: string
  nd_schema :: string

record capability =
  cap_platform :: string
  cap_min_components :: nat
  cap_max_components :: nat
  cap_labels :: "string \<times> string \<times> string"
  cap_unbounded :: bool
  cap_format_desc :: string

datatype name_error = BadTableName string string string

definition format_err :: "capability \<Rightarrow> string \<Rightarrow> name_error" where
  "format_err c raw = BadTableName (cap_platform c) (cap_format_desc c) raw"

definition check_name :: "capability \<Rightarrow> string \<Rightarrow> name_error option" where
  "check_name c raw =
     (let parts = split_name raw; n = length parts
      in if \<exists>p \<in> set parts. trim_space p = [] then Some (format_err c raw)
         else if n < cap_min_components c \<or> (\<not> cap_unbounded c \<and> cap_max_components c < n)
         then Some (format_err c raw)
         else None)"

definition parse_name :: "capability \<Rightarrow> string \<Rightarrow> name_defaults \<Rightarrow> name_error + table_name" where
  "parse_name c raw d =
     (case check_name c raw of
        Some e \<Rightarrow> Inl e
      | None \<Rightarrow>
          (let parts = split_name raw; n = length parts
           in Inr \<lparr>tn_catalog = (if 3 \<le> n then join ''.'' (take (n - 2) parts) else nd_catalog d),
                   tn_schema = (if 2 \<le> n then parts ! (n - 2) else nd_schema d),
                   tn_table = parts ! (n - 1)\<rparr>))"

definition upper_name :: "table_name \<Rightarrow> table_name" where
  "upper_name t = \<lparr>tn_catalog = to_upper (tn_catalog t), tn_schema = to_upper (tn_schema t),
     tn_table = to_upper (tn_table t)\<rparr>"

definition qualified_schema :: "table_name \<Rightarrow> string" where
  "qualified_schema t = (if tn_catalog t \<noteq> [] then tn_catalog t @ ''.'' @ tn_schema t else tn_schema t)"

definition name_string :: "table_name \<Rightarrow> string" where
  "name_string t =
     join ''.'' ((if tn_catalog t \<noteq> [] then [tn_catalog t] else []) @
                 (if tn_schema t \<noteq> [] then [tn_schema t] else []) @ [tn_table t])"

definition schema_to_create :: "string \<Rightarrow> (string \<Rightarrow> string) option \<Rightarrow> string option" where
  "schema_to_create name transform0 =
     (let transform = (case transform0 of None \<Rightarrow> (\<lambda>s. s) | Some f \<Rightarrow> f); parts = split_name name
      in if \<exists>p \<in> set parts. trim_space p = [] then None
         else (case parts of
                 [a, b] \<Rightarrow> Some (transform a)
               | [a, b, c] \<Rightarrow> Some (transform a @ ''.'' @ transform b)
               | _ \<Rightarrow> None))"

definition container_to_create :: "string \<Rightarrow> (string \<Rightarrow> string) option \<Rightarrow> string option" where
  "container_to_create name transform0 =
     (let transform = (case transform0 of None \<Rightarrow> (\<lambda>s. s) | Some f \<Rightarrow> f); parts = split_name name
      in if length parts \<noteq> 3 then None
         else if \<exists>p \<in> set parts. trim_space p = [] then None
         else Some (transform (parts ! 0)))"

subsection \<open>capabilities.go\<close>

definition two_level :: "string \<Rightarrow> capability" where
  "two_level platform = \<lparr>cap_platform = platform, cap_min_components = 1, cap_max_components = 2,
     cap_labels = ([], ''schema'', ''table''), cap_unbounded = False, cap_format_desc = ''schema.table''\<rparr>"

definition three_level :: "string \<Rightarrow> nat \<Rightarrow> string \<times> string \<times> string \<Rightarrow> string \<Rightarrow> bool \<Rightarrow> capability" where
  "three_level platform mn labels desc unbounded = \<lparr>cap_platform = platform, cap_min_components = mn,
     cap_max_components = 3, cap_labels = labels, cap_unbounded = unbounded, cap_format_desc = desc\<rparr>"

definition platform_capabilities :: "capability list" where
  "platform_capabilities =
     [three_level ''snowflake'' 1 (''database'', ''schema'', ''table'') ''database.schema.table'' False,
      three_level ''bigquery'' 2 (''project'', ''dataset'', ''table'') ''project.dataset.table'' False,
      three_level ''databricks'' 2 (''catalog'', ''schema'', ''table'') ''catalog.schema.table'' False,
      three_level ''trino'' 1 (''catalog'', ''schema'', ''table'') ''catalog.schema.table'' False,
      three_level ''starrocks'' 1 (''catalog'', ''database'', ''table'') ''catalog.database.table'' False,
      three_level ''duckdb'' 1 (''catalog'', ''schema'', ''table'') ''catalog.schema.table'' False,
      three_level ''mssql'' 1 (''database'', ''schema'', ''table'') ''database.schema.table'' True,
      three_level ''couchbase'' 2 (''bucket'', ''scope'', ''collection'') ''bucket.scope.collection'' False,
      three_level ''maxcompute'' 1 (''project'', ''schema'', ''table'') ''project.schema.table'' False]"

subsection \<open>Quoted identifiers survive\<close>

text \<open>An identifier in quotes, its closing quotes doubled, for each of the three quotings.\<close>

datatype quoting = Brackets | DoubleQuotes | Backticks

fun opener :: "quoting \<Rightarrow> char" where
  "opener Brackets = CHR ''[''" | "opener DoubleQuotes = CHR 0x22" | "opener Backticks = CHR 0x60"

fun closer :: "quoting \<Rightarrow> char" where
  "closer Brackets = CHR '']''" | "closer DoubleQuotes = CHR 0x22" | "closer Backticks = CHR 0x60"

definition double_char :: "char \<Rightarrow> string \<Rightarrow> string" where
  "double_char q s = concat (map (\<lambda>c. if c = q then [c, c] else [c]) s)"

definition quote_part :: "quoting \<Rightarrow> string \<Rightarrow> string" where
  "quote_part k s = opener k # double_char (closer k) s @ [closer k]"

lemma double_char_simps [simp]:
  "double_char q [] = []" "double_char q (c # s) = (if c = q then c # c # double_char q s else c # double_char q s)"
  by (simp_all add: double_char_def)

lemma undouble_double [simp]: "undouble q (double_char q s) = s"
proof (induction s)
  case (Cons c s)
  show ?case
  proof (cases "c = q")
    case False
    then show ?thesis using Cons by (cases "double_char q s") auto
  qed (use Cons in simp)
qed simp

lemma closer_of_opener: "closer_of (opener k) = Some (closer k)"
  by (cases k) (simp_all add: closer_of_def)

lemma quote_not_space [simp]: "\<not> is_space (opener k)" "\<not> is_space (closer k)"
  by (cases k; simp add: is_space_def)+

lemma split_loop_quoted:
  assumes "rest = [] \<or> hd rest \<noteq> cl"
  shows "split_loop sep (Some cl) cur (double_char cl s @ cl # rest) =
    split_loop sep None (cur @ double_char cl s @ [cl]) rest"
proof (induction s arbitrary: cur)
  case Nil
  then show ?case using assms by (cases rest) simp_all
next
  case (Cons c s)
  then show ?case by simp
qed

lemma split_loop_quote_part:
  assumes "opener k \<noteq> sep" "rest = [] \<or> hd rest \<noteq> closer k"
  shows "split_loop sep None cur (quote_part k s @ rest) = split_loop sep None (cur @ quote_part k s) rest"
  using assms split_loop_quoted [of rest "closer k" sep "cur @ [opener k]" s]
  by (simp add: quote_part_def closer_of_opener)

lemma split_loop_quoted_parts:
  assumes "opener k \<noteq> sep" "closer k \<noteq> sep" "ps \<noteq> []"
  shows "split_loop sep None [] (join [sep] (map (quote_part k) ps)) = map (quote_part k) ps"
  using assms(3)
proof (induction ps)
  case (Cons p ps)
  show ?case
  proof (cases "ps = []")
    case True
    then show ?thesis using split_loop_quote_part [OF assms(1), of "[]" "[]" p] by simp
  next
    case False
    then have "join [sep] (map (quote_part k) (p # ps)) =
        quote_part k p @ sep # join [sep] (map (quote_part k) ps)" by (simp add: join_Cons)
    moreover have "split_loop sep None [] (quote_part k p @ sep # join [sep] (map (quote_part k) ps)) =
        split_loop sep None (quote_part k p) (sep # join [sep] (map (quote_part k) ps))"
      using split_loop_quote_part [OF assms(1), of "sep # join [sep] (map (quote_part k) ps)" "[]" p] assms(2) by simp
    ultimately show ?thesis using Cons.IH False by simp
  qed
qed simp

lemma quote_part_ends:
  "quote_part k p \<noteq> []" "hd (quote_part k p) = opener k" "last (quote_part k p) = closer k"
  by (simp_all add: quote_part_def)

lemma trim_quote_part [simp]: "trim_space (quote_part k p) = quote_part k p"
  by (rule trim_space_id) (simp add: quote_part_ends)

lemma join_quoted_ends:
  assumes "ps \<noteq> []"
  shows "join [sep] (map (quote_part k) ps) \<noteq> [] \<and> hd (join [sep] (map (quote_part k) ps)) = opener k \<and>
    last (join [sep] (map (quote_part k) ps)) = closer k"
  using assms
proof (induction ps)
  case (Cons p ps)
  then show ?case by (cases "ps = []") (simp_all add: join_Cons quote_part_ends)
qed simp

lemma normalize_quote_part [simp]: "normalize_part (quote_part k p) = p"
proof -
  have "butlast (tl (quote_part k p)) = double_char (closer k) p" by (simp add: quote_part_def)
  moreover have "2 \<le> length (quote_part k p)" by (simp add: quote_part_def)
  ultimately show ?thesis
    by (cases k) (simp_all add: normalize_part_def quote_part_ends Let_def)
qed

lemma split_name_quoted:
  assumes "ps \<noteq> []"
  shows "split_name (join ''.'' (map (quote_part k) ps)) = ps"
proof -
  have "opener k \<noteq> CHR ''.''" "closer k \<noteq> CHR ''.''" by (cases k; simp)+
  then show ?thesis
    using split_loop_quoted_parts [of k "CHR ''.''" ps] join_quoted_ends [OF assms, of "CHR ''.''" k] assms
    by (simp add: split_name_def split_raw_def split_raw_sep_def trim_space_id comp_def)
qed

subsection \<open>Plain identifiers\<close>

definition plain_part :: "string \<Rightarrow> bool" where
  "plain_part s \<longleftrightarrow> s \<noteq> [] \<and>
     list_all (\<lambda>c. \<not> is_space c \<and> c \<noteq> CHR ''.'' \<and> closer_of c = None) s"

lemma split_loop_plain:
  assumes "list_all (\<lambda>c. \<not> is_space c \<and> c \<noteq> CHR ''.'' \<and> closer_of c = None) p"
  shows "split_loop (CHR ''.'') None cur (p @ rest) = split_loop (CHR ''.'') None (cur @ p) rest"
  using assms by (induction p arbitrary: cur) simp_all

lemma plain_no_space: "plain_part p \<Longrightarrow> trim_space p = p"
  by (rule trim_space_no_space) (simp add: plain_part_def list_all_iff)

lemma normalize_plain: "plain_part p \<Longrightarrow> normalize_part p = p"
proof -
  assume p: "plain_part p"
  then have "p \<noteq> []" and "closer_of (hd p) = None" by (cases p; simp add: plain_part_def)+
  then have "hd p \<noteq> CHR ''[''" "hd p \<noteq> CHR 0x22" "hd p \<noteq> CHR 0x60"
    by (auto simp: closer_of_def split: if_splits)
  then show ?thesis by (simp add: normalize_part_def plain_no_space [OF p] Let_def)
qed

lemma split_loop_plain_parts:
  assumes "ps \<noteq> []" "\<forall>p \<in> set ps. plain_part p"
  shows "split_loop (CHR ''.'') None [] (join ''.'' ps) = ps"
  using assms
proof (induction ps)
  case (Cons p ps)
  have "split_loop (CHR ''.'') None [] (p @ rest) = split_loop (CHR ''.'') None p rest" for rest
    using split_loop_plain [of p "[]" rest] Cons.prems(2) by (simp add: plain_part_def)
  then show ?case using Cons by (cases "ps = []") (simp_all add: join_Cons, metis append.right_neutral split_loop.simps(1))
qed simp

lemma split_name_plain:
  assumes "ps \<noteq> []" "\<forall>p \<in> set ps. plain_part p"
  shows "split_name (join ''.'' ps) = ps"
proof -
  have "\<forall>c \<in> set (join ''.'' ps). \<not> is_space c"
    using assms(2)
  proof (induction ps)
    case (Cons p ps)
    then show ?case
      by (cases "ps = []") (auto simp: join_Cons plain_part_def list_all_iff is_space_def)
  qed simp
  then have "trim_space (join ''.'' ps) = join ''.'' ps" by (rule trim_space_no_space)
  moreover have "map normalize_part (map trim_space ps) = ps"
    using assms(2) by (simp add: map_idI plain_no_space normalize_plain)
  ultimately show ?thesis
    using split_loop_plain_parts [OF assms] by (simp add: split_name_def split_raw_def split_raw_sep_def)
qed

lemma name_string_parse:
  assumes "plain_part (tn_table t)" "tn_schema t \<noteq> [] \<longrightarrow> plain_part (tn_schema t)"
    "tn_catalog t \<noteq> [] \<longrightarrow> plain_part (tn_catalog t) \<and> tn_schema t \<noteq> []"
    and "check_name c (name_string t) = None"
  shows "parse_name c (name_string t) \<lparr>nd_catalog = [], nd_schema = []\<rparr> = Inr t"
proof -
  define ps where "ps = (if tn_catalog t \<noteq> [] then [tn_catalog t] else []) @
    (if tn_schema t \<noteq> [] then [tn_schema t] else []) @ [tn_table t]"
  have "split_name (name_string t) = ps"
    unfolding name_string_def ps_def [symmetric]
    by (rule split_name_plain) (use assms(1-3) in \<open>auto simp: ps_def\<close>)
  then show ?thesis
    using assms(3,4) by (cases t) (auto simp: parse_name_def ps_def Let_def)
qed

text \<open>Every part of a name that passes has text in it, and their number is in range.\<close>

lemma check_name_ok:
  "check_name c raw = None \<longleftrightarrow>
     (\<forall>p \<in> set (split_name raw). trim_space p \<noteq> []) \<and> cap_min_components c \<le> length (split_name raw) \<and>
     (cap_unbounded c \<or> length (split_name raw) \<le> cap_max_components c)"
  by (auto simp: check_name_def Let_def)


subsection \<open>Properties\<close>

text \<open>C39: A qualified name written with quotes is read back: whatever the identifiers contain (dots,
  white space, the quotes themselves, doubled), in brackets, double quotes or backticks,
  \<open>SplitTableName\<close> gives the identifiers, one by one.\<close>

theorem quoted_name_round_trip:
  assumes "ps \<noteq> []"
  shows "split_name (join ''.'' (map (quote_part k) ps)) = ps"
  using assms by (rule split_name_quoted)

theorem quoted_name_round_trip_witness: "split_name ''[a.b].[c]]d]'' = [''a.b'', ''c]d'']"
proof -
  have "join ''.'' (map (quote_part Brackets) [''a.b'', ''c]d'']) = ''[a.b].[c]]d]''" by code_simp
  then show ?thesis using quoted_name_round_trip [of "[''a.b'', ''c]d'']" Brackets] by simp
qed

text \<open>The printed form of a parsed table name parses to the same name, when its parts are plain and
  the platform accepts the number of parts; and a name is accepted exactly when every part has text
  and the number of parts is in the platform's range.\<close>

theorem table_name_round_trip:
  assumes "plain_part (tn_table t)" "tn_schema t \<noteq> [] \<longrightarrow> plain_part (tn_schema t)"
    "tn_catalog t \<noteq> [] \<longrightarrow> plain_part (tn_catalog t) \<and> tn_schema t \<noteq> []"
    and "cap_min_components c \<le> length (split_name (name_string t))"
    "cap_unbounded c \<or> length (split_name (name_string t)) \<le> cap_max_components c"
    "\<forall>p \<in> set (split_name (name_string t)). trim_space p \<noteq> []"
  shows "parse_name c (name_string t) \<lparr>nd_catalog = [], nd_schema = []\<rparr> = Inr t"
  using name_string_parse [OF assms(1-3)] check_name_ok [of c "name_string t"] assms(4-6) by blast

theorem table_name_round_trip_witness:
  "\<exists>c \<in> set platform_capabilities. parse_name c ''db.dbo.users'' \<lparr>nd_catalog = [], nd_schema = []\<rparr> =
     Inr \<lparr>tn_catalog = ''db'', tn_schema = ''dbo'', tn_table = ''users''\<rparr>"
proof -
  let ?t = "\<lparr>tn_catalog = ''db'', tn_schema = ''dbo'', tn_table = ''users''\<rparr>"
  let ?c = "three_level ''mssql'' 1 (''database'', ''schema'', ''table'') ''database.schema.table'' True"
  have n: "name_string ?t = ''db.dbo.users''" "split_name ''db.dbo.users'' = [''db'', ''dbo'', ''users'']" by code_simp+
  have "plain_part ''users'' \<and> plain_part ''dbo'' \<and> plain_part ''db''" by code_simp
  moreover have "cap_min_components ?c \<le> 3 \<and> 3 \<le> cap_max_components ?c" by code_simp
  moreover have "\<forall>p \<in> set [''db'', ''dbo'', ''users'']. trim_space p \<noteq> []" by code_simp
  ultimately have "parse_name ?c (name_string ?t) \<lparr>nd_catalog = [], nd_schema = []\<rparr> = Inr ?t"
    by (intro table_name_round_trip) (simp_all add: n)
  moreover have "?c \<in> set platform_capabilities" by (simp add: platform_capabilities_def)
  ultimately show ?thesis using n by metis
qed

end
