(* ===== verification/Strategy_Staging.thy ===== *)
theory Strategy_Staging
  imports Table_Names "HOL-Library.Word"
begin

unbundle bit_operations_syntax

text \<open>
  \<^verbatim>\<open>pkg/strategy/staging.go\<close>: the names of the staging tables that the load strategies write to. The
  name embeds the target's own name, the kind of load and the run, so that two loads at a time do
  not meet in one table; a long name is cut and carries a hash, which is SHA-1 of the standard
  library, written out here.
\<close>

subsection \<open>SHA-1 and hexadecimal\<close>

definition hex_digit :: "nat \<Rightarrow> char" where
  "hex_digit n = ''0123456789abcdef'' ! n"

definition hex_encode :: "string \<Rightarrow> string" where
  "hex_encode s = concat (map (\<lambda>c. let n = of_char c in [hex_digit (n div 16), hex_digit (n mod 16)]) s)"

text \<open>The bytes of a word, the most significant first, and the padded message as words.\<close>

definition word_bytes :: "32 word \<Rightarrow> string" where
  "word_bytes w = map (\<lambda>i. char_of (unat (drop_bit (8 * i) w AND 0xFF))) [3, 2, 1, 0]"

type_synonym sha1_state = "32 word \<times> 32 word \<times> 32 word \<times> 32 word \<times> 32 word"

definition sha1_pad :: "string \<Rightarrow> string" where
  "sha1_pad s =
     (let bits = 8 * of_nat (length s) :: 64 word
      in s @ CHR 0x80 # replicate ((119 - length s mod 64) mod 64) (CHR 0x00)
           @ word_bytes (ucast (drop_bit 32 bits)) @ word_bytes (ucast bits))"

fun words_of :: "string \<Rightarrow> 32 word list" where
  "words_of (a # b # c # d # s) =
     (((of_char a * 256 + of_char b) * 256 + of_char c) * 256 + of_char d) # words_of s"
| "words_of s = []"

fun sha1_extend :: "nat \<Rightarrow> 32 word list \<Rightarrow> 32 word list" where
  "sha1_extend 0 ws = ws"
| "sha1_extend (Suc n) ws =
     (let t = length ws
      in sha1_extend n (ws @ [word_rotl 1 (ws ! (t - 3) XOR ws ! (t - 8) XOR ws ! (t - 14) XOR ws ! (t - 16))]))"

definition sha1_round :: "nat \<Rightarrow> 32 word \<Rightarrow> sha1_state \<Rightarrow> sha1_state" where
  "sha1_round t w s =
     (case s of (a, b, c, d, e) \<Rightarrow>
        (let (f, k) =
           (if t < 20 then ((b AND c) OR (NOT b AND d), 0x5A827999)
            else if t < 40 then (b XOR c XOR d, 0x6ED9EBA1)
            else if t < 60 then ((b AND c) OR (b AND d) OR (c AND d), 0x8F1BBCDC)
            else (b XOR c XOR d, 0xCA62C1D6))
         in (word_rotl 5 a + f + e + k + w, a, word_rotl 30 b, c, d)))"

definition sha1_block :: "sha1_state \<Rightarrow> 32 word list \<Rightarrow> sha1_state" where
  "sha1_block s ws =
     (case (s, fold (\<lambda>(t, w). sha1_round t w) (enumerate 0 (sha1_extend 64 ws)) s) of
        ((a, b, c, d, e), (a', b', c', d', e')) \<Rightarrow> (a + a', b + b', c + c', d + d', e + e'))"

fun sha1_blocks :: "nat \<Rightarrow> sha1_state \<Rightarrow> 32 word list \<Rightarrow> sha1_state" where
  "sha1_blocks 0 s ws = s"
| "sha1_blocks (Suc n) s ws = sha1_blocks n (sha1_block s (take 16 ws)) (drop 16 ws)"

text \<open>\<open>sha1.Sum\<close>: the twenty bytes.\<close>

definition sha1 :: "string \<Rightarrow> string" where
  "sha1 m =
     (let ws = words_of (sha1_pad m)
      in case sha1_blocks (length ws div 16) (0x67452301, 0xEFCDAB89, 0x98BADCFE, 0x10325476, 0xC3D2E1F0) ws of
           (a, b, c, d, e) \<Rightarrow> concat (map word_bytes [a, b, c, d, e]))"

subsection \<open>Names\<close>

definition default_staging_schema :: string where "default_staging_schema = ''_bruin_staging''"
definition max_staging_table_name_len :: nat where "max_staging_table_name_len = 60"
definition encoded_staging_identifier_prefix :: string where "encoded_staging_identifier_prefix = ''_ingestr_hex_''"

text \<open>\<open>splitCatalogSchemaTable\<close>, \<open>splitCatalogSchemaTableRaw\<close>, \<open>catalogSchemaTable\<close>, \<open>qualifyCatalog\<close>.\<close>

definition catalog_schema_table :: "string list \<Rightarrow> string \<Rightarrow> string \<times> string \<times> string" where
  "catalog_schema_table parts fallback =
     (let n = length parts
      in if n = 0 then ([], [], fallback) else if n = 1 then ([], [], parts ! 0)
         else if n = 2 then ([], parts ! 0, parts ! 1)
         else (join ''.'' (take (n - 2) parts), parts ! (n - 2), parts ! (n - 1)))"

definition split_catalog_schema_table :: "string \<Rightarrow> string \<times> string \<times> string" where
  "split_catalog_schema_table table = catalog_schema_table (split_name table) table"

definition split_catalog_schema_table_raw :: "string \<Rightarrow> string \<times> string \<times> string" where
  "split_catalog_schema_table_raw table = catalog_schema_table (split_raw table) table"

definition qualify_catalog :: "string \<Rightarrow> string \<Rightarrow> string" where
  "qualify_catalog cat name = (if cat = [] then name else cat @ ''.'' @ name)"

text \<open>\<open>isUnambiguousLegacyStagingIdentifier\<close> and \<open>syntheticStagingIdentifier\<close>: the parts joined by two
  underscores, or their bytes in hexadecimal where that may be ambiguous.\<close>

definition identifier_char :: "char \<Rightarrow> bool" where
  "identifier_char c \<longleftrightarrow> is_lower c \<or> is_upper c \<or> is_digit c \<or> c = CHR ''_''"

definition unambiguous_legacy :: "string \<Rightarrow> string list \<Rightarrow> bool" where
  "unambiguous_legacy candidate parts \<longleftrightarrow>
     \<not> has_prefix candidate encoded_staging_identifier_prefix \<and>
     list_all (\<lambda>part. part \<noteq> [] \<and> \<not> contains part ''__'' \<and> list_all identifier_char part) parts"

definition synthetic_staging_identifier :: "string list \<Rightarrow> string" where
  "synthetic_staging_identifier parts =
     (let legacy = join ''__'' parts
      in if unambiguous_legacy legacy parts then legacy
         else encoded_staging_identifier_prefix @ join ''_'' (map hex_encode parts))"

text \<open>\<open>stagingUniqueToken\<close>; \<open>now\<close> is the clock in nanoseconds.\<close>

definition staging_unique_token :: "int \<Rightarrow> string \<Rightarrow> string" where
  "staging_unique_token now run_id =
     (let token = filter (\<lambda>c. c \<noteq> CHR ''-'') run_id in if token \<noteq> [] then token else itoa now)"

text \<open>\<open>buildStagingTableName\<close>; \<open>len\<close> is an \<open>int\<close> in the code, so what is kept of the name may be
  negative before it is raised to 1.\<close>

definition staging_tail :: "int \<Rightarrow> string \<Rightarrow> string \<Rightarrow> string" where
  "staging_tail now kind run_id = ''_'' @ kind @ ''_'' @ staging_unique_token now run_id"

definition shorten_embedded :: "string \<Rightarrow> string \<Rightarrow> string" where
  "shorten_embedded embedded tail =
     (if length embedded + length tail \<le> max_staging_table_name_len then embedded
      else
        (let short_hash = take 8 (hex_encode (sha1 embedded));
             keep = max 1 (int max_staging_table_name_len - int (length tail) - 1 - int (length short_hash))
         in take (nat (min keep (int (length embedded)))) embedded @ ''_'' @ short_hash))"

definition build_staging_table_name :: "int \<Rightarrow> string \<Rightarrow> string \<Rightarrow> string \<Rightarrow> string \<Rightarrow> string" where
  "build_staging_table_name now staging_schema embedded kind run_id =
     (let tail = staging_tail now kind run_id
      in staging_schema @ ''.'' @ shorten_embedded embedded tail @ tail)"

text \<open>\<open>GenerateStagingTableName\<close>.\<close>

definition generate_staging_table_name :: "int \<Rightarrow> string \<Rightarrow> string \<Rightarrow> string \<Rightarrow> string \<Rightarrow> string" where
  "generate_staging_table_name now target kind staging_dataset run_id =
     (case (split_catalog_schema_table target, split_catalog_schema_table_raw target) of
        ((cat, origin_schema, name), (catalog_ref, _, _)) \<Rightarrow>
          (let staging_schema = (if staging_dataset = [] then default_staging_schema else staging_dataset);
               embedded = synthetic_staging_identifier (if origin_schema \<noteq> [] then [origin_schema, name] else [name])
           in qualify_catalog (if catalog_ref \<noteq> [] then catalog_ref else cat)
                (build_staging_table_name now staging_schema embedded kind run_id)))"

text \<open>The policy of a destination: \<open>ReplaceStagingPolicy\<close> and its defaults. A placement that the code
  does not know is any other text.\<close>

record staging_policy =
  sp_placement :: string
  sp_managed_schema :: string
  sp_target_schema :: string

definition managed_schema_placement :: string where "managed_schema_placement = ''managed_schema''"
definition target_schema_placement :: string where "target_schema_placement = ''target_schema''"

definition default_replace_staging_policy :: staging_policy where
  "default_replace_staging_policy =
     \<lparr>sp_placement = managed_schema_placement, sp_managed_schema = default_staging_schema, sp_target_schema = []\<rparr>"

definition normalise_replace_staging_policy :: "staging_policy \<Rightarrow> staging_policy" where
  "normalise_replace_staging_policy p =
     (let p1 = (if sp_placement p = [] then p\<lparr>sp_placement := managed_schema_placement\<rparr> else p)
      in if sp_managed_schema p1 = [] then p1\<lparr>sp_managed_schema := default_staging_schema\<rparr> else p1)"

text \<open>\<open>GenerateReplaceStagingTableName\<close>.\<close>

definition first_of :: "string list \<Rightarrow> string" where
  "first_of ss = (case filter (\<lambda>s. s \<noteq> []) ss of [] \<Rightarrow> [] | s # _ \<Rightarrow> s)"

definition generate_replace_staging_table_name ::
  "int \<Rightarrow> string \<Rightarrow> string \<Rightarrow> string \<Rightarrow> staging_policy \<Rightarrow> string \<Rightarrow> string" where
  "generate_replace_staging_table_name now target kind staging_dataset policy0 run_id =
     (let policy = normalise_replace_staging_policy policy0
      in case (split_catalog_schema_table target, split_catalog_schema_table_raw target) of
           ((cat, target_schema, name), (catalog_ref, target_schema_ref, _)) \<Rightarrow>
             (let placed =
                    (if staging_dataset \<noteq> [] then staging_dataset
                     else if sp_placement policy = target_schema_placement
                     then first_of [target_schema_ref, target_schema, sp_target_schema policy]
                     else sp_managed_schema policy);
                  staging_schema = (if placed = [] then sp_managed_schema policy else placed);
                  target_placement = (if target_schema_ref = [] then target_schema else target_schema_ref);
                  parts = (if target_schema \<noteq> [] \<and> staging_schema \<noteq> target_placement then [target_schema, name] else [name])
              in qualify_catalog (if catalog_ref \<noteq> [] then catalog_ref else cat)
                   (build_staging_table_name now staging_schema (synthetic_staging_identifier parts) kind run_id)))"

text \<open>\<open>managedStagingTableName\<close>, with the policy of the destination when it provides one, and
  \<open>GenerateNormalisedStagingTableName\<close>.\<close>

definition managed_staging_table_name :: "int \<Rightarrow> staging_policy option \<Rightarrow> string \<Rightarrow> string \<Rightarrow> string \<Rightarrow> string \<Rightarrow> string" where
  "managed_staging_table_name now policy target kind staging_dataset run_id =
     (case policy of
        Some p \<Rightarrow> generate_replace_staging_table_name now target kind staging_dataset p run_id
      | None \<Rightarrow> generate_staging_table_name now target kind staging_dataset run_id)"

definition generate_normalised_staging_table_name :: "int \<Rightarrow> string \<Rightarrow> string \<Rightarrow> string \<Rightarrow> string" where
  "generate_normalised_staging_table_name now target staging_dataset run_id =
     (let parts = split_name (generate_staging_table_name now target ''staging_normalised'' staging_dataset run_id)
      in case split_catalog_schema_table_raw target of
           (cat, schema, _) \<Rightarrow> name_string \<lparr>tn_catalog = cat, tn_schema = schema, tn_table = last parts\<rparr>)"

subsection \<open>Different tables, different staging tables\<close>

lemma hex_digit_inject: "m < 16 \<Longrightarrow> n < 16 \<Longrightarrow> hex_digit m = hex_digit n \<Longrightarrow> m = n"
proof -
  have "\<forall>m\<in>{..<16}. \<forall>n\<in>{..<16}. hex_digit m = hex_digit n \<longrightarrow> m = n"
    by (simp add: hex_digit_def lessThan_nat_numeral lessThan_Suc)
  then show "m < 16 \<Longrightarrow> n < 16 \<Longrightarrow> hex_digit m = hex_digit n \<Longrightarrow> m = n" by blast
qed

lemma hex_digit_char: "n < 16 \<Longrightarrow> identifier_char (hex_digit n) \<and> hex_digit n \<noteq> CHR ''_''"
proof -
  have "\<forall>n\<in>{..<16}. identifier_char (hex_digit n) \<and> hex_digit n \<noteq> CHR ''_''"
    by (simp add: hex_digit_def identifier_char_def is_lower_def is_upper_def is_digit_def lessThan_nat_numeral lessThan_Suc)
  then show "n < 16 \<Longrightarrow> identifier_char (hex_digit n) \<and> hex_digit n \<noteq> CHR ''_''" by blast
qed

lemma hex_encode_Cons: "hex_encode (c # s) = hex_digit (of_char c div 16) # hex_digit (of_char c mod 16) # hex_encode s"
  by (simp add: hex_encode_def Let_def)

lemma char_halves: "of_char (c :: char) div 16 < (16 :: nat)" "of_char (c :: char) mod 16 < (16 :: nat)"
proof -
  have "(of_char c :: nat) mod 256 = of_char c" by simp
  then have "(of_char c :: nat) < 256" by (metis mod_less_divisor zero_less_numeral)
  then show "of_char c div 16 < (16 :: nat)" "of_char c mod 16 < (16 :: nat)" by (auto intro: less_mult_imp_div_less)
qed

lemma hex_encode_chars: "c \<in> set (hex_encode s) \<Longrightarrow> identifier_char c \<and> c \<noteq> CHR ''_''"
proof (induction s)
  case (Cons d s)
  then show ?case
    using hex_digit_char [OF char_halves(1) [of d]] hex_digit_char [OF char_halves(2) [of d]]
    by (auto simp: hex_encode_Cons)
qed (simp add: hex_encode_def)

lemma hex_encode_inject: "hex_encode s = hex_encode t \<Longrightarrow> s = t"
proof (induction s arbitrary: t)
  case Nil
  then show ?case by (cases t) (simp_all add: hex_encode_Cons, simp add: hex_encode_def)
next
  case (Cons c s)
  show ?case
  proof (cases t)
    case Nil
    then show ?thesis using Cons.prems by (simp add: hex_encode_Cons) (simp add: hex_encode_def)
  next
    case (Cons d u)
    have "(of_char c :: nat) div 16 = of_char d div 16" "(of_char c :: nat) mod 16 = of_char d mod 16"
      using Cons.prems hex_digit_inject [OF char_halves(1) char_halves(1), of c d]
        hex_digit_inject [OF char_halves(2) char_halves(2), of c d]
      unfolding Cons hex_encode_Cons by simp_all
    then have "(of_char c :: nat) = of_char d" by (metis div_mult_mod_eq)
    then show ?thesis using Cons.prems Cons.IH [of u] unfolding Cons hex_encode_Cons by simp
  qed
qed

lemma encoded_inject:
  assumes "ps \<noteq> []" "qs \<noteq> []" "join ''_'' (map hex_encode ps) = join ''_'' (map hex_encode qs)"
  shows "ps = qs"
proof -
  have parts: "split_on (CHR ''_'') (join ''_'' (map hex_encode rs)) = map hex_encode rs" if "rs \<noteq> []" for rs
    by (rule split_on_join) (use that in \<open>auto dest: hex_encode_chars\<close>)
  have "map hex_encode ps = split_on (CHR ''_'') (join ''_'' (map hex_encode ps))"
    by (rule parts [OF assms(1), symmetric])
  also have "\<dots> = split_on (CHR ''_'') (join ''_'' (map hex_encode qs))" by (simp only: assms(3))
  also have "\<dots> = map hex_encode qs" by (rule parts [OF assms(2)])
  finally have "map hex_encode ps = map hex_encode qs" .
  moreover have "inj hex_encode" by (rule injI) (rule hex_encode_inject)
  ultimately show ?thesis by (simp add: inj_map_eq_map)
qed

lemma joined_twice_inject:
  assumes eq: "p @ ''__'' @ r = q @ ''__'' @ t" and p: "\<not> contains p ''__''" "p \<noteq> [] \<longrightarrow> last p \<noteq> CHR ''_''"
    and q: "\<not> contains q ''__''" "q \<noteq> [] \<longrightarrow> last q \<noteq> CHR ''_''"
  shows "p = q \<and> r = t"
proof -
  have no: "u = []" if "u @ ''__'' @ x = ''__'' @ y" "v = w @ u" "\<not> contains v ''__''" "v \<noteq> [] \<longrightarrow> last v \<noteq> CHR ''_''"
    for u v w x y
  proof (cases u)
    case (Cons a as)
    show ?thesis
    proof (cases as)
      case Nil
      then show ?thesis using that Cons by auto
    next
      case (Cons b bs)
      then have "v = w @ ''__'' @ bs" using that \<open>u = a # as\<close> by auto
      then show ?thesis using that(3) contains_iff [of v "''__''"] by blast
    qed
  qed
  from eq obtain u where "(p = q @ u \<and> u @ ''__'' @ r = ''__'' @ t) \<or> (p @ u = q \<and> ''__'' @ r = u @ ''__'' @ t)"
    unfolding append_eq_append_conv2 by blast
  moreover from this have "u = []"
    using no [of u r t p q] no [of u t r q p] p q by metis
  ultimately show ?thesis by auto
qed

lemma synthetic_inject:
  assumes ps: "ps = [t] \<or> ps = [s, t] \<and> (s \<noteq> [] \<longrightarrow> last s \<noteq> CHR ''_'')"
    and qs: "qs = [t'] \<or> qs = [s', t'] \<and> (s' \<noteq> [] \<longrightarrow> last s' \<noteq> CHR ''_'')"
    and eq: "synthetic_staging_identifier ps = synthetic_staging_identifier qs"
  shows "ps = qs"
proof -
  let ?legacy = "\<lambda>rs. unambiguous_legacy (join ''__'' rs) rs"
  have ne: "ps \<noteq> []" "qs \<noteq> []" using ps qs by auto
  have prefix: "\<not> has_prefix (join ''__'' rs) encoded_staging_identifier_prefix" if "?legacy rs" for rs
    using that by (simp add: unambiguous_legacy_def)
  consider "?legacy ps" "?legacy qs" | "\<not> ?legacy ps" "\<not> ?legacy qs" | "?legacy ps \<noteq> ?legacy qs" by blast
  then show ?thesis
  proof cases
    case 1
    have clean: "\<forall>p\<in>set ps \<union> set qs. \<not> contains p ''__''"
      using 1 by (auto simp: unambiguous_legacy_def list_all_iff)
    have mid: "contains (a @ CHR ''_'' # CHR ''_'' # b) ''__''" for a b
      unfolding contains_iff by (intro exI [of _ a] exI [of _ b]) simp
    have "join ''__'' ps = join ''__'' qs" using eq 1 by (simp add: synthetic_staging_identifier_def)
    then show ?thesis
      using ps qs clean joined_twice_inject [of s t s' t'] mid by auto
  next
    case 2
    then have "join ''_'' (map hex_encode ps) = join ''_'' (map hex_encode qs)"
      using eq by (simp add: synthetic_staging_identifier_def Let_def)
    then show ?thesis by (rule encoded_inject [OF ne])
  next
    case 3
    have "synthetic_staging_identifier rs = join ''__'' rs" if "?legacy rs" for rs
      using that by (simp add: synthetic_staging_identifier_def)
    moreover have "has_prefix (synthetic_staging_identifier rs) encoded_staging_identifier_prefix" if "\<not> ?legacy rs" for rs
      using that by (simp add: synthetic_staging_identifier_def Let_def)
    ultimately show ?thesis using 3 eq prefix by metis
  qed
qed

lemma synthetic_chars: "c \<in> set (synthetic_staging_identifier ps) \<Longrightarrow> identifier_char c"
proof -
  have j: "c \<in> set (join sep rs) \<Longrightarrow> (\<exists>r\<in>set rs. c \<in> set r) \<or> c \<in> set sep" for sep and rs :: "string list"
    by (induction sep rs rule: join.induct) auto
  have sep: "identifier_char (CHR ''_'')" by (simp add: identifier_char_def)
  have prefix: "d \<in> set encoded_staging_identifier_prefix \<Longrightarrow> identifier_char d" for d
    by (auto simp: encoded_staging_identifier_prefix_def identifier_char_def is_lower_def)
  assume "c \<in> set (synthetic_staging_identifier ps)"
  then consider "unambiguous_legacy (join ''__'' ps) ps" "c \<in> set (join ''__'' ps)"
    | "c \<in> set encoded_staging_identifier_prefix" | "c \<in> set (join ''_'' (map hex_encode ps))"
    by (auto simp: synthetic_staging_identifier_def Let_def split: if_splits)
  then show "identifier_char c"
    by cases (use j [of "''__''" ps] j [of "''_''" "map hex_encode ps"] sep prefix hex_encode_chars [of c]
      in \<open>auto simp: unambiguous_legacy_def list_all_iff\<close>)
qed

lemma length_hex_encode: "length (hex_encode s) = 2 * length s"
  by (induction s) (simp_all add: hex_encode_Cons, simp add: hex_encode_def)

lemma length_word_bytes: "length (word_bytes w) = 4"
  by (simp add: word_bytes_def)

lemma length_sha1: "length (sha1 m) = 20"
  by (simp add: sha1_def Let_def length_word_bytes split: prod.split)

lemma shorten_chars:
  "list_all identifier_char e \<Longrightarrow> list_all identifier_char (shorten_embedded e tail)"
  by (auto simp: shorten_embedded_def Let_def list_all_iff identifier_char_def [of "CHR ''_''"]
      dest: in_set_takeD hex_encode_chars)

lemma shorten_length: "length (shorten_embedded e tail @ tail) \<le> max 60 (length tail + 10)"
  by (auto simp: shorten_embedded_def Let_def max_staging_table_name_len_def length_hex_encode length_sha1 min_def max_def)

lemma last_component:
  assumes "CHR ''.'' \<notin> set x" "CHR ''.'' \<notin> set y" "p @ CHR ''.'' # x = q @ CHR ''.'' # y"
  shows "p = q \<and> x = y"
proof -
  have "takeWhile (\<lambda>c. c \<noteq> CHR ''.'') (rev (p @ CHR ''.'' # x)) = rev x"
    using assms(1) by (auto simp: takeWhile_tail takeWhile_eq_all_conv)
  moreover have "takeWhile (\<lambda>c. c \<noteq> CHR ''.'') (rev (q @ CHR ''.'' # y)) = rev y"
    using assms(2) by (auto simp: takeWhile_tail takeWhile_eq_all_conv)
  ultimately have "x = y" using assms(3) by (metis rev_is_rev_conv)
  then show ?thesis using assms(3) by simp
qed

text \<open>The staging table of a target: its catalog, then one name in the staging schema.\<close>

definition target_parts :: "string \<Rightarrow> string list" where
  "target_parts target =
     (case split_catalog_schema_table target of (_, schema, name) \<Rightarrow> if schema \<noteq> [] then [schema, name] else [name])"

definition target_catalog :: "string \<Rightarrow> string" where
  "target_catalog target =
     (let raw = fst (split_catalog_schema_table_raw target)
      in if raw \<noteq> [] then raw else fst (split_catalog_schema_table target))"

lemma generate_staging_table_name_eq:
  "generate_staging_table_name now target kind dataset run =
     qualify_catalog (target_catalog target)
       (build_staging_table_name now (if dataset = [] then default_staging_schema else dataset)
          (synthetic_staging_identifier (target_parts target)) kind run)"
  by (simp add: generate_staging_table_name_def target_parts_def target_catalog_def Let_def split: prod.split)

definition no_trailing_underscore :: "string \<Rightarrow> bool" where
  "no_trailing_underscore target \<longleftrightarrow>
     (let schema = fst (snd (split_catalog_schema_table target)) in schema \<noteq> [] \<longrightarrow> last schema \<noteq> CHR ''_'')"

definition embedded_fits :: "string \<Rightarrow> string \<Rightarrow> bool" where
  "embedded_fits target tail \<longleftrightarrow> length (synthetic_staging_identifier (target_parts target)) + length tail \<le> 60"

lemma target_parts_cases:
  assumes "no_trailing_underscore target"
  shows "\<exists>s t. target_parts target = [t] \<or> target_parts target = [s, t] \<and> (s \<noteq> [] \<longrightarrow> last s \<noteq> CHR ''_'')"
  using assms by (auto simp: target_parts_def no_trailing_underscore_def Let_def split: prod.splits)

definition short_hash :: "string \<Rightarrow> string" where
  "short_hash embedded = take 8 (hex_encode (sha1 embedded))"

lemma length_short_hash: "length (short_hash e) = 8"
  by (simp add: short_hash_def length_hex_encode length_sha1)

lemma shorten_cut:
  "length e + length tail > 60 \<Longrightarrow> \<exists>kept. shorten_embedded e tail = kept @ ''_'' @ short_hash e"
  by (simp add: shorten_embedded_def max_staging_table_name_len_def short_hash_def Let_def)

text \<open>Names that are cut to one text have the hash in common; a name that is not cut may only be one that ends
  with the hash of a name that is.\<close>

lemma shorten_same:
  assumes "shorten_embedded e tail = shorten_embedded e' tail"
  shows "e = e' \<or> length e + length tail > 60 \<and> length e' + length tail > 60 \<and> short_hash e = short_hash e' \<or>
    length e' + length tail > 60 \<and> has_suffix e (''_'' @ short_hash e') \<or>
    length e + length tail > 60 \<and> has_suffix e' (''_'' @ short_hash e)"
proof -
  have kept: "shorten_embedded x tail = x" if "\<not> length x + length tail > 60" for x
    using that by (simp add: shorten_embedded_def max_staging_table_name_len_def)
  consider "\<not> length e + length tail > 60" "\<not> length e' + length tail > 60"
    | "length e + length tail > 60" "length e' + length tail > 60"
    | "\<not> length e + length tail > 60" "length e' + length tail > 60"
    | "length e + length tail > 60" "\<not> length e' + length tail > 60" by blast
  then show ?thesis
  proof cases
    case 1
    then show ?thesis using kept assms by simp
  next
    case 2
    then obtain k k' where "k @ ''_'' @ short_hash e = k' @ ''_'' @ short_hash e'"
      using shorten_cut assms by metis
    then have "(k @ ''_'') @ short_hash e = (k' @ ''_'') @ short_hash e'" by simp
    then have "short_hash e = short_hash e'" by (metis append_eq_append_conv length_short_hash)
    then show ?thesis using 2 by simp
  next
    case 3
    then obtain k where "e = k @ ''_'' @ short_hash e'" using shorten_cut kept assms by metis
    then have "has_suffix e (''_'' @ short_hash e')" by (simp add: has_suffix_def has_prefix_iff)
    then show ?thesis using 3 by simp
  next
    case 4
    then obtain k where "e' = k @ ''_'' @ short_hash e" using shorten_cut kept assms by metis
    then have "has_suffix e' (''_'' @ short_hash e)" by (simp add: has_suffix_def has_prefix_iff)
    then show ?thesis using 4 by simp
  qed
qed

text \<open>What lets the names of two targets run into each other: both are too long for the tail and agree in the hash,
  or one is too long and the other ends with its hash.\<close>

definition hashes_meet :: "string \<Rightarrow> string \<Rightarrow> string \<Rightarrow> bool" where
  "hashes_meet target target' tail \<longleftrightarrow>
     (let e = synthetic_staging_identifier (target_parts target); e' = synthetic_staging_identifier (target_parts target')
      in \<not> embedded_fits target tail \<and> \<not> embedded_fits target' tail \<and> short_hash e = short_hash e' \<or>
         \<not> embedded_fits target' tail \<and> has_suffix e (''_'' @ short_hash e') \<or>
         \<not> embedded_fits target tail \<and> has_suffix e' (''_'' @ short_hash e))"

text \<open>C21: when two loads of one kind in one run share a staging table, their targets lie in the same catalog, and
  they are the same schema and table, with two exceptions: one of the schemas ends with an underscore, or
  a name is cut and eight hexadecimal digits of a SHA-1 hash meet. Names that fit are never hashed, so
  for them only the first exception remains. Whatever the target is, the name of its staging table has at
  most 60 characters, unless the kind of load and the run id leave fewer than ten for it.\<close>

theorem staging_names_apart:
  assumes same: "generate_staging_table_name now target kind dataset run = generate_staging_table_name now target' kind dataset run"
  shows "target_catalog target = target_catalog target' \<and>
    (target_parts target = target_parts target' \<or> \<not> no_trailing_underscore target \<or> \<not> no_trailing_underscore target' \<or>
     hashes_meet target target' (staging_tail now kind run)) \<and>
    (\<exists>prefix name. generate_staging_table_name now any kind dataset run = prefix @ ''.'' @ name \<and>
       length name \<le> max 60 (length (staging_tail now kind run) + 10))"
proof -
  let ?tail = "staging_tail now kind run"
  let ?schema = "if dataset = [] then default_staging_schema else dataset"
  let ?i = "\<lambda>t. synthetic_staging_identifier (target_parts t)"
  let ?e = "\<lambda>t. shorten_embedded (?i t) ?tail"
  let ?p = "\<lambda>t. if target_catalog t = [] then ?schema else target_catalog t @ ''.'' @ ?schema"
  have shape: "generate_staging_table_name now t kind dataset run = (?p t @ CHR ''.'' # ?e t) @ ?tail" for t
    by (simp add: generate_staging_table_name_eq qualify_catalog_def build_staging_table_name_def Let_def)
  have chars: "CHR ''.'' \<notin> set (?e t)" for t
  proof -
    have "list_all identifier_char (?e t)" by (intro shorten_chars) (auto simp: list_all_iff dest: synthetic_chars)
    then show ?thesis by (auto simp: list_all_iff identifier_char_def is_lower_def is_upper_def is_digit_def)
  qed
  have "?p target @ CHR ''.'' # ?e target = ?p target' @ CHR ''.'' # ?e target'"
    using same unfolding shape append_same_eq .
  from last_component [OF chars chars this] have p: "?p target = ?p target'" and e: "?e target = ?e target'" by blast+
  have "target_parts target = target_parts target'"
    if "?i target = ?i target'" "no_trailing_underscore target" "no_trailing_underscore target'"
    using that target_parts_cases [OF that(2)] target_parts_cases [OF that(3)] synthetic_inject by metis
  moreover have "?i target = ?i target' \<or> hashes_meet target target' ?tail"
    using shorten_same [OF e] unfolding hashes_meet_def embedded_fits_def Let_def by force
  moreover have "target_catalog target = target_catalog target'"
    using p by (auto split: if_splits)
  moreover have "\<exists>prefix name. generate_staging_table_name now any kind dataset run = prefix @ ''.'' @ name \<and>
      length name \<le> max 60 (length ?tail + 10)"
    using shorten_length by (intro exI [of _ "?p any"] exI [of _ "?e any @ ?tail"]) (simp add: shape)
  ultimately show ?thesis by blast
qed

text \<open>The first exception: two tables of one run share a staging table.\<close>

lemma staging_identifiers_collide:
  "synthetic_staging_identifier [''a_'', ''b''] = synthetic_staging_identifier [''a'', ''_b'']"
  by (simp add: synthetic_staging_identifier_def unambiguous_legacy_def Let_def encoded_staging_identifier_prefix_def
      has_prefix_def identifier_char_def is_lower_def)

lemma staging_names_apart_witness:
  "generate_staging_table_name 0 ''bullhorn.candidates'' ''merge'' [] ''c0cb3a69-242d-4d87-8c88-4c55fd85f131'' \<noteq>
   generate_staging_table_name 0 ''bullhorn.placements'' ''merge'' [] ''c0cb3a69-242d-4d87-8c88-4c55fd85f131''"
proof
  let ?run = "''c0cb3a69-242d-4d87-8c88-4c55fd85f131''"
  assume same: "generate_staging_table_name 0 ''bullhorn.candidates'' ''merge'' [] ?run =
    generate_staging_table_name 0 ''bullhorn.placements'' ''merge'' [] ?run"
  have "embedded_fits ''bullhorn.candidates'' (staging_tail 0 ''merge'' ?run)"
    "embedded_fits ''bullhorn.placements'' (staging_tail 0 ''merge'' ?run)"
    "no_trailing_underscore ''bullhorn.candidates''" "no_trailing_underscore ''bullhorn.placements''" by code_simp+
  then have "target_parts ''bullhorn.candidates'' = target_parts ''bullhorn.placements''"
    using staging_names_apart [OF same] by (auto simp: hashes_meet_def)
  moreover have "target_parts ''bullhorn.candidates'' \<noteq> target_parts ''bullhorn.placements''" by code_simp
  ultimately show False by blast
qed

end
