(* ===== verification/Onelake_Loads.thy ===== *)
theory Onelake_Loads
  imports Onelake_Rows "HOL-Library.Multiset"
begin

text \<open>
  What the row transforms of \<^verbatim>\<open>Onelake_Rows\<close> do: merge is an upsert by key, delete+insert reloads
  an interval, SCD2 keeps one current version of every key and never touches history. All three
  give the same rows when they are run again on their own result.
\<close>

subsection \<open>Keys\<close>

text \<open>The key columns of a row; the columns whose text determines the cell.\<close>

definition key_of :: "nat list \<Rightarrow> cell list \<Rightarrow> cell list" where
  "key_of idxs row = map (\<lambda>i. row ! i) idxs"

fun plain_cell :: "arrow_type \<Rightarrow> cell \<Rightarrow> bool" where
  "plain_cell t Null = (t = ABool \<or> t = AInt16 \<or> t = AInt32 \<or> t = AInt64 \<or> t = AString)"
| "plain_cell ABool (CBool b) = True"
| "plain_cell AInt16 (CInt i) = is_int64 i"
| "plain_cell AInt32 (CInt i) = is_int64 i"
| "plain_cell AInt64 (CInt i) = is_int64 i"
| "plain_cell AString (CText s) = (s \<noteq> null_text \<and> key_sep \<notin> set s)"
| "plain_cell t c = False"

lemma null_text_not_number: "itoa i \<noteq> null_text" "null_text \<noteq> itoa i"
proof -
  have "CHR ''N'' \<in> set null_text" by (simp add: null_text_def)
  moreover have "CHR ''N'' \<notin> set (itoa i)"
  proof
    assume "CHR ''N'' \<in> set (itoa i)"
    then have "is_digit (CHR ''N'') \<or> CHR ''N'' = CHR ''-''" by (rule set_itoa)
    then show False by (simp add: is_digit_def)
  qed
  ultimately show "itoa i \<noteq> null_text" "null_text \<noteq> itoa i" by metis+
qed

lemma null_text_not_bool: "null_text \<noteq> ''true''" "null_text \<noteq> ''false''" "''true'' \<noteq> null_text" "''false'' \<noteq> null_text"
  by (simp_all add: null_text_def)

lemma cell_string_plain:
  "cell_string lib t Null = null_text"
  "cell_string lib ABool (CBool b) = (if b then ''true'' else ''false'')"
  "cell_string lib AInt16 (CInt i) = itoa i" "cell_string lib AInt32 (CInt i) = itoa i"
  "cell_string lib AInt64 (CInt i) = itoa i" "cell_string lib AString (CText s) = s"
  by (simp_all add: cell_string_def)

lemma plain_cell_iff:
  "plain_cell t c \<longleftrightarrow>
     c = Null \<and> t \<in> {ABool, AInt16, AInt32, AInt64, AString} \<or> (\<exists>b. t = ABool \<and> c = CBool b) \<or>
     (\<exists>i. t \<in> {AInt16, AInt32, AInt64} \<and> c = CInt i \<and> is_int64 i) \<or>
     (\<exists>s. t = AString \<and> c = CText s \<and> s \<noteq> null_text \<and> key_sep \<notin> set s)"
  by (cases "(t, c)" rule: plain_cell.cases) simp_all

lemma cell_string_inject:
  assumes c: "plain_cell t c" and d: "plain_cell t d" and e: "cell_string lib t c = cell_string lib t d"
  shows "c = d"
proof -
  note texts = cell_string_plain null_text_not_number null_text_not_bool
  from c consider "c = Null" | b where "t = ABool" "c = CBool b"
    | i where "t \<in> {AInt16, AInt32, AInt64}" "c = CInt i" "is_int64 i"
    | s where "t = AString" "c = CText s" "s \<noteq> null_text"
    unfolding plain_cell_iff by blast
  then show ?thesis
  proof cases
    case 1
    then show ?thesis using d e unfolding plain_cell_iff by (auto simp: texts split: if_splits)
  next
    case 2
    then show ?thesis using d e unfolding plain_cell_iff by (auto simp: texts split: if_splits)
  next
    case 3
    then show ?thesis using d e unfolding plain_cell_iff by (auto simp: texts itoa_inject)
  next
    case 4
    then show ?thesis using d e unfolding plain_cell_iff by (auto simp: texts)
  qed
qed

lemma key_sep_not_in_number: "key_sep \<notin> set (itoa i)"
proof
  assume "key_sep \<in> set (itoa i)"
  then have "is_digit key_sep \<or> key_sep = CHR ''-''" by (rule set_itoa)
  then show False by (simp add: is_digit_def key_sep_def)
qed

lemma key_sep_not_in_plain: "plain_cell t c \<Longrightarrow> key_sep \<notin> set (cell_string lib t c)"
  by (cases "(t, c)" rule: plain_cell.cases)
    (auto simp: cell_string_plain key_sep_not_in_number, auto simp: null_text_def key_sep_def)

definition plain_key_cells :: "field list \<Rightarrow> nat list \<Rightarrow> cell list \<Rightarrow> bool" where
  "plain_key_cells fs idxs row \<longleftrightarrow> (\<forall>i\<in>set idxs. plain_cell (fl_type (fs ! i)) (row ! i))"

lemma row_key_eq_iff:
  assumes "plain_key_cells fs idxs r" "plain_key_cells fs idxs s"
  shows "row_key lib fs idxs r = row_key lib fs idxs s \<longleftrightarrow> key_of idxs r = key_of idxs s"
proof
  assume h: "row_key lib fs idxs r = row_key lib fs idxs s"
  let ?t = "\<lambda>row i. cell_string lib (fl_type (fs ! i)) (row ! i)"
  have "map (?t r) idxs = map (?t s) idxs"
  proof (cases "idxs = []")
    case False
    have sep: "\<forall>p\<in>set (map (?t row) idxs). key_sep \<notin> set p" if "plain_key_cells fs idxs row" for row
      using that key_sep_not_in_plain by (auto simp: plain_key_cells_def)
    show ?thesis
      using arg_cong [OF h, of "split_on key_sep"] assms False
      by (simp add: row_key_def split_on_join [OF _ sep])
  qed simp
  then show "key_of idxs r = key_of idxs s"
    using assms by (auto simp: key_of_def plain_key_cells_def intro: cell_string_inject)
next
  assume "key_of idxs r = key_of idxs s"
  then show "row_key lib fs idxs r = row_key lib fs idxs s"
    by (auto simp: key_of_def row_key_def intro: arg_cong [where f = "join [key_sep]"])
qed

subsection \<open>Merge is an upsert\<close>

definition uniform :: "field list \<Rightarrow> record_batch list \<Rightarrow> bool" where
  "uniform fs bs \<longleftrightarrow> (\<forall>b\<in>set bs. rb_fields b = fs)"

lemma uniform_simps [simp]:
  "uniform fs []" "uniform fs (b # bs) \<longleftrightarrow> rb_fields b = fs \<and> uniform fs bs"
  "uniform fs (bs @ cs) \<longleftrightarrow> uniform fs bs \<and> uniform fs cs"
  by (auto simp: uniform_def)

lemma uniform_filter_batch [simp]: "rb_fields b = fs \<Longrightarrow> uniform fs (filter_batch P b)"
  by (simp add: filter_batch_def Let_def)

text \<open>The reference: the rows of the target whose key is not among the incoming ones, then these.\<close>

definition upsert :: "('r \<Rightarrow> 'k) \<Rightarrow> 'r list \<Rightarrow> 'r list \<Rightarrow> 'r list" where
  "upsert key target staging = filter (\<lambda>r. key r \<notin> key ` set staging) target @ staging"

lemma upsert_again [simp]: "upsert key (upsert key target staging) staging = upsert key target staging"
  by (simp add: upsert_def filter_empty_conv)

lemma upsert_Nil [simp]: "upsert key target [] = target"
  by (simp add: upsert_def)

lemma upsert_distinct:
  "distinct (map key target) \<Longrightarrow> distinct (map key staging) \<Longrightarrow> distinct (map key (upsert key target staging))"
  by (auto simp: upsert_def distinct_map_filter)

lemma build_key_set_uniform:
  "uniform fs bs \<Longrightarrow> build_key_set lib bs idxs = row_key lib fs idxs ` set (all_rows bs)"
  by (auto simp: build_key_set_def all_rows_def uniform_def)

lemma merge_target_rows:
  assumes "uniform fs target" "field_indices fs pks = Inr idxs"
  shows "\<exists>out. merge_target lib keys pks target = Inr out \<and> uniform fs out \<and>
    all_rows out = filter (\<lambda>r. row_key lib fs idxs r \<notin> keys) (all_rows target)"
  using assms(1)
proof (induction target)
  case (Cons tb tbs)
  then obtain out where "merge_target lib keys pks tbs = Inr out" "uniform fs out"
    "all_rows out = filter (\<lambda>r. row_key lib fs idxs r \<notin> keys) (all_rows tbs)" by auto
  then show ?case using Cons.prems assms(2) by simp
qed simp

lemma merge_batches_rows:
  assumes "uniform fs target" "uniform fs staging" "field_indices fs pks = Inr idxs"
  shows "\<exists>out. merge_batches lib target staging pks = Inr out \<and> uniform fs out \<and>
    all_rows out = upsert (row_key lib fs idxs) (all_rows target) (all_rows staging)"
proof (cases staging)
  case (Cons sb sbs)
  have "build_key_set lib staging idxs = row_key lib fs idxs ` set (all_rows staging)"
    using assms(2) by (rule build_key_set_uniform)
  then show ?thesis
    using merge_target_rows [OF assms(1,3), of lib "build_key_set lib staging idxs"] assms Cons
    by (auto simp: merge_batches_def upsert_def)
qed (use assms in \<open>simp add: merge_batches_def\<close>)

text \<open>Where the text of the key columns determines them, the key is that of the columns.\<close>

lemma upsert_key_cong:
  assumes "\<And>r s. r \<in> set target \<Longrightarrow> s \<in> set staging \<Longrightarrow> k r = k s \<longleftrightarrow> l r = l s"
  shows "upsert k target staging = upsert l target staging"
proof -
  have "k r \<in> k ` set staging \<longleftrightarrow> l r \<in> l ` set staging" if "r \<in> set target" for r
    using assms [OF that] by (auto simp: image_iff)
  then show ?thesis by (simp add: upsert_def cong: filter_cong)
qed

definition all_plain :: "field list \<Rightarrow> nat list \<Rightarrow> record_batch list \<Rightarrow> bool" where
  "all_plain fs idxs bs \<longleftrightarrow> (\<forall>r\<in>set (all_rows bs). plain_key_cells fs idxs r)"



subsection \<open>Delete and insert reloads an interval\<close>

lemma float_shift_small [simp]: "n < 9007199254740992 \<Longrightarrow> float_shift n = 0"
  by (simp add: float_shift.simps)

lemma float64_of_int_exact: "\<bar>i\<bar> < 9007199254740992 \<Longrightarrow> float64_of_int i = i"
  by (simp add: float64_of_int_def round_half_even_def Let_def nat_less_iff sgn_if)

text \<open>The number a value is compared as, in the unit of the key type.\<close>

fun interval_number :: "data_type \<Rightarrow> go_value \<Rightarrow> int option" where
  "interval_number t (VTime u) =
     (if t = TypeTimestamp \<or> t = TypeTimestampTZ then Some (u div microsecond)
      else if t = TypeDate then Some (day_seconds (u, 0)) else None)"
| "interval_number t (VInt16 i) = (if t = TypeInt16 \<or> t = TypeInt32 \<or> t = TypeInt64 then Some i else None)"
| "interval_number t (VInt32 i) = (if t = TypeInt16 \<or> t = TypeInt32 \<or> t = TypeInt64 then Some i else None)"
| "interval_number t (VInt64 i) = (if t = TypeInt16 \<or> t = TypeInt32 \<or> t = TypeInt64 then Some i else None)"
| "interval_number t v = None"

lemma canonical_interval_number:
  "interval_number t v = Some n \<Longrightarrow> canonical_value lib v t = Some (KFloat (float_of_int n))"
  by (cases "(t, v)" rule: interval_number.cases)
    (auto simp: canonical_value_def split: if_splits)

lemma canonical_cmp_ints:
  "0 \<le> canonical_cmp lib (KFloat (float_of_int a)) (KFloat (float_of_int b)) \<longleftrightarrow> float64_of_int b \<le> float64_of_int a"
  "canonical_cmp lib (KFloat (float_of_int a)) (KFloat (float_of_int b)) \<le> 0 \<longleftrightarrow> float64_of_int a \<le> float64_of_int b"
  by (simp_all add: canonical_cmp_def float_of_int_def)

text \<open>A cell without a value, or with a number that a \<open>float64\<close> holds exactly.\<close>

definition exact_number :: "int \<Rightarrow> bool" where "exact_number n \<longleftrightarrow> \<bar>n\<bar> < 9007199254740992"

definition comparable_cell :: "arrow_lib \<Rightarrow> data_type \<Rightarrow> arrow_type \<Rightarrow> cell \<Rightarrow> bool" where
  "comparable_cell lib kt ty c \<longleftrightarrow>
     c = Null \<or> (\<exists>n. interval_number kt (arrow_value lib ty c) = Some n \<and> exact_number n)"

definition in_range :: "arrow_lib \<Rightarrow> data_type \<Rightarrow> int \<Rightarrow> int \<Rightarrow> arrow_type \<Rightarrow> cell \<Rightarrow> bool" where
  "in_range lib kt s e ty c \<longleftrightarrow>
     (case interval_number kt (arrow_value lib ty c) of None \<Rightarrow> False | Some n \<Rightarrow> s \<le> n \<and> n \<le> e)"

lemma in_interval_range:
  assumes "comparable_cell lib (di_key_type opts) ty c"
    and "interval_number (di_key_type opts) (di_start opts) = Some s" "exact_number s"
    and "interval_number (di_key_type opts) (di_end opts) = Some e" "exact_number e"
  shows "in_interval lib opts ty c \<longleftrightarrow> in_range lib (di_key_type opts) s e ty c"
proof (cases "c = Null")
  case True
  then show ?thesis by (simp add: in_interval_def in_range_def cell_canonical_def)
next
  case False
  then obtain n where n: "interval_number (di_key_type opts) (arrow_value lib ty c) = Some n" "exact_number n"
    using assms(1) by (auto simp: comparable_cell_def)
  show ?thesis
    using False n assms(2-5)
    by (simp add: in_interval_def in_range_def cell_canonical_def canonical_interval_number canonical_cmp_ints
        float64_of_int_exact exact_number_def)
qed

lemma delete_target_rows:
  assumes "uniform fs target" "field_index fs (di_key opts) = Some i"
  shows "\<exists>out. delete_target lib opts target = Inr out \<and> uniform fs out \<and>
    all_rows out = filter (\<lambda>r. \<not> in_interval lib opts (fl_type (fs ! i)) (r ! i)) (all_rows target)"
  using assms(1)
proof (induction target)
  case (Cons tb tbs)
  then obtain out where "delete_target lib opts tbs = Inr out" "uniform fs out"
    "all_rows out = filter (\<lambda>r. \<not> in_interval lib opts (fl_type (fs ! i)) (r ! i)) (all_rows tbs)" by auto
  then show ?case using Cons.prems assms(2) by simp
qed simp

lemma delete_insert_rows:
  assumes "uniform fs target" "uniform fs staging" "field_index fs (di_key opts) = Some i"
  shows "\<exists>out. delete_insert_batches lib target staging opts = Inr out \<and> uniform fs out \<and>
    all_rows out = filter (\<lambda>r. \<not> in_interval lib opts (fl_type (fs ! i)) (r ! i)) (all_rows target) @ all_rows staging"
  using delete_target_rows [OF assms(1,3), of lib] assms(2)
  by (auto simp: delete_insert_batches_def)

lemma delete_insert_reloads_rows:
  assumes u: "uniform fs target" "uniform fs staging"
    and i: "field_index fs (di_key opts) = Some i"
    and c: "\<forall>r\<in>set (all_rows target) \<union> set (all_rows staging).
        comparable_cell lib (di_key_type opts) (fl_type (fs ! i)) (r ! i)"
    and b: "interval_number (di_key_type opts) (di_start opts) = Some s" "exact_number s"
      "interval_number (di_key_type opts) (di_end opts) = Some e" "exact_number e"
  shows "\<exists>out. delete_insert_batches lib target staging opts = Inr out \<and>
    all_rows out = filter (\<lambda>r. \<not> in_range lib (di_key_type opts) s e (fl_type (fs ! i)) (r ! i)) (all_rows target)
      @ all_rows staging \<and>
    ((\<forall>r\<in>set (all_rows staging). in_range lib (di_key_type opts) s e (fl_type (fs ! i)) (r ! i)) \<longrightarrow>
       (\<exists>again. delete_insert_batches lib out staging opts = Inr again \<and> all_rows again = all_rows out))"
proof -
  let ?in = "\<lambda>r. in_interval lib opts (fl_type (fs ! i)) (r ! i)"
  let ?range = "\<lambda>r. in_range lib (di_key_type opts) s e (fl_type (fs ! i)) (r ! i)"
  have eq: "?in r = ?range r" if "r \<in> set (all_rows target) \<union> set (all_rows staging)" for r
    using in_interval_range [OF _ b] c that by blast
  obtain out where o: "delete_insert_batches lib target staging opts = Inr out" "uniform fs out"
    "all_rows out = filter (\<lambda>r. \<not> ?in r) (all_rows target) @ all_rows staging"
    using delete_insert_rows [OF u i] by blast
  obtain again where a: "delete_insert_batches lib out staging opts = Inr again"
    "all_rows again = filter (\<lambda>r. \<not> ?in r) (all_rows out) @ all_rows staging"
    using delete_insert_rows [OF o(2) u(2) i] by blast
  have "all_rows again = all_rows out" if "\<forall>r\<in>set (all_rows staging). ?range r"
  proof -
    have "filter (\<lambda>r. \<not> ?in r) (all_rows staging) = []"
      using that eq by (simp add: filter_empty_conv)
    then show ?thesis by (simp add: a(2) o(3))
  qed
  moreover have "filter (\<lambda>r. \<not> ?in r) (all_rows target) = filter (\<lambda>r. \<not> ?range r) (all_rows target)"
    using eq by (auto intro: filter_cong)
  ultimately show ?thesis using o a(1) by auto
qed



subsection \<open>SCD2 keeps one current version\<close>

text \<open>The reference, over rows with a key \<open>k\<close>, a signature \<open>d\<close> of their data, the flag \<open>cur\<close> and the
  closing of a version; \<open>sd\<close> is the incoming signature of each key.\<close>

definition version_fate :: "('r \<Rightarrow> 'k) \<Rightarrow> ('r \<Rightarrow> 'd) \<Rightarrow> ('r \<Rightarrow> bool) \<Rightarrow> bool \<Rightarrow> ('k \<Rightarrow> 'd option) \<Rightarrow> 'r \<Rightarrow> scd2_fate" where
  "version_fate k d cur snapshot sd r =
     (if \<not> cur r then History
      else (case sd (k r) of
              Some x \<Rightarrow> (if x \<noteq> d r then Close else Current)
            | None \<Rightarrow> (if snapshot then Close else Current)))"

definition incoming :: "('r \<Rightarrow> 'k) \<Rightarrow> ('r \<Rightarrow> 'd) \<Rightarrow> 'r list \<Rightarrow> 'k \<Rightarrow> 'd option" where
  "incoming k d S = map_of (rev (map (\<lambda>r. (k r, d r)) S))"

definition next_versions ::
  "('r \<Rightarrow> 'k) \<Rightarrow> ('r \<Rightarrow> 'd) \<Rightarrow> ('r \<Rightarrow> bool) \<Rightarrow> bool \<Rightarrow> ('r \<Rightarrow> 'r) \<Rightarrow> 'r multiset \<Rightarrow> 'r list \<Rightarrow> 'r multiset" where
  "next_versions k d cur snapshot close T S =
     (let fate = version_fate k d cur snapshot (incoming k d S);
          still = k ` set_mset {#r \<in># T. fate r = Current#}
      in {#r \<in># T. fate r \<noteq> Close#} + image_mset close {#r \<in># T. fate r = Close#}
         + mset (filter (\<lambda>r. k r \<notin> still) S))"

lemma incoming_distinct:
  assumes "distinct (map k S)"
  shows "incoming k d S x = Some y \<longleftrightarrow> (\<exists>r\<in>set S. k r = x \<and> d r = y)"
proof -
  have "distinct (map fst (rev (map (\<lambda>r. (k r, d r)) S)))"
    using assms by (simp add: rev_map [symmetric] comp_def)
  then show ?thesis
    by (auto simp: incoming_def dest: map_of_SomeD intro!: map_of_is_SomeI)
qed

lemma incoming_mem: "distinct (map k S) \<Longrightarrow> s \<in> set S \<Longrightarrow> incoming k d S (k s) = Some (d s)"
  by (auto simp: incoming_distinct)

lemma incoming_None: "incoming k d S x = None \<longleftrightarrow> x \<notin> k ` set S"
  by (auto simp: incoming_def map_of_eq_None_iff image_iff)

text \<open>At most one current version of a key.\<close>

definition one_current :: "('r \<Rightarrow> 'k) \<Rightarrow> ('r \<Rightarrow> bool) \<Rightarrow> 'r multiset \<Rightarrow> bool" where
  "one_current k cur T \<longleftrightarrow> (\<forall>x. count (image_mset k {#r \<in># T. cur r#}) x \<le> 1)"

lemma one_current_distinct: "distinct (map k (filter cur rows)) \<Longrightarrow> one_current k cur (mset rows)"
  unfolding one_current_def distinct_count_atmost_1 by (simp flip: mset_filter mset_map)


lemma current_staging:
  "\<forall>s\<in>set S. cur s \<Longrightarrow> {#r \<in># mset (filter Q S). cur r#} = mset (filter Q S)"
  by (induction S) auto

lemma current_versions:
  assumes "\<forall>r\<in>#T. \<not> cur (close r)" "\<forall>s\<in>set S. cur s"
  shows "{#r \<in># next_versions k d cur snapshot close T S. cur r#} =
    {#r \<in># T. version_fate k d cur snapshot (incoming k d S) r = Current#} +
    mset (filter (\<lambda>r. k r \<notin> k ` set_mset {#r \<in># T. version_fate k d cur snapshot (incoming k d S) r = Current#}) S)"
    (is "_ = ?old + ?new")
proof -
  have "{#r \<in># {#r \<in># T. version_fate k d cur snapshot (incoming k d S) r \<noteq> Close#}. cur r#} = ?old"
    unfolding filter_filter_mset by (rule filter_mset_cong) (auto simp: version_fate_def split: option.splits)
  moreover have "{#r \<in># image_mset close {#r \<in># T. version_fate k d cur snapshot (incoming k d S) r = Close#}. cur r#} = {#}"
    using assms(1) by (auto simp: filter_mset_eq_mempty_iff)
  moreover have "{#r \<in># ?new. cur r#} = ?new"
    using assms(2) by (rule current_staging)
  ultimately show ?thesis by (simp add: next_versions_def Let_def)
qed

lemma current_fate:
  "version_fate k d cur snapshot sd r = Current \<longleftrightarrow>
   cur r \<and> (sd (k r) = Some (d r) \<or> sd (k r) = None \<and> \<not> snapshot)"
  by (auto simp: version_fate_def split: option.splits)

text \<open>The current rows that a load closes: those whose data changed, and in a snapshot those whose
  key is gone.\<close>

lemma close_fate:
  assumes "distinct (map k S)"
  shows "version_fate k d cur snapshot (incoming k d S) r = Close \<longleftrightarrow>
    cur r \<and> (if k r \<in> k ` set S then (k r, d r) \<notin> (\<lambda>s. (k s, d s)) ` set S else snapshot)"
proof (cases "k r \<in> k ` set S")
  case True
  then obtain s where s: "s \<in> set S" "k r = k s" by blast
  then have "incoming k d S (k r) = Some (d s)" using incoming_mem [OF assms] by simp
  moreover have "(k r, d r) \<in> (\<lambda>s. (k s, d s)) ` set S \<longleftrightarrow> d s = d r"
  proof
    assume "(k r, d r) \<in> (\<lambda>s. (k s, d s)) ` set S"
    then obtain q where q: "q \<in> set S" "k r = k q" "d r = d q" by blast
    have "Some (d q) = incoming k d S (k q)" using incoming_mem [OF assms q(1), of d] by simp
    also have "\<dots> = Some (d s)" using incoming_mem [OF assms s(1), of d] s(2) q(2) by simp
    finally show "d s = d r" using q(3) by simp
  next
    assume "d s = d r"
    then have "(k r, d r) = (k s, d s)" using s(2) by simp
    then show "(k r, d r) \<in> (\<lambda>s. (k s, d s)) ` set S" using s(1) by blast
  qed
  ultimately show ?thesis using True by (auto simp: version_fate_def)
next
  case False
  then show ?thesis using incoming_None [of k d S "k r"] by (auto simp: version_fate_def)
qed

lemma history_versions:
  assumes "\<forall>r\<in>#T. \<not> cur (close r)" "\<forall>s\<in>set S. cur s"
  shows "{#r \<in># next_versions k d cur snapshot close T S. \<not> cur r#} =
    {#r \<in># T. \<not> cur r#} + image_mset close {#r \<in># T. version_fate k d cur snapshot (incoming k d S) r = Close#}"
proof -
  have "{#r \<in># {#r \<in># T. version_fate k d cur snapshot (incoming k d S) r \<noteq> Close#}. \<not> cur r#} = {#r \<in># T. \<not> cur r#}"
    unfolding filter_filter_mset by (rule filter_mset_cong) (auto simp: version_fate_def split: option.splits)
  moreover have "{#r \<in># image_mset close {#r \<in># T. version_fate k d cur snapshot (incoming k d S) r = Close#}. \<not> cur r#} =
    image_mset close {#r \<in># T. version_fate k d cur snapshot (incoming k d S) r = Close#}"
    using assms(1) by (simp add: filter_mset_eq_conv)
  moreover have "{#r \<in># mset (filter Q S). \<not> cur r#} = {#}" for Q
    using assms(2) by auto
  ultimately show ?thesis by (simp add: next_versions_def Let_def)
qed

lemma current_pairs:
  assumes "\<forall>r\<in>#T. \<not> cur (close r)" "\<forall>s\<in>set S. cur s" "distinct (map k S)"
  shows "(\<lambda>r. (k r, d r)) ` set_mset {#r \<in># next_versions k d cur snapshot close T S. cur r#} =
    (\<lambda>r. (k r, d r)) ` set S \<union>
    (if snapshot then {} else (\<lambda>r. (k r, d r)) ` {r. r \<in># T \<and> cur r \<and> k r \<notin> k ` set S})"
    (is "?L = ?R")
proof -
  let ?sd = "incoming k d S"
  let ?old = "{r. r \<in># T \<and> cur r \<and> (?sd (k r) = Some (d r) \<or> ?sd (k r) = None \<and> \<not> snapshot)}"
  have "set_mset {#r \<in># T. version_fate k d cur snapshot ?sd r = Current#} = ?old"
    by (auto simp: current_fate)
  then have L: "?L = (\<lambda>r. (k r, d r)) ` (?old \<union> {s. s \<in> set S \<and> k s \<notin> k ` ?old})"
    unfolding current_versions [OF assms(1,2)] set_mset_union set_mset_mset set_filter
    by (simp only: conj_commute)
  have found: "?sd (k s) = Some (d s)" if "s \<in> set S" for s
    using incoming_mem [OF assms(3)] that by blast
  show ?thesis
  proof (intro equalityI subsetI)
    fix p assume "p \<in> ?L"
    then obtain r where r: "p = (k r, d r)" "r \<in> ?old \<or> r \<in> set S" unfolding L by blast
    show "p \<in> ?R"
    proof (cases "r \<in> set S \<or> ?sd (k r) = Some (d r)")
      case True
      then obtain s where "s \<in> set S" "k s = k r" "d s = d r" using incoming_distinct [OF assms(3), of d "k r" "d r"] by blast
      then have "p = (k s, d s)" "s \<in> set S" using r(1) by simp_all
      then show ?thesis by blast
    next
      case False
      then have "r \<in># T" "cur r" "?sd (k r) = None" "\<not> snapshot" using r(2) by auto
      then show ?thesis using r(1) incoming_None [of k d S "k r"] by simp
    qed
  next
    fix p assume p: "p \<in> ?R"
    then consider s where "s \<in> set S" "p = (k s, d s)"
      | r where "\<not> snapshot" "r \<in># T" "cur r" "k r \<notin> k ` set S" "p = (k r, d r)"
      by (auto split: if_splits)
    then show "p \<in> ?L"
    proof cases
      case 1
      show ?thesis
      proof (cases "k s \<in> k ` ?old")
        case True
        then obtain r where r: "r \<in> ?old" "k r = k s" by (metis (no_types, lifting) imageE)
        then have "d r = d s" using found [OF 1(1)] by auto
        then show ?thesis unfolding L using r 1(2) by (metis (no_types, lifting) UnI1 image_eqI)
      next
        case False
        then show ?thesis unfolding L using 1 by blast
      qed
    next
      case 2
      then have "r \<in> ?old" using incoming_None [of k d S "k r"] by simp
      then show ?thesis unfolding L using 2(5) by blast
    qed
  qed
qed

lemma one_current_kept:
  assumes "\<forall>r\<in>#T. \<not> cur (close r)" "\<forall>s\<in>set S. cur s" "distinct (map k S)" "one_current k cur T"
  shows "one_current k cur (next_versions k d cur snapshot close T S)"
  unfolding one_current_def
proof
  fix x
  let ?old = "{#r \<in># T. version_fate k d cur snapshot (incoming k d S) r = Current#}"
  let ?new = "filter (\<lambda>r. k r \<notin> k ` set_mset ?old) S"
  have "?old \<subseteq># {#r \<in># T. cur r#}"
    by (rule filter_mset_mono_strong) (simp_all add: current_fate)
  then have "count (image_mset k ?old) x \<le> count (image_mset k {#r \<in># T. cur r#}) x"
    by (intro mset_subset_eq_count image_mset_subseteq_mono)
  moreover have "count (image_mset k {#r \<in># T. cur r#}) x \<le> 1"
    using assms(4) by (simp add: one_current_def)
  moreover have "count (mset (map k ?new)) x \<le> 1"
    using distinct_map_filter [OF assms(3), of "\<lambda>r. k r \<notin> k ` set_mset ?old"] unfolding distinct_count_atmost_1 by simp
  moreover have "count (image_mset k ?old) x = 0 \<or> count (mset (map k ?new)) x = 0"
  proof (cases "x \<in> k ` set_mset ?old")
    case True
    then obtain r where r: "x = k r" "r \<in># ?old" by blast
    have "x \<notin> set (map k ?new)" unfolding set_map set_filter using r by blast
    then show ?thesis by (simp only: count_mset_0_iff) simp
  next
    case False
    then show ?thesis by (simp add: count_eq_zero_iff)
  qed
  ultimately show "count (image_mset k {#r \<in># next_versions k d cur snapshot close T S. cur r#}) x \<le> 1"
    unfolding current_versions [OF assms(1,2)] by (auto simp: mset_map)
qed

text \<open>Loading the same rows again changes nothing: no version is closed and none is added.\<close>

lemma next_versions_again:
  assumes "\<forall>r\<in>#T. \<not> cur (close r)" "\<forall>s\<in>set S. cur s" "distinct (map k S)"
  shows "next_versions k d cur snapshot close' (next_versions k d cur snapshot close T S) S =
    next_versions k d cur snapshot close T S"
proof -
  let ?N = "next_versions k d cur snapshot close T S"
  let ?fate = "version_fate k d cur snapshot (incoming k d S)"
  have pairs: "(\<lambda>r. (k r, d r)) ` set_mset {#r \<in># ?N. cur r#} =
    (\<lambda>r. (k r, d r)) ` set S \<union>
    (if snapshot then {} else (\<lambda>r. (k r, d r)) ` {r. r \<in># T \<and> cur r \<and> k r \<notin> k ` set S})"
    using assms by (rule current_pairs)
  have fate: "?fate r = (if cur r then Current else History)" if "r \<in># ?N" for r
  proof (cases "cur r")
    case True
    then have "(k r, d r) \<in> (\<lambda>r. (k r, d r)) ` set_mset {#r \<in># ?N. cur r#}" using that by auto
    then have "incoming k d S (k r) = Some (d r) \<or> incoming k d S (k r) = None \<and> \<not> snapshot"
      unfolding pairs
    proof
      assume "(k r, d r) \<in> (\<lambda>r. (k r, d r)) ` set S"
      then obtain s where "s \<in> set S" "k r = k s" "d r = d s" by blast
      then show ?thesis using incoming_mem [OF assms(3), of s d] by simp
    next
      assume "(k r, d r) \<in> (if snapshot then {} else (\<lambda>r. (k r, d r)) ` {r. r \<in># T \<and> cur r \<and> k r \<notin> k ` set S})"
      then obtain q where "\<not> snapshot" "k r = k q" "k q \<notin> k ` set S" by (auto split: if_splits)
      then show ?thesis using incoming_None [of k d S "k q"] by simp
    qed
    then show ?thesis using True by (simp add: current_fate)
  qed (simp add: version_fate_def)
  have "{#r \<in># ?N. ?fate r \<noteq> Close#} = ?N"
    using fate by (simp add: filter_mset_eq_conv)
  moreover have "{#r \<in># ?N. ?fate r = Close#} = {#}"
    using fate by auto
  moreover have "filter (\<lambda>r. k r \<notin> k ` set_mset {#r \<in># ?N. ?fate r = Current#}) S = []"
  proof -
    have "k s \<in> k ` set_mset {#r \<in># ?N. ?fate r = Current#}" if "s \<in> set S" for s
    proof -
      have "(k s, d s) \<in> (\<lambda>r. (k r, d r)) ` set_mset {#r \<in># ?N. cur r#}"
        unfolding pairs using that by blast
      then obtain r where r: "r \<in># ?N" "cur r" "k r = k s" by auto
      then have "r \<in># {#r \<in># ?N. ?fate r = Current#}" using fate [OF r(1)] by simp
      then show ?thesis using r(3) by (metis image_eqI)
    qed
    then show ?thesis by (simp add: filter_empty_conv)
  qed
  ultimately show ?thesis
    unfolding next_versions_def [of k d cur snapshot close' ?N] Let_def by simp
qed



text \<open>The tables SCD2 works on: both sides with the same columns, among them the two flags, whose
  types are those the strategy declares; keys and data do not touch them.\<close>

definition scd2_layout :: "field list \<Rightarrow> scd2_options \<Rightarrow> nat list \<Rightarrow> nat list \<Rightarrow> nat \<Rightarrow> nat \<Rightarrow> bool" where
  "scd2_layout fs opts pks data ic vt \<longleftrightarrow>
     field_indices fs (so_primary_keys opts) = Inr pks \<and>
     field_indices fs (filter_strings (so_columns opts) (scd2_non_data_columns (so_primary_keys opts))) = Inr data \<and>
     field_index fs scd2_is_current = Some ic \<and> field_index fs scd2_valid_to = Some vt \<and>
     fl_type (fs ! ic) = ABool \<and> (\<exists>u z. fl_type (fs ! vt) = ATimestamp u z) \<and>
     ic < length fs \<and> ic \<noteq> vt \<and> ic \<notin> set pks \<and> vt \<notin> set pks"

definition is_current_row :: "nat \<Rightarrow> cell list \<Rightarrow> bool" where
  "is_current_row ic r \<longleftrightarrow> r ! ic = CBool True"

lemma scd2_fate_version:
  "fl_type (fs ! ic) = ABool \<Longrightarrow>
   scd2_fate lib opts sd fs pks data ic =
   version_fate (row_key lib fs pks) (row_key lib fs data) (is_current_row ic) (so_incremental_key opts = []) sd"
  by (rule ext) (simp add: scd2_fate_def version_fate_def bool_value_def is_current_row_def)

lemma staging_data_uniform:
  "uniform fs bs \<Longrightarrow> staging_data lib bs pks data = incoming (row_key lib fs pks) (row_key lib fs data) (all_rows bs)"
proof -
  assume "uniform fs bs"
  then have "concat (map (\<lambda>b. map (\<lambda>r. (row_key lib (rb_fields b) pks r, row_key lib (rb_fields b) data r)) (rb_rows b)) bs) =
    map (\<lambda>r. (row_key lib fs pks r, row_key lib fs data r)) (all_rows bs)"
    by (induction bs) simp_all
  then show ?thesis by (rule_tac ext) (simp add: staging_data_def incoming_def)
qed

lemma scd2_target_rows:
  assumes u: "uniform fs target" and l: "scd2_layout fs opts pks data ic vt"
    and c: "data_cols = filter_strings (so_columns opts) (scd2_non_data_columns (so_primary_keys opts))"
  shows "\<exists>out still. scd2_target lib opts data_cols sd target = Inr (out, still) \<and> uniform fs out \<and>
    mset (all_rows out) = {#r \<in># mset (all_rows target). scd2_fate lib opts sd fs pks data ic r \<noteq> Close#}
      + image_mset (close_row vt ic (so_timestamp opts)) {#r \<in># mset (all_rows target). scd2_fate lib opts sd fs pks data ic r = Close#} \<and>
    still = row_key lib fs pks ` set_mset {#r \<in># mset (all_rows target). scd2_fate lib opts sd fs pks data ic r = Current#}"
  using u
proof (induction target)
  case (Cons tb tbs)
  let ?fate = "scd2_fate lib opts sd fs pks data ic"
  let ?close = "close_row vt ic (so_timestamp opts)"
  obtain outs stills where IH: "scd2_target lib opts data_cols sd tbs = Inr (outs, stills)" "uniform fs outs"
    "mset (all_rows outs) = {#r \<in># mset (all_rows tbs). ?fate r \<noteq> Close#} + image_mset ?close {#r \<in># mset (all_rows tbs). ?fate r = Close#}"
    "stills = row_key lib fs pks ` set_mset {#r \<in># mset (all_rows tbs). ?fate r = Current#}"
    using Cons by auto
  have fs: "rb_fields tb = fs" using Cons.prems by simp
  obtain u z where ty: "fl_type (fs ! vt) = ATimestamp u z" using l by (auto simp: scd2_layout_def)
  have "\<exists>out. scd2_target_batch lib opts data_cols sd tb =
      Inr (out, row_key lib fs pks ` set (filter (\<lambda>r. ?fate r = Current) (rb_rows tb))) \<and> uniform fs out \<and>
      all_rows out = filter (\<lambda>r. ?fate r \<noteq> Close) (rb_rows tb) @ map ?close (filter (\<lambda>r. ?fate r = Close) (rb_rows tb))"
    using l ty unfolding scd2_layout_def c
    by (simp add: scd2_target_batch_def fs Let_def filter_batch_def close_scd2_rows_def)
  then obtain out where out: "scd2_target_batch lib opts data_cols sd tb =
      Inr (out, row_key lib fs pks ` set (filter (\<lambda>r. ?fate r = Current) (rb_rows tb)))" "uniform fs out"
      "all_rows out = filter (\<lambda>r. ?fate r \<noteq> Close) (rb_rows tb) @ map ?close (filter (\<lambda>r. ?fate r = Close) (rb_rows tb))"
    by blast
  have "scd2_target lib opts data_cols sd (tb # tbs) =
    Inr (out @ outs, row_key lib fs pks ` set (filter (\<lambda>r. ?fate r = Current) (rb_rows tb)) \<union> stills)"
    by (simp add: out(1) IH(1))
  moreover have "row_key lib fs pks ` set (filter (\<lambda>r. ?fate r = Current) (rb_rows tb)) \<union> stills =
    row_key lib fs pks ` set_mset {#r \<in># mset (all_rows (tb # tbs)). ?fate r = Current#}"
    unfolding IH(4) image_Un [symmetric] by (rule arg_cong [where f = "image _"]) auto
  moreover have "mset (all_rows (out @ outs)) = {#r \<in># mset (all_rows (tb # tbs)). ?fate r \<noteq> Close#}
      + image_mset ?close {#r \<in># mset (all_rows (tb # tbs)). ?fate r = Close#}"
    by (simp add: out(3) IH(3) mset_filter add_ac)
  ultimately show ?case using out(2) IH(2) by (metis uniform_simps(3))
qed simp

lemma scd2_batches_rows:
  assumes u: "uniform fs target" "uniform fs staging" "staging \<noteq> []" and l: "scd2_layout fs opts pks data ic vt"
  shows "\<exists>out. scd2_batches lib target staging opts = Inr out \<and> uniform fs out \<and>
    mset (all_rows out) =
      next_versions (row_key lib fs pks) (row_key lib fs data) (is_current_row ic) (so_incremental_key opts = [])
        (close_row vt ic (so_timestamp opts)) (mset (all_rows target)) (all_rows staging)"
proof -
  let ?cols = "filter_strings (so_columns opts) (scd2_non_data_columns (so_primary_keys opts))"
  let ?sd = "staging_data lib staging pks data"
  let ?fate = "scd2_fate lib opts ?sd fs pks data ic"
  obtain sb sbs where s: "staging = sb # sbs" using u(3) by (cases staging) auto
  obtain out still where o: "scd2_target lib opts ?cols ?sd target = Inr (out, still)" "uniform fs out"
    "mset (all_rows out) = {#r \<in># mset (all_rows target). ?fate r \<noteq> Close#}
      + image_mset (close_row vt ic (so_timestamp opts)) {#r \<in># mset (all_rows target). ?fate r = Close#}"
    "still = row_key lib fs pks ` set_mset {#r \<in># mset (all_rows target). ?fate r = Current#}"
    using scd2_target_rows [OF u(1) l refl, of lib ?sd] by blast
  have new: "uniform fs (concat (map (\<lambda>b. filter_batch (\<lambda>r. row_key lib (rb_fields b) pks r \<notin> still) b) bs)) \<and>
    all_rows (concat (map (\<lambda>b. filter_batch (\<lambda>r. row_key lib (rb_fields b) pks r \<notin> still) b) bs)) =
      filter (\<lambda>r. row_key lib fs pks r \<notin> still) (all_rows bs)" if "uniform fs bs" for bs
    using that by (induction bs) simp_all
  have fields: "rb_fields sb = fs" using u(2) s by simp
  have "scd2_batches lib target staging opts =
    Inr (out @ concat (map (\<lambda>b. filter_batch (\<lambda>r. row_key lib (rb_fields b) pks r \<notin> still) b) staging))"
    using l o(1) unfolding scd2_layout_def s scd2_batches_def by (simp add: fields Let_def)
  moreover have "?fate = version_fate (row_key lib fs pks) (row_key lib fs data) (is_current_row ic)
      (so_incremental_key opts = []) (incoming (row_key lib fs pks) (row_key lib fs data) (all_rows staging))"
    using l by (simp add: scd2_fate_version staging_data_uniform [OF u(2)] scd2_layout_def)
  ultimately show ?thesis
    using new [OF u(2)] o(2,3,4) by (simp add: next_versions_def Let_def)
qed




subsection \<open>Examples\<close>

definition plain_lib :: arrow_lib where
  "plain_lib = \<lparr>al_dec128_float = (\<lambda>i s. Finite (of_int i / 10 ^ nat s)), al_dec256_text = (\<lambda>i s. itoa i),
     al_float32_text = (\<lambda>f. ''f''), al_float64_text = (\<lambda>f. ''f'')\<rparr>"

definition mk_field :: "string \<Rightarrow> arrow_type \<Rightarrow> field" where
  "mk_field n t = \<lparr>fl_name = n, fl_type = t, fl_nullable = True\<rparr>"

definition id_name :: "field list" where
  "id_name = [mk_field ''id'' AInt64, mk_field ''name'' AString]"

definition batch :: "field list \<Rightarrow> cell list list \<Rightarrow> record_batch" where
  "batch fs rows = \<lparr>rb_fields = fs, rb_rows = rows\<rparr>"

lemmas example_defs = plain_lib_def mk_field_def id_name_def batch_def

definition old_names :: "record_batch list" where
  "old_names = [batch id_name [[CInt 1, CText ''a''], [CInt 2, CText ''b'']], batch id_name [[CInt 3, CText ''c'']]]"

definition new_names :: "record_batch list" where
  "new_names = [batch id_name [[CInt 2, CText ''B''], [CInt 4, CText ''d'']]]"


definition by_day :: "field list" where
  "by_day = [mk_field ''id'' AInt64, mk_field ''day'' (ATimestamp UMicro ''UTC'')]"

definition day_reload :: delete_insert_options where
  "day_reload = \<lparr>di_key = ''day'', di_key_type = TypeTimestampTZ, di_start = VTime 2000, di_end = VTime 4999\<rparr>"


definition person :: "field list" where
  "person = [mk_field ''id'' AInt64, mk_field ''name'' AString, mk_field ''_scd_valid_from'' (ATimestamp UMicro ''UTC''),
     mk_field ''_scd_valid_to'' (ATimestamp UMicro ''UTC''), mk_field ''_scd_is_current'' ABool]"

definition snapshot_load :: "gotime \<Rightarrow> scd2_options" where
  "snapshot_load t = \<lparr>so_primary_keys = [''id''], so_columns = [''id'', ''name''], so_incremental_key = [], so_timestamp = t\<rparr>"

definition version :: "int \<Rightarrow> string \<Rightarrow> int \<Rightarrow> cell \<Rightarrow> bool \<Rightarrow> cell list" where
  "version i n since until c = [CInt i, CText n, CInt since, until, CBool c]"

definition old_persons :: "record_batch list" where
  "old_persons = [batch person [version 1 ''a'' 1 (CInt 2) False, version 1 ''A'' 2 Null True,
     version 2 ''b'' 1 Null True, version 3 ''c'' 1 Null True]]"

definition new_persons :: "record_batch list" where
  "new_persons = [batch person [version 1 ''A'' 5 Null True, version 2 ''B'' 5 Null True, version 4 ''d'' 5 Null True]]"

lemma person_layout: "scd2_layout person (snapshot_load t) [0] [1] 4 3"
proof -
  have "field_indices person [''id''] = Inr [0]" "field_indices person [''name''] = Inr [1]"
    "field_index person scd2_is_current = Some 4" "field_index person scd2_valid_to = Some 3"
    "filter_strings [''id'', ''name''] (scd2_non_data_columns [''id'']) = [''name'']"
    by code_simp+
  then show ?thesis by (simp add: scd2_layout_def snapshot_load_def) (simp add: person_def example_defs)
qed

lemma version_keys:
  "row_key plain_lib person [0] (version i n since until c) = itoa i"
  "row_key plain_lib person [1] (version i n since until c) = n"
  "row_key plain_lib person [Suc 0] (version i n since until c) = n"
  "is_current_row 4 (version i n since until c) = c"
  "close_row 3 4 t (version i n since until c) = version i n since (CInt (t div microsecond)) False"
  by (simp_all add: row_key_def person_def mk_field_def version_def cell_string_plain is_current_row_def close_row_def)

lemma small_numbers: "itoa 1 = ''1''" "itoa 2 = ''2''" "itoa 3 = ''3''" "itoa 4 = ''4''"
  by code_simp+



subsection \<open>Where a text stands for more than one value\<close>

text \<open>Staging rows of one key are all kept: nothing chooses among them, whatever the incremental key.\<close>

lemma merge_keeps_duplicate_keys:
  "\<exists>out. merge_batches plain_lib [] [batch id_name [[CInt 1, CText ''old''], [CInt 1, CText ''new'']]] [''id''] = Inr out \<and>
     all_rows out = [[CInt 1, CText ''old''], [CInt 1, CText ''new'']]"
proof -
  have "field_indices id_name [''id''] = Inr [0]" by code_simp
  then show ?thesis by (simp add: merge_batches_def batch_def)
qed

text \<open>Two composite keys with the same joined text: the row of the one is dropped for the other.\<close>

definition two_names :: "field list" where
  "two_names = [mk_field ''a'' AString, mk_field ''b'' AString]"

lemma merge_drops_other_key:
  "\<exists>out. merge_batches plain_lib [batch two_names [[CText ''x'', CText (key_sep # ''y'')]]]
       [batch two_names [[CText (''x'' @ [key_sep]), CText ''y'']]] [''a'', ''b''] = Inr out \<and>
     all_rows out = [[CText (''x'' @ [key_sep]), CText ''y'']]"
proof -
  have i: "field_indices two_names [''a'', ''b''] = Inr [0, 1]" by code_simp
  have "row_key plain_lib two_names [0, 1] [CText ''x'', CText (key_sep # ''y'')] =
    row_key plain_lib two_names [0, 1] [CText (''x'' @ [key_sep]), CText ''y'']"
    by (simp add: row_key_def two_names_def mk_field_def cell_string_plain)
  then show ?thesis
    using merge_batches_rows [of two_names "[batch two_names [[CText ''x'', CText (key_sep # ''y'')]]]"
        "[batch two_names [[CText (''x'' @ [key_sep]), CText ''y'']]]", OF _ _ i, of plain_lib]
    by (auto simp: batch_def upsert_def)
qed

text \<open>The text that stands for NULL is also that of a value.\<close>

lemma null_text_is_a_value:
  "cell_string lib AString Null = cell_string lib AString (CText null_text)" "CText null_text \<noteq> Null"
  by (simp_all add: cell_string_plain)

text \<open>A 64-bit key beyond \<open>2 ^ 53\<close> is rounded: a row outside the interval is deleted.\<close>

lemma delete_insert_rounds_key:
  fixes opts
  defines "opts \<equiv> \<lparr>di_key = ''id'', di_key_type = TypeInt64, di_start = VInt64 1, di_end = VInt64 9007199254740992\<rparr>"
  shows "in_interval lib opts AInt64 (CInt 9007199254740993)"
    and "\<not> in_range lib TypeInt64 1 9007199254740992 AInt64 (CInt 9007199254740993)"
proof -
  have f: "float64_of_int 9007199254740993 = 9007199254740992" "float64_of_int 9007199254740992 = 9007199254740992"
    "float64_of_int 1 = 1"
    by (simp_all add: float64_of_int_def round_half_even_def float_shift.simps Let_def)
  show "in_interval lib opts AInt64 (CInt 9007199254740993)"
    by (simp add: opts_def in_interval_def cell_canonical_def canonical_interval_number [where n = 9007199254740993]
        canonical_interval_number [where n = 9007199254740992] canonical_interval_number [where n = 1] canonical_cmp_ints f)
  show "\<not> in_range lib TypeInt64 1 9007199254740992 AInt64 (CInt 9007199254740993)"
    by (simp add: in_range_def)
qed

text \<open>A list has no text: a change of a list, or of a list to NULL, closes no version.\<close>

lemma lists_look_alike: "cell_string lib (AList t) (CList xs) = cell_string lib (AList t) Null"
  by (simp add: cell_string_def)

text \<open>A snapshot that stages nothing closes no version.\<close>

lemma empty_snapshot_closes_nothing: "scd2_batches lib target [] opts = Inr target"
  by (simp add: scd2_batches_def)

end
