(* ===== verification/Strategy_Interval.thy ===== *)
theory Strategy_Interval
  imports Onelake_Loads "HOL-Library.List_Lexorder" "HOL-Library.Product_Lexorder"
begin

text \<open>
  \<^verbatim>\<open>pkg/strategy/interval_tracker.go\<close> and the helpers of \<^verbatim>\<open>delete_insert.go\<close>: the delete+insert strategy
  watches the records that pass and keeps the least and the greatest value of the incremental key;
  where the user gives no interval, these are the bounds of what is deleted from the target.
\<close>

subsection \<open>The tracker\<close>

record interval_tracker =
  it_key :: string
  it_min :: go_value
  it_max :: go_value
  it_col_index :: int
  it_found :: bool

definition new_interval_tracker :: "string \<Rightarrow> interval_tracker" where
  "new_interval_tracker key = \<lparr>it_key = key, it_min = VNil, it_max = VNil, it_col_index = -1, it_found = False\<rparr>"

text \<open>\<open>extractValue\<close>: \<open>nil\<close> for the types its switch does not name (8-bit integers, \<open>uint16\<close>, booleans,
  times of day and more). The conversion of a 256-bit decimal to a float belongs to Arrow.\<close>

fun extract_value :: "arrow_lib \<Rightarrow> (int \<Rightarrow> int \<Rightarrow> go_float) \<Rightarrow> arrow_type \<Rightarrow> cell \<Rightarrow> go_value" where
  "extract_value lib dec256 t (CInt i) =
     (case t of
        AInt64 \<Rightarrow> VInt64 i | AInt32 \<Rightarrow> VInt64 i | AInt16 \<Rightarrow> VInt64 i
      | AUint64 \<Rightarrow> VInt64 (wrap64 i) | AUint32 \<Rightarrow> VInt64 i
      | ADecimal128 p s \<Rightarrow> VFloat64 (al_dec128_float lib i s) | ADecimal256 p s \<Rightarrow> VFloat64 (dec256 i s)
      | ATimestamp u z \<Rightarrow> VTime (timestamp_micro i) | ADate32 \<Rightarrow> VTime (date32_time i) | ADate64 \<Rightarrow> VTime (date64_time i)
      | _ \<Rightarrow> VNil)"
| "extract_value lib dec256 t (CFloat f) = (case t of AFloat64 \<Rightarrow> VFloat64 f | AFloat32 \<Rightarrow> VFloat64 f | _ \<Rightarrow> VNil)"
| "extract_value lib dec256 t (CText s) = (case t of AString \<Rightarrow> VString s | ALargeString \<Rightarrow> VString s | _ \<Rightarrow> VNil)"
| "extract_value lib dec256 t c = VNil"

text \<open>\<open>compareValues\<close>; \<open>None\<close> where the second value is of another type, which makes the type assertion
  panic. Comparing a float with NaN is false both ways.\<close>

fun float_less :: "go_float \<Rightarrow> go_float \<Rightarrow> bool" where
  "float_less NaN b = False"
| "float_less a NaN = False"
| "float_less NegInf b = (b \<noteq> NegInf)"
| "float_less a NegInf = False"
| "float_less PosInf b = False"
| "float_less a PosInf = True"
| "float_less (Finite p) (Finite q) = (p < q)"
| "float_less (Finite p) NegZero = (p < 0)"
| "float_less NegZero (Finite q) = (0 < q)"
| "float_less NegZero NegZero = False"

definition three_way :: "bool \<Rightarrow> bool \<Rightarrow> int" where
  "three_way lt gt = (if lt then -1 else if gt then 1 else 0)"

fun compare_values :: "go_value \<Rightarrow> go_value \<Rightarrow> int option" where
  "compare_values (VInt64 a) b = (case b of VInt64 b \<Rightarrow> Some (three_way (a < b) (b < a)) | _ \<Rightarrow> None)"
| "compare_values (VFloat64 a) b = (case b of VFloat64 b \<Rightarrow> Some (three_way (float_less a b) (float_less b a)) | _ \<Rightarrow> None)"
| "compare_values (VString a) b =
     (case b of VString b \<Rightarrow> Some (three_way (string_compare a b < 0) (string_compare b a < 0)) | _ \<Rightarrow> None)"
| "compare_values (VTime a) b = (case b of VTime b \<Rightarrow> Some (three_way (a < b) (b < a)) | _ \<Rightarrow> None)"
| "compare_values a b = Some 0"

text \<open>\<open>updateBounds\<close>: find the column, unless the one found before still has the name, then go through
  its values. \<open>None\<close> is a panic.\<close>

definition locate_column :: "record_batch \<Rightarrow> interval_tracker \<Rightarrow> interval_tracker" where
  "locate_column b t =
     (let fs = rb_fields b
      in if \<not> it_found t \<or> it_col_index t < 0 \<or> it_col_index t \<ge> int (length fs)
            \<or> fl_name (fs ! nat (it_col_index t)) \<noteq> it_key t
         then (case index_where (\<lambda>f. fl_name f = it_key t) fs of
                 None \<Rightarrow> t\<lparr>it_col_index := -1, it_found := False\<rparr>
               | Some i \<Rightarrow> t\<lparr>it_col_index := int i, it_found := True\<rparr>)
         else t)"

definition note_value :: "go_value \<Rightarrow> interval_tracker \<Rightarrow> interval_tracker option" where
  "note_value v t =
     (case (if it_min t = VNil then Some (-1) else compare_values v (it_min t)) of
        None \<Rightarrow> None
      | Some lo \<Rightarrow>
          (let t1 = (if lo < 0 then t\<lparr>it_min := v\<rparr> else t)
           in case (if it_max t1 = VNil then Some 1 else compare_values v (it_max t1)) of
                None \<Rightarrow> None
              | Some hi \<Rightarrow> Some (if hi > 0 then t1\<lparr>it_max := v\<rparr> else t1)))"

fun note_values :: "go_value list \<Rightarrow> interval_tracker \<Rightarrow> interval_tracker option" where
  "note_values [] t = Some t"
| "note_values (v # vs) t =
     (if v = VNil then note_values vs t
      else (case note_value v t of None \<Rightarrow> None | Some t' \<Rightarrow> note_values vs t'))"

definition update_bounds ::
  "arrow_lib \<Rightarrow> (int \<Rightarrow> int \<Rightarrow> go_float) \<Rightarrow> record_batch \<Rightarrow> interval_tracker \<Rightarrow> interval_tracker option" where
  "update_bounds lib dec256 b t0 =
     (let t = locate_column b t0
      in if \<not> it_found t \<or> it_col_index t < 0 then Some t
         else (let i = nat (it_col_index t)
               in note_values (map (\<lambda>r. if r ! i = Null then VNil else extract_value lib dec256 (fl_type (rb_fields b ! i)) (r ! i))
                    (rb_rows b)) t))"

text \<open>\<open>Wrap\<close>: the bounds after the batches of a stream have passed.\<close>

fun track :: "arrow_lib \<Rightarrow> (int \<Rightarrow> int \<Rightarrow> go_float) \<Rightarrow> record_batch list \<Rightarrow> interval_tracker \<Rightarrow> interval_tracker option" where
  "track lib dec256 [] t = Some t"
| "track lib dec256 (b # bs) t =
     (case update_bounds lib dec256 b t of None \<Rightarrow> None | Some t' \<Rightarrow> track lib dec256 bs t')"

subsection \<open>The bounds of a load\<close>

text \<open>\<open>resolveSchemaColumn\<close>, \<open>resolveIntervalBound\<close> and \<open>toDateOnly\<close>; a pointer to a time that the user
  gave is the time.\<close>

definition resolve_schema_column :: "table_schema option \<Rightarrow> string \<Rightarrow> string \<times> data_type" where
  "resolve_schema_column ts name =
     (case ts of
        None \<Rightarrow> (name, TypeUnknown)
      | Some s \<Rightarrow>
          (case find (\<lambda>c. c_name c = name) (ts_columns s) of
             Some c \<Rightarrow> (c_name c, c_type c)
           | None \<Rightarrow>
               (case find (\<lambda>c. equal_fold (c_name c) name) (ts_columns s) of
                  Some c \<Rightarrow> (c_name c, c_type c)
                | None \<Rightarrow> (name, TypeUnknown))))"

definition resolve_interval_bound :: "gotime option \<Rightarrow> go_value \<Rightarrow> go_value" where
  "resolve_interval_bound user detected = (case user of Some t \<Rightarrow> VTime t | None \<Rightarrow> detected)"

fun to_date_only :: "go_value \<Rightarrow> go_value" where
  "to_date_only (VTime t) = VString (format_date t)"
| "to_date_only v = v"

text \<open>The type the key is compared as: a text key that is a date or a timestamp at the source is taken
  for one.\<close>

definition incremental_key_type :: "table_schema option \<Rightarrow> table_schema option \<Rightarrow> string \<Rightarrow> data_type" where
  "incremental_key_type schema source key =
     (let t = snd (resolve_schema_column schema key); s = snd (resolve_schema_column source key)
      in if source \<noteq> None \<and> (t = TypeString \<or> t = TypeUnknown) \<and> (s = TypeDate \<or> s = TypeTimestamp \<or> s = TypeTimestampTZ)
         then s else t)"

text \<open>\<open>sourceIncrementalKeyForRead\<close>; the renames are a Go map, in the order in which it is gone through.\<close>

definition source_incremental_key_for_read :: "string \<Rightarrow> table_schema option \<Rightarrow> (string \<times> string) list \<Rightarrow> string" where
  "source_incremental_key_for_read key source renames =
     (let declared = (case source of None \<Rightarrow> [] | Some s \<Rightarrow> ts_incremental_key s);
          source_key =
            (if declared \<noteq> [] then declared
             else (case find (\<lambda>(src, dst). dst = key \<or> equal_fold dst key) renames of
                     Some (src, _) \<Rightarrow> src | None \<Rightarrow> key))
      in fst (resolve_schema_column source source_key))"

subsection \<open>The bounds are the least and the greatest key\<close>

text \<open>Values that can be compared with each other: any order that is total on them will do.\<close>

locale value_kind =
  fixes kind :: "go_value set" and rank :: "go_value \<Rightarrow> 'r :: linorder"
  assumes compares: "a \<in> kind \<Longrightarrow> b \<in> kind \<Longrightarrow> compare_values a b = Some (three_way (rank a < rank b) (rank b < rank a))"
    and not_nil: "VNil \<notin> kind"
begin

definition spans :: "interval_tracker \<Rightarrow> go_value set \<Rightarrow> bool" where
  "spans t vs \<longleftrightarrow>
     (if vs = {} then it_min t = VNil \<and> it_max t = VNil
      else it_min t \<in> vs \<and> it_max t \<in> vs \<and> (\<forall>v\<in>vs. rank (it_min t) \<le> rank v \<and> rank v \<le> rank (it_max t)))"

lemma note_value_spans:
  assumes t: "spans t vs" "vs \<subseteq> kind" and v: "v \<in> kind"
  shows "\<exists>t'. note_value v t = Some t' \<and> spans t' (insert v vs) \<and>
    it_key t' = it_key t \<and> it_col_index t' = it_col_index t \<and> it_found t' = it_found t"
proof (cases "vs = {}")
  case True
  then have nil: "it_min t = VNil" "it_max t = VNil" using t by (simp_all add: spans_def)
  have "v \<noteq> VNil" using v not_nil by blast
  then show ?thesis using True nil by (auto simp: note_value_def spans_def)
next
  case False
  then have k: "it_min t \<in> kind" "it_max t \<in> kind" using t by (auto simp: spans_def)
  then have "it_min t \<noteq> VNil" "it_max t \<noteq> VNil" using not_nil by auto
  then show ?thesis
    using False t(1) compares [OF v k(1)] compares [OF v k(2)]
    by (auto simp: note_value_def spans_def three_way_def Let_def not_less intro: order_trans)
qed

lemma note_values_spans:
  assumes "spans t vs" "vs \<subseteq> kind" "set xs - {VNil} \<subseteq> kind"
  shows "\<exists>t'. note_values xs t = Some t' \<and> spans t' (vs \<union> (set xs - {VNil})) \<and>
    it_key t' = it_key t \<and> it_col_index t' = it_col_index t \<and> it_found t' = it_found t"
  using assms
proof (induction xs arbitrary: t vs)
  case (Cons x xs)
  show ?case
  proof (cases "x = VNil")
    case True
    then show ?thesis using Cons.IH [of t vs] Cons.prems by auto
  next
    case False
    then have "x \<in> kind" using Cons.prems(3) by auto
    then obtain t' where t': "note_value x t = Some t'" "spans t' (insert x vs)"
      "it_key t' = it_key t" "it_col_index t' = it_col_index t" "it_found t' = it_found t"
      using note_value_spans [OF Cons.prems(1,2)] by blast
    moreover have "insert x vs \<subseteq> kind" "set xs - {VNil} \<subseteq> kind" using Cons.prems(2,3) \<open>x \<in> kind\<close> by auto
    ultimately show ?thesis using False Cons.IH [of t' "insert x vs"] by (auto simp: insert_Diff_if)
  qed
qed simp

end

text \<open>The values of the key in a batch: those of the first column of exactly that name.\<close>

definition key_values :: "arrow_lib \<Rightarrow> (int \<Rightarrow> int \<Rightarrow> go_float) \<Rightarrow> string \<Rightarrow> record_batch \<Rightarrow> go_value set" where
  "key_values lib dec256 key b =
     (case index_where (\<lambda>f. fl_name f = key) (rb_fields b) of
        None \<Rightarrow> {}
      | Some i \<Rightarrow> (\<lambda>r. if r ! i = Null then VNil else extract_value lib dec256 (fl_type (rb_fields b ! i)) (r ! i)) ` set (rb_rows b) - {VNil})"

definition key_values_of :: "arrow_lib \<Rightarrow> (int \<Rightarrow> int \<Rightarrow> go_float) \<Rightarrow> string \<Rightarrow> record_batch list \<Rightarrow> go_value set" where
  "key_values_of lib dec256 key bs = (\<Union>b\<in>set bs. key_values lib dec256 key b)"

lemma index_where_first:
  "index_where P xs = Some i \<Longrightarrow> i < length xs \<and> P (xs ! i) \<and> (\<forall>j<i. \<not> P (xs ! j))"
  by (induction xs arbitrary: i) (auto simp: nth_Cons' split: if_splits)

lemma index_where_no: "index_where P xs = None \<Longrightarrow> i < length xs \<Longrightarrow> \<not> P (xs ! i)"
  by (induction xs arbitrary: i) (auto simp: nth_Cons' split: if_splits)

lemma index_of_name:
  assumes "distinct (map fl_name fs)" "i < length fs" "fl_name (fs ! i) = key"
  shows "index_where (\<lambda>f. fl_name f = key) fs = Some i"
proof (cases "index_where (\<lambda>f. fl_name f = key) fs")
  case None
  then show ?thesis using index_where_no [OF None assms(2)] assms(3) by simp
next
  case (Some j)
  note j = index_where_first [OF Some]
  have "map fl_name fs ! i = map fl_name fs ! j" using assms(2,3) j by simp
  then show ?thesis using Some assms(1,2) j by (simp add: nth_eq_iff_index_eq del: nth_map)
qed

lemma locate_column_found:
  assumes "distinct (map fl_name (rb_fields b))"
  shows "\<exists>t'. locate_column b t = t' \<and> it_key t' = it_key t \<and> it_min t' = it_min t \<and> it_max t' = it_max t \<and>
    (case index_where (\<lambda>f. fl_name f = it_key t) (rb_fields b) of
       None \<Rightarrow> \<not> it_found t' | Some i \<Rightarrow> it_found t' \<and> it_col_index t' = int i)"
proof (cases "\<not> it_found t \<or> it_col_index t < 0 \<or> it_col_index t \<ge> int (length (rb_fields b))
    \<or> fl_name (rb_fields b ! nat (it_col_index t)) \<noteq> it_key t")
  case True
  then show ?thesis by (auto simp: locate_column_def Let_def split: option.split)
next
  case False
  then have "index_where (\<lambda>f. fl_name f = it_key t) (rb_fields b) = Some (nat (it_col_index t))"
    by (intro index_of_name [OF assms]) auto
  then show ?thesis using False by (simp add: locate_column_def)
qed

context value_kind
begin

lemma update_bounds_spans:
  assumes t: "spans t vs" "vs \<subseteq> kind" and b: "distinct (map fl_name (rb_fields b))"
    and k: "key_values lib dec256 (it_key t) b \<subseteq> kind"
  shows "\<exists>t'. update_bounds lib dec256 b t = Some t' \<and> it_key t' = it_key t \<and>
    spans t' (vs \<union> key_values lib dec256 (it_key t) b)"
proof -
  obtain t1 where t1: "locate_column b t = t1" "it_key t1 = it_key t" "it_min t1 = it_min t" "it_max t1 = it_max t"
    "case index_where (\<lambda>f. fl_name f = it_key t) (rb_fields b) of
       None \<Rightarrow> \<not> it_found t1 | Some i \<Rightarrow> it_found t1 \<and> it_col_index t1 = int i"
    using locate_column_found [OF b] by blast
  have s1: "spans t1 vs" using t(1) t1(3,4) by (simp add: spans_def)
  show ?thesis
  proof (cases "index_where (\<lambda>f. fl_name f = it_key t) (rb_fields b)")
    case None
    then show ?thesis using t1 s1 by (auto simp: update_bounds_def key_values_def Let_def)
  next
    case (Some i)
    let ?xs = "map (\<lambda>r. if r ! i = Null then VNil else extract_value lib dec256 (fl_type (rb_fields b ! i)) (r ! i)) (rb_rows b)"
    have xs: "set ?xs - {VNil} = key_values lib dec256 (it_key t) b" using Some by (simp add: key_values_def)
    then obtain t' where "note_values ?xs t1 = Some t'" "spans t' (vs \<union> (set ?xs - {VNil}))" "it_key t' = it_key t1"
      using note_values_spans [OF s1 t(2), of ?xs] k by auto
    then show ?thesis using t1 Some xs by (auto simp: update_bounds_def Let_def)
  qed
qed

lemma track_spans:
  assumes "spans t vs" "vs \<subseteq> kind" "\<forall>b\<in>set bs. distinct (map fl_name (rb_fields b))"
    "key_values_of lib dec256 (it_key t) bs \<subseteq> kind"
  shows "\<exists>t'. track lib dec256 bs t = Some t' \<and> spans t' (vs \<union> key_values_of lib dec256 (it_key t) bs)"
  using assms
proof (induction bs arbitrary: t vs)
  case (Cons b bs)
  have k: "key_values lib dec256 (it_key t) b \<subseteq> kind" "key_values_of lib dec256 (it_key t) bs \<subseteq> kind"
    using Cons.prems(4) by (auto simp: key_values_of_def)
  obtain t1 where t1: "update_bounds lib dec256 b t = Some t1" "it_key t1 = it_key t"
    "spans t1 (vs \<union> key_values lib dec256 (it_key t) b)"
    using update_bounds_spans [OF Cons.prems(1,2) _ k(1)] Cons.prems(3) by auto
  then obtain t' where "track lib dec256 bs t1 = Some t'"
    "spans t' (vs \<union> key_values lib dec256 (it_key t) b \<union> key_values_of lib dec256 (it_key t) bs)"
    using Cons.IH [of t1 "vs \<union> key_values lib dec256 (it_key t) b"] Cons.prems k by auto
  then show ?case using t1 by (simp add: key_values_of_def Un_assoc)
qed (simp add: key_values_of_def)

lemma tracked_bounds:
  assumes "\<forall>b\<in>set bs. distinct (map fl_name (rb_fields b))" "key_values_of lib dec256 key bs \<subseteq> kind"
  shows "\<exists>t. track lib dec256 bs (new_interval_tracker key) = Some t \<and> spans t (key_values_of lib dec256 key bs)"
  using track_spans [of "new_interval_tracker key" "{}" bs lib dec256] assms
  by (simp add: spans_def new_interval_tracker_def)

lemma spans_compare:
  assumes "spans t vs" "vs \<subseteq> kind" "v \<in> vs"
  shows "\<exists>lo hi. compare_values (it_min t) v = Some lo \<and> lo \<le> 0 \<and> compare_values (it_max t) v = Some hi \<and> 0 \<le> hi"
proof -
  have "it_min t \<in> kind" "it_max t \<in> kind" "v \<in> kind" using assms by (auto simp: spans_def split: if_splits)
  then show ?thesis using assms compares by (auto simp: spans_def three_way_def not_less split: if_splits)
qed

lemma detected:
  assumes "\<forall>b\<in>set bs. distinct (map fl_name (rb_fields b))" "key_values_of lib dec256 key bs \<subseteq> kind"
  shows "\<exists>t. track lib dec256 bs (new_interval_tracker key) = Some t \<and>
    (if key_values_of lib dec256 key bs = {} then it_min t = VNil \<and> it_max t = VNil
     else it_min t \<in> key_values_of lib dec256 key bs \<and> it_max t \<in> key_values_of lib dec256 key bs) \<and>
    (\<forall>v\<in>key_values_of lib dec256 key bs. \<exists>lo hi. compare_values (it_min t) v = Some lo \<and> lo \<le> 0 \<and>
       compare_values (it_max t) v = Some hi \<and> 0 \<le> hi)"
proof -
  from tracked_bounds [OF assms] obtain t where t: "track lib dec256 bs (new_interval_tracker key) = Some t"
    "spans t (key_values_of lib dec256 key bs)" by blast
  then show ?thesis using spans_compare [OF t(2) assms(2)] by (auto simp: spans_def split: if_splits)
qed

end

fun int_rank :: "go_value \<Rightarrow> int" where
  "int_rank (VInt64 i) = i" | "int_rank (VTime t) = t" | "int_rank v = 0"

fun text_rank :: "go_value \<Rightarrow> nat list" where
  "text_rank (VString s) = map of_char s" | "text_rank v = []"

fun float_rank :: "go_value \<Rightarrow> int \<times> rat" where
  "float_rank (VFloat64 NegInf) = (-1, 0)"
| "float_rank (VFloat64 (Finite q)) = (0, q)"
| "float_rank (VFloat64 PosInf) = (1, 0)"
| "float_rank v = (0, 0)"

lemma string_compare_rank: "string_compare s t < 0 \<longleftrightarrow> map of_char s < (map of_char t :: nat list)"
  by (induction s t rule: string_compare.induct) auto

lemma float_less_rank:
  "a \<noteq> NaN \<Longrightarrow> b \<noteq> NaN \<Longrightarrow> float_less a b \<longleftrightarrow> float_rank (VFloat64 a) < float_rank (VFloat64 b)"
  by (cases a; cases b) auto

interpretation integers: value_kind "range VInt64" int_rank
  by unfold_locales auto

interpretation instants: value_kind "range VTime" int_rank
  by unfold_locales auto

interpretation texts: value_kind "range VString" text_rank
  by unfold_locales (auto simp: string_compare_rank)

interpretation floats: value_kind "VFloat64 ` (- {NaN})" float_rank
proof
  fix a b assume "a \<in> VFloat64 ` (- {NaN})" "b \<in> VFloat64 ` (- {NaN})"
  then obtain x y where "a = VFloat64 x" "b = VFloat64 y" "x \<noteq> NaN" "y \<noteq> NaN" by blast
  then show "compare_values a b = Some (three_way (float_rank a < float_rank b) (float_rank b < float_rank a))"
    by (simp add: float_less_rank)
qed auto

definition one_kind :: "go_value set \<Rightarrow> bool" where
  "one_kind vs \<longleftrightarrow> vs \<subseteq> range VInt64 \<or> vs \<subseteq> range VTime \<or> vs \<subseteq> range VString \<or> vs \<subseteq> VFloat64 ` (- {NaN})"

text \<open>The bounds that the delete+insert strategy detects are the least and the greatest value of the
  incremental key among the records that passed, in whatever order and batches they came: both are
  values of the key, every value lies between them, and there are none exactly when no record has a
  value that the tracker can read. For integers, instants, texts and floats without NaN.\<close>

lemma detected_bounds:
  assumes "\<forall>b\<in>set bs. distinct (map fl_name (rb_fields b))" "one_kind (key_values_of lib dec256 key bs)"
  shows "\<exists>t. track lib dec256 bs (new_interval_tracker key) = Some t \<and>
    (if key_values_of lib dec256 key bs = {} then it_min t = VNil \<and> it_max t = VNil
     else it_min t \<in> key_values_of lib dec256 key bs \<and> it_max t \<in> key_values_of lib dec256 key bs) \<and>
    (\<forall>v\<in>key_values_of lib dec256 key bs. \<exists>lo hi. compare_values (it_min t) v = Some lo \<and> lo \<le> 0 \<and>
       compare_values (it_max t) v = Some hi \<and> 0 \<le> hi)"
proof -
  let ?vs = "key_values_of lib dec256 key bs"
  consider "?vs \<subseteq> range VInt64" | "?vs \<subseteq> range VTime" | "?vs \<subseteq> range VString" | "?vs \<subseteq> VFloat64 ` (- {NaN})"
    using assms(2) unfolding one_kind_def by blast
  then show ?thesis
    by cases (erule integers.detected [OF assms(1)] instants.detected [OF assms(1)] texts.detected [OF assms(1)]
        floats.detected [OF assms(1)])+
qed

subsection \<open>What a detected interval deletes\<close>

text \<open>A key of whole numbers or of timestamps, as the tracker and the destination read it.\<close>

definition counted_key :: "data_type \<Rightarrow> arrow_type \<Rightarrow> bool" where
  "counted_key kt ty \<longleftrightarrow>
     kt \<in> {TypeInt16, TypeInt32, TypeInt64} \<and> ty \<in> {AInt16, AInt32, AInt64} \<or>
     kt \<in> {TypeTimestamp, TypeTimestampTZ} \<and> (\<exists>u z. ty = ATimestamp u z)"

definition exact_cell :: "cell \<Rightarrow> bool" where
  "exact_cell c \<longleftrightarrow> c = Null \<or> (\<exists>n. c = CInt n \<and> exact_number n)"

lemma counted_key_number:
  assumes "counted_key kt ty"
  shows "interval_number kt (arrow_value lib ty (CInt n)) = Some n" "interval_number kt (extract_value lib dec256 ty (CInt n)) = Some n"
  using assms by (auto simp: counted_key_def timestamp_micro_def microsecond_def)

lemma counted_key_values:
  assumes "counted_key kt ty"
  shows "one_kind ((\<lambda>c. extract_value lib dec256 ty c) ` (CInt ` N))" "VNil \<notin> (\<lambda>c. extract_value lib dec256 ty c) ` (CInt ` N)"
    "extract_value lib dec256 ty (CInt a) = extract_value lib dec256 ty (CInt b) \<Longrightarrow> a = b"
  using assms by (auto simp: counted_key_def one_kind_def timestamp_micro_def microsecond_def)

lemma counted_key_compare:
  assumes "counted_key kt ty"
  shows "compare_values (extract_value lib dec256 ty (CInt a)) (extract_value lib dec256 ty (CInt b)) = Some (three_way (a < b) (b < a))"
  using assms by (auto simp: counted_key_def timestamp_micro_def microsecond_def)

lemma counted_key_values_of:
  assumes u: "uniform fs bs" and i: "index_where (\<lambda>f. fl_name f = key) fs = Some i"
    and key: "counted_key kt (fl_type (fs ! i))" and cells: "\<forall>r\<in>set (all_rows bs). exact_cell (r ! i)"
  shows "key_values_of lib dec256 key bs =
    (\<lambda>c. extract_value lib dec256 (fl_type (fs ! i)) c) ` (CInt ` {n. \<exists>r\<in>set (all_rows bs). r ! i = CInt n})"
  using u cells
proof (induction bs)
  case (Cons b bs)
  then have b: "rb_fields b = fs" "uniform fs bs" "\<forall>r\<in>set (rb_rows b). exact_cell (r ! i)" by simp_all
  have "(\<lambda>r. if r ! i = Null then VNil else extract_value lib dec256 (fl_type (fs ! i)) (r ! i)) ` set (rb_rows b) - {VNil} =
      (\<lambda>c. extract_value lib dec256 (fl_type (fs ! i)) c) ` (CInt ` {n. \<exists>r\<in>set (rb_rows b). r ! i = CInt n})"
    (is "?l = ?r")
  proof
    show "?l \<subseteq> ?r" using b(3) by (fastforce simp: exact_cell_def)
    show "?r \<subseteq> ?l"
    proof
      fix v assume "v \<in> ?r"
      then obtain n r where n: "v = extract_value lib dec256 (fl_type (fs ! i)) (CInt n)" "r \<in> set (rb_rows b)" "r ! i = CInt n"
        by auto
      have "v \<noteq> VNil" using counted_key_values(2) [OF key, of lib dec256 "{n}"] n(1) by simp
      then show "v \<in> ?l" using n by (force intro!: image_eqI [of _ _ r])
    qed
  qed
  moreover have "{n. \<exists>r\<in>set (all_rows (b # bs)). r ! i = CInt n} =
      {n. \<exists>r\<in>set (rb_rows b). r ! i = CInt n} \<union> {n. \<exists>r\<in>set (all_rows bs). r ! i = CInt n}" by auto
  moreover have "key_values_of lib dec256 key (b # bs) = key_values lib dec256 key b \<union> key_values_of lib dec256 key bs"
    by (simp add: key_values_of_def)
  ultimately show ?case using Cons.IH Cons.prems b(1) i by (simp add: key_values_def image_Un)
qed (simp add: key_values_of_def)

lemma number_in_range:
  assumes "counted_key kt ty" "exact_cell c"
  shows "in_range lib kt s e ty c \<longleftrightarrow> (\<exists>n. c = CInt n \<and> s \<le> n \<and> n \<le> e)" "comparable_cell lib kt ty c"
  using assms counted_key_number(1) [OF assms(1)]
  by (auto simp: exact_cell_def in_range_def comparable_cell_def split: option.split elim: arrow_value.elims)

definition detected_options :: "string \<Rightarrow> data_type \<Rightarrow> interval_tracker \<Rightarrow> delete_insert_options" where
  "detected_options key kt t = \<lparr>di_key = key, di_key_type = kt, di_start = it_min t, di_end = it_max t\<rparr>"

text \<open>C20: delete+insert without an interval replaces exactly the stretch of the target that the load
  covers: with the bounds that the tracker detects in the staged rows, the target rows whose key lies
  between the least and the greatest staged key are deleted, all others are kept in order, and the
  staged rows follow; when every staged row has a key, running the load again changes nothing. For keys
  of whole numbers of up to 53 bits and for timestamps.\<close>

theorem detected_interval_reloads:
  assumes u: "uniform fs target" "uniform fs staging" "distinct (map fl_name fs)"
    and i: "index_where (\<lambda>f. fl_name f = key) fs = Some i" and key: "counted_key kt (fl_type (fs ! i))"
    and cells: "\<forall>r\<in>set (all_rows target) \<union> set (all_rows staging). exact_cell (r ! i)"
    and some: "\<exists>r\<in>set (all_rows staging). r ! i \<noteq> Null"
  shows "\<exists>t s e out. track lib dec256 staging (new_interval_tracker key) = Some t \<and>
    delete_insert_batches lib target staging (detected_options key kt t) = Inr out \<and>
    (\<exists>r\<in>set (all_rows staging). r ! i = CInt s) \<and> (\<exists>r\<in>set (all_rows staging). r ! i = CInt e) \<and>
    (\<forall>r\<in>set (all_rows staging). \<forall>n. r ! i = CInt n \<longrightarrow> s \<le> n \<and> n \<le> e) \<and>
    all_rows out = filter (\<lambda>r. \<not> (\<exists>n. r ! i = CInt n \<and> s \<le> n \<and> n \<le> e)) (all_rows target) @ all_rows staging \<and>
    ((\<forall>r\<in>set (all_rows staging). r ! i \<noteq> Null) \<longrightarrow>
       (\<exists>again. delete_insert_batches lib out staging (detected_options key kt t) = Inr again \<and> all_rows again = all_rows out))"
proof -
  let ?ty = "fl_type (fs ! i)" and ?N = "{n. \<exists>r\<in>set (all_rows staging). r ! i = CInt n}"
  let ?x = "\<lambda>n. extract_value lib dec256 ?ty (CInt n)"
  have vs: "key_values_of lib dec256 key staging = ?x ` ?N"
    using counted_key_values_of [OF u(2) i key] cells by (simp add: image_image)
  have ne: "?N \<noteq> {}" using some cells by (fastforce simp: exact_cell_def)
  have fields: "\<forall>b\<in>set staging. distinct (map fl_name (rb_fields b))" using u by (auto simp: uniform_def)
  have "one_kind (key_values_of lib dec256 key staging)"
    unfolding vs using counted_key_values(1) [OF key, of lib dec256 ?N] by (simp add: image_image)
  from detected_bounds [OF fields this] obtain t where d: "track lib dec256 staging (new_interval_tracker key) = Some t"
    "if ?x ` ?N = {} then it_min t = VNil \<and> it_max t = VNil else it_min t \<in> ?x ` ?N \<and> it_max t \<in> ?x ` ?N"
    "\<forall>v\<in>?x ` ?N. \<exists>lo hi. compare_values (it_min t) v = Some lo \<and> lo \<le> 0 \<and> compare_values (it_max t) v = Some hi \<and> 0 \<le> hi"
    unfolding vs by (elim exE conjE) blast
  have "?x ` ?N \<noteq> {}" using ne by blast
  then have t: "track lib dec256 staging (new_interval_tracker key) = Some t" "it_min t \<in> ?x ` ?N" "it_max t \<in> ?x ` ?N"
    "\<forall>v\<in>?x ` ?N. \<exists>lo hi. compare_values (it_min t) v = Some lo \<and> lo \<le> 0 \<and> compare_values (it_max t) v = Some hi \<and> 0 \<le> hi"
    using d by (simp_all split: if_splits)
  then obtain s e where se: "it_min t = ?x s" "it_max t = ?x e" "s \<in> ?N" "e \<in> ?N" by blast
  have between: "s \<le> n \<and> n \<le> e" if "n \<in> ?N" for n
  proof -
    have "?x n \<in> ?x ` ?N" using that by blast
    from bspec [OF t(4) this] obtain lo hi where "compare_values (?x s) (?x n) = Some lo" "lo \<le> 0"
      "compare_values (?x e) (?x n) = Some hi" "0 \<le> hi"
      unfolding se by blast
    then show ?thesis
      unfolding counted_key_compare [OF key] by (auto simp: three_way_def split: if_splits)
  qed
  let ?opts = "detected_options key kt t"
  have exact: "exact_number n" if n: "n \<in> ?N" for n
  proof -
    obtain r where "r \<in> set (all_rows target) \<union> set (all_rows staging)" "r ! i = CInt n" using n by blast
    then show ?thesis using bspec [OF cells] by (fastforce simp: exact_cell_def)
  qed
  have b: "interval_number (di_key_type ?opts) (di_start ?opts) = Some s" "exact_number s"
    "interval_number (di_key_type ?opts) (di_end ?opts) = Some e" "exact_number e"
    using exact [OF se(3)] exact [OF se(4)] counted_key_number(2) [OF key] by (simp_all add: detected_options_def se(1,2))
  have range: "in_range lib (di_key_type ?opts) s e ?ty (r ! i) \<longleftrightarrow> (\<exists>n. r ! i = CInt n \<and> s \<le> n \<and> n \<le> e)"
    "comparable_cell lib (di_key_type ?opts) ?ty (r ! i)"
    if "r \<in> set (all_rows target) \<union> set (all_rows staging)" for r
    using number_in_range [OF key] cells that by (simp_all add: detected_options_def)
  have f: "field_index fs (di_key ?opts) = Some i" using i by (simp add: field_index_def detected_options_def)
  obtain out where out: "delete_insert_batches lib target staging ?opts = Inr out"
    "all_rows out = filter (\<lambda>r. \<not> in_range lib (di_key_type ?opts) s e ?ty (r ! i)) (all_rows target) @ all_rows staging"
    "(\<forall>r\<in>set (all_rows staging). in_range lib (di_key_type ?opts) s e ?ty (r ! i)) \<longrightarrow>
       (\<exists>again. delete_insert_batches lib out staging ?opts = Inr again \<and> all_rows again = all_rows out)"
    using delete_insert_reloads_rows [OF u(1,2) f _ b] range(2) by blast
  have rows: "all_rows out = filter (\<lambda>r. \<not> (\<exists>n. r ! i = CInt n \<and> s \<le> n \<and> n \<le> e)) (all_rows target) @ all_rows staging"
    unfolding out(2) using range(1) by (intro arg_cong2 [of _ _ _ _ append] filter_cong) auto
  have keyed: "in_range lib (di_key_type ?opts) s e ?ty (r ! i)" if r: "r \<in> set (all_rows staging)" "r ! i \<noteq> Null" for r
  proof -
    have m: "r \<in> set (all_rows target) \<union> set (all_rows staging)" using r(1) by blast
    obtain n where n: "r ! i = CInt n" using bspec [OF cells m] r(2) by (auto simp: exact_cell_def)
    then have "s \<le> n \<and> n \<le> e" using r(1) by (intro between) blast
    then show ?thesis using range(1) [OF m] n by simp
  qed
  have again: "(\<forall>r\<in>set (all_rows staging). r ! i \<noteq> Null) \<longrightarrow>
      (\<exists>again. delete_insert_batches lib out staging ?opts = Inr again \<and> all_rows again = all_rows out)"
    using out(3) keyed by blast
  have ends: "\<exists>r\<in>set (all_rows staging). r ! i = CInt s" "\<exists>r\<in>set (all_rows staging). r ! i = CInt e"
    using se(3,4) by simp_all
  have all: "\<forall>r\<in>set (all_rows staging). \<forall>n. r ! i = CInt n \<longrightarrow> s \<le> n \<and> n \<le> e" using between by blast
  show ?thesis
    by (rule exI [of _ t], rule exI [of _ s], rule exI [of _ e], rule exI [of _ out])
      (intro conjI; fact t(1) out(1) ends all rows again)
qed

lemma detected_interval_reloads_witness:
  "\<exists>t s e out. track plain_lib (\<lambda>_ _. NaN) [batch by_day [[CInt 6, CInt 3], [CInt 7, CInt 2]]] (new_interval_tracker ''day'') = Some t \<and>
     delete_insert_batches plain_lib [batch by_day [[CInt 1, CInt 1], [CInt 2, CInt 2], [CInt 3, Null]]]
       [batch by_day [[CInt 6, CInt 3], [CInt 7, CInt 2]]] (detected_options ''day'' TypeTimestampTZ t) = Inr out \<and>
     s \<le> (2 :: int) \<and> (3 :: int) \<le> e"
proof -
  let ?target = "[batch by_day [[CInt 1, CInt 1], [CInt 2, CInt 2], [CInt 3, Null]]]"
  let ?staging = "[batch by_day [[CInt 6, CInt 3], [CInt 7, CInt 2]]]"
  have h: "uniform by_day ?target" "uniform by_day ?staging" "distinct (map fl_name by_day)"
    by (simp_all add: batch_def by_day_def mk_field_def)
  have i: "index_where (\<lambda>f. fl_name f = ''day'') by_day = Some 1" by code_simp
  have key: "counted_key TypeTimestampTZ (fl_type (by_day ! 1))" by (simp add: counted_key_def by_day_def mk_field_def)
  have cells: "\<forall>r\<in>set (all_rows ?target) \<union> set (all_rows ?staging). exact_cell (r ! 1)"
    by (simp add: batch_def exact_cell_def exact_number_def)
  have some: "\<exists>r\<in>set (all_rows ?staging). r ! 1 \<noteq> Null" by (simp add: batch_def)
  from detected_interval_reloads [OF h i key cells some, of plain_lib "\<lambda>_ _. NaN"] obtain t s e out where r:
    "track plain_lib (\<lambda>_ _. NaN) ?staging (new_interval_tracker ''day'') = Some t"
    "delete_insert_batches plain_lib ?target ?staging (detected_options ''day'' TypeTimestampTZ t) = Inr out"
    "\<forall>r\<in>set (all_rows ?staging). \<forall>n. r ! 1 = CInt n \<longrightarrow> s \<le> n \<and> n \<le> e"
    by blast
  have "s \<le> 2" "3 \<le> e" using r(3) by (simp_all add: batch_def)
  then show ?thesis using r(1,2) by blast
qed

text \<open>A key that the tracker does not read, an 8-bit integer say, has no bounds: the strategy then takes
  the load for empty, reports success and drops what it has staged.\<close>

lemma small_keys_not_tracked:
  "track lib dec256 [\<lparr>rb_fields = [\<lparr>fl_name = ''k'', fl_type = AInt8, fl_nullable = True\<rparr>], rb_rows = [[CInt 1], [CInt 2]]\<rparr>]
     (new_interval_tracker ''k'') = Some \<lparr>it_key = ''k'', it_min = VNil, it_max = VNil, it_col_index = 0, it_found = True\<rparr>"
  by (simp add: update_bounds_def locate_column_def new_interval_tracker_def)

end
