(* ===== verification/Strategy_Execute.thy ===== *)
theory Strategy_Execute
  imports Strategy_Staging Strategy_Interval Evolution Onelake_Delta
begin

text \<open>
  \<^verbatim>\<open>pkg/strategy\<close>: how a load strategy drives a destination. A destination is the record of the
  operations of its interface (\<^verbatim>\<open>destination/destination.go\<close>) on some state \<open>'w\<close>, with the optional
  interfaces as options; a strategy is the sequence of calls that its \<open>Execute\<close> makes, up to the
  first that fails.

  A job here has no CDC state manager (\<open>CDCStateManager\<close> is nil), and settings that a strategy only
  hands on from the configuration to the source (page size, limits, partitions, resume positions) are
  left out of its read request. What \<open>GetRecords\<close> delivers is the list of results of the channel.
\<close>

subsection \<open>Change data columns\<close>

text \<open>\<^verbatim>\<open>destination/cdc_columns.go\<close>, \<open>HasCDCDeletedColumn\<close> and \<open>hasCDCColumns\<close>.\<close>

definition cdc_deleted_column :: string where "cdc_deleted_column = ''_cdc_deleted''"
definition cdc_unchanged_cols_column :: string where "cdc_unchanged_cols_column = ''_cdc_unchanged_cols''"

definition has_cdc_columns :: "table_schema option \<Rightarrow> bool" where
  "has_cdc_columns s =
     (case s of None \<Rightarrow> False | Some ts \<Rightarrow> list_ex (\<lambda>c. equal_fold c cdc_deleted_column) (column_names ts))"

definition is_cdc_staging_only_column :: "string \<Rightarrow> bool" where
  "is_cdc_staging_only_column col \<longleftrightarrow> equal_fold col cdc_unchanged_cols_column"

definition destination_columns :: "string list \<Rightarrow> string list" where
  "destination_columns cols = filter (\<lambda>c. \<not> is_cdc_staging_only_column c) cols"

definition destination_table_schema :: "table_schema option \<Rightarrow> table_schema option" where
  "destination_table_schema s =
     map_option (\<lambda>ts. ts\<lparr>ts_columns := filter (\<lambda>c. \<not> is_cdc_staging_only_column (c_name c)) (ts_columns ts)\<rparr>) s"

subsection \<open>The interface of a destination\<close>

text \<open>\<open>PrepareOptions\<close>; \<open>po_expires\<close> is \<open>ExpiresAfter = ManagedStagingTTL\<close>.\<close>

record prepare_options =
  po_table :: string
  po_target_table :: string
  po_schema :: "table_schema option"
  po_drop_first :: bool
  po_primary_keys :: "string list"
  po_deferred_primary_keys :: "string list"
  po_partition_by :: string
  po_cluster_by :: "string list"
  po_cdc_mode :: bool
  po_cdc_keys :: "string list"
  po_require_primary_key_match :: bool
  po_expires :: bool
  po_strategy :: string

definition prepare_options0 :: prepare_options where
  "prepare_options0 = \<lparr>po_table = [], po_target_table = [], po_schema = None, po_drop_first = False, po_primary_keys = [],
     po_deferred_primary_keys = [], po_partition_by = [], po_cluster_by = [], po_cdc_mode = False, po_cdc_keys = [],
     po_require_primary_key_match = False, po_expires = False, po_strategy = []\<rparr>"

text \<open>\<open>WriteOptions\<close>; \<open>wo_pre_staged\<close> is the row count of data staged during the extract.\<close>

record write_options =
  wo_table :: string
  wo_schema :: "table_schema option"
  wo_primary_keys :: "string list"
  wo_parallelism :: int
  wo_staging_table :: bool
  wo_atomic_commit :: bool
  wo_deduplicate :: bool
  wo_incremental_key :: string
  wo_pre_staged :: "int option"
  wo_strategy :: string
  wo_reject_mode :: string
  wo_write_nulls :: bool

definition write_options0 :: write_options where
  "write_options0 = \<lparr>wo_table = [], wo_schema = None, wo_primary_keys = [], wo_parallelism = 0, wo_staging_table = False,
     wo_atomic_commit = False, wo_deduplicate = False, wo_incremental_key = [], wo_pre_staged = None, wo_strategy = [],
     wo_reject_mode = [], wo_write_nulls = False\<rparr>"

record merge_options =
  mo_staging_table :: string
  mo_target_table :: string
  mo_primary_keys :: "string list"
  mo_columns :: "string list"
  mo_incremental_key :: string
  mo_incremental_predicate :: string
  mo_schema :: "table_schema option"

record delete_insert_request =
  dr_staging_table :: string
  dr_target_table :: string
  dr_interval :: delete_insert_options
  dr_columns :: "string list"
  dr_primary_keys :: "string list"

record scd2_request =
  sr_staging_table :: string
  sr_target_table :: string
  sr_options :: scd2_options
  sr_schema :: table_schema

record swap_options =
  so_staging_table :: string
  so_target_table :: string
  so_swap_keys :: "string list"
  so_swap_incremental_key :: string
  so_schema :: "table_schema option"

type_synonym batches = "(string, record_batch option) result list"
type_synonym ('w, 'e) operation = "'w \<Rightarrow> 'w \<times> 'e option"

text \<open>The operations and the optional interfaces: \<open>ManagedStagingPolicyProvider\<close>,
  \<open>ReplaceStagingPolicyProvider\<close>, \<open>SchemaEvolver\<close>, \<open>TruncateCapable\<close>, \<open>CDCTruncateCapable\<close>,
  \<open>CDCUnchangedColsAware\<close>, \<open>ReplaceStagingPrimaryKeyDeferrer\<close>, \<open>DirectReplaceDeduplicator\<close>,
  \<open>AtomicCommitWriter\<close>, \<open>ExactRowCountWaiter\<close>, \<open>ReverseETLDestination\<close>.\<close>

record ('w, 'e) destination =
  ds_scheme :: string
  ds_reverse_etl :: bool
  ds_supports_merge :: bool
  ds_supports_delete_insert :: bool
  ds_supports_atomic_swap :: bool
  ds_policy :: "staging_policy option"
  ds_replace_policy :: "staging_policy option"
  ds_unchanged_cols :: bool
  ds_defer_primary_key :: "(bool \<times> int) option"
  ds_direct_deduplication :: bool
  ds_atomic_commit_writes :: bool
  ds_prepare :: "prepare_options \<Rightarrow> ('w, 'e) operation"
  ds_write :: "write_options \<Rightarrow> batches \<Rightarrow> ('w, 'e) operation"
  ds_merge :: "merge_options \<Rightarrow> ('w, 'e) operation"
  ds_delete_insert :: "delete_insert_request \<Rightarrow> ('w, 'e) operation"
  ds_scd2 :: "scd2_request \<Rightarrow> ('w, 'e) operation"
  ds_swap :: "swap_options \<Rightarrow> ('w, 'e) operation"
  ds_drop :: "string \<Rightarrow> ('w, 'e) operation"
  ds_evolve :: "(string \<Rightarrow> schema_comparison option \<Rightarrow> ('w, 'e) operation) option"
  ds_truncate :: "(string \<Rightarrow> ('w, 'e) operation) option"
  ds_truncate_cdc :: "(string \<Rightarrow> ('w, 'e) operation) option"
  ds_wait_rows :: "(string \<Rightarrow> int \<Rightarrow> ('w, 'e) operation) option"

text \<open>\<open>MergeColumnsFor\<close>.\<close>

definition merge_columns_for :: "('w, 'e) destination \<Rightarrow> string list \<Rightarrow> string list" where
  "merge_columns_for d cols = (if ds_unchanged_cols d then cols else destination_columns cols)"

subsection \<open>Steps\<close>

datatype 'e strategy_error =
    NotSupported string | StepFailed string 'e | SourceFailed string | LeaseGone | TrackerPanic | BadConfig string

type_synonym ('w, 'e) step = "('w, 'e strategy_error) operation"

definition step_of :: "string \<Rightarrow> ('w, 'e) operation \<Rightarrow> ('w, 'e) step" where
  "step_of what op w = (case op w of (w1, r) \<Rightarrow> (w1, map_option (StepFailed what) r))"

text \<open>A call whose error is only logged, and the checks of the connector lease.\<close>

definition quietly :: "('w, 'e) operation \<Rightarrow> ('w, 'e) step" where
  "quietly op w = (fst (op w), None)"

definition lease_step :: "('w \<Rightarrow> 'w \<times> bool) \<Rightarrow> ('w, 'e) step" where
  "lease_step lease w = (case lease w of (w1, lost) \<Rightarrow> (w1, if lost then Some LeaseGone else None))"

definition refuse :: "'e strategy_error \<Rightarrow> ('w, 'e) step" where
  "refuse e w = (w, Some e)"

fun run_steps :: "('w, 'e) step list \<Rightarrow> ('w, 'e) step" where
  "run_steps [] w = (w, None)"
| "run_steps (s # ss) w = (case s w of (w1, Some e) \<Rightarrow> (w1, Some e) | (w1, None) \<Rightarrow> run_steps ss w1)"

subsection \<open>Jobs\<close>

datatype record_result = Broken string | Data "record_batch option" | TruncateMark

record read_request =
  rq_incremental_key :: string
  rq_interval_start :: "gotime option"
  rq_interval_end :: "gotime option"
  rq_schema :: "table_schema option"
  rq_parallelism :: int
  rq_snapshot_replace :: bool

text \<open>The configuration, as far as strategies look at it, and the job; \<open>jb_unique_keys\<close> is what a source
  that is a \<open>PrimaryKeyUniquenessProvider\<close> says of its keys.\<close>

record ingest_config =
  cf_dest_table :: string
  cf_dest_uri :: string
  cf_primary_keys :: "string list"
  cf_incremental_key :: string
  cf_incremental_predicate :: string
  cf_interval_start :: "gotime option"
  cf_interval_end :: "gotime option"
  cf_partition_by :: string
  cf_extract_partition_by :: string
  cf_cluster_by :: "string list"
  cf_staging_dataset :: string
  cf_run_id :: string
  cf_keep_staging :: bool
  cf_extract_parallelism :: int
  cf_destination_parallelism :: int
  cf_reject_mode :: string
  cf_write_nulls :: bool
  cf_reverse_etl :: bool
  cf_schema_contract :: string

record 'w job =
  jb_config :: ingest_config
  jb_schema :: table_schema
  jb_source_schema :: "table_schema option"
  jb_renames :: "(string \<times> string) list"
  jb_plan :: "evolution_plan option"
  jb_pre_staged :: "int option"
  jb_unique_keys :: "(bool \<times> string list) option"
  jb_type_caster :: bool
  jb_masked :: "string list"
  jb_comparison :: "schema_comparison option"
  jb_read :: "read_request \<Rightarrow> (string, record_result list) result"
  jb_lease :: "'w \<Rightarrow> 'w \<times> bool"

text \<open>\<open>EffectiveDestinationParallelism\<close>.\<close>

definition default_extract_parallelism :: int where "default_extract_parallelism = 5"

definition is_postgres_uri :: "string \<Rightarrow> bool" where
  "is_postgres_uri uri =
     (hd (split_str ''://'' (to_lower uri)) \<in> {''postgres'', ''postgresql'', ''postgresql+psycopg2''})"

definition effective_destination_parallelism :: "ingest_config \<Rightarrow> int" where
  "effective_destination_parallelism c =
     (if 0 < cf_destination_parallelism c then cf_destination_parallelism c
      else (let p = (if cf_extract_parallelism c \<le> 0 then 4 else cf_extract_parallelism c)
            in if p = default_extract_parallelism \<and> is_postgres_uri (cf_dest_uri c) then 8 else p))"

definition extract_parallelism :: "ingest_config \<Rightarrow> int" where
  "extract_parallelism c = (if cf_extract_parallelism c \<le> 0 then 4 else cf_extract_parallelism c)"

definition read_request_of :: "'w job \<Rightarrow> string \<Rightarrow> bool \<Rightarrow> read_request" where
  "read_request_of j key snapshot_replace =
     (let c = jb_config j
      in \<lparr>rq_incremental_key = key, rq_interval_start = cf_interval_start c, rq_interval_end = cf_interval_end c,
          rq_schema = jb_source_schema j, rq_parallelism = extract_parallelism c, rq_snapshot_replace = snapshot_replace\<rparr>)"

text \<open>\<open>applyEvolutionPlan\<close>: nothing to do without changes, or on a destination that cannot evolve.\<close>

definition apply_evolution :: "('w, 'e) destination \<Rightarrow> 'w job \<Rightarrow> ('w, 'e) step" where
  "apply_evolution d j w =
     (case (jb_plan j, ds_evolve d) of
        (Some plan, Some evolve) \<Rightarrow>
          (if plan_has_changes (jb_plan j)
           then step_of ''failed to apply schema evolution'' (evolve (ep_table plan) (ep_comparison plan)) w
           else (w, None))
      | _ \<Rightarrow> (w, None))"

subsection \<open>Writing records\<close>

text \<open>The results that a plain write gets: a truncate control is an empty result to it.\<close>

fun plain_result :: "record_result \<Rightarrow> (string, record_batch option) result" where
  "plain_result (Broken e) = Inl e"
| "plain_result (Data b) = Inr b"
| "plain_result TruncateMark = Inr None"

definition write_parallel_step :: "('w, 'e) destination \<Rightarrow> string \<Rightarrow> write_options \<Rightarrow> record_result list \<Rightarrow> ('w, 'e) step" where
  "write_parallel_step d what opt results = step_of what (ds_write d opt (map plain_result results))"

text \<open>\<open>applyCDCInputTruncate\<close>, \<open>ApplyTruncate\<close> and \<open>ApplyCDCTruncate\<close>.\<close>

definition apply_truncate :: "('w, 'e) destination \<Rightarrow> string \<Rightarrow> ('w, 'e) step" where
  "apply_truncate d table =
     (case ds_truncate d of
        None \<Rightarrow> refuse (NotSupported ''source TRUNCATE events'')
      | Some f \<Rightarrow> step_of ''failed to truncate'' (f table))"

definition apply_cdc_truncate :: "('w, 'e) destination \<Rightarrow> string \<Rightarrow> ('w, 'e) step" where
  "apply_cdc_truncate d table =
     (case ds_truncate_cdc d of Some f \<Rightarrow> step_of ''failed to truncate'' (f table) | None \<Rightarrow> apply_truncate d table)"

definition apply_cdc_input_truncate :: "('w, 'e) destination \<Rightarrow> write_options \<Rightarrow> ('w, 'e) step" where
  "apply_cdc_input_truncate d opt =
     (if wo_staging_table opt then apply_truncate d (wo_table opt) else apply_cdc_truncate d (wo_table opt))"

text \<open>\<open>forwardUntilTruncate\<close>: the results of one segment, and what ended it.\<close>

fun segment :: "record_result list \<Rightarrow> batches \<times> record_result list" where
  "segment (Data b # rs) = (case segment rs of (seg, rest) \<Rightarrow> (Inr b # seg, rest))"
| "segment rs = ([], rs)"

lemma length_segment: "length (snd (segment rs)) \<le> length rs"
  by (induction rs rule: segment.induct) (auto split: prod.splits)

lemma segment_shorter: "(seg, x # rest) = segment rs \<Longrightarrow> length rest < Suc (length rs)"
  using length_segment [of rs] by (cases "segment rs") auto

text \<open>\<open>writeWithTruncateBoundaries\<close>: one write for every stretch between truncates, each of which is
  applied when what came before it is written.\<close>

function write_with_truncate_boundaries ::
  "('w, 'e) destination \<Rightarrow> write_options \<Rightarrow> bool \<Rightarrow> bool \<Rightarrow> record_result list \<Rightarrow> 'w \<Rightarrow> 'w \<times> bool \<times> 'e strategy_error option" where
  "write_with_truncate_boundaries d opt wrote truncated [] w =
     (if wrote then (w, truncated, None)
      else (case step_of ''write'' (ds_write d opt []) w of (w1, r) \<Rightarrow> (w1, truncated, r)))"
| "write_with_truncate_boundaries d opt wrote truncated (Broken e # rs) w = (w, truncated, Some (SourceFailed e))"
| "write_with_truncate_boundaries d opt wrote truncated (TruncateMark # rs) w =
     (case (if wrote then (w, None) else step_of ''write'' (ds_write d (opt\<lparr>wo_pre_staged := None\<rparr>) []) w) of
        (w1, Some e) \<Rightarrow> (w1, truncated, Some e)
      | (w1, None) \<Rightarrow>
          (case apply_cdc_input_truncate d opt w1 of
             (w2, Some e) \<Rightarrow> (w2, truncated, Some e)
           | (w2, None) \<Rightarrow> write_with_truncate_boundaries d opt True True rs w2))"
| "write_with_truncate_boundaries d opt wrote truncated (Data b # rs) w =
     (case segment rs of
        (seg, rest) \<Rightarrow>
          (case step_of ''write'' (ds_write d opt (Inr b # seg)) w of
             (w1, Some e) \<Rightarrow> (w1, truncated, Some e)
           | (w1, None) \<Rightarrow>
               (case rest of
                  [] \<Rightarrow> (w1, truncated, None)
                | Broken e # _ \<Rightarrow> (w1, truncated, Some (SourceFailed e))
                | _ # rest' \<Rightarrow>
                    (case apply_cdc_input_truncate d opt w1 of
                       (w2, Some e) \<Rightarrow> (w2, truncated, Some e)
                     | (w2, None) \<Rightarrow> write_with_truncate_boundaries d opt True True rest' w2))))"
  by pat_completeness auto
termination
  by (relation "measure (\<lambda>(d, opt, wrote, truncated, rs, w). length rs)") (auto dest: segment_shorter)

subsection \<open>Append\<close>

text \<open>\<open>validateReverseETLReject\<close> and \<open>executeReverseETL\<close>.\<close>

definition validate_reverse_etl_reject :: "ingest_config \<Rightarrow> 'e strategy_error option" where
  "validate_reverse_etl_reject c =
     (if cf_reject_mode c \<in> {[], ''fail_fast'', ''fail'', ''skip''} then None else Some (BadConfig (cf_reject_mode c)))"

definition execute_reverse_etl :: "string \<Rightarrow> ('w, 'e) destination \<Rightarrow> 'w job \<Rightarrow> ('w, 'e) step" where
  "execute_reverse_etl strategy d j w =
     (let c = jb_config j; ts = jb_schema j;
          prepare = prepare_options0\<lparr>po_table := cf_dest_table c, po_schema := destination_table_schema (Some ts),
            po_primary_keys := ts_primary_keys ts, po_strategy := strategy\<rparr>;
          opts = write_options0\<lparr>wo_table := cf_dest_table c, wo_schema := Some ts, wo_primary_keys := ts_primary_keys ts,
            wo_parallelism := effective_destination_parallelism c, wo_strategy := strategy,
            wo_reject_mode := (if cf_reject_mode c = [] then ''fail'' else cf_reject_mode c),
            wo_write_nulls := cf_write_nulls c\<rparr>
      in case step_of ''failed to prepare table'' (ds_prepare d prepare) w of
           (w1, Some e) \<Rightarrow> (w1, Some e)
         | (w1, None) \<Rightarrow>
             (case jb_read j (read_request_of j (cf_incremental_key c) False) of
                Inl e \<Rightarrow> (w1, Some (SourceFailed e))
              | Inr rs \<Rightarrow> write_parallel_step d ''failed to write data'' opts rs w1))"

text \<open>\<open>AppendStrategy.Execute\<close>.\<close>

definition execute_append :: "('w, 'e) destination \<Rightarrow> 'w job \<Rightarrow> ('w, 'e) step" where
  "execute_append d j w =
     (if ds_reverse_etl d then execute_reverse_etl ''append'' d j w
      else
        (let c = jb_config j; ts = jb_schema j; is_cdc = has_cdc_columns (Some ts);
             prepare = prepare_options0\<lparr>po_table := cf_dest_table c,
               po_schema := (if is_cdc then Some ts else destination_table_schema (Some ts)),
               po_primary_keys := ts_primary_keys ts, po_partition_by := cf_partition_by c, po_cluster_by := cf_cluster_by c,
               po_cdc_mode := is_cdc, po_cdc_keys := ts_primary_keys ts\<rparr>;
             opts = write_options0\<lparr>wo_table := cf_dest_table c, wo_schema := Some ts,
               wo_parallelism := effective_destination_parallelism c, wo_pre_staged := jb_pre_staged j\<rparr>
         in case run_steps [step_of ''failed to prepare table'' (ds_prepare d prepare), apply_evolution d j] w of
              (w1, Some e) \<Rightarrow> (w1, Some e)
            | (w1, None) \<Rightarrow>
                (case jb_read j (read_request_of j (cf_incremental_key c) (is_cdc \<and> ds_truncate d \<noteq> None)) of
                   Inl e \<Rightarrow> (w1, Some (SourceFailed e))
                 | Inr rs \<Rightarrow>
                     (if is_cdc
                      then (case write_with_truncate_boundaries d opts False False rs w1 of (w2, _, r) \<Rightarrow> (w2, r))
                      else write_parallel_step d ''failed to write data'' opts rs w1))))"

subsection \<open>Merge\<close>

text \<open>\<open>mergeIncrementalKeyForSchema\<close> and \<open>mergeStagingOptions\<close>.\<close>

definition merge_incremental_key_for_schema :: "table_schema option \<Rightarrow> string \<Rightarrow> string" where
  "merge_incremental_key_for_schema s key =
     (case s of
        None \<Rightarrow> []
      | Some ts \<Rightarrow>
          (if key = [] then []
           else (case find (\<lambda>c. c_name c = key) (ts_columns ts) of
                   Some c \<Rightarrow> c_name c
                 | None \<Rightarrow> (case find (\<lambda>c. equal_fold (c_name c) key) (ts_columns ts) of Some c \<Rightarrow> c_name c | None \<Rightarrow> []))))"

definition merge_staging_options ::
  "('w, 'e) destination \<Rightarrow> string \<Rightarrow> string \<Rightarrow> string list \<Rightarrow> table_schema \<Rightarrow> string \<Rightarrow> string \<Rightarrow> merge_options" where
  "merge_staging_options d staging target keys ts key predicate =
     \<lparr>mo_staging_table = staging, mo_target_table = target, mo_primary_keys = keys,
      mo_columns = merge_columns_for d (column_names ts),
      mo_incremental_key = merge_incremental_key_for_schema (Some ts) key,
      mo_incremental_predicate = predicate, mo_schema = Some ts\<rparr>"

text \<open>\<open>prepareMergeTarget\<close> and \<open>prepareMergeTables\<close>.\<close>

definition merge_target_options :: "'w job \<Rightarrow> prepare_options" where
  "merge_target_options j =
     (let c = jb_config j; ts = jb_schema j; is_cdc = has_cdc_columns (Some ts)
      in prepare_options0\<lparr>po_table := cf_dest_table c, po_schema := destination_table_schema (Some ts),
           po_primary_keys := cf_primary_keys c, po_cdc_mode := is_cdc, po_cdc_keys := cf_primary_keys c,
           po_require_primary_key_match := is_cdc \<and> cf_primary_keys c \<noteq> [], po_partition_by := cf_partition_by c,
           po_cluster_by := cf_cluster_by c\<rparr>)"

definition merge_staging_prepare :: "'w job \<Rightarrow> string \<Rightarrow> prepare_options" where
  "merge_staging_prepare j staging =
     (let c = jb_config j; ts = jb_schema j
      in prepare_options0\<lparr>po_table := staging, po_schema := Some ts, po_drop_first := True,
           po_cdc_mode := has_cdc_columns (Some ts), po_cdc_keys := cf_primary_keys c, po_partition_by := cf_partition_by c,
           po_cluster_by := cf_cluster_by c, po_expires := True\<rparr>)"

definition prepare_merge_tables :: "('w, 'e) destination \<Rightarrow> 'w job \<Rightarrow> string \<Rightarrow> ('w, 'e) step list" where
  "prepare_merge_tables d j staging =
     [lease_step (jb_lease j),
      step_of ''failed to prepare destination table'' (ds_prepare d (merge_target_options j)),
      lease_step (jb_lease j),
      lease_step (jb_lease j),
      step_of ''failed to prepare staging table'' (ds_prepare d (merge_staging_prepare j staging)),
      lease_step (jb_lease j)]"

text \<open>What a strategy that stages its rows does when they are staged.\<close>

definition drop_staging :: "('w, 'e) destination \<Rightarrow> 'w job \<Rightarrow> string \<Rightarrow> ('w, 'e) step list" where
  "drop_staging d j staging = (if cf_keep_staging (jb_config j) then [] else [quietly (ds_drop d staging)])"

definition staging_write_options :: "'w job \<Rightarrow> string \<Rightarrow> table_schema \<Rightarrow> write_options" where
  "staging_write_options j staging ts =
     write_options0\<lparr>wo_table := staging, wo_schema := Some ts,
       wo_parallelism := effective_destination_parallelism (jb_config j), wo_staging_table := True\<rparr>"

text \<open>\<open>MergeStrategy.Execute\<close>.\<close>

definition finish_merge :: "('w, 'e) destination \<Rightarrow> 'w job \<Rightarrow> string \<Rightarrow> bool \<Rightarrow> ('w, 'e) step list" where
  "finish_merge d j staging emptied =
     (let c = jb_config j; lease = lease_step (jb_lease j)
      in [lease, lease, apply_evolution d j, lease] @
         (if emptied then [lease, apply_cdc_truncate d (cf_dest_table c), lease] else []) @
         [lease,
          step_of ''failed to merge data''
            (ds_merge d (merge_staging_options d staging (cf_dest_table c) (cf_primary_keys c) (jb_schema j)
               (cf_incremental_key c) (cf_incremental_predicate c))),
          lease] @
         (if cf_keep_staging c then [] else [lease] @ drop_staging d j staging @ [lease]))"

definition execute_merge :: "int \<Rightarrow> ('w, 'e) destination \<Rightarrow> 'w job \<Rightarrow> ('w, 'e) step" where
  "execute_merge now d j w =
     (if ds_reverse_etl d then execute_reverse_etl ''merge'' d j w
      else
        (let c = jb_config j; is_cdc = has_cdc_columns (Some (jb_schema j));
             staging = managed_staging_table_name now (ds_policy d) (cf_dest_table c) ''merge'' (cf_staging_dataset c) (cf_run_id c);
             opts = (staging_write_options j staging (jb_schema j))\<lparr>wo_pre_staged := jb_pre_staged j\<rparr>
         in case run_steps (prepare_merge_tables d j staging) w of
              (w1, Some e) \<Rightarrow> (w1, Some e)
            | (w1, None) \<Rightarrow>
                (case jb_read j (read_request_of j (cf_incremental_key c) (is_cdc \<and> ds_truncate d \<noteq> None)) of
                   Inl e \<Rightarrow> (w1, Some (SourceFailed e))
                 | Inr rs \<Rightarrow>
                     (case write_with_truncate_boundaries d opts False False rs w1 of
                        (w2, _, Some e) \<Rightarrow> (w2, Some e)
                      | (w2, truncated, None) \<Rightarrow> run_steps (finish_merge d j staging (is_cdc \<and> truncated)) w2))))"

text \<open>\<open>MergeStrategy.Validate\<close>.\<close>

definition validate_merge :: "ingest_config \<Rightarrow> 'e strategy_error option" where
  "validate_merge c =
     (if cf_reverse_etl c then validate_reverse_etl_reject c
      else if cf_primary_keys c = [] then Some (BadConfig ''merge strategy requires at least one primary_key'') else None)"

subsection \<open>Delete and insert\<close>

definition di_target_options :: "'w job \<Rightarrow> prepare_options" where
  "di_target_options j =
     (let c = jb_config j
      in prepare_options0\<lparr>po_table := cf_dest_table c, po_schema := destination_table_schema (Some (jb_schema j)),
           po_primary_keys := cf_primary_keys c, po_partition_by := cf_partition_by c, po_cluster_by := cf_cluster_by c\<rparr>)"

definition staging_prepare :: "'w job \<Rightarrow> string \<Rightarrow> table_schema \<Rightarrow> prepare_options" where
  "staging_prepare j staging ts =
     (let c = jb_config j
      in prepare_options0\<lparr>po_table := staging, po_schema := Some ts, po_drop_first := True,
           po_partition_by := cf_partition_by c, po_cluster_by := cf_cluster_by c, po_expires := True\<rparr>)"

text \<open>The batches that pass the tracker.\<close>

definition batches_of :: "record_result list \<Rightarrow> record_batch list" where
  "batches_of rs = List.map_filter (\<lambda>r. case r of Data b \<Rightarrow> b | _ \<Rightarrow> None) rs"

definition finish_delete_insert ::
  "('w, 'e) destination \<Rightarrow> 'w job \<Rightarrow> string \<Rightarrow> string \<Rightarrow> data_type \<Rightarrow> interval_tracker \<Rightarrow> ('w, 'e) step list" where
  "finish_delete_insert d j staging key kt t =
     (let c = jb_config j;
          start = resolve_interval_bound (cf_interval_start c) (it_min t);
          stop = resolve_interval_bound (cf_interval_end c) (it_max t);
          bound = (\<lambda>v. if kt = TypeDate then to_date_only v else v)
      in if start = VNil \<or> stop = VNil then drop_staging d j staging
         else [apply_evolution d j,
               step_of ''failed to delete+insert data''
                 (ds_delete_insert d
                    \<lparr>dr_staging_table = staging, dr_target_table = cf_dest_table c,
                     dr_interval = \<lparr>di_key = key, di_key_type = kt, di_start = bound start, di_end = bound stop\<rparr>,
                     dr_columns = column_names (jb_schema j), dr_primary_keys = cf_primary_keys c\<rparr>)] @
              drop_staging d j staging)"

text \<open>\<open>DeleteInsertStrategy.Execute\<close>; a panic of the tracker ends the process while the rows are
  written.\<close>

definition execute_delete_insert ::
  "int \<Rightarrow> arrow_lib \<Rightarrow> (int \<Rightarrow> int \<Rightarrow> go_float) \<Rightarrow> ('w, 'e) destination \<Rightarrow> 'w job \<Rightarrow> ('w, 'e) step" where
  "execute_delete_insert now al dec256 d j w =
     (if has_cdc_columns (Some (jb_schema j)) then (w, Some (NotSupported ''delete+insert of CDC records''))
      else if \<not> ds_supports_delete_insert d then (w, Some (NotSupported (ds_scheme d)))
      else
        (let c = jb_config j; ts = jb_schema j;
             staging = managed_staging_table_name now (ds_policy d) (cf_dest_table c) ''di'' (cf_staging_dataset c) (cf_run_id c);
             key = fst (resolve_schema_column (Some ts) (cf_incremental_key c));
             kt = incremental_key_type (Some ts) (jb_source_schema j) (cf_incremental_key c);
             source_key = source_incremental_key_for_read (cf_incremental_key c) (jb_source_schema j) (jb_renames j)
         in case run_steps
                  [step_of ''failed to prepare destination table'' (ds_prepare d (di_target_options j)),
                   step_of ''failed to prepare staging table'' (ds_prepare d (staging_prepare j staging ts))] w of
              (w1, Some e) \<Rightarrow> (w1, Some e)
            | (w1, None) \<Rightarrow>
                (case jb_read j (read_request_of j source_key False) of
                   Inl e \<Rightarrow> (w1, Some (SourceFailed e))
                 | Inr rs \<Rightarrow>
                     (case write_parallel_step d ''failed to write to staging'' (staging_write_options j staging ts) rs w1 of
                        (w2, Some e) \<Rightarrow> (w2, Some e)
                      | (w2, None) \<Rightarrow>
                          (case track al dec256 (batches_of rs) (new_interval_tracker key) of
                             None \<Rightarrow> (w2, Some TrackerPanic)
                           | Some t \<Rightarrow> run_steps (finish_delete_insert d j staging key kt t) w2)))))"

definition validate_delete_insert :: "ingest_config \<Rightarrow> 'e strategy_error option" where
  "validate_delete_insert c =
     (if cf_incremental_key c = [] then Some (BadConfig ''delete+insert strategy requires an incremental_key'') else None)"

subsection \<open>SCD2\<close>

text \<open>\<open>extendSchemaWithSCDColumns\<close>.\<close>

definition scd_columns :: "column list" where
  "scd_columns =
     [zero_column\<lparr>c_name := scd2_valid_from, c_type := TypeTimestampTZ\<rparr>,
      zero_column\<lparr>c_name := scd2_valid_to, c_type := TypeTimestampTZ, c_nullable := True\<rparr>,
      zero_column\<lparr>c_name := scd2_is_current, c_type := TypeBoolean\<rparr>]"

definition extend_schema_with_scd_columns :: "table_schema \<Rightarrow> table_schema" where
  "extend_schema_with_scd_columns ts =
     \<lparr>ts_name = ts_name ts, ts_schema = ts_schema ts,
      ts_columns = ts_columns ts @
        filter (\<lambda>c. to_lower (c_name c) \<notin> to_lower ` set (column_names ts)) scd_columns,
      ts_primary_keys = ts_primary_keys ts, ts_incremental_key = [], ts_partition_by = []\<rparr>"

text \<open>The \<open>ColumnAdder\<close> of the strategy: the three columns at the end of every batch.\<close>

definition add_scd_columns :: "gotime \<Rightarrow> record_batch \<Rightarrow> record_batch" where
  "add_scd_columns now b =
     \<lparr>rb_fields = rb_fields b @ to_arrow_schema scd_columns,
      rb_rows = map (\<lambda>r. r @ [CInt (now div microsecond), Null, CBool True]) (rb_rows b)\<rparr>"

fun with_scd_columns :: "gotime \<Rightarrow> record_result \<Rightarrow> record_result" where
  "with_scd_columns now (Data (Some b)) = Data (Some (add_scd_columns now b))"
| "with_scd_columns now r = r"

definition validate_scd2 :: "ingest_config \<Rightarrow> 'e strategy_error option" where
  "validate_scd2 c =
     (if cf_primary_keys c = [] then Some (BadConfig ''scd2 strategy requires at least one primary_key'')
      else if trim_space (cf_extract_partition_by c) \<noteq> [] \<and> trim_space (cf_incremental_key c) = []
      then Some (BadConfig ''scd2 strategy with extract partitioning requires an incremental_key'') else None)"

text \<open>The schema leaves out a column that the source already has; the batches get it all the same, and have more
  columns than their schema.\<close>

lemma scd_columns_added_twice:
  assumes "c \<in> set scd_columns" "to_lower (c_name c) \<in> to_lower ` set (column_names ts)"
    and "rb_fields b = to_arrow_schema (ts_columns ts)"
  shows "length (rb_fields (add_scd_columns now b)) > length (to_arrow_schema (ts_columns (extend_schema_with_scd_columns ts)))"
proof -
  let ?new = "filter (\<lambda>c. to_lower (c_name c) \<notin> to_lower ` set (column_names ts)) scd_columns"
  have "length ?new < length scd_columns" by (rule length_filter_less [OF assms(1)]) (simp add: assms(2))
  then show ?thesis
    by (simp add: add_scd_columns_def extend_schema_with_scd_columns_def to_arrow_schema_def assms(3))
qed

text \<open>\<open>SCD2Strategy.Execute\<close>; the clock is read once.\<close>

definition execute_scd2 :: "int \<Rightarrow> ('w, 'e) destination \<Rightarrow> 'w job \<Rightarrow> ('w, 'e) step" where
  "execute_scd2 now d j w =
     (if has_cdc_columns (Some (jb_schema j)) then (w, Some (NotSupported ''scd2 of CDC records''))
      else
        (let c = jb_config j; ts = jb_schema j;
             staging = managed_staging_table_name now (ds_policy d) (cf_dest_table c) ''scd2'' (cf_staging_dataset c) (cf_run_id c);
             extended = extend_schema_with_scd_columns ts;
             target = prepare_options0\<lparr>po_table := cf_dest_table c,
               po_schema := map_option extend_schema_with_scd_columns (destination_table_schema (Some ts)),
               po_partition_by := cf_partition_by c, po_cluster_by := cf_cluster_by c\<rparr>
         in case run_steps
                  [step_of ''failed to prepare destination table'' (ds_prepare d target),
                   step_of ''failed to prepare staging table'' (ds_prepare d (staging_prepare j staging extended))] w of
              (w1, Some e) \<Rightarrow> (w1, Some e)
            | (w1, None) \<Rightarrow>
                (case jb_read j (read_request_of j (cf_incremental_key c) False) of
                   Inl e \<Rightarrow> (w1, Some (SourceFailed e))
                 | Inr rs \<Rightarrow>
                     run_steps
                       ([write_parallel_step d ''failed to write to staging'' (staging_write_options j staging extended)
                           (map (with_scd_columns now) rs),
                         apply_evolution d j,
                         step_of ''failed to perform SCD2 merge''
                           (ds_scd2 d
                              \<lparr>sr_staging_table = staging, sr_target_table = cf_dest_table c,
                               sr_options = \<lparr>so_primary_keys = cf_primary_keys c, so_columns = column_names ts,
                                 so_incremental_key = cf_incremental_key c, so_timestamp = now\<rparr>,
                               sr_schema = ts\<rparr>)] @
                        drop_staging d j staging) w1)))"

subsection \<open>Replace\<close>

text \<open>\<open>mappedSourcePrimaryKeys\<close>, \<open>nonPrimaryKeyMapsToDestinationPrimaryKey\<close>, \<open>sourcePrimaryKeysGuaranteedUnique\<close>.\<close>

definition renamed :: "'w job \<Rightarrow> string \<Rightarrow> string" where
  "renamed j name = (case map_of (jb_renames j) name of Some n \<Rightarrow> n | None \<Rightarrow> name)"

definition mapped_source_primary_keys :: "'w job \<Rightarrow> table_schema \<Rightarrow> string list" where
  "mapped_source_primary_keys j source = map (renamed j) (ts_primary_keys source)"

definition non_primary_key_maps_to_destination_primary_key :: "'w job \<Rightarrow> table_schema \<Rightarrow> bool" where
  "non_primary_key_maps_to_destination_primary_key j source =
     list_ex (\<lambda>n. n \<notin> set (ts_primary_keys source) \<and> renamed j n \<in> set (cf_primary_keys (jb_config j))) (column_names source)"

definition source_primary_keys_guaranteed_unique :: "'w job \<Rightarrow> bool" where
  "source_primary_keys_guaranteed_unique j =
     (case (jb_unique_keys j, jb_source_schema j) of
        (Some (True, keys), Some source) \<Rightarrow>
          keys = ts_primary_keys source \<and> mapped_source_primary_keys j source = cf_primary_keys (jb_config j) \<and>
          \<not> non_primary_key_maps_to_destination_primary_key j source
      | _ \<Rightarrow> False)"

text \<open>\<open>schemaChangesTouchPrimaryKeys\<close>, \<open>primaryKeyValuesMayChange\<close>, \<open>effectivePrimaryKeysGuaranteedUnique\<close>.\<close>

definition schema_changes_touch_primary_keys :: "schema_comparison option \<Rightarrow> string list \<Rightarrow> bool" where
  "schema_changes_touch_primary_keys cmp keys =
     (case cmp of None \<Rightarrow> False
      | Some c \<Rightarrow> cmp_has_changes c \<and> list_ex (\<lambda>ch. sc_column_name ch \<in> set keys) (cmp_changes c))"

definition primary_key_values_may_change :: "'w job \<Rightarrow> bool" where
  "primary_key_values_may_change j =
     (let keys = cf_primary_keys (jb_config j)
      in keys \<noteq> [] \<and>
         (jb_type_caster j \<or> set keys \<inter> set (jb_masked j) \<noteq> {} \<or>
          parse_contract_mode (cf_schema_contract (jb_config j)) = Inr ContractDiscardValue \<and>
            schema_changes_touch_primary_keys (jb_comparison j) keys))"

definition effective_primary_keys_guaranteed_unique :: "'w job \<Rightarrow> bool" where
  "effective_primary_keys_guaranteed_unique j \<longleftrightarrow>
     source_primary_keys_guaranteed_unique j \<and> \<not> primary_key_values_may_change j"

text \<open>\<open>replaceShouldDedup\<close>, \<open>replaceShouldDeferStagingPrimaryKey\<close>, \<open>replaceWriteParallelism\<close>.\<close>

definition replace_should_dedup :: "('w, 'e) destination \<Rightarrow> string list \<Rightarrow> bool" where
  "replace_should_dedup d keys \<longleftrightarrow> keys \<noteq> [] \<and> ds_supports_merge d \<and> ds_scheme d \<noteq> ''clickhouse''"

definition replace_should_defer_staging_primary_key :: "('w, 'e) destination \<Rightarrow> 'w job \<Rightarrow> bool" where
  "replace_should_defer_staging_primary_key d j =
     (case ds_defer_primary_key d of
        Some (True, _) \<Rightarrow> effective_primary_keys_guaranteed_unique j | _ \<Rightarrow> False)"

definition replace_write_parallelism :: "('w, 'e) destination \<Rightarrow> 'w job \<Rightarrow> bool \<Rightarrow> int" where
  "replace_write_parallelism d j deferred =
     (let c = jb_config j; p = effective_destination_parallelism c
      in if \<not> deferred \<or> 0 < cf_destination_parallelism c \<or> cf_extract_parallelism c \<noteq> default_extract_parallelism then p
         else (case ds_defer_primary_key d of Some (_, preferred) \<Rightarrow> if 0 < preferred then preferred else p | None \<Rightarrow> p))"

text \<open>\<open>deduplicateStaging\<close>: the raw staging table is merged into a normalised one, which is then to be
  swapped in.\<close>

definition normalised_prepare :: "'w job \<Rightarrow> string \<Rightarrow> prepare_options" where
  "normalised_prepare j normalised =
     (let c = jb_config j
      in prepare_options0\<lparr>po_table := normalised, po_target_table := cf_dest_table c, po_schema := Some (jb_schema j),
           po_drop_first := True, po_primary_keys := cf_primary_keys c, po_partition_by := cf_partition_by c,
           po_cluster_by := cf_cluster_by c, po_expires := True\<rparr>)"

definition deduplicate_staging ::
  "int \<Rightarrow> ('w, 'e) destination \<Rightarrow> 'w job \<Rightarrow> string \<Rightarrow> 'w \<Rightarrow> 'w \<times> ('e strategy_error, string) result" where
  "deduplicate_staging now d j raw w =
     (let c = jb_config j; ts = jb_schema j;
          normalised = generate_normalised_staging_table_name now (cf_dest_table c) (cf_staging_dataset c) (cf_run_id c);
          opts = \<lparr>mo_staging_table = raw, mo_target_table = normalised, mo_primary_keys = cf_primary_keys c,
            mo_columns = column_names ts, mo_incremental_key = cf_incremental_key c, mo_incremental_predicate = [],
            mo_schema = Some ts\<rparr>
      in case step_of ''failed to prepare normalised staging table'' (ds_prepare d (normalised_prepare j normalised)) w of
           (w1, Some e) \<Rightarrow> (fst (ds_drop d raw w1), Inl e)
         | (w1, None) \<Rightarrow>
             (case step_of ''failed to deduplicate staging table'' (ds_merge d opts) w1 of
                (w2, Some e) \<Rightarrow> (fst (ds_drop d normalised (fst (ds_drop d raw w2))), Inl e)
              | (w2, None) \<Rightarrow> (fst (ds_drop d raw w2), Inr normalised)))"

definition replace_staging_table_name :: "int \<Rightarrow> ('w, 'e) destination \<Rightarrow> ingest_config \<Rightarrow> string" where
  "replace_staging_table_name now d c =
     generate_replace_staging_table_name now (cf_dest_table c) ''staging'' (cf_staging_dataset c)
       (case ds_replace_policy d of None \<Rightarrow> default_replace_staging_policy | Some p \<Rightarrow> p) (cf_run_id c)"

text \<open>The rows that \<open>wrapWithRowCount\<close> counts.\<close>

definition counted_rows :: "record_result list \<Rightarrow> int" where
  "counted_rows rs = int (length (all_rows (batches_of rs)))"

text \<open>A failure after the staging table was written drops it.\<close>

definition or_drop :: "('w, 'e) destination \<Rightarrow> string \<Rightarrow> ('w, 'e) step \<Rightarrow> ('w, 'e) step" where
  "or_drop d table step w = (case step w of (w1, Some e) \<Rightarrow> (fst (ds_drop d table w1), Some e) | (w1, None) \<Rightarrow> (w1, None))"

definition verify_row_count :: "('w, 'e) destination \<Rightarrow> string \<Rightarrow> int \<Rightarrow> ('w, 'e) step" where
  "verify_row_count d table n w =
     (case ds_wait_rows d of
        None \<Rightarrow> (w, None)
      | Some wait \<Rightarrow> (if 0 < n then or_drop d table (step_of ''failed to verify staging table row count'' (wait table n)) w else (w, None)))"

definition swap_in :: "('w, 'e) destination \<Rightarrow> 'w job \<Rightarrow> string \<Rightarrow> string list \<Rightarrow> ('w, 'e) step" where
  "swap_in d j table keys =
     (let c = jb_config j
      in or_drop d table
           (step_of ''failed to swap tables''
              (ds_swap d \<lparr>so_staging_table = table, so_target_table = cf_dest_table c, so_swap_keys = keys,
                 so_swap_incremental_key = cf_incremental_key c, so_schema = Some (jb_schema j)\<rparr>)))"

text \<open>\<open>ReplaceStrategy.Execute\<close>: into a staging table that is swapped in, or straight into the target
  where the destination cannot swap.\<close>

definition replace_prepare :: "('w, 'e) destination \<Rightarrow> 'w job \<Rightarrow> string \<Rightarrow> bool \<Rightarrow> bool \<Rightarrow> prepare_options" where
  "replace_prepare d j table deferred staged_dedup =
     (let c = jb_config j
      in prepare_options0\<lparr>po_table := table, po_target_table := cf_dest_table c, po_schema := Some (jb_schema j),
           po_drop_first := True, po_primary_keys := (if deferred \<or> staged_dedup then [] else cf_primary_keys c),
           po_deferred_primary_keys := (if deferred then cf_primary_keys c else []),
           po_partition_by := cf_partition_by c, po_cluster_by := cf_cluster_by c, po_expires := ds_supports_atomic_swap d\<rparr>)"

definition finish_replace :: "int \<Rightarrow> ('w, 'e) destination \<Rightarrow> 'w job \<Rightarrow> string \<Rightarrow> bool \<Rightarrow> ('w, 'e) step" where
  "finish_replace now d j table staged_dedup w =
     (if \<not> staged_dedup then swap_in d j table (cf_primary_keys (jb_config j)) w
      else (case deduplicate_staging now d j table w of
              (w1, Inl e) \<Rightarrow> (w1, Some e)
            | (w1, Inr normalised) \<Rightarrow> swap_in d j normalised [] w1))"

definition execute_replace :: "int \<Rightarrow> ('w, 'e) destination \<Rightarrow> 'w job \<Rightarrow> ('w, 'e) step" where
  "execute_replace now d j w =
     (if ds_reverse_etl d then execute_reverse_etl ''replace'' d j w
      else
        (let c = jb_config j; ts = jb_schema j; use_staging = ds_supports_atomic_swap d;
             table = (if use_staging then replace_staging_table_name now d c else cf_dest_table c);
             dedup = \<not> effective_primary_keys_guaranteed_unique j \<and> replace_should_dedup d (cf_primary_keys c);
             staged_dedup = use_staging \<and> dedup;
             direct_dedup = \<not> use_staging \<and> dedup \<and> ds_direct_deduplication d;
             deferred = use_staging \<and> replace_should_defer_staging_primary_key d j;
             at_once = use_staging \<and> ds_atomic_commit_writes d;
             opts = write_options0\<lparr>wo_table := table, wo_schema := Some ts,
               wo_parallelism := replace_write_parallelism d j deferred, wo_staging_table := use_staging,
               wo_pre_staged := jb_pre_staged j, wo_primary_keys := (if direct_dedup then cf_primary_keys c else []),
               wo_deduplicate := direct_dedup, wo_incremental_key := (if direct_dedup then cf_incremental_key c else []),
               wo_atomic_commit := at_once\<rparr>
         in case step_of ''failed to prepare table'' (ds_prepare d (replace_prepare d j table deferred staged_dedup)) w of
              (w1, Some e) \<Rightarrow> (w1, Some e)
            | (w1, None) \<Rightarrow>
                (case jb_read j (read_request_of j (cf_incremental_key c) False) of
                   Inl e \<Rightarrow> (w1, Some (SourceFailed e))
                 | Inr rs \<Rightarrow>
                     (let write = write_parallel_step d ''failed to write data'' opts rs;
                          rows = (case jb_pre_staged j of None \<Rightarrow> counted_rows rs | Some n \<Rightarrow> n)
                      in if use_staging
                         then run_steps
                           ([or_drop d table write] @
                            (if at_once then [] else [verify_row_count d table rows]) @
                            [finish_replace now d j table staged_dedup]) w1
                         else write w1))))"

end
