(* ===== verification/Strategy_Contract.thy ===== *)
theory Strategy_Contract
  imports Strategy_Execute
begin

text \<open>
  What the strategies with a staging table rely on: the contract of a destination for one target and
  one staging table, as a locale, and what a run of merge, delete+insert or SCD2 does to the target
  under it: nothing before the staged rows are complete, then the evolution and one load.
\<close>

subsection \<open>Steps\<close>

lemma run_steps_append:
  "run_steps (xs @ ys) w = (case run_steps xs w of (w1, Some e) \<Rightarrow> (w1, Some e) | (w1, None) \<Rightarrow> run_steps ys w1)"
  by (induction xs arbitrary: w) (auto split: prod.splits option.splits)

lemma run_steps_Cons:
  "run_steps (s # ss) w = (w', r) \<longleftrightarrow>
     (\<exists>w1 e. s w = (w1, e) \<and> (e \<noteq> None \<and> w' = w1 \<and> r = e \<or> e = None \<and> run_steps ss w1 = (w', r)))"
  by (auto split: prod.splits option.splits)

lemma step_of_eq: "step_of what op w = (w', r) \<longleftrightarrow> (\<exists>e. op w = (w', e) \<and> r = map_option (StepFailed what) e)"
  by (auto simp: step_of_def split: prod.splits)

lemma lease_step_eq:
  assumes "\<And>w. fst (lease w) = w"
  shows "lease_step lease w = (w', r) \<longleftrightarrow> w' = w \<and> r = (if snd (lease w) then Some LeaseGone else None)"
  using assms [of w] by (auto simp: lease_step_def split: prod.splits)

text \<open>A stretch of the results without a truncate is written at once.\<close>

lemma segment_plain:
  "segment rs = (seg, rest) \<Longrightarrow> TruncateMark \<notin> set rs \<Longrightarrow>
    (case rest of [] \<Rightarrow> seg = map plain_result rs | Broken e # _ \<Rightarrow> True | _ \<Rightarrow> False)"
  by (induction rs arbitrary: seg rule: segment.induct) (auto split: prod.splits list.splits record_result.splits)

lemma write_without_truncates:
  assumes plain: "TruncateMark \<notin> set rs"
    and run: "write_with_truncate_boundaries d opt False False rs w = (w', truncated, r)"
  shows "\<not> truncated \<and> (w' = w \<and> r \<noteq> None \<or>
    (\<exists>bs e. ds_write d opt bs w = (w', e) \<and> (e = None \<or> r \<noteq> None) \<and> (r = None \<longrightarrow> bs = map plain_result rs)))"
proof (cases rs)
  case Nil
  obtain w1 e where w1: "ds_write d opt [] w = (w1, e)" by (cases "ds_write d opt [] w")
  then have "\<not> truncated" "ds_write d opt [] w = (w', e)" "r = map_option (StepFailed ''write'') e"
    using run Nil by (auto simp: step_of_def)
  moreover from this have "e = None \<or> r \<noteq> None" "r = None \<longrightarrow> [] = map plain_result rs" using Nil by auto
  ultimately show ?thesis by blast
next
  case (Cons x xs)
  show ?thesis
  proof (cases x)
    case (Data b)
    obtain seg rest where s: "segment xs = (seg, rest)" by (cases "segment xs")
    have "TruncateMark \<notin> set xs" using plain Cons by simp
    note seg = segment_plain [OF s this]
    obtain w1 e where w1: "ds_write d opt (Inr b # seg) w = (w1, e)" by (cases "ds_write d opt (Inr b # seg) w")
    show ?thesis
    proof (cases e)
      case None
      then show ?thesis
        using run w1 s seg Cons Data
        by (cases rest; cases "hd rest") (auto simp: step_of_def split: list.splits record_result.splits)
    next
      case (Some err)
      then show ?thesis using run w1 s Cons Data by (auto simp: step_of_def)
    qed
  qed (use run plain Cons in auto)
qed

subsection \<open>The contract\<close>

locale staged_loads =
  fixes d :: "('w, 'e) destination"
    and target staging :: string
    and ready :: "'w \<Rightarrow> bool"
    and staged :: "table_schema \<Rightarrow> batches option \<Rightarrow> 'w \<Rightarrow> bool"
    and alone :: "'w \<Rightarrow> 'w \<Rightarrow> bool"
  assumes alone_refl: "alone w w"
    and alone_trans: "alone u v \<Longrightarrow> alone v w \<Longrightarrow> alone u w"
    and prepare_target: "ready w \<Longrightarrow> po_table opt = target \<Longrightarrow> \<not> po_drop_first opt \<Longrightarrow>
      ds_prepare d opt w = (w', r) \<Longrightarrow> alone w w' \<and> (r = None \<longrightarrow> ready w')"
    and prepare_staging: "ready w \<Longrightarrow> po_table opt = staging \<Longrightarrow> po_drop_first opt \<Longrightarrow> po_schema opt = Some ts \<Longrightarrow>
      ds_prepare d opt w = (w', r) \<Longrightarrow> alone w w' \<and> (r = None \<longrightarrow> ready w' \<and> staged ts None w')"
    and write_staging: "ready w \<Longrightarrow> staged ts None w \<Longrightarrow> wo_table wopt = staging \<Longrightarrow>
      ds_write d wopt bs w = (w', r) \<Longrightarrow> alone w w' \<and> (r = None \<longrightarrow> ready w' \<and> staged ts (Some bs) w')"
    and evolve_target: "ready w \<Longrightarrow> staged ts content w \<Longrightarrow> ds_evolve d = Some evolve \<Longrightarrow>
      evolve target cmp w = (w', r) \<Longrightarrow> ready w' \<and> staged ts content w'"
    and merge_target: "ready w \<Longrightarrow> mo_target_table m = target \<Longrightarrow> ds_merge d m w = (w', r) \<Longrightarrow> ready w'"
    and reload_target: "ready w \<Longrightarrow> dr_target_table di = target \<Longrightarrow> ds_delete_insert d di w = (w', r) \<Longrightarrow> ready w'"
    and scd2_target: "ready w \<Longrightarrow> sr_target_table sc = target \<Longrightarrow> ds_scd2 d sc w = (w', r) \<Longrightarrow> ready w'"
    and drop_staging: "ready w \<Longrightarrow> ds_drop d staging w = (w', r) \<Longrightarrow> alone w w'"

text \<open>A run that leaves the target alone but for an evolution and one load, made when the staging
  table is complete; one that reports success has done both.\<close>

definition one_load ::
  "('w \<Rightarrow> 'w \<Rightarrow> bool) \<Rightarrow> ('w \<Rightarrow> bool) \<Rightarrow> ('w, 'e) step \<Rightarrow> ('w, 'e) operation \<Rightarrow> 'w \<Rightarrow> 'w \<Rightarrow> 'e strategy_error option \<Rightarrow> bool" where
  "one_load alone filled evolution load w w' r \<longleftrightarrow>
     r \<noteq> None \<and> alone w w' \<or>
     (\<exists>w1 w2 e. alone w w1 \<and> filled w1 \<and> evolution w1 = (w2, e) \<and>
        (r \<noteq> None \<and> w' = w2 \<or>
         e = None \<and> filled w2 \<and> (\<exists>w3 e'. load w2 = (w3, e') \<and> (e' \<noteq> None \<longrightarrow> r \<noteq> None) \<and> alone w3 w')))"

context staged_loads
begin

lemma evolution_staged:
  assumes "\<And>p. jb_plan j = Some p \<Longrightarrow> ep_table p = target" "ready w" "staged ts content w"
    "apply_evolution d j w = (w', r)"
  shows "ready w' \<and> staged ts content w'"
proof (cases "\<exists>p f. jb_plan j = Some p \<and> ds_evolve d = Some f \<and> plan_has_changes (Some p)")
  case False
  then have "w' = w" using assms(4) by (auto simp: apply_evolution_def split: option.splits if_splits)
  then show ?thesis using assms(2,3) by simp
next
  case True
  then obtain p f where p: "jb_plan j = Some p" "ds_evolve d = Some f" "plan_has_changes (Some p)" by blast
  obtain w1 e where w1: "f target (ep_comparison p) w = (w1, e)" by (cases "f target (ep_comparison p) w")
  then have "w' = w1" using assms(4) p assms(1) [OF p(1)] by (simp add: apply_evolution_def step_of_def)
  then show ?thesis using evolve_target [OF assms(2,3) p(2) w1] by simp
qed

lemma quiet_drop:
  assumes "ready w" "run_steps (drop_staging d j staging) w = (w', r)"
  shows "alone w w'"
  using assms(2) drop_staging [OF assms(1) prod.collapse [symmetric]] alone_refl
  by (auto simp: drop_staging_def quietly_def split: if_splits)

lemma finish_load:
  assumes lease: "\<And>w. fst (jb_lease j w) = w" and plan: "\<And>p. jb_plan j = Some p \<Longrightarrow> ep_table p = target"
    and w: "ready w" "staged ts content w" and load: "\<And>w1 w2 e. ready w1 \<Longrightarrow> op w1 = (w2, e) \<Longrightarrow> ready w2"
    and run: "run_steps ([apply_evolution d j, step_of what op] @ drop_staging d j staging) w = (w', r)"
  shows "one_load alone (\<lambda>w. ready w \<and> staged ts content w) (apply_evolution d j) op w w' r"
proof -
  obtain w1 e where w1: "apply_evolution d j w = (w1, e)" by (cases "apply_evolution d j w")
  note k1 = evolution_staged [OF plan w w1]
  show ?thesis
  proof (cases e)
    case (Some err)
    then have "w' = w1" "r \<noteq> None" using run w1 by auto
    then show ?thesis using w w1 alone_refl unfolding one_load_def by blast
  next
    case None
    obtain w2 e' where w2: "op w1 = (w2, e')" by (cases "op w1")
    have "(e' \<noteq> None \<longrightarrow> r \<noteq> None) \<and> alone w2 w'"
    proof (cases e')
      case (Some err)
      then show ?thesis using run w1 None w2 alone_refl by (auto simp: step_of_def)
    next
      case None': None
      then have "run_steps (drop_staging d j staging) w2 = (w', r)"
        using run w1 None w2 by (simp add: step_of_def)
      from quiet_drop [OF load [OF _ w2] this] show ?thesis using k1 None' by blast
    qed
    then show ?thesis using w w1 None k1 w2 alone_refl unfolding one_load_def by blast
  qed
qed

lemma lease_same:
  assumes "\<And>w. fst (jb_lease j w) = w"
  shows "lease_step (jb_lease j) w = (w, if snd (jb_lease j w) then Some LeaseGone else None)"
  using assms [of w] by (auto simp: lease_step_def split: prod.splits)

lemma finish_merge_load:
  assumes lease: "\<And>w. fst (jb_lease j w) = w" and plan: "\<And>p. jb_plan j = Some p \<Longrightarrow> ep_table p = target"
    and dest: "cf_dest_table (jb_config j) = target" and w: "ready w" "staged ts content w"
    and run: "run_steps (finish_merge d j staging False) w = (w', r)"
  defines "opts \<equiv> merge_staging_options d staging target (cf_primary_keys (jb_config j)) (jb_schema j)
    (cf_incremental_key (jb_config j)) (cf_incremental_predicate (jb_config j))"
  shows "one_load alone (\<lambda>w. ready w \<and> staged ts content w) (apply_evolution d j) (ds_merge d opts) w w' r"
proof -
  let ?lease = "lease_step (jb_lease j)"
  let ?tail = "if cf_keep_staging (jb_config j) then [] else [?lease] @ drop_staging d j staging @ [?lease]"
  let ?rest = "[?lease, ?lease, step_of ''failed to merge data'' (ds_merge d opts), ?lease] @ ?tail"
  note first = lease_same [OF lease]
  have steps: "finish_merge d j staging False = ?lease # ?lease # apply_evolution d j # ?rest"
    by (simp add: finish_merge_def opts_def dest Let_def)
  obtain w1 e where w1: "apply_evolution d j w = (w1, e)" by (cases "apply_evolution d j w")
  note k1 = evolution_staged [OF plan w w1]
  have tail: "alone v w'" if v: "ready v" "run_steps (?lease # ?tail) v = (w', r)" for v
  proof (cases "cf_keep_staging (jb_config j) \<or> snd (jb_lease j v)")
    case True
    then show ?thesis using v(2) alone_refl by (auto simp: first split: if_splits)
  next
    case False
    obtain v1 e1 where v1: "ds_drop d staging v = (v1, e1)" by (cases "ds_drop d staging v")
    then have "run_steps [?lease] v1 = (w', r)"
      using v(2) False by (simp add: first drop_staging_def quietly_def v1 split: if_splits)
    then have "w' = v1" by (auto simp: first split: if_splits)
    then show ?thesis using drop_staging [OF v(1) v1] by simp
  qed
  consider (lost) "w' = w" "r \<noteq> None" | (unevolved) "w' = w1" "r \<noteq> None"
    | (loaded) w2 e' where "e = None" "ds_merge d opts w1 = (w2, e')" "e' = None \<longrightarrow> run_steps (?lease # ?tail) w2 = (w', r)"
      "e' \<noteq> None \<longrightarrow> w' = w2 \<and> r \<noteq> None"
  proof -
    obtain w2 e' where w2: "ds_merge d opts w1 = (w2, e')" by (cases "ds_merge d opts w1")
    have "snd (jb_lease j w) \<longrightarrow> w' = w \<and> r \<noteq> None"
      using run unfolding steps by (auto simp: first)
    moreover have "\<not> snd (jb_lease j w) \<and> (e \<noteq> None \<or> snd (jb_lease j w1)) \<longrightarrow> w' = w1 \<and> r \<noteq> None"
      using run w1 unfolding steps by (auto simp: first split: if_splits option.splits)
    moreover have "\<not> snd (jb_lease j w) \<and> e = None \<and> \<not> snd (jb_lease j w1) \<longrightarrow>
        (e' = None \<longrightarrow> run_steps (?lease # ?tail) w2 = (w', r)) \<and> (e' \<noteq> None \<longrightarrow> w' = w2 \<and> r \<noteq> None)"
      using run w1 w2 unfolding steps by (auto simp: first step_of_def split: if_splits)
    ultimately have "snd (jb_lease j w) \<and> w' = w \<and> r \<noteq> None \<or> w' = w1 \<and> r \<noteq> None \<or>
        e = None \<and> (e' = None \<longrightarrow> run_steps (?lease # ?tail) w2 = (w', r)) \<and> (e' \<noteq> None \<longrightarrow> w' = w2 \<and> r \<noteq> None)"
      by argo
    then show ?thesis using lost unevolved loaded [OF _ w2] by (elim disjE conjE)
  qed
  then show ?thesis
  proof cases
    case lost
    then show ?thesis using alone_refl unfolding one_load_def by blast
  next
    case unevolved
    then show ?thesis using alone_refl w w1 unfolding one_load_def by blast
  next
    case loaded
    have "ready w2" using merge_target [OF _ _ loaded(2)] k1 by (simp add: opts_def merge_staging_options_def)
    then have "alone w2 w'" using loaded(3,4) tail alone_refl by (cases e') auto
    moreover have "e' \<noteq> None \<longrightarrow> r \<noteq> None" using loaded(4) by blast
    ultimately show ?thesis using alone_refl w w1 k1 loaded(1,2) unfolding one_load_def by blast
  qed
qed

lemma one_load_earlier:
  assumes "alone w v" "one_load alone filled evolution load v w' r"
  shows "one_load alone filled evolution load w w' r"
  using assms(2) alone_trans [OF assms(1)] unfolding one_load_def by blast

lemma prepare_tables:
  assumes w: "ready w" and t: "po_table topt = target" "\<not> po_drop_first topt"
    and s: "po_table sopt = staging" "po_drop_first sopt" "po_schema sopt = Some ts"
    and run: "run_steps [step_of a (ds_prepare d topt), step_of b (ds_prepare d sopt)] w = (w', r)"
  shows "alone w w' \<and> (r = None \<longrightarrow> ready w' \<and> staged ts None w')"
proof -
  obtain w1 e where w1: "ds_prepare d topt w = (w1, e)" by (cases "ds_prepare d topt w")
  obtain w2 e' where w2: "ds_prepare d sopt w1 = (w2, e')" by (cases "ds_prepare d sopt w1")
  note k1 = prepare_target [OF w t w1]
  show ?thesis
  proof (cases e)
    case None
    then have "w' = w2" "r = map_option (StepFailed b) e'" using run w1 w2 by (auto simp: step_of_def split: option.splits)
    then show ?thesis using k1 None prepare_staging [OF _ s w2] alone_trans by blast
  qed (use run w1 k1 in \<open>auto simp: step_of_def\<close>)
qed

lemma prepare_merge:
  assumes lease: "\<And>w. fst (jb_lease j w) = w" and dest: "cf_dest_table (jb_config j) = target"
    and w: "ready w" and run: "run_steps (prepare_merge_tables d j staging) w = (w', r)"
  shows "alone w w' \<and> (r = None \<longrightarrow> ready w' \<and> staged (jb_schema j) None w')"
proof -
  let ?lease = "lease_step (jb_lease j)"
  note first = lease_same [OF lease]
  have t: "po_table (merge_target_options j) = target" "\<not> po_drop_first (merge_target_options j)"
    using dest by (simp_all add: merge_target_options_def prepare_options0_def Let_def)
  have s: "po_table (merge_staging_prepare j staging) = staging" "po_drop_first (merge_staging_prepare j staging)"
    "po_schema (merge_staging_prepare j staging) = Some (jb_schema j)"
    by (simp_all add: merge_staging_prepare_def prepare_options0_def Let_def)
  obtain w1 e where w1: "ds_prepare d (merge_target_options j) w = (w1, e)" by (cases "ds_prepare d (merge_target_options j) w")
  obtain w2 e' where w2: "ds_prepare d (merge_staging_prepare j staging) w1 = (w2, e')"
    by (cases "ds_prepare d (merge_staging_prepare j staging) w1")
  note k1 = prepare_target [OF w t w1]
  consider "w' = w" "r \<noteq> None" | "w' = w1" "r \<noteq> None" | "e = None" "w' = w2" "e' = None \<or> r \<noteq> None"
    using run w1 w2 unfolding prepare_merge_tables_def
    by (auto simp: first step_of_def split: if_splits option.splits)
  then show ?thesis using alone_refl k1 prepare_staging [OF _ s w2] alone_trans by cases blast+
qed

text \<open>The three strategies.\<close>

lemma merge_run:
  fixes j :: "'w job"
  defines "c \<equiv> jb_config j"
  assumes lease: "\<And>w. fst (jb_lease j w) = w" and plan: "\<And>p. jb_plan j = Some p \<Longrightarrow> ep_table p = target"
    and kind: "\<not> ds_reverse_etl d" "\<not> has_cdc_columns (Some (jb_schema j))" and dest: "cf_dest_table c = target"
    and name: "managed_staging_table_name now (ds_policy d) target ''merge'' (cf_staging_dataset c) (cf_run_id c) = staging"
    and plain: "\<And>rs. jb_read j (read_request_of j (cf_incremental_key c) False) = Inr rs \<Longrightarrow> TruncateMark \<notin> set rs"
    and w: "ready w" and run: "execute_merge now d j w = (w', r)"
  shows "r \<noteq> None \<and> alone w w' \<or>
    (\<exists>rs. jb_read j (read_request_of j (cf_incremental_key c) False) = Inr rs \<and>
       one_load alone (\<lambda>w. ready w \<and> staged (jb_schema j) (Some (map plain_result rs)) w) (apply_evolution d j)
         (ds_merge d (merge_staging_options d staging target (cf_primary_keys c) (jb_schema j)
           (cf_incremental_key c) (cf_incremental_predicate c))) w w' r)"
proof -
  let ?req = "read_request_of j (cf_incremental_key c) False"
  obtain w1 e where w1: "run_steps (prepare_merge_tables d j staging) w = (w1, e)"
    by (cases "run_steps (prepare_merge_tables d j staging) w")
  note k1 = prepare_merge [OF lease dest [unfolded c_def] w w1]
  show ?thesis
  proof (cases "e = None \<and> (\<exists>rs. jb_read j ?req = Inr rs)")
    case False
    then have "w' = w1" "r \<noteq> None"
      using run w1 kind dest name by (auto simp: execute_merge_def c_def Let_def split: option.splits sum.splits)
    then show ?thesis using k1 by blast
  next
    case True
    then obtain rs where rs: "e = None" "jb_read j ?req = Inr rs" by blast
    let ?opts = "(staging_write_options j staging (jb_schema j))\<lparr>wo_pre_staged := jb_pre_staged j\<rparr>"
    have table: "wo_table ?opts = staging" by (simp add: staging_write_options_def write_options0_def)
    obtain w2 tr e2 where w2: "write_with_truncate_boundaries d ?opts False False rs w1 = (w2, tr, e2)"
      by (cases "write_with_truncate_boundaries d ?opts False False rs w1")
    note wr = write_without_truncates [OF plain [OF rs(2)] w2]
    have ready1: "ready w1" "staged (jb_schema j) None w1" using k1 rs(1) by simp_all
    have written: "alone w1 w2 \<and> (e2 = None \<longrightarrow> ready w2 \<and> staged (jb_schema j) (Some (map plain_result rs)) w2)"
    proof (cases "w2 = w1 \<and> e2 \<noteq> None")
      case False
      with wr obtain bs f where f: "ds_write d ?opts bs w1 = (w2, f)" "f = None \<or> e2 \<noteq> None" "e2 = None \<longrightarrow> bs = map plain_result rs"
        by blast
      then show ?thesis using write_staging [OF ready1 table f(1)] by auto
    qed (use alone_refl in auto)
    show ?thesis
    proof (cases e2)
      case (Some err)
      then have "w' = w2" "r \<noteq> None"
        using run w1 rs w2 kind dest name by (auto simp: execute_merge_def c_def Let_def)
      moreover have "alone w w2" using k1 written alone_trans by blast
      ultimately show ?thesis by blast
    next
      case None
      have "run_steps (finish_merge d j staging False) w2 = (w', r)"
        using run w1 rs w2 None kind dest name by (simp add: execute_merge_def c_def Let_def)
      from finish_merge_load [OF lease plan dest [unfolded c_def] _ _ this]
      have "one_load alone (\<lambda>w. ready w \<and> staged (jb_schema j) (Some (map plain_result rs)) w) (apply_evolution d j)
         (ds_merge d (merge_staging_options d staging target (cf_primary_keys c) (jb_schema j)
           (cf_incremental_key c) (cf_incremental_predicate c))) w2 w' r"
        using written None unfolding c_def by blast
      moreover have "alone w w2" using k1 written alone_trans by blast
      ultimately show ?thesis using one_load_earlier rs(2) by blast
    qed
  qed
qed

lemma staged_write:
  assumes w: "ready w" "staged ts None w" and table: "wo_table opts = staging"
    and run: "write_parallel_step d what opts rs w = (w', r)"
  shows "alone w w' \<and> (r = None \<longrightarrow> ready w' \<and> staged ts (Some (map plain_result rs)) w')"
  using run write_staging [OF w table, of "map plain_result rs"] by (auto simp: write_parallel_step_def step_of_eq)

lemma scd2_run:
  fixes j :: "'w job"
  defines "c \<equiv> jb_config j" and "extended \<equiv> extend_schema_with_scd_columns (jb_schema j)"
  assumes lease: "\<And>w. fst (jb_lease j w) = w" and plan: "\<And>p. jb_plan j = Some p \<Longrightarrow> ep_table p = target"
    and kind: "\<not> has_cdc_columns (Some (jb_schema j))" and dest: "cf_dest_table c = target"
    and name: "managed_staging_table_name now (ds_policy d) target ''scd2'' (cf_staging_dataset c) (cf_run_id c) = staging"
    and w: "ready w" and run: "execute_scd2 now d j w = (w', r)"
  shows "r \<noteq> None \<and> alone w w' \<or>
    (\<exists>rs. jb_read j (read_request_of j (cf_incremental_key c) False) = Inr rs \<and>
       one_load alone (\<lambda>w. ready w \<and> staged extended (Some (map (\<lambda>x. plain_result (with_scd_columns now x)) rs)) w)
         (apply_evolution d j)
         (ds_scd2 d
            \<lparr>sr_staging_table = staging, sr_target_table = target,
             sr_options = \<lparr>so_primary_keys = cf_primary_keys c, so_columns = column_names (jb_schema j),
               so_incremental_key = cf_incremental_key c, so_timestamp = now\<rparr>,
             sr_schema = jb_schema j\<rparr>) w w' r)"
proof -
  let ?req = "read_request_of j (cf_incremental_key c) False"
  let ?t = "prepare_options0\<lparr>po_table := target,
    po_schema := map_option extend_schema_with_scd_columns (destination_table_schema (Some (jb_schema j))),
    po_partition_by := cf_partition_by c, po_cluster_by := cf_cluster_by c\<rparr>"
  let ?s = "staging_prepare j staging extended"
  let ?prepare = "[step_of ''failed to prepare destination table'' (ds_prepare d ?t),
    step_of ''failed to prepare staging table'' (ds_prepare d ?s)]"
  have t: "po_table ?t = target" "\<not> po_drop_first ?t" by (simp_all add: prepare_options0_def)
  have s: "po_table ?s = staging" "po_drop_first ?s" "po_schema ?s = Some extended"
    by (simp_all add: staging_prepare_def prepare_options0_def Let_def)
  obtain w1 e where w1: "run_steps ?prepare w = (w1, e)" by (cases "run_steps ?prepare w")
  note k1 = prepare_tables [OF w t s w1]
  show ?thesis
  proof (cases "e = None \<and> (\<exists>rs. jb_read j ?req = Inr rs)")
    case False
    then have "w' = w1" "r \<noteq> None"
      using run w1 kind dest name
      by (auto simp: execute_scd2_def c_def extended_def Let_def simp del: run_steps.simps split: option.splits sum.splits)
    then show ?thesis using k1 by blast
  next
    case True
    then obtain rs where rs: "e = None" "jb_read j ?req = Inr rs" by blast
    let ?rs = "map (with_scd_columns now) rs" and ?opts = "staging_write_options j staging extended"
    let ?writing = "write_parallel_step d ''failed to write to staging'' ?opts ?rs"
    let ?load = "ds_scd2 d
            \<lparr>sr_staging_table = staging, sr_target_table = target,
             sr_options = \<lparr>so_primary_keys = cf_primary_keys c, so_columns = column_names (jb_schema j),
               so_incremental_key = cf_incremental_key c, so_timestamp = now\<rparr>,
             sr_schema = jb_schema j\<rparr>"
    let ?finish = "[apply_evolution d j, step_of ''failed to perform SCD2 merge'' ?load] @ drop_staging d j staging"
    have table: "wo_table ?opts = staging" by (simp add: staging_write_options_def write_options0_def)
    obtain w2 e2 where w2: "?writing w1 = (w2, e2)" by (cases "?writing w1")
    have ready1: "ready w1" "staged extended None w1" using k1 rs(1) by simp_all
    note written = staged_write [OF ready1 table w2]
    have "run_steps (?writing # ?finish) w1 = (w', r)"
      using run w1 rs kind dest name
      by (simp add: execute_scd2_def c_def extended_def Let_def del: run_steps.simps)
    then have fin: "if e2 = None then run_steps ?finish w2 = (w', r) else w' = w2 \<and> r = e2"
      unfolding run_steps_Cons w2 by auto
    have far: "alone w w2" using k1 written alone_trans by blast
    show ?thesis
    proof (cases e2)
      case (Some err)
      then show ?thesis using fin far by auto
    next
      case None
      have last: "run_steps ?finish w2 = (w', r)" using fin None by simp
      have w2': "ready w2" "staged extended (Some (map plain_result ?rs)) w2" using written None by simp_all
      have load: "ready v2" if "ready v1" "?load v1 = (v2, f)" for v1 v2 f
        by (rule scd2_target [OF that(1) _ that(2)]) simp
      have "one_load alone (\<lambda>w. ready w \<and> staged extended (Some (map plain_result ?rs)) w) (apply_evolution d j) ?load w2 w' r"
        by (rule finish_load [OF lease plan w2' load last])
      from one_load_earlier [OF far this] show ?thesis using rs(2) by (auto simp: comp_def)
    qed
  qed
qed

lemma delete_insert_run:
  fixes j :: "'w job" and now :: int
  defines "c \<equiv> jb_config j" and "ts \<equiv> jb_schema j"
  defines "key \<equiv> fst (resolve_schema_column (Some ts) (cf_incremental_key c))"
    and "kt \<equiv> incremental_key_type (Some ts) (jb_source_schema j) (cf_incremental_key c)"
    and "req \<equiv> read_request_of j (source_incremental_key_for_read (cf_incremental_key c) (jb_source_schema j) (jb_renames j)) False"
  assumes lease: "\<And>w. fst (jb_lease j w) = w" and plan: "\<And>p. jb_plan j = Some p \<Longrightarrow> ep_table p = target"
    and kind: "\<not> has_cdc_columns (Some ts)" "ds_supports_delete_insert d" and dest: "cf_dest_table c = target"
    and name: "managed_staging_table_name now (ds_policy d) target ''di'' (cf_staging_dataset c) (cf_run_id c) = staging"
    and w: "ready w" and run: "execute_delete_insert now al dec256 d j w = (w', r)"
  shows "r \<noteq> None \<and> alone w w' \<or>
    (\<exists>rs t. jb_read j req = Inr rs \<and> track al dec256 (batches_of rs) (new_interval_tracker key) = Some t \<and>
       (let start = resolve_interval_bound (cf_interval_start c) (it_min t);
            stop = resolve_interval_bound (cf_interval_end c) (it_max t);
            bound = (\<lambda>v. if kt = TypeDate then to_date_only v else v)
        in if start = VNil \<or> stop = VNil then alone w w'
           else one_load alone (\<lambda>w. ready w \<and> staged ts (Some (map plain_result rs)) w) (apply_evolution d j)
             (ds_delete_insert d
                \<lparr>dr_staging_table = staging, dr_target_table = target,
                 dr_interval = \<lparr>di_key = key, di_key_type = kt, di_start = bound start, di_end = bound stop\<rparr>,
                 dr_columns = column_names ts, dr_primary_keys = cf_primary_keys c\<rparr>) w w' r))"
proof -
  note defs = c_def ts_def key_def kt_def req_def
  let ?t = "di_target_options j" and ?s = "staging_prepare j staging ts"
  let ?prepare = "[step_of ''failed to prepare destination table'' (ds_prepare d ?t),
    step_of ''failed to prepare staging table'' (ds_prepare d ?s)]"
  have t: "po_table ?t = target" "\<not> po_drop_first ?t"
    using dest by (simp_all add: di_target_options_def prepare_options0_def c_def Let_def)
  have s: "po_table ?s = staging" "po_drop_first ?s" "po_schema ?s = Some ts"
    by (simp_all add: staging_prepare_def prepare_options0_def Let_def)
  obtain w1 e where w1: "run_steps ?prepare w = (w1, e)" by (cases "run_steps ?prepare w")
  note k1 = prepare_tables [OF w t s w1]
  show ?thesis
  proof (cases "e = None \<and> (\<exists>rs. jb_read j req = Inr rs)")
    case False
    then have "w' = w1" "r \<noteq> None"
      using run w1 kind dest name
      by (auto simp: execute_delete_insert_def defs Let_def simp del: run_steps.simps split: option.splits sum.splits)
    then show ?thesis using k1 by blast
  next
    case True
    then obtain rs where rs: "e = None" "jb_read j req = Inr rs" by blast
    let ?opts = "staging_write_options j staging ts"
    let ?writing = "write_parallel_step d ''failed to write to staging'' ?opts rs"
    have table: "wo_table ?opts = staging" by (simp add: staging_write_options_def write_options0_def)
    obtain w2 e2 where w2: "?writing w1 = (w2, e2)" by (cases "?writing w1")
    have ready1: "ready w1" "staged ts None w1" using k1 rs(1) by simp_all
    note written = staged_write [OF ready1 table w2]
    have far: "alone w w2" using k1 written alone_trans by blast
    have fin: "case e2 of Some err \<Rightarrow> w' = w2 \<and> r = Some err
      | None \<Rightarrow> (case track al dec256 (batches_of rs) (new_interval_tracker key) of
            None \<Rightarrow> w' = w2 \<and> r = Some TrackerPanic
          | Some t \<Rightarrow> run_steps (finish_delete_insert d j staging key kt t) w2 = (w', r))"
      using run w1 rs kind dest name w2
      by (auto simp: execute_delete_insert_def defs Let_def simp del: run_steps.simps split: option.splits)
    show ?thesis
    proof (cases "e2 = None \<and> (\<exists>t. track al dec256 (batches_of rs) (new_interval_tracker key) = Some t)")
      case False
      then have "w' = w2" "r \<noteq> None" using fin by (auto split: option.splits)
      then show ?thesis using far by blast
    next
      case True
      then obtain t where tr: "e2 = None" "track al dec256 (batches_of rs) (new_interval_tracker key) = Some t" by blast
      have last: "run_steps (finish_delete_insert d j staging key kt t) w2 = (w', r)" using fin tr by simp
      have w2': "ready w2" "staged ts (Some (map plain_result rs)) w2" using written tr(1) by simp_all
      let ?start = "resolve_interval_bound (cf_interval_start c) (it_min t)"
      let ?stop = "resolve_interval_bound (cf_interval_end c) (it_max t)"
      let ?bound = "\<lambda>v. if kt = TypeDate then to_date_only v else v"
      let ?di = "\<lparr>dr_staging_table = staging, dr_target_table = target,
         dr_interval = \<lparr>di_key = key, di_key_type = kt, di_start = ?bound ?start, di_end = ?bound ?stop\<rparr>,
         dr_columns = column_names ts, dr_primary_keys = cf_primary_keys c\<rparr>"
      have "if ?start = VNil \<or> ?stop = VNil then alone w w'
        else one_load alone (\<lambda>w. ready w \<and> staged ts (Some (map plain_result rs)) w) (apply_evolution d j) (ds_delete_insert d ?di) w w' r"
      proof (cases "?start = VNil \<or> ?stop = VNil")
        case True
        then have "run_steps (drop_staging d j staging) w2 = (w', r)"
          using last by (simp add: finish_delete_insert_def c_def Let_def)
        then show ?thesis using True quiet_drop [OF w2'(1)] far alone_trans by auto
      next
        case False
        then have steps: "run_steps ([apply_evolution d j, step_of ''failed to delete+insert data'' (ds_delete_insert d ?di)] @
            drop_staging d j staging) w2 = (w', r)"
          using last dest by (simp add: finish_delete_insert_def c_def ts_def Let_def del: run_steps.simps cong: if_cong split del: if_split)
        have load: "ready v2" if "ready v1" "ds_delete_insert d ?di v1 = (v2, f)" for v1 v2 f
          by (rule reload_target [OF that(1) _ that(2)]) simp
        from one_load_earlier [OF far finish_load [OF lease plan w2' load steps]] show ?thesis using False by auto
      qed
      then show ?thesis using rs(2) tr(2) unfolding Let_def by blast
    qed
  qed
qed

end

end
