(* ===== verification/Onelake_Rewrite.thy ===== *)
theory Onelake_Rewrite
  imports Onelake_Serial
begin

text \<open>
  What a copy-on-write load and an append leave behind when other writers commit at the same time
  and operations on storage may fail: one commit, made of the table as it stands just before it.
\<close>

subsection \<open>The commit of a rewrite\<close>

lemma read_files_grown:
  "read_files lib files ps = Inr bs \<Longrightarrow> files \<subseteq>\<^sub>m files' \<Longrightarrow> read_files lib files' ps = Inr bs"
proof (induction ps arbitrary: bs)
  case (Cons p ps)
  then obtain d where "files p = Some d" by (auto split: option.splits)
  moreover from this Cons.prems(2) have "files' p = Some d" by (metis domI map_le_def)
  ultimately show ?case using Cons by (auto split: option.splits sum.splits)
qed simp

lemma table_content_grown:
  assumes "table_content lib t = Inr x" "ts_log t' = ts_log t" "ts_files t \<subseteq>\<^sub>m ts_files t'"
  shows "table_content lib t' = Inr x"
proof -
  have "table_snapshot t' = table_snapshot t" by (simp add: table_snapshot_def assms(2))
  then show ?thesis
    using assms(1,3) read_files_grown [of lib "ts_files t" _ _ "ts_files t'"]
    by (auto simp: table_content_def read_delta_data_def split: sum.splits option.splits)
qed

text \<open>What reading a table tells of its log.\<close>

lemma table_content_log:
  assumes "log_ok (ts_log t)" "table_content lib t = Inr (snap, bs)"
  shows "case snap of
      None \<Rightarrow> ts_log t = [] \<and> bs = []
    | Some s \<Rightarrow> ts_log t \<noteq> [] \<and> sn_version s + 1 = next_version (ts_log t) \<and> 0 < next_version (ts_log t) \<and>
        sn_active_files s = active_paths (replayed (ts_log t)) \<and> sn_metadata s = rp_metadata (replayed (ts_log t))"
proof (cases "ts_log t")
  case Nil
  then show ?thesis using assms by (simp add: table_content_def table_snapshot_log)
next
  case (Cons e es)
  with assms obtain s where s: "snap = Some s" "table_snapshot t = Inr (Some s)" "sn_first_version s = 0"
    by (auto simp: table_content_def check_rewritable_def table_snapshot_log split: sum.splits option.splits if_splits)
  have "fst e \<le> fst (last (ts_log t))"
    using assms(1) unfolding Cons log_ok_def by (cases es rule: rev_cases) auto
  then show ?thesis
    using s Cons table_snapshot_log [OF assms(1)] by (auto simp: next_version_def)
qed

definition rewrote ::
  "arrow_lib \<Rightarrow> 'f io_lib \<Rightarrow> load \<Rightarrow> string \<Rightarrow> record_batch list \<Rightarrow> 'f store \<Rightarrow> 'f store \<Rightarrow> bool" where
  "rewrote al lib load dir staging s s' \<longleftrightarrow>
     (\<exists>content out c. table_content lib (s dir) = Inr content \<and> transform al lib load staging content = Inr out \<and>
        s' = committed dir c s \<and> stored_batches lib (s' dir) = Inr (one_file out) \<and>
        (fst content \<noteq> None \<longrightarrow> stored_metadata (s' dir) = stored_metadata (s dir)))"

definition nothing_to_do ::
  "arrow_lib \<Rightarrow> 'f io_lib \<Rightarrow> load \<Rightarrow> string \<Rightarrow> record_batch list \<Rightarrow> 'f store \<Rightarrow> bool" where
  "nothing_to_do al lib load dir staging s \<longleftrightarrow>
     ts_log (s dir) = [] \<and> transform al lib load staging (None, []) = Inr []"

lemma read_one_file:
  assumes "parquet_ok lib" "write_batches_to_parquet lib out = Inr d"
  shows "io_read lib d = Some (one_file out)"
  using assms by (auto simp: write_batches_to_parquet_def parquet_ok_def one_file_def Let_def split: if_splits option.splits)

lemma rewrite_takes_effect:
  assumes ok: "log_ok (ts_log t)" and content: "table_content lib t = Inr (snap, bs)"
    and adds: "set adds \<inter> log_paths (ts_log t) = {}" "adds = [] \<or> adds = [p]"
    and read: "read_files lib (ts_files t) adds = Inr (one_file out)"
    and c: "rewrite_commit uuid snap adds cols = Some (v, c)"
  defines "t' \<equiv> t\<lparr>ts_log := ts_log t @ [(v, c)]\<rparr>"
  shows "v = next_version (ts_log t) \<and> stored_batches lib t' = Inr (one_file out) \<and>
    (snap \<noteq> None \<longrightarrow> stored_metadata t' = stored_metadata t)"
proof -
  note l = table_content_log [OF ok content]
  have v: "v = next_version (ts_log t)"
    using c l by (auto simp: rewrite_commit_def next_version_def Let_def split: option.splits if_splits)
  have "\<forall>x\<in>fst ` set (ts_log t). x < v" using sorted_next_version [OF ok] v by blast
  then have ok': "log_ok (ts_log t')"
    using ok by (auto simp: t'_def log_ok_def sorted_wrt_append)
  have "active_paths (replayed (ts_log t')) = adds \<and>
      (snap \<noteq> None \<longrightarrow> rp_metadata (replayed (ts_log t')) = rp_metadata (replayed (ts_log t)))"
  proof (cases snap)
    case None
    then have "ts_log t = []" "adds = [p]" "c = build_initial_commit cols [p] uuid"
      using l c adds(2) by (auto simp: rewrite_commit_def)
    then show ?thesis using None by (simp add: t'_def initial_replayed)
  next
    case (Some s)
    then have "c = build_rewrite_commit (active_paths (replayed (ts_log t))) adds"
      using l c by (auto simp: rewrite_commit_def Let_def)
    then show ?thesis using rewrite_replayed [OF adds(1), of p v] adds(2) by (simp add: t'_def)
  qed
  moreover have "ts_log t' \<noteq> []" by (simp add: t'_def)
  moreover have "snap \<noteq> None \<Longrightarrow> ts_log t \<noteq> []" using l by (auto split: option.splits)
  ultimately show ?thesis
    using v read table_snapshot_log [OF ok] table_snapshot_log [OF ok']
    by (auto simp: stored_batches_def stored_metadata_def t'_def)
qed

text \<open>The end of an attempt of a rewrite, seen from the state it started in.\<close>

definition rewrite_ends ::
  "arrow_lib \<Rightarrow> 'f io_lib \<Rightarrow> 'f environment \<Rightarrow> load \<Rightarrow> string \<Rightarrow> record_batch list
   \<Rightarrow> 'f lake \<Rightarrow> (io_error, unit) result \<Rightarrow> 'f lake \<Rightarrow> bool" where
  "rewrite_ends al lib env load dir staging w r w' \<longleftrightarrow>
     (\<exists>s. by_others env (w_store w) s \<and>
        (w_store w' = s \<and> (r = Inr () \<longrightarrow> nothing_to_do al lib load dir staging s) \<or>
         rewrote al lib load dir staging s (w_store w')))"

lemma rewrite_attempt_ends:
  assumes good: "good env w" and lib: "parquet_ok lib"
    and step: "rewrite_attempt al lib env load dir staging w = (w', a)"
  shows "(a = Again \<longrightarrow> good env w' \<and> by_others env (w_store w) (w_store w') \<and>
      length (ts_log (w_store w dir)) < length (ts_log (w_store w' dir))) \<and>
    (\<forall>r. a = Done r \<longrightarrow> rewrite_ends al lib env load dir staging w r w')"
proof -
  have fair: "fair env" using good by (simp add: good_def)
  have error: "rewrite_ends al lib env load dir staging w (Inl e) v" if "by_others env (w_store w) (w_store v)" for e v
    using that by (auto simp: rewrite_ends_def)
  obtain f w1 where t: "next_tick env w = (f, w1)" by (cases "next_tick env w")
  note g1 = tick_good [OF good t]
  show ?thesis
  proof (cases "f = Works \<and> (\<exists>content out. table_content lib (w_store w1 dir) = Inr content \<and> transform al lib load staging content = Inr out)")
    case False
    then show ?thesis
      using step t error [OF g1(2)] by (auto simp: rewrite_attempt_def read_delta_table_def split: sum.splits if_splits)
  next
    case True
    then obtain snap bs out where c1: "f = Works" "table_content lib (w_store w1 dir) = Inr (snap, bs)"
      "transform al lib load staging (snap, bs) = Inr out"
      by auto
    have ok: "log_ok (ts_log (w_store w1 dir))" using g1(1) by (simp add: good_def)
    obtain w2 u where u: "upload_rewrite_data lib env dir out w1 = (w2, u)" by (cases "upload_rewrite_data lib env dir out w1")
    let ?p = "data_file (ev_uuid env (w_clock w1))"
    have up: "good env w2 \<and> by_others env (w_store w1) (w_store w2) \<and>
      (\<forall>adds cols. u = Inr (adds, cols) \<longrightarrow> (adds = [] \<or> adds = [?p]) \<and>
         set adds \<inter> log_paths (ts_log (w_store w2 dir)) = {} \<and> (adds = [] \<longrightarrow> out = [] \<and> w2 = w1) \<and>
         read_files lib (ts_files (w_store w2 dir)) adds = Inr (one_file out))"
    proof (cases "out = []")
      case True
      then show ?thesis using u g1(1) by (auto simp: upload_rewrite_data_def one_file_def intro: by_others.idle)
    next
      case False
      show ?thesis
      proof (cases "write_batches_to_parquet lib out")
        case (Inl e)
        then show ?thesis using u False g1(1) by (auto simp: upload_rewrite_data_def intro: by_others.idle)
      next
        case (Inr d)
        obtain w3 r3 where w3: "upload env dir ?p d w1 = (w3, r3)" by (cases "upload env dir ?p d w1")
        note g = upload_good [OF g1(1) w3]
        show ?thesis
          using u False Inr w3 g read_one_file [OF lib Inr]
          by (auto simp: upload_rewrite_data_def Let_def split: sum.splits)
      qed
    qed
    show ?thesis
    proof (cases u)
      case (Inl e)
      then show ?thesis
        using step t c1 u error [OF by_others_trans [OF g1(2)]] up
        by (auto simp: rewrite_attempt_def read_delta_table_def)
    next
      case (Inr ac)
      obtain adds cols where ac: "u = Inr (adds, cols)" using Inr by (cases ac) simp
      have up': "good env w2" "by_others env (w_store w1) (w_store w2)" "adds = [] \<or> adds = [?p]"
        "set adds \<inter> log_paths (ts_log (w_store w2 dir)) = {}" "adds = [] \<longrightarrow> out = [] \<and> w2 = w1"
        "read_files lib (ts_files (w_store w2 dir)) adds = Inr (one_file out)"
        using up ac by simp_all
      let ?rc = "rewrite_commit (ev_uuid env (w_clock w2)) snap adds cols"
      show ?thesis
      proof (cases ?rc)
        case None
        then have n: "snap = None" "adds = []" by (auto simp: rewrite_commit_def Let_def split: option.splits if_splits)
        then have "out = []" "w2 = w1" "ts_log (w_store w1 dir) = []" "bs = []"
          using up'(5) table_content_log [OF ok c1(2)] by auto
        then have "nothing_to_do al lib load dir staging (w_store w1)" "w' = w1" "a = Done (Inr ())"
          using c1 n step t u ac None by (auto simp: nothing_to_do_def rewrite_attempt_def read_delta_table_def)
        then show ?thesis using g1(2) by (auto simp: rewrite_ends_def)
      next
        case (Some vc)
        obtain v c where vc: "?rc = Some (v, c)" using Some by (cases vc) simp
        have p: "publish_attempt env dir v c w2 = (w', a)"
          using step t c1 u ac vc by (simp add: rewrite_attempt_def read_delta_table_def)
        let ?s = "ev_others env (w_clock w2) (w_store w2)"
        have s: "by_others env (w_store w1) ?s" using up'(2) by (rule by_others.others_act)
        let ?t = "?s dir"
        have grown: "extends_log (ts_log (w_store w1 dir)) (ts_log ?t)" "ts_files (w_store w1 dir) \<subseteq>\<^sub>m ts_files ?t"
          using grown_by_others [OF fair s] by (simp_all add: grown_def)
        have version: "v = next_version (ts_log (w_store w1 dir))"
          using vc table_content_log [OF ok c1(2)]
          by (auto simp: rewrite_commit_def next_version_def Let_def split: option.splits if_splits)
        from up'(1) p show ?thesis
        proof (cases rule: publish_outcome)
          case conflict
          have "ts_log (w_store w' dir) \<noteq> ts_log (w_store w1 dir)"
            using conflict(3,4) version next_version_free [OF ok grown(1)] by simp
          moreover have "extends_log (ts_log (w_store w dir)) (ts_log (w_store w1 dir))"
            using grown_by_others [OF fair g1(2)] by (simp add: grown_def)
          ultimately have "length (ts_log (w_store w dir)) < length (ts_log (w_store w' dir))"
            using grown(1) conflict(3) by (auto simp: extends_log_def)
          then show ?thesis using conflict by_others_trans [OF g1(2) s] by simp
        next
          case lost
          have "by_others env (w_store w) (w_store w')"
            using by_others_trans [OF by_others_trans [OF g1(2) up'(2)] lost(2)] .
          then show ?thesis using lost(1) error by simp
        next
          case (landed r)
          have same: "ts_log ?t = ts_log (w_store w1 dir)"
            using version next_version_free [OF ok grown(1)] landed(2) by simp
          have content: "table_content lib ?t = Inr (snap, bs)"
            using table_content_grown [OF c1(2) same grown(2)] .
          have ok2: "log_ok (ts_log ?t)" using ok same by simp
          have paths: "set adds \<inter> log_paths (ts_log ?t) = {}"
          proof (cases "adds = []")
            case False
            then have "adds = [?p]" "?p \<notin> log_paths (ts_log (w_store w2 dir))" using up'(3,4) False by auto
            then show ?thesis using unmentioned_by_others [OF fair by_others.others_act [OF by_others.idle]] by simp
          qed simp
          have "ts_files (w_store w2 dir) \<subseteq>\<^sub>m ts_files ?t"
            using fair by (simp add: fair_def grown_def)
          then have read: "read_files lib (ts_files ?t) adds = Inr (one_file out)"
            using read_files_grown [OF up'(6)] by blast
          note eff = rewrite_takes_effect [OF ok2 content paths _ read vc, of ?p]
          have "w_store w' = committed dir c ?s"
            using landed(3) eff up'(3) insort_next_version [OF ok2] by (auto simp: committed_def)
          then have "rewrote al lib load dir staging ?s (w_store w')"
            using content c1(3) eff up'(3) by (auto simp: rewrote_def committed_def)
          moreover have "by_others env (w_store w) ?s" using by_others_trans [OF g1(2) s] .
          ultimately have "rewrite_ends al lib env load dir staging w r w'" unfolding rewrite_ends_def by blast
          then show ?thesis using landed(1) by simp
        qed
      qed
    qed
  qed
qed

interpretation rewriting: counted_retry "rewrite_attempt al lib env load dir staging" "\<lambda>w. good env w \<and> parquet_ok lib"
    "\<lambda>w w'. by_others env (w_store w) (w_store w')" "rewrite_ends al lib env load dir staging"
    "\<lambda>w. length (ts_log (w_store w dir))"
  for al lib env load dir staging
proof
  fix w v u :: "'a lake" and r
  show "by_others env (w_store w) (w_store w)" by (rule by_others.idle)
  show "by_others env (w_store w) (w_store u)" if "by_others env (w_store w) (w_store v)" "by_others env (w_store v) (w_store u)"
    using that by (rule by_others_trans)
  show "rewrite_ends al lib env load dir staging w r u"
    if "by_others env (w_store w) (w_store v)" "rewrite_ends al lib env load dir staging v r u"
    using that by (auto simp: rewrite_ends_def intro: by_others_trans)
  show "(good env u \<and> parquet_ok lib) \<and> by_others env (w_store w) (w_store u)"
    if "good env w \<and> parquet_ok lib" "rewrite_attempt al lib env load dir staging w = (u, Again)"
    using that rewrite_attempt_ends by blast
  show "rewrite_ends al lib env load dir staging w r u"
    if "good env w \<and> parquet_ok lib" "rewrite_attempt al lib env load dir staging w = (u, Done r)"
    using that rewrite_attempt_ends by blast
  show "length (ts_log (w_store w dir)) < length (ts_log (w_store u dir))"
    if "good env w \<and> parquet_ok lib" "rewrite_attempt al lib env load dir staging w = (u, Again)"
    using that rewrite_attempt_ends by blast
qed

lemma rewrite_serial:
  assumes good: "good env w" and lib: "parquet_ok lib"
    and dirs: "dir_of staging = Inr sdir" "dir_of target = Inr dir"
    and run: "rewrite_table_with_retry al lib env dir_of load target staging w = (w', r)"
  shows "\<exists>s0 s. by_others env (w_store w) s0 \<and> by_others env s0 s \<and>
    (w_store w' = s \<and>
       (r = Inr () \<longrightarrow> (\<exists>snap sb. table_content lib (s0 sdir) = Inr (snap, sb) \<and> nothing_to_do al lib load dir sb s)) \<or>
     (\<exists>snap sb. table_content lib (s0 sdir) = Inr (snap, sb) \<and> rewrote al lib load dir sb s (w_store w')))"
proof -
  obtain f w1 where t: "next_tick env w = (f, w1)" by (cases "next_tick env w")
  note g = tick_good [OF good t]
  show ?thesis
  proof (cases "f = Works \<and> (\<exists>c. table_content lib (w_store w1 sdir) = Inr c)")
    case False
    then have "w_store w' = w_store w1" "r \<noteq> Inr ()"
      using run t by (auto simp: rewrite_table_with_retry_def dirs read_delta_table_def split: sum.splits if_splits)
    then show ?thesis using g(2) by_others.idle by blast
  next
    case True
    then obtain snap sb where c: "f = Works" "table_content lib (w_store w1 sdir) = Inr (snap, sb)" by auto
    obtain w2 res where w2: "retry max_delta_commit_attempts (rewrite_attempt al lib env load dir sb) w1 = (w2, res)"
      by (cases "retry max_delta_commit_attempts (rewrite_attempt al lib env load dir sb) w1")
    have w': "w' = w2" "r = (case res of None \<Rightarrow> Inl TooManyConflicts | Some r \<Rightarrow> r)"
      using run t c w2 by (auto simp: rewrite_table_with_retry_def dirs read_delta_table_def exhausted_def split: option.splits)
    have "case res of None \<Rightarrow> by_others env (w_store w1) (w_store w2)
        | Some r \<Rightarrow> rewrite_ends al lib env load dir sb w1 r w2"
      using rewriting.retry_outcome [OF _ w2] g(1) lib by blast
    then have "rewrite_ends al lib env load dir sb w1 r w'"
      using w' by (auto simp: rewrite_ends_def split: option.splits)
    then show ?thesis using c(2) g(2) unfolding rewrite_ends_def by blast
  qed
qed

text \<open>C11: whatever other writers commit meanwhile and wherever an operation on storage fails, a
  copy-on-write load either leaves the log to the others or adds one commit to it: the target then
  holds exactly the rows that the load makes of the table as it is just before that commit, none of
  the others' commits is lost, and a load that reports success has taken effect.\<close>

theorem rewrite_is_serialized:
  assumes good: "good env w" and lib: "parquet_ok lib"
    and dirs: "dir_of staging = Inr sdir" "dir_of target = Inr dir"
    and run: "rewrite_table_with_retry al lib env dir_of load target staging w = (w', r)"
  shows "\<exists>s0 s. by_others env (w_store w) s0 \<and> by_others env s0 s \<and>
    (w_store w' = s \<and>
       (r = Inr () \<longrightarrow> (\<exists>snap sb. table_content lib (s0 sdir) = Inr (snap, sb) \<and> nothing_to_do al lib load dir sb s)) \<or>
     (\<exists>snap sb. table_content lib (s0 sdir) = Inr (snap, sb) \<and> rewrote al lib load dir sb s (w_store w')))"
  using assms by (rule rewrite_serial)

lemma rewrite_is_serialized_witness:
  "let (w', r) = rewrite_table_with_retry plain_arrow plain_io rival Inr (Merge [''id'']) ''T'' ''S'' two_tables
   in \<exists>s0 s. by_others rival (w_store two_tables) s0 \<and> by_others rival s0 s \<and>
    (w_store w' = s \<and>
       (r = Inr () \<longrightarrow> (\<exists>snap sb. table_content plain_io (s0 ''S'') = Inr (snap, sb) \<and>
          nothing_to_do plain_arrow plain_io (Merge [''id'']) ''T'' sb s)) \<or>
     (\<exists>snap sb. table_content plain_io (s0 ''S'') = Inr (snap, sb) \<and>
        rewrote plain_arrow plain_io (Merge [''id'']) ''T'' sb s (w_store w')))"
proof -
  obtain w' r where run: "rewrite_table_with_retry plain_arrow plain_io rival Inr (Merge [''id'']) ''T'' ''S'' two_tables = (w', r)"
    by (cases "rewrite_table_with_retry plain_arrow plain_io rival Inr (Merge [''id'']) ''T'' ''S'' two_tables")
  have "Inr ''S'' = (Inr ''S'' :: (one_lake_error, string) result)" "Inr ''T'' = (Inr ''T'' :: (one_lake_error, string) result)"
    by (rule refl)+
  from rewrite_is_serialized [OF two_tables_good plain_io_parquet this run] show ?thesis
    unfolding run Let_def prod.case .
qed

text \<open>C12: a copy-on-write load is not held up for nothing: each attempt that ends in a conflict means that
  another writer has committed to the table since the load began, so the load gives up after n
  attempts only when the others have committed n times, and its first attempt ends it when nobody
  else commits.\<close>

theorem rewrite_makes_progress:
  assumes good: "good env w" and lib: "parquet_ok lib"
    and run: "retry n (rewrite_attempt al lib env load dir staging) w = (w', res)"
  shows "(res = None \<longrightarrow> length (ts_log (w_store w dir)) + n \<le> length (ts_log (w_store w' dir)) \<and>
      by_others env (w_store w) (w_store w')) \<and>
    ((\<forall>k s. ts_log (ev_others env k s dir) = ts_log (s dir)) \<and> 0 < n \<longrightarrow>
      (\<exists>r. res = Some r \<and> rewrite_attempt al lib env load dir staging w = (w', Done r)))"
proof -
  have ok: "good env w \<and> parquet_ok lib" using good lib by blast
  have exhausted: "length (ts_log (w_store w dir)) + n \<le> length (ts_log (w_store w' dir)) \<and> by_others env (w_store w) (w_store w')"
    if "res = None"
    using rewriting.exhausted_work [OF ok run [unfolded that]] rewriting.retry_outcome [OF ok run] that by simp
  have quiet: "\<exists>r. res = Some r \<and> rewrite_attempt al lib env load dir staging w = (w', Done r)"
    if idle: "\<forall>k s. ts_log (ev_others env k s dir) = ts_log (s dir)" and n: "0 < n"
  proof -
    have log: "ts_log (t dir) = ts_log (s dir)" if "by_others env s t" for s t
      using that by (induction rule: by_others.induct) (use idle in auto)
    obtain w1 a where a: "rewrite_attempt al lib env load dir staging w = (w1, a)"
      by (cases "rewrite_attempt al lib env load dir staging w")
    have "a \<noteq> Again"
      using rewrite_attempt_ends [OF good lib a] log by fastforce
    then show ?thesis using a run n by (cases n; cases a) auto
  qed
  show ?thesis using exhausted quiet by blast
qed

definition nobody :: "'f environment" where
  "nobody = rival\<lparr>ev_others := (\<lambda>_ s. s)\<rparr>"

lemma nobody_good: "good nobody two_tables"
proof -
  have "fair (rival :: record_batch list environment)" by (rule rival_fair)
  then have "fair (nobody :: record_batch list environment)" by (simp add: nobody_def fair_def grown_refl inj_def)
  then show ?thesis using two_tables_good by (simp add: good_def fresh_def nobody_def)
qed

lemma rewrite_makes_progress_witness:
  "\<exists>w' r. retry max_delta_commit_attempts (rewrite_attempt plain_arrow plain_io nobody (Merge [''id'']) ''T'' []) two_tables = (w', Some r)"
proof -
  obtain w' res where run: "retry max_delta_commit_attempts (rewrite_attempt plain_arrow plain_io nobody (Merge [''id'']) ''T'' []) two_tables = (w', res)"
    by (cases "retry max_delta_commit_attempts (rewrite_attempt plain_arrow plain_io nobody (Merge [''id'']) ''T'' []) two_tables")
  have "ts_log (ev_others nobody k s ''T'') = ts_log (s ''T'')" for k and s :: "record_batch list store"
    by (simp add: nobody_def)
  moreover have "0 < max_delta_commit_attempts" by (simp add: max_delta_commit_attempts_def)
  ultimately show ?thesis using rewrite_makes_progress [OF nobody_good plain_io_parquet run] run by auto
qed

end
