(* ===== verification/Onelake_Append.thy ===== *)
theory Onelake_Append
  imports Onelake_Rewrite
begin

text \<open>
  Appends among other writers, and what a load that gives up has seen.
\<close>

subsection \<open>The commit of an append\<close>

definition appended :: "string \<Rightarrow> string \<Rightarrow> column list \<Rightarrow> 'f \<Rightarrow> 'f store \<Rightarrow> 'f store \<Rightarrow> bool" where
  "appended dir file cols content s s' \<longleftrightarrow>
     (\<exists>c snap'. s' = committed dir c s \<and> ts_files (s' dir) file = Some content \<and>
        table_snapshot (s' dir) = Inr (Some snap') \<and>
        (case table_snapshot (s dir) of
           Inr (Some snap) \<Rightarrow>
             sn_active_files snap' = sn_active_files snap @ [file] \<and> sn_metadata snap' = sn_metadata snap
         | _ \<Rightarrow> sn_active_files snap' = [file] \<and> map_option dm_fields (sn_metadata snap') = Some (delta_schema_of cols)))"

text \<open>Before an attempt: our file is there and unmentioned; a table that was cleared starts at 0.\<close>

definition append_good :: "'f environment \<Rightarrow> target_state \<Rightarrow> string \<Rightarrow> 'f \<Rightarrow> 'f lake \<Rightarrow> bool" where
  "append_good env t file content w \<longleftrightarrow>
     good env w \<and> (\<exists>k. file = data_file (ev_uuid env k)) \<and> ts_files (w_store w (tg_dir t)) file = Some content \<and>
     file \<notin> log_paths (ts_log (w_store w (tg_dir t))) \<and>
     (tg_drop_first t \<longrightarrow> ts_log (w_store w (tg_dir t)) = [] \<or> 0 \<in> fst ` set (ts_log (w_store w (tg_dir t)))) \<and>
     (\<forall>v\<in>fst ` set (ts_log (w_store w (tg_dir t))). 0 \<le> v)"

definition append_ends ::
  "'f environment \<Rightarrow> target_state \<Rightarrow> column list \<Rightarrow> string \<Rightarrow> 'f \<Rightarrow> 'f lake \<Rightarrow> (io_error, unit) result \<Rightarrow> 'f lake \<Rightarrow> bool" where
  "append_ends env t cols file content w r w' \<longleftrightarrow>
     r \<noteq> Inl TooManyConflicts \<and>
     (\<exists>s. by_others env (w_store w) s \<and>
        (w_store w' = s \<and> r \<noteq> Inr () \<or> appended (tg_dir t) file cols content s (w_store w')))"

lemma nonneg_extends:
  assumes "\<forall>v\<in>fst ` set old. 0 \<le> v" "extends_log old new"
  shows "\<forall>v\<in>fst ` set new. 0 \<le> v"
proof -
  obtain later where m: "new = old @ later" "map fst later = map (\<lambda>i. next_version old + int i) [0..<length later]"
    using assms(2) by (auto simp: extends_log_def)
  have "0 \<le> next_version old"
    using assms(1) by (cases old rule: rev_cases) (auto simp: next_version_def intro: add_nonneg_nonneg)
  then have "\<forall>v\<in>set (map fst later). 0 \<le> v" unfolding m(2) by auto
  then show ?thesis using assms(1) by (auto simp: m(1))
qed

lemma starts_at_0:
  assumes "extends_log old new" "old = [] \<or> 0 \<in> fst ` set old"
  shows "new = [] \<or> 0 \<in> fst ` set new"
proof -
  obtain later where m: "new = old @ later" "map fst later = map (\<lambda>i. next_version old + int i) [0..<length later]"
    using assms(1) by (auto simp: extends_log_def)
  show ?thesis
  proof (cases "old = [] \<and> later \<noteq> []")
    case True
    then have "0 \<in> set (map fst later)" unfolding m(2) by (auto simp: next_version_def)
    then show ?thesis by (simp add: m(1) image_Un)
  next
    case False
    then show ?thesis using assms(2) m(1) by auto
  qed
qed

lemma append_good_by_others:
  assumes w: "append_good env t file content w" and s: "by_others env (w_store w) (w_store w')" and g: "good env w'"
  shows "append_good env t file content w'"
proof -
  obtain k where k: "file = data_file (ev_uuid env k)" using w by (auto simp: append_good_def)
  have fair: "fair env" using g by (simp add: good_def)
  have grown: "extends_log (ts_log (w_store w (tg_dir t))) (ts_log (w_store w' (tg_dir t)))"
    "ts_files (w_store w (tg_dir t)) \<subseteq>\<^sub>m ts_files (w_store w' (tg_dir t))"
    using grown_by_others [OF fair s] by (simp_all add: grown_def)
  have "ts_files (w_store w' (tg_dir t)) file = Some content"
  proof -
    have "ts_files (w_store w (tg_dir t)) file = Some content" using w by (simp add: append_good_def)
    then show ?thesis using grown(2) by (metis domI map_le_def)
  qed
  moreover have "file \<notin> log_paths (ts_log (w_store w' (tg_dir t)))"
    using w unmentioned_by_others [OF fair s] unfolding append_good_def k by blast
  moreover have "tg_drop_first t \<longrightarrow> ts_log (w_store w' (tg_dir t)) = [] \<or> 0 \<in> fst ` set (ts_log (w_store w' (tg_dir t)))"
    using w starts_at_0 [OF grown(1)] unfolding append_good_def by blast
  moreover have "\<forall>v\<in>fst ` set (ts_log (w_store w' (tg_dir t))). 0 \<le> v"
    using w [unfolded append_good_def, THEN conjunct2, THEN conjunct2, THEN conjunct2, THEN conjunct2, THEN conjunct2]
    by (rule nonneg_extends [OF _ grown(1)])
  moreover have "\<exists>k. file = data_file (ev_uuid env k)" using k by (rule exI)
  ultimately show ?thesis unfolding append_good_def using g by (intro conjI)
qed

lemma append_takes_effect:
  assumes ok: "log_ok (ts_log (s dir))" and new: "file \<notin> log_paths (ts_log (s dir))"
    and content: "ts_files (s dir) file = Some content" and nonneg: "\<forall>v\<in>fst ` set (ts_log (s dir)). 0 \<le> v"
    and v: "v = next_version (ts_log (s dir))"
    and c: "c = (if v = 0 then build_initial_commit cols [file] uuid else build_append_commit [file])"
  shows "appended dir file cols content s (s(dir := (s dir)\<lparr>ts_log := insort_key fst (v, c) (ts_log (s dir))\<rparr>))"
proof -
  let ?log = "ts_log (s dir)" and ?t = "(s dir)\<lparr>ts_log := ts_log (s dir) @ [(v, c)]\<rparr>"
  have "\<forall>x\<in>fst ` set ?log. x < v" using sorted_next_version [OF ok] v by blast
  then have ok': "log_ok (ts_log ?t)" using ok by (auto simp: log_ok_def sorted_wrt_append)
  have v0: "v = 0 \<longleftrightarrow> ?log = []"
  proof (cases ?log rule: rev_cases)
    case (snoc xs x)
    then show ?thesis using nonneg v by (auto simp: next_version_def)
  qed (use v in \<open>simp add: next_version_def\<close>)
  have "insort_key fst (v, c) ?log = ?log @ [(v, c)]" using insort_next_version [OF ok] v by simp
  moreover have "if ?log = [] then active_paths (replayed (?log @ [(v, c)])) = [file] \<and>
        map_option dm_fields (rp_metadata (replayed (?log @ [(v, c)]))) = Some (delta_schema_of cols)
      else active_paths (replayed (?log @ [(v, c)])) = active_paths (replayed ?log) @ [file] \<and>
        rp_metadata (replayed (?log @ [(v, c)])) = rp_metadata (replayed ?log)"
    using v0 append_replayed [OF new, of v] by (simp add: c initial_replayed new_delta_metadata_def)
  ultimately show ?thesis
    using content v table_snapshot_log [OF ok] table_snapshot_log [OF ok']
    by (auto simp: appended_def committed_def intro!: exI [of _ c] split: if_splits)
qed

lemma append_attempt_ends:
  assumes good: "append_good env t file content w"
    and step: "append_attempt env t cols file w = (w', a)"
  shows "(a = Again \<longrightarrow> append_good env t file content w' \<and> by_others env (w_store w) (w_store w') \<and>
      (\<not> tg_drop_first t \<longrightarrow> length (ts_log (w_store w (tg_dir t))) < length (ts_log (w_store w' (tg_dir t))))) \<and>
    (\<forall>r. a = Done r \<longrightarrow> append_ends env t cols file content w r w')"
proof -
  let ?dir = "tg_dir t"
  have g: "good env w" and fair: "fair env" using good by (simp_all add: append_good_def good_def)
  have error: "append_ends env t cols file content w (Inl StorageFailed) v" if "by_others env (w_store w) (w_store v)" for v
    using that by (auto simp: append_ends_def)
  obtain w1 r1 where r1: "next_delta_version env t w = (w1, r1)" by (cases "next_delta_version env t w")
  have w1: "good env w1 \<and> by_others env (w_store w) (w_store w1) \<and> (\<forall>e. r1 = Inl e \<longrightarrow> e = StorageFailed) \<and>
    (\<forall>v. r1 = Inr v \<longrightarrow> v = (if tg_drop_first t then 0 else next_version (ts_log (w_store w1 ?dir))))"
  proof (cases "tg_drop_first t")
    case True
    then show ?thesis using r1 g by (auto simp: next_delta_version_def intro: by_others.idle)
  next
    case False
    obtain f w0 where t: "next_tick env w = (f, w0)" by (cases "next_tick env w")
    show ?thesis using r1 t False tick_good [OF g t] by (auto simp: next_delta_version_def split: if_splits)
  qed
  have good1: "append_good env t file content w1" using append_good_by_others [OF good] w1 by blast
  show ?thesis
  proof (cases r1)
    case (Inl e)
    then show ?thesis using step r1 w1 error by (auto simp: append_attempt_def)
  next
    case (Inr v)
    let ?c = "if v = 0 then build_initial_commit cols [file] (ev_uuid env (w_clock w1)) else build_append_commit [file]"
    have p: "publish_attempt env ?dir v ?c w1 = (w', a)" using step r1 Inr by (simp add: append_attempt_def)
    have v: "v = (if tg_drop_first t then 0 else next_version (ts_log (w_store w1 ?dir)))" using w1 Inr by blast
    let ?s = "ev_others env (w_clock w1) (w_store w1)"
    have b1: "by_others env (w_store w) (w_store w1)" using w1 by blast
    have s: "by_others env (w_store w) ?s" using b1 by (rule by_others.others_act)
    have grown: "extends_log (ts_log (w_store w1 ?dir)) (ts_log (?s ?dir))"
      using fair by (simp add: fair_def grown_def)
    have ok: "log_ok (ts_log (w_store w1 ?dir))" using w1 by (simp add: good_def)
    have "good env w1" using w1 by blast
    from this p show ?thesis
    proof (cases rule: publish_outcome)
      case conflict
      have "length (ts_log (w_store w ?dir)) < length (ts_log (w_store w' ?dir))" if "\<not> tg_drop_first t"
      proof -
        have "ts_log (w_store w' ?dir) \<noteq> ts_log (w_store w1 ?dir)"
          using conflict(3,4) v that next_version_free [OF ok grown] by simp
        moreover have "extends_log (ts_log (w_store w ?dir)) (ts_log (w_store w1 ?dir))"
          using grown_by_others [OF fair b1] by (simp add: grown_def)
        ultimately show ?thesis using grown conflict(3) by (auto simp: extends_log_def)
      qed
      moreover have "by_others env (w_store w) (w_store w')" using s conflict(3) by simp
      ultimately show ?thesis using conflict(1,2) append_good_by_others [OF good] by simp
    next
      case lost
      then show ?thesis using error by_others_trans [OF b1 lost(2)] by simp
    next
      case (landed r)
      have b: "by_others env (w_store w1) (w_store (w1\<lparr>w_store := ?s, w_clock := Suc (w_clock w1)\<rparr>))"
        by (simp add: by_others.others_act [OF by_others.idle])
      have "good env (w1\<lparr>w_store := ?s, w_clock := Suc (w_clock w1)\<rparr>)"
        using tick_good(1) [of env w1] w1 by (simp add: next_tick_def)
      note good_s = append_good_by_others [OF good1 b this]
      have "v = next_version (ts_log (?s ?dir))"
      proof (cases "tg_drop_first t")
        case True
        then have "ts_log (?s ?dir) = []" using good_s landed(2) v by (auto simp: append_good_def)
        then show ?thesis using v True by (simp add: next_version_def)
      next
        case False
        then show ?thesis using v landed(2) next_version_free [OF ok grown] by simp
      qed
      moreover have "log_ok (ts_log (?s ?dir))" using log_ok_extends [OF ok grown] .
      ultimately have "appended ?dir file cols content ?s (w_store w')"
        unfolding landed(3) using good_s by (intro append_takes_effect) (simp_all add: append_good_def)
      moreover have "r \<noteq> Inl TooManyConflicts"
        using landed(1) p by (auto simp: publish_attempt_def split: prod.splits publish_result.splits)
      ultimately show ?thesis using landed(1) s by (auto simp: append_ends_def)
    qed
  qed
qed

interpretation appending: counted_retry "append_attempt env t cols path" "\<lambda>w. append_good env t path content w \<and> \<not> tg_drop_first t"
    "\<lambda>w w'. by_others env (w_store w) (w_store w')" "append_ends env t cols path content"
    "\<lambda>w. length (ts_log (w_store w (tg_dir t)))"
  for env t cols path content
proof
  fix w v u :: "'a lake" and r
  show "by_others env (w_store w) (w_store w)" by (rule by_others.idle)
  show "by_others env (w_store w) (w_store u)" if "by_others env (w_store w) (w_store v)" "by_others env (w_store v) (w_store u)"
    using that by (rule by_others_trans)
  show "append_ends env t cols path content w r u"
    if "by_others env (w_store w) (w_store v)" "append_ends env t cols path content v r u"
    using that unfolding append_ends_def by (blast intro: by_others_trans)
  show "(append_good env t path content u \<and> \<not> tg_drop_first t) \<and> by_others env (w_store w) (w_store u)"
    if "append_good env t path content w \<and> \<not> tg_drop_first t" "append_attempt env t cols path w = (u, Again)"
    using that append_attempt_ends [of env t path content w cols u Again] by simp
  show "append_ends env t cols path content w r u"
    if "append_good env t path content w \<and> \<not> tg_drop_first t" "append_attempt env t cols path w = (u, Done r)"
    using that append_attempt_ends [of env t path content w cols u "Done r"] by simp
  show "length (ts_log (w_store w (tg_dir t))) < length (ts_log (w_store u (tg_dir t)))"
    if "append_good env t path content w \<and> \<not> tg_drop_first t" "append_attempt env t cols path w = (u, Again)"
    using that append_attempt_ends [of env t path content w cols u Again] by simp
qed

interpretation replacing: retry_loop "append_attempt env t cols path" "append_good env t path content"
    "\<lambda>w w'. by_others env (w_store w) (w_store w')" "append_ends env t cols path content"
  for env t cols path content
proof
  fix w v u :: "'a lake" and r
  show "by_others env (w_store w) (w_store w)" by (rule by_others.idle)
  show "by_others env (w_store w) (w_store u)" if "by_others env (w_store w) (w_store v)" "by_others env (w_store v) (w_store u)"
    using that by (rule by_others_trans)
  show "append_ends env t cols path content w r u"
    if "by_others env (w_store w) (w_store v)" "append_ends env t cols path content v r u"
    using that unfolding append_ends_def by (blast intro: by_others_trans)
  show "append_good env t path content u \<and> by_others env (w_store w) (w_store u)"
    if "append_good env t path content w" "append_attempt env t cols path w = (u, Again)"
    using that append_attempt_ends [of env t path content w cols u Again] by simp
  show "append_ends env t cols path content w r u"
    if "append_good env t path content w" "append_attempt env t cols path w = (u, Done r)"
    using that append_attempt_ends [of env t path content w cols u "Done r"] by simp
qed

lemma append_serial:
  fixes env t
  defines "dir \<equiv> tg_dir t"
  assumes good: "good env w" and cols: "target_columns t = Inr cols"
    and log: "\<forall>v\<in>fst ` set (ts_log (w_store w dir)). 0 \<le> v" "tg_drop_first t \<longrightarrow> ts_log (w_store w dir) = []"
    and run: "write_tables_mode env t content w = (w', r)"
  shows "\<exists>s. by_others env (w_store w) s \<and>
    (w_store w' = s \<and> r \<noteq> Inr () \<and>
       (r = Inl TooManyConflicts \<and> \<not> tg_drop_first t \<longrightarrow>
          length (ts_log (w_store w dir)) + max_delta_commit_attempts \<le> length (ts_log (w_store w' dir))) \<or>
     appended dir (data_file (ev_uuid env (w_clock w))) cols content s (w_store w'))"
proof -
  let ?file = "data_file (ev_uuid env (w_clock w))"
  have fair: "fair env" using good by (simp add: good_def)
  obtain w1 u where u: "upload env dir ?file content w = (w1, u)" by (cases "upload env dir ?file content w")
  note g = upload_good [OF good u]
  show ?thesis
  proof (cases u)
    case (Inl e)
    then have "w' = w1" "r = Inl StorageFailed"
      using run u by (auto simp: write_tables_mode_def dir_def upload_def Let_def split: prod.splits fault.splits)
    then show ?thesis using g(2) by auto
  next
    case (Inr x)
    have grown: "extends_log (ts_log (w_store w dir)) (ts_log (w_store w1 dir))"
      using grown_by_others [OF fair g(2)] by (simp add: grown_def)
    have good1: "append_good env t ?file content w1"
      using g Inr log starts_at_0 [OF grown] nonneg_extends [OF log(1) grown]
      unfolding append_good_def dir_def by auto
    obtain w2 res where w2: "retry max_delta_commit_attempts (append_attempt env t cols ?file) w1 = (w2, res)"
      by (cases "retry max_delta_commit_attempts (append_attempt env t cols ?file) w1")
    have w': "w' = w2" "r = (case res of None \<Rightarrow> Inl TooManyConflicts | Some r \<Rightarrow> r)"
      using run u Inr w2 cols by (auto simp: write_tables_mode_def dir_def exhausted_def split: option.splits)
    note out = replacing.retry_outcome [OF good1 w2]
    show ?thesis
    proof (cases res)
      case None
      have "length (ts_log (w_store w1 dir)) + max_delta_commit_attempts \<le> length (ts_log (w_store w' dir))"
        if "\<not> tg_drop_first t"
        using appending.exhausted_work [OF _ w2 [unfolded None]] good1 that w'(1) unfolding dir_def by blast
      moreover have "length (ts_log (w_store w dir)) \<le> length (ts_log (w_store w1 dir))"
        using grown by (auto simp: extends_log_def)
      ultimately show ?thesis using out None w' by_others_trans [OF g(2)] by fastforce
    next
      case (Some r')
      then obtain s where "by_others env (w_store w1) s" "r \<noteq> Inl TooManyConflicts"
        "w_store w' = s \<and> r \<noteq> Inr () \<or> appended dir ?file cols content s (w_store w')"
        using out w' unfolding append_ends_def dir_def by auto
      then show ?thesis using by_others_trans [OF g(2)] by blast
    qed
  qed
qed

text \<open>C13: an append that reports success has added its file to the table in exactly one commit, after
  the files that were there; one that fails has done that or has left the table to the others, whose
  commits are never lost, also when the load replaces a table that it has just cleared. If it gives up
  on conflicts, somebody else has committed in each of its attempts.\<close>

theorem append_is_serialized:
  fixes env t
  defines "dir \<equiv> tg_dir t"
  assumes good: "good env w" and cols: "target_columns t = Inr cols"
    and log: "\<forall>v\<in>fst ` set (ts_log (w_store w dir)). 0 \<le> v" "tg_drop_first t \<longrightarrow> ts_log (w_store w dir) = []"
    and run: "write_tables_mode env t content w = (w', r)"
  shows "\<exists>s. by_others env (w_store w) s \<and>
    (w_store w' = s \<and> r \<noteq> Inr () \<and>
       (r = Inl TooManyConflicts \<and> \<not> tg_drop_first t \<longrightarrow>
          length (ts_log (w_store w dir)) + max_delta_commit_attempts \<le> length (ts_log (w_store w' dir))) \<or>
     appended dir (data_file (ev_uuid env (w_clock w))) cols content s (w_store w'))"
  unfolding dir_def by (rule append_serial [OF good cols log [unfolded dir_def] run])

definition append_target :: target_state where
  "append_target = \<lparr>tg_mode = ModeTables, tg_rel = ''T'', tg_dir = ''T'', tg_columns = None, tg_fields = Some key_value,
     tg_drop_first = False\<rparr>"

lemma append_is_serialized_witness:
  "let (w', r) = write_tables_mode rival append_target [\<lparr>rb_fields = key_value, rb_rows = [[CInt 3, CText ''d'']]\<rparr>] two_tables
   in \<exists>s. by_others rival (w_store two_tables) s \<and>
    (w_store w' = s \<and> r \<noteq> Inr () \<and>
       (r = Inl TooManyConflicts \<longrightarrow>
          length (ts_log (w_store two_tables ''T'')) + max_delta_commit_attempts \<le> length (ts_log (w_store w' ''T''))) \<or>
     appended ''T'' (data_file []) (map arrow_field_to_column key_value)
       [\<lparr>rb_fields = key_value, rb_rows = [[CInt 3, CText ''d'']]\<rparr>] s (w_store w'))"
proof -
  have t: "target_columns append_target = Inr (map arrow_field_to_column key_value)"
    by (simp add: target_columns_def append_target_def)
  have l: "\<forall>v\<in>fst ` set (ts_log (w_store two_tables (tg_dir append_target))). 0 \<le> v"
    "tg_drop_first append_target \<longrightarrow> ts_log (w_store two_tables (tg_dir append_target)) = []"
    by (simp_all add: two_tables_def one_table_def append_target_def)
  have u: "ev_uuid rival (w_clock two_tables) = []" "tg_dir append_target = ''T''" "\<not> tg_drop_first append_target"
    by (simp_all add: rival_def two_tables_def append_target_def)
  let ?content = "[\<lparr>rb_fields = key_value, rb_rows = [[CInt 3, CText ''d'']]\<rparr>]"
  obtain w' r where run: "write_tables_mode rival append_target ?content two_tables = (w', r)"
    by (cases "write_tables_mode rival append_target ?content two_tables")
  from append_is_serialized [OF two_tables_good t l run] show ?thesis
    unfolding run Let_def prod.case u using u(3) by simp
qed

end
