(* ===== verification/Onelake_Cache.thy ===== *)
theory Onelake_Cache
  imports Onelake_Log
begin

text \<open>
  Reading the log of a Delta table: the scan for the metadata finds the newest action of each kind,
  with or without the cache; the snapshot lists the files added and not removed since.
\<close>

subsection \<open>Names of commits\<close>

lemma digits_value_zeros: "digits_value (replicate n (CHR ''0'') @ ds) = digits_value ds"
  by (induction n) (simp_all add: digits_value_def)

lemma atoi_padded:
  assumes "0 \<le> v" "is_int64 v"
  shows "atoi (pad_to 20 v) = Some v"
proof -
  have d: "list_all is_digit (itoa v)" "digits_value (itoa v) = nat v"
    using nat_digits_props assms(1) by (simp_all add: itoa_def)
  obtain ds where ds: "pad_to 20 v = ds" "ds = replicate (20 - length (itoa v)) (CHR ''0'') @ itoa v"
    by (simp add: pad_to_def Let_def)
  have all: "list_all is_digit ds" using d(1) by (auto simp: ds(2) list_all_iff is_digit_def set_replicate_conv_if)
  moreover have "ds \<noteq> []" by (simp add: ds(2))
  ultimately have "hd ds \<noteq> CHR ''-''" "hd ds \<noteq> CHR ''+''" by (cases ds; auto)+
  then show ?thesis
    using all d(2) assms \<open>ds \<noteq> []\<close> unfolding ds(1) by (auto simp: atoi_def ds(2) digits_value_zeros Let_def)
qed

lemma log_entry_commit_file:
  assumes "0 \<le> v" "is_int64 v"
  shows "log_entry (dir @ ''/'' @ commit_file_name v, e) = Some (v, e)"
proof -
  have n: "CHR ''/'' \<notin> set (commit_file_name v)"
    using set_itoa [of "CHR ''/''" v] by (auto simp: commit_file_name_def pad_to_def Let_def is_digit_def)
  have "last (split_on (CHR ''/'') (dir @ CHR ''/'' # s)) = s" if "CHR ''/'' \<notin> set s" for s :: string
    using that
  proof (induction dir)
    case (Cons c dir)
    have "length (split_on (CHR ''/'') (dir @ CHR ''/'' # s)) \<noteq> 1" by (simp add: length_split_on)
    then show ?case using Cons by (cases "split_on (CHR ''/'') (dir @ CHR ''/'' # s)") auto
  qed (simp add: split_on_no_sep)
  then have "base_name (dir @ ''/'' @ commit_file_name v) = commit_file_name v"
    using n by (simp add: base_name_def)
  then show ?thesis
    using atoi_padded [OF assms] by (simp add: log_entry_def commit_file_name_def has_suffix_def has_prefix_def Let_def)
qed

subsection \<open>The newest action of a kind\<close>

lemma find_filter:
  "(\<And>v. find P vs = Some v \<Longrightarrow> Q v) \<Longrightarrow> find P (filter Q vs) = find P vs"
proof (induction vs)
  case (Cons v vs)
  show ?case
  proof (cases "P v")
    case True
    then show ?thesis using Cons.prems [of v] by simp
  next
    case False
    then show ?thesis using Cons by simp
  qed
qed simp

lemma find_rev_sorted:
  fixes vs :: "int list"
  assumes "sorted_wrt (<) vs"
  shows "find P (rev vs) = Some v \<longleftrightarrow> v \<in> set vs \<and> P v \<and> (\<forall>w\<in>set vs. P w \<longrightarrow> w \<le> v)"
  using assms
proof (induction vs rule: rev_induct)
  case (snoc x xs)
  then have s: "sorted_wrt (<) xs" "\<forall>y\<in>set xs. y < x" by (simp_all add: sorted_wrt_append)
  show ?case
  proof (cases "P x")
    case True
    then show ?thesis using s(2) by force
  next
    case False
    then show ?thesis using snoc.IH [OF s(1)] by auto
  qed
qed simp


definition found :: "(int \<Rightarrow> commit option) \<Rightarrow> int \<Rightarrow> replay" where
  "found download v = (case download v of None \<Rightarrow> empty_replay | Some c \<Rightarrow> replay_commit empty_replay c)"

definition scan_all :: "(int \<Rightarrow> commit option) \<Rightarrow> scan \<Rightarrow> int list \<Rightarrow> scan" where
  "scan_all download s vs = foldl (\<lambda>s v. note_commit s v (found download v)) s vs"

lemma note_commit_full [simp]: "sc_metadata s \<noteq> None \<Longrightarrow> sc_protocol s \<noteq> None \<Longrightarrow> note_commit s v r = s"
  by (auto simp: note_commit_def Let_def)

lemma note_commit_fields:
  "sc_metadata (note_commit s v r) = (if sc_metadata s = None then rp_metadata r else sc_metadata s)"
  "sc_metadata_version (note_commit s v r) =
     (if sc_metadata s = None \<and> rp_metadata r \<noteq> None then v else sc_metadata_version s)"
  "sc_protocol (note_commit s v r) = (if sc_protocol s = None then rp_protocol r else sc_protocol s)"
  "sc_protocol_version (note_commit s v r) =
     (if sc_protocol s = None \<and> rp_protocol r \<noteq> None then v else sc_protocol_version s)"
  by (auto simp: note_commit_def Let_def)

lemma scan_all_full: "sc_metadata s \<noteq> None \<Longrightarrow> sc_protocol s \<noteq> None \<Longrightarrow> scan_all download s vs = s"
  unfolding scan_all_def by (induction vs) simp_all

lemma scan_all_fields:
  "sc_metadata (scan_all download s vs) =
     (if sc_metadata s \<noteq> None then sc_metadata s
      else (case find (\<lambda>v. rp_metadata (found download v) \<noteq> None) vs of None \<Rightarrow> None | Some v \<Rightarrow> rp_metadata (found download v)))"
  "sc_metadata_version (scan_all download s vs) =
     (if sc_metadata s \<noteq> None then sc_metadata_version s
      else (case find (\<lambda>v. rp_metadata (found download v) \<noteq> None) vs of None \<Rightarrow> sc_metadata_version s | Some v \<Rightarrow> v))"
  "sc_protocol (scan_all download s vs) =
     (if sc_protocol s \<noteq> None then sc_protocol s
      else (case find (\<lambda>v. rp_protocol (found download v) \<noteq> None) vs of None \<Rightarrow> None | Some v \<Rightarrow> rp_protocol (found download v)))"
  "sc_protocol_version (scan_all download s vs) =
     (if sc_protocol s \<noteq> None then sc_protocol_version s
      else (case find (\<lambda>v. rp_protocol (found download v) \<noteq> None) vs of None \<Rightarrow> sc_protocol_version s | Some v \<Rightarrow> v))"
  unfolding scan_all_def
proof (induction vs arbitrary: s)
  case (Cons v vs)
  { case 1 show ?case using Cons.IH(1) [of "note_commit s v (found download v)"] by (auto simp: note_commit_fields split: option.splits) }
  { case 2 show ?case using Cons.IH(2) [of "note_commit s v (found download v)"] by (auto simp: note_commit_fields split: option.splits) }
  { case 3 show ?case using Cons.IH(3) [of "note_commit s v (found download v)"] by (auto simp: note_commit_fields split: option.splits) }
  { case 4 show ?case using Cons.IH(4) [of "note_commit s v (found download v)"] by (auto simp: note_commit_fields split: option.splits) }
qed simp_all

abbreviation visited :: "metadata_cache option \<Rightarrow> int \<Rightarrow> bool" where
  "visited cached v \<equiv>
     (case cached of None \<Rightarrow> True
      | Some k \<Rightarrow> \<not> (v \<le> mc_version k \<and> v \<noteq> mc_metadata_version k \<and> v \<noteq> mc_protocol_version k))"

lemma scan_back_all:
  assumes "\<forall>v\<in>set vs. download v \<noteq> None"
    and "\<And>k. cached = Some k \<Longrightarrow> mc_metadata_version k \<in> set vs \<Longrightarrow>
      rp_metadata (found download (mc_metadata_version k)) = Some (mc_metadata k)"
  shows "scan_back download cached vs s = Scanned (scan_all download s (filter (visited cached) vs))"
  using assms
proof (induction vs arbitrary: s)
  case (Cons v vs)
  have IH: "scan_back download cached vs s' = Scanned (scan_all download s' (filter (visited cached) vs))" for s'
    using Cons.prems by (intro Cons.IH) auto
  show ?case
  proof (cases "visited cached v")
    case False
    then show ?thesis using IH by (auto split: option.splits)
  next
    case True
    obtain c where c: "download v = Some c" using Cons.prems(1) by auto
    then have r: "found download v = replay_commit empty_replay c" by (simp add: found_def)
    let ?s = "note_commit s v (found download v)"
    have step: "scan_all download s (filter (visited cached) (v # vs)) = scan_all download ?s (filter (visited cached) vs)"
      using True by (simp add: scan_all_def)
    have "\<not> (case cached of None \<Rightarrow> False | Some k \<Rightarrow> v = mc_metadata_version k \<and> rp_metadata (found download v) \<noteq> Some (mc_metadata k))"
      using Cons.prems(2) by (auto split: option.splits)
    then have "scan_back download cached (v # vs) s =
      (if sc_metadata ?s \<noteq> None \<and> sc_protocol ?s \<noteq> None then Scanned ?s else scan_back download cached vs ?s)"
      using True by (auto simp: c r [symmetric] Let_def split: option.splits)
    then show ?thesis unfolding step using IH scan_all_full by (simp split: if_splits)
  qed
qed (simp add: scan_all_def)


lemma cached_read_same:
  assumes old: "read_delta_metadata older read_old None = Inr (Some seen)" "cache_entry older seen = Some k"
    and sorted: "sorted_wrt (<) (map fst older)" "sorted_wrt (<) (map fst entries)"
    and readable: "\<forall>v\<in>fst ` set older. read_old v \<noteq> None" "\<forall>v\<in>fst ` set entries. download v \<noteq> None"
    and etags: "\<forall>v e. (v, e) \<in> set older \<and> (v, e) \<in> set entries \<and> e \<noteq> [] \<longrightarrow> download v = read_old v"
  shows "read_delta_metadata entries download (Some k) = read_delta_metadata entries download None"
proof (cases "entries = [] \<or> fst (last entries) < mc_version k \<or> \<not> same_cached_log k entries")
  case True
  then show ?thesis by (auto simp: read_delta_metadata_def Let_def)
next
  case False
  let ?old = "map fst older" and ?new = "map fst entries"
  have ne: "entries \<noteq> []" "older \<noteq> []" and same: "same_cached_log k entries"
    using False old(1) by (auto simp: read_delta_metadata_def)
  have seen: "seen = scanned_snapshot older (scan_all read_old empty_scan (rev ?old))"
    using old(1) ne(2) scan_back_all [of "rev ?old" read_old None] readable(1)
    by (simp add: read_delta_metadata_def Let_def)
  have k: "mc_version k = fst (last older)" "mc_etags k = older"
    "Some (mc_metadata k) = sc_metadata (scan_all read_old empty_scan (rev ?old))"
    "mc_metadata_version k = sc_metadata_version (scan_all read_old empty_scan (rev ?old))"
    "mc_protocol_version k = (if sc_protocol (scan_all read_old empty_scan (rev ?old)) = None then -1
       else sc_protocol_version (scan_all read_old empty_scan (rev ?old)))"
    using old(2) unfolding seen cache_entry_def scanned_snapshot_def by (auto split: option.splits)
  have le: "v \<le> mc_version k" if "v \<in> set ?old" for v
    using that sorted(1) ne(2) unfolding k(1)
    by (cases older rule: rev_cases) (auto simp: sorted_wrt_append intro: less_imp_le)
  have get: "etag_of es v = e \<Longrightarrow> e \<noteq> [] \<Longrightarrow> (v, e) \<in> set es" for es v e
    by (auto simp: etag_of_def dest: map_of_SomeD split: option.splits)
  have sub0: "v \<in> set ?new \<and> download v = read_old v" if v: "v \<in> set ?old" for v
  proof -
    obtain e where e: "(v, e) \<in> set older" using v by auto
    then have "e \<noteq> [] \<and> etag_of entries v = e"
      using same le [OF v] unfolding same_cached_log_def k(2) list_all_iff by fastforce
    then have "(v, e) \<in> set entries" "e \<noteq> []" using get by blast+
    then show ?thesis using e etags by (metis fst_conv image_eqI set_map)
  qed
  have sub: "v \<in> set ?old" if v: "v \<in> set ?new" "v \<le> mc_version k" for v
  proof -
    obtain e where e: "(v, e) \<in> set entries" using v(1) by auto
    then have "e \<noteq> [] \<and> etag_of older v = e"
      using same v(2) unfolding same_cached_log_def k(2) list_all_iff by fastforce
    then show ?thesis using get by (metis fst_conv image_eqI set_map)
  qed
  have eq: "found download v = found read_old v" if "v \<in> set ?old" for v
    using sub0 [OF that] by (simp add: found_def)
  have newest: "v = w" if f: "find (\<lambda>v. g (found download v) \<noteq> None) (rev ?new) = Some v" "v \<le> mc_version k"
    "find (\<lambda>v. g (found read_old v) \<noteq> None) (rev ?old) = Some w" for g :: "replay \<Rightarrow> 'a option" and v w
  proof -
    have v: "v \<in> set ?new" "g (found download v) \<noteq> None" "\<forall>u\<in>set ?new. g (found download u) \<noteq> None \<longrightarrow> u \<le> v"
      using f(1) by (simp_all add: find_rev_sorted [OF sorted(2)])
    have w: "w \<in> set ?old" "g (found read_old w) \<noteq> None" "\<forall>u\<in>set ?old. g (found read_old u) \<noteq> None \<longrightarrow> u \<le> w"
      using f(3) by (simp_all add: find_rev_sorted [OF sorted(1)])
    have "v \<le> w" using v(2) bspec [OF w(3) sub [OF v(1) f(2)]] eq [OF sub [OF v(1) f(2)]] by simp
    moreover have "w \<le> v" using w(2) bspec [OF v(3), of w] sub0 [OF w(1)] eq [OF w(1)] by simp
    ultimately show ?thesis by simp
  qed
  obtain w where w: "find (\<lambda>v. rp_metadata (found read_old v) \<noteq> None) (rev ?old) = Some w"
    "mc_metadata_version k = w" "rp_metadata (found read_old w) = Some (mc_metadata k)"
    using k(3,4) by (auto simp: scan_all_fields empty_scan_def split: option.splits)
  have w0: "w \<in> set ?old" using w(1) by (simp add: find_rev_sorted [OF sorted(1)])
  have vm: "visited (Some k) v" if "find (\<lambda>v. rp_metadata (found download v) \<noteq> None) (rev ?new) = Some v" for v
    using newest [OF that _ w(1)] w(2) by auto
  have vp: "visited (Some k) v" if p: "find (\<lambda>v. rp_protocol (found download v) \<noteq> None) (rev ?new) = Some v" for v
  proof (cases "v \<le> mc_version k")
    case True
    have v: "v \<in> set ?new" "rp_protocol (found download v) \<noteq> None" using p by (simp_all add: find_rev_sorted [OF sorted(2)])
    then have "v \<in> set ?old" "rp_protocol (found read_old v) \<noteq> None" using sub True eq by auto
    then obtain u where u: "find (\<lambda>v. rp_protocol (found read_old v) \<noteq> None) (rev ?old) = Some u"
      by (cases "find (\<lambda>v. rp_protocol (found read_old v) \<noteq> None) (rev ?old)") (auto simp: find_None_iff)
    then have "rp_protocol (found read_old u) \<noteq> None" using find_rev_sorted [OF sorted(1)] by simp
    then have "mc_protocol_version k = u" using u k(5) by (auto simp: scan_all_fields empty_scan_def)
    then show ?thesis using newest [OF p True u] by simp
  qed auto
  have "scan_back download (Some k) (rev ?new) empty_scan = Scanned (scan_all download empty_scan (filter (visited (Some k)) (rev ?new)))"
  proof (rule scan_back_all)
    show "\<forall>v\<in>set (rev ?new). download v \<noteq> None" using readable(2) by simp
    show "rp_metadata (found download (mc_metadata_version k')) = Some (mc_metadata k')" if "Some k = Some k'" for k'
      using that w(2,3) eq [OF w0] by simp
  qed
  also have "scan_all download empty_scan (filter (visited (Some k)) (rev ?new)) = scan_all download empty_scan (rev ?new)"
    using find_filter [of _ "rev ?new" "visited (Some k)", OF vm] find_filter [of _ "rev ?new" "visited (Some k)", OF vp]
    by (intro scan.equality) (simp_all add: scan_all_fields)
  also have "Scanned (scan_all download empty_scan (rev ?new)) = scan_back download None (rev ?new) empty_scan"
    using scan_back_all [of "rev ?new" download None] readable(2) by simp
  finally show ?thesis
    using False ne scan_back_all [of "rev ?new" download None] readable(2)
    by (simp add: read_delta_metadata_def Let_def)
qed

text \<open>The scan finds what replaying the whole log ends with.\<close>

lemma replay_newest:
  "rp_metadata (replay_commit s c) =
     (case rp_metadata (replay_commit empty_replay c) of None \<Rightarrow> rp_metadata s | Some md \<Rightarrow> Some md)"
  "rp_protocol (replay_commit s c) =
     (case rp_protocol (replay_commit empty_replay c) of None \<Rightarrow> rp_protocol s | Some p \<Rightarrow> Some p)"
proof -
  have "rp_metadata (foldl replay_action s c) =
      (case rp_metadata (foldl replay_action r c) of None \<Rightarrow> rp_metadata s | Some md \<Rightarrow> Some md) \<and>
    rp_protocol (foldl replay_action s c) =
      (case rp_protocol (foldl replay_action r c) of None \<Rightarrow> rp_protocol s | Some p \<Rightarrow> Some p)"
    if "rp_metadata r = None" "rp_protocol r = None" for r
  proof (induction c rule: rev_induct)
    case (snoc a c)
    then show ?case by (cases a) (auto split: option.splits)
  qed (use that in simp)
  from this [of empty_replay] show
    "rp_metadata (replay_commit s c) =
     (case rp_metadata (replay_commit empty_replay c) of None \<Rightarrow> rp_metadata s | Some md \<Rightarrow> Some md)"
    "rp_protocol (replay_commit s c) =
     (case rp_protocol (replay_commit empty_replay c) of None \<Rightarrow> rp_protocol s | Some p \<Rightarrow> Some p)"
    by (simp_all add: replay_commit_def empty_replay_def)
qed

lemma replay_versions_newest:
  assumes "\<forall>v\<in>set vs. download v \<noteq> None"
  shows "\<exists>r. replay_versions download vs s = Inr r \<and>
    rp_metadata r = (case find (\<lambda>v. rp_metadata (found download v) \<noteq> None) (rev vs) of
       None \<Rightarrow> rp_metadata s | Some v \<Rightarrow> rp_metadata (found download v)) \<and>
    rp_protocol r = (case find (\<lambda>v. rp_protocol (found download v) \<noteq> None) (rev vs) of
       None \<Rightarrow> rp_protocol s | Some v \<Rightarrow> rp_protocol (found download v))"
  using assms
proof (induction vs arbitrary: s)
  case (Cons v vs)
  obtain c where c: "download v = Some c" using Cons.prems by auto
  have find: "find P (xs @ [x]) = (case find P xs of None \<Rightarrow> if P x then Some x else None | Some y \<Rightarrow> Some y)" for P and x :: int and xs
    by (induction xs) auto
  have "\<forall>v\<in>set vs. download v \<noteq> None" using Cons.prems by simp
  from Cons.IH [OF this, of "replay_commit s c"] obtain r where
    "replay_versions download vs (replay_commit s c) = Inr r"
    "rp_metadata r = (case find (\<lambda>v. rp_metadata (found download v) \<noteq> None) (rev vs) of
       None \<Rightarrow> rp_metadata (replay_commit s c) | Some v \<Rightarrow> rp_metadata (found download v))"
    "rp_protocol r = (case find (\<lambda>v. rp_protocol (found download v) \<noteq> None) (rev vs) of
       None \<Rightarrow> rp_protocol (replay_commit s c) | Some v \<Rightarrow> rp_protocol (found download v))"
    by blast
  moreover have "found download v = replay_commit empty_replay c" by (simp add: found_def c)
  ultimately show ?case
    by (simp add: c find replay_newest [of s c] split: option.split)
qed simp

lemma empty_replay_fields [simp]: "rp_metadata empty_replay = None" "rp_protocol empty_replay = None"
  by (simp_all add: empty_replay_def)

lemma scan_is_replay:
  assumes "entries \<noteq> []" "\<forall>v\<in>fst ` set entries. download v \<noteq> None"
  shows "\<exists>s full. read_delta_metadata entries download None = Inr (Some s) \<and>
    read_delta_snapshot (map fst entries) download = Inr (Some full) \<and>
    sn_version s = sn_version full \<and> sn_first_version s = sn_first_version full \<and>
    sn_metadata s = sn_metadata full \<and> sn_protocol s = sn_protocol full"
proof -
  have "scan_back download None (rev (map fst entries)) empty_scan = Scanned (scan_all download empty_scan (rev (map fst entries)))"
    using scan_back_all [of "rev (map fst entries)" download None] assms(2) by simp
  moreover obtain r where "replay_versions download (map fst entries) empty_replay = Inr r"
    "rp_metadata r = sc_metadata (scan_all download empty_scan (rev (map fst entries)))"
    "rp_protocol r = sc_protocol (scan_all download empty_scan (rev (map fst entries)))"
    using replay_versions_newest [of "map fst entries" download empty_replay] assms(2)
    by (auto simp: scan_all_fields empty_scan_def split: option.split)
  ultimately show ?thesis
    using assms(1)
    by (auto simp: read_delta_metadata_def read_delta_snapshot_def scanned_snapshot_def Let_def last_map hd_map)
qed

text \<open>C15: reading a table's metadata through the cache of an earlier read gives what reading the whole
  log gives, the versions the actions were found at included, and its metadata and protocol are
  those of the full snapshot, as long as an ETag stands for one content; where the log is another
  one, the cache is not used.\<close>

theorem metadata_cache_transparent:
  assumes old: "read_delta_metadata older read_old None = Inr (Some seen)" "cache_entry older seen = Some k"
    and sorted: "sorted_wrt (<) (map fst older)" "sorted_wrt (<) (map fst entries)"
    and readable: "\<forall>v\<in>fst ` set older. read_old v \<noteq> None" "\<forall>v\<in>fst ` set entries. download v \<noteq> None"
    and etags: "\<forall>v e. (v, e) \<in> set older \<and> (v, e) \<in> set entries \<and> e \<noteq> [] \<longrightarrow> download v = read_old v"
  shows "read_delta_metadata entries download (Some k) = read_delta_metadata entries download None \<and>
    (entries \<noteq> [] \<longrightarrow>
       (\<exists>s full. read_delta_metadata entries download (Some k) = Inr (Some s) \<and>
          read_delta_snapshot (map fst entries) download = Inr (Some full) \<and>
          sn_version s = sn_version full \<and> sn_first_version s = sn_first_version full \<and>
          sn_metadata s = sn_metadata full \<and> sn_protocol s = sn_protocol full))"
  using cached_read_same [OF assms] scan_is_replay [OF _ readable(2)] by simp

lemma metadata_cache_transparent_witness:
  "let md = new_delta_metadata [] ''t''; first = build_initial_commit [] [''f''] ''t''; second = build_append_commit [''g''];
       read_old = (\<lambda>v. if v = 0 then Some first else None);
       download = (\<lambda>v. if v = 0 then Some first else if v = 1 then Some second else None);
       k = \<lparr>mc_version = 0, mc_metadata_version = 0, mc_protocol_version = 0, mc_metadata = md, mc_etags = [(0, ''x'')]\<rparr>
   in read_delta_metadata [(0, ''x''), (1, ''y'')] download (Some k) = read_delta_metadata [(0, ''x''), (1, ''y'')] download None"
  unfolding Let_def
  by (rule metadata_cache_transparent [where older = "[(0, ''x'')]" and
        read_old = "\<lambda>v. if v = 0 then Some (build_initial_commit [] [''f''] ''t'') else None" and
        seen = "\<lparr>sn_version = 0, sn_first_version = 0, sn_active_files = [], sn_dv_files = [],
          sn_metadata = Some (new_delta_metadata [] ''t''), sn_metadata_version = 0,
          sn_protocol = Some \<lparr>dp_min_reader = 1, dp_min_writer = 2, dp_reader_features = [], dp_writer_features = []\<rparr>,
          sn_protocol_version = 0\<rparr>", THEN conjunct1])
    (simp_all add: read_delta_metadata_def build_initial_commit_def replay_commit_def note_commit_def add_actions_def
       empty_scan_def empty_replay_def scanned_snapshot_def cache_entry_def)

end
