(* ===== verification/Onelake_Evolve.thy ===== *)
theory Onelake_Evolve
  imports Onelake_Serial Onelake_Cache
begin

text \<open>
  Schema evolution among other writers: the metadata it reads through the cache is the table's, and
  the one commit it adds evolves exactly that metadata, or the metadata that the plan was built from.
\<close>

subsection \<open>Reading the metadata\<close>

definition log_entries :: "'f io_lib \<Rightarrow> (int \<times> commit) list \<Rightarrow> (int \<times> string) list" where
  "log_entries lib es = map (\<lambda>(v, c). (v, io_etag lib v c)) es"

text \<open>A cache entry comes from reading an earlier state of the log.\<close>

definition cache_ok :: "'f io_lib \<Rightarrow> 'f lake \<Rightarrow> bool" where
  "cache_ok lib w \<longleftrightarrow>
     (\<forall>dir k. w_cache w dir = Some k \<longrightarrow>
        (\<exists>old s. extends_log old (ts_log (w_store w dir)) \<and>
           read_delta_metadata (log_entries lib old) (map_of old) None = Inr (Some s) \<and>
           cache_entry (log_entries lib old) s = Some k))"

lemma log_entries_fst [simp]: "map fst (log_entries lib es) = map fst es" "fst ` set (log_entries lib es) = fst ` set es"
  "log_entries lib es = [] \<longleftrightarrow> es = []"
  by (force simp: log_entries_def)+

lemma log_ok_prefix: "log_ok (xs @ ys) \<Longrightarrow> log_ok xs"
  by (simp add: log_ok_def sorted_wrt_append)

lemma log_ok_map_of: "log_ok es \<Longrightarrow> (v, c) \<in> set es \<Longrightarrow> map_of es v = Some c"
  unfolding log_ok_def strict_sorted_iff by simp

lemma cache_ok_grown:
  assumes "cache_ok lib w" "w_cache w' = w_cache w" "grown (w_store w) (w_store w')"
  shows "cache_ok lib w'"
  unfolding cache_ok_def assms(2)
proof (intro allI impI)
  fix dir k assume "w_cache w dir = Some k"
  then obtain old s where o: "extends_log old (ts_log (w_store w dir))"
    "read_delta_metadata (log_entries lib old) (map_of old) None = Inr (Some s)"
    "cache_entry (log_entries lib old) s = Some k"
    using assms(1) unfolding cache_ok_def by blast
  have "extends_log old (ts_log (w_store w' dir))"
    using o(1) assms(3) extends_log_trans unfolding grown_def by blast
  then show "\<exists>old s. extends_log old (ts_log (w_store w' dir)) \<and>
      read_delta_metadata (log_entries lib old) (map_of old) None = Inr (Some s) \<and>
      cache_entry (log_entries lib old) s = Some k"
    using o(2,3) by blast
qed

lemma read_cached:
  assumes ok: "log_ok es" and cached: "\<And>k. cached = Some k \<Longrightarrow>
      \<exists>old s. extends_log old es \<and> read_delta_metadata (log_entries lib old) (map_of old) None = Inr (Some s) \<and>
        cache_entry (log_entries lib old) s = Some k"
  shows "read_delta_metadata (log_entries lib es) (map_of es) cached = read_delta_metadata (log_entries lib es) (map_of es) None"
proof (cases cached)
  case (Some k)
  then obtain old s where old: "extends_log old es" "read_delta_metadata (log_entries lib old) (map_of old) None = Inr (Some s)"
    "cache_entry (log_entries lib old) s = Some k"
    using cached by blast
  then obtain later where m: "es = old @ later" by (auto simp: extends_log_def)
  have ok0: "log_ok old" using ok m log_ok_prefix by simp
  have etags: "map_of es v = map_of old v"
    if "(v, e) \<in> set (log_entries lib old)" for v e
  proof -
    obtain c where "(v, c) \<in> set old" using \<open>(v, e) \<in> set (log_entries lib old)\<close> by (auto simp: log_entries_def)
    then show ?thesis using log_ok_map_of [OF ok] log_ok_map_of [OF ok0] m by simp
  qed
  show ?thesis unfolding Some
    by (rule cached_read_same [OF old(2,3)])
      (use ok ok0 etags in \<open>auto simp: log_ok_def map_of_eq_None_iff\<close>)
qed simp

lemma table_metadata_outcome:
  assumes good: "good env w" "cache_ok lib w" and run: "table_metadata lib env dir w = (w1, r)"
  shows "good env w1" "cache_ok lib w1" "by_others env (w_store w) (w_store w1)"
    "case r of
       Inl e \<Rightarrow> True
     | Inr None \<Rightarrow> stored_metadata (w_store w1 dir) = None
     | Inr (Some s) \<Rightarrow> ts_log (w_store w1 dir) \<noteq> [] \<and> sn_version s + 1 = next_version (ts_log (w_store w1 dir)) \<and>
         sn_metadata s = stored_metadata (w_store w1 dir)"
proof -
  obtain f w0 where t: "next_tick env w = (f, w0)" by (cases "next_tick env w")
  note g = tick_good [OF good(1) t]
  let ?log = "ts_log (w_store w0 dir)"
  have fair: "fair env" using good by (simp add: good_def)
  have ok: "log_ok ?log" using g(1) by (simp add: good_def)
  have same: "w_store w1 = w_store w0 \<and> w_clock w1 = w_clock w0"
    using run t by (auto simp: table_metadata_def Let_def split: prod.splits if_splits)
  then show "good env w1" "by_others env (w_store w) (w_store w1)" using g by (simp_all add: good_def)
  have "w_cache w0 = w_cache w" using t by (auto simp: next_tick_def)
  then have cache0: "cache_ok lib w0"
    using cache_ok_grown [OF good(2)] grown_by_others [OF fair g(2)] by blast
  let ?read = "read_delta_metadata (log_entries lib ?log) (map_of ?log)"
  have read: "?read (w_cache w0 dir) = ?read None"
    using cache0 by (intro read_cached [OF ok]) (auto simp: cache_ok_def)
  have run': "(w1, r) = (if f \<noteq> Works then (w0, Inl StorageFailed)
      else (case read_table_metadata (log_entries lib ?log) (map_of ?log) (w_cache w0 dir) of
        (r, k) \<Rightarrow> (w0\<lparr>w_cache := (w_cache w0)(dir := k)\<rparr>, case r of Inl e \<Rightarrow> Inl (LogFailed e) | Inr s \<Rightarrow> Inr s)))"
    using run t by (auto simp: table_metadata_def Let_def log_entries_def)
  have empty: "?read None = Inr None" if "?log = []" using that by (simp add: read_delta_metadata_def log_entries_def)
  have full: "\<exists>s. ?read None = Inr (Some s) \<and> sn_version s + 1 = next_version ?log \<and> sn_metadata s = stored_metadata (w_store w0 dir)"
    if "?log \<noteq> []"
  proof -
    have "\<forall>v\<in>fst ` set (log_entries lib ?log). map_of ?log v \<noteq> None" by (auto simp: map_of_eq_None_iff)
    moreover have "log_entries lib ?log \<noteq> []" using that by simp
    ultimately obtain s s' where s: "?read None = Inr (Some s)" "read_delta_snapshot (map fst ?log) (map_of ?log) = Inr (Some s')"
      "sn_version s = sn_version s'" "sn_metadata s = sn_metadata s'"
      using scan_is_replay [of "log_entries lib ?log" "map_of ?log"] unfolding log_entries_fst by blast
    then have "table_snapshot (w_store w0 dir) = Inr (Some s')" by (simp add: table_snapshot_def)
    then show ?thesis
      using s table_snapshot_log [OF ok] that by (auto simp: next_version_def stored_metadata_def)
  qed
  show "cache_ok lib w1"
  proof (cases "f = Works \<and> ?log \<noteq> []")
    case True
    then obtain s where s: "?read None = Inr (Some s)" using full by blast
    then have "w1 = w0\<lparr>w_cache := (w_cache w0)(dir := cache_entry (log_entries lib ?log) s)\<rparr>"
      using run' True read by (simp add: read_table_metadata_def)
    then show ?thesis using cache0 s extends_log_refl [of ?log] by (auto simp: cache_ok_def)
  next
    case False
    then show ?thesis using run' cache0 read empty by (auto simp: read_table_metadata_def cache_ok_def split: if_splits)
  qed
  show "case r of
       Inl e \<Rightarrow> True
     | Inr None \<Rightarrow> stored_metadata (w_store w1 dir) = None
     | Inr (Some s) \<Rightarrow> ts_log (w_store w1 dir) \<noteq> [] \<and> sn_version s + 1 = next_version (ts_log (w_store w1 dir)) \<and>
         sn_metadata s = stored_metadata (w_store w1 dir)"
  proof (cases "f = Works")
    case True
    then show ?thesis
      using run' read same empty full table_snapshot_log [OF ok]
      by (cases "?log = []") (auto simp: read_table_metadata_def stored_metadata_def)
  qed (use run' in simp)
qed

subsection \<open>The commit of an evolution\<close>

definition evolved ::
  "string \<Rightarrow> schema_comparison \<Rightarrow> delta_metadata option \<Rightarrow> 'f store \<Rightarrow> 'f store \<Rightarrow> bool" where
  "evolved dir cmp expected s s' \<longleftrightarrow>
     (\<exists>md md'. stored_metadata (s dir) = Some md \<and> (expected \<noteq> None \<longrightarrow> expected = Some md) \<and>
        evolve_delta_metadata md (Some cmp) = Inr (md', True) \<and>
        s' = committed dir (build_schema_evolution_commit md') s \<and> stored_metadata (s' dir) = Some md' \<and>
        active_paths (replayed (ts_log (s' dir))) = active_paths (replayed (ts_log (s dir))))"

definition nothing_to_evolve :: "string \<Rightarrow> schema_comparison \<Rightarrow> 'f store \<Rightarrow> bool" where
  "nothing_to_evolve dir cmp s \<longleftrightarrow>
     (case stored_metadata (s dir) of
        None \<Rightarrow> True | Some md \<Rightarrow> evolve_delta_metadata md (Some cmp) = Inr (md, False))"

definition evolve_ends ::
  "'f environment \<Rightarrow> string \<Rightarrow> schema_comparison \<Rightarrow> 'f lake \<times> delta_metadata option \<Rightarrow> (io_error, unit) result
   \<Rightarrow> 'f lake \<times> delta_metadata option \<Rightarrow> bool" where
  "evolve_ends env dir cmp p r q \<longleftrightarrow>
     (\<exists>s. by_others env (w_store (fst p)) s \<and>
        (w_store (fst q) = s \<and> (r = Inr () \<longrightarrow> nothing_to_evolve dir cmp s) \<or>
         evolved dir cmp (snd p) s (w_store (fst q))))"

definition evolve_waits ::
  "'f environment \<Rightarrow> 'f lake \<times> delta_metadata option \<Rightarrow> 'f lake \<times> delta_metadata option \<Rightarrow> bool" where
  "evolve_waits env p q \<longleftrightarrow> by_others env (w_store (fst p)) (w_store (fst q)) \<and> (snd p \<noteq> None \<longrightarrow> snd q = snd p)"

lemma evolution_takes_effect:
  fixes md' :: delta_metadata
  assumes ok: "log_ok (ts_log (s dir))" and ne: "ts_log (s dir) \<noteq> []"
  defines "s' \<equiv> committed dir (build_schema_evolution_commit md') s"
  shows "stored_metadata (s' dir) = Some md'"
    "active_paths (replayed (ts_log (s' dir))) = active_paths (replayed (ts_log (s dir)))"
proof -
  let ?v = "next_version (ts_log (s dir))"
  have log: "ts_log (s' dir) = ts_log (s dir) @ [(?v, build_schema_evolution_commit md')]"
    by (simp add: s'_def committed_def)
  have "\<forall>x\<in>fst ` set (ts_log (s dir)). x < ?v" using sorted_next_version [OF ok] by blast
  then have ok': "log_ok (ts_log (s' dir))" using ok by (auto simp: log log_ok_def sorted_wrt_append)
  show "stored_metadata (s' dir) = Some md'"
    by (simp add: stored_metadata_def table_snapshot_log [OF ok'] log replayed_append build_schema_evolution_commit_def)
  show "active_paths (replayed (ts_log (s' dir))) = active_paths (replayed (ts_log (s dir)))"
    by (simp add: log replayed_append build_schema_evolution_commit_def active_paths_def)
qed

lemma evolve_unchanged: "evolve_delta_metadata md c = Inr (md', False) \<Longrightarrow> md' = md"
  by (auto simp: evolve_delta_metadata_def split: option.splits if_splits sum.splits)

lemma evolve_attempt_ends:
  assumes good: "good env w" "cache_ok lib w"
    and step: "evolve_attempt lib env dir cmp (w, expected) = (q, a)"
  shows "(a = Again \<longrightarrow> good env (fst q) \<and> cache_ok lib (fst q) \<and> evolve_waits env (w, expected) q \<and>
      length (ts_log (w_store w dir)) < length (ts_log (w_store (fst q) dir))) \<and>
    (\<forall>r. a = Done r \<longrightarrow> evolve_ends env dir cmp (w, expected) r q)"
proof -
  have fair: "fair env" using good by (simp add: good_def)
  obtain w1 r1 where m: "table_metadata lib env dir w = (w1, r1)" by (cases "table_metadata lib env dir w")
  note g = table_metadata_outcome [OF good m]
  have error: "evolve_ends env dir cmp (w, expected) (Inl e) v" if "by_others env (w_store w) (w_store (fst v))" for e v
    using that by (auto simp: evolve_ends_def)
  show ?thesis
  proof (cases "\<exists>s md md'. r1 = Inr (Some s) \<and> sn_metadata s = Some md \<and> (expected \<noteq> None \<longrightarrow> expected = Some md) \<and>
      check_supported_protocol (sn_protocol s) = None \<and> evolve_delta_metadata md (Some cmp) = Inr (md', True)")
    case False
    have "nothing_to_evolve dir cmp (w_store w1)" if "a = Done (Inr ())"
      using step m g(4) False that evolve_unchanged
      by (auto simp: evolve_attempt_def nothing_to_evolve_def split: sum.splits option.splits if_splits)
    moreover have "w_store (fst q) = w_store w1" "a \<noteq> Again"
      using step m False by (auto simp: evolve_attempt_def split: sum.splits option.splits if_splits)
    ultimately show ?thesis using g(3) unfolding evolve_ends_def by auto
  next
    case True
    then obtain s md md' where s: "r1 = Inr (Some s)" "sn_metadata s = Some md" "expected \<noteq> None \<longrightarrow> expected = Some md"
      "check_supported_protocol (sn_protocol s) = None" "evolve_delta_metadata md (Some cmp) = Inr (md', True)"
      by blast
    let ?c = "build_schema_evolution_commit md'" and ?v = "sn_version s + 1"
    obtain w2 where p: "publish_attempt env dir ?v ?c w1 = (w2, a)" and q: "q = (w2, Some md)"
      using step m s by (auto simp: evolve_attempt_def split: prod.splits)
    have v: "?v = next_version (ts_log (w_store w1 dir))" "ts_log (w_store w1 dir) \<noteq> []" "stored_metadata (w_store w1 dir) = Some md"
      using g(4) s(1,2) by auto
    let ?s = "ev_others env (w_clock w1) (w_store w1)"
    have b: "by_others env (w_store w) ?s" using g(3) by (rule by_others.others_act)
    have grown: "extends_log (ts_log (w_store w1 dir)) (ts_log (?s dir))" using fair by (simp add: fair_def grown_def)
    have ok: "log_ok (ts_log (w_store w1 dir))" using g(1) by (simp add: good_def)
    from g(1) p show ?thesis
    proof (cases rule: publish_outcome)
      case conflict
      have "ts_log (w_store w2 dir) \<noteq> ts_log (w_store w1 dir)"
        using conflict(3,4) v(1) next_version_free [OF ok grown] by simp
      moreover have "extends_log (ts_log (w_store w dir)) (ts_log (w_store w1 dir))"
        using grown_by_others [OF fair g(3)] by (simp add: grown_def)
      ultimately have "length (ts_log (w_store w dir)) < length (ts_log (w_store w2 dir))"
        using grown conflict(3) by (auto simp: extends_log_def)
      moreover have "w_cache w2 = w_cache w1" using p by (auto simp: publish_attempt_def publish_def next_tick_def set_table_def Let_def split: if_splits fault.splits)
      then have "cache_ok lib w2"
        using cache_ok_grown [OF g(2)] conflict(3) fair by (simp add: fair_def)
      ultimately show ?thesis using conflict b s(3) q by (auto simp: evolve_waits_def)
    next
      case lost
      then show ?thesis using error by_others_trans [OF g(3) lost(2)] q by simp
    next
      case (landed r)
      have same: "ts_log (?s dir) = ts_log (w_store w1 dir)"
        using next_version_free [OF ok grown] landed(2) v(1) by simp
      then have md: "stored_metadata (?s dir) = Some md" using v(3) by (simp add: stored_metadata_def table_snapshot_def)
      have ok': "log_ok (ts_log (?s dir))" using ok same by simp
      have "w_store w2 = committed dir ?c ?s"
        using landed(3) v(1) same insort_next_version [OF ok'] by (simp add: committed_def)
      then have "evolved dir cmp expected ?s (w_store w2)"
        using md s(3,5) evolution_takes_effect [of ?s dir md', OF ok'] same v(2) by (auto simp: evolved_def)
      then have "evolve_ends env dir cmp (w, expected) r q" unfolding evolve_ends_def q using b by auto
      then show ?thesis using landed(1) by simp
    qed
  qed
qed

interpretation evolving: counted_retry "evolve_attempt lib env dir cmp" "\<lambda>p. good env (fst p) \<and> cache_ok lib (fst p)"
    "evolve_waits env" "evolve_ends env dir cmp" "\<lambda>p. length (ts_log (w_store (fst p) dir))"
  for lib env dir cmp
proof
  fix p q u :: "'a lake \<times> delta_metadata option" and r
  show "evolve_waits env p p" by (simp add: evolve_waits_def by_others.idle)
  show "evolve_waits env p u" if "evolve_waits env p q" "evolve_waits env q u"
    using that unfolding evolve_waits_def by (metis by_others_trans)
  show "evolve_ends env dir cmp p r u" if waits: "evolve_waits env p q" and ends: "evolve_ends env dir cmp q r u"
  proof -
    obtain s where s: "by_others env (w_store (fst q)) s"
      "w_store (fst u) = s \<and> (r = Inr () \<longrightarrow> nothing_to_evolve dir cmp s) \<or> evolved dir cmp (snd q) s (w_store (fst u))"
      using ends unfolding evolve_ends_def by blast
    moreover have "by_others env (w_store (fst p)) s"
      using waits s(1) by_others_trans unfolding evolve_waits_def by blast
    moreover have "evolved dir cmp (snd q) s v \<Longrightarrow> evolved dir cmp (snd p) s v" for v
      using waits unfolding evolved_def evolve_waits_def by auto
    ultimately show ?thesis unfolding evolve_ends_def by blast
  qed
  show "(good env (fst u) \<and> cache_ok lib (fst u)) \<and> evolve_waits env p u"
    if "good env (fst p) \<and> cache_ok lib (fst p)" "evolve_attempt lib env dir cmp p = (u, Again)"
    using that evolve_attempt_ends [of env "fst p" lib dir cmp "snd p" u Again] by simp
  show "evolve_ends env dir cmp p r u"
    if "good env (fst p) \<and> cache_ok lib (fst p)" "evolve_attempt lib env dir cmp p = (u, Done r)"
    using that evolve_attempt_ends [of env "fst p" lib dir cmp "snd p" u "Done r"] by simp
  show "length (ts_log (w_store (fst p) dir)) < length (ts_log (w_store (fst u) dir))"
    if "good env (fst p) \<and> cache_ok lib (fst p)" "evolve_attempt lib env dir cmp p = (u, Again)"
    using that evolve_attempt_ends [of env "fst p" lib dir cmp "snd p" u Again] by simp
qed

lemma evolution_serial:
  assumes good: "good env w" "cache_ok lib w" and dir: "dir_of table = Inr dir"
    and run: "apply_schema_evolution lib env dir_of table (Some c) w = (w', r)"
    and changes: "cmp_has_changes c"
  shows "\<exists>s. by_others env (w_store w) s \<and>
    (w_store w' = s \<and> (r = Inr () \<longrightarrow> nothing_to_evolve dir c s) \<or>
     evolved dir c (map_option mc_metadata (w_cache w dir)) s (w_store w'))"
proof -
  let ?p = "(w, map_option mc_metadata (w_cache w dir))"
  obtain q res where q: "retry max_delta_commit_attempts (evolve_attempt lib env dir c) ?p = (q, res)"
    by (cases "retry max_delta_commit_attempts (evolve_attempt lib env dir c) ?p")
  have w': "w' = fst q" "r = (case res of None \<Rightarrow> Inl TooManyConflicts | Some r \<Rightarrow> r)"
    using run q changes by (auto simp: apply_schema_evolution_def dir exhausted_def split: option.splits prod.splits)
  have "case res of None \<Rightarrow> evolve_waits env ?p q | Some r \<Rightarrow> evolve_ends env dir c ?p r q"
    using evolving.retry_outcome [OF _ q] good by simp
  then show ?thesis using w' by (auto simp: evolve_waits_def evolve_ends_def split: option.splits)
qed

text \<open>C14: schema evolution either leaves the log to the others or adds one commit to it: the table's
  metadata is then the evolution of what it was just before, which is the metadata that the plan was
  built from where it was read before, and the data files stay as they are. Success without a commit
  means that the table is not there or that the plan changes nothing; giving up on conflicts means that
  somebody else has committed in each attempt.\<close>

theorem evolution_is_serialized:
  assumes good: "good env w" "cache_ok lib w" and dir: "dir_of table = Inr dir"
    and run: "apply_schema_evolution lib env dir_of table (Some c) w = (w', r)"
    and changes: "cmp_has_changes c"
  shows "\<exists>s. by_others env (w_store w) s \<and>
    (w_store w' = s \<and> (r = Inr () \<longrightarrow> nothing_to_evolve dir c s) \<or>
     evolved dir c (map_option mc_metadata (w_cache w dir)) s (w_store w'))"
  using assms by (rule evolution_serial)

definition added_note :: schema_comparison where
  "added_note =
     \<lparr>cmp_changes = [\<lparr>sc_type = ChangeAddColumn, sc_column_name = ''note'', sc_old = None,
        sc_new = zero_column\<lparr>c_name := ''note'', c_type := TypeString, c_nullable := True\<rparr>\<rparr>],
      cmp_has_changes = True\<rparr>"

lemma evolution_is_serialized_witness:
  "let (w', r) = apply_schema_evolution plain_io rival Inr ''T'' (Some added_note) two_tables
   in \<exists>s. by_others rival (w_store two_tables) s \<and>
    (w_store w' = s \<and> (r = Inr () \<longrightarrow> nothing_to_evolve ''T'' added_note s) \<or>
     evolved ''T'' added_note (map_option mc_metadata (w_cache two_tables ''T'')) s (w_store w'))"
proof -
  have c: "cache_ok plain_io two_tables" "cmp_has_changes added_note"
    by (simp_all add: cache_ok_def two_tables_def added_note_def)
  obtain w' r where run: "apply_schema_evolution plain_io rival Inr ''T'' (Some added_note) two_tables = (w', r)"
    by (cases "apply_schema_evolution plain_io rival Inr ''T'' (Some added_note) two_tables")
  from evolution_is_serialized [OF two_tables_good c(1) refl run c(2)] show ?thesis
    unfolding run Let_def prod.case .
qed

end
