(* ===== verification/Onelake_Kept.thy ===== *)
theory Onelake_Kept
  imports Onelake_Append Onelake_Evolve
begin

text \<open>
  Runs of several operations on the OneLake destination: what each operation keeps of storage, so that
  the next one finds it in order, and that a table is left to the other writers by the operations on
  every other table.
\<close>

subsection \<open>Storage in order\<close>

definition kept :: "'f io_lib \<Rightarrow> 'f environment \<Rightarrow> 'f lake \<Rightarrow> bool" where
  "kept lib env w \<longleftrightarrow>
     good env w \<and> cache_ok lib w \<and> (\<forall>dir. \<forall>v\<in>fst ` set (ts_log (w_store w dir)). 0 \<le> v)"

text \<open>A table that only others write to: its log is theirs, and files appear that it does not mention.\<close>

inductive left_alone :: "'f environment \<Rightarrow> string \<Rightarrow> 'f store \<Rightarrow> 'f store \<Rightarrow> bool" for env dir where
  untouched: "left_alone env dir s s"
| theirs: "left_alone env dir s s1 \<Longrightarrow> left_alone env dir s (ev_others env n s1)"
| elsewhere: "left_alone env dir s s1 \<Longrightarrow> ts_log (s2 dir) = ts_log (s1 dir) \<Longrightarrow>
    ts_files (s1 dir) \<subseteq>\<^sub>m ts_files (s2 dir) \<Longrightarrow> left_alone env dir s s2"

lemma left_alone_trans:
  assumes "left_alone env dir s s1" "left_alone env dir s1 s2"
  shows "left_alone env dir s s2"
  using assms(2,1) by (induction rule: left_alone.induct) (auto intro: left_alone.intros)

lemma left_alone_table: "s2 dir = s1 dir \<Longrightarrow> left_alone env dir s1 s2"
  by (rule left_alone.elsewhere [OF left_alone.untouched]) simp_all

lemma left_alone_by_others: "by_others env s t \<Longrightarrow> left_alone env dir s t"
proof (induction rule: by_others.induct)
  case (new_file s s1 d p c)
  show ?case
    by (rule left_alone.elsewhere [OF new_file.IH]) (use new_file.hyps in \<open>auto simp: map_le_def\<close>)
qed (auto intro: left_alone.intros)

lemma left_alone_log:
  assumes "left_alone env dir s t" "\<forall>n s. ts_log (ev_others env n s dir) = ts_log (s dir)"
  shows "ts_log (t dir) = ts_log (s dir)"
  using assms(1) by (induction rule: left_alone.induct) (simp_all add: assms(2))

lemma left_alone_files:
  assumes "left_alone env dir s t" "fair env"
  shows "ts_files (s dir) \<subseteq>\<^sub>m ts_files (t dir)"
  using assms(1)
proof (induction rule: left_alone.induct)
  case (theirs s s1 n)
  have "ts_files (s1 dir) \<subseteq>\<^sub>m ts_files (ev_others env n s1 dir)"
    using assms(2) by (simp add: fair_def grown_def)
  then show ?case using theirs.IH map_le_trans by blast
next
  case (elsewhere s s1 s2)
  then show ?case using map_le_trans by blast
qed simp

text \<open>What an operation on the table \<open>dir\<close> does to storage.\<close>

definition keeps :: "'f io_lib \<Rightarrow> 'f environment \<Rightarrow> string \<Rightarrow> 'f lake \<Rightarrow> 'f lake \<Rightarrow> bool" where
  "keeps lib env dir w w' \<longleftrightarrow>
     kept lib env w' \<and> w_clock w \<le> w_clock w' \<and> (\<forall>d. d \<noteq> dir \<longrightarrow> left_alone env d (w_store w) (w_store w'))"

lemma keeps_refl: "kept lib env w \<Longrightarrow> keeps lib env dir w w"
  by (simp add: keeps_def left_alone.untouched)

lemma keeps_trans: "keeps lib env dir w v \<Longrightarrow> keeps lib env dir v u \<Longrightarrow> keeps lib env dir w u"
  unfolding keeps_def by (meson left_alone_trans order_trans)

lemma keeps_kept: "keeps lib env dir w w' \<Longrightarrow> kept lib env w'"
  by (simp add: keeps_def)

lemma kept_fair: "kept lib env w \<Longrightarrow> fair env"
  by (simp add: kept_def good_def)

lemma keeps_others:
  assumes "kept lib env w" "good env w'" "by_others env (w_store w) (w_store w')" "cache_ok lib w'" "w_clock w \<le> w_clock w'"
  shows "keeps lib env dir w w'"
proof -
  have g: "grown (w_store w) (w_store w')" using grown_by_others [OF kept_fair [OF assms(1)] assms(3)] .
  have "\<forall>v\<in>fst ` set (ts_log (w_store w' d)). 0 \<le> v" for d
  proof (rule nonneg_extends)
    show "\<forall>v\<in>fst ` set (ts_log (w_store w d)). 0 \<le> v" using assms(1) by (simp add: kept_def)
    show "extends_log (ts_log (w_store w d)) (ts_log (w_store w' d))" using g by (simp add: grown_def)
  qed
  then show ?thesis
    using assms left_alone_by_others [OF assms(3)] by (simp add: keeps_def kept_def)
qed

lemma keeps_by_others:
  assumes "kept lib env w" "good env w'" "by_others env (w_store w) (w_store w')" "w_cache w' = w_cache w"
    "w_clock w \<le> w_clock w'"
  shows "keeps lib env dir w w'"
proof (rule keeps_others [OF assms(1-3) _ assms(5)])
  show "cache_ok lib w'"
    using assms(1) grown_by_others [OF kept_fair [OF assms(1)] assms(3)]
    by (intro cache_ok_grown [OF _ assms(4)]) (simp_all add: kept_def)
qed

lemma keeps_tick:
  assumes "kept lib env w" "next_tick env w = (f, w1)"
  shows "keeps lib env dir w w1"
proof -
  have g: "good env w" using assms(1) by (simp add: kept_def)
  have "w_cache w1 = w_cache w" using assms(2) by (auto simp: next_tick_def)
  then show ?thesis
    using tick_good [OF g assms(2)] by (intro keeps_by_others [OF assms(1)]) simp_all
qed

lemma keeps_read:
  assumes "kept lib env w" "read_delta_table lib env d w = (w1, r)"
  shows "keeps lib env dir w w1"
proof -
  obtain f w0 where t: "next_tick env w = (f, w0)" by (cases "next_tick env w")
  then show ?thesis using keeps_tick [OF assms(1) t] assms(2) by (simp add: read_delta_table_def)
qed

lemma upload_clock:
  "upload env dir p c w = (w1, r) \<Longrightarrow> w_clock w1 = Suc (w_clock w) \<and> w_cache w1 = w_cache w"
  by (auto simp: upload_def next_tick_def set_table_def Let_def split: fault.splits)

lemma keeps_upload:
  assumes "kept lib env w" "upload env dir (data_file (ev_uuid env (w_clock w))) c w = (w1, r)"
  shows "keeps lib env d w w1"
proof -
  have g: "good env w" using assms(1) by (simp add: kept_def)
  show ?thesis
    using upload_good [OF g assms(2)] upload_clock [OF assms(2)] by (intro keeps_by_others [OF assms(1)]) simp_all
qed

subsection \<open>Publishing\<close>

text \<open>A version that is taken, or the next one: it stays so while others write.\<close>

definition open_version :: "int \<Rightarrow> (int \<times> commit) list \<Rightarrow> bool" where
  "open_version v es \<longleftrightarrow> v \<in> fst ` set es \<or> v = next_version es"

lemma open_version_extends:
  assumes "open_version v old" "extends_log old new"
  shows "open_version v new"
proof -
  obtain later where m: "new = old @ later" "map fst later = map (\<lambda>i. next_version old + int i) [0..<length later]"
    using assms(2) by (auto simp: extends_log_def)
  show ?thesis
  proof (cases "later = []")
    case False
    then have "next_version old \<in> set (map fst later)" unfolding m(2) by force
    then show ?thesis using assms(1) m(1) by (auto simp: open_version_def)
  qed (use assms(1) m(1) in simp)
qed

lemma keeps_publish:
  assumes kept: "kept lib env w" and v: "open_version v (ts_log (w_store w dir))" "0 \<le> v"
    and paths: "\<And>p b k. AddFile p b \<in> set c \<Longrightarrow> w_clock w \<le> k \<Longrightarrow> p \<noteq> data_file (ev_uuid env k)"
    and run: "publish env dir v c w = (w', r)"
  shows "keeps lib env dir w w'"
proof -
  obtain f w0 where t: "next_tick env w = (f, w0)" by (cases "next_tick env w")
  have g: "good env w" using kept by (simp add: kept_def)
  note tick = tick_good [OF g t]
  have k0: "keeps lib env dir w w0" using keeps_tick [OF kept t] .
  let ?log = "ts_log (w_store w0 dir)"
  let ?w = "set_table w0 dir ((w_store w0 dir)\<lparr>ts_log := insort_key fst (v, c) ?log\<rparr>)"
  have cases: "w' = w0 \<or> w' = ?w \<and> v \<notin> fst ` set ?log"
    using run t by (auto simp: publish_def Let_def split: if_splits)
  have "keeps lib env dir w0 ?w" if free: "v \<notin> fst ` set ?log"
  proof -
    have ok: "log_ok ?log" using tick(1) by (simp add: good_def)
    have "extends_log (ts_log (w_store w dir)) ?log"
      using grown_by_others [OF kept_fair [OF kept] tick(2)] by (simp add: grown_def)
    from open_version_extends [OF v(1) this] have next_v: "v = next_version ?log"
      using free unfolding open_version_def by blast
    then have log: "insort_key fst (v, c) ?log = ?log @ [(v, c)]" using insort_next_version [OF ok] by simp
    have "\<forall>x\<in>fst ` set ?log. x < v" using sorted_next_version [OF ok] next_v by blast
    then have "log_ok (?log @ [(v, c)])" using ok by (auto simp: log_ok_def sorted_wrt_append)
    moreover have "log_ok (ts_log (w_store w0 d))" for d using tick(1) by (simp add: good_def)
    moreover have "fresh env (w_clock ?w) (w_store ?w)"
    proof -
      have "data_file (ev_uuid env k) \<notin> log_paths (?log @ [(v, c)])" if "w_clock w0 \<le> k" for k
      proof -
        have "data_file (ev_uuid env k) \<notin> log_paths ?log" using tick(1) that by (auto simp: good_def fresh_def)
        moreover have "AddFile (data_file (ev_uuid env k)) b \<notin> set c" for b
          using paths [of "data_file (ev_uuid env k)" b k] that tick(4) by auto
        ultimately show ?thesis by (auto simp: log_paths_def)
      qed
      then show ?thesis using tick(1) log by (auto simp: good_def fresh_def set_table_def)
    qed
    ultimately have good: "good env ?w" using tick(1) log by (simp add: good_def set_table_def)
    have "extends_log ?log (?log @ [(v, c)])" using next_v by (auto simp: extends_log_def)
    then have grown: "grown (w_store w0) (w_store ?w)" using log by (simp add: grown_def set_table_def extends_log_refl)
    have "cache_ok lib w0" using keeps_kept [OF k0] by (simp add: kept_def)
    from cache_ok_grown [OF this _ grown] have cache: "cache_ok lib ?w" by (simp add: set_table_def)
    have "\<forall>x\<in>fst ` set (ts_log (w_store ?w d)). 0 \<le> x" for d
      using keeps_kept [OF k0] v(2) log by (simp add: kept_def set_table_def)
    then show ?thesis
      using good cache by (auto simp: keeps_def kept_def set_table_def intro: left_alone_table)
  qed
  then show ?thesis using cases k0 keeps_trans by blast
qed

lemma keeps_publish_attempt:
  assumes "kept lib env w" "open_version v (ts_log (w_store w dir))" "0 \<le> v"
    and "\<And>p b k. AddFile p b \<in> set c \<Longrightarrow> w_clock w \<le> k \<Longrightarrow> p \<noteq> data_file (ev_uuid env k)"
    and "publish_attempt env dir v c w = (w', a)"
  shows "keeps lib env dir w w'"
proof -
  obtain w1 r where r: "publish env dir v c w = (w1, r)" by (cases "publish env dir v c w")
  moreover have "w1 = w'" using assms(5) r by (auto simp: publish_attempt_def split: publish_result.splits)
  ultimately have "publish env dir v c w = (w', r)" by simp
  from keeps_publish [OF assms(1-3) _ this] show ?thesis using assms(4) by blast
qed

subsection \<open>The loops\<close>

lemma retry_keeps:
  assumes step: "\<And>w w' a. begun w \<Longrightarrow> step w = (w', a) \<Longrightarrow> rel w w' \<and> (a = Again \<longrightarrow> begun w')"
    and refl: "\<And>w. begun w \<Longrightarrow> rel w w" and trans: "\<And>u v w. rel u v \<Longrightarrow> rel v w \<Longrightarrow> rel u w"
  shows "begun w \<Longrightarrow> retry n step w = (w', r) \<Longrightarrow> rel w w'"
proof (induction n arbitrary: w)
  case (Suc n)
  obtain w1 a where a: "step w = (w1, a)" by (cases "step w")
  note s = step [OF Suc.prems(1) a]
  show ?case
  proof (cases a)
    case Again
    then have "rel w1 w'" using Suc.IH s Suc.prems(2) a by simp
    then show ?thesis using s trans by blast
  next
    case (Done x)
    then show ?thesis using s Suc.prems(2) a by simp
  qed
qed (use refl in simp)

lemma added_files:
  "AddFile p b \<in> set (build_initial_commit cols adds t) \<Longrightarrow> p \<in> set adds"
  "AddFile p b \<in> set (build_rewrite_commit removes adds) \<Longrightarrow> p \<in> set adds"
  "AddFile p b \<in> set (build_append_commit adds) \<Longrightarrow> p \<in> set adds"
  "AddFile p b \<notin> set (build_schema_evolution_commit md)"
  by (auto simp: build_initial_commit_def build_rewrite_commit_def build_append_commit_def
      build_schema_evolution_commit_def add_actions_def remove_actions_def)

lemma next_version_nonneg: "\<forall>v\<in>fst ` set es. 0 \<le> v \<Longrightarrow> 0 \<le> next_version es"
  by (cases es rule: rev_cases) (auto simp: next_version_def intro: add_nonneg_nonneg)

lemma kept_next_version: "kept lib env w \<Longrightarrow> 0 \<le> next_version (ts_log (w_store w dir))"
  by (intro next_version_nonneg) (simp add: kept_def)

lemma open_next_version: "open_version (next_version es) es"
  by (simp add: open_version_def)

lemma old_file_not_new:
  "fair env \<Longrightarrow> p = data_file (ev_uuid env j) \<Longrightarrow> j < n \<Longrightarrow> n \<le> k \<Longrightarrow> p \<noteq> data_file (ev_uuid env k)"
  by (simp add: data_file_inject)

lemma keeps_upload_rewrite:
  assumes kept: "kept lib env w" and run: "upload_rewrite_data lib env dir out w = (w', u)"
  shows "keeps lib env d w w' \<and> by_others env (w_store w) (w_store w') \<and>
    (\<forall>adds cols p. u = Inr (adds, cols) \<and> p \<in> set adds \<longrightarrow>
       p = data_file (ev_uuid env (w_clock w)) \<and> w_clock w < w_clock w')"
proof (cases "out \<noteq> [] \<and> (\<exists>c. write_batches_to_parquet lib out = Inr c)")
  case True
  then obtain c where c: "write_batches_to_parquet lib out = Inr c" "out \<noteq> []" by blast
  obtain w1 r where r: "upload env dir (data_file (ev_uuid env (w_clock w))) c w = (w1, r)"
    by (cases "upload env dir (data_file (ev_uuid env (w_clock w))) c w")
  have "good env w" using kept by (simp add: kept_def)
  from upload_good(2) [OF this r] show ?thesis
    using keeps_upload [OF kept r] upload_clock [OF r] run c r
    by (auto simp: upload_rewrite_data_def Let_def split: sum.splits)
next
  case False
  then show ?thesis
    using run keeps_refl [OF kept] by (auto simp: upload_rewrite_data_def by_others.idle split: if_splits sum.splits)
qed

lemma rewrite_commit_version:
  assumes "log_ok (ts_log t)" "table_content lib t = Inr content" "rewrite_commit uuid (fst content) adds cols = Some (v, c)"
  shows "v = next_version (ts_log t)" "AddFile p b \<in> set c \<Longrightarrow> p \<in> set adds"
proof -
  obtain snap bs where content: "content = (snap, bs)" by (cases content)
  show "v = next_version (ts_log t)"
    using table_content_log [OF assms(1), of lib snap bs] assms(2,3) content
    by (auto simp: rewrite_commit_def next_version_def Let_def split: option.splits if_splits)
  show "AddFile p b \<in> set c \<Longrightarrow> p \<in> set adds"
    using assms(3) by (auto simp: rewrite_commit_def Let_def dest: added_files(1-3) split: option.splits if_splits)
qed

lemma keeps_rewrite_attempt:
  assumes kept: "kept lib env w" and run: "rewrite_attempt al lib env load dir staging w = (w', a)"
  shows "keeps lib env dir w w'"
proof -
  obtain w1 r1 where r1: "read_delta_table lib env dir w = (w1, r1)" by (cases "read_delta_table lib env dir w")
  have k1: "keeps lib env dir w w1" using keeps_read [OF kept r1] .
  show ?thesis
  proof (cases "\<exists>content out. r1 = Inr content \<and> transform al lib load staging content = Inr out")
    case False
    then have "w' = w1" using run r1 by (auto simp: rewrite_attempt_def split: sum.splits)
    then show ?thesis using k1 by simp
  next
    case True
    then obtain content out where c: "r1 = Inr content" "transform al lib load staging content = Inr out" by blast
    obtain w2 u where u: "upload_rewrite_data lib env dir out w1 = (w2, u)" by (cases "upload_rewrite_data lib env dir out w1")
    note up = keeps_upload_rewrite [OF keeps_kept [OF k1] u, of dir]
    have k2: "keeps lib env dir w w2" using keeps_trans [OF k1] up by blast
    show ?thesis
    proof (cases "\<exists>adds cols v c. u = Inr (adds, cols) \<and> rewrite_commit (ev_uuid env (w_clock w2)) (fst content) adds cols = Some (v, c)")
      case False
      then have "w' = w2" using run r1 c u by (auto simp: rewrite_attempt_def split: sum.splits option.splits)
      then show ?thesis using k2 by simp
    next
      case True
      then obtain adds cols v cm where v: "u = Inr (adds, cols)"
        "rewrite_commit (ev_uuid env (w_clock w2)) (fst content) adds cols = Some (v, cm)" by blast
      have p: "publish_attempt env dir v cm w2 = (w', a)"
        using run r1 c u v by (simp add: rewrite_attempt_def)
      have "table_content lib (w_store w1 dir) = Inr content"
        using r1 c by (auto simp: read_delta_table_def split: prod.splits if_splits)
      moreover have "log_ok (ts_log (w_store w1 dir))" using keeps_kept [OF k1] by (simp add: kept_def good_def)
      ultimately have cm: "v = next_version (ts_log (w_store w1 dir))" "\<And>p b. AddFile p b \<in> set cm \<Longrightarrow> p \<in> set adds"
        using rewrite_commit_version v(2) by blast+
      have "extends_log (ts_log (w_store w1 dir)) (ts_log (w_store w2 dir))"
        using grown_by_others [OF kept_fair [OF kept]] up by (simp add: grown_def)
      then have "open_version v (ts_log (w_store w2 dir))"
        using open_version_extends open_next_version cm(1) by blast
      moreover have "0 \<le> v" using kept_next_version [OF keeps_kept [OF k1]] cm(1) by simp
      moreover have "p \<noteq> data_file (ev_uuid env k)" if "AddFile p b \<in> set cm" "w_clock w2 \<le> k" for p b k
        using up v(1) cm(2) [OF that(1)] that(2) old_file_not_new [OF kept_fair [OF kept]] by blast
      ultimately have "keeps lib env dir w2 w'"
        by (intro keeps_publish_attempt [OF keeps_kept [OF k2] _ _ _ p])
      then show ?thesis using keeps_trans [OF k2] by blast
    qed
  qed
qed

lemma keeps_rewrite:
  assumes kept: "kept lib env w" and dir: "dir_of target = Inr dir"
    and run: "rewrite_table_with_retry al lib env dir_of load target staging w = (w', r)"
  shows "keeps lib env dir w w'"
proof (cases "\<exists>sdir. dir_of staging = Inr sdir")
  case False
  then have "w' = w" using run by (auto simp: rewrite_table_with_retry_def split: sum.splits)
  then show ?thesis using keeps_refl [OF kept] by simp
next
  case True
  then obtain sdir where s: "dir_of staging = Inr sdir" by blast
  obtain w1 r1 where r1: "read_delta_table lib env sdir w = (w1, r1)" by (cases "read_delta_table lib env sdir w")
  have k1: "keeps lib env dir w w1" using keeps_read [OF kept r1] .
  show ?thesis
  proof (cases r1)
    case (Inl e)
    then show ?thesis using run s r1 k1 by (simp add: rewrite_table_with_retry_def)
  next
    case (Inr c)
    obtain w2 res where w2: "retry max_delta_commit_attempts (rewrite_attempt al lib env load dir (snd c)) w1 = (w2, res)"
      by (cases "retry max_delta_commit_attempts (rewrite_attempt al lib env load dir (snd c)) w1")
    have "keeps lib env dir w1 w2"
    proof (rule retry_keeps [where begun = "kept lib env", OF _ _ _ keeps_kept [OF k1] w2])
      show "keeps lib env dir v v' \<and> (a = Again \<longrightarrow> kept lib env v')"
        if "kept lib env v" "rewrite_attempt al lib env load dir (snd c) v = (v', a)" for v v' a
        using keeps_rewrite_attempt [OF that] keeps_kept by blast
    qed (fact keeps_refl keeps_trans)+
    moreover have "w' = w2"
      using run s dir r1 Inr w2 by (auto simp: rewrite_table_with_retry_def exhausted_def split: option.splits prod.splits)
    ultimately show ?thesis using keeps_trans [OF k1] by blast
  qed
qed

lemma keeps_evolve_attempt:
  assumes kept: "kept lib env (fst p)" and run: "evolve_attempt lib env dir cmp p = (q, a)"
  shows "keeps lib env dir (fst p) (fst q)"
proof -
  obtain w expected where p: "p = (w, expected)" by (cases p)
  have kw: "kept lib env w" using kept p by simp
  then have g: "good env w" "cache_ok lib w" by (simp_all add: kept_def)
  obtain w1 r1 where m: "table_metadata lib env dir w = (w1, r1)" by (cases "table_metadata lib env dir w")
  note out = table_metadata_outcome [OF g m]
  have "w_clock w \<le> w_clock w1"
    using m by (auto simp: table_metadata_def next_tick_def Let_def split: prod.splits if_splits)
  then have k1: "keeps lib env dir w w1" using keeps_others [OF kw out(1,3,2)] by blast
  show ?thesis
  proof (cases "fst q = w1")
    case False
    then obtain s md md' w2 where s: "r1 = Inr (Some s)" "sn_metadata s = Some md"
      "publish_attempt env dir (sn_version s + 1) (build_schema_evolution_commit md') w1 = (w2, a)" "fst q = w2"
      using run m p by (auto simp: evolve_attempt_def split: sum.splits option.splits if_splits prod.splits)
    have v: "sn_version s + 1 = next_version (ts_log (w_store w1 dir))" using out(4) s(1) by auto
    have "keeps lib env dir w1 w2"
    proof (rule keeps_publish_attempt [OF keeps_kept [OF k1] _ _ _ s(3)])
      show "open_version (sn_version s + 1) (ts_log (w_store w1 dir))" unfolding v by (rule open_next_version)
      show "0 \<le> sn_version s + 1" unfolding v by (rule kept_next_version [OF keeps_kept [OF k1]])
    qed (simp add: added_files)
    then show ?thesis using keeps_trans [OF k1] s(4) p by simp
  qed (use k1 p in simp)
qed

lemma keeps_evolution:
  assumes kept: "kept lib env w" and dir: "dir_of table = Inr dir"
    and run: "apply_schema_evolution lib env dir_of table cmp w = (w', r)"
  shows "keeps lib env dir w w'"
proof (cases "\<exists>c. cmp = Some c \<and> cmp_has_changes c")
  case False
  then have "w' = w" using run by (auto simp: apply_schema_evolution_def split: option.splits if_splits)
  then show ?thesis using keeps_refl [OF kept] by simp
next
  case True
  then obtain c where c: "cmp = Some c" "cmp_has_changes c" by blast
  let ?p = "(w, map_option mc_metadata (w_cache w dir))"
  obtain q res where q: "retry max_delta_commit_attempts (evolve_attempt lib env dir c) ?p = (q, res)"
    by (cases "retry max_delta_commit_attempts (evolve_attempt lib env dir c) ?p")
  have "keeps lib env dir (fst ?p) (fst q)"
  proof (rule retry_keeps [where begun = "\<lambda>p. kept lib env (fst p)" and rel = "\<lambda>p q. keeps lib env dir (fst p) (fst q)",
        OF _ _ _ _ q])
    show "keeps lib env dir (fst v) (fst v') \<and> (a = Again \<longrightarrow> kept lib env (fst v'))"
      if "kept lib env (fst v)" "evolve_attempt lib env dir c v = (v', a)" for v v' a
      using keeps_evolve_attempt [OF that] keeps_kept by blast
  qed (use kept in \<open>auto intro: keeps_refl keeps_trans\<close>)
  moreover have "w' = fst q"
    using run c dir q by (auto simp: apply_schema_evolution_def exhausted_def split: option.splits prod.splits)
  ultimately show ?thesis by simp
qed

lemma keeps_append_attempt:
  assumes good: "append_good env t (data_file (ev_uuid env k)) content w" and kept: "kept lib env w" and k: "k < w_clock w"
    and run: "append_attempt env t cols (data_file (ev_uuid env k)) w = (w', a)"
  shows "keeps lib env (tg_dir t) w w'"
proof -
  let ?dir = "tg_dir t" and ?file = "data_file (ev_uuid env k)"
  obtain w1 r1 where r1: "next_delta_version env t w = (w1, r1)" by (cases "next_delta_version env t w")
  have k1: "keeps lib env ?dir w w1"
  proof (cases "tg_drop_first t")
    case True
    then show ?thesis using r1 keeps_refl [OF kept] by (simp add: next_delta_version_def)
  next
    case False
    obtain f w0 where t: "next_tick env w = (f, w0)" by (cases "next_tick env w")
    then show ?thesis using r1 False keeps_tick [OF kept t] by (simp add: next_delta_version_def)
  qed
  show ?thesis
  proof (cases r1)
    case (Inl e)
    then show ?thesis using run r1 k1 by (simp add: append_attempt_def)
  next
    case (Inr v)
    let ?c = "if v = 0 then build_initial_commit cols [?file] (ev_uuid env (w_clock w1)) else build_append_commit [?file]"
    have v: "if tg_drop_first t then v = 0 \<and> w1 = w else v = next_version (ts_log (w_store w1 ?dir))"
      using r1 Inr by (auto simp: next_delta_version_def split: if_splits prod.splits)
    have "open_version v (ts_log (w_store w1 ?dir))"
      using v good by (auto simp: open_version_def append_good_def next_version_def split: if_splits)
    moreover have "0 \<le> v" using v kept_next_version [OF keeps_kept [OF k1]] by (auto split: if_splits)
    moreover have "p \<noteq> data_file (ev_uuid env j)" if "AddFile p b \<in> set ?c" "w_clock w1 \<le> j" for p b j
    proof -
      have "p = ?file" using that(1) by (auto dest: added_files(1-3) split: if_splits)
      moreover have "k < w_clock w1" using k k1 by (simp add: keeps_def)
      ultimately show ?thesis using old_file_not_new [OF kept_fair [OF kept]] that(2) by blast
    qed
    moreover have "publish_attempt env ?dir v ?c w1 = (w', a)" using run r1 Inr by (simp add: append_attempt_def)
    ultimately have "keeps lib env ?dir w1 w'" by (rule keeps_publish_attempt [OF keeps_kept [OF k1]])
    then show ?thesis using keeps_trans [OF k1] by blast
  qed
qed

lemma keeps_write_tables:
  assumes kept: "kept lib env w" and fresh: "tg_drop_first t \<longrightarrow> ts_log (w_store w (tg_dir t)) = []"
    and run: "write_tables_mode env t content w = (w', r)"
  shows "keeps lib env (tg_dir t) w w'"
proof -
  let ?dir = "tg_dir t" and ?file = "data_file (ev_uuid env (w_clock w))"
  have good: "good env w" using kept by (simp add: kept_def)
  obtain w1 u where u: "upload env ?dir ?file content w = (w1, u)" by (cases "upload env ?dir ?file content w")
  note g = upload_good [OF good u]
  have k1: "keeps lib env ?dir w w1" using keeps_upload [OF kept u] .
  show ?thesis
  proof (cases "u = Inr () \<and> (\<exists>cols. target_columns t = Inr cols)")
    case False
    then show ?thesis using run u k1 by (cases u) (auto simp: write_tables_mode_def split: sum.splits)
  next
    case True
    then obtain cols where c: "u = Inr ()" "target_columns t = Inr cols" by blast
    have grown: "extends_log (ts_log (w_store w ?dir)) (ts_log (w_store w1 ?dir))"
      using grown_by_others [OF kept_fair [OF kept] g(2)] by (simp add: grown_def)
    have good1: "append_good env t ?file content w1"
      using g(1,3,4) c(1) fresh starts_at_0 [OF grown] keeps_kept [OF k1] unfolding append_good_def kept_def by auto
    obtain w2 res where w2: "retry max_delta_commit_attempts (append_attempt env t cols ?file) w1 = (w2, res)"
      by (cases "retry max_delta_commit_attempts (append_attempt env t cols ?file) w1")
    let ?begun = "\<lambda>v. append_good env t ?file content v \<and> kept lib env v \<and> w_clock w < w_clock v"
    have "keeps lib env ?dir w1 w2"
    proof (rule retry_keeps [where begun = ?begun, OF _ _ _ _ w2])
      show "keeps lib env ?dir v v' \<and> (a = Again \<longrightarrow> ?begun v')"
        if begun: "?begun v" and st: "append_attempt env t cols ?file v = (v', a)" for v v' a
      proof -
        from begun have i: "append_good env t ?file content v" "kept lib env v" "w_clock w < w_clock v" by blast+
        have k: "keeps lib env ?dir v v'" by (rule keeps_append_attempt [OF i st])
        moreover have "append_good env t ?file content v'" if "a = Again"
          using append_attempt_ends [OF i(1) st] that by blast
        ultimately show ?thesis using begun by (auto simp: keeps_def)
      qed
      show "?begun w1" using good1 keeps_kept [OF k1] upload_clock [OF u] by simp
    qed (auto intro: keeps_refl keeps_trans)
    moreover have "w' = w2"
      using run u c w2 by (auto simp: write_tables_mode_def exhausted_def split: option.splits prod.splits)
    ultimately show ?thesis using keeps_trans [OF k1] by blast
  qed
qed

subsection \<open>Deleting a table\<close>

lemma delete_dir_outcome:
  assumes kept: "kept lib env w" and run: "delete_dir env dir w = (w1, r)"
  shows "\<And>d. d \<noteq> dir \<Longrightarrow> left_alone env d (w_store w) (w_store w1)"
    and "r = Inr () \<Longrightarrow> keeps lib env dir w (forget_table_metadata dir w1) \<and> w_store w1 dir = empty_table"
proof -
  obtain f w0 where t: "next_tick env w = (f, w0)" by (cases "next_tick env w")
  have k0: "keeps lib env dir w w0" using keeps_tick [OF kept t] .
  have cases: "w1 = w0 \<and> r \<noteq> Inr () \<or> w1 = set_table w0 dir empty_table"
    using run t by (auto simp: delete_dir_def Let_def split: fault.splits)
  show others: "left_alone env d (w_store w) (w_store w1)" if "d \<noteq> dir" for d
    using cases that k0 left_alone_trans [OF _ left_alone_table, of env d "w_store w" "w_store w0"]
    by (auto simp: keeps_def set_table_def)
  show "keeps lib env dir w (forget_table_metadata dir w1) \<and> w_store w1 dir = empty_table" if "r = Inr ()"
  proof -
    have w1: "w1 = set_table w0 dir empty_table" using cases that by blast
    have "kept lib env (forget_table_metadata dir w1)"
      using keeps_kept [OF k0]
      by (auto simp: w1 kept_def good_def fresh_def cache_ok_def set_table_def forget_table_metadata_def empty_table_def
          log_ok_def log_paths_def)
    then show ?thesis
      using others k0 by (auto simp: keeps_def w1 set_table_def forget_table_metadata_def)
  qed
qed

end
