(* ===== verification/Strategy_Onelake.thy ===== *)
theory Strategy_Onelake
  imports Strategy_Contract Onelake_Kept
begin

text \<open>
  The strategies on the OneLake destination: its operations as the destination that a strategy drives,
  the contract of a staged load that they keep among other writers, and what a whole run of a strategy
  does to the target table.
\<close>

subsection \<open>The destination\<close>

text \<open>The state is storage and what \<open>PrepareTable\<close> left in the destination; its writes go to the table
  that was prepared last.\<close>

type_synonym 'f onelake_state = "'f lake \<times> target_state"

definition failure :: "(io_error, unit) result \<Rightarrow> io_error option" where
  "failure r = (case r of Inl e \<Rightarrow> Some e | Inr _ \<Rightarrow> None)"

definition onelake_prepare ::
  "(string \<Rightarrow> bool) \<Rightarrow> one_lake \<Rightarrow> 'f environment \<Rightarrow> prepare_options \<Rightarrow> ('f onelake_state, io_error) operation" where
  "onelake_prepare valid_uuid d env opts p =
     (case p of
        (w, t) \<Rightarrow>
          (let t1 = t\<lparr>tg_columns := map_option ts_columns (po_schema opts),
                      tg_fields := (case po_schema opts of None \<Rightarrow> tg_fields t | Some ts \<Rightarrow> Some (to_arrow_schema (ts_columns ts))),
                      tg_drop_first := po_drop_first opts\<rparr>
           in case parse_target (po_table opts) of
                Inl e \<Rightarrow> ((w, t1), Some (BadTable e))
              | Inr (mode, rel) \<Rightarrow>
                  (let dir = (if mode = ModeTables then table_dir valid_uuid d rel else files_dir valid_uuid d rel);
                       t2 = t1\<lparr>tg_mode := mode, tg_rel := rel, tg_dir := dir\<rparr>
                   in if \<not> po_drop_first opts then ((w, t2), None)
                      else (case delete_dir env dir w of
                              (w1, Inl e) \<Rightarrow> ((w1, t2), Some e)
                            | (w1, Inr _) \<Rightarrow> ((forget_table_metadata dir w1, t2), None)))))"

text \<open>\<open>WriteParallel\<close> keeps the schema of the first batch with rows when it has none.\<close>

fun first_fields :: "batches \<Rightarrow> field list option" where
  "first_fields (Inr (Some b) # rs) = (if rb_rows b = [] then first_fields rs else Some (rb_fields b))"
| "first_fields (Inr None # rs) = first_fields rs"
| "first_fields rs = None"

definition onelake_write ::
  "'f io_lib \<Rightarrow> one_lake \<Rightarrow> 'f environment \<Rightarrow> batches \<Rightarrow> ('f onelake_state, io_error) operation" where
  "onelake_write lib d env rs p =
     (case p of
        (w, t) \<Rightarrow>
          (let t1 = t\<lparr>tg_fields := (case tg_fields t of Some fs \<Rightarrow> Some fs | None \<Rightarrow> first_fields rs)\<rparr>
           in case write_parallel lib d env t rs w of (w1, r) \<Rightarrow> ((w1, t1), failure r)))"

definition on_lake :: "('f lake \<Rightarrow> 'f lake \<times> (io_error, unit) result) \<Rightarrow> ('f onelake_state, io_error) operation" where
  "on_lake f p = (case p of (w, t) \<Rightarrow> (case f w of (w1, r) \<Rightarrow> ((w1, t), failure r)))"

text \<open>\<open>OneLakeDestination\<close>: of the optional interfaces it has only that of schema evolution, and it
  cannot swap tables.\<close>

definition onelake_destination ::
  "(string \<Rightarrow> bool) \<Rightarrow> one_lake \<Rightarrow> arrow_lib \<Rightarrow> 'f io_lib \<Rightarrow> 'f environment \<Rightarrow> ('f onelake_state, io_error) destination" where
  "onelake_destination valid_uuid d al lib env =
     (let dir = (\<lambda>op table. table_dir_for_tables valid_uuid d table op)
      in \<lparr>ds_scheme = ''onelake'', ds_reverse_etl = False, ds_supports_merge = True, ds_supports_delete_insert = True,
          ds_supports_atomic_swap = False, ds_policy = None, ds_replace_policy = None, ds_unchanged_cols = False,
          ds_defer_primary_key = None, ds_direct_deduplication = False, ds_atomic_commit_writes = False,
          ds_prepare = onelake_prepare valid_uuid d env,
          ds_write = (\<lambda>opts rs. onelake_write lib d env rs),
          ds_merge = (\<lambda>m. on_lake (rewrite_table_with_retry al lib env (dir ''merge'')
             (Merge (mo_primary_keys m)) (mo_target_table m) (mo_staging_table m))),
          ds_delete_insert = (\<lambda>m. on_lake (rewrite_table_with_retry al lib env (dir ''delete+insert'')
             (DeleteInsert (dr_interval m)) (dr_target_table m) (dr_staging_table m))),
          ds_scd2 = (\<lambda>m. on_lake (rewrite_table_with_retry al lib env (dir ''scd2'')
             (Scd2 (sr_options m)) (sr_target_table m) (sr_staging_table m))),
          ds_swap = (\<lambda>m p. (p, None)),
          ds_drop = (\<lambda>table. on_lake (drop_table valid_uuid d env table)),
          ds_evolve = Some (\<lambda>table cmp. on_lake (apply_schema_evolution lib env (dir ''schema evolution'') table cmp)),
          ds_truncate = None, ds_truncate_cdc = None, ds_wait_rows = None\<rparr>)"

subsection \<open>What a staging table holds\<close>

text \<open>The rows written to a fresh staging table, as reading it gives them back.\<close>

definition staged_rows :: "'f io_lib \<Rightarrow> table_schema \<Rightarrow> batches \<Rightarrow> (io_error, record_batch list) result" where
  "staged_rows lib ts rs =
     (case gather_records rs of
        Inl e \<Rightarrow> Inl e
      | Inr [] \<Rightarrow> Inr []
      | Inr (b # bs) \<Rightarrow>
          (case io_write lib (to_arrow_schema (ts_columns ts)) (b # bs) of
             None \<Rightarrow> Inl WriterFailed
           | Some content \<Rightarrow>
               (case io_read lib content of
                  None \<Rightarrow> Inl WriterFailed
                | Some stored \<Rightarrow> align_delta_batches lib stored (delta_schema_of (ts_columns ts)))))"

definition holds :: "'f io_lib \<Rightarrow> table_schema \<Rightarrow> batches \<Rightarrow> 'f table_store \<Rightarrow> bool" where
  "holds lib ts rs tab \<longleftrightarrow>
     (case gather_records rs of
        Inl e \<Rightarrow> False
      | Inr [] \<Rightarrow> ts_log tab = []
      | Inr (b # bs) \<Rightarrow>
          (\<exists>content file snap. io_write lib (to_arrow_schema (ts_columns ts)) (b # bs) = Some content \<and>
             ts_files tab file = Some content \<and> table_snapshot tab = Inr (Some snap) \<and> sn_active_files snap = [file] \<and>
             map_option dm_fields (sn_metadata snap) = Some (delta_schema_of (ts_columns ts))))"

lemma holds_later:
  assumes "holds lib ts rs tab" "ts_log tab' = ts_log tab" "ts_files tab \<subseteq>\<^sub>m ts_files tab'"
  shows "holds lib ts rs tab'"
proof -
  have "ts_files tab' p = Some c" if "ts_files tab p = Some c" for p c
    using assms(3) that by (metis domI map_le_def)
  then show ?thesis
    using assms(1,2) by (auto simp: holds_def table_snapshot_def split: sum.splits list.splits)
qed

lemma holds_content:
  assumes "holds lib ts rs tab" "table_content lib tab = Inr (snap, bs)"
  shows "staged_rows lib ts rs = Inr bs"
  using assms
  by (auto simp: holds_def staged_rows_def table_content_def read_delta_data_def table_snapshot_def read_delta_snapshot_def
      split: sum.splits list.splits option.splits)

subsection \<open>The contract\<close>

text \<open>The directories of the two tables; the staging table, whose name holds the token of the run, is
  written by nobody else.\<close>

definition load_dirs :: "(string \<Rightarrow> bool) \<Rightarrow> one_lake \<Rightarrow> string \<Rightarrow> string \<Rightarrow> string \<Rightarrow> string \<Rightarrow> bool" where
  "load_dirs valid_uuid d target staging dir sdir \<longleftrightarrow>
     (\<exists>rel. parse_target target = Inr (ModeTables, rel) \<and> dir = table_dir valid_uuid d rel) \<and>
     (\<exists>rel. parse_target staging = Inr (ModeTables, rel) \<and> sdir = table_dir valid_uuid d rel) \<and> dir \<noteq> sdir"

definition private_dir :: "'f environment \<Rightarrow> string \<Rightarrow> bool" where
  "private_dir env sdir \<longleftrightarrow> (\<forall>n s. ts_log (ev_others env n s sdir) = ts_log (s sdir))"

definition onelake_ready ::
  "(string \<Rightarrow> bool) \<Rightarrow> one_lake \<Rightarrow> 'f io_lib \<Rightarrow> 'f environment \<Rightarrow> string \<Rightarrow> string \<Rightarrow> string \<Rightarrow> string \<Rightarrow> 'f onelake_state \<Rightarrow> bool" where
  "onelake_ready valid_uuid d lib env target staging dir sdir p \<longleftrightarrow>
     kept lib env (fst p) \<and> load_dirs valid_uuid d target staging dir sdir \<and> private_dir env sdir"

definition onelake_staged :: "'f io_lib \<Rightarrow> string \<Rightarrow> table_schema \<Rightarrow> batches option \<Rightarrow> 'f onelake_state \<Rightarrow> bool" where
  "onelake_staged lib sdir ts content p \<longleftrightarrow>
     (case p of
        (w, t) \<Rightarrow> tg_mode t = ModeTables \<and> tg_dir t = sdir \<and> tg_columns t = Some (ts_columns ts) \<and>
          tg_fields t = Some (to_arrow_schema (ts_columns ts)) \<and> tg_drop_first t \<and>
          (case content of None \<Rightarrow> ts_log (w_store w sdir) = [] | Some rs \<Rightarrow> holds lib ts rs (w_store w sdir)))"

definition onelake_alone :: "'f environment \<Rightarrow> string \<Rightarrow> 'f onelake_state \<Rightarrow> 'f onelake_state \<Rightarrow> bool" where
  "onelake_alone env dir p q \<longleftrightarrow> left_alone env dir (w_store (fst p)) (w_store (fst q))"

lemma staged_later:
  assumes "onelake_staged lib sdir ts content (w, t)" "left_alone env sdir (w_store w) (w_store w')" "fair env"
    "private_dir env sdir"
  shows "onelake_staged lib sdir ts content (w', t)"
proof -
  have "ts_log (w_store w' sdir) = ts_log (w_store w sdir)"
    using left_alone_log [OF assms(2)] assms(4) by (simp add: private_dir_def)
  then show ?thesis
    using assms(1) holds_later left_alone_files [OF assms(2,3)]
    by (fastforce simp: onelake_staged_def split: option.splits)
qed

lemma load_dirs_tables:
  assumes "load_dirs valid_uuid d target staging dir sdir"
  shows "table_dir_for_tables valid_uuid d target op = Inr dir" "table_dir_for_tables valid_uuid d staging op = Inr sdir"
  using assms by (auto simp: load_dirs_def table_dir_for_tables_def)

lemma onelake_prepare_target:
  assumes "onelake_ready valid_uuid d lib env target staging dir sdir p" "po_table opt = target" "\<not> po_drop_first opt"
    "onelake_prepare valid_uuid d env opt p = (q, r)"
  shows "onelake_alone env dir p q \<and> (r = None \<longrightarrow> onelake_ready valid_uuid d lib env target staging dir sdir q)"
  using assms
  by (auto simp: onelake_prepare_def onelake_alone_def onelake_ready_def load_dirs_def Let_def left_alone.untouched
      split: prod.splits)

lemma onelake_prepare_staging:
  assumes ready: "onelake_ready valid_uuid d lib env target staging dir sdir p"
    and opt: "po_table opt = staging" "po_drop_first opt" "po_schema opt = Some ts"
    and run: "onelake_prepare valid_uuid d env opt p = (q, r)"
  shows "onelake_alone env dir p q \<and>
    (r = None \<longrightarrow> onelake_ready valid_uuid d lib env target staging dir sdir q \<and> onelake_staged lib sdir ts None q)"
proof -
  obtain w t where p: "p = (w, t)" by (cases p)
  have kept: "kept lib env w" and dirs: "load_dirs valid_uuid d target staging dir sdir" and own: "private_dir env sdir"
    using ready p by (simp_all add: onelake_ready_def)
  obtain w1 res where w1: "delete_dir env sdir w = (w1, res)" by (cases "delete_dir env sdir w")
  note del = delete_dir_outcome [OF kept w1]
  have ne: "dir \<noteq> sdir" using dirs by (simp add: load_dirs_def)
  let ?q = "forget_table_metadata sdir w1"
  obtain rel where rel: "parse_target staging = Inr (ModeTables, rel)" "sdir = table_dir valid_uuid d rel"
    using dirs by (auto simp: load_dirs_def)
  show ?thesis
  proof (cases res)
    case (Inl e)
    then have "w_store (fst q) = w_store w1" "r = Some e"
      using run p opt rel w1 by (auto simp: onelake_prepare_def Let_def)
    then show ?thesis using del(1) [OF ne] p by (simp add: onelake_alone_def)
  next
    case (Inr u)
    have q: "fst q = ?q" "r = None" and tq: "tg_mode (snd q) = ModeTables" "tg_dir (snd q) = sdir"
      "tg_columns (snd q) = Some (ts_columns ts)" "tg_fields (snd q) = Some (to_arrow_schema (ts_columns ts))" "tg_drop_first (snd q)"
      using run p opt rel w1 Inr by (auto simp: onelake_prepare_def Let_def)
    have d: "keeps lib env sdir w ?q" "w_store w1 sdir = empty_table" using del(2) Inr by simp_all
    have "onelake_ready valid_uuid d lib env target staging dir sdir q"
      using keeps_kept [OF d(1)] dirs own q by (simp add: onelake_ready_def)
    moreover have "onelake_staged lib sdir ts None q"
      using tq d(2) q(1) by (cases q) (simp add: onelake_staged_def forget_table_metadata_def empty_table_def)
    moreover have "onelake_alone env dir p q"
      using del(1) [OF ne] p q(1) by (simp add: onelake_alone_def forget_table_metadata_def)
    ultimately show ?thesis by blast
  qed
qed

lemma onelake_write_staging:
  assumes ready: "onelake_ready valid_uuid d lib env target staging dir sdir p"
    and staged: "onelake_staged lib sdir ts None p"
    and run: "onelake_write lib d env rs p = (q, r)"
  shows "onelake_alone env dir p q \<and>
    (r = None \<longrightarrow> onelake_ready valid_uuid d lib env target staging dir sdir q \<and> onelake_staged lib sdir ts (Some rs) q)"
proof -
  obtain w t where p: "p = (w, t)" by (cases p)
  have kept: "kept lib env w" and dirs: "load_dirs valid_uuid d target staging dir sdir" and own: "private_dir env sdir"
    using ready p by (simp_all add: onelake_ready_def)
  have good: "good env w" using kept by (simp add: kept_def)
  have ne: "dir \<noteq> sdir" using dirs by (simp add: load_dirs_def)
  have t: "tg_mode t = ModeTables" "tg_dir t = sdir" "tg_fields t = Some (to_arrow_schema (ts_columns ts))" "tg_drop_first t"
    "ts_log (w_store w sdir) = []" "tg_columns t = Some (ts_columns ts)"
    using staged p by (simp_all add: onelake_staged_def)
  have same: "t\<lparr>tg_fields := Some (to_arrow_schema (ts_columns ts))\<rparr> = t" using t(3) by (cases t) simp
  obtain w1 res where w1: "write_parallel lib d env t rs w = (w1, res)" by (cases "write_parallel lib d env t rs w")
  have q: "q = (w1, t)" "r = failure res" using run p w1 t(3) same by (auto simp: onelake_write_def Let_def)
  show ?thesis
  proof (cases "\<exists>b bs content. gather_records rs = Inr (b # bs) \<and> io_write lib (to_arrow_schema (ts_columns ts)) (b # bs) = Some content")
    case False
    then have out: "w1 = w" "res = Inr () \<longrightarrow> gather_records rs = Inr []"
      using w1 t(3) by (auto simp: write_parallel_def Let_def split: sum.splits list.splits option.splits)
    have "onelake_staged lib sdir ts (Some rs) q" if "r = None"
    proof -
      have "gather_records rs = Inr []" using that out(2) q(2) by (cases res) (auto simp: failure_def)
      then show ?thesis using t q(1) out(1) by (simp add: onelake_staged_def holds_def)
    qed
    then show ?thesis using ready p q(1) out(1) by (simp add: onelake_alone_def left_alone.untouched onelake_ready_def)
  next
    case True
    then obtain b bs content where c: "gather_records rs = Inr (b # bs)"
      "io_write lib (to_arrow_schema (ts_columns ts)) (b # bs) = Some content" by blast
    have wt: "write_tables_mode env t content w = (w1, res)"
      using w1 c t(1,3) same by (simp add: write_parallel_def Let_def)
    have "keeps lib env (tg_dir t) w w1" using t(2,5) by (intro keeps_write_tables [OF kept _ wt]) simp
    then have k: "keeps lib env sdir w w1" using t(2) by simp
    obtain cols where cols: "target_columns t = Inr cols" "cols = ts_columns ts"
      using t(3,6) by (auto simp: target_columns_def to_arrow_schema_def split: list.splits)
    have log: "\<forall>v\<in>fst ` set (ts_log (w_store w (tg_dir t))). 0 \<le> v" "tg_drop_first t \<longrightarrow> ts_log (w_store w (tg_dir t)) = []"
      using t(2,5) by simp_all
    obtain s where s: "by_others env (w_store w) s"
      "w_store w1 = s \<and> res \<noteq> Inr () \<or> appended sdir (data_file (ev_uuid env (w_clock w))) cols content s (w_store w1)"
      using append_serial [OF good cols(1) log wt] t(2) by auto
    have "ts_log (s sdir) = []"
      using left_alone_log [OF left_alone_by_others [OF s(1), of sdir]] own t(5) by (simp add: private_dir_def)
    then have none: "table_snapshot (s sdir) = Inr None" by (simp add: table_snapshot_log log_ok_def)
    have "onelake_staged lib sdir ts (Some rs) q" if "r = None"
    proof -
      have "res = Inr ()" using that q(2) by (cases res) (auto simp: failure_def)
      then have "appended sdir (data_file (ev_uuid env (w_clock w))) cols content s (w_store w1)" using s(2) by blast
      then have "holds lib ts rs (w_store w1 sdir)" using c none cols(2) by (auto simp: appended_def holds_def)
      then show ?thesis using t q(1) by (simp add: onelake_staged_def)
    qed
    then show ?thesis
      using keeps_kept [OF k] k ne dirs own p q(1) by (auto simp: onelake_alone_def onelake_ready_def keeps_def)
  qed
qed

lemma onelake_kept_run:
  assumes ready: "onelake_ready valid_uuid d lib env target staging dir sdir p"
    and keeps: "\<And>w w' r. kept lib env w \<Longrightarrow> f w = (w', r) \<Longrightarrow> keeps lib env dir w w'"
    and run: "on_lake f p = (q, e)"
  shows "onelake_ready valid_uuid d lib env target staging dir sdir q"
    and "onelake_staged lib sdir ts content p \<Longrightarrow> onelake_staged lib sdir ts content q"
proof -
  obtain w t where p: "p = (w, t)" by (cases p)
  obtain w1 r where w1: "f w = (w1, r)" by (cases "f w")
  have q: "q = (w1, t)" using run p w1 by (simp add: on_lake_def)
  have kept: "kept lib env w" and dirs: "load_dirs valid_uuid d target staging dir sdir" and own: "private_dir env sdir"
    using ready p by (simp_all add: onelake_ready_def)
  have k: "keeps lib env dir w w1" using keeps [OF kept w1] .
  have "sdir \<noteq> dir" using dirs by (auto simp: load_dirs_def)
  then have left: "left_alone env sdir (w_store w) (w_store w1)" using k by (simp add: keeps_def)
  show "onelake_staged lib sdir ts content q" if "onelake_staged lib sdir ts content p"
    using staged_later [OF that [unfolded p] left kept_fair [OF kept] own] q by simp
  show "onelake_ready valid_uuid d lib env target staging dir sdir q"
    using keeps_kept [OF k] dirs own q by (simp add: onelake_ready_def)
qed

lemma onelake_drop:
  assumes ready: "onelake_ready valid_uuid d lib env target staging dir sdir p"
    and run: "on_lake (drop_table valid_uuid d env staging) p = (q, e)"
  shows "onelake_alone env dir p q"
proof -
  obtain w t where p: "p = (w, t)" by (cases p)
  have kept: "kept lib env w" and dirs: "load_dirs valid_uuid d target staging dir sdir"
    using ready p by (simp_all add: onelake_ready_def)
  obtain w1 res where w1: "delete_dir env sdir w = (w1, res)" by (cases "delete_dir env sdir w")
  have "w_store (fst q) = w_store w1"
    using run p w1 dirs
    by (auto simp: on_lake_def drop_table_def load_dirs_def forget_table_metadata_def split: prod.splits sum.splits)
  moreover have "dir \<noteq> sdir" using dirs by (simp add: load_dirs_def)
  ultimately show ?thesis using delete_dir_outcome(1) [OF kept w1] p by (simp add: onelake_alone_def)
qed

lemma onelake_simps:
  "ds_reverse_etl (onelake_destination valid_uuid d al lib env) = False"
  "ds_supports_delete_insert (onelake_destination valid_uuid d al lib env) = True"
  "ds_supports_atomic_swap (onelake_destination valid_uuid d al lib env) = False"
  "ds_policy (onelake_destination valid_uuid d al lib env) = None"
  "ds_prepare (onelake_destination valid_uuid d al lib env) = onelake_prepare valid_uuid d env"
  "ds_write (onelake_destination valid_uuid d al lib env) opts rs = onelake_write lib d env rs"
  "ds_merge (onelake_destination valid_uuid d al lib env) m = on_lake (rewrite_table_with_retry al lib env
     (\<lambda>table. table_dir_for_tables valid_uuid d table ''merge'') (Merge (mo_primary_keys m)) (mo_target_table m) (mo_staging_table m))"
  "ds_delete_insert (onelake_destination valid_uuid d al lib env) di = on_lake (rewrite_table_with_retry al lib env
     (\<lambda>table. table_dir_for_tables valid_uuid d table ''delete+insert'') (DeleteInsert (dr_interval di)) (dr_target_table di) (dr_staging_table di))"
  "ds_scd2 (onelake_destination valid_uuid d al lib env) sc = on_lake (rewrite_table_with_retry al lib env
     (\<lambda>table. table_dir_for_tables valid_uuid d table ''scd2'') (Scd2 (sr_options sc)) (sr_target_table sc) (sr_staging_table sc))"
  "ds_drop (onelake_destination valid_uuid d al lib env) table = on_lake (drop_table valid_uuid d env table)"
  "ds_evolve (onelake_destination valid_uuid d al lib env) = Some (\<lambda>table cmp. on_lake (apply_schema_evolution lib env
     (\<lambda>table. table_dir_for_tables valid_uuid d table ''schema evolution'') table cmp))"
  by (simp_all add: onelake_destination_def Let_def)

interpretation onelake: staged_loads "onelake_destination valid_uuid d al lib env" target staging
    "onelake_ready valid_uuid d lib env target staging dir sdir" "onelake_staged lib sdir" "onelake_alone env dir"
  for valid_uuid d al lib env target staging dir sdir
proof
  let ?d = "onelake_destination valid_uuid d al lib env"
  let ?ready = "onelake_ready valid_uuid d lib env target staging dir sdir"
  let ?staged = "onelake_staged lib sdir" and ?alone = "onelake_alone env dir"
  fix p q u :: "'a onelake_state" and r ts content
  show "?alone p p" by (simp add: onelake_alone_def left_alone.untouched)
  show "?alone u q" if "?alone u p" "?alone p q" using that left_alone_trans by (auto simp: onelake_alone_def)
  show "?alone p q \<and> (r = None \<longrightarrow> ?ready q)"
    if "?ready p" "po_table opt = target" "\<not> po_drop_first opt" "ds_prepare ?d opt p = (q, r)" for opt
    using onelake_prepare_target that by (simp add: onelake_simps)
  show "?alone p q \<and> (r = None \<longrightarrow> ?ready q \<and> ?staged ts None q)"
    if "?ready p" "po_table opt = staging" "po_drop_first opt" "po_schema opt = Some ts" "ds_prepare ?d opt p = (q, r)" for opt
    using onelake_prepare_staging that by (simp add: onelake_simps)
  show "?alone p q \<and> (r = None \<longrightarrow> ?ready q \<and> ?staged ts (Some bs) q)"
    if "?ready p" "?staged ts None p" "wo_table wopt = staging" "ds_write ?d wopt bs p = (q, r)" for wopt bs
    using onelake_write_staging that by (simp add: onelake_simps)
  show "?alone p q" if "?ready p" "ds_drop ?d staging p = (q, r)"
    using onelake_drop that by (simp add: onelake_simps)
  have tables: "load_dirs valid_uuid d target staging dir sdir" if "?ready p"
    using that by (simp add: onelake_ready_def)
  have rewritten: "?ready q" if "?ready p"
    "on_lake (rewrite_table_with_retry al lib env (\<lambda>table. table_dir_for_tables valid_uuid d table op) load target staging') p = (q, r)"
    for op load staging'
  proof (rule onelake_kept_run(1) [OF that(1) _ that(2)])
    show "keeps lib env dir w w'" if kept: "kept lib env w" and op: "rewrite_table_with_retry al lib env
        (\<lambda>table. table_dir_for_tables valid_uuid d table op) load target staging' w = (w', r')" for w w' r'
      by (rule keeps_rewrite [OF kept _ op]) (rule load_dirs_tables(1) [OF tables [OF \<open>?ready p\<close>]])
  qed
  show "?ready q" if "?ready p" "mo_target_table m = target" "ds_merge ?d m p = (q, r)" for m
    using rewritten that by (simp add: onelake_simps)
  show "?ready q" if "?ready p" "dr_target_table di = target" "ds_delete_insert ?d di p = (q, r)" for di
    using rewritten that by (simp add: onelake_simps)
  show "?ready q" if "?ready p" "sr_target_table sc = target" "ds_scd2 ?d sc p = (q, r)" for sc
    using rewritten that by (simp add: onelake_simps)
  show "?ready q \<and> ?staged ts content q"
    if "?ready p" "?staged ts content p" "ds_evolve ?d = Some evolve" "evolve target cmp p = (q, r)" for evolve cmp
  proof -
    have run: "on_lake (apply_schema_evolution lib env (\<lambda>table. table_dir_for_tables valid_uuid d table ''schema evolution'')
        target cmp) p = (q, r)"
      using that(3,4) by (auto simp: onelake_simps)
    have keeps: "keeps lib env dir w w'" if kept: "kept lib env w" and op: "apply_schema_evolution lib env
        (\<lambda>table. table_dir_for_tables valid_uuid d table ''schema evolution'') target cmp w = (w', r')" for w w' r'
      by (rule keeps_evolution [OF kept _ op]) (rule load_dirs_tables(1) [OF tables [OF \<open>?ready p\<close>]])
    show ?thesis
    proof (rule conjI)
      show "?ready q" by (rule onelake_kept_run(1) [OF that(1) _ run]) (rule keeps)
      show "?staged ts content q" by (rule onelake_kept_run(2) [OF that(1) _ run that(2)]) (rule keeps)
    qed
  qed
qed

subsection \<open>What a run does to the target\<close>

definition no_evolution_due :: "'w job \<Rightarrow> string \<Rightarrow> 'f store \<Rightarrow> bool" where
  "no_evolution_due j dir s \<longleftrightarrow>
     (\<forall>plan cmp. jb_plan j = Some plan \<and> ep_comparison plan = Some cmp \<and> plan_has_changes (Some plan) \<and> cmp_has_changes cmp \<longrightarrow>
        nothing_to_evolve dir cmp s)"

definition plan_applied :: "'w job \<Rightarrow> string \<Rightarrow> 'f store \<Rightarrow> 'f store \<Rightarrow> bool" where
  "plan_applied j dir s s' \<longleftrightarrow>
     (\<exists>plan cmp expected. jb_plan j = Some plan \<and> ep_comparison plan = Some cmp \<and> evolved dir cmp expected s s')"

text \<open>The history of a target: others write, the plan evolves it, others write, the staged rows are
  loaded, others write. Evolution and load may be missing, but not from a run that reports success,
  unless there was nothing to do.\<close>

definition load_history ::
  "'f environment \<Rightarrow> arrow_lib \<Rightarrow> 'f io_lib \<Rightarrow> 'w job \<Rightarrow> load \<Rightarrow> (io_error, record_batch list) result \<Rightarrow> string
   \<Rightarrow> 'f store \<Rightarrow> 'f store \<Rightarrow> bool \<Rightarrow> bool" where
  "load_history env al lib j load rows dir s s' success \<longleftrightarrow>
     (\<exists>s1 s2 s3 s4. left_alone env dir s s1 \<and>
        (s2 = s1 \<and> (success \<longrightarrow> no_evolution_due j dir s1) \<or> plan_applied j dir s1 s2) \<and>
        left_alone env dir s2 s3 \<and>
        (s4 = s3 \<and> (success \<longrightarrow> (\<exists>sb. rows = Inr sb \<and> nothing_to_do al lib load dir sb s3)) \<or>
         (\<exists>sb. rows = Inr sb \<and> rewrote al lib load dir sb s3 s4)) \<and>
        left_alone env dir s4 s')"

lemma onelake_evolution:
  assumes ready: "onelake_ready valid_uuid d lib env target staging dir sdir p"
    and plan: "\<And>x. jb_plan j = Some x \<Longrightarrow> ep_table x = target"
    and run: "apply_evolution (onelake_destination valid_uuid d al lib env) j p = (q, e)"
  shows "\<exists>s. left_alone env dir (w_store (fst p)) s \<and>
    (w_store (fst q) = s \<and> (e = None \<longrightarrow> no_evolution_due j dir s) \<or> plan_applied j dir s (w_store (fst q)))"
proof (cases "\<exists>x cmp. jb_plan j = Some x \<and> plan_has_changes (Some x) \<and> ep_comparison x = Some cmp \<and> cmp_has_changes cmp")
  case False
  then have "no_evolution_due j dir (w_store (fst p))" by (auto simp: no_evolution_due_def)
  moreover have "w_store (fst q) = w_store (fst p)"
  proof (cases "\<exists>x cmp. jb_plan j = Some x \<and> plan_has_changes (Some x) \<and> ep_comparison x = Some cmp")
    case True
    then obtain x cmp where x: "jb_plan j = Some x" "plan_has_changes (Some x)" "ep_comparison x = Some cmp" by blast
    then have "\<not> cmp_has_changes cmp" using False by blast
    then show ?thesis
      using run x by (auto simp: apply_evolution_def onelake_simps on_lake_def apply_schema_evolution_def step_of_def split: prod.splits)
  next
    case False
    then have "\<not> plan_has_changes (jb_plan j)" by (auto simp: plan_has_changes_def split: option.splits)
    then show ?thesis using run by (auto simp: apply_evolution_def split: option.splits)
  qed
  ultimately show ?thesis using left_alone.untouched by metis
next
  case True
  then obtain x cmp where x: "jb_plan j = Some x" "plan_has_changes (Some x)" "ep_comparison x = Some cmp" "cmp_has_changes cmp"
    by blast
  obtain w t where p: "p = (w, t)" by (cases p)
  have kept: "kept lib env w" and dirs: "load_dirs valid_uuid d target staging dir sdir"
    using ready p by (simp_all add: onelake_ready_def)
  let ?dirs = "\<lambda>table. table_dir_for_tables valid_uuid d table ''schema evolution''"
  obtain w1 r where r: "apply_schema_evolution lib env ?dirs target (Some cmp) w = (w1, r)"
    by (cases "apply_schema_evolution lib env ?dirs target (Some cmp) w")
  have q: "q = (w1, t)" "e = map_option (StepFailed ''failed to apply schema evolution'') (failure r)"
    using run x p r plan [OF x(1)] by (simp_all add: apply_evolution_def onelake_simps on_lake_def step_of_def)
  have g: "good env w" "cache_ok lib w" using kept by (simp_all add: kept_def)
  have dir: "?dirs target = Inr dir" by (rule load_dirs_tables(1) [OF dirs])
  obtain s where s: "by_others env (w_store w) s"
    "w_store w1 = s \<and> (r = Inr () \<longrightarrow> nothing_to_evolve dir cmp s) \<or>
     evolved dir cmp (map_option mc_metadata (w_cache w dir)) s (w_store w1)"
    using evolution_serial [where dir_of = ?dirs, OF g dir r x(4)] by blast
  have "w_store w1 = s \<and> (e = None \<longrightarrow> no_evolution_due j dir s) \<or> plan_applied j dir s (w_store w1)"
    using s(2)
  proof
    assume a: "w_store w1 = s \<and> (r = Inr () \<longrightarrow> nothing_to_evolve dir cmp s)"
    have "no_evolution_due j dir s" if "e = None"
    proof -
      have "r = Inr ()" using that q(2) by (cases r) (auto simp: failure_def)
      then show ?thesis using a x by (auto simp: no_evolution_due_def)
    qed
    then show ?thesis using a by blast
  next
    assume "evolved dir cmp (map_option mc_metadata (w_cache w dir)) s (w_store w1)"
    then show ?thesis using x(1,3) unfolding plan_applied_def by blast
  qed
  then show ?thesis using left_alone_by_others [OF s(1)] p q(1) by auto
qed

lemma onelake_load:
  assumes ready: "onelake_ready valid_uuid d lib env target staging dir sdir p"
    and staged: "onelake_staged lib sdir ts (Some rs) p" and lib: "parquet_ok lib"
    and run: "on_lake (rewrite_table_with_retry al lib env (\<lambda>table. table_dir_for_tables valid_uuid d table op) load target staging) p = (q, e)"
  shows "\<exists>s. left_alone env dir (w_store (fst p)) s \<and>
    (w_store (fst q) = s \<and> (e = None \<longrightarrow> (\<exists>sb. staged_rows lib ts rs = Inr sb \<and> nothing_to_do al lib load dir sb s)) \<or>
     (\<exists>sb. staged_rows lib ts rs = Inr sb \<and> rewrote al lib load dir sb s (w_store (fst q))))"
proof -
  obtain w t where p: "p = (w, t)" by (cases p)
  have kept: "kept lib env w" and dirs: "load_dirs valid_uuid d target staging dir sdir" and own: "private_dir env sdir"
    using ready p by (simp_all add: onelake_ready_def)
  let ?dirs = "\<lambda>table. table_dir_for_tables valid_uuid d table op"
  obtain w1 r where r: "rewrite_table_with_retry al lib env ?dirs load target staging w = (w1, r)"
    by (cases "rewrite_table_with_retry al lib env ?dirs load target staging w")
  have q: "q = (w1, t)" "e = failure r" using run p r by (simp_all add: on_lake_def)
  have good: "good env w" using kept by (simp add: kept_def)
  obtain s0 s where s: "by_others env (w_store w) s0" "by_others env s0 s"
    "w_store w1 = s \<and> (r = Inr () \<longrightarrow> (\<exists>snap sb. table_content lib (s0 sdir) = Inr (snap, sb) \<and> nothing_to_do al lib load dir sb s)) \<or>
     (\<exists>snap sb. table_content lib (s0 sdir) = Inr (snap, sb) \<and> rewrote al lib load dir sb s (w_store w1))"
    using rewrite_serial [where dir_of = ?dirs, OF good lib load_dirs_tables(2,1) [OF dirs] r] by blast
  have "holds lib ts rs (w_store w sdir)" using staged p by (simp add: onelake_staged_def)
  moreover have "left_alone env sdir (w_store w) s0" by (rule left_alone_by_others [OF s(1)])
  ultimately have "holds lib ts rs (s0 sdir)"
    using holds_later left_alone_log left_alone_files [OF _ kept_fair [OF kept]] own unfolding private_dir_def by metis
  then have content: "staged_rows lib ts rs = Inr sb" if "table_content lib (s0 sdir) = Inr (snap, sb)" for snap sb
    using holds_content that by blast
  have "r = Inr ()" if "e = None" using that q(2) by (cases r) (auto simp: failure_def)
  then have "w_store w1 = s \<and> (e = None \<longrightarrow> (\<exists>sb. staged_rows lib ts rs = Inr sb \<and> nothing_to_do al lib load dir sb s)) \<or>
     (\<exists>sb. staged_rows lib ts rs = Inr sb \<and> rewrote al lib load dir sb s (w_store w1))"
    using s(3) content by blast
  moreover have "left_alone env dir (w_store w) s" by (rule left_alone_by_others [OF by_others_trans [OF s(1,2)]])
  ultimately show ?thesis using p q(1) by auto
qed

lemma one_load_history:
  assumes lib: "parquet_ok lib" and plan: "\<And>x. jb_plan j = Some x \<Longrightarrow> ep_table x = target"
    and load: "one_load (onelake_alone env dir)
      (\<lambda>p. onelake_ready valid_uuid d lib env target staging dir sdir p \<and> onelake_staged lib sdir ts (Some rs) p)
      (apply_evolution (onelake_destination valid_uuid d al lib env) j)
      (on_lake (rewrite_table_with_retry al lib env (\<lambda>table. table_dir_for_tables valid_uuid d table op) load target staging)) p q r"
  shows "load_history env al lib j load (staged_rows lib ts rs) dir (w_store (fst p)) (w_store (fst q)) (r = None)"
  using load unfolding one_load_def
proof (elim disjE exE conjE)
  assume "onelake_alone env dir p q" "r \<noteq> None"
  then show ?thesis
    unfolding load_history_def onelake_alone_def using left_alone.untouched by blast
next
  fix p1 p2 e
  assume a: "onelake_alone env dir p p1" "onelake_ready valid_uuid d lib env target staging dir sdir p1"
    "apply_evolution (onelake_destination valid_uuid d al lib env) j p1 = (p2, e)"
  assume "r \<noteq> None" "q = p2"
  moreover obtain s where s: "left_alone env dir (w_store (fst p1)) s"
    "w_store (fst p2) = s \<and> (e = None \<longrightarrow> no_evolution_due j dir s) \<or> plan_applied j dir s (w_store (fst p2))"
    using onelake_evolution [OF a(2) plan a(3)] by blast
  moreover have "left_alone env dir (w_store (fst p)) s"
    using a(1) left_alone_trans s(1) unfolding onelake_alone_def by blast
  ultimately show ?thesis unfolding load_history_def using left_alone.untouched by blast
next
  fix p1 p2 e p3 e'
  assume a: "onelake_alone env dir p p1" "onelake_ready valid_uuid d lib env target staging dir sdir p1"
    "apply_evolution (onelake_destination valid_uuid d al lib env) j p1 = (p2, e)" "e = None"
    and b: "onelake_ready valid_uuid d lib env target staging dir sdir p2" "onelake_staged lib sdir ts (Some rs) p2"
    "on_lake (rewrite_table_with_retry al lib env (\<lambda>table. table_dir_for_tables valid_uuid d table op) load target staging) p2 = (p3, e')"
    "e' \<noteq> None \<longrightarrow> r \<noteq> None" "onelake_alone env dir p3 q"
  obtain s where s: "left_alone env dir (w_store (fst p1)) s"
    "w_store (fst p2) = s \<and> (e = None \<longrightarrow> no_evolution_due j dir s) \<or> plan_applied j dir s (w_store (fst p2))"
    using onelake_evolution [OF a(2) plan a(3)] by blast
  obtain u where u: "left_alone env dir (w_store (fst p2)) u"
    "w_store (fst p3) = u \<and> (e' = None \<longrightarrow> (\<exists>sb. staged_rows lib ts rs = Inr sb \<and> nothing_to_do al lib load dir sb u)) \<or>
     (\<exists>sb. staged_rows lib ts rs = Inr sb \<and> rewrote al lib load dir sb u (w_store (fst p3)))"
    using onelake_load [OF b(1,2) lib b(3)] by blast
  have "left_alone env dir (w_store (fst p)) s"
    using a(1) left_alone_trans s(1) unfolding onelake_alone_def by blast
  moreover have "w_store (fst p2) = s \<and> (r = None \<longrightarrow> no_evolution_due j dir s) \<or> plan_applied j dir s (w_store (fst p2))"
    using s(2) a(4) by blast
  moreover have "w_store (fst p3) = u \<and> (r = None \<longrightarrow> (\<exists>sb. staged_rows lib ts rs = Inr sb \<and> nothing_to_do al lib load dir sb u)) \<or>
     (\<exists>sb. staged_rows lib ts rs = Inr sb \<and> rewrote al lib load dir sb u (w_store (fst p3)))"
    using u(2) b(4) by blast
  moreover have "left_alone env dir (w_store (fst p3)) (w_store (fst q))" using b(5) by (simp add: onelake_alone_def)
  ultimately show ?thesis
    unfolding load_history_def using u(1)
    by (intro exI [of _ s] exI [of _ "w_store (fst p2)"] exI [of _ u] exI [of _ "w_store (fst p3)"] conjI)
qed

subsection \<open>Rows that are staged unchanged\<close>

text \<open>A column is stable when its Delta type reads back as the Arrow type it came from.\<close>

definition stable_column :: "column \<Rightarrow> bool" where
  "stable_column c \<longleftrightarrow>
     (case column_from_delta_field
         \<lparr>df_name = c_name c, df_type = delta_type_for c, df_nullable = c_nullable c, df_metadata = []\<rparr> of
        Inl _ \<Rightarrow> True | Inr c' \<Rightarrow> data_type_to_arrow c' = data_type_to_arrow c)"

definition exact_batches :: "table_schema \<Rightarrow> record_batch list \<Rightarrow> bool" where
  "exact_batches ts bs \<longleftrightarrow>
     (\<forall>b\<in>set bs. rb_fields b = to_arrow_schema (ts_columns ts) \<and> (\<forall>r\<in>set (rb_rows b). length r = length (ts_columns ts))) \<and>
     distinct (map (\<lambda>c. to_lower (c_name c)) (ts_columns ts)) \<and> (\<forall>c\<in>set (ts_columns ts). stable_column c)"

lemma find_only:
  "x \<in> set xs \<Longrightarrow> P x \<Longrightarrow> \<forall>y\<in>set xs. P y \<longrightarrow> y = x \<Longrightarrow> find P xs = Some x"
proof (induction xs)
  case (Cons y ys)
  show ?case
  proof (cases "P y")
    case True
    then have "y = x" using Cons.prems(3) by fastforce
    then show ?thesis using True by simp
  next
    case False
    then have "x \<in> set ys" using Cons.prems(1,2) by auto
    moreover have "\<forall>z\<in>set ys. P z \<longrightarrow> z = x"
      by (rule ballI, rule Cons.prems(3) [THEN bspec]) simp
    ultimately have "find P ys = Some x" by (rule Cons.IH [OF _ Cons.prems(2)])
    then show ?thesis using False by simp
  qed
qed simp

lemma cast_columns_all:
  "list_all2 (\<lambda>f c. cast_column lib b f = Inr c) fs cs \<Longrightarrow> cast_columns lib b fs = Inr cs"
  by (induction rule: list_all2_induct) auto

lemma rows_of_columns:
  assumes "\<forall>r\<in>set rows. length r = n"
  shows "map (\<lambda>i. map (\<lambda>c. c ! i) (map (\<lambda>k. map (\<lambda>r. r ! k) rows) [0..<n])) [0..<length rows] = rows"
proof (rule nth_equalityI)
  fix i assume "i < length (map (\<lambda>i. map (\<lambda>c. c ! i) (map (\<lambda>k. map (\<lambda>r. r ! k) rows) [0..<n])) [0..<length rows])"
  then have i: "i < length rows" by simp
  then have "length (rows ! i) = n" using assms by simp
  then have "map (\<lambda>k. rows ! i ! k) [0..<n] = rows ! i" using map_nth [of "rows ! i"] by simp
  then show "map (\<lambda>i. map (\<lambda>c. c ! i) (map (\<lambda>k. map (\<lambda>r. r ! k) rows) [0..<n])) [0..<length rows] ! i = rows ! i"
    using i by (simp add: comp_def)
qed simp

lemma cast_same_shape:
  assumes fields: "map fl_name fs' = map fl_name (rb_fields b)" "map fl_type fs' = map fl_type (rb_fields b)"
    and names: "distinct (map (\<lambda>f. to_lower (fl_name f)) (rb_fields b))"
    and width: "\<forall>r\<in>set (rb_rows b). length r = length (rb_fields b)"
  shows "cast_record lib fs' b = Inr \<lparr>rb_fields = fs', rb_rows = rb_rows b\<rparr>"
proof -
  let ?n = "length (rb_fields b)" and ?col = "\<lambda>k. map (\<lambda>r. r ! k) (rb_rows b)"
  have len: "length fs' = ?n" using arg_cong [OF fields(1), of length] by simp
  have "cast_column lib b (fs' ! k) = Inr (?col k)" if k: "k < ?n" for k
  proof -
    have f: "fl_name (fs' ! k) = fl_name (rb_fields b ! k)" "fl_type (fs' ! k) = fl_type (rb_fields b ! k)"
      using arg_cong [OF fields(1), of "\<lambda>xs. xs ! k"] arg_cong [OF fields(2), of "\<lambda>xs. xs ! k"] k len by simp_all
    have "find (\<lambda>i. to_lower (fl_name (rb_fields b ! i)) = to_lower (fl_name (fs' ! k))) (rev [0..<?n]) = Some k"
      using names k f(1) by (intro find_only) (auto simp: distinct_conv_nth)
    then show ?thesis using f(2) by (simp add: cast_column_def Let_def)
  qed
  then have "list_all2 (\<lambda>f c. cast_column lib b f = Inr c) fs' (map ?col [0..<?n])"
    using len by (simp add: list_all2_conv_all_nth)
  from cast_columns_all [OF this] show ?thesis
    using rows_of_columns [OF width] by (simp add: cast_record_def)
qed

lemma align_one:
  assumes b: "rb_fields b = to_arrow_schema cols" "\<forall>r\<in>set (rb_rows b). length r = length cols"
    and cols: "distinct (map (\<lambda>c. to_lower (c_name c)) cols)" "\<forall>c\<in>set cols. stable_column c"
  shows "\<exists>fs. align_delta_batches lib [b] (delta_schema_of cols) = Inr [\<lparr>rb_fields = fs, rb_rows = rb_rows b\<rparr>]"
proof -
  let ?df = "\<lambda>c. \<lparr>df_name = c_name c, df_type = delta_type_for c, df_nullable = c_nullable c, df_metadata = []\<rparr>"
  let ?f = "\<lambda>c. \<lparr>fl_name = c_name c, fl_type = data_type_to_arrow c, fl_nullable = c_nullable c\<rparr>"
  have one: "align_field [b] (?df c) = Some (?f c)" if c: "c \<in> set cols" for c
  proof -
    have "find (\<lambda>f. equal_fold (fl_name f) (c_name c)) (map ?f cols) = Some (?f c)"
      using c cols(1) by (intro find_only) (auto simp: equal_fold_def distinct_map inj_on_def)
    then have "latest_arrow_field [b] (c_name c) = Some (?f c)"
      by (simp add: latest_arrow_field_def b(1) to_arrow_schema_def)
    moreover have "stable_column c" using c cols(2) by blast
    ultimately show ?thesis
      by (auto simp: align_field_def stable_column_def split: sum.splits)
  qed
  have "List.map_filter (align_field [b]) (delta_schema_of cols) = map ?f cols"
    using one by (induction cols) (simp_all add: delta_schema_of_def List.map_filter_simps)
  moreover have "cast_record lib (map ?f cols) b = Inr \<lparr>rb_fields = map ?f cols, rb_rows = rb_rows b\<rparr>"
    using b cols(1) by (intro cast_same_shape) (simp_all add: to_arrow_schema_def comp_def)
  ultimately show ?thesis by (auto simp: align_delta_batches_def)
qed

lemma gather_data:
  "gather_records (map (\<lambda>b. plain_result (Data (Some b))) bs) = Inr (filter (\<lambda>b. rb_rows b \<noteq> []) bs)"
  by (induction bs) auto

lemma all_rows_filled: "all_rows (filter (\<lambda>b. rb_rows b \<noteq> []) bs) = all_rows bs"
  by (induction bs) auto

lemma staged_rows_exact:
  assumes lib: "parquet_ok lib" and exact: "exact_batches ts bs"
    and staged: "staged_rows lib ts (map plain_result (map (\<lambda>b. Data (Some b)) bs)) = Inr sb"
  shows "all_rows sb = all_rows bs"
proof -
  let ?bs = "filter (\<lambda>b. rb_rows b \<noteq> []) bs" and ?fs = "to_arrow_schema (ts_columns ts)"
  have gather: "gather_records (map plain_result (map (\<lambda>b. Data (Some b)) bs)) = Inr ?bs"
    using gather_data [of bs] by (simp add: comp_def)
  show ?thesis
  proof (cases ?bs)
    case Nil
    then show ?thesis using staged gather all_rows_filled [of bs] by (simp add: staged_rows_def)
  next
    case (Cons b bs')
    then obtain content where w: "io_write lib ?fs ?bs = Some content"
      using staged gather by (auto simp: staged_rows_def split: option.splits)
    let ?one = "\<lparr>rb_fields = ?fs, rb_rows = all_rows bs\<rparr>"
    have same: "list_all (\<lambda>b. rb_fields b = ?fs) ?bs" using exact by (auto simp: list_all_iff exact_batches_def)
    have "b \<in> set ?bs" unfolding Cons by simp
    then have "all_rows bs \<noteq> []" by (auto simp: all_rows_def)
    moreover have "io_read lib content =
        Some (if all_rows ?bs = [] then [] else [\<lparr>rb_fields = ?fs, rb_rows = all_rows ?bs\<rparr>])"
      using lib w same unfolding parquet_ok_def by blast
    ultimately have "io_read lib content = Some [?one]" unfolding all_rows_filled by simp
    then have "align_delta_batches lib [?one] (delta_schema_of (ts_columns ts)) = Inr sb"
      using staged gather w Cons by (simp add: staged_rows_def)
    moreover have "\<forall>r\<in>set (rb_rows ?one). length r = length (ts_columns ts)"
      using exact by (auto simp: exact_batches_def all_rows_def)
    ultimately show ?thesis
      using align_one [of ?one "ts_columns ts" lib] exact by (auto simp: exact_batches_def)
  qed
qed

subsection \<open>Runs of the strategies\<close>

text \<open>What reading the staging table gives of the results of the source.\<close>

definition source_rows ::
  "'f io_lib \<Rightarrow> table_schema \<Rightarrow> (string, record_result list) result \<Rightarrow> (io_error, record_batch list) result" where
  "source_rows lib ts results =
     (case results of Inl e \<Rightarrow> Inl (StreamFailed e) | Inr rs \<Rightarrow> staged_rows lib ts (map plain_result rs))"

text \<open>A run that failed before its load has left the target alone.\<close>

lemma failed_history:
  "onelake_alone env dir p q \<Longrightarrow> load_history env al lib j load rows dir (w_store (fst p)) (w_store (fst q)) False"
  unfolding load_history_def onelake_alone_def using left_alone.untouched by blast

text \<open>A lake with a table of orders to which another writer commits while a run is under way.\<close>

definition shop :: one_lake where
  "shop = \<lparr>ol_workspace = ''sales'', ol_lakehouse = ''shop'', ol_sas_token = [], ol_credential = None, ol_layout = []\<rparr>"

abbreviation orders_dir :: string where "orders_dir \<equiv> table_dir (\<lambda>_. False) shop ''sales/orders''"

definition other_writer :: "record_batch list environment" where
  "other_writer =
     \<lparr>ev_others = (\<lambda>n s. if n = 3 then committed orders_dir [OtherAction] s else s), ev_fault = (\<lambda>_. Works),
      ev_uuid = (\<lambda>n. replicate n (CHR ''x''))\<rparr>"

definition order_lake :: "record_batch list lake" where
  "order_lake = \<lparr>w_store = (\<lambda>dir. if dir = orders_dir then one_table key_value [[CInt 1, CText ''a'']] ''t'' else empty_table),
     w_clock = 0, w_cache = Map.empty\<rparr>"

definition no_target :: target_state where
  "no_target = \<lparr>tg_mode = ModeTables, tg_rel = [], tg_dir = [], tg_columns = None, tg_fields = None, tg_drop_first = False\<rparr>"

definition order_schema :: table_schema where
  "order_schema = \<lparr>ts_name = ''orders'', ts_schema = ''sales'', ts_columns = map arrow_field_to_column key_value,
     ts_primary_keys = [''id''], ts_incremental_key = ''id'', ts_partition_by = []\<rparr>"

definition new_orders :: record_batch where
  "new_orders = \<lparr>rb_fields = key_value, rb_rows = [[CInt 2, CText ''b''], [CInt 5, CText ''c'']]\<rparr>"

definition order_job :: "record_batch list onelake_state job" where
  "order_job =
     \<lparr>jb_config =
        \<lparr>cf_dest_table = ''sales.orders'', cf_dest_uri = [], cf_primary_keys = [''id''], cf_incremental_key = ''id'',
         cf_incremental_predicate = [], cf_interval_start = None, cf_interval_end = None, cf_partition_by = [],
         cf_extract_partition_by = [], cf_cluster_by = [], cf_staging_dataset = [], cf_run_id = ''r1'', cf_keep_staging = False,
         cf_extract_parallelism = 1, cf_destination_parallelism = 1, cf_reject_mode = [], cf_write_nulls = False,
         cf_reverse_etl = False, cf_schema_contract = []\<rparr>,
      jb_schema = order_schema, jb_source_schema = Some order_schema, jb_renames = [], jb_plan = None, jb_pre_staged = None,
      jb_unique_keys = None, jb_type_caster = False, jb_masked = [], jb_comparison = None,
      jb_read = (\<lambda>_. Inr [Data (Some new_orders)]), jb_lease = (\<lambda>x. (x, False))\<rparr>"

lemma other_writer_fair: "fair other_writer"
proof -
  have "extends_log es (es @ [(next_version es, c)])" for es c
    unfolding extends_log_def by (intro exI [of _ "[(next_version es, c)]"]) simp
  then show ?thesis
    by (auto simp: fair_def other_writer_def inj_def grown_def extends_log_refl committed_def log_paths_def Let_def
        dest: arg_cong [of _ _ length])
qed

lemma order_lake_kept: "kept plain_io other_writer order_lake"
  using other_writer_fair
  by (simp add: kept_def cache_ok_def good_def order_lake_def one_table_def empty_table_def log_ok_def fresh_def log_paths_def
      data_file_def build_initial_commit_def add_actions_def)

lemma order_job_ready:
  assumes "parse_target staging = Inr (ModeTables, rel)" "orders_dir \<noteq> table_dir (\<lambda>_. False) shop rel"
  shows "onelake_ready (\<lambda>_. False) shop plain_io other_writer ''sales.orders'' staging orders_dir
    (table_dir (\<lambda>_. False) shop rel) (order_lake, no_target)"
proof -
  have "parse_target ''sales.orders'' = Inr (ModeTables, ''sales/orders'')" by code_simp
  moreover have "private_dir other_writer (table_dir (\<lambda>_. False) shop rel)"
    using assms(2) by (auto simp: private_dir_def other_writer_def committed_def Let_def)
  ultimately show ?thesis using order_lake_kept assms by (auto simp: onelake_ready_def load_dirs_def)
qed

lemma order_job_facts:
  "has_cdc_columns (Some order_schema) = False" "jb_plan order_job = None" "fst (jb_lease order_job x) = x"
  "jb_schema order_job = order_schema" "cf_primary_keys (jb_config order_job) = [''id'']"
  "cf_dest_table (jb_config order_job) = ''sales.orders''" "jb_read order_job req = Inr [Data (Some new_orders)]"
  "cf_interval_start (jb_config order_job) = None" "cf_interval_end (jb_config order_job) = None"
  by (simp_all add: order_job_def order_schema_def has_cdc_columns_def column_names_def key_value_def arrow_field_to_column_def)
    code_simp

lemma rewrite_at_once:
  assumes "dir_of staging = Inr sdir" "dir_of target = Inr dir"
    and "(case read_delta_table lib env sdir w of
        (w1, Inl e) \<Rightarrow> Done (Inl e) | (w1, Inr (_, sb)) \<Rightarrow> snd (rewrite_attempt al lib env load dir sb w1)) = Done r"
  shows "snd (rewrite_table_with_retry al lib env dir_of load target staging w) = r"
proof -
  obtain w1 c where c: "read_delta_table lib env sdir w = (w1, c)" by fastforce
  show ?thesis
  proof (cases c)
    case (Inl e)
    then show ?thesis using assms c by (simp add: rewrite_table_with_retry_def)
  next
    case (Inr b)
    obtain snap sb where b: "b = (snap, sb)" by fastforce
    obtain w2 res where "rewrite_attempt al lib env load dir sb w1 = (w2, res)" by fastforce
    then have "rewrite_attempt al lib env load dir sb w1 = (w2, Done r)" using assms(3) c Inr b by simp
    then have "retry max_delta_commit_attempts (rewrite_attempt al lib env load dir sb) w1 = (w2, Some r)"
      by (simp add: max_delta_commit_attempts_def eval_nat_numeral)
    then show ?thesis using assms(1,2) c Inr b by (simp add: rewrite_table_with_retry_def exhausted_def)
  qed
qed

text \<open>The run of the merge below reports success: the lease is held, the tables are prepared, the rows staged and
  merged, though another writer commits in the meantime.\<close>

lemma order_merge_succeeds:
  "snd (execute_merge 0 (onelake_destination (\<lambda>_. False) shop plain_arrow plain_io other_writer) order_job
     (order_lake, no_target)) = None"
proof -
  let ?d = "onelake_destination (\<lambda>_. False) shop plain_arrow plain_io other_writer"
  let ?staging = "''_bruin_staging.sales__orders_merge_r1''"
  let ?sdir = "table_dir (\<lambda>_. False) shop ''_bruin_staging/sales__orders_merge_r1''"
  let ?prepared = "run_steps (prepare_merge_tables ?d order_job ?staging) (order_lake, no_target)"
  let ?opts = "(staging_write_options order_job ?staging (jb_schema order_job))\<lparr>wo_pre_staged := jb_pre_staged order_job\<rparr>"
  let ?staged = "write_with_truncate_boundaries ?d ?opts False False [Data (Some new_orders)] (fst ?prepared)"
  have prepared: "snd ?prepared = None" by code_simp
  have staged: "snd (snd ?staged) = None" by code_simp
  have merged: "(case read_delta_table plain_io other_writer ?sdir (fst (fst ?staged)) of
      (w1, Inl e) \<Rightarrow> Done (Inl e)
    | (w1, Inr (_, sb)) \<Rightarrow> snd (rewrite_attempt plain_arrow plain_io other_writer (Merge [''id'']) orders_dir sb w1)) = Done (Inr ())"
    by code_simp
  have name: "managed_staging_table_name 0 (ds_policy ?d) (cf_dest_table (jb_config order_job)) ''merge''
      (cf_staging_dataset (jb_config order_job)) (cf_run_id (jb_config order_job)) = ?staging" by code_simp
  have dirs: "table_dir_for_tables (\<lambda>_. False) shop ?staging ''merge'' = Inr ?sdir"
    "table_dir_for_tables (\<lambda>_. False) shop ''sales.orders'' ''merge'' = Inr orders_dir" by code_simp+
  obtain w t where wt: "fst ?staged = (w, t)" by fastforce
  have "snd (rewrite_table_with_retry plain_arrow plain_io other_writer
      (\<lambda>table. table_dir_for_tables (\<lambda>_. False) shop table ''merge'') (Merge [''id'']) ''sales.orders'' ?staging w) = Inr ()"
    by (rule rewrite_at_once [OF dirs]) (use merged in \<open>simp only: wt fst_conv\<close>)
  then have "snd (ds_merge ?d (merge_staging_options ?d ?staging (cf_dest_table (jb_config order_job))
      (cf_primary_keys (jb_config order_job)) (jb_schema order_job) (cf_incremental_key (jb_config order_job))
      (cf_incremental_predicate (jb_config order_job))) (w, t)) = None"
    by (auto simp: onelake_simps merge_staging_options_def on_lake_def failure_def order_job_facts split: prod.splits sum.splits)
  then obtain m where "ds_merge ?d (merge_staging_options ?d ?staging (cf_dest_table (jb_config order_job))
      (cf_primary_keys (jb_config order_job)) (jb_schema order_job) (cf_incremental_key (jb_config order_job))
      (cf_incremental_predicate (jb_config order_job))) (w, t) = (m, None)"
    by (metis prod.collapse)
  moreover have "lease_step (jb_lease order_job) x = (x, None :: io_error strategy_error option)"
    "apply_evolution ?d order_job x = (x, None)" for x
    by (simp_all add: lease_step_def apply_evolution_def order_job_def)
  ultimately have "snd (run_steps (finish_merge ?d order_job ?staging False) (w, t)) = None"
    by (simp add: finish_merge_def step_of_def quietly_def drop_staging_def Let_def)
  note finished = this
  obtain q where prepared: "?prepared = (q, None)" using prepared by (metis prod.collapse)
  have q: "fst ?prepared = q" unfolding prepared by (rule fst_conv)
  obtain emptied where staged:
    "write_with_truncate_boundaries ?d ?opts False False [Data (Some new_orders)] q = ((w, t), emptied, None)"
    using staged wt unfolding q by (metis prod.collapse)
  have facts: "ds_reverse_etl ?d = False" "has_cdc_columns (Some (jb_schema order_job)) = False"
    "\<And>req. jb_read order_job req = Inr [Data (Some new_orders)]"
    by (simp add: onelake_simps, code_simp, rule order_job_facts)
  show ?thesis
    by (simp only: execute_merge_def Let_def facts if_False name prepared staged prod.case option.case sum.case simp_thms finished)
qed

text \<open>C9: a merge run on the OneLake destination, whatever other writers commit, wherever storage, the source or
  the lease fails, and however far it gets: to the target it applies at most the evolution of its plan
  and then at most one load, the merge of the rows that the source delivered, each in one commit made
  of the table just before it; a run that reports success has done both, where there was anything to
  do. With stable column types these are the rows of the source exactly.\<close>

theorem merge_run_on_onelake:
  fixes j :: "'f onelake_state job" and al :: arrow_lib
  defines "c \<equiv> jb_config j"
  defines "results \<equiv> jb_read j (read_request_of j (cf_incremental_key c) False)"
  assumes ready: "onelake_ready valid_uuid d lib env target staging dir sdir (w, t)" and lib: "parquet_ok lib"
    and lease: "\<And>x. fst (jb_lease j x) = x" and plan: "\<And>x. jb_plan j = Some x \<Longrightarrow> ep_table x = target"
    and kind: "\<not> has_cdc_columns (Some (jb_schema j))" and dest: "cf_dest_table c = target"
    and name: "generate_staging_table_name now target ''merge'' (cf_staging_dataset c) (cf_run_id c) = staging"
    and plain: "\<And>rs. results = Inr rs \<Longrightarrow> TruncateMark \<notin> set rs"
    and run: "execute_merge now (onelake_destination valid_uuid d al lib env) j (w, t) = ((w', t'), r)"
  shows "load_history env al lib j (Merge (cf_primary_keys c)) (source_rows lib (jb_schema j) results) dir
      (w_store w) (w_store w') (r = None) \<and>
    (\<forall>bs sb. results = Inr (map (\<lambda>b. Data (Some b)) bs) \<and> exact_batches (jb_schema j) bs \<and>
       source_rows lib (jb_schema j) results = Inr sb \<longrightarrow> all_rows sb = all_rows bs)"
proof (rule conjI)
  let ?d = "onelake_destination valid_uuid d al lib env"
  have "r \<noteq> None \<and> onelake_alone env dir (w, t) (w', t') \<or>
    (\<exists>rs. results = Inr rs \<and>
       one_load (onelake_alone env dir)
         (\<lambda>p. onelake_ready valid_uuid d lib env target staging dir sdir p \<and>
            onelake_staged lib sdir (jb_schema j) (Some (map plain_result rs)) p)
         (apply_evolution ?d j)
         (ds_merge ?d (merge_staging_options ?d staging target (cf_primary_keys c) (jb_schema j)
           (cf_incremental_key c) (cf_incremental_predicate c))) (w, t) (w', t') r)"
    unfolding results_def c_def
    by (rule onelake.merge_run [OF lease plan _ kind dest [unfolded c_def] _ plain [unfolded results_def c_def] ready run])
      (use name in \<open>simp_all add: onelake_simps managed_staging_table_name_def c_def\<close>)
  then show "load_history env al lib j (Merge (cf_primary_keys c)) (source_rows lib (jb_schema j) results) dir
      (w_store w) (w_store w') (r = None)"
  proof (elim disjE exE conjE)
    assume "r \<noteq> None" "onelake_alone env dir (w, t) (w', t')"
    then show ?thesis using failed_history by fastforce
  next
    fix rs assume rs: "results = Inr rs" and load: "one_load (onelake_alone env dir)
         (\<lambda>p. onelake_ready valid_uuid d lib env target staging dir sdir p \<and>
            onelake_staged lib sdir (jb_schema j) (Some (map plain_result rs)) p)
         (apply_evolution ?d j)
         (ds_merge ?d (merge_staging_options ?d staging target (cf_primary_keys c) (jb_schema j)
           (cf_incremental_key c) (cf_incremental_predicate c))) (w, t) (w', t') r"
    then have "one_load (onelake_alone env dir)
         (\<lambda>p. onelake_ready valid_uuid d lib env target staging dir sdir p \<and>
            onelake_staged lib sdir (jb_schema j) (Some (map plain_result rs)) p)
         (apply_evolution ?d j)
         (on_lake (rewrite_table_with_retry al lib env (\<lambda>table. table_dir_for_tables valid_uuid d table ''merge'')
           (Merge (cf_primary_keys c)) target staging)) (w, t) (w', t') r"
      by (simp add: onelake_simps merge_staging_options_def)
    from one_load_history [OF lib plan this] show ?thesis by (simp add: rs source_rows_def)
  qed
  show "\<forall>bs sb. results = Inr (map (\<lambda>b. Data (Some b)) bs) \<and> exact_batches (jb_schema j) bs \<and>
       source_rows lib (jb_schema j) results = Inr sb \<longrightarrow> all_rows sb = all_rows bs"
    using staged_rows_exact [OF lib] by (auto simp: source_rows_def)
qed

lemma merge_run_on_onelake_witness:
  "let ((w', t'), r) =
       execute_merge 0 (onelake_destination (\<lambda>_. False) shop plain_arrow plain_io other_writer) order_job (order_lake, no_target)
   in r = None \<and> load_history other_writer plain_arrow plain_io order_job (Merge [''id''])
        (source_rows plain_io order_schema (Inr [Data (Some new_orders)])) orders_dir
        (w_store order_lake) (w_store w') (r = None)"
proof -
  obtain w' t' r where run: "execute_merge 0 (onelake_destination (\<lambda>_. False) shop plain_arrow plain_io other_writer) order_job
      (order_lake, no_target) = ((w', t'), r)"
    by (metis prod.exhaust)
  let ?staging = "''_bruin_staging.sales__orders_merge_r1''"
  have staging: "parse_target ?staging = Inr (ModeTables, ''_bruin_staging/sales__orders_merge_r1'')" by code_simp
  have apart: "orders_dir \<noteq> table_dir (\<lambda>_. False) shop ''_bruin_staging/sales__orders_merge_r1''" by code_simp
  have "generate_staging_table_name 0 ''sales.orders'' ''merge'' [] ''r1'' = ?staging" by code_simp
  then have name: "generate_staging_table_name 0 ''sales.orders'' ''merge'' (cf_staging_dataset (jb_config order_job))
      (cf_run_id (jb_config order_job)) = ?staging"
    by (simp add: order_job_def)
  have "load_history other_writer plain_arrow plain_io order_job
      (Merge (cf_primary_keys (jb_config order_job)))
      (source_rows plain_io (jb_schema order_job)
        (jb_read order_job (read_request_of order_job (cf_incremental_key (jb_config order_job)) False))) orders_dir
      (w_store order_lake) (w_store w') (r = None)"
    by (rule merge_run_on_onelake [THEN conjunct1, OF order_job_ready [OF staging apart] plain_io_parquet _ _ _ _ name _ run])
      (simp_all add: order_job_facts)
  moreover have "r = None" using order_merge_succeeds unfolding run by simp
  ultimately show ?thesis by (simp add: run order_job_facts)
qed

text \<open>C10: a delete+insert run on the OneLake destination, under the same circumstances: at most the evolution and then
  one load, the reload of an interval whose bounds are those of the configuration or, without them,
  those detected in the staged rows; when no bound is known the target is left alone.\<close>

theorem delete_insert_run_on_onelake:
  fixes j :: "'f onelake_state job" and al :: arrow_lib
  defines "c \<equiv> jb_config j" and "ts \<equiv> jb_schema j"
  defines "key \<equiv> fst (resolve_schema_column (Some ts) (cf_incremental_key c))"
    and "kt \<equiv> incremental_key_type (Some ts) (jb_source_schema j) (cf_incremental_key c)"
    and "results \<equiv> jb_read j (read_request_of j
      (source_incremental_key_for_read (cf_incremental_key c) (jb_source_schema j) (jb_renames j)) False)"
  assumes ready: "onelake_ready valid_uuid d lib env target staging dir sdir (w, t)" and lib: "parquet_ok lib"
    and lease: "\<And>x. fst (jb_lease j x) = x" and plan: "\<And>x. jb_plan j = Some x \<Longrightarrow> ep_table x = target"
    and kind: "\<not> has_cdc_columns (Some ts)" and dest: "cf_dest_table c = target"
    and name: "generate_staging_table_name now target ''di'' (cf_staging_dataset c) (cf_run_id c) = staging"
    and run: "execute_delete_insert now al dec256 (onelake_destination valid_uuid d al lib env) j (w, t) = ((w', t'), r)"
  shows "left_alone env dir (w_store w) (w_store w') \<and>
      (r = None \<longrightarrow> (\<exists>rs k. results = Inr rs \<and> track al dec256 (batches_of rs) (new_interval_tracker key) = Some k \<and>
         (resolve_interval_bound (cf_interval_start c) (it_min k) = VNil \<or>
          resolve_interval_bound (cf_interval_end c) (it_max k) = VNil))) \<or>
    (\<exists>rs k start stop. results = Inr rs \<and> track al dec256 (batches_of rs) (new_interval_tracker key) = Some k \<and>
       start = resolve_interval_bound (cf_interval_start c) (it_min k) \<and>
       stop = resolve_interval_bound (cf_interval_end c) (it_max k) \<and> start \<noteq> VNil \<and> stop \<noteq> VNil \<and>
       load_history env al lib j
         (DeleteInsert \<lparr>di_key = key, di_key_type = kt,
            di_start = (if kt = TypeDate then to_date_only start else start),
            di_end = (if kt = TypeDate then to_date_only stop else stop)\<rparr>)
         (source_rows lib ts results) dir (w_store w) (w_store w') (r = None))"
proof -
  let ?d = "onelake_destination valid_uuid d al lib env"
  let ?ready = "onelake_ready valid_uuid d lib env target staging dir sdir"
  let ?start = "\<lambda>k. resolve_interval_bound (cf_interval_start c) (it_min k)"
  let ?stop = "\<lambda>k. resolve_interval_bound (cf_interval_end c) (it_max k)"
  let ?bound = "\<lambda>v. if kt = TypeDate then to_date_only v else v"
  let ?di = "\<lambda>k. \<lparr>di_key = key, di_key_type = kt, di_start = ?bound (?start k), di_end = ?bound (?stop k)\<rparr>"
  let ?req = "\<lambda>k. \<lparr>dr_staging_table = staging, dr_target_table = target, dr_interval = ?di k,
    dr_columns = column_names ts, dr_primary_keys = cf_primary_keys c\<rparr>"
  have "r \<noteq> None \<and> onelake_alone env dir (w, t) (w', t') \<or>
    (\<exists>rs k. results = Inr rs \<and> track al dec256 (batches_of rs) (new_interval_tracker key) = Some k \<and>
       (if ?start k = VNil \<or> ?stop k = VNil then onelake_alone env dir (w, t) (w', t')
        else one_load (onelake_alone env dir)
          (\<lambda>p. ?ready p \<and> onelake_staged lib sdir ts (Some (map plain_result rs)) p)
          (apply_evolution ?d j) (ds_delete_insert ?d (?req k)) (w, t) (w', t') r))"
  proof -
    have supported: "ds_supports_delete_insert ?d" by (simp add: onelake_simps)
    have named: "managed_staging_table_name now (ds_policy ?d) target ''di'' (cf_staging_dataset (jb_config j))
        (cf_run_id (jb_config j)) = staging"
      using name by (simp add: onelake_simps managed_staging_table_name_def c_def)
    show ?thesis
      using onelake.delete_insert_run [OF lease plan kind [unfolded ts_def] supported dest [unfolded c_def] named ready run]
      by (simp only: Let_def c_def ts_def key_def kt_def results_def)
  qed
  then show ?thesis
  proof (elim disjE exE conjE)
    assume "r \<noteq> None" "onelake_alone env dir (w, t) (w', t')"
    then show ?thesis by (intro disjI1 conjI impI) (simp_all add: onelake_alone_def)
  next
    fix rs k
    assume k: "results = Inr rs" "track al dec256 (batches_of rs) (new_interval_tracker key) = Some k"
      and load: "if ?start k = VNil \<or> ?stop k = VNil then onelake_alone env dir (w, t) (w', t')
        else one_load (onelake_alone env dir)
          (\<lambda>p. ?ready p \<and> onelake_staged lib sdir ts (Some (map plain_result rs)) p)
          (apply_evolution ?d j) (ds_delete_insert ?d (?req k)) (w, t) (w', t') r"
    show ?thesis
    proof (cases "?start k = VNil \<or> ?stop k = VNil")
      case True
      then show ?thesis using k load by (auto simp: onelake_alone_def)
    next
      case False
      then have "one_load (onelake_alone env dir)
          (\<lambda>p. ?ready p \<and> onelake_staged lib sdir ts (Some (map plain_result rs)) p) (apply_evolution ?d j)
          (on_lake (rewrite_table_with_retry al lib env (\<lambda>table. table_dir_for_tables valid_uuid d table ''delete+insert'')
             (DeleteInsert (?di k)) target staging)) (w, t) (w', t') r"
        using load by (simp add: onelake_simps)
      from one_load_history [OF lib plan this]
      have "load_history env al lib j (DeleteInsert (?di k)) (source_rows lib ts results) dir (w_store w) (w_store w') (r = None)"
        by (simp add: k(1) source_rows_def)
      then show ?thesis using k False by blast
    qed
  qed
qed

lemma delete_insert_run_on_onelake_witness:
  "let ((w', t'), r) =
       execute_delete_insert 0 plain_arrow (\<lambda>_ _. NaN)
         (onelake_destination (\<lambda>_. False) shop plain_arrow plain_io other_writer) order_job (order_lake, no_target)
   in load_history other_writer plain_arrow plain_io order_job
        (DeleteInsert \<lparr>di_key = ''id'', di_key_type = TypeInt64, di_start = VInt64 2, di_end = VInt64 5\<rparr>)
        (source_rows plain_io order_schema (Inr [Data (Some new_orders)])) orders_dir
        (w_store order_lake) (w_store w') (r = None)"
proof -
  obtain w' t' r where run: "execute_delete_insert 0 plain_arrow (\<lambda>_ _. NaN)
      (onelake_destination (\<lambda>_. False) shop plain_arrow plain_io other_writer) order_job (order_lake, no_target) = ((w', t'), r)"
    by (metis prod.exhaust)
  let ?staging = "''_bruin_staging.sales__orders_di_r1''"
  have staging: "parse_target ?staging = Inr (ModeTables, ''_bruin_staging/sales__orders_di_r1'')" by code_simp
  have apart: "orders_dir \<noteq> table_dir (\<lambda>_. False) shop ''_bruin_staging/sales__orders_di_r1''" by code_simp
  have "generate_staging_table_name 0 ''sales.orders'' ''di'' [] ''r1'' = ?staging" by code_simp
  then have name: "generate_staging_table_name 0 ''sales.orders'' ''di'' (cf_staging_dataset (jb_config order_job))
      (cf_run_id (jb_config order_job)) = ?staging"
    by (simp add: order_job_def)
  have key: "fst (resolve_schema_column (Some order_schema) (cf_incremental_key (jb_config order_job))) = ''id''"
    "incremental_key_type (Some order_schema) (jb_source_schema order_job) (cf_incremental_key (jb_config order_job)) = TypeInt64"
    by code_simp+
  have bounds: "track plain_arrow (\<lambda>_ _. NaN) (batches_of [Data (Some new_orders)]) (new_interval_tracker ''id'') =
      Some \<lparr>it_key = ''id'', it_min = VInt64 2, it_max = VInt64 5, it_col_index = 0, it_found = True\<rparr>"
    by code_simp
  have "left_alone other_writer orders_dir (w_store order_lake) (w_store w') \<and> r \<noteq> None \<or>
    load_history other_writer plain_arrow plain_io order_job
      (DeleteInsert \<lparr>di_key = ''id'', di_key_type = TypeInt64, di_start = VInt64 2, di_end = VInt64 5\<rparr>)
      (source_rows plain_io order_schema (Inr [Data (Some new_orders)])) orders_dir (w_store order_lake) (w_store w') (r = None)"
    using delete_insert_run_on_onelake
      [OF order_job_ready [OF staging apart] plain_io_parquet _ _ _ _ name run, unfolded order_job_facts key]
    by (auto simp: order_job_facts bounds resolve_interval_bound_def simp del: track.simps)
  then have "load_history other_writer plain_arrow plain_io order_job
      (DeleteInsert \<lparr>di_key = ''id'', di_key_type = TypeInt64, di_start = VInt64 2, di_end = VInt64 5\<rparr>)
      (source_rows plain_io order_schema (Inr [Data (Some new_orders)])) orders_dir (w_store order_lake) (w_store w') (r = None)"
    using failed_history [of other_writer orders_dir "(order_lake, no_target)" "(w', t')"] by (auto simp: onelake_alone_def)
  then show ?thesis by (simp add: run)
qed

text \<open>An SCD2 run: what is merged are the rows of the source with the columns of SCD2 added.\<close>

lemma scd2_run_on_onelake:
  fixes j :: "'f onelake_state job" and al :: arrow_lib
  defines "c \<equiv> jb_config j" and "extended \<equiv> extend_schema_with_scd_columns (jb_schema j)"
  defines "results \<equiv> jb_read j (read_request_of j (cf_incremental_key c) False)"
  assumes ready: "onelake_ready valid_uuid d lib env target staging dir sdir (w, t)" and lib: "parquet_ok lib"
    and lease: "\<And>x. fst (jb_lease j x) = x" and plan: "\<And>x. jb_plan j = Some x \<Longrightarrow> ep_table x = target"
    and kind: "\<not> has_cdc_columns (Some (jb_schema j))" and dest: "cf_dest_table c = target"
    and name: "generate_staging_table_name now target ''scd2'' (cf_staging_dataset c) (cf_run_id c) = staging"
    and run: "execute_scd2 now (onelake_destination valid_uuid d al lib env) j (w, t) = ((w', t'), r)"
  shows "load_history env al lib j
      (Scd2 \<lparr>so_primary_keys = cf_primary_keys c, so_columns = column_names (jb_schema j),
         so_incremental_key = cf_incremental_key c, so_timestamp = now\<rparr>)
      (source_rows lib extended (map_sum id (map (with_scd_columns now)) results)) dir (w_store w) (w_store w') (r = None)"
proof -
  let ?d = "onelake_destination valid_uuid d al lib env"
  let ?scd2 = "Scd2 \<lparr>so_primary_keys = cf_primary_keys c, so_columns = column_names (jb_schema j),
    so_incremental_key = cf_incremental_key c, so_timestamp = now\<rparr>"
  let ?load = "\<lambda>rs. one_load (onelake_alone env dir)
    (\<lambda>p. onelake_ready valid_uuid d lib env target staging dir sdir p \<and>
       onelake_staged lib sdir extended (Some (map (\<lambda>x. plain_result (with_scd_columns now x)) rs)) p)
    (apply_evolution ?d j)
    (ds_scd2 ?d \<lparr>sr_staging_table = staging, sr_target_table = target,
       sr_options = \<lparr>so_primary_keys = cf_primary_keys c, so_columns = column_names (jb_schema j),
         so_incremental_key = cf_incremental_key c, so_timestamp = now\<rparr>, sr_schema = jb_schema j\<rparr>) (w, t) (w', t') r"
  have named: "managed_staging_table_name now (ds_policy ?d) target ''scd2'' (cf_staging_dataset (jb_config j))
      (cf_run_id (jb_config j)) = staging"
    using name by (simp add: onelake_simps managed_staging_table_name_def c_def)
  have "r \<noteq> None \<and> onelake_alone env dir (w, t) (w', t') \<or> (\<exists>rs. results = Inr rs \<and> ?load rs)"
    unfolding results_def c_def extended_def
    by (rule onelake.scd2_run [OF lease plan kind dest [unfolded c_def] named ready run])
  then show ?thesis
  proof (elim disjE exE conjE)
    assume "r \<noteq> None" "onelake_alone env dir (w, t) (w', t')"
    then show ?thesis using failed_history by fastforce
  next
    fix rs assume rs: "results = Inr rs" and "?load rs"
    then have "one_load (onelake_alone env dir)
      (\<lambda>p. onelake_ready valid_uuid d lib env target staging dir sdir p \<and>
         onelake_staged lib sdir extended (Some (map (\<lambda>x. plain_result (with_scd_columns now x)) rs)) p)
      (apply_evolution ?d j)
      (on_lake (rewrite_table_with_retry al lib env (\<lambda>table. table_dir_for_tables valid_uuid d table ''scd2'')
        ?scd2 target staging)) (w, t) (w', t') r"
      by (simp add: onelake_simps)
    from one_load_history [OF lib plan this] show ?thesis by (simp add: rs source_rows_def comp_def)
  qed
qed

text \<open>Replacing has no staging table here: when the source cannot be read, the target is already cleared.\<close>

lemma replace_clears_before_reading:
  "case execute_replace 0 (onelake_destination (\<lambda>_. False) shop plain_arrow plain_io other_writer)
       (order_job\<lparr>jb_read := \<lambda>_. Inl ''timeout''\<rparr>) (order_lake, no_target) of
     ((w', t'), r) \<Rightarrow> ts_log (w_store w' orders_dir) = [] \<and> r = Some (SourceFailed ''timeout'')"
  by code_simp

end
