(* ===== verification/Spec2Isabelle.thy ===== *)
theory Spec2Isabelle
  imports Bullhorn_Source Cdc_Stream_Target Extract_Partition Onelake_Schema Onelake_Shape Reconcile Strategy_Onelake
begin

text \<open>
  The connector: data from the Bullhorn applicant tracking system is loaded by ingestr into Microsoft
  Fabric. Three programs of the repository work together. \<^verbatim>\<open>fabric/runner\<close> is started on a schedule;
  it reads its configuration and its state, takes a lock, and calls ingestr once for each entity with a
  window of time. ingestr (\<^verbatim>\<open>cmd\<close>, \<^verbatim>\<open>pkg\<close>) reads the entity from Bullhorn with the source of
  \<^verbatim>\<open>pkg/source/bullhorn\<close>, and its pipeline names, compares and evolves the columns of the destination
  table. \<^verbatim>\<open>fabric/reconcile\<close> compares the loaded tables with Bullhorn afterwards. The runner and the
  source talk through files: the rotated refresh token, the number of calls made, and the cursor of the
  event subscription.

  \<^bold>\<open>Theories.\<close> Each definition has the name of the Go function, in snake case, and stands in the
  theory of its file.

  \<^item> \<open>Prelude\<close>, \<open>Go_Strings\<close>, \<open>Go_Time\<close>: what is used of Go itself. Integers of type \<open>int\<close> and
    \<open>int64\<close> are mathematical integers, wrapped (\<open>wrap64\<close>) where the code can overflow; division
    truncates; \<open>strings\<close>, \<open>strconv\<close>, and the calendar and the layouts of \<open>time\<close>.
  \<^item> \<open>Schema\<close> (\<^verbatim>\<open>pkg/schema\<close>), \<open>Naming\<close> (\<^verbatim>\<open>pkg/naming\<close>): columns, tables, naming conventions. The
    locale \<open>naming_convention\<close> says what a convention promises (it is idempotent); every convention
    of the code is an interpretation of it.
  \<^item> \<open>Widening\<close>, \<open>Column_Overrides\<close>, \<open>Schema_Compare\<close>, \<open>Evolution\<close>, \<open>Evolution_Converges\<close>
    (\<^verbatim>\<open>pkg/schemaevolution\<close>): the lattice of type changes, the \<^verbatim>\<open>--columns\<close> option, \<open>Compare\<close>, the
    plan and the contract, and the theorem that one evolution is enough.
  \<^item> \<open>Table_Names\<close> (\<^verbatim>\<open>pkg/tablename\<close>), \<open>Table_Spec\<close> (\<^verbatim>\<open>pkg/tablespec\<close>): qualified names and names
    with parameters, with their round trips.
  \<^item> \<open>Run_Store\<close>, \<open>Runner\<close> (\<^verbatim>\<open>fabric/runner\<close>): the files of a run as a record \<open>world\<close> whose every file
    operation may fail, the state file, the lock, the secret stores (locale \<open>secret_store\<close>), the
    validated configuration, the budget, one entity, and the whole run with its exit code.
  \<^item> \<open>Bullhorn_Session\<close>, \<open>Bullhorn_Source\<close> (\<^verbatim>\<open>pkg/source/bullhorn\<close>): login, the request loop, and the
    four kinds of table.
  \<^item> \<open>Extract_Partition\<close> (\<^verbatim>\<open>pkg/source/extract_partition.go\<close>): a read split into windows.
  \<^item> \<open>Reconcile\<close> (\<^verbatim>\<open>fabric/reconcile\<close>): counts, keys, and the listing of ids.
  \<^item> \<open>Cdc_Lsn\<close>, \<open>Cdc_Toast\<close>, \<open>Cdc_Values\<close>, \<open>Cdc_Fill\<close>, \<open>Cdc_Merge\<close>, \<open>Cdc_Window\<close>
    (\<^verbatim>\<open>pkg/source/postgres_cdc\<close>, with the merge of \<^verbatim>\<open>pkg/destination/postgres\<close>): change data capture
    from PostgreSQL. Position texts; the TOAST state, which refines a map; resolving, splitting and
    compacting the changes of a flush window (locale \<open>known_store\<close>, interpreted by the TOAST state);
    and the theorem that flush after flush the target shows the rows of the source.
  \<^item> \<open>Cdc_Stream\<close>, \<open>Cdc_Stream_Safety\<close>, \<open>Cdc_Stream_Target\<close>: the stream of one table from the
    messages of the write-ahead log to the results channel, every turn of \<open>streamLoop\<close> given what it
    meets (faults of files, sends, the lease, the server) by a record \<open>tick\<close>. An inductive relation
    gives the reachable streams, in which spool files close without an error (a lemma shows what is lost
    when one does not); the theorems say that no row is lost or reordered, that no position
    past unsent rows is confirmed, that an idle stream catches up, and that the sends keep the target
    in step with the source. Assumed of the server is the order of its messages (\<open>wal_next\<close>).
  \<^item> \<open>Onelake_Rows\<close>, \<open>Onelake_Loads\<close> (\<^verbatim>\<open>pkg/destination/onelake/transform.go\<close>): the rows that a merge, a
    delete and insert and an SCD2 load make of a target and a staging table, and what these are: an
    upsert, the reload of an interval, a history of versions.
  \<^item> \<open>Onelake_Delta\<close>, \<open>Onelake_Schema\<close> (\<^verbatim>\<open>delta.go\<close>, \<^verbatim>\<open>evolve.go\<close>): Delta types and schemas, the checks
    before a rewrite, evolution of the metadata; \<open>Onelake_Uri\<close>: the URI, targets and paths, composed with
    the runner that builds them.
  \<^item> \<open>Onelake_Log\<close>, \<open>Onelake_Cache\<close>: commits, replaying a log, the scan for the metadata and its cache.
  \<^item> \<open>Onelake_Commit\<close>, \<open>Onelake_Table\<close> (\<^verbatim>\<open>delta_io.go\<close>, \<^verbatim>\<open>onelake.go\<close>): reading a table, reconciling it
    with the staging table, and the three loops that publish a commit, on storage shared with other
    writers (record \<open>lake\<close>; the record \<open>environment\<close> gives what others write, and which operations fail).
    \<open>Onelake_Serial\<close> states the loops as a locale \<open>retry_loop\<close>, interpreted in \<open>Onelake_Rewrite\<close>,
    \<open>Onelake_Append\<close> and \<open>Onelake_Evolve\<close>: a load is one commit, made of the table just before it, or
    none. Assumed are contiguous versions, file names that are not used twice, and that Parquet gives
    back the rows it was given; the number of attempts is the code's. \<open>Onelake_Shape\<close>: the shape of what
    a load writes.
  \<^item> \<open>Strategy_Staging\<close>, \<open>Strategy_Interval\<close> (\<^verbatim>\<open>pkg/strategy/staging.go\<close>, \<^verbatim>\<open>interval_tracker.go\<close>): the
    names of staging tables, and the interval that a delete and insert detects in the rows it stages.
  \<^item> \<open>Strategy_Execute\<close> (\<^verbatim>\<open>pkg/strategy\<close>): \<open>Execute\<close> and \<open>Validate\<close> of append, merge, delete and insert,
    SCD2, replace and reverse ETL, as lists of steps on the record \<open>destination\<close> of the calls that the
    interface \<open>Destination\<close> has. \<open>Strategy_Contract\<close> states what the staged loads rely on as a locale
    (\<open>staged_loads\<close>: preparing and writing a staging table leaves the target alone, and what was written
    stays there until the load) and proves in it that a run makes at most one evolution and one load,
    the load after everything is staged.
  \<^item> \<open>Onelake_Kept\<close>, \<open>Strategy_Onelake\<close>: the OneLake destination as such a record, what its operations
    keep of a lake, the interpretation of \<open>staged_loads\<close> on it, and the theorems that compose strategy,
    retry loops and Delta log: what a merge run and a delete and insert run do to the target table,
    whatever other writers commit. Assumed there are that nobody else commits to the staging table of
    the run, that Parquet gives back the rows, and that the two tables have different directories.
  \<^bold>\<open>What the lemmas show.\<close> Round trips (names, table parameters, overrides, the files between the
  programs), invariants of an operation (the lock, the state file, the secret store), the behaviour on
  every error path of the request loop and of a run, the exactness of the windows over a partition
  column on all 64-bit integers, and the convergence of schema evolution. This theory holds the
  properties of the runner and the source together.

  \<^bold>\<open>Parameters.\<close> What is not in the repository is an argument: Bullhorn's servers, the Key Vault, the
  ingestr process as the runner sees it, the SQL endpoint, the YAML decoder, the matching rule of
  \<open>mapstructure\<close>, the Arrow builder, the casts of Arrow columns, Parquet, the storage service.

  \<^bold>\<open>Fuel.\<close> The request loop, the pages of a read and the listing of ids may go on for ever (a server
  that always answers 429, or always with a full page). They take fuel and return \<open>None\<close> without it;
  theorems say how much is enough: for the request loop a bound on the waits, for the pages one more
  than there are full pages. The loops over windows end by the limit of 100000.

  \<^bold>\<open>Not modelled.\<close> The other sources and the other destinations; the pipeline's concurrency and the pool of
  workers; runs over several tables, streaming runs and the CDC state manager of \<^verbatim>\<open>pkg/strategy\<close>, its
  in-place replace, and the transformers of records; HTTP and Arrow encodings; logging; Unicode beyond
  ASCII (\<open>normalizeSegment\<close> keeps letters and digits that the model replaces); the exponent notations of
  \<open>strconv.ParseFloat\<close>; \<open>url.Parse\<close>'s refusal of malformed hosts (the connector's URIs have none); the
  retries that the Azure SDK makes by itself: the upload of a commit, its directory and its rename are one
  step of \<open>publish\<close>, which works, fails without effect, or fails after it took effect.
\<close>

subsection \<open>The runner and the source\<close>

lemma url_get_simps [simp]: "url_get [] k = []" "url_get ((k', v) # q) k = (if k' = k then v else url_get q k)"
  by (simp_all add: url_get_def)

lemma decode_fields_only:
  assumes "\<forall>f \<in> set param_names. match ''fields'' f \<longrightarrow> f = ''fields''"
  shows "decode_params match [(''fields'', v)] = Inr (empty_params\<lparr>tp_fields := string_to_slice (CHR '','') v\<rparr>)"
  using assms
  by (simp add: decode_params_def field_key_def list_field_def string_field_def url_all_def unused_keys_def param_names_def
      empty_params_def Let_def)

lemma query_plain_fields:
  "\<forall>f \<in> set fs. query_plain f \<Longrightarrow> query_plain (join '','' fs)"
  by (rule query_plain_join) simp_all

lemma source_table_text:
  "ec_endpoint e = ''search'' \<or> ec_endpoint e = ''query'' \<Longrightarrow>
   bullhorn_source_table e = ec_table e @ ''?'' @ join ''&'' (map pair_text [(''fields'', join '','' (ec_allowlist e))])"
  by (auto simp: bullhorn_source_table_def pair_text_def)

text \<open>C33: The fields a configuration lists are the fields the source asks Bullhorn for: the table name the
  runner builds from a valid entity is taken apart by the source into the same table and exactly the
  configured allowlist, in order, for every built-in table that reads by fields. The fields are free of
  commas and of the characters with a meaning in a query, and the library that matches parameter names
  matches no other parameter with \<open>fields\<close>.\<close>

theorem allowlist_reaches_source:
  assumes "validate c = None" "e \<in> set (cfg_entities c)" "ec_endpoint e = ''search'' \<or> ec_endpoint e = ''query''"
    and "map_of builtin_entities (ec_table e) = Some cfg" "et_style cfg = StyleSearch \<or> et_style cfg = StyleQuery"
    and "\<forall>f \<in> set (ec_allowlist e). f \<noteq> [] \<and> query_plain f \<and> CHR '','' \<notin> set f \<and> trim_space f = f"
    and "\<forall>f \<in> set param_names. match ''fields'' f \<longrightarrow> f = ''fields''"
  shows "\<exists>t. get_table match (bullhorn_source_table e) = Inr t \<and> sb_name t = ec_table e \<and> sb_entity t = cfg \<and>
    tp_fields (sb_params t) = ec_allowlist e"
proof -
  have "entity_ok e" using assms(1,2) validate_ok_iff by (simp add: config_ok_def)
  moreover have "ec_endpoint e \<noteq> ''meta''" "ec_endpoint e \<noteq> ''subscription''" using assms(3) by auto
  ultimately have a: "ec_allowlist e \<noteq> []" "''*'' \<notin> set (ec_allowlist e)" by (simp_all add: entity_ok_def)
  have sl: "string_to_slice (CHR '','') (join '','' (ec_allowlist e)) = ec_allowlist e"
    by (rule string_to_slice_join) (use a assms(6) in auto)
  have "query_plain (join '','' (ec_allowlist e))" by (rule query_plain_fields) (use assms(6) in blast)
  moreover have "plain_key ''fields''" by code_simp
  ultimately have "split_spec (bullhorn_source_table e) = (ec_table e, Some [(''fields'', join '','' (ec_allowlist e))], True)"
    unfolding source_table_text [OF assms(3)] by (intro split_spec_query) simp_all
  then have "parse_table match (bullhorn_source_table e) = (ec_table e, Inr (empty_params\<lparr>tp_fields := ec_allowlist e\<rparr>))"
    by (simp add: parse_table_def decode_fields_only [of match, OF assms(7)] sl)
  then show ?thesis
    using assms(4,5) a by (auto simp: get_table_def validate_allowlist_def empty_params_def)
qed

theorem allowlist_reaches_source_witness:
  "\<exists>t. get_table (=) (bullhorn_source_table (sample_entity ''candidate'' ''search'' True)) = Inr t \<and>
     tp_fields (sb_params t) = [''id'']"
proof -
  let ?e = "sample_entity ''candidate'' ''search'' True"
  let ?c = "sample_config\<lparr>cfg_entities := [?e]\<rparr>"
  have "validate ?c = None" unfolding validate_ok_iff by (simp add: config_ok_def entity_ok_def sample_config_def sample_entity_def)
  moreover have "?e \<in> set (cfg_entities ?c)" by simp
  moreover have "ec_endpoint ?e = ''search'' \<or> ec_endpoint ?e = ''query''" by (simp add: sample_entity_def)
  moreover have "map_of builtin_entities (ec_table ?e) = Some (entity_row ''candidate'' ''Candidate'' StyleSearch)"
    by (simp add: builtin_entities_def sample_entity_def)
  moreover have "et_style (entity_row ''candidate'' ''Candidate'' StyleSearch) = StyleSearch \<or>
      et_style (entity_row ''candidate'' ''Candidate'' StyleSearch) = StyleQuery" by (simp add: entity_row_def)
  moreover have "\<forall>f \<in> set (ec_allowlist ?e). f \<noteq> [] \<and> query_plain f \<and> CHR '','' \<notin> set f \<and> trim_space f = f" by code_simp
  moreover have "\<forall>f \<in> set param_names. ''fields'' = f \<longrightarrow> f = ''fields''" by simp
  ultimately have "\<exists>t. get_table (=) (bullhorn_source_table ?e) = Inr t \<and> sb_name t = ec_table ?e \<and>
      sb_entity t = entity_row ''candidate'' ''Candidate'' StyleSearch \<and> tp_fields (sb_params t) = ec_allowlist ?e"
    by (rule allowlist_reaches_source)
  then show ?thesis by (auto simp: sample_entity_def)
qed

definition uri_pairs :: "runner_env \<Rightarrow> string \<Rightarrow> string \<Rightarrow> url_values" where
  "uri_pairs env token out = [(''client_id'', re_client_id env), (''refresh_token'', token), (''username'', re_username env),
     (''data_center'', re_data_center env), (''rate_limit'', re_rate_limit env), (''token_output'', out)]"

lemma source_uri_text: "source_uri env token out = ''bullhorn://'' @ ''?'' @ join ''&'' (map pair_text (uri_pairs env token out))"
  by (simp add: source_uri_def uri_pairs_def pair_text_def)

lemma parse_each_pair:
  "\<forall>(k, v) \<in> set q. query_plain k \<and> query_plain v \<Longrightarrow>
     concat (map (\<lambda>tok. case parse_pairs [tok] of Some q \<Rightarrow> q | None \<Rightarrow> []) (map pair_text q)) = q"
proof (induction q)
  case (Cons p q)
  then have "parse_pairs (map pair_text [p]) = Some [p]" by (intro parse_pairs_plain) auto
  then show ?case using Cons by simp
qed simp

lemma query_plain_hash: "query_plain s \<Longrightarrow> CHR ''#'' \<notin> set s"
  by (auto simp: query_plain_def list_all_iff)

lemma pairs_no_hash:
  "\<forall>(k, v) \<in> set q. query_plain k \<and> query_plain v \<Longrightarrow> CHR ''#'' \<notin> set (join ''&'' (map pair_text q))"
proof (induction q)
  case (Cons p q)
  then show ?case
    by (cases p; cases "q = []") (auto simp: join_Cons pair_text_def query_plain_hash)
qed simp

lemma uri_query_plain:
  assumes "q \<noteq> []" "\<forall>(k, v) \<in> set q. query_plain k \<and> query_plain v"
  shows "uri_query (''bullhorn://'' @ ''?'' @ join ''&'' (map pair_text q)) = q"
proof -
  let ?t = "join ''&'' (map pair_text q)"
  have h: "takeWhile (\<lambda>c. c \<noteq> CHR ''#'') (''bullhorn://'' @ ''?'' @ ?t) = ''bullhorn://'' @ ''?'' @ ?t"
    using pairs_no_hash [OF assms(2)] by (auto simp: takeWhile_eq_all_conv)
  have "cut (CHR ''?'') (''bullhorn://'' @ ''?'' @ ?t) = (''bullhorn://'', ?t)"
    using cut_plain [of "CHR ''?''" "''bullhorn://''" ?t] by simp
  moreover have "split_on (CHR ''&'') ?t = map pair_text q"
    by (rule split_on_join) (use assms query_plain_not_in in \<open>fastforce simp: pair_text_def\<close>)+
  ultimately show ?thesis unfolding uri_query_def h using parse_each_pair [OF assms(2)] by simp
qed

lemma bullhorn_scheme: "to_lower (takeWhile (\<lambda>c. c \<noteq> CHR '':'') (''bullhorn://'' @ t)) = ''bullhorn''"
proof -
  have "takeWhile (\<lambda>c. c \<noteq> CHR '':'') (''bullhorn://'' @ t) = ''bullhorn''" by simp
  moreover have "to_lower ''bullhorn'' = ''bullhorn''" by code_simp
  ultimately show ?thesis by simp
qed

text \<open>C35: The source refuses every URI the runner builds: \<open>sourceURI\<close> has no client secret, and
  \<open>parseURI\<close> asks for one before anything else but the client id, so no configured run connects
  (the values being free of the characters with a meaning in a query); a URI with a control character is
  refused even before that.\<close>

theorem runner_uri_refused:
  assumes "\<forall>v \<in> {re_client_id env, token, re_username env, re_data_center env, re_rate_limit env, out}. query_plain v"
    and "re_client_id env \<noteq> []"
  shows "parse_uri (source_uri env token out) =
    Inl (if has_control (source_uri env token out) then InvalidUri else ClientSecretRequired)"
proof -
  have k: "\<forall>k \<in> {''client_id'', ''refresh_token'', ''username'', ''data_center'', ''rate_limit'', ''token_output''}. query_plain k"
    by (simp add: query_plain_def)
  have "uri_query (source_uri env token out) = uri_pairs env token out"
    unfolding source_uri_text by (rule uri_query_plain) (use assms(1) k in \<open>auto simp: uri_pairs_def\<close>)
  moreover have "to_lower (takeWhile (\<lambda>c. c \<noteq> CHR '':'') (source_uri env token out)) = ''bullhorn''"
    unfolding source_uri_text by (rule bullhorn_scheme)
  ultimately show ?thesis using assms(2) by (simp add: parse_uri_def uri_pairs_def Let_def)
qed

theorem runner_uri_refused_witness: "parse_uri (source_uri sample_env ''tok'' ''t/x'') = Inl ClientSecretRequired"
proof -
  have "\<forall>v \<in> {re_client_id sample_env, ''tok'', re_username sample_env, re_data_center sample_env, re_rate_limit sample_env, ''t/x''}.
      query_plain v" by code_simp
  moreover have "re_client_id sample_env \<noteq> []" by (simp add: sample_env_def)
  ultimately have "parse_uri (source_uri sample_env ''tok'' ''t/x'') =
      Inl (if has_control (source_uri sample_env ''tok'' ''t/x'') then InvalidUri else ClientSecretRequired)"
    by (rule runner_uri_refused)
  moreover have "\<not> has_control (source_uri sample_env ''tok'' ''t/x'')" by code_simp
  ultimately show ?thesis by simp
qed

text \<open>The number of calls reaches the runner's budget: what \<open>Close\<close> writes into the call-count file is
  read back by the runner as the same number, for every count.\<close>

theorem call_count_handover:
  assumes "w_env (bh_world s) ''AFC_CALL_COUNT_FILE'' = path" "path \<noteq> []" "is_int64 (bh_call_count s)"
    and "\<not> w_fault (bh_world s) IoWrite" "\<not> w_fault (bh_world s) IoRead"
  shows "\<exists>d. read_text path (bh_world (close_source s)) = Some d \<and> parse_call_count d = Some (bh_call_count s)"
proof -
  have "\<forall>c \<in> set (itoa (bh_call_count s)). \<not> is_space c"
    using set_itoa by (auto simp: is_space_def is_digit_def dest!: set_itoa)
  then have "trim_space (itoa (bh_call_count s)) = itoa (bh_call_count s)" by (rule trim_space_no_space)
  then show ?thesis
    using assms by (simp add: close_source_def read_text_def put_file_def parse_call_count_def Let_def)
qed

theorem call_count_handover_witness:
  "\<exists>d. read_text ''n'' (bh_world (close_source (sample_session\<lparr>bh_call_count := 1234,
     bh_world := (sample_world (\<lambda>i. False))\<lparr>w_env := (\<lambda>k. ''n'')\<rparr>\<rparr>))) = Some d \<and> parse_call_count d = Some 1234"
proof -
  let ?s = "sample_session\<lparr>bh_call_count := 1234, bh_world := (sample_world (\<lambda>i. False))\<lparr>w_env := (\<lambda>k. ''n'')\<rparr>\<rparr>"
  have "\<exists>d. read_text ''n'' (bh_world (close_source ?s)) = Some d \<and> parse_call_count d = Some (bh_call_count ?s)"
    by (rule call_count_handover) (simp_all add: is_int64_def min_int64_def max_int64_def sample_world_def)
  then show ?thesis by simp
qed

text \<open>C36: The subscription cursor survives from run to run: the document the source saves is taken over by the
  runner into its state (and its file removed, if it can be), and handed out again to the next run it is the number
  the source saved.\<close>

theorem cursor_handover:
  assumes "save_subscription_state (subscription_state_path env) n w = (None, w1)" "is_int64 n" "\<not> w_fault w IoRead"
  shows "case finish_subscription env st w1 of (st', w2) \<Rightarrow>
    (\<not> w_fault w IoRemove \<longrightarrow> w_files w2 (subscription_state_path env) = None) \<and>
    load_subscription_state (subscription_state_path env)
      (put_file (subscription_state_path env) (Text (rs_subscription_request_id st')) w2) = Inr n"
proof -
  let ?d = "subscription_document n"
  have t: "trim_space ?d = ?d" by (rule trim_space_id) (simp add: subscription_document_def is_space_def)
  have "w_files w1 (subscription_state_path env) = Some (Text ?d)" "w_fault w1 = w_fault w"
    using assms(1) by (auto simp: save_subscription_state_def rename_file_def put_file_def Let_def split: if_splits)
  then show ?thesis
    using assms(3) subscription_document_parse [OF assms(2)]
    by (simp add: finish_subscription_def read_text_def load_subscription_state_def put_file_def remove_file_def t Let_def)
qed

theorem cursor_handover_witness:
  "w_files (snd (finish_subscription sample_env new_state
     (snd (save_subscription_state (subscription_state_path sample_env) 42 (sample_world (\<lambda>i. False)))))) (subscription_state_path sample_env)
   = None"
proof -
  let ?w = "sample_world (\<lambda>i. False)" and ?p = "subscription_state_path sample_env"
  have "save_subscription_state ?p 42 ?w = (None, snd (save_subscription_state ?p 42 ?w))"
    by (simp add: save_subscription_state_def sample_world_def Let_def)
  moreover have "is_int64 42" "\<not> w_fault ?w IoRead" "\<not> w_fault ?w IoRemove"
    by (simp_all add: is_int64_def min_int64_def max_int64_def sample_world_def)
  ultimately show ?thesis using cursor_handover [of sample_env 42 ?w _ new_state] by (simp add: split_beta)
qed

text \<open>Before the token file is removed, rotation would work: on the world that \<open>persistToken\<close> leaves, the
  runner's rotation puts the new token, unchanged, into the secret store. (It is the order of
  \<open>runEntity\<close>'s deferred removal and of the rotation that loses it.)\<close>

theorem token_handover:
  assumes "persist_token (token_out_path env (ec_table e)) token w = (None, w1)" "token \<noteq> []" "trim_space token = token"
    and "\<not> w_fault w IoRead"
  shows "rotate_token_if_present va store env e w1 = set_secret va store ''bullhorn_refresh_token'' token w1"
proof -
  have "w_files w1 (token_out_path env (ec_table e)) = Some (Text token)" "w_fault w1 = w_fault w"
    using assms(1) by (auto simp: persist_token_def rename_file_def put_file_def Let_def split: if_splits)
  then show ?thesis using assms(2-4) by (simp add: rotate_token_if_present_def read_text_def Let_def)
qed

theorem token_handover_witness:
  "rotate_token_if_present sample_vault (FileStore ''p'') sample_env (sample_entity ''x'' ''search'' True)
     (snd (persist_token ''t/afc-token-x.json'' ''new'' (sample_world (\<lambda>i. False)))) =
   set_secret sample_vault (FileStore ''p'') ''bullhorn_refresh_token'' ''new''
     (snd (persist_token ''t/afc-token-x.json'' ''new'' (sample_world (\<lambda>i. False))))"
proof -
  let ?w = "sample_world (\<lambda>i. False)" and ?e = "sample_entity ''x'' ''search'' True"
  have p: "token_out_path sample_env (ec_table ?e) = ''t/afc-token-x.json''"
    by (simp add: token_out_path_def join_path_def sample_env_def sample_entity_def)
  have "persist_token (token_out_path sample_env (ec_table ?e)) ''new'' ?w = (None, snd (persist_token ''t/afc-token-x.json'' ''new'' ?w))"
    by (simp add: p persist_token_def sample_world_def Let_def)
  moreover have "trim_space ''new'' = ''new''" by code_simp
  ultimately show ?thesis using token_handover [of sample_env ?e "''new''" ?w] by (simp add: sample_world_def)
qed

end
